(* ===== verification/Prelude.thy ===== *)
theory Prelude
  imports Main "HOL-Library.Word"
begin

text \<open>
  Shared vocabulary of the OpenZL development: the machine integer types, the error codes of
  the library with the result type that carries them, the named collections of simplification
  rules the components extend, and the generic facts on lists and words they rest on.
\<close>

unbundle bit_operations_syntax

named_theorems mem_simps \<open>reading and writing little-endian memory\<close>
named_theorems vm_simps \<open>unfolding of the SDDL2 virtual machine's operations\<close>
named_theorems codec_simps \<open>unfolding of codec bindings and kernels\<close>

section \<open>Machine types\<close>

type_synonym u8 = "8 word"
type_synonym u16 = "16 word"
type_synonym u32 = "32 word"
type_synonym u64 = "64 word"

text \<open>\<^verbatim>\<open>size_t\<close> is a 64-bit word; \<^verbatim>\<open>int64_t\<close> is a 64-bit word read by \<^const>\<open>sint\<close>.\<close>

type_synonym size_t = "64 word"
type_synonym i64 = "64 word"
type_synonym byte = "8 word"

abbreviation SIZE_MAX :: size_t where "SIZE_MAX \<equiv> - 1"
abbreviation INT64_MAX :: int where "INT64_MAX \<equiv> 9223372036854775807"
abbreviation INT64_MIN :: int where "INT64_MIN \<equiv> - 9223372036854775808"

section \<open>Library error codes\<close>

datatype (plugins only: code) ZL_ErrorCode =
    ZL_ErrorCode_GENERIC
  | ZL_ErrorCode_srcSize_tooSmall
  | ZL_ErrorCode_srcSize_tooLarge
  | ZL_ErrorCode_dstCapacity_tooSmall
  | ZL_ErrorCode_userBuffer_alignmentIncorrect
  | ZL_ErrorCode_decompression_incorrectAPI
  | ZL_ErrorCode_userBuffers_invalidNum
  | ZL_ErrorCode_invalidName
  | ZL_ErrorCode_header_unknown
  | ZL_ErrorCode_frameParameter_unsupported
  | ZL_ErrorCode_corruption
  | ZL_ErrorCode_compressedChecksumWrong
  | ZL_ErrorCode_contentChecksumWrong
  | ZL_ErrorCode_outputs_tooNumerous
  | ZL_ErrorCode_compressionParameter_invalid
  | ZL_ErrorCode_parameter_invalid
  | ZL_ErrorCode_outputID_invalid
  | ZL_ErrorCode_invalidRequest_singleOutputFrameOnly
  | ZL_ErrorCode_outputNotCommitted
  | ZL_ErrorCode_outputNotReserved
  | ZL_ErrorCode_segmenter_inputNotConsumed
  | ZL_ErrorCode_segmenter_noSegments
  | ZL_ErrorCode_graph_invalid
  | ZL_ErrorCode_graph_nonserializable
  | ZL_ErrorCode_invalidTransform
  | ZL_ErrorCode_graph_invalidNumInputs
  | ZL_ErrorCode_graph_parser_malformedInput
  | ZL_ErrorCode_graph_parser_unhandledInput
  | ZL_ErrorCode_successor_invalid
  | ZL_ErrorCode_successor_alreadySet
  | ZL_ErrorCode_successor_invalidNumInputs
  | ZL_ErrorCode_inputType_unsupported
  | ZL_ErrorCode_graphParameter_invalid
  | ZL_ErrorCode_nodeParameter_invalid
  | ZL_ErrorCode_nodeParameter_invalidValue
  | ZL_ErrorCode_transform_executionFailure
  | ZL_ErrorCode_customNode_definitionInvalid
  | ZL_ErrorCode_node_unexpected_input_type
  | ZL_ErrorCode_node_invalid_input
  | ZL_ErrorCode_node_invalid
  | ZL_ErrorCode_nodeExecution_invalidOutputs
  | ZL_ErrorCode_nodeRegen_countIncorrect
  | ZL_ErrorCode_formatVersion_unsupported
  | ZL_ErrorCode_formatVersion_notSet
  | ZL_ErrorCode_node_versionMismatch
  | ZL_ErrorCode_dict_corruption
  | ZL_ErrorCode_dict_materialization
  | ZL_ErrorCode_noValidMaterialization
  | ZL_ErrorCode_dictNoRecord
  | ZL_ErrorCode_allocation
  | ZL_ErrorCode_internalBuffer_tooSmall
  | ZL_ErrorCode_integerOverflow
  | ZL_ErrorCode_stream_wrongInit
  | ZL_ErrorCode_streamType_incorrect
  | ZL_ErrorCode_streamCapacity_tooSmall
  | ZL_ErrorCode_streamParameter_invalid
  | ZL_ErrorCode_logicError
  | ZL_ErrorCode_temporaryLibraryLimitation

type_synonym 'a ZL_Result = "ZL_ErrorCode + 'a"

text \<open>
  \<open>res_bind\<close> is the \<^verbatim>\<open>ZL_TRY_LET\<close> / \<^verbatim>\<open>ZL_ERR_IF_ERR\<close> discipline: the first error returns.
\<close>

definition res_bind :: "'a ZL_Result \<Rightarrow> ('a \<Rightarrow> 'b ZL_Result) \<Rightarrow> 'b ZL_Result" where
  "res_bind r f = (case r of Inl e \<Rightarrow> Inl e | Inr x \<Rightarrow> f x)"

lemma res_bind_simps [simp]:
  "res_bind (Inl e) f = Inl e"
  "res_bind (Inr x) f = f x"
  by (simp_all add: res_bind_def)

lemma res_bind_eq_Inr [simp]:
  "res_bind r f = Inr y \<longleftrightarrow> (\<exists>x. r = Inr x \<and> f x = Inr y)"
  by (cases r) simp_all

section \<open>Words\<close>

lemma unat_lt2p64 [simp]: "unat (w :: u64) < 18446744073709551616"
  using unsigned_less [of w, where ?'a = nat] by simp

lemma unat_lt2p32 [simp]: "unat (w :: u32) < 4294967296"
  using unsigned_less [of w, where ?'a = nat] by simp

lemma sint_range64: "INT64_MIN \<le> sint (w :: u64)" "sint (w :: u64) \<le> INT64_MAX"
  using sint_greater_eq [of w] sint_less [of w] by simp_all

lemma sint_nonneg_uint:
  fixes w :: "'a::len word"
  assumes "0 \<le> sint w"
  shows "uint w = sint w"
proof -
  have "sint w < 2 ^ LENGTH('a)"
    using sint_lt [of w] by (rule less_le_trans) simp
  with assms show ?thesis
    by (simp add: uint_sint take_bit_int_eq_self)
qed

lemma sint_nonneg_unat: "0 \<le> sint (w :: 'a::len word) \<Longrightarrow> unat w = nat (sint w)"
  by (simp add: unat_eq_nat_uint sint_nonneg_uint)

lemma unat_of_nat_u64: "n < 18446744073709551616 \<Longrightarrow> unat (word_of_nat n :: u64) = n"
  by (simp add: unat_of_nat)

lemma unat_add_no_wrap64:
  "unat (a + b :: u64) = unat a + unat b \<longleftrightarrow> unat a + unat b < 18446744073709551616"
  using unat_lt2p64 [of "a + b"] by (auto simp: unat_word_ariths)

lemma unat_drop_bit: "unat (drop_bit n (w :: 'a::len word)) = unat w div 2 ^ n"
  by (simp only: unat_drop_bit_eq drop_bit_eq_div [where ?'a = nat])

lemma unat_less_exp_bits:
  "unat w < 2 ^ n \<longleftrightarrow> (\<forall>k \<ge> n. \<not> bit (w :: 'a::len word) k)"
proof
  assume "unat w < 2 ^ n"
  then have "unat (drop_bit n w) = 0" by (simp add: unat_drop_bit)
  then have z: "drop_bit n w = 0" by (simp only: unat_eq_0)
  show "\<forall>k \<ge> n. \<not> bit w k"
  proof (intro allI impI)
    fix k
    assume "n \<le> k"
    then have "bit w k \<longleftrightarrow> bit (drop_bit n w) (k - n)" by (simp add: bit_simps)
    then show "\<not> bit w k" by (simp add: z)
  qed
next
  assume "\<forall>k \<ge> n. \<not> bit w k"
  then have "take_bit n w = w" by (intro bit_word_eqI) (auto simp: bit_simps intro: ccontr)
  then have "unat w = take_bit n (unat w)" by (metis unsigned_take_bit_eq)
  then show "unat w < 2 ^ n" by (metis take_bit_nat_less_exp)
qed

lemma unat_ucast_byte [simp]: "unat (ucast (b :: byte) :: u64) = unat b"
proof -
  have "unat b < 2 ^ 64" using unsigned_less [of b, where ?'a = nat] by simp
  then show ?thesis by (simp add: unsigned_ucast_eq take_bit_nat_eq_self)
qed

lemma ucast_byte_down: "ucast (ucast (b :: byte) :: u64) = b"
  by (rule bit_word_eqI) (simp add: bit_simps)

lemma unat_and_not_mask:
  assumes "b AND NOT (mask n) = (0 :: 'a::len word)"
  shows "unat b < 2 ^ n"
  unfolding unat_less_exp_bits
proof (intro allI impI)
  fix k
  assume "n \<le> k"
  moreover have "\<not> bit (b AND NOT (mask n)) k" using assms by simp
  ultimately show "\<not> bit b k" by (auto simp: bit_simps dest: bit_imp_le_length)
qed

section \<open>Lists\<close>

lemma sum_list_map_le_member:
  fixes f :: "'a \<Rightarrow> nat"
  assumes "x \<in> set xs"
  shows "f x \<le> sum_list (map f xs)"
  using assms by (induction xs) auto

lemma length_concat_same:
  assumes "\<And>x. x \<in> set xs \<Longrightarrow> length (f x) = n"
  shows "length (concat (map f xs)) = n * length xs"
  using assms by (induction xs) auto

end
