(* ===== verification/Mem.thy ===== *)
theory Mem
  imports Prelude
begin

text \<open>
  The memory helpers every component reads and writes through: \<^verbatim>\<open>shared/mem.h\<close> and the byte
  swaps of \<^verbatim>\<open>shared/bits.h\<close>, the overflow-checked arithmetic of \<^verbatim>\<open>shared/overflow.h\<close> and the
  width helpers of \<^verbatim>\<open>shared/utils.h\<close>. A pointer is the list of bytes it points at.
\<close>

section \<open>Little- and big-endian memory accesses\<close>

text \<open>
  On the little-endian host the model fixes (\<^verbatim>\<open>ZL_isLittleEndian()\<close>), \<^verbatim>\<open>memcpy\<close> of a
  \<open>n\<close>-byte integer reads and writes its bytes least significant first. \<open>read_le\<close> and
  \<open>write_le\<close> are that byte order, for every word type; the accessors of \<^verbatim>\<open>mem.h\<close> are
  instances.
\<close>

primrec read_le :: "byte list \<Rightarrow> 'a::len word" where
  "read_le [] = 0"
| "read_le (b # bs) = ucast b OR push_bit 8 (read_le bs)"

definition write_le :: "nat \<Rightarrow> 'a::len word \<Rightarrow> byte list" where
  "write_le n w = map (\<lambda>i. ucast (drop_bit (8 * i) w)) [0..<n]"

lemma length_write_le [simp]: "length (write_le n w) = n"
  by (simp add: write_le_def)

lemma bit_read_le:
  "bit (read_le bs :: 'a::len word) k \<longleftrightarrow>
     k < LENGTH('a) \<and> k < 8 * length bs \<and> bit (bs ! (k div 8)) (k mod 8)"
proof (induction bs arbitrary: k)
  case Nil
  then show ?case by simp
next
  case (Cons b bs)
  show ?case
  proof (cases "k < 8")
    case True
    then show ?thesis
      by (auto simp: bit_simps)
  next
    case False
    then have "k = k - 8 + 8" by simp
    then have d: "k div 8 = Suc ((k - 8) div 8)" "k mod 8 = (k - 8) mod 8"
      by (simp_all add: le_div_geq le_mod_geq)
    have nb: "\<not> bit b k" using False bit_imp_le_length [of b k] by auto
    show ?thesis
      using False nb by (auto simp: bit_simps Cons.IH d dest: bit_imp_le_length)
  qed
qed

lemma read_le_write_le: "read_le (write_le n w) = (take_bit (8 * n) w :: 'a::len word)"
proof (rule bit_word_eqI)
  fix k
  assume k: "k < LENGTH('a)"
  show "bit (read_le (write_le n w) :: 'a word) k = bit (take_bit (8 * n) w) k"
  proof (cases "k < 8 * n")
    case True
    then have "k div 8 < n" by simp
    then show ?thesis
      using k True by (simp add: bit_read_le write_le_def bit_simps)
  next
    case False
    then show ?thesis by (simp add: bit_read_le bit_simps)
  qed
qed

lemma read_le_write_le_full [mem_simps]:
  "LENGTH('a) \<le> 8 * n \<Longrightarrow> read_le (write_le n w) = (w :: 'a::len word)"
  by (simp add: read_le_write_le take_bit_word_eq_self)

lemma write_le_read_le [mem_simps]:
  assumes "8 * length bs \<le> LENGTH('a::len)"
  shows "write_le (length bs) (read_le bs :: 'a word) = bs"
proof (rule nth_equalityI)
  show "length (write_le (length bs) (read_le bs :: 'a word)) = length bs" by simp
next
  fix i
  assume "i < length (write_le (length bs) (read_le bs :: 'a word))"
  then have i: "i < length bs" by simp
  show "write_le (length bs) (read_le bs :: 'a word) ! i = bs ! i"
  proof (rule bit_word_eqI)
    fix k
    assume "k < LENGTH(8)"
    then have k: "k < 8" by simp
    have "8 * i + k < 8 * length bs" using i k by simp
    then show "bit (write_le (length bs) (read_le bs :: 'a word) ! i) k = bit (bs ! i) k"
      using assms i k by (simp add: write_le_def bit_simps bit_read_le)
  qed
qed

subsection \<open>Typed arrays over bytes\<close>

text \<open>A buffer of \<open>n\<close>-byte integers, as the casts of the kernels see it.\<close>

fun read_elts :: "nat \<Rightarrow> byte list \<Rightarrow> 'a::len word list" where
  "read_elts n bs =
     (if n = 0 \<or> length bs < n then [] else read_le (take n bs) # read_elts n (drop n bs))"

declare read_elts.simps [simp del]

definition write_elts :: "nat \<Rightarrow> 'a::len word list \<Rightarrow> byte list" where
  "write_elts n ws = concat (map (write_le n) ws)"

lemma write_elts_simps [simp]:
  "write_elts n [] = []"
  "write_elts n (w # ws) = write_le n w @ write_elts n ws"
  "write_elts n (vs @ ws) = write_elts n vs @ write_elts n ws"
  by (simp_all add: write_elts_def)

lemma length_write_elts [simp]: "length (write_elts n ws) = n * length ws"
  by (induction ws) simp_all

lemma length_read_elts [simp]: "0 < n \<Longrightarrow> length (read_elts n bs) = length bs div n"
proof (induction n bs rule: read_elts.induct)
  case (1 n bs)
  then show ?case
    by (cases "length bs < n") (simp_all add: read_elts.simps [of n bs] le_div_geq)
qed

lemma read_elts_append:
  assumes "0 < n" "length bs = n"
  shows "read_elts n (bs @ cs) = read_le bs # read_elts n cs"
  using assms by (subst read_elts.simps) simp

lemma read_elts_write_elts [mem_simps]:
  "0 < n \<Longrightarrow> LENGTH('a) \<le> 8 * n \<Longrightarrow> read_elts n (write_elts n ws) = (ws :: 'a::len word list)"
proof (induction ws)
  case Nil
  then show ?case by (subst read_elts.simps) simp
next
  case (Cons w ws)
  then show ?case by (simp add: read_elts_append read_le_write_le_full)
qed

lemma write_elts_read_elts [mem_simps]:
  assumes "8 * n \<le> LENGTH('a::len)" "0 < n" "n dvd length bs"
  shows "write_elts n (read_elts n bs :: 'a word list) = bs"
  using assms
proof (induction n bs rule: read_elts.induct)
  case (1 n bs)
  show ?case
  proof (cases "length bs < n")
    case True
    with "1.prems" have "bs = []"
      using nat_dvd_not_less by fastforce
    with "1.prems"(2) show ?thesis by (simp add: read_elts.simps [of n "[]"])
  next
    case False
    with "1.prems" have "n dvd length (drop n bs)" by simp
    with "1.IH" "1.prems" False
    have "write_elts n (read_elts n (drop n bs) :: 'a word list) = drop n bs" by simp
    moreover have "write_le n (read_le (take n bs) :: 'a word) = take n bs"
      using write_le_read_le [of "take n bs", where ?'a = 'a] "1.prems"(1) False by simp
    ultimately show ?thesis
      using "1.prems"(2) False by (simp add: read_elts.simps [of n bs])
  qed
qed

section \<open>Accessors of mem.h\<close>

definition ZL_read8 :: "byte list \<Rightarrow> u8" where
  "ZL_read8 p = read_le (take 1 p)"
definition ZL_read16 :: "byte list \<Rightarrow> u16" where
  "ZL_read16 p = read_le (take 2 p)"
definition ZL_read32 :: "byte list \<Rightarrow> u32" where
  "ZL_read32 p = read_le (take 4 p)"
definition ZL_read64 :: "byte list \<Rightarrow> u64" where
  "ZL_read64 p = read_le (take 8 p)"

definition ZL_isLegalIntegerWidth :: "nat \<Rightarrow> bool" where
  "ZL_isLegalIntegerWidth width \<longleftrightarrow> width = 1 \<or> width = 2 \<or> width = 4 \<or> width = 8"

definition ZL_readN :: "byte list \<Rightarrow> nat \<Rightarrow> u64" where
  "ZL_readN p kWidth =
     (if kWidth = 1 then ucast (ZL_read8 p)
      else if kWidth = 2 then ucast (ZL_read16 p)
      else if kWidth = 4 then ucast (ZL_read32 p)
      else if kWidth = 8 then ZL_read64 p
      else 0)"

definition ZL_writeN :: "u64 \<Rightarrow> nat \<Rightarrow> byte list" where
  "ZL_writeN val kWidth =
     (if kWidth = 1 then write_le 1 (ucast val :: u8)
      else if kWidth = 2 then write_le 2 (ucast val :: u16)
      else if kWidth = 4 then write_le 4 (ucast val :: u32)
      else if kWidth = 8 then write_le 8 val
      else [])"

text \<open>The byte loops \<^verbatim>\<open>ZL_readLE64_N\<close> and \<^verbatim>\<open>ZL_writeLE64_N\<close>.\<close>

definition ZL_readLE64_N :: "byte list \<Rightarrow> nat \<Rightarrow> u64" where
  "ZL_readLE64_N p nbBytes =
     foldl (\<lambda>r n. r + push_bit (8 * n) (ucast (p ! n))) 0 [0..<nbBytes]"

definition ZL_writeLE64_N :: "u64 \<Rightarrow> nat \<Rightarrow> byte list" where
  "ZL_writeLE64_N val64 nbBytes = map (\<lambda>n. ucast (drop_bit (8 * n) val64)) [0..<nbBytes]"

lemma ucast_read_le:
  assumes "8 * length bs \<le> LENGTH('a::len)" "LENGTH('a) \<le> LENGTH('b::len)"
  shows "ucast (read_le bs :: 'a word) = (read_le bs :: 'b word)"
  by (rule bit_word_eqI) (use assms in \<open>auto simp: bit_simps bit_read_le\<close>)

lemma ZL_readN_read_le:
  "ZL_isLegalIntegerWidth w \<Longrightarrow> ZL_readN p w = read_le (take w p)"
  by (auto simp: ZL_isLegalIntegerWidth_def ZL_readN_def ZL_read8_def ZL_read16_def
      ZL_read32_def ZL_read64_def ucast_read_le)

lemma write_le_ucast:
  assumes "8 * n \<le> LENGTH('b::len)" "8 * n \<le> LENGTH('a::len)"
  shows "write_le n (ucast (w :: 'a word) :: 'b word) = write_le n w"
proof (rule nth_equalityI)
  fix i
  assume "i < length (write_le n (ucast w :: 'b word))"
  then have i: "i < n" by simp
  show "write_le n (ucast w :: 'b word) ! i = write_le n w ! i"
    by (rule bit_word_eqI) (use i assms in \<open>auto simp: write_le_def bit_simps\<close>)
qed simp

lemma ZL_writeN_write_le:
  "ZL_isLegalIntegerWidth w \<Longrightarrow> ZL_writeN v w = write_le w v"
  by (auto simp: ZL_isLegalIntegerWidth_def ZL_writeN_def write_le_ucast)

lemma ZL_writeLE64_N_write_le: "ZL_writeLE64_N v n = write_le n v"
  by (simp add: ZL_writeLE64_N_def write_le_def)

lemma foldl_bytes_read_le:
  assumes "n \<le> length p" "n \<le> 8"
  shows "foldl (\<lambda>r n. r + push_bit (8 * n) (ucast (p ! n))) 0 [0..<n]
           = (read_le (take n p) :: u64)"
  using assms
proof (induction n)
  case 0
  then show ?case by simp
next
  case (Suc n)
  have disj: "(read_le (take n p) :: u64) AND push_bit (8 * n) (ucast (p ! n)) = 0"
    by (rule bit_word_eqI) (auto simp: bit_simps bit_read_le)
  have "(read_le (take (Suc n) p) :: u64)
          = read_le (take n p) OR push_bit (8 * n) (ucast (p ! n))"
  proof (rule bit_word_eqI)
    fix k
    assume k: "k < LENGTH(64)"
    have nb: "bit (p ! n) j \<Longrightarrow> j < 8" for j
      using bit_imp_le_length [of "p ! n" j] by simp
    show "bit (read_le (take (Suc n) p) :: u64) k
            = bit (read_le (take n p) OR push_bit (8 * n) (ucast (p ! n)) :: u64) k"
    proof (cases "k < 8 * n")
      case True
      then have "k div 8 < n" by auto
      with True k Suc.prems show ?thesis
        by (auto simp: bit_simps bit_read_le)
    next
      case False
      then obtain j where j: "k = 8 * n + j"
        using le_Suc_ex not_less by blast
      show ?thesis
      proof (cases "j < 8")
        case True
        with j have "k div 8 = n" "k mod 8 = j" by simp_all
        with True k j Suc.prems show ?thesis
          by (auto simp: bit_simps bit_read_le)
      next
        case False
        with nb k j Suc.prems show ?thesis
          by (auto simp: bit_simps bit_read_le)
      qed
    qed
  qed
  with Suc disj show ?case
    by (simp add: disjunctive_add_eq_or)
qed

lemma ZL_readLE64_N_read_le:
  "n \<le> length p \<Longrightarrow> n \<le> 8 \<Longrightarrow> ZL_readLE64_N p n = read_le (take n p)"
  by (simp add: ZL_readLE64_N_def foldl_bytes_read_le)

section \<open>Byte swapping and big-endian reads\<close>

text \<open>
  \<open>bswap\<close> is the compiler's \<^verbatim>\<open>__builtin_bswapN\<close>: the bytes of the value in reverse order.
  The three \<open>_portable\<close> definitions are the \<^verbatim>\<open>#else\<close> branches of \<^verbatim>\<open>bits.h\<close>.
\<close>

definition bswap :: "'a::len word \<Rightarrow> 'a word" where
  "bswap w = read_le (rev (write_le (LENGTH('a) div 8) w))"

definition ZL_swap16_portable :: "u16 \<Rightarrow> u16" where
  "ZL_swap16_portable x = push_bit 8 x OR drop_bit 8 x"

definition ZL_swap32_portable :: "u32 \<Rightarrow> u32" where
  "ZL_swap32_portable x =
     (push_bit 24 x AND 0xff000000) OR (push_bit 8 x AND 0x00ff0000)
     OR (drop_bit 8 x AND 0x0000ff00) OR (drop_bit 24 x AND 0x000000ff)"

definition ZL_swap64_portable :: "u64 \<Rightarrow> u64" where
  "ZL_swap64_portable x =
     (push_bit 56 x AND 0xff00000000000000)
     OR (push_bit 40 x AND 0x00ff000000000000)
     OR (push_bit 24 x AND 0x0000ff00000000)
     OR (push_bit 8 x AND 0x000000ff000000)
     OR (drop_bit 8 x AND 0x00000000ff0000)
     OR (drop_bit 24 x AND 0x0000000000ff00)
     OR (drop_bit 40 x AND 0x000000000000ff)
     OR (drop_bit 56 x AND 0x00000000000000ff)"

definition ZL_readBE16 :: "byte list \<Rightarrow> u16" where
  "ZL_readBE16 p = bswap (ZL_read16 p)"
definition ZL_readBE32 :: "byte list \<Rightarrow> u32" where
  "ZL_readBE32 p = bswap (ZL_read32 p)"
definition ZL_readBE64 :: "byte list \<Rightarrow> u64" where
  "ZL_readBE64 p = bswap (ZL_read64 p)"

lemma bit_bswap:
  assumes "LENGTH('a) = 8 * n" "k < LENGTH('a)"
  shows "bit (bswap (w :: 'a::len word)) k = bit w (8 * (n - 1 - k div 8) + k mod 8)"
proof -
  have k8: "k div 8 < n" using assms by auto
  have idx: "n - Suc (k div 8) < n" using k8 by simp
  have lt: "8 * (n - 1 - k div 8) + k mod 8 < 8 * n"
    using k8 mod_less_divisor [of 8 k] by linarith
  show ?thesis
    using assms k8 idx lt by (simp add: bswap_def bit_read_le rev_nth write_le_def bit_simps)
qed

lemma bswap_read_le:
  assumes "8 * length bs = LENGTH('a::len)"
  shows "bswap (read_le bs :: 'a word) = read_le (rev bs)"
  using assms write_le_read_le [of bs, where ?'a = 'a]
  by (simp add: bswap_def flip: assms)

lemma swap16_portable_bswap: "ZL_swap16_portable x = bswap x"
proof (rule bit_word_eqI)
  fix k
  assume k: "k < LENGTH(16)"
  show "bit (ZL_swap16_portable x) k = bit (bswap x) k"
  proof (cases "k < 8")
    case True
    then show ?thesis
      by (simp add: ZL_swap16_portable_def bit_simps bit_bswap [where n = 2] add.commute)
  next
    case False
    then obtain j where "k = 8 + j"
      using le_Suc_ex not_less by blast
    with k show ?thesis
      using bit_imp_le_length [of x "16 + j"]
      by (auto simp: ZL_swap16_portable_def bit_simps bit_bswap [where n = 2])
  qed
qed

lemma swap32_portable_masks:
  "ZL_swap32_portable x =
     (push_bit 24 x AND push_bit 24 (mask 8)) OR (push_bit 8 x AND push_bit 16 (mask 8))
     OR (drop_bit 8 x AND push_bit 8 (mask 8)) OR (drop_bit 24 x AND mask 8)"
  by (simp add: ZL_swap32_portable_def mask_eq_exp_minus_1)

lemma swap32_portable_bswap: "ZL_swap32_portable x = bswap x"
proof (rule bit_word_eqI)
  fix k
  assume k: "k < LENGTH(32)"
  define i j where "i = k div 8" and "j = k mod 8"
  have kij: "k = 8 * i + j" and j: "j < 8" by (simp_all add: i_def j_def)
  have "bit (bswap x) k = bit x (8 * (3 - i) + j)"
    using k by (simp add: bit_bswap [where n = 4] i_def j_def)
  moreover have "i = 0 \<or> i = 1 \<or> i = 2 \<or> i = 3" using k kij by simp linarith
  ultimately show "bit (ZL_swap32_portable x) k = bit (bswap x) k"
    using j by (elim disjE) (simp_all add: kij swap32_portable_masks bit_simps add.commute)
qed

lemma swap64_portable_example:
  "ZL_swap64_portable 0x0102030405060708 \<noteq> bswap 0x0102030405060708"
  by (simp add: ZL_swap64_portable_def bswap_def write_le_def upt_rec)

section \<open>Overflow-checked arithmetic\<close>

text \<open>
  \<^verbatim>\<open>__builtin_mul_overflow\<close> and \<^verbatim>\<open>__builtin_add_overflow\<close>: the flag says whether the exact
  result does not fit, the value is the result modulo the width.
\<close>

definition builtin_mul_overflow :: "'a::len word \<Rightarrow> 'a word \<Rightarrow> bool \<times> 'a word" where
  "builtin_mul_overflow x y = (2 ^ LENGTH('a) \<le> unat x * unat y, x * y)"

definition builtin_add_overflow :: "'a::len word \<Rightarrow> 'a word \<Rightarrow> bool \<times> 'a word" where
  "builtin_add_overflow x y = (2 ^ LENGTH('a) \<le> unat x + unat y, x + y)"

definition ZL_overflowMulU32_fallback :: "u32 \<Rightarrow> u32 \<Rightarrow> bool \<times> u32" where
  "ZL_overflowMulU32_fallback x y = (0 < y \<and> - 1 div y < x, x * y)"
definition ZL_overflowMulU64_fallback :: "u64 \<Rightarrow> u64 \<Rightarrow> bool \<times> u64" where
  "ZL_overflowMulU64_fallback x y = (0 < y \<and> - 1 div y < x, x * y)"
definition ZL_overflowAddU32_fallback :: "u32 \<Rightarrow> u32 \<Rightarrow> bool \<times> u32" where
  "ZL_overflowAddU32_fallback x y = (- 1 - y < x, x + y)"
definition ZL_overflowAddU64_fallback :: "u64 \<Rightarrow> u64 \<Rightarrow> bool \<times> u64" where
  "ZL_overflowAddU64_fallback x y = (- 1 - y < x, x + y)"

definition ZL_overflowMulU32 :: "u32 \<Rightarrow> u32 \<Rightarrow> bool \<times> u32" where
  "ZL_overflowMulU32 x y = builtin_mul_overflow x y"
definition ZL_overflowMulU64 :: "u64 \<Rightarrow> u64 \<Rightarrow> bool \<times> u64" where
  "ZL_overflowMulU64 x y = builtin_mul_overflow x y"
definition ZL_overflowMulST :: "size_t \<Rightarrow> size_t \<Rightarrow> bool \<times> size_t" where
  "ZL_overflowMulST x y = builtin_mul_overflow x y"
definition ZL_overflowAddU32 :: "u32 \<Rightarrow> u32 \<Rightarrow> bool \<times> u32" where
  "ZL_overflowAddU32 x y = builtin_add_overflow x y"
definition ZL_overflowAddU64 :: "u64 \<Rightarrow> u64 \<Rightarrow> bool \<times> u64" where
  "ZL_overflowAddU64 x y = builtin_add_overflow x y"
definition ZL_overflowAddST :: "size_t \<Rightarrow> size_t \<Rightarrow> bool \<times> size_t" where
  "ZL_overflowAddST x y = builtin_add_overflow x y"

lemma unat_minus_1: "unat (- 1 :: 'a::len word) = 2 ^ LENGTH('a) - 1"
  by (simp add: unsigned_minus_1_eq_mask mask_eq_exp_minus_1)

lemma mul_overflow_division_test:
  "(0 < y \<and> - 1 div y < x) \<longleftrightarrow> 2 ^ LENGTH('a) \<le> unat x * unat (y :: 'a::len word)"
proof (cases "y = 0")
  case True
  then show ?thesis by simp
next
  case False
  let ?N = "2 ^ LENGTH('a) :: nat"
  have y: "0 < unat y" using False by (simp add: unat_gt_0)
  have "(- 1 div y < x) \<longleftrightarrow> (?N - 1) div unat y < unat x"
    by (simp add: word_less_nat_alt unat_div_distrib unat_minus_1)
  also have "\<dots> \<longleftrightarrow> \<not> unat x * unat y \<le> ?N - 1"
    by (simp only: less_eq_div_iff_mult_less_eq [OF y, symmetric] not_le)
  also have "\<dots> \<longleftrightarrow> ?N \<le> unat x * unat y"
    using zero_less_power [of "2 :: nat" "LENGTH('a)"] by linarith
  finally show ?thesis
    using False by (simp add: word_gt_0)
qed

lemma add_overflow_subtraction_test:
  "(- 1 - y < x) \<longleftrightarrow> 2 ^ LENGTH('a) \<le> unat x + unat (y :: 'a::len word)"
proof -
  have "unat y \<le> 2 ^ LENGTH('a) - 1"
    using unsigned_less [of y, where ?'a = nat] by linarith
  moreover have "y \<le> - 1" by simp
  ultimately have "unat (- 1 - y) = 2 ^ LENGTH('a) - 1 - unat y"
    by (simp add: unat_sub unat_minus_1)
  then show ?thesis
    unfolding word_less_nat_alt using unsigned_less [of y, where ?'a = nat] by linarith
qed

end
