(* ===== verification/Varint.thy ===== *)
theory Varint
  imports Mem
begin

text \<open>
  \<^verbatim>\<open>shared/varint.h\<close>: the base-128 integers that codec headers and frame headers are made of.
  A decoder takes the bytes between \<^verbatim>\<open>*src\<close> and \<^verbatim>\<open>end\<close> and returns the value with the bytes
  left. The canonical-form theorem for the strict decoders is an equivalence, so it gives the
  round trip in both directions.
\<close>


section \<open>Encoding\<close>

text \<open>\<^verbatim>\<open>ZL_clz64\<close> is the number of leading zero bits, \<^verbatim>\<open>__builtin_clzll\<close>.\<close>

definition ZL_clz64 :: "u64 \<Rightarrow> nat" where
  "ZL_clz64 val = length (takeWhile (\<lambda>i. \<not> bit val i) (rev [0..<64]))"

definition ZL_varintSize :: "u64 \<Rightarrow> nat" where
  "ZL_varintSize val = (let highbit = 64 - ZL_clz64 (val OR 1) in (highbit + 6) div 7)"

function ZL_varintEncode :: "u64 \<Rightarrow> byte list" where
  "ZL_varintEncode val =
     (if 128 \<le> val then (0x80 OR ucast (val AND 0x7f)) # ZL_varintEncode (drop_bit 7 val)
      else [ucast val])"
  by auto

termination ZL_varintEncode
  by (relation "measure unat") (auto simp: unat_drop_bit word_le_nat_alt)

declare ZL_varintEncode.simps [simp del]

section \<open>Decoding\<close>

text \<open>
  The unrolled path: byte \<open>i\<close> is shifted by \<open>7 * i\<close>, the tenth byte contributes one bit and
  must end the integer. The caller's length test makes the empty case unreachable.
\<close>

fun varintDecode_unrolled :: "nat \<Rightarrow> u64 \<Rightarrow> byte list \<Rightarrow> (u64 \<times> byte list) ZL_Result" where
  "varintDecode_unrolled i val [] = Inl ZL_ErrorCode_GENERIC"
| "varintDecode_unrolled i val (b # ptr) =
     (let val = val OR push_bit (7 * i) (ucast (b AND (if i = 9 then 0x01 else 0x7f))) in
      if \<not> bit b 7 then Inr (val, ptr)
      else if i = 9 then Inl ZL_ErrorCode_GENERIC
      else varintDecode_unrolled (Suc i) val ptr)"

text \<open>The byte loop for inputs shorter than the longest varint.\<close>

fun varintDecode_loop :: "nat \<Rightarrow> u64 \<Rightarrow> byte list \<Rightarrow> (u64 \<times> byte list) ZL_Result" where
  "varintDecode_loop shift val [] = Inl ZL_ErrorCode_GENERIC"
| "varintDecode_loop shift val (b # ptr) =
     (if bit b 7 then
        varintDecode_loop (shift + 7) (val OR push_bit shift (ucast (b AND 0x7f))) ptr
      else Inr (val OR push_bit shift (ucast b), ptr))"

definition ZL_varintDecode :: "byte list \<Rightarrow> (u64 \<times> byte list) ZL_Result" where
  "ZL_varintDecode src =
     (if 10 \<le> length src then varintDecode_unrolled 0 0 src else varintDecode_loop 0 0 src)"

text \<open>
  The strict decoders also reject a last byte with bits beyond the width, a byte too many
  and a last byte zero after the first (\<^verbatim>\<open>zeroAllowed\<close> is true at byte 0 only).
\<close>

fun varintStrict_unrolled ::
  "nat \<Rightarrow> nat \<Rightarrow> u64 \<Rightarrow> byte list \<Rightarrow> (u64 \<times> byte list) ZL_Result" where
  "varintStrict_unrolled kWidth i val [] = Inl ZL_ErrorCode_GENERIC"
| "varintStrict_unrolled kWidth i val (b # ptr) =
     (let val = val OR push_bit (7 * i) (ucast (b AND (if i = 9 then 0x01 else 0x7f))) in
      if \<not> bit b 7 then
        (if i = 4 \<and> kWidth = 4 \<and> b AND NOT 0xF \<noteq> 0 then Inl ZL_ErrorCode_GENERIC
         else if i = 9 \<and> b AND NOT 0x01 \<noteq> 0 then Inl ZL_ErrorCode_GENERIC
         else if \<not> i = 0 \<and> b = 0 then Inl ZL_ErrorCode_GENERIC
         else Inr (val, ptr))
      else if i = 4 \<and> kWidth = 4 then Inl ZL_ErrorCode_GENERIC
      else if i = 9 then Inl ZL_ErrorCode_GENERIC
      else varintStrict_unrolled kWidth (Suc i) val ptr)"

fun varintStrict_loop :: "nat \<Rightarrow> u64 \<Rightarrow> byte list \<Rightarrow> (u64 \<times> byte list) ZL_Result" where
  "varintStrict_loop iter val [] = Inl ZL_ErrorCode_GENERIC"
| "varintStrict_loop iter val (b # ptr) =
     (if bit b 7 then
        varintStrict_loop (Suc iter) (val OR push_bit (7 * iter) (ucast (b AND 0x7f))) ptr
      else if 0 < iter \<and> b = 0 then Inl ZL_ErrorCode_GENERIC
      else Inr (val OR push_bit (iter * 7) (ucast b), ptr))"

definition ZL_varintDecodeStrictImpl ::
  "byte list \<Rightarrow> nat \<Rightarrow> (u64 \<times> byte list) ZL_Result" where
  "ZL_varintDecodeStrictImpl src kWidth =
     (if (if kWidth = 4 then 5 else 10) \<le> length src
      then varintStrict_unrolled kWidth 0 0 src
      else varintStrict_loop 0 0 src)"

definition ZL_varintDecode32Strict :: "byte list \<Rightarrow> (u64 \<times> byte list) ZL_Result" where
  "ZL_varintDecode32Strict src = ZL_varintDecodeStrictImpl src 4"

definition ZL_varintDecode64Strict :: "byte list \<Rightarrow> (u64 \<times> byte list) ZL_Result" where
  "ZL_varintDecode64Strict src = ZL_varintDecodeStrictImpl src 8"

section \<open>The size of an encoding\<close>

lemma ZL_clz64_top_bit:
  assumes "bit v h" "\<And>j. h < j \<Longrightarrow> \<not> bit v j" "h < 64"
  shows "ZL_clz64 v = 63 - h"
proof -
  have "[0..<64] = [0..<h] @ h # [Suc h..<64]"
    using assms(3) by (metis upt_add_eq_append upt_conv_Cons le0 less_imp_le_nat le_add_diff_inverse)
  then have "rev [0..<64] = rev [Suc h..<64] @ h # rev [0..<h]" by simp
  moreover have "takeWhile (\<lambda>i. \<not> bit v i) (rev [Suc h..<64] @ h # rev [0..<h]) = rev [Suc h..<64]"
    using assms(1,2) by (subst takeWhile_append2) auto
  ultimately show ?thesis by (simp add: ZL_clz64_def)
qed

definition top_bit :: "u64 \<Rightarrow> nat" where
  "top_bit v = Max {i. bit (v OR 1) i}"

lemma top_bit:
  shows "bit (v OR 1) (top_bit v)" "bit (v OR 1) j \<Longrightarrow> j \<le> top_bit v" "top_bit v < 64"
proof -
  have fin: "finite {i. bit (v OR 1) i}"
    by (rule finite_subset [of _ "{..<64}"]) (auto dest: bit_imp_le_length)
  moreover have ne: "{i. bit (v OR 1) i} \<noteq> {}"
    by (auto simp: bit_simps intro!: exI [of _ 0])
  ultimately show b: "bit (v OR 1) (top_bit v)"
    using Max_in [OF fin ne] by (simp add: top_bit_def)
  show "bit (v OR 1) j \<Longrightarrow> j \<le> top_bit v"
    using fin by (simp add: top_bit_def)
  show "top_bit v < 64" using bit_imp_le_length [OF b] by simp
qed

lemma top_bitI:
  assumes "bit (v OR 1) h" "\<And>j. bit (v OR 1) j \<Longrightarrow> j \<le> h"
  shows "top_bit v = h"
  using top_bit [of v] assms by (meson le_antisym)

lemma ZL_varintSize_top_bit: "ZL_varintSize v = top_bit v div 7 + 1"
proof -
  have "ZL_clz64 (v OR 1) = 63 - top_bit v"
    using top_bit [of v] by (intro ZL_clz64_top_bit) (auto simp: not_le [symmetric])
  moreover have "(Suc (top_bit v) + 6) div 7 = top_bit v div 7 + 1" by simp
  ultimately show ?thesis
    using top_bit(3) [of v] by (simp add: ZL_varintSize_def Suc_diff_Suc)
qed

lemma drop_bit_7_nonzero:
  assumes "128 \<le> (v :: u64)"
  shows "drop_bit 7 v \<noteq> 0"
proof
  assume "drop_bit 7 v = 0"
  then have "unat v div 128 = 0" using unat_drop_bit [of 7 v] by simp
  with assms show False by (simp add: word_le_nat_alt)
qed

lemma top_bit_drop_bit:
  assumes "128 \<le> v"
  shows "top_bit v = top_bit (drop_bit 7 v) + 7"
proof (rule top_bitI)
  let ?d = "drop_bit 7 v"
  obtain k where k: "bit ?d k"
    using drop_bit_7_nonzero [OF assms] bit_eq_iff [of ?d 0] by auto
  have "bit ?d (top_bit ?d)"
  proof (cases "top_bit ?d = 0")
    case True
    with k top_bit(2) [of ?d k] show ?thesis by (auto simp: bit_simps)
  next
    case False
    with top_bit(1) [of ?d] show ?thesis by (auto simp: bit_simps)
  qed
  then show "bit (v OR 1) (top_bit ?d + 7)" by (simp add: bit_simps add.commute)
next
  fix j
  assume j: "bit (v OR 1) j"
  show "j \<le> top_bit (drop_bit 7 v) + 7"
  proof (cases "j < 7")
    case False
    then have "bit (drop_bit 7 v) (j - 7)" using j by (auto simp: bit_simps)
    then have "j - 7 \<le> top_bit (drop_bit 7 v)"
      by (intro top_bit(2)) (simp add: bit_simps)
    then show ?thesis by simp
  qed simp
qed

lemma top_bit_small:
  assumes "v < 128"
  shows "top_bit v < 7"
proof (rule ccontr)
  assume "\<not> top_bit v < 7"
  then obtain k where k: "top_bit v = 7 + k" by (metis le_Suc_ex not_less)
  with top_bit(1) [of v] have "bit (drop_bit 7 v) k" by (simp add: bit_simps)
  moreover have "drop_bit 7 v = 0"
  proof (rule unat_eq_0 [THEN iffD1])
    show "unat (drop_bit 7 v) = 0"
      using assms by (simp add: unat_drop_bit word_less_nat_alt)
  qed
  ultimately show False by simp
qed

lemma ZL_varintEncode_small [simp]: "val < 128 \<Longrightarrow> ZL_varintEncode val = [ucast val]"
  by (subst ZL_varintEncode.simps) (simp only: linorder_not_le [symmetric] if_False)

lemma ZL_varintEncode_large:
  "128 \<le> val \<Longrightarrow>
     ZL_varintEncode val = (0x80 OR ucast (val AND 0x7f)) # ZL_varintEncode (drop_bit 7 val)"
  by (subst ZL_varintEncode.simps) simp

lemma length_ZL_varintEncode: "length (ZL_varintEncode val) = ZL_varintSize val"
proof (induction val rule: ZL_varintEncode.induct)
  case (1 val)
  show ?case
  proof (cases "128 \<le> val")
    case True
    with 1 show ?thesis
      by (simp add: ZL_varintEncode_large ZL_varintSize_top_bit top_bit_drop_bit)
  next
    case False
    then show ?thesis
      using top_bit_small [of val] by (simp add: ZL_varintSize_top_bit not_le)
  qed
qed

lemma ZL_varintSize_bounds: "0 < ZL_varintSize val" "ZL_varintSize val \<le> 10"
  using top_bit(3) [of val] by (simp_all add: ZL_varintSize_top_bit)

section \<open>Round trip of the lax decoder\<close>

lemma and_7f: "(w :: 'a::len word) AND 0x7f = take_bit 7 w"
  by (simp add: take_bit_eq_mask mask_eq_exp_minus_1)

lemma take_bit_7_byte: "\<not> bit b 7 \<Longrightarrow> b AND 0x7f = (b :: byte)"
  unfolding and_7f
proof (rule bit_word_eqI)
  fix k
  assume "\<not> bit b 7" and "k < LENGTH(8)"
  then show "bit (take_bit 7 b) k = bit b k"
    by (cases "k = 7") (auto simp: bit_simps)
qed

lemma varintDecode_loop_unrolled:
  "i + length bs < 10 \<Longrightarrow>
     varintDecode_loop (7 * i) val bs = varintDecode_unrolled i val bs"
proof (induction bs arbitrary: i val)
  case (Cons b bs)
  from Cons.prems have "Suc i + length bs < 10" by simp
  from Cons.IH [OF this] Cons.prems show ?case
    by (simp add: add.commute take_bit_7_byte flip: and_7f)
qed simp

lemma ZL_varintDecode_unrolled: "ZL_varintDecode src = varintDecode_unrolled 0 0 src"
  using varintDecode_loop_unrolled [of 0 src 0] by (simp add: ZL_varintDecode_def)

text \<open>One byte of an encoding: its payload, its continuation bit, and the value it rebuilds.\<close>

lemma bit_7_continuation: "bit (0x80 OR w :: byte) 7"
  by (simp add: bit_simps bit_numeral_rec)

lemma payload_continuation:
  "ucast ((0x80 OR ucast (v AND 0x7f)) AND 0x7f :: byte) = (take_bit 7 v :: u64)" for v :: u64
proof -
  have "(0x80 :: byte) = push_bit 7 1" by simp
  then show ?thesis
    unfolding and_7f by (intro bit_word_eqI) (auto simp: bit_simps)
qed

lemma push_bit_split_7:
  "push_bit n (take_bit 7 v) OR push_bit (n + 7) (drop_bit 7 v) = push_bit n (v :: u64)"
proof (rule bit_word_eqI)
  fix k
  show "bit (push_bit n (take_bit 7 v) OR push_bit (n + 7) (drop_bit 7 v)) k = bit (push_bit n v) k"
    by (cases "n + 7 \<le> k") (auto simp: bit_simps add.commute)
qed

lemma unat_small_bit_7:
  assumes "v < 128"
  shows "\<not> bit (ucast (v :: u64) :: byte) 7" "ucast (ucast v :: byte) = v"
proof -
  have hi: "\<not> bit v (7 + k)" for k
    using assms unat_less_exp_bits [of v 7] by (simp add: word_less_nat_alt)
  then show "\<not> bit (ucast v :: byte) 7" using hi [of 0] by (simp add: bit_simps)
  show "ucast (ucast v :: byte) = v"
  proof (rule bit_word_eqI)
    fix k
    show "bit (ucast (ucast v :: byte) :: u64) k = bit v k"
      using hi [of "k - 7"] by (cases "k < 7") (auto simp: bit_simps)
  qed
qed

lemma unat_drop_bit_7_less:
  assumes "unat (v :: u64) < 2 ^ m" "m \<le> n + 7"
  shows "unat (drop_bit 7 v) < 2 ^ n"
proof -
  have "unat v < 2 ^ (n + 7)"
    using assms by (meson less_le_trans one_le_numeral power_increasing)
  then have "unat v < 2 ^ n * 2 ^ 7" by (simp only: power_add)
  then show ?thesis unfolding unat_drop_bit by (rule less_mult_imp_div_less)
qed

lemma varintDecode_unrolled_encode:
  assumes "i \<le> 9" "unat v < 2 ^ (64 - 7 * i)"
  shows "varintDecode_unrolled i val (ZL_varintEncode v @ rest)
           = Inr (val OR push_bit (7 * i) v, rest)"
  using assms
proof (induction v arbitrary: i val rule: ZL_varintEncode.induct)
  case (1 v)
  show ?case
  proof (cases "128 \<le> v")
    case True
    then have "128 \<le> unat v" by (simp add: word_le_nat_alt)
    with "1.prems" have i: "i < 9"
      by (cases "i = 9") auto
    have "unat (drop_bit 7 v) < 2 ^ (64 - 7 * Suc i)"
      using "1.prems"(2) by (rule unat_drop_bit_7_less) simp
    from "1.IH" [OF True _ this] i show ?thesis
      by (simp add: ZL_varintEncode_large [OF True] bit_7_continuation payload_continuation
          or.assoc push_bit_split_7 [of "7 * i" v, simplified add.commute])
  next
    case False
    then have s: "v < 128" by simp
    have "v AND 1 = v" if "i = 9"
    proof -
      have "v = 0 \<or> v = 1"
        using "1.prems"(2) that by (auto simp: word_unat_eq_iff)
      then show ?thesis by auto
    qed
    then have "ucast (ucast v AND 1 :: byte) = v" if "i = 9"
      using that unat_small_bit_7(2) [OF s] by (simp add: unsigned_and_eq)
    then show ?thesis
      using unat_small_bit_7 [OF s] s by (simp add: take_bit_7_byte)
  qed
qed


lemma ZL_varintDecode_encode: "ZL_varintDecode (ZL_varintEncode v @ rest) = Inr (v, rest)"
  using varintDecode_unrolled_encode [of 0 v 0 rest] unat_lt2p64 [of v]
  by (simp add: ZL_varintDecode_unrolled)

section \<open>Canonical form of the strict decoders\<close>

text \<open>
  The bound on the length of the input makes the width checks of the unrolled path
  unreachable in the loop, which is what its assertions say.
\<close>

lemma varintStrict_loop_unrolled:
  assumes "i + length bs < (if w = 4 then 5 else 10)"
  shows "varintStrict_loop i val bs = varintStrict_unrolled w i val bs"
  using assms
proof (induction bs arbitrary: i val)
  case (Cons b bs)
  then have "Suc i + length bs < (if w = 4 then 5 else 10)" "i \<noteq> 9" "w = 4 \<longrightarrow> i \<noteq> 4"
    by (auto split: if_splits)
  with Cons.IH show ?case
    by (auto simp: take_bit_7_byte mult.commute Let_def)
qed simp

lemma ZL_varintDecodeStrictImpl_unrolled:
  "ZL_varintDecodeStrictImpl src w = varintStrict_unrolled w 0 0 src"
  using varintStrict_loop_unrolled [of 0 src w 0]
  by (auto simp: ZL_varintDecodeStrictImpl_def not_le)

lemma byte_continuation: "bit b 7 \<Longrightarrow> 0x80 OR (b AND 0x7f) = (b :: byte)"
proof -
  assume b: "bit b 7"
  have "0x80 OR take_bit 7 b = b"
  proof (rule bit_word_eqI)
    fix k
    assume k: "k < LENGTH(8)"
    have "(0x80 :: byte) = push_bit 7 1" by simp
    then show "bit (0x80 OR take_bit 7 b) k = bit b k"
      using b k by (cases "k = 7") (simp_all only: bit_simps, auto)
  qed
  then show ?thesis by (simp add: and_7f)
qed

lemma encode_cons:
  fixes b :: byte and u :: u64
  assumes b: "bit b 7" and u: "u \<noteq> 0" "unat u < 2 ^ 57"
  defines "v \<equiv> ucast (b AND 0x7f) OR push_bit 7 u"
  shows "ZL_varintEncode v = b # ZL_varintEncode u"
    and "push_bit n (ucast (b AND 0x7f)) OR push_bit (n + 7) u = push_bit n v"
    and "drop_bit 7 v = u"
proof -
  have small: "\<not> bit u (57 + k)" for k
    using u(2) le_add1 [of 57 k] unfolding unat_less_exp_bits by blast
  show hi: "drop_bit 7 v = u"
  proof (rule bit_word_eqI)
    fix k
    assume "k < LENGTH(64)"
    then show "bit (drop_bit 7 v) k = bit u k"
      using small [of "k - 57"] by (cases "k < 57") (auto simp: v_def and_7f bit_simps)
  qed
  have lo: "ucast (v AND 0x7f) = b AND 0x7f"
    unfolding v_def and_7f by (rule bit_word_eqI) (auto simp: bit_simps)
  have "128 \<le> v"
  proof (rule ccontr)
    assume "\<not> 128 \<le> v"
    then have "unat (drop_bit 7 v) = 0"
      by (simp add: unat_drop_bit word_le_nat_alt)
    with hi u(1) show False by (simp add: unat_eq_0)
  qed
  then show "ZL_varintEncode v = b # ZL_varintEncode u"
    using b by (simp add: ZL_varintEncode_large hi lo byte_continuation)
  show "push_bit n (ucast (b AND 0x7f)) OR push_bit (n + 7) u = push_bit n v"
    by (rule bit_word_eqI) (auto simp: v_def bit_simps and_7f)
qed

lemma unat_byte_no_continuation: "\<not> bit b 7 \<Longrightarrow> unat (b :: byte) < 2 ^ 7"
  unfolding unat_less_exp_bits
proof (intro allI impI)
  fix k :: nat
  assume "\<not> bit b 7" "7 \<le> k"
  then show "\<not> bit b k"
    using bit_imp_le_length [of b k] by (cases "k = 7") auto
qed

lemma varintStrict_last_byte:
  assumes "varintStrict_unrolled w i val (b # bs) = Inr (v, rest)" "\<not> bit b 7"
    "w = 4 \<or> w = 8" "i \<le> (if w = 4 then 4 else 9)"
  shows "v = val OR push_bit (7 * i) (ucast b)" "bs = rest" "0 < i \<Longrightarrow> b \<noteq> 0"
    "unat b < 2 ^ (8 * w - 7 * i)"
proof -
  have m1: "unat b < 2" if "b AND NOT 0x01 = 0"
    using that unat_and_not_mask [of b 1] by simp
  have m4: "unat b < 16" if "b AND NOT 0xF = 0"
    using that unat_and_not_mask [of b 4] by (simp add: mask_eq_exp_minus_1)
  have i9: "b AND 1 = b" if "i = 9"
  proof -
    have "b AND NOT 0x01 = 0"
      using assms that by (simp add: Let_def split: if_splits)
    from m1 [OF this] have "b = 0 \<or> b = 1" by (auto simp: word_unat_eq_iff)
    then show ?thesis by auto
  qed
  show "v = val OR push_bit (7 * i) (ucast b)" "bs = rest" "0 < i \<Longrightarrow> b \<noteq> 0"
    using assms i9 take_bit_7_byte [OF assms(2)] by (auto simp: Let_def split: if_splits)
  show "unat b < 2 ^ (8 * w - 7 * i)"
  proof (cases "i = 9 \<or> w = 4 \<and> i = 4")
    case True
    with assms have "i = 9 \<and> b AND NOT 0x01 = 0 \<or> w = 4 \<and> i = 4 \<and> b AND NOT 0xF = 0"
      by (auto simp: Let_def split: if_splits)
    with m1 m4 assms(3,4) show ?thesis by auto
  next
    case False
    with assms(3,4) have "7 \<le> 8 * w - 7 * i" by (auto split: if_splits)
    with unat_byte_no_continuation [OF assms(2)] show ?thesis
      by (meson less_le_trans one_le_numeral power_increasing)
  qed
qed

lemma varintStrict_unrolled_canonical:
  assumes "varintStrict_unrolled w i val bs = Inr (v, rest)" "w = 4 \<or> w = 8"
    "i \<le> (if w = 4 then 4 else 9)"
  shows "\<exists>u. v = val OR push_bit (7 * i) u \<and> bs = ZL_varintEncode u @ rest
           \<and> unat u < 2 ^ (8 * w - 7 * i) \<and> (0 < i \<longrightarrow> u \<noteq> 0)"
  using assms
proof (induction bs arbitrary: i val)
  case (Cons b bs)
  show ?case
  proof (cases "bit b 7")
    case True
    with Cons.prems have i: "Suc i \<le> (if w = 4 then 4 else 9)" "i \<noteq> 9"
      by (auto simp: Let_def split: if_splits)
    with Cons.prems True have "varintStrict_unrolled w (Suc i)
        (val OR push_bit (7 * i) (ucast (b AND 0x7f))) bs = Inr (v, rest)"
      by (auto simp: Let_def split: if_splits)
    from Cons.IH [OF this Cons.prems(2) i(1)] obtain u where
      u: "v = val OR push_bit (7 * i) (ucast (b AND 0x7f)) OR push_bit (7 * i + 7) u"
        "bs = ZL_varintEncode u @ rest" "unat u < 2 ^ (8 * w - 7 * Suc i)" "u \<noteq> 0"
      by (auto simp: add.commute or.assoc)
    have "8 * w - 7 * Suc i \<le> 57" using Cons.prems(2) by auto
    with u(3) have u57: "unat u < 2 ^ 57"
      by (meson less_le_trans one_le_numeral power_increasing)
    define x where "x = ucast (b AND 0x7f) OR push_bit 7 u"
    note x = encode_cons [OF True u(4) u57, folded x_def]
    have "unat x div 2 ^ 7 < 2 ^ (8 * w - 7 * Suc i)"
      using u(3) x(3) by (simp only: unat_drop_bit [symmetric])
    then have "unat x < 2 ^ (8 * w - 7 * Suc i) * 2 ^ 7"
      by (simp add: div_less_iff_less_mult)
    moreover have "8 * w - 7 * Suc i + 7 = 8 * w - 7 * i"
      using i Cons.prems(2) by auto
    ultimately have "unat x < 2 ^ (8 * w - 7 * i)" by (metis power_add)
    moreover have "x \<noteq> 0" using x(3) u(4) by auto
    ultimately show ?thesis
      using u x(1) x(2) [of "7 * i"] by (intro exI [of _ x]) (simp add: or.assoc)
  next
    case False
    note l = varintStrict_last_byte [OF Cons.prems(1) False Cons.prems(2,3)]
    have "(ucast b :: u64) < 128"
      using unat_byte_no_continuation [OF False] by (simp add: word_less_nat_alt)
    moreover have "(ucast b :: u64) = 0 \<Longrightarrow> b = 0"
      using ucast_byte_down [of b] by auto
    ultimately show ?thesis
      using l by (intro exI [of _ "ucast b"]) (auto simp: ucast_byte_down)
  qed
qed simp

lemma and_not_mask_small:
  fixes v :: u64
  assumes "unat v < 2 ^ n"
  shows "(ucast v :: byte) AND NOT (mask n) = 0"
proof (rule bit_word_eqI)
  fix k
  show "bit ((ucast v :: byte) AND NOT (mask n)) k = bit 0 k"
    using assms unfolding unat_less_exp_bits by (auto simp: bit_simps not_less)
qed

lemma varintStrict_unrolled_encode:
  assumes "w = 4 \<or> w = 8" "i \<le> (if w = 4 then 4 else 9)" "unat v < 2 ^ (8 * w - 7 * i)"
    "0 < i \<longrightarrow> v \<noteq> 0"
  shows "varintStrict_unrolled w i val (ZL_varintEncode v @ rest)
           = Inr (val OR push_bit (7 * i) v, rest)"
  using assms
proof (induction v arbitrary: i val rule: ZL_varintEncode.induct)
  case (1 v)
  show ?case
  proof (cases "128 \<le> v")
    case True
    then have "128 \<le> unat v" by (simp add: word_le_nat_alt)
    with "1.prems" have i: "i < (if w = 4 then 4 else 9)"
      by (cases "i = (if w = 4 then 4 else 9)") (auto split: if_splits)
    have "unat (drop_bit 7 v) < 2 ^ (8 * w - 7 * Suc i)"
      using "1.prems"(3) by (rule unat_drop_bit_7_less) simp
    from "1.IH" [OF True "1.prems"(1) _ this] i drop_bit_7_nonzero [OF True] show ?thesis
      by (auto simp: ZL_varintEncode_large [OF True] bit_7_continuation payload_continuation
          or.assoc push_bit_split_7 [of "7 * i" v, simplified add.commute] Let_def
          split: if_splits)
  next
    case False
    then have s: "v < 128" by simp
    have n1: "ucast v AND NOT 0x01 = (0 :: byte)" "ucast (ucast v AND 1 :: byte) = v" if "i = 9"
    proof -
      have u: "unat v < 2 ^ 1" using "1.prems" that by (auto split: if_splits)
      then show "ucast v AND NOT 0x01 = (0 :: byte)"
        using and_not_mask_small [of v 1] by simp
      from u have "v = 0 \<or> v = 1" by (auto simp: word_unat_eq_iff)
      then show "ucast (ucast v AND 1 :: byte) = v" by auto
    qed
    have n4: "ucast v AND NOT 0xF = (0 :: byte)" if "i = 4" "w = 4"
      using "1.prems"(3) that and_not_mask_small [of v 4] by (simp add: mask_eq_exp_minus_1)
    have nz: "i = 0" if z: "ucast v = (0 :: byte)"
    proof -
      have "v = 0" using unat_small_bit_7(2) [OF s] by (simp add: z)
      with "1.prems"(4) show ?thesis by simp
    qed
    note simps = ZL_varintEncode_small [OF s] unat_small_bit_7 [OF s] Let_def
    show ?thesis
    proof (cases "i = 9")
      case True
      then show ?thesis using n1 nz by (auto simp: simps)
    next
      case False
      then show ?thesis
        using n4 nz by (auto simp: simps take_bit_7_byte [OF unat_small_bit_7(1) [OF s]])
    qed
  qed
qed

lemma ZL_varintDecodeStrictImpl_iff:
  assumes "w = 4 \<or> w = 8"
  shows "ZL_varintDecodeStrictImpl src w = Inr (v, rest)
           \<longleftrightarrow> src = ZL_varintEncode v @ rest \<and> unat v < 2 ^ (8 * w)"
  using varintStrict_unrolled_canonical [of w 0 0 src v rest] assms
    varintStrict_unrolled_encode [of w 0 v 0 rest]
  by (auto simp: ZL_varintDecodeStrictImpl_unrolled)

section \<open>Properties\<close>

text \<open>
  C22: round trip of the varint codec. Whatever follows the encoding, \<^verbatim>\<open>ZL_varintDecode\<close>
  returns the value that was encoded and stops right after it, on either of its two paths.
  The encoding takes \<^verbatim>\<open>ZL_varintSize\<close> bytes, between one and ten.
\<close>

theorem varint_roundtrip:
  "ZL_varintDecode (ZL_varintEncode v @ rest) = Inr (v, rest)
   \<and> length (ZL_varintEncode v) = ZL_varintSize v
   \<and> 0 < ZL_varintSize v \<and> ZL_varintSize v \<le> 10"
  by (simp add: ZL_varintDecode_encode length_ZL_varintEncode ZL_varintSize_bounds)

text \<open>
  C23: the strict decoders accept exactly the canonical encodings of their width. A success
  means that re-encoding the value gives back the consumed bytes, and every value below
  \<open>2 ^ 32\<close> (\<open>2 ^ 64\<close>) is accepted from its encoding.
\<close>

theorem varint_strict_canonical:
  "(ZL_varintDecode32Strict src = Inr (v, rest)
      \<longleftrightarrow> src = ZL_varintEncode v @ rest \<and> unat v < 2 ^ 32)
   \<and> (ZL_varintDecode64Strict src = Inr (v, rest) \<longleftrightarrow> src = ZL_varintEncode v @ rest)"
  using unat_lt2p64 [of v]
  by (simp add: ZL_varintDecode32Strict_def ZL_varintDecode64Strict_def
      ZL_varintDecodeStrictImpl_iff)

end
