(* ===== verification/SDDL2_VM.thy ===== *)
theory SDDL2_VM
  imports Mem "HOL-Library.Signed_Division"
begin

text \<open>
  The virtual machine of the SDDL2 graph (\<^verbatim>\<open>compress/graphs/sddl2/sddl2_vm.c\<close> and
  \<^verbatim>\<open>sddl2_vm.h\<close>): values and types, the operand stack, the variable registers, the input
  cursor, the segment list, the tag registry and the trace buffer, and every operation on
  them. Operations are state passing functions over the machine's record; an operation that
  fails keeps the changes it made before the failing test, as the C code does. The outcome
  \<open>Undef\<close> marks executions the C standard gives no meaning to.
\<close>

section \<open>Errors and results\<close>

datatype (plugins only: code) SDDL2_Error =
    SDDL2_STACK_OVERFLOW
  | SDDL2_STACK_UNDERFLOW
  | SDDL2_MATH_OVERFLOW
  | SDDL2_TYPE_MISMATCH
  | SDDL2_LOAD_BOUNDS
  | SDDL2_SEGMENT_BOUNDS
  | SDDL2_LIMIT_EXCEEDED
  | SDDL2_DIV_ZERO
  | SDDL2_ALLOCATION_FAILED
  | SDDL2_INVALID_BYTECODE
  | SDDL2_VALIDATION_FAILED

text \<open>\<^verbatim>\<open>SDDL2_RESULT_OF\<close>: \<open>Ok\<close> carries the value of \<^verbatim>\<open>SDDL2_OK\<close>.\<close>

datatype (plugins only: code) 'a vmres = Ok 'a | Fail SDDL2_Error | Undef

section \<open>Types and values\<close>

datatype (plugins only: code) SDDL2_Type_kind =
    SDDL2_TYPE_BYTES
  | SDDL2_TYPE_U8 | SDDL2_TYPE_I8
  | SDDL2_TYPE_U16LE | SDDL2_TYPE_U16BE | SDDL2_TYPE_I16LE | SDDL2_TYPE_I16BE
  | SDDL2_TYPE_U32LE | SDDL2_TYPE_U32BE | SDDL2_TYPE_I32LE | SDDL2_TYPE_I32BE
  | SDDL2_TYPE_U64LE | SDDL2_TYPE_U64BE | SDDL2_TYPE_I64LE | SDDL2_TYPE_I64BE
  | SDDL2_TYPE_F8 | SDDL2_TYPE_F16LE | SDDL2_TYPE_F16BE | SDDL2_TYPE_BF16LE
  | SDDL2_TYPE_BF16BE | SDDL2_TYPE_F32LE | SDDL2_TYPE_F32BE | SDDL2_TYPE_F64LE
  | SDDL2_TYPE_F64BE
  | SDDL2_TYPE_STRUCTURE

text \<open>
  A type with its struct data. The address of the struct data stands for the pointer, which
  \<^verbatim>\<open>types_equal\<close> compares; \<^verbatim>\<open>member_count\<close> is the length of the member list.
\<close>

datatype SDDL2_Type =
  SDDL2_Type (type_kind: SDDL2_Type_kind) (type_width: u32)
    (struct_data: "SDDL2_Struct_data option")
and SDDL2_Struct_data =
  SDDL2_Struct_data (sd_addr: nat) (total_size_bytes: size_t) (sd_members: "SDDL2_Type list")

datatype SDDL2_Value =
    SDDL2_VALUE_I64 (as_i64: i64)
  | SDDL2_VALUE_TAG (as_tag: u32)
  | SDDL2_VALUE_TYPE (as_type: SDDL2_Type)

definition SDDL2_kind_size :: "SDDL2_Type_kind \<Rightarrow> size_t vmres" where
  "SDDL2_kind_size kind = (case kind of
     SDDL2_TYPE_U8 \<Rightarrow> Ok 1 | SDDL2_TYPE_I8 \<Rightarrow> Ok 1 | SDDL2_TYPE_F8 \<Rightarrow> Ok 1
   | SDDL2_TYPE_U16LE \<Rightarrow> Ok 2 | SDDL2_TYPE_U16BE \<Rightarrow> Ok 2
   | SDDL2_TYPE_I16LE \<Rightarrow> Ok 2 | SDDL2_TYPE_I16BE \<Rightarrow> Ok 2
   | SDDL2_TYPE_F16LE \<Rightarrow> Ok 2 | SDDL2_TYPE_F16BE \<Rightarrow> Ok 2
   | SDDL2_TYPE_BF16LE \<Rightarrow> Ok 2 | SDDL2_TYPE_BF16BE \<Rightarrow> Ok 2
   | SDDL2_TYPE_U32LE \<Rightarrow> Ok 4 | SDDL2_TYPE_U32BE \<Rightarrow> Ok 4
   | SDDL2_TYPE_I32LE \<Rightarrow> Ok 4 | SDDL2_TYPE_I32BE \<Rightarrow> Ok 4
   | SDDL2_TYPE_F32LE \<Rightarrow> Ok 4 | SDDL2_TYPE_F32BE \<Rightarrow> Ok 4
   | SDDL2_TYPE_U64LE \<Rightarrow> Ok 8 | SDDL2_TYPE_U64BE \<Rightarrow> Ok 8
   | SDDL2_TYPE_I64LE \<Rightarrow> Ok 8 | SDDL2_TYPE_I64BE \<Rightarrow> Ok 8
   | SDDL2_TYPE_F64LE \<Rightarrow> Ok 8 | SDDL2_TYPE_F64BE \<Rightarrow> Ok 8
   | SDDL2_TYPE_BYTES \<Rightarrow> Ok 1
   | SDDL2_TYPE_STRUCTURE \<Rightarrow> Fail SDDL2_TYPE_MISMATCH)"

text \<open>The products wrap at 64 bits, as \<^verbatim>\<open>size_t\<close> multiplication does.\<close>

definition SDDL2_Type_size :: "SDDL2_Type \<Rightarrow> size_t vmres" where
  "SDDL2_Type_size type =
     (if type_kind type = SDDL2_TYPE_STRUCTURE then
        (case struct_data type of
           None \<Rightarrow> Fail SDDL2_TYPE_MISMATCH
         | Some sd \<Rightarrow> Ok (total_size_bytes sd * ucast (type_width type)))
      else
        (case SDDL2_kind_size (type_kind type) of
           Ok ks \<Rightarrow> Ok (ks * ucast (type_width type))
         | Fail e \<Rightarrow> Fail e
         | Undef \<Rightarrow> Undef))"

definition types_equal :: "SDDL2_Type \<Rightarrow> SDDL2_Type \<Rightarrow> bool" where
  "types_equal a b =
     (if type_kind a \<noteq> type_kind b \<or> type_width a \<noteq> type_width b then False
      else if type_kind a = SDDL2_TYPE_STRUCTURE then
        map_option sd_addr (struct_data a) = map_option sd_addr (struct_data b)
      else True)"

section \<open>The machine's state\<close>

text \<open>
  The allocator is the caller's callback: whether the \<open>n\<close>-th request for so many bytes
  succeeds is a parameter, and the number of the request is the address it returns. \<open>None\<close>
  is the \<^verbatim>\<open>NULL\<close> callback, for which the production fallback always fails.
\<close>

record SDDL2_allocator =
  alloc_fn :: "(nat \<Rightarrow> size_t \<Rightarrow> bool) option"
  alloc_count :: nat

record SDDL2_Stack =
  items :: "SDDL2_Value list" \<comment> \<open>top of the stack first\<close>
  capacity :: nat

record SDDL2_Segment =
  seg_tag :: u32
  start_pos :: size_t
  size_bytes :: size_t
  seg_type :: SDDL2_Type

record SDDL2_Segment_list =
  seg_items :: "SDDL2_Segment list"
  seg_capacity :: nat

record SDDL2_Tag_registry =
  tag_entries :: "(u32 \<times> SDDL2_Type) list"
  tag_capacity :: nat

text \<open>The details of a trace entry are kept as the arguments of the format string.\<close>

datatype (plugins only: code) trace_details =
    Binary_details string i64 i64 i64
  | Unary_details string i64 i64

record SDDL2_Trace_entry =
  entry_pc :: nat
  op_name :: string
  details :: trace_details

record SDDL2_Trace_buffer =
  trace_entries :: "SDDL2_Trace_entry list"
  trace_capacity :: nat
  trace_active :: bool

record SDDL2_Input_cursor =
  buf_data :: "byte list"
  buf_size :: size_t
  current_pos :: size_t

text \<open>Register \<open>i\<close> is \<^verbatim>\<open>Some\<close> value when \<^verbatim>\<open>occupied[i]\<close>.\<close>

record vm =
  stack :: SDDL2_Stack
  regs :: "SDDL2_Value option list"
  buffer :: SDDL2_Input_cursor
  segments :: SDDL2_Segment_list
  registry :: SDDL2_Tag_registry
  trace :: SDDL2_Trace_buffer
  allocator :: SDDL2_allocator

abbreviation (input) SDDL2_VAR_REGISTER_COUNT :: nat where "SDDL2_VAR_REGISTER_COUNT \<equiv> 256"
abbreviation (input) SDDL2_SEGMENT_INITIAL_CAPACITY :: nat where
  "SDDL2_SEGMENT_INITIAL_CAPACITY \<equiv> 4096"
abbreviation (input) SDDL2_SEGMENT_MAX_CAPACITY :: nat where "SDDL2_SEGMENT_MAX_CAPACITY \<equiv> 524288"
abbreviation (input) SDDL2_TAG_INITIAL_CAPACITY :: nat where "SDDL2_TAG_INITIAL_CAPACITY \<equiv> 4096"
abbreviation (input) SDDL2_TAG_MAX_CAPACITY :: nat where "SDDL2_TAG_MAX_CAPACITY \<equiv> 32768"
abbreviation (input) SDDL2_TRACE_MAX_CAPACITY :: nat where "SDDL2_TRACE_MAX_CAPACITY \<equiv> 1024"
abbreviation (input) SDDL2_DYNAMIC_ARRAY_INITIAL_CAPACITY :: nat where
  "SDDL2_DYNAMIC_ARRAY_INITIAL_CAPACITY \<equiv> 32"

text \<open>\<^verbatim>\<open>sizeof\<close> of the structs on a 64-bit target.\<close>

abbreviation (input) sizeof_SDDL2_Type :: size_t where "sizeof_SDDL2_Type \<equiv> 16"
abbreviation (input) sizeof_SDDL2_Struct_data :: size_t where "sizeof_SDDL2_Struct_data \<equiv> 16"
abbreviation (input) sizeof_SDDL2_Segment :: size_t where "sizeof_SDDL2_Segment \<equiv> 40"
abbreviation (input) sizeof_SDDL2_Tag_entry :: size_t where "sizeof_SDDL2_Tag_entry \<equiv> 24"
abbreviation (input) sizeof_SDDL2_Trace_entry :: size_t where "sizeof_SDDL2_Trace_entry \<equiv> 144"

section \<open>Sequencing\<close>

type_synonym 'a vm_op = "vm \<Rightarrow> 'a vmres \<times> vm"

definition vm_return :: "'a \<Rightarrow> 'a vm_op" where
  "vm_return x s = (Ok x, s)"
definition vm_fail :: "SDDL2_Error \<Rightarrow> 'a vm_op" where
  "vm_fail e s = (Fail e, s)"
definition vm_undef :: "'a vm_op" where
  "vm_undef s = (Undef, s)"
definition vm_lift :: "'a vmres \<Rightarrow> 'a vm_op" where
  "vm_lift r s = (r, s)"
definition vm_get :: "(vm \<Rightarrow> 'a) \<Rightarrow> 'a vm_op" where
  "vm_get f s = (Ok (f s), s)"
definition vm_modify :: "(vm \<Rightarrow> vm) \<Rightarrow> unit vm_op" where
  "vm_modify f s = (Ok (), f s)"

text \<open>\<open>vm_bind\<close> is \<^verbatim>\<open>SDDL2_TRY_LET\<close> and \<^verbatim>\<open>SDDL2_TRY\<close>.\<close>

definition vm_bind :: "'a vm_op \<Rightarrow> ('a \<Rightarrow> 'b vm_op) \<Rightarrow> 'b vm_op" where
  "vm_bind m f s = (case m s of
     (Ok x, s') \<Rightarrow> f x s'
   | (Fail e, s') \<Rightarrow> (Fail e, s')
   | (Undef, s') \<Rightarrow> (Undef, s'))"

section \<open>Stack operations\<close>

definition SDDL2_Stack_init :: "SDDL2_Stack \<Rightarrow> SDDL2_Stack" where
  "SDDL2_Stack_init st = st\<lparr>items := []\<rparr>"

definition SDDL2_Stack_push :: "SDDL2_Value \<Rightarrow> unit vm_op" where
  "SDDL2_Stack_push v s =
     (if capacity (stack s) \<le> length (items (stack s)) then (Fail SDDL2_STACK_OVERFLOW, s)
      else (Ok (), s\<lparr>stack := (stack s)\<lparr>items := v # items (stack s)\<rparr>\<rparr>))"

definition SDDL2_Stack_pop :: "SDDL2_Value vm_op" where
  "SDDL2_Stack_pop s = (case items (stack s) of
     [] \<Rightarrow> (Fail SDDL2_STACK_UNDERFLOW, s)
   | v # vs \<Rightarrow> (Ok v, s\<lparr>stack := (stack s)\<lparr>items := vs\<rparr>\<rparr>))"

definition SDDL2_Stack_peek :: "SDDL2_Value vm_op" where
  "SDDL2_Stack_peek s = (case items (stack s) of
     [] \<Rightarrow> (Fail SDDL2_STACK_UNDERFLOW, s)
   | v # vs \<Rightarrow> (Ok v, s))"

definition SDDL2_Stack_depth :: "vm \<Rightarrow> nat" where
  "SDDL2_Stack_depth s = length (items (stack s))"

definition SDDL2_Stack_is_empty :: "vm \<Rightarrow> bool" where
  "SDDL2_Stack_is_empty s \<longleftrightarrow> items (stack s) = []"

definition pop_i64 :: "i64 vm_op" where
  "pop_i64 = vm_bind SDDL2_Stack_pop (\<lambda>v. case v of
     SDDL2_VALUE_I64 x \<Rightarrow> vm_return x | _ \<Rightarrow> vm_fail SDDL2_TYPE_MISMATCH)"

definition pop_positive_i64 :: "size_t vm_op" where
  "pop_positive_i64 = vm_bind pop_i64 (\<lambda>x.
     if sint x < 0 then vm_fail SDDL2_TYPE_MISMATCH else vm_return x)"

definition pop_tag :: "u32 vm_op" where
  "pop_tag = vm_bind SDDL2_Stack_pop (\<lambda>v. case v of
     SDDL2_VALUE_TAG x \<Rightarrow> vm_return x | _ \<Rightarrow> vm_fail SDDL2_TYPE_MISMATCH)"

definition pop_type :: "SDDL2_Type vm_op" where
  "pop_type = vm_bind SDDL2_Stack_pop (\<lambda>v. case v of
     SDDL2_VALUE_TYPE x \<Rightarrow> vm_return x | _ \<Rightarrow> vm_fail SDDL2_TYPE_MISMATCH)"

definition push_i64 :: "i64 \<Rightarrow> unit vm_op" where
  "push_i64 x = SDDL2_Stack_push (SDDL2_VALUE_I64 x)"

section \<open>Allocation and growth\<close>

definition sddl2_alloc :: "size_t \<Rightarrow> SDDL2_allocator \<Rightarrow> bool \<times> SDDL2_allocator" where
  "sddl2_alloc n al = (case alloc_fn al of
     None \<Rightarrow> (False, al)
   | Some f \<Rightarrow> (f (alloc_count al) n, al\<lparr>alloc_count := Suc (alloc_count al)\<rparr>))"

text \<open>
  \<^verbatim>\<open>ensure_capacity\<close> for an array of \<open>count\<close> elements: success flag, capacity and allocator
  after the call. Growing copies the \<open>count\<close> elements, so the list itself does not change.
\<close>

definition ensure_capacity ::
  "nat \<Rightarrow> nat \<Rightarrow> size_t \<Rightarrow> nat \<Rightarrow> SDDL2_allocator \<Rightarrow> bool \<times> nat \<times> SDDL2_allocator" where
  "ensure_capacity count cap element_size max_capacity al =
     (if count < cap then (True, cap, al)
      else if max_capacity \<le> cap then (False, cap, al)
      else let
          new_capacity = (if cap = 0 then SDDL2_DYNAMIC_ARRAY_INITIAL_CAPACITY else cap * 2);
          new_capacity = (if max_capacity < new_capacity then max_capacity else new_capacity);
          new_size = word_of_nat new_capacity * element_size;
          (ok, al) = sddl2_alloc new_size al
        in if ok then (True, new_capacity, al) else (False, cap, al))"

section \<open>Type operations\<close>

definition SDDL2_op_type_fixed_array :: "unit vm_op" where
  "SDDL2_op_type_fixed_array =
     vm_bind pop_positive_i64 (\<lambda>array_count.
     vm_bind pop_type (\<lambda>base_type.
     let (ovf, width) = ZL_overflowMulU32 (type_width base_type) (ucast array_count) in
     if ovf then vm_fail SDDL2_MATH_OVERFLOW
     else SDDL2_Stack_push
       (SDDL2_VALUE_TYPE (SDDL2_Type (type_kind base_type) width (struct_data base_type)))))"

text \<open>
  \<^verbatim>\<open>type.structure\<close>. The member count is unbounded, so the size of the allocation wraps; a
  write of the header or of \<^verbatim>\<open>members[index]\<close> past the end of the block has no meaning.
  \<open>pop_members\<close> pops the remaining \<open>n\<close> members, the one at index \<open>n - 1\<close> first; \<open>bytes\<close> is
  the size of the block.
\<close>

primrec pop_members :: "nat \<Rightarrow> size_t \<Rightarrow> SDDL2_Type list \<Rightarrow> SDDL2_Type list vm_op" where
  "pop_members 0 bytes ms = vm_return ms"
| "pop_members (Suc n) bytes ms =
     vm_bind pop_type (\<lambda>t.
     if unat sizeof_SDDL2_Struct_data + Suc n * unat sizeof_SDDL2_Type \<le> unat bytes
     then pop_members n bytes (t # ms) else vm_undef)"

fun members_size :: "size_t \<Rightarrow> SDDL2_Type list \<Rightarrow> size_t vmres" where
  "members_size tot [] = Ok tot"
| "members_size tot (m # ms) = (case SDDL2_Type_size m of
     Ok sz \<Rightarrow> (let (ovf, tot) = ZL_overflowAddST tot sz in
        if ovf then Fail SDDL2_MATH_OVERFLOW else members_size tot ms)
   | Fail e \<Rightarrow> Fail e
   | Undef \<Rightarrow> Undef)"

definition vm_alloc :: "size_t \<Rightarrow> nat option vm_op" where
  "vm_alloc n s = (let (ok, al) = sddl2_alloc n (allocator s) in
     (Ok (if ok then Some (alloc_count (allocator s)) else None), s\<lparr>allocator := al\<rparr>))"

definition build_structure :: "size_t \<Rightarrow> unit vm_op" where
  "build_structure member_count =
     (let allocation_size = sizeof_SDDL2_Struct_data + member_count * sizeof_SDDL2_Type in
     vm_bind (vm_alloc allocation_size) (\<lambda>ptr. case ptr of
       None \<Rightarrow> vm_fail SDDL2_ALLOCATION_FAILED
     | Some addr \<Rightarrow>
         if allocation_size < sizeof_SDDL2_Struct_data then vm_undef else
         vm_bind (pop_members (unat member_count) allocation_size []) (\<lambda>members.
         vm_bind (vm_lift (members_size 0 members)) (\<lambda>tot.
         SDDL2_Stack_push (SDDL2_VALUE_TYPE
           (SDDL2_Type SDDL2_TYPE_STRUCTURE 1
             (Some (SDDL2_Struct_data addr tot members))))))))"

definition SDDL2_op_type_structure :: "unit vm_op" where
  "SDDL2_op_type_structure = vm_bind pop_positive_i64 build_structure"

definition SDDL2_op_type_sizeof :: "unit vm_op" where
  "SDDL2_op_type_sizeof =
     vm_bind pop_type (\<lambda>type. vm_bind (vm_lift (SDDL2_Type_size type)) push_i64)"

section \<open>Arithmetic operations\<close>

text \<open>
  The tests are on mathematical integers: each difference, sum and quotient they form is in
  the range of \<^verbatim>\<open>int64_t\<close> on the branch that forms it. Division truncates towards zero.
\<close>

definition add_would_overflow :: "i64 \<Rightarrow> i64 \<Rightarrow> bool" where
  "add_would_overflow a b =
     (if 0 < sint b \<and> INT64_MAX - sint b < sint a then True
      else if sint b < 0 \<and> sint a < INT64_MIN - sint b then True
      else False)"

definition sub_would_overflow :: "i64 \<Rightarrow> i64 \<Rightarrow> bool" where
  "sub_would_overflow a b =
     (if sint b < 0 \<and> INT64_MAX + sint b < sint a then True
      else if 0 < sint b \<and> sint a < INT64_MIN + sint b then True
      else False)"

definition mul_would_overflow :: "i64 \<Rightarrow> i64 \<Rightarrow> bool" where
  "mul_would_overflow a b =
     (if sint a = 0 \<or> sint b = 0 then False
      else if sint a = 1 \<or> sint b = 1 then False
      else if sint a = - 1 then sint b = INT64_MIN
      else if sint b = - 1 then sint a = INT64_MIN
      else if 0 < sint a then
        (if 0 < sint b then INT64_MAX sdiv sint b < sint a
         else sint b < INT64_MIN sdiv sint a)
      else
        (if 0 < sint b then sint a < INT64_MIN sdiv sint b
         else sint a < INT64_MAX sdiv sint b))"

definition SDDL2_op_add :: "unit vm_op" where
  "SDDL2_op_add = vm_bind pop_i64 (\<lambda>b. vm_bind pop_i64 (\<lambda>a.
     if add_would_overflow a b then vm_fail SDDL2_MATH_OVERFLOW else push_i64 (a + b)))"

definition SDDL2_op_sub :: "unit vm_op" where
  "SDDL2_op_sub = vm_bind pop_i64 (\<lambda>b. vm_bind pop_i64 (\<lambda>a.
     if sub_would_overflow a b then vm_fail SDDL2_MATH_OVERFLOW else push_i64 (a - b)))"

definition SDDL2_op_mul :: "unit vm_op" where
  "SDDL2_op_mul = vm_bind pop_i64 (\<lambda>b. vm_bind pop_i64 (\<lambda>a.
     if mul_would_overflow a b then vm_fail SDDL2_MATH_OVERFLOW else push_i64 (a * b)))"

definition SDDL2_op_div :: "unit vm_op" where
  "SDDL2_op_div = vm_bind pop_i64 (\<lambda>b. vm_bind pop_i64 (\<lambda>a.
     if sint b = 0 then vm_fail SDDL2_DIV_ZERO
     else if sint a = INT64_MIN \<and> sint b = - 1 then vm_fail SDDL2_MATH_OVERFLOW
     else push_i64 (word_of_int (sint a sdiv sint b))))"

text \<open>
  \<^verbatim>\<open>a % b\<close> has no meaning when \<^verbatim>\<open>a / b\<close> is not representable, and \<^verbatim>\<open>SDDL2_op_mod\<close> tests
  only for a zero divisor.
\<close>

definition SDDL2_op_mod :: "unit vm_op" where
  "SDDL2_op_mod = vm_bind pop_i64 (\<lambda>b. vm_bind pop_i64 (\<lambda>a.
     if sint b = 0 then vm_fail SDDL2_DIV_ZERO
     else if sint a = INT64_MIN \<and> sint b = - 1 then vm_undef
     else push_i64 (word_of_int (sint a smod sint b))))"

definition SDDL2_op_abs :: "unit vm_op" where
  "SDDL2_op_abs = vm_bind pop_i64 (\<lambda>a.
     if sint a = INT64_MIN then vm_fail SDDL2_MATH_OVERFLOW
     else push_i64 (if sint a < 0 then - a else a))"

definition SDDL2_op_neg :: "unit vm_op" where
  "SDDL2_op_neg = vm_bind pop_i64 (\<lambda>a.
     if sint a = INT64_MIN then vm_fail SDDL2_MATH_OVERFLOW else push_i64 (- a))"

section \<open>Trace buffer\<close>

definition SDDL2_Trace_buffer_init :: SDDL2_Trace_buffer where
  "SDDL2_Trace_buffer_init = \<lparr>trace_entries = [], trace_capacity = 0, trace_active = False\<rparr>"

definition SDDL2_Trace_buffer_start :: "SDDL2_Trace_buffer \<Rightarrow> SDDL2_Trace_buffer" where
  "SDDL2_Trace_buffer_start t = t\<lparr>trace_active := True\<rparr>"

definition SDDL2_Trace_buffer_stop :: "SDDL2_Trace_buffer \<Rightarrow> SDDL2_Trace_buffer" where
  "SDDL2_Trace_buffer_stop t = t\<lparr>trace_active := False\<rparr>"

definition SDDL2_Trace_buffer_reset :: "SDDL2_Trace_buffer \<Rightarrow> SDDL2_Trace_buffer" where
  "SDDL2_Trace_buffer_reset t = t\<lparr>trace_active := False, trace_entries := []\<rparr>"

text \<open>
  Appending: the flag is the C return value. Entries are kept in order. The callers ignore
  the flag.
\<close>

definition SDDL2_Trace_buffer_append ::
  "SDDL2_Trace_entry \<Rightarrow> SDDL2_Trace_buffer \<Rightarrow> SDDL2_allocator
     \<Rightarrow> bool \<times> SDDL2_Trace_buffer \<times> SDDL2_allocator" where
  "SDDL2_Trace_buffer_append e t al =
     (if \<not> trace_active t then (True, t, al)
      else case ensure_capacity (length (trace_entries t)) (trace_capacity t)
             sizeof_SDDL2_Trace_entry SDDL2_TRACE_MAX_CAPACITY al of
        (False, cap, al) \<Rightarrow> (False, t\<lparr>trace_capacity := cap\<rparr>, al)
      | (True, cap, al) \<Rightarrow>
          (True, t\<lparr>trace_capacity := cap, trace_entries := trace_entries t @ [e]\<rparr>, al))"

definition vm_trace :: "SDDL2_Trace_entry \<Rightarrow> unit vm_op" where
  "vm_trace e s =
     (if trace_active (trace s) then
        (case SDDL2_Trace_buffer_append e (trace s) (allocator s) of
           (_, t, al) \<Rightarrow> (Ok (), s\<lparr>trace := t, allocator := al\<rparr>))
      else (Ok (), s))"

definition SDDL2_log_binary_op ::
  "string \<Rightarrow> string \<Rightarrow> i64 \<Rightarrow> i64 \<Rightarrow> i64 \<Rightarrow> nat \<Rightarrow> unit vm_op" where
  "SDDL2_log_binary_op name symbol a b result pc =
     vm_trace \<lparr>entry_pc = pc, op_name = name, details = Binary_details symbol a b result\<rparr>"

definition SDDL2_log_unary_op ::
  "string \<Rightarrow> string \<Rightarrow> i64 \<Rightarrow> i64 \<Rightarrow> nat \<Rightarrow> unit vm_op" where
  "SDDL2_log_unary_op name symbol a result pc =
     vm_trace \<lparr>entry_pc = pc, op_name = name, details = Unary_details symbol a result\<rparr>"

section \<open>Comparisons, bitwise and logical operations\<close>

text \<open>
  The operations of these families have one shape: pop two operands (one), compute, log, push.
\<close>

definition traced_binary :: "string \<Rightarrow> string \<Rightarrow> (i64 \<Rightarrow> i64 \<Rightarrow> i64) \<Rightarrow> nat \<Rightarrow> unit vm_op" where
  "traced_binary name symbol f pc = vm_bind pop_i64 (\<lambda>b. vm_bind pop_i64 (\<lambda>a.
     let result = f a b in
     vm_bind (SDDL2_log_binary_op name symbol a b result pc) (\<lambda>_. push_i64 result)))"

definition traced_unary :: "string \<Rightarrow> string \<Rightarrow> (i64 \<Rightarrow> i64) \<Rightarrow> nat \<Rightarrow> unit vm_op" where
  "traced_unary name symbol f pc = vm_bind pop_i64 (\<lambda>a.
     let result = f a in
     vm_bind (SDDL2_log_unary_op name symbol a result pc) (\<lambda>_. push_i64 result))"

definition SDDL2_op_eq :: "nat \<Rightarrow> unit vm_op" where
  "SDDL2_op_eq = traced_binary ''cmp.eq'' ''=='' (\<lambda>a b. of_bool (a = b))"
definition SDDL2_op_ne :: "nat \<Rightarrow> unit vm_op" where
  "SDDL2_op_ne = traced_binary ''cmp.ne'' ''!='' (\<lambda>a b. of_bool (a \<noteq> b))"
definition SDDL2_op_lt :: "nat \<Rightarrow> unit vm_op" where
  "SDDL2_op_lt = traced_binary ''cmp.lt'' ''<'' (\<lambda>a b. of_bool (sint a < sint b))"
definition SDDL2_op_le :: "nat \<Rightarrow> unit vm_op" where
  "SDDL2_op_le = traced_binary ''cmp.le'' ''<='' (\<lambda>a b. of_bool (sint a \<le> sint b))"
definition SDDL2_op_gt :: "nat \<Rightarrow> unit vm_op" where
  "SDDL2_op_gt = traced_binary ''cmp.gt'' ''>'' (\<lambda>a b. of_bool (sint a > sint b))"
definition SDDL2_op_ge :: "nat \<Rightarrow> unit vm_op" where
  "SDDL2_op_ge = traced_binary ''cmp.ge'' ''>='' (\<lambda>a b. of_bool (sint a \<ge> sint b))"

definition SDDL2_op_bit_and :: "nat \<Rightarrow> unit vm_op" where
  "SDDL2_op_bit_and = traced_binary ''math.bit_and'' ''&'' (\<lambda>a b. a AND b)"
definition SDDL2_op_bit_or :: "nat \<Rightarrow> unit vm_op" where
  "SDDL2_op_bit_or = traced_binary ''math.bit_or'' ''|'' (\<lambda>a b. a OR b)"
definition SDDL2_op_bit_xor :: "nat \<Rightarrow> unit vm_op" where
  "SDDL2_op_bit_xor = traced_binary ''math.bit_xor'' ''^'' (\<lambda>a b. a XOR b)"
definition SDDL2_op_bit_not :: "nat \<Rightarrow> unit vm_op" where
  "SDDL2_op_bit_not = traced_unary ''math.bit_not'' ''~'' (\<lambda>a. NOT a)"

definition SDDL2_op_and :: "nat \<Rightarrow> unit vm_op" where
  "SDDL2_op_and = traced_binary ''logic.and'' ''&&'' (\<lambda>a b. of_bool (a \<noteq> 0 \<and> b \<noteq> 0))"
definition SDDL2_op_or :: "nat \<Rightarrow> unit vm_op" where
  "SDDL2_op_or = traced_binary ''logic.or'' ''||'' (\<lambda>a b. of_bool (a \<noteq> 0 \<or> b \<noteq> 0))"
definition SDDL2_op_xor :: "nat \<Rightarrow> unit vm_op" where
  "SDDL2_op_xor = traced_binary ''logic.xor'' ''^^''
     (\<lambda>a b. of_bool (a \<noteq> 0 \<and> b = 0 \<or> a = 0 \<and> b \<noteq> 0))"
definition SDDL2_op_not :: "nat \<Rightarrow> unit vm_op" where
  "SDDL2_op_not = traced_unary ''logic.not'' ''!'' (\<lambda>a. of_bool (a = 0))"

section \<open>Stack manipulation, variables, validation\<close>

definition SDDL2_op_drop :: "unit vm_op" where
  "SDDL2_op_drop = vm_bind SDDL2_Stack_pop (\<lambda>_. vm_return ())"

definition SDDL2_op_stack_drop_if :: "unit vm_op" where
  "SDDL2_op_stack_drop_if = vm_bind pop_i64 (\<lambda>condition.
     if condition \<noteq> 0 then vm_bind SDDL2_Stack_pop (\<lambda>_. vm_return ()) else vm_return ())"

definition SDDL2_op_jump_if :: "size_t vm_op" where
  "SDDL2_op_jump_if = vm_bind pop_i64 (\<lambda>condition. vm_bind pop_positive_i64 (\<lambda>n.
     vm_return (if condition \<noteq> 0 then n else 0)))"

definition SDDL2_op_dup :: "unit vm_op" where
  "SDDL2_op_dup = vm_bind SDDL2_Stack_peek SDDL2_Stack_push"

definition SDDL2_op_swap :: "unit vm_op" where
  "SDDL2_op_swap s = (case items (stack s) of
     a # b # vs \<Rightarrow> (Ok (), s\<lparr>stack := (stack s)\<lparr>items := b # a # vs\<rparr>\<rparr>)
   | _ \<Rightarrow> (Fail SDDL2_STACK_UNDERFLOW, s))"

definition SDDL2_Var_registers_init :: "SDDL2_Value option list" where
  "SDDL2_Var_registers_init = replicate SDDL2_VAR_REGISTER_COUNT None"

definition SDDL2_op_var_store :: "unit vm_op" where
  "SDDL2_op_var_store = vm_bind pop_i64 (\<lambda>reg_index.
     if sint reg_index < 0 \<or> int SDDL2_VAR_REGISTER_COUNT \<le> sint reg_index
     then vm_fail SDDL2_LOAD_BOUNDS
     else vm_bind SDDL2_Stack_pop (\<lambda>val.
       vm_modify (\<lambda>s. s\<lparr>regs := (regs s)[unat reg_index := Some val]\<rparr>)))"

definition SDDL2_op_var_load :: "unit vm_op" where
  "SDDL2_op_var_load = vm_bind pop_i64 (\<lambda>reg_index.
     if sint reg_index < 0 \<or> int SDDL2_VAR_REGISTER_COUNT \<le> sint reg_index
     then vm_fail SDDL2_LOAD_BOUNDS
     else vm_bind (vm_get (\<lambda>s. regs s ! unat reg_index)) (\<lambda>r. case r of
       None \<Rightarrow> vm_fail SDDL2_LOAD_BOUNDS
     | Some val \<Rightarrow> SDDL2_Stack_push val))"

definition vm_trace_reset :: "unit vm_op" where
  "vm_trace_reset = vm_modify (\<lambda>s. s\<lparr>trace := SDDL2_Trace_buffer_reset (trace s)\<rparr>)"

definition SDDL2_op_expect_true :: "unit vm_op" where
  "SDDL2_op_expect_true = vm_bind pop_i64 (\<lambda>value.
     if value = 0 then vm_bind vm_trace_reset (\<lambda>_. vm_fail SDDL2_VALIDATION_FAILED)
     else vm_trace_reset)"

section \<open>Input cursor and loads\<close>

definition SDDL2_Input_cursor_init :: "byte list \<Rightarrow> SDDL2_Input_cursor" where
  "SDDL2_Input_cursor_init d =
     \<lparr>buf_data = d, buf_size = word_of_nat (length d), current_pos = 0\<rparr>"

definition check_load_bounds :: "i64 \<Rightarrow> size_t \<Rightarrow> unit vm_op" where
  "check_load_bounds addr n s =
     (if sint addr < 0 \<or> buf_size (buffer s) < addr + n then (Fail SDDL2_LOAD_BOUNDS, s)
      else (Ok (), s))"

definition SDDL2_op_current_pos :: "unit vm_op" where
  "SDDL2_op_current_pos = vm_bind (vm_get (\<lambda>s. current_pos (buffer s))) push_i64"

definition SDDL2_op_remaining :: "unit vm_op" where
  "SDDL2_op_remaining =
     vm_bind (vm_get (\<lambda>s. buf_size (buffer s) - current_pos (buffer s))) push_i64"

definition SDDL2_op_push_stack_depth :: "unit vm_op" where
  "SDDL2_op_push_stack_depth =
     vm_bind (vm_get (\<lambda>s. word_of_nat (length (items (stack s))))) push_i64"

text \<open>\<^verbatim>\<open>DEFINE_LOAD_OP(name, size, read_expr)\<close>.\<close>

definition load_op :: "size_t \<Rightarrow> (byte list \<Rightarrow> i64) \<Rightarrow> unit vm_op" where
  "load_op n read_expr = vm_bind pop_i64 (\<lambda>addr. vm_bind (check_load_bounds addr n) (\<lambda>_.
     vm_bind (vm_get (\<lambda>s. read_expr (drop (unat addr) (buf_data (buffer s))))) push_i64))"

definition SDDL2_op_load_u8 :: "unit vm_op" where
  "SDDL2_op_load_u8 = load_op 1 (\<lambda>p. ucast (ZL_read8 p))"
definition SDDL2_op_load_i8 :: "unit vm_op" where
  "SDDL2_op_load_i8 = load_op 1 (\<lambda>p. scast (ZL_read8 p))"
definition SDDL2_op_load_u16le :: "unit vm_op" where
  "SDDL2_op_load_u16le = load_op 2 (\<lambda>p. ucast (ZL_read16 p))"
definition SDDL2_op_load_i16le :: "unit vm_op" where
  "SDDL2_op_load_i16le = load_op 2 (\<lambda>p. scast (ZL_read16 p))"
definition SDDL2_op_load_u16be :: "unit vm_op" where
  "SDDL2_op_load_u16be = load_op 2 (\<lambda>p. ucast (ZL_readBE16 p))"
definition SDDL2_op_load_i16be :: "unit vm_op" where
  "SDDL2_op_load_i16be = load_op 2 (\<lambda>p. scast (ZL_readBE16 p))"
definition SDDL2_op_load_u32le :: "unit vm_op" where
  "SDDL2_op_load_u32le = load_op 4 (\<lambda>p. ucast (ZL_read32 p))"
definition SDDL2_op_load_i32le :: "unit vm_op" where
  "SDDL2_op_load_i32le = load_op 4 (\<lambda>p. scast (ZL_read32 p))"
definition SDDL2_op_load_u32be :: "unit vm_op" where
  "SDDL2_op_load_u32be = load_op 4 (\<lambda>p. ucast (ZL_readBE32 p))"
definition SDDL2_op_load_i32be :: "unit vm_op" where
  "SDDL2_op_load_i32be = load_op 4 (\<lambda>p. scast (ZL_readBE32 p))"
definition SDDL2_op_load_i64le :: "unit vm_op" where
  "SDDL2_op_load_i64le = load_op 8 ZL_read64"
definition SDDL2_op_load_i64be :: "unit vm_op" where
  "SDDL2_op_load_i64be = load_op 8 ZL_readBE64"

section \<open>Tag registry and segments\<close>

definition SDDL2_Segment_list_init ::
  "SDDL2_allocator \<Rightarrow> SDDL2_Segment_list \<times> SDDL2_allocator" where
  "SDDL2_Segment_list_init al = (case alloc_fn al of
     None \<Rightarrow> (\<lparr>seg_items = [], seg_capacity = 0\<rparr>, al)
   | Some f \<Rightarrow> (case sddl2_alloc (word_of_nat SDDL2_SEGMENT_INITIAL_CAPACITY * sizeof_SDDL2_Segment) al of
       (ok, al) \<Rightarrow>
         (\<lparr>seg_items = [], seg_capacity = if ok then SDDL2_SEGMENT_INITIAL_CAPACITY else 0\<rparr>, al)))"

definition SDDL2_Segment_list_destroy :: "SDDL2_Segment_list \<Rightarrow> SDDL2_Segment_list" where
  "SDDL2_Segment_list_destroy l = l\<lparr>seg_items := [], seg_capacity := 0\<rparr>"

definition SDDL2_Tag_registry_init ::
  "SDDL2_allocator \<Rightarrow> SDDL2_Tag_registry \<times> SDDL2_allocator" where
  "SDDL2_Tag_registry_init al = (case alloc_fn al of
     None \<Rightarrow> (\<lparr>tag_entries = [], tag_capacity = 0\<rparr>, al)
   | Some f \<Rightarrow> (case sddl2_alloc (word_of_nat SDDL2_TAG_INITIAL_CAPACITY * sizeof_SDDL2_Tag_entry) al of
       (ok, al) \<Rightarrow>
         (\<lparr>tag_entries = [], tag_capacity = if ok then SDDL2_TAG_INITIAL_CAPACITY else 0\<rparr>, al)))"

definition SDDL2_Tag_registry_destroy :: "SDDL2_Tag_registry \<Rightarrow> SDDL2_Tag_registry" where
  "SDDL2_Tag_registry_destroy r = r\<lparr>tag_entries := [], tag_capacity := 0\<rparr>"

text \<open>The linear search stops at the first entry of the tag, as \<^const>\<open>map_of\<close> does.\<close>

definition tag_registry_register :: "u32 \<Rightarrow> SDDL2_Type \<Rightarrow> bool vm_op" where
  "tag_registry_register tag type s = (case map_of (tag_entries (registry s)) tag of
     Some t \<Rightarrow> (Ok (types_equal t type), s)
   | None \<Rightarrow>
       (case ensure_capacity (length (tag_entries (registry s))) (tag_capacity (registry s))
               sizeof_SDDL2_Tag_entry SDDL2_TAG_MAX_CAPACITY (allocator s) of
          (False, cap, al) \<Rightarrow>
            (Ok False, s\<lparr>registry := (registry s)\<lparr>tag_capacity := cap\<rparr>, allocator := al\<rparr>)
        | (True, cap, al) \<Rightarrow>
            (Ok True, s\<lparr>registry := (registry s)\<lparr>tag_capacity := cap,
                          tag_entries := tag_entries (registry s) @ [(tag, type)]\<rparr>,
                        allocator := al\<rparr>)))"

definition segment_list_ensure_capacity :: "bool vm_op" where
  "segment_list_ensure_capacity s =
     (case ensure_capacity (length (seg_items (segments s))) (seg_capacity (segments s))
             sizeof_SDDL2_Segment SDDL2_SEGMENT_MAX_CAPACITY (allocator s) of
        (ok, cap, al) \<Rightarrow>
          (Ok ok, s\<lparr>segments := (segments s)\<lparr>seg_capacity := cap\<rparr>, allocator := al\<rparr>))"

definition advance_cursor :: "size_t \<Rightarrow> vm \<Rightarrow> vm" where
  "advance_cursor n s = s\<lparr>buffer := (buffer s)\<lparr>current_pos := current_pos (buffer s) + n\<rparr>\<rparr>"

definition can_merge :: "u32 \<Rightarrow> vm \<Rightarrow> bool" where
  "can_merge tag s \<longleftrightarrow> seg_items (segments s) \<noteq> []
     \<and> (let l = last (seg_items (segments s)) in
        seg_tag l = tag \<and> start_pos l + size_bytes l = current_pos (buffer s))"

definition merge_last :: "size_t \<Rightarrow> vm \<Rightarrow> vm" where
  "merge_last n s = (let l = last (seg_items (segments s)) in
     s\<lparr>segments := (segments s)\<lparr>seg_items :=
         butlast (seg_items (segments s)) @ [l\<lparr>size_bytes := size_bytes l + n\<rparr>]\<rparr>\<rparr>)"

definition append_segment :: "SDDL2_Segment \<Rightarrow> vm \<Rightarrow> vm" where
  "append_segment seg s =
     s\<lparr>segments := (segments s)\<lparr>seg_items := seg_items (segments s) @ [seg]\<rparr>\<rparr>"

text \<open>
  Registering the tag comes before the merge test and before the capacity test. The
  assertions of the merge branch are off in a release build.
\<close>

definition segment_create_internal :: "u32 \<Rightarrow> SDDL2_Type \<Rightarrow> size_t \<Rightarrow> unit vm_op" where
  "segment_create_internal tag type element_count =
     vm_bind (vm_lift (SDDL2_Type_size type)) (\<lambda>total_type_size.
     let (ovf, n) = ZL_overflowMulST element_count total_type_size in
     if ovf then vm_fail SDDL2_MATH_OVERFLOW else
     vm_bind (vm_get (\<lambda>s. buf_size (buffer s) < current_pos (buffer s) + n)) (\<lambda>out.
     if out then vm_fail SDDL2_SEGMENT_BOUNDS else
     vm_bind (if tag \<noteq> 0 then tag_registry_register tag type else vm_return True) (\<lambda>registered.
     if \<not> registered then vm_fail SDDL2_TYPE_MISMATCH else
     vm_bind (vm_get (can_merge tag)) (\<lambda>merge.
     if merge then vm_modify (\<lambda>s. advance_cursor n (merge_last n s)) else
     vm_bind segment_list_ensure_capacity (\<lambda>room.
     if \<not> room then vm_fail SDDL2_LIMIT_EXCEEDED else
     vm_modify (\<lambda>s. advance_cursor n (append_segment
       \<lparr>seg_tag = tag, start_pos = current_pos (buffer s), size_bytes = n, seg_type = type\<rparr> s)))))))"

definition bytes_type :: SDDL2_Type where
  "bytes_type = SDDL2_Type SDDL2_TYPE_BYTES 1 None"

definition SDDL2_op_segment_create_unspecified :: "unit vm_op" where
  "SDDL2_op_segment_create_unspecified = vm_bind pop_i64 (\<lambda>size_i64.
     if sint size_i64 < 0 then vm_fail SDDL2_TYPE_MISMATCH
     else segment_create_internal 0 bytes_type size_i64)"

definition SDDL2_op_segment_create_tagged :: "unit vm_op" where
  "SDDL2_op_segment_create_tagged =
     vm_bind pop_i64 (\<lambda>size_i64. vm_bind pop_type (\<lambda>type. vm_bind pop_tag (\<lambda>tag.
     if sint size_i64 < 0 then vm_fail SDDL2_TYPE_MISMATCH
     else segment_create_internal tag type size_i64)))"

text \<open>The state \<^verbatim>\<open>SDDL2_execute_bytecode\<close> starts from.\<close>

definition SDDL2_vm_init :: "SDDL2_Segment_list \<Rightarrow> SDDL2_allocator \<Rightarrow> byte list \<Rightarrow> vm" where
  "SDDL2_vm_init segs al input = (case SDDL2_Tag_registry_init al of (reg, al) \<Rightarrow>
     \<lparr>stack = SDDL2_Stack_init \<lparr>items = [], capacity = 256\<rparr>,
      regs = SDDL2_Var_registers_init,
      buffer = SDDL2_Input_cursor_init input,
      segments = segs,
      registry = reg,
      trace = SDDL2_Trace_buffer_init,
      allocator = al\<rparr>)"


lemmas vm_seq_defs [vm_simps] =
  vm_return_def vm_fail_def vm_undef_def vm_lift_def vm_get_def vm_modify_def vm_bind_def

lemmas vm_stack_defs [vm_simps] =
  SDDL2_Stack_push_def SDDL2_Stack_pop_def SDDL2_Stack_peek_def
  pop_i64_def pop_positive_i64_def pop_tag_def pop_type_def push_i64_def

text \<open>A machine with a given stack and input, for examples.\<close>

definition example_vm :: "SDDL2_Value list \<Rightarrow> byte list \<Rightarrow> vm" where
  "example_vm vs input =
     (SDDL2_vm_init \<lparr>seg_items = [], seg_capacity = 0\<rparr> \<lparr>alloc_fn = Some (\<lambda>_ _. True), alloc_count = 0\<rparr>
        input)\<lparr>stack := \<lparr>items = vs, capacity = 256\<rparr>\<rparr>"

lemma example_vm_simps [simp]:
  "stack (example_vm vs input) = \<lparr>items = vs, capacity = 256\<rparr>"
  "buffer (example_vm vs input) = SDDL2_Input_cursor_init input"
  "regs (example_vm vs input) = SDDL2_Var_registers_init"
  "alloc_fn (allocator (example_vm vs input)) = Some (\<lambda>_ _. True)"
  by (simp_all add: example_vm_def SDDL2_vm_init_def SDDL2_Tag_registry_init_def sddl2_alloc_def
      split: prod.splits)

end
