(* ===== verification/SDDL2_VM_Exact.thy ===== *)
theory SDDL2_VM_Exact
  imports SDDL2_VM
begin

text \<open>
  What the arithmetic and load operations of the SDDL2 machine compute, against references on
  mathematical integers: an operation either pushes the exact result or reports the error the
  reference reports.
\<close>

section \<open>Arithmetic is exact\<close>

abbreviation int64_range :: "int \<Rightarrow> bool" where
  "int64_range z \<equiv> INT64_MIN \<le> z \<and> z \<le> INT64_MAX"

lemma add_would_overflow_iff: "add_would_overflow a b \<longleftrightarrow> \<not> int64_range (sint a + sint b)"
  using sint_range64 [of a] sint_range64 [of b]
  by (auto simp: add_would_overflow_def)

lemma sub_would_overflow_iff: "sub_would_overflow a b \<longleftrightarrow> \<not> int64_range (sint a - sint b)"
  using sint_range64 [of a] sint_range64 [of b]
  by (auto simp: sub_would_overflow_def)

text \<open>Comparing with a truncated quotient.\<close>

lemma int_div_less_iff:
  assumes "0 < (b :: int)"
  shows "m div b < c \<longleftrightarrow> m < c * b"
proof
  assume "m div b < c"
  then have "(m div b + 1) * b \<le> c * b" using assms by simp
  moreover have "m < (m div b + 1) * b"
    using assms pos_mod_bound [of b m] div_mult_mod_eq [of m b]
    unfolding distrib_right mult_1 by linarith
  ultimately show "m < c * b" by simp
next
  assume l: "m < c * b"
  show "m div b < c"
  proof (rule ccontr)
    assume "\<not> m div b < c"
    then have "c * b \<le> m div b * b" using assms by simp
    also have "\<dots> \<le> m"
      using assms pos_mod_sign [of b m] div_mult_mod_eq [of m b] by linarith
    finally show False using l by simp
  qed
qed

lemma sdiv_pos_pos: "0 < b \<Longrightarrow> 0 < m \<Longrightarrow> m sdiv b < a \<longleftrightarrow> m < a * (b :: int)"
  by (simp add: signed_divide_int_def int_div_less_iff)

lemma sdiv_neg_pos: "0 < b \<Longrightarrow> m < 0 \<Longrightarrow> a < m sdiv b \<longleftrightarrow> a * b < (m :: int)"
  using int_div_less_iff [of b "- m" "- a"] by (auto simp: signed_divide_int_def)

lemma sdiv_pos_neg: "b < 0 \<Longrightarrow> 0 < m \<Longrightarrow> a < m sdiv b \<longleftrightarrow> m < a * (b :: int)"
  using int_div_less_iff [of "- b" m "- a"] by (auto simp: signed_divide_int_def)

lemma mul_would_overflow_iff: "mul_would_overflow a b \<longleftrightarrow> \<not> int64_range (sint a * sint b)"
proof -
  let ?a = "sint a" and ?b = "sint b"
  note r = sint_range64 [of a] sint_range64 [of b]
  consider (triv) "?a = 0 \<or> ?b = 0 \<or> ?a = 1 \<or> ?b = 1 \<or> ?a = - 1 \<or> ?b = - 1"
    | (pp) "1 < ?a" "1 < ?b" | (pn) "1 < ?a" "?b < - 1"
    | (np) "?a < - 1" "1 < ?b" | (nn) "?a < - 1" "?b < - 1"
    by linarith
  then show ?thesis
  proof cases
    case triv
    then show ?thesis using r by (auto simp: mul_would_overflow_def)
  next
    case pp
    then have "0 \<le> ?a * ?b" by simp
    then have "INT64_MIN \<le> ?a * ?b" by linarith
    then show ?thesis using pp by (auto simp: mul_would_overflow_def sdiv_pos_pos)
  next
    case pn
    then have "?a * ?b \<le> 0" by (simp add: mult_le_0_iff)
    then show ?thesis
      using pn sdiv_neg_pos [of ?a INT64_MIN ?b] by (auto simp: mul_would_overflow_def mult.commute)
  next
    case np
    then have "?a * ?b \<le> 0" by (simp add: mult_le_0_iff)
    then show ?thesis
      using np sdiv_neg_pos [of ?b INT64_MIN ?a] by (auto simp: mul_would_overflow_def)
  next
    case nn
    then have "0 \<le> ?a * ?b" by (simp add: zero_le_mult_iff)
    then show ?thesis
      using nn sdiv_pos_neg [of ?b INT64_MAX ?a] by (auto simp: mul_would_overflow_def)
  qed
qed

lemma sdiv_range:
  assumes "int64_range a" "int64_range b" "b \<noteq> 0"
  shows "int64_range (a sdiv b) \<longleftrightarrow> \<not> (a = INT64_MIN \<and> b = - 1)"
proof (cases "b = 1 \<or> b = - 1")
  case True
  then show ?thesis using assms by (auto simp: signed_divide_int_def sgn_if split: if_splits)
next
  case False
  with assms(3) have "1 < \<bar>b\<bar>" by linarith
  then have "\<bar>a\<bar> div \<bar>b\<bar> < 2 ^ 63"
    using assms(1) by (subst int_div_less_iff) auto
  moreover have "\<bar>a sdiv b\<bar> = \<bar>a\<bar> div \<bar>b\<bar>"
    using assms(3) by (auto simp: signed_divide_int_def abs_mult sgn_if pos_imp_zdiv_nonneg_iff)
  ultimately show ?thesis using False by auto
qed

lemma sint_word_of_int: "int64_range z \<Longrightarrow> sint (word_of_int z :: u64) = z"
  by (simp add: sint_sbintrunc' signed_take_bit_int_eq_self)

text \<open>
  The reference: an operation that computes the integer \<open>z\<close> pushes it if it is an
  \<^verbatim>\<open>int64_t\<close> and reports overflow otherwise; \<open>vs\<close> is the stack below the operands.
\<close>

definition push_exact :: "int \<Rightarrow> SDDL2_Value list \<Rightarrow> vm \<Rightarrow> unit vmres \<times> vm" where
  "push_exact z vs s =
     (if INT64_MIN \<le> z \<and> z \<le> INT64_MAX
      then (Ok (), s\<lparr>stack := (stack s)\<lparr>items := SDDL2_VALUE_I64 (word_of_int z) # vs\<rparr>\<rparr>)
      else (Fail SDDL2_MATH_OVERFLOW, s\<lparr>stack := (stack s)\<lparr>items := vs\<rparr>\<rparr>))"

lemma word_of_int_sint_ops:
  "word_of_int (sint a + sint b) = a + (b :: u64)"
  "word_of_int (sint a - sint b) = a - (b :: u64)"
  "word_of_int (sint a * sint b) = a * (b :: u64)"
  "word_of_int (- sint a) = - (a :: u64)"
  by simp_all

text \<open>
  C15: the arithmetic operations are exact. Each pushes the mathematical result of its operands
  when that is an \<^verbatim>\<open>int64_t\<close> and fails with \<^verbatim>\<open>SDDL2_MATH_OVERFLOW\<close> when it is not; division
  truncates towards zero and fails with \<^verbatim>\<open>SDDL2_DIV_ZERO\<close> on a zero divisor.
\<close>

theorem arithmetic_exact:
  assumes "items (stack s) = SDDL2_VALUE_I64 b # SDDL2_VALUE_I64 a # vs"
    "length (items (stack s)) \<le> capacity (stack s)"
  shows "SDDL2_op_add s = push_exact (sint a + sint b) vs s
    \<and> SDDL2_op_sub s = push_exact (sint a - sint b) vs s
    \<and> SDDL2_op_mul s = push_exact (sint a * sint b) vs s
    \<and> SDDL2_op_neg s = push_exact (- sint b) (SDDL2_VALUE_I64 a # vs) s
    \<and> SDDL2_op_abs s = push_exact \<bar>sint b\<bar> (SDDL2_VALUE_I64 a # vs) s
    \<and> SDDL2_op_div s =
        (if sint b = 0 then (Fail SDDL2_DIV_ZERO, s\<lparr>stack := (stack s)\<lparr>items := vs\<rparr>\<rparr>)
         else push_exact (sint a sdiv sint b) vs s)"
proof (intro conjI)
  note defs = assms vm_simps push_exact_def add_would_overflow_iff sub_would_overflow_iff
    mul_would_overflow_iff
  show "SDDL2_op_add s = push_exact (sint a + sint b) vs s"
    using assms by (simp add: SDDL2_op_add_def defs)
  show "SDDL2_op_sub s = push_exact (sint a - sint b) vs s"
    using assms by (simp add: SDDL2_op_sub_def defs)
  show "SDDL2_op_mul s = push_exact (sint a * sint b) vs s"
    using assms by (simp add: SDDL2_op_mul_def defs)
  show "SDDL2_op_neg s = push_exact (- sint b) (SDDL2_VALUE_I64 a # vs) s"
    using assms sint_range64 [of b] by (auto simp: SDDL2_op_neg_def defs)
  show "SDDL2_op_abs s = push_exact \<bar>sint b\<bar> (SDDL2_VALUE_I64 a # vs) s"
    using assms sint_range64 [of b] by (auto simp: SDDL2_op_abs_def defs)
  show "SDDL2_op_div s =
        (if sint b = 0 then (Fail SDDL2_DIV_ZERO, s\<lparr>stack := (stack s)\<lparr>items := vs\<rparr>\<rparr>)
         else push_exact (sint a sdiv sint b) vs s)"
    using assms sint_range64 [of a] sint_range64 [of b] sdiv_range [of "sint a" "sint b"]
    by (auto simp: SDDL2_op_div_def defs)
qed

theorem arithmetic_exact_witness:
  "SDDL2_op_mul (example_vm [SDDL2_VALUE_I64 (- 3), SDDL2_VALUE_I64 5] []) =
     push_exact (- 15) [] (example_vm [SDDL2_VALUE_I64 (- 3), SDDL2_VALUE_I64 5] [])"
  using arithmetic_exact [of "example_vm [SDDL2_VALUE_I64 (- 3), SDDL2_VALUE_I64 5] []" "- 3" 5 "[]"]
  by simp


section \<open>Loads\<close>

primrec le_nat :: "byte list \<Rightarrow> nat" where
  "le_nat [] = 0"
| "le_nat (b # bs) = unat b + 256 * le_nat bs"

lemma le_nat_less: "le_nat bs < 256 ^ length bs"
proof (induction bs)
  case (Cons b bs)
  have "unat b < 256" using unsigned_less [of b, where ?'a = nat] by simp
  with Cons show ?case by simp
qed simp

lemma unat_read_le:
  assumes "8 * length bs \<le> LENGTH('a::len)"
  shows "unat (read_le bs :: 'a word) = le_nat bs"
  using assms
proof (induction bs)
  case (Cons b bs)
  let ?r = "read_le bs :: 'a word"
  have "(256 :: nat) ^ length (b # bs) = 2 ^ (8 * length (b # bs))" by (simp add: power_add power_mult)
  also have "\<dots> \<le> 2 ^ LENGTH('a)" using Cons.prems by (intro power_increasing) auto
  finally have bound: "256 ^ length (b # bs) \<le> (2 :: nat) ^ LENGTH('a)" .
  have b8: "\<not> bit b k" if "8 \<le> k" for k using bit_imp_le_length [of b k] that by auto
  have disj: "(ucast b :: 'a word) AND push_bit 8 ?r = 0"
    by (rule bit_word_eqI) (auto simp: bit_simps b8)
  have "unat (ucast b :: 'a word) = unat b"
    using Cons.prems unsigned_less [of b, where ?'a = nat] power_increasing [of 8 "LENGTH('a)" "2 :: nat"]
    by (simp add: unsigned_ucast_eq take_bit_nat_eq_self)
  moreover have "unat (push_bit 8 ?r) = 256 * le_nat bs"
  proof -
    have "256 * le_nat bs < 2 ^ LENGTH('a)"
      using le_nat_less [of bs] bound by (simp add: less_le_trans)
    then show ?thesis
      using Cons
      by (simp add: unsigned_push_bit_eq push_bit_eq_mult [where ?'a = nat] take_bit_nat_eq_self
          mult.commute)
  qed
  ultimately have "unat (ucast b + push_bit 8 ?r) = unat b + 256 * le_nat bs"
    using le_nat_less [of "b # bs"] bound by (simp add: unat_word_ariths)
  then show ?case by (simp add: disjunctive_add_eq_or [OF disj])
qed simp

definition signed_value :: "nat \<Rightarrow> nat \<Rightarrow> int" where
  "signed_value n v = (if 2 * v < 256 ^ n then int v else int v - 256 ^ n)"

lemma sint_signed_value:
  assumes "LENGTH('a) = 8 * n"
  shows "sint (w :: 'a::len word) = signed_value n (unat w)"
proof -
  let ?N = "2 ^ LENGTH('a) :: int"
  have N: "(256 :: nat) ^ n = 2 ^ LENGTH('a)" "(256 :: int) ^ n = ?N"
    by (simp_all add: assms power_mult)
  have half: "?N = 2 * 2 ^ (LENGTH('a) - 1)"
    by (metis One_nat_def Suc_pred len_gt_0 power_Suc)
  have r: "- (2 ^ (LENGTH('a) - 1)) \<le> sint w" "sint w < 2 ^ (LENGTH('a) - 1)"
    using sint_greater_eq [of w] sint_less [of w] by simp_all
  have u: "int (unat w) = sint w mod ?N" by (simp add: uint_sint take_bit_eq_mod)
  have n: "2 * unat w < 256 ^ n \<longleftrightarrow> 2 * int (unat w) < ?N"
    unfolding N by (metis of_nat_less_iff of_nat_mult of_nat_numeral of_nat_power)
  show ?thesis
  proof (cases "sint w < 0")
    case True
    have "sint w mod ?N = (sint w + ?N) mod ?N" by simp
    also have "\<dots> = sint w + ?N"
      using True r half by (intro mod_pos_pos_trivial) auto
    finally have e: "int (unat w) = sint w + ?N" by (simp only: u)
    then have "\<not> 2 * unat w < 256 ^ n" unfolding n using r half by linarith
    then show ?thesis unfolding signed_value_def e N(2) by simp
  next
    case False
    then have e: "int (unat w) = sint w"
      unfolding u using r half by (intro mod_pos_pos_trivial) auto
    then have "2 * unat w < 256 ^ n" unfolding n using r half by linarith
    then show ?thesis unfolding signed_value_def e by simp
  qed
qed

lemma read_le_le_nat:
  "8 * length bs \<le> LENGTH('a) \<Longrightarrow> read_le bs = (word_of_nat (le_nat bs) :: 'a::len word)"
  by (simp flip: unat_read_le)

lemma ucast_read_le_nat:
  assumes "8 * length bs \<le> LENGTH('a::len)" "LENGTH('a) \<le> 64"
  shows "ucast (read_le bs :: 'a word) = (word_of_nat (le_nat bs) :: u64)"
  using assms by (simp add: ucast_read_le read_le_le_nat [where ?'a = 64])

lemma scast_read_le:
  assumes "LENGTH('a::len) = 8 * n" "length bs = n"
  shows "scast (read_le bs :: 'a word) = (word_of_int (signed_value n (le_nat bs)) :: u64)"
  using assms by (simp add: scast_eq sint_signed_value unat_read_le)

text \<open>What each read expression of the load operations computes from the bytes it reads.\<close>

lemmas read_defs = ZL_read8_def ZL_read16_def ZL_read32_def ZL_read64_def
  ZL_readBE16_def ZL_readBE32_def ZL_readBE64_def

lemma read_exprs_unsigned:
  "1 \<le> length p \<Longrightarrow> ucast (ZL_read8 p) = (word_of_nat (le_nat (take 1 p)) :: u64)"
  "2 \<le> length p \<Longrightarrow> ucast (ZL_read16 p) = (word_of_nat (le_nat (take 2 p)) :: u64)"
  "4 \<le> length p \<Longrightarrow> ucast (ZL_read32 p) = (word_of_nat (le_nat (take 4 p)) :: u64)"
  "2 \<le> length p \<Longrightarrow> ucast (ZL_readBE16 p) = (word_of_nat (le_nat (rev (take 2 p))) :: u64)"
  "4 \<le> length p \<Longrightarrow> ucast (ZL_readBE32 p) = (word_of_nat (le_nat (rev (take 4 p))) :: u64)"
  unfolding read_defs by (simp_all add: bswap_read_le ucast_read_le_nat)

lemma signed_value_8: "word_of_int (signed_value 8 v) = (word_of_nat v :: u64)"
  by (simp add: signed_value_def)

lemma read_exprs_signed:
  "1 \<le> length p \<Longrightarrow>
     scast (ZL_read8 p) = (word_of_int (signed_value 1 (le_nat (take 1 p))) :: u64)"
  "2 \<le> length p \<Longrightarrow>
     scast (ZL_read16 p) = (word_of_int (signed_value 2 (le_nat (take 2 p))) :: u64)"
  "4 \<le> length p \<Longrightarrow>
     scast (ZL_read32 p) = (word_of_int (signed_value 4 (le_nat (take 4 p))) :: u64)"
  "8 \<le> length p \<Longrightarrow> ZL_read64 p = word_of_int (signed_value 8 (le_nat (take 8 p)))"
  "2 \<le> length p \<Longrightarrow>
     scast (ZL_readBE16 p) = (word_of_int (signed_value 2 (le_nat (rev (take 2 p)))) :: u64)"
  "4 \<le> length p \<Longrightarrow>
     scast (ZL_readBE32 p) = (word_of_int (signed_value 4 (le_nat (rev (take 4 p)))) :: u64)"
  "8 \<le> length p \<Longrightarrow> ZL_readBE64 p = word_of_int (signed_value 8 (le_nat (rev (take 8 p))))"
  unfolding read_defs
  by (simp_all add: bswap_read_le scast_read_le signed_value_8, simp_all add: read_le_le_nat)

text \<open>
  The reference for the loads: \<open>n\<close> bytes at the popped address, decoded by \<open>f\<close>, or
  \<^verbatim>\<open>SDDL2_LOAD_BOUNDS\<close> when they are not all inside the input.
\<close>

definition load_exact ::
  "nat \<Rightarrow> (byte list \<Rightarrow> int) \<Rightarrow> i64 \<Rightarrow> SDDL2_Value list \<Rightarrow> vm \<Rightarrow> unit vmres \<times> vm" where
  "load_exact n f addr vs s =
     (let d = buf_data (buffer s) in
      if 0 \<le> sint addr \<and> sint addr + int n \<le> int (length d)
      then (Ok (), s\<lparr>stack := (stack s)\<lparr>items :=
              SDDL2_VALUE_I64 (word_of_int (f (take n (drop (nat (sint addr)) d)))) # vs\<rparr>\<rparr>)
      else (Fail SDDL2_LOAD_BOUNDS, s\<lparr>stack := (stack s)\<lparr>items := vs\<rparr>\<rparr>))"

lemma load_op_exact:
  assumes s: "items (stack s) = SDDL2_VALUE_I64 addr # vs"
      "length (items (stack s)) \<le> capacity (stack s)"
    and b: "buf_size (buffer s) = word_of_nat (length (buf_data (buffer s)))"
      "length (buf_data (buffer s)) < 2 ^ 64"
    and n: "n \<le> 8"
    and f: "\<And>p. n \<le> length p \<Longrightarrow> read_expr p = word_of_int (f (take n p))"
  shows "load_op (word_of_nat n) read_expr s = load_exact n f addr vs s"
proof (cases "0 \<le> sint addr")
  case False
  then show ?thesis using s by (simp add: load_op_def check_load_bounds_def load_exact_def vm_simps)
next
  case True
  let ?d = "buf_data (buffer s)"
  have u: "unat addr = nat (sint addr)" using True by (rule sint_nonneg_unat)
  have "nat (sint addr) + n < 18446744073709551616"
    using sint_range64(2) [of addr] True n by linarith
  moreover have "unat (word_of_nat n :: u64) = n" using n by (simp add: unat_of_nat)
  ultimately have "unat (addr + word_of_nat n) = nat (sint addr) + n"
    using unat_add_no_wrap64 [of addr "word_of_nat n"] by (simp add: u)
  moreover have "unat (buf_size (buffer s)) = length ?d"
    using b by (simp add: unat_of_nat)
  ultimately have bnd: "buf_size (buffer s) < addr + word_of_nat n
      \<longleftrightarrow> \<not> sint addr + int n \<le> int (length ?d)"
    using True by (simp add: word_less_nat_alt) linarith
  show ?thesis
  proof (cases "sint addr + int n \<le> int (length ?d)")
    case in_bounds: True
    then have "n \<le> length (drop (nat (sint addr)) ?d)" using True by simp
    from f [OF this] show ?thesis
      using s True bnd in_bounds
      by (simp add: load_op_def check_load_bounds_def load_exact_def vm_simps u)
  next
    case out: False
    then show ?thesis
      using s True bnd by (simp add: load_op_def check_load_bounds_def load_exact_def vm_simps)
  qed
qed

text \<open>
  C16: the twelve load operations. Each returns the integer that its bytes encode, in its byte
  order and signedness, when all of them are inside the input, and \<^verbatim>\<open>SDDL2_LOAD_BOUNDS\<close>
  otherwise; the bounds test does not wrap.
\<close>

theorem loads_exact:
  assumes "items (stack s) = SDDL2_VALUE_I64 addr # vs"
    "length (items (stack s)) \<le> capacity (stack s)"
    "buf_size (buffer s) = word_of_nat (length (buf_data (buffer s)))"
    "length (buf_data (buffer s)) < 2 ^ 64"
  shows "SDDL2_op_load_u8 s = load_exact 1 (\<lambda>bs. int (le_nat bs)) addr vs s
    \<and> SDDL2_op_load_i8 s = load_exact 1 (\<lambda>bs. signed_value 1 (le_nat bs)) addr vs s
    \<and> SDDL2_op_load_u16le s = load_exact 2 (\<lambda>bs. int (le_nat bs)) addr vs s
    \<and> SDDL2_op_load_i16le s = load_exact 2 (\<lambda>bs. signed_value 2 (le_nat bs)) addr vs s
    \<and> SDDL2_op_load_u16be s = load_exact 2 (\<lambda>bs. int (le_nat (rev bs))) addr vs s
    \<and> SDDL2_op_load_i16be s = load_exact 2 (\<lambda>bs. signed_value 2 (le_nat (rev bs))) addr vs s
    \<and> SDDL2_op_load_u32le s = load_exact 4 (\<lambda>bs. int (le_nat bs)) addr vs s
    \<and> SDDL2_op_load_i32le s = load_exact 4 (\<lambda>bs. signed_value 4 (le_nat bs)) addr vs s
    \<and> SDDL2_op_load_u32be s = load_exact 4 (\<lambda>bs. int (le_nat (rev bs))) addr vs s
    \<and> SDDL2_op_load_i32be s = load_exact 4 (\<lambda>bs. signed_value 4 (le_nat (rev bs))) addr vs s
    \<and> SDDL2_op_load_i64le s = load_exact 8 (\<lambda>bs. signed_value 8 (le_nat bs)) addr vs s
    \<and> SDDL2_op_load_i64be s = load_exact 8 (\<lambda>bs. signed_value 8 (le_nat (rev bs))) addr vs s"
proof -
  note L = load_op_exact [OF assms]
  have num: "(1 :: u64) = word_of_nat 1" "(2 :: u64) = word_of_nat 2" "(4 :: u64) = word_of_nat 4"
    "(8 :: u64) = word_of_nat 8" by simp_all
  show ?thesis
    unfolding SDDL2_op_load_u8_def SDDL2_op_load_i8_def SDDL2_op_load_u16le_def
      SDDL2_op_load_i16le_def SDDL2_op_load_u16be_def SDDL2_op_load_i16be_def
      SDDL2_op_load_u32le_def SDDL2_op_load_i32le_def SDDL2_op_load_u32be_def
      SDDL2_op_load_i32be_def SDDL2_op_load_i64le_def SDDL2_op_load_i64be_def num
    by (intro conjI; rule L; simp add: read_exprs_unsigned read_exprs_signed)
qed

theorem loads_exact_witness:
  "SDDL2_op_load_i16be (example_vm [SDDL2_VALUE_I64 1] [7, 0xff, 0xfe]) =
     (Ok (), (example_vm [SDDL2_VALUE_I64 1] [7, 0xff, 0xfe])
        \<lparr>stack := \<lparr>items = [SDDL2_VALUE_I64 (- 2)], capacity = 256\<rparr>\<rparr>)"
  using loads_exact [of "example_vm [SDDL2_VALUE_I64 1] [7, 0xff, 0xfe]" 1 "[]"]
  by (simp add: SDDL2_Input_cursor_init_def load_exact_def signed_value_def)


lemma smod_range:
  assumes "int64_range a" "int64_range b" "b \<noteq> 0"
  shows "int64_range (a smod b)"
proof -
  define r where "r = \<bar>a\<bar> mod \<bar>b\<bar>"
  have "r < \<bar>b\<bar>" "0 \<le> r" using assms(3) by (simp_all add: r_def)
  moreover have "a smod b = r \<or> a smod b = - r \<or> a smod b = 0"
    by (auto simp: signed_modulo_int_def sgn_if r_def)
  ultimately show ?thesis using assms by linarith
qed

text \<open>
  The remainder is exact but for one pair of operands: \<open>INT64_MIN % -1\<close>, which is not
  tested for and which the C standard leaves undefined.
\<close>

theorem mod_exact:
  assumes "items (stack s) = SDDL2_VALUE_I64 b # SDDL2_VALUE_I64 a # vs"
    "length (items (stack s)) \<le> capacity (stack s)"
  shows "SDDL2_op_mod s =
     (if sint b = 0 then (Fail SDDL2_DIV_ZERO, s\<lparr>stack := (stack s)\<lparr>items := vs\<rparr>\<rparr>)
      else if sint a = INT64_MIN \<and> sint b = - 1 then (Undef, s\<lparr>stack := (stack s)\<lparr>items := vs\<rparr>\<rparr>)
      else push_exact (sint a smod sint b) vs s)"
  using assms smod_range [of "sint a" "sint b"] sint_range64 [of a] sint_range64 [of b]
  by (auto simp: SDDL2_op_mod_def vm_simps push_exact_def)

theorem mod_exact_witness:
  "fst (SDDL2_op_mod (example_vm [SDDL2_VALUE_I64 (- 1), SDDL2_VALUE_I64 0x8000000000000000] [])) = Undef"
  using mod_exact [of "example_vm [SDDL2_VALUE_I64 (- 1), SDDL2_VALUE_I64 0x8000000000000000] []"
      "- 1" "0x8000000000000000" "[]"]
  by simp

section \<open>Variables\<close>

text \<open>
  A value stored in a register is the one a later load of that register pushes, and the
  other registers keep theirs; loading a register that was never stored fails.
\<close>

theorem var_store_load:
  assumes "items (stack s) = SDDL2_VALUE_I64 i # v # vs"
    "length (items (stack s)) \<le> capacity (stack s)" "length (regs s) = SDDL2_VAR_REGISTER_COUNT"
    "0 \<le> sint i" "sint i < 256" "0 \<le> sint j" "sint j < 256"
  shows "vm_bind SDDL2_op_var_store (\<lambda>_. vm_bind (push_i64 j) (\<lambda>_. SDDL2_op_var_load)) s =
     (let s1 = s\<lparr>stack := (stack s)\<lparr>items := vs\<rparr>, regs := (regs s)[unat i := Some v]\<rparr> in
      case (if i = j then Some v else regs s ! unat j) of
        Some w \<Rightarrow> (Ok (), s1\<lparr>stack := (stack s)\<lparr>items := w # vs\<rparr>\<rparr>)
      | None \<Rightarrow> (Fail SDDL2_LOAD_BOUNDS, s1))"
proof -
  have "unat i < 256" "unat j < 256"
    using assms sint_nonneg_unat [of i] sint_nonneg_unat [of j] by simp_all
  moreover have "unat i = unat j \<longleftrightarrow> i = j" by (simp add: word_unat_eq_iff)
  ultimately show ?thesis
    using assms
    by (auto simp: SDDL2_op_var_store_def SDDL2_op_var_load_def vm_simps Let_def
        nth_list_update split: option.splits)
qed

theorem var_store_load_witness:
  "fst (vm_bind SDDL2_op_var_store (\<lambda>_. vm_bind (push_i64 3) (\<lambda>_. SDDL2_op_var_load))
     (example_vm [SDDL2_VALUE_I64 3, SDDL2_VALUE_TAG 9] [])) = Ok ()"
  using var_store_load [of "example_vm [SDDL2_VALUE_I64 3, SDDL2_VALUE_TAG 9] []" 3 "SDDL2_VALUE_TAG 9"
      "[]" 3]
  by (simp add: SDDL2_Var_registers_init_def Let_def)

section \<open>Type construction\<close>

lemma sint_word_of_nat: "m < 2 ^ 63 \<Longrightarrow> sint (word_of_nat m :: u64) = int m"
  using sint_word_of_int [of "int m"] by simp

lemma pop_members_exact:
  assumes "items (stack s) = map SDDL2_VALUE_TYPE (rev ts) @ vs"
    "16 + length ts * 16 \<le> unat bytes"
  shows "pop_members (length ts) bytes ms s =
     (Ok (ts @ ms), s\<lparr>stack := (stack s)\<lparr>items := vs\<rparr>\<rparr>)"
  using assms
proof (induction ts arbitrary: s ms rule: rev_induct)
  case Nil
  then have "s\<lparr>stack := (stack s)\<lparr>items := vs\<rparr>\<rparr> = s" by simp
  then show ?case by (simp add: vm_simps)
next
  case (snoc t ts)
  let ?s = "s\<lparr>stack := (stack s)\<lparr>items := map SDDL2_VALUE_TYPE (rev ts) @ vs\<rparr>\<rparr>"
  have "pop_members (length ts) bytes (t # ms) ?s =
     (Ok (ts @ t # ms), ?s\<lparr>stack := (stack ?s)\<lparr>items := vs\<rparr>\<rparr>)"
    using snoc.prems by (intro snoc.IH) simp_all
  then show ?case using snoc.prems by (simp add: vm_simps)
qed

lemma members_size_sum:
  assumes "list_all2 (\<lambda>t sz. SDDL2_Type_size t = Ok sz) ts szs"
  shows "members_size tot ts =
     (if unat tot + sum_list (map unat szs) < 2 ^ 64
      then Ok (word_of_nat (unat tot + sum_list (map unat szs)))
      else Fail SDDL2_MATH_OVERFLOW)"
  using assms
proof (induction ts szs arbitrary: tot rule: list_all2_induct)
  case Nil
  then show ?case using unat_lt2p64 [of tot] by simp
next
  case (Cons t ts sz szs)
  show ?case
  proof (cases "unat tot + unat sz < 18446744073709551616")
    case True
    then have "unat (tot + sz) = unat tot + unat sz" by (simp add: unat_add_no_wrap64)
    with Cons True show ?thesis
      by (simp add: ZL_overflowAddST_def builtin_add_overflow_def add.assoc)
  next
    case False
    with Cons show ?thesis
      by (simp add: ZL_overflowAddST_def builtin_add_overflow_def)
  qed
qed

text \<open>
  C18: \<^verbatim>\<open>type.structure\<close> over the member types below the count: the structure has them in the
  order they were pushed and its size is the sum of theirs, or \<^verbatim>\<open>SDDL2_MATH_OVERFLOW\<close> if that
  does not fit in a \<^verbatim>\<open>size_t\<close>.
\<close>

theorem structure_exact:
  assumes st: "items (stack s) =
      SDDL2_VALUE_I64 (word_of_nat (length ts)) # map SDDL2_VALUE_TYPE (rev ts) @ vs"
      "length (items (stack s)) \<le> capacity (stack s)" "length ts < 2 ^ 59"
    and al: "alloc_fn (allocator s) = Some f"
      "f (alloc_count (allocator s)) (16 + word_of_nat (length ts) * 16)"
    and sz: "list_all2 (\<lambda>t sz. SDDL2_Type_size t = Ok sz) ts szs"
  shows "SDDL2_op_type_structure s =
    (let s1 = s\<lparr>allocator := (allocator s)\<lparr>alloc_count := Suc (alloc_count (allocator s))\<rparr>\<rparr>;
         tot = sum_list (map unat szs) in
     if tot < 2 ^ 64
     then (Ok (), s1\<lparr>stack := (stack s)\<lparr>items := SDDL2_VALUE_TYPE (SDDL2_Type SDDL2_TYPE_STRUCTURE 1
            (Some (SDDL2_Struct_data (alloc_count (allocator s)) (word_of_nat tot) ts))) # vs\<rparr>\<rparr>)
     else (Fail SDDL2_MATH_OVERFLOW, s1\<lparr>stack := (stack s)\<lparr>items := vs\<rparr>\<rparr>))"
proof -
  let ?n = "word_of_nat (length ts) :: u64"
  let ?bytes = "16 + ?n * 16"
  have un: "unat ?n = length ts" using st(3) by (simp add: unat_of_nat)
  have sn: "0 \<le> sint ?n" using st(3) sint_word_of_nat [of "length ts"] by simp
  have ub: "unat ?bytes = 16 + length ts * 16"
    using st(3) by (simp add: unat_word_ariths un)
  have nz: "\<not> ?bytes < 16" by (simp add: word_less_nat_alt ub)
  let ?s1 = "s\<lparr>stack := (stack s)\<lparr>items := map SDDL2_VALUE_TYPE (rev ts) @ vs\<rparr>,
     allocator := (allocator s)\<lparr>alloc_count := Suc (alloc_count (allocator s))\<rparr>\<rparr>"
  have pm: "pop_members (length ts) ?bytes [] ?s1 = (Ok ts, ?s1\<lparr>stack := (stack ?s1)\<lparr>items := vs\<rparr>\<rparr>)"
    using pop_members_exact [of ?s1 ts vs ?bytes "[]"] ub by simp
  show ?thesis
    using st al sn nz pm members_size_sum [OF sz, of 0]
    by (simp add: SDDL2_op_type_structure_def build_structure_def vm_simps vm_alloc_def sddl2_alloc_def un Let_def)
qed


theorem structure_exact_witness:
  "fst (SDDL2_op_type_structure (example_vm [SDDL2_VALUE_I64 2,
      SDDL2_VALUE_TYPE (SDDL2_Type SDDL2_TYPE_U16LE 3 None),
      SDDL2_VALUE_TYPE (SDDL2_Type SDDL2_TYPE_U8 1 None)] [])) = Ok ()"
  using structure_exact [of "example_vm [SDDL2_VALUE_I64 2,
      SDDL2_VALUE_TYPE (SDDL2_Type SDDL2_TYPE_U16LE 3 None),
      SDDL2_VALUE_TYPE (SDDL2_Type SDDL2_TYPE_U8 1 None)] []"
      "[SDDL2_Type SDDL2_TYPE_U8 1 None, SDDL2_Type SDDL2_TYPE_U16LE 3 None]" "[]" "\<lambda>_ _. True" "[1, 6]"]
  by (simp add: SDDL2_Type_size_def SDDL2_kind_size_def Let_def)

lemma pop_members_undef:
  assumes "items (stack s) = SDDL2_VALUE_TYPE t # vs" "0 < n" "unat bytes < 16 + n * 16"
  shows "pop_members n bytes ms s = (Undef, s\<lparr>stack := (stack s)\<lparr>items := vs\<rparr>\<rparr>)"
  using assms by (cases n) (simp_all add: vm_simps)


text \<open>
  C: \<^verbatim>\<open>type.fixed_array\<close> multiplies the width by the count, but by the count modulo \<open>2 ^ 32\<close>:
  the conversion to \<^verbatim>\<open>uint32_t\<close> happens before the overflow test.
\<close>

theorem fixed_array_exact:
  assumes "items (stack s) = SDDL2_VALUE_I64 n # SDDL2_VALUE_TYPE (SDDL2_Type k w sd) # vs"
    "length (items (stack s)) \<le> capacity (stack s)" "0 \<le> sint n"
  shows "SDDL2_op_type_fixed_array s =
     (let m = unat n mod 2 ^ 32 in
      if unat w * m < 2 ^ 32
      then (Ok (), s\<lparr>stack := (stack s)\<lparr>items :=
              SDDL2_VALUE_TYPE (SDDL2_Type k (word_of_nat (unat w * m)) sd) # vs\<rparr>\<rparr>)
      else (Fail SDDL2_MATH_OVERFLOW, s\<lparr>stack := (stack s)\<lparr>items := vs\<rparr>\<rparr>))"
proof -
  have u: "unat (ucast n :: u32) = unat n mod 2 ^ 32"
    by (simp add: unsigned_ucast_eq take_bit_eq_mod [where ?'a = nat])
  have "word_of_nat (unat w * unat (ucast n :: u32)) = w * ucast n" by simp
  then have "w * ucast n = word_of_nat (unat w * (unat n mod 2 ^ 32))" by (simp only: u)
  with u show ?thesis
    using assms
    by (simp add: SDDL2_op_type_fixed_array_def vm_simps ZL_overflowMulU32_def
        builtin_mul_overflow_def Let_def)
qed

theorem fixed_array_exact_witness:
  "SDDL2_op_type_fixed_array (example_vm [SDDL2_VALUE_I64 0x100000000,
      SDDL2_VALUE_TYPE (SDDL2_Type SDDL2_TYPE_U8 1 None)] []) =
     (Ok (), (example_vm [SDDL2_VALUE_I64 0x100000000,
        SDDL2_VALUE_TYPE (SDDL2_Type SDDL2_TYPE_U8 1 None)] [])
        \<lparr>stack := \<lparr>items = [SDDL2_VALUE_TYPE (SDDL2_Type SDDL2_TYPE_U8 0 None)], capacity = 256\<rparr>\<rparr>)"
  using fixed_array_exact [of "example_vm [SDDL2_VALUE_I64 0x100000000,
      SDDL2_VALUE_TYPE (SDDL2_Type SDDL2_TYPE_U8 1 None)] []" "0x100000000" SDDL2_TYPE_U8 1 None "[]"]
    sint_word_of_nat [of "0x100000000"]
  by simp

end
