(* ===== verification/SDDL2_VM_Invariant.thy ===== *)
theory SDDL2_VM_Invariant
  imports SDDL2_VM
begin

text \<open>
  Invariants of the SDDL2 machine. The locale \<open>vm_invariant\<close> lists what a predicate on states
  has to satisfy for every operation to keep it; \<open>vm_wf\<close>, the invariant of the stack, the
  cursor, the tag registry and the segment list, is shown to satisfy it.
\<close>

section \<open>Preservation of invariants\<close>

definition preserves :: "(vm \<Rightarrow> bool) \<Rightarrow> 'a vm_op \<Rightarrow> bool" where
  "preserves I m \<longleftrightarrow> (\<forall>s. I s \<longrightarrow> I (snd (m s)))"

named_theorems preserves_intros \<open>composing invariant-preserving machine operations\<close>

lemma preserves_seq [preserves_intros]:
  "preserves I (vm_return x)" "preserves I (vm_fail e)" "preserves I vm_undef"
  "preserves I (vm_lift r)" "preserves I (vm_get f)"
  by (simp_all add: preserves_def vm_simps)

lemma preserves_bind [preserves_intros]:
  assumes "preserves I m" "\<And>x. preserves I (f x)"
  shows "preserves I (vm_bind m f)"
  unfolding preserves_def
proof (intro allI impI)
  fix s
  assume "I s"
  then have "I (snd (m s))" using assms(1) by (simp add: preserves_def)
  then show "I (snd (vm_bind m f s))"
    using assms(2) by (auto simp: vm_bind_def preserves_def split: prod.splits vmres.splits)
qed

lemma preserves_if [preserves_intros]:
  "preserves I a \<Longrightarrow> preserves I b \<Longrightarrow> preserves I (if c then a else b)"
  by simp

lemma preserves_let [preserves_intros]: "(\<And>x. preserves I (f x)) \<Longrightarrow> preserves I (Let y f)"
  by (simp add: Let_def)

lemma preserves_let_pair [preserves_intros]:
  "(\<And>x y. preserves I (f x y)) \<Longrightarrow> preserves I (case p of (x, y) \<Rightarrow> f x y)"
  by (cases p) simp

lemma preserves_case_value [preserves_intros]:
  "(\<And>x. preserves I (f x)) \<Longrightarrow> (\<And>x. preserves I (g x)) \<Longrightarrow> (\<And>x. preserves I (h x))
     \<Longrightarrow> preserves I (case v of SDDL2_VALUE_I64 x \<Rightarrow> f x | SDDL2_VALUE_TAG x \<Rightarrow> g x
           | SDDL2_VALUE_TYPE x \<Rightarrow> h x)"
  by (cases v) simp_all

lemma preserves_case_option [preserves_intros]:
  "preserves I f \<Longrightarrow> (\<And>x. preserves I (g x))
     \<Longrightarrow> preserves I (case v of None \<Rightarrow> f | Some x \<Rightarrow> g x)"
  by (cases v) simp_all

text \<open>
  What an invariant of the machine has to guarantee once: it does not depend on the values on
  the stack and in the registers, on the trace or on the allocator, it bounds the stack, and
  segment creation keeps it. Every other operation then keeps it.
\<close>

locale vm_invariant =
  fixes I :: "vm \<Rightarrow> bool"
  assumes stack_bounded: "I s \<Longrightarrow> length (items (stack s)) \<le> capacity (stack s)"
    and stack_items:
      "I s \<Longrightarrow> length vs \<le> capacity (stack s) \<Longrightarrow> I (s\<lparr>stack := (stack s)\<lparr>items := vs\<rparr>\<rparr>)"
    and register: "I s \<Longrightarrow> I (s\<lparr>regs := (regs s)[i := v]\<rparr>)"
    and trace_buffer: "I s \<Longrightarrow> I (s\<lparr>trace := t\<rparr>)"
    and allocation: "I s \<Longrightarrow> I (s\<lparr>allocator := al\<rparr>)"
    and segment: "I s \<Longrightarrow> I (snd (segment_create_internal tag type n s))"
begin

lemma preserves_push [preserves_intros]: "preserves I (SDDL2_Stack_push v)"
  using stack_items by (auto simp: preserves_def SDDL2_Stack_push_def)

lemma preserves_pop [preserves_intros]: "preserves I SDDL2_Stack_pop"
  using stack_items stack_bounded
  by (fastforce simp: preserves_def SDDL2_Stack_pop_def split: list.splits)

lemma preserves_peek [preserves_intros]: "preserves I SDDL2_Stack_peek"
  by (auto simp: preserves_def SDDL2_Stack_peek_def split: list.splits)

lemma preserves_typed_stack [preserves_intros]:
  "preserves I pop_i64" "preserves I pop_positive_i64" "preserves I pop_tag"
  "preserves I pop_type" "preserves I (push_i64 x)"
  unfolding pop_i64_def pop_positive_i64_def pop_tag_def pop_type_def push_i64_def
  by (intro preserves_intros)+

lemma preserves_swap [preserves_intros]: "preserves I SDDL2_op_swap"
  unfolding preserves_def
proof (intro allI impI)
  fix s
  assume s: "I s"
  show "I (snd (SDDL2_op_swap s))"
  proof (cases "items (stack s)" rule: remdups_adj.cases)
    case (3 a b vs)
    then show ?thesis
      using stack_items [OF s, of "b # a # vs"] stack_bounded [OF s]
      by (simp add: SDDL2_op_swap_def)
  qed (simp_all add: SDDL2_op_swap_def s)
qed

lemma preserves_alloc [preserves_intros]: "preserves I (vm_alloc n)"
  using allocation by (auto simp: preserves_def vm_alloc_def split: prod.splits)

lemma preserves_trace [preserves_intros]: "preserves I (vm_trace e)" "preserves I vm_trace_reset"
  using allocation trace_buffer
  by (auto simp: preserves_def vm_trace_def vm_trace_reset_def vm_modify_def split: prod.splits)

lemma preserves_check_load [preserves_intros]: "preserves I (check_load_bounds a n)"
  by (auto simp: preserves_def check_load_bounds_def)

lemma preserves_pop_members [preserves_intros]: "preserves I (pop_members n b ms)"
  by (induction n arbitrary: ms) (simp_all, (intro preserves_intros | assumption)+)

lemma preserves_segment [preserves_intros]: "preserves I (segment_create_internal tag type n)"
  using segment by (simp add: preserves_def)

lemma preserves_store [preserves_intros]:
  "preserves I (vm_modify (\<lambda>s. s\<lparr>regs := (regs s)[i := v]\<rparr>))"
  using register by (simp add: preserves_def vm_modify_def)

lemma preserves_load_op [preserves_intros]: "preserves I (load_op n f)"
  unfolding load_op_def by (intro preserves_intros)

lemma preserves_traced [preserves_intros]:
  "preserves I (traced_binary nm sy f pc)" "preserves I (traced_unary nm sy g pc)"
  unfolding traced_binary_def traced_unary_def SDDL2_log_binary_op_def SDDL2_log_unary_op_def
  by (intro preserves_intros)+

lemma preserves_arith [preserves_intros]:
  "preserves I SDDL2_op_add" "preserves I SDDL2_op_sub" "preserves I SDDL2_op_mul"
  "preserves I SDDL2_op_div" "preserves I SDDL2_op_mod" "preserves I SDDL2_op_abs"
  "preserves I SDDL2_op_neg"
  unfolding SDDL2_op_add_def SDDL2_op_sub_def SDDL2_op_mul_def SDDL2_op_div_def
    SDDL2_op_mod_def SDDL2_op_abs_def SDDL2_op_neg_def
  by (intro preserves_intros)+

lemma preserves_cmp [preserves_intros]:
  "preserves I (SDDL2_op_eq pc)" "preserves I (SDDL2_op_ne pc)" "preserves I (SDDL2_op_lt pc)"
  "preserves I (SDDL2_op_le pc)" "preserves I (SDDL2_op_gt pc)" "preserves I (SDDL2_op_ge pc)"
  "preserves I (SDDL2_op_bit_and pc)" "preserves I (SDDL2_op_bit_or pc)"
  "preserves I (SDDL2_op_bit_xor pc)" "preserves I (SDDL2_op_bit_not pc)"
  "preserves I (SDDL2_op_and pc)" "preserves I (SDDL2_op_or pc)" "preserves I (SDDL2_op_xor pc)"
  "preserves I (SDDL2_op_not pc)"
  unfolding SDDL2_op_eq_def SDDL2_op_ne_def SDDL2_op_lt_def SDDL2_op_le_def SDDL2_op_gt_def
    SDDL2_op_ge_def SDDL2_op_bit_and_def SDDL2_op_bit_or_def SDDL2_op_bit_xor_def
    SDDL2_op_bit_not_def SDDL2_op_and_def SDDL2_op_or_def SDDL2_op_xor_def SDDL2_op_not_def
  by (intro preserves_intros)+

lemma preserves_stack_vars [preserves_intros]:
  "preserves I SDDL2_op_drop" "preserves I SDDL2_op_stack_drop_if" "preserves I SDDL2_op_jump_if"
  "preserves I SDDL2_op_dup" "preserves I SDDL2_op_var_store" "preserves I SDDL2_op_var_load"
  "preserves I SDDL2_op_expect_true" "preserves I SDDL2_op_current_pos"
  "preserves I SDDL2_op_remaining" "preserves I SDDL2_op_push_stack_depth"
  unfolding SDDL2_op_drop_def SDDL2_op_stack_drop_if_def SDDL2_op_jump_if_def SDDL2_op_dup_def
    SDDL2_op_var_store_def SDDL2_op_var_load_def SDDL2_op_expect_true_def
    SDDL2_op_current_pos_def SDDL2_op_remaining_def SDDL2_op_push_stack_depth_def
  by (intro preserves_intros)+

lemma preserves_loads [preserves_intros]:
  "preserves I SDDL2_op_load_u8" "preserves I SDDL2_op_load_i8"
  "preserves I SDDL2_op_load_u16le" "preserves I SDDL2_op_load_i16le"
  "preserves I SDDL2_op_load_u16be" "preserves I SDDL2_op_load_i16be"
  "preserves I SDDL2_op_load_u32le" "preserves I SDDL2_op_load_i32le"
  "preserves I SDDL2_op_load_u32be" "preserves I SDDL2_op_load_i32be"
  "preserves I SDDL2_op_load_i64le" "preserves I SDDL2_op_load_i64be"
  unfolding SDDL2_op_load_u8_def SDDL2_op_load_i8_def SDDL2_op_load_u16le_def
    SDDL2_op_load_i16le_def SDDL2_op_load_u16be_def SDDL2_op_load_i16be_def
    SDDL2_op_load_u32le_def SDDL2_op_load_i32le_def SDDL2_op_load_u32be_def
    SDDL2_op_load_i32be_def SDDL2_op_load_i64le_def SDDL2_op_load_i64be_def
  by (intro preserves_intros)+

lemma preserves_types_segments [preserves_intros]:
  "preserves I SDDL2_op_type_fixed_array" "preserves I SDDL2_op_type_structure"
  "preserves I SDDL2_op_type_sizeof" "preserves I SDDL2_op_segment_create_unspecified"
  "preserves I SDDL2_op_segment_create_tagged"
  unfolding SDDL2_op_type_fixed_array_def SDDL2_op_type_structure_def build_structure_def SDDL2_op_type_sizeof_def
    SDDL2_op_segment_create_unspecified_def SDDL2_op_segment_create_tagged_def
  by (intro preserves_intros)+

end

section \<open>The machine's invariant\<close>

text \<open>
  Segments tile the input: each starts where the previous one ends, the first at \<open>p\<close>, and the
  last ends at \<open>q\<close>. Positions are \<^verbatim>\<open>size_t\<close> values and their sums wrap.
\<close>

fun tiles :: "size_t \<Rightarrow> SDDL2_Segment list \<Rightarrow> size_t \<Rightarrow> bool" where
  "tiles p [] q \<longleftrightarrow> p = q"
| "tiles p (g # gs) q \<longleftrightarrow> start_pos g = p \<and> tiles (p + size_bytes g) gs q"

definition registered :: "(u32 \<times> SDDL2_Type) list \<Rightarrow> SDDL2_Segment \<Rightarrow> bool" where
  "registered es g \<longleftrightarrow> seg_tag g \<noteq> 0 \<longrightarrow>
     (case map_of es (seg_tag g) of None \<Rightarrow> False | Some t \<Rightarrow> types_equal t (seg_type g))"

definition stack_wf :: "vm \<Rightarrow> bool" where
  "stack_wf s \<longleftrightarrow> capacity (stack s) = 256 \<and> length (items (stack s)) \<le> 256
     \<and> length (regs s) = SDDL2_VAR_REGISTER_COUNT"

definition cursor_wf :: "byte list \<Rightarrow> vm \<Rightarrow> bool" where
  "cursor_wf d s \<longleftrightarrow> buf_data (buffer s) = d \<and> buf_size (buffer s) = word_of_nat (length d)
     \<and> current_pos (buffer s) \<le> word_of_nat (length d)"

definition registry_wf :: "vm \<Rightarrow> bool" where
  "registry_wf s \<longleftrightarrow> distinct (map fst (tag_entries (registry s)))
     \<and> 0 \<notin> fst ` set (tag_entries (registry s))
     \<and> length (tag_entries (registry s)) \<le> tag_capacity (registry s)
     \<and> tag_capacity (registry s) \<le> SDDL2_TAG_MAX_CAPACITY"

definition segments_wf :: "vm \<Rightarrow> bool" where
  "segments_wf s \<longleftrightarrow> tiles 0 (seg_items (segments s)) (current_pos (buffer s))
     \<and> successively (\<noteq>) (map seg_tag (seg_items (segments s)))
     \<and> list_all (registered (tag_entries (registry s))) (seg_items (segments s))
     \<and> length (seg_items (segments s)) \<le> seg_capacity (segments s)
     \<and> seg_capacity (segments s) \<le> SDDL2_SEGMENT_MAX_CAPACITY"

definition vm_wf :: "byte list \<Rightarrow> vm \<Rightarrow> bool" where
  "vm_wf d s \<longleftrightarrow> stack_wf s \<and> cursor_wf d s \<and> registry_wf s \<and> segments_wf s"

lemmas vm_wf_defs = vm_wf_def stack_wf_def cursor_wf_def registry_wf_def segments_wf_def

lemma tiles_snoc:
  "tiles p (gs @ [g]) q \<longleftrightarrow> tiles p gs (start_pos g) \<and> start_pos g + size_bytes g = q"
  by (induction gs arbitrary: p) auto

lemma tiles_extend:
  assumes "gs \<noteq> []" "tiles p gs q"
  shows "tiles p (butlast gs @ [(last gs)\<lparr>size_bytes := size_bytes (last gs) + n\<rparr>]) (q + n)"
proof -
  have "gs = butlast gs @ [last gs]" using assms(1) by simp
  with assms(2) have "tiles p (butlast gs @ [last gs]) q" by simp
  then show ?thesis by (simp add: tiles_snoc)
qed

lemma tiles_end: "gs \<noteq> [] \<Longrightarrow> tiles p gs q \<Longrightarrow> start_pos (last gs) + size_bytes (last gs) = q"
  using tiles_snoc [of p "butlast gs" "last gs" q] by simp

lemma ensure_capacity_cases:
  assumes "ensure_capacity count cap es mx al = (ok, cap', al')" "count \<le> cap" "cap \<le> mx"
    "0 < mx"
  shows "cap' \<le> mx" "count \<le> cap'" "ok \<Longrightarrow> count < cap'"
  using assms by (auto simp: ensure_capacity_def Let_def split: if_splits prod.splits)

lemma types_equal_refl [simp]: "types_equal t t"
  by (simp add: types_equal_def)

text \<open>Registration either leaves the entries alone or appends a fresh one.\<close>

lemma tag_registry_register_cases:
  assumes "tag_registry_register tag type s = (r, s')" "registry_wf s" "tag \<noteq> 0"
  shows "registry_wf s'"
    and "stack s' = stack s" "regs s' = regs s" "buffer s' = buffer s" "segments s' = segments s"
    and "\<exists>es. tag_entries (registry s') = tag_entries (registry s) @ es
            \<and> fst ` set es \<inter> fst ` set (tag_entries (registry s)) = {}"
    and "r = Ok True \<Longrightarrow>
           \<exists>t. map_of (tag_entries (registry s')) tag = Some t \<and> types_equal t type"
proof -
  let ?es = "tag_entries (registry s)"
  obtain ok cap al where e: "ensure_capacity (length ?es) (tag_capacity (registry s))
      sizeof_SDDL2_Tag_entry SDDL2_TAG_MAX_CAPACITY (allocator s) = (ok, cap, al)"
    by (cases "ensure_capacity (length ?es) (tag_capacity (registry s))
      sizeof_SDDL2_Tag_entry SDDL2_TAG_MAX_CAPACITY (allocator s)") auto
  note c = ensure_capacity_cases [OF e]
  have "registry_wf s' \<and> stack s' = stack s \<and> regs s' = regs s \<and> buffer s' = buffer s
      \<and> segments s' = segments s
      \<and> (\<exists>es. tag_entries (registry s') = ?es @ es \<and> fst ` set es \<inter> fst ` set ?es = {})
      \<and> (r = Ok True \<longrightarrow>
           (\<exists>t. map_of (tag_entries (registry s')) tag = Some t \<and> types_equal t type))"
  proof (cases "map_of ?es tag")
    case (Some t)
    then show ?thesis using assms by (auto simp: tag_registry_register_def)
  next
    case None
    then have fresh: "tag \<notin> fst ` set ?es" by (simp add: map_of_eq_None_iff)
    show ?thesis
    proof (cases ok)
      case True
      then show ?thesis
        using assms None e c fresh
        by (auto simp: tag_registry_register_def registry_wf_def map_add_def)
    next
      case False
      then show ?thesis
        using assms None e c
        by (auto simp: tag_registry_register_def registry_wf_def)
    qed
  qed
  then show "registry_wf s'"
    and "stack s' = stack s" "regs s' = regs s" "buffer s' = buffer s" "segments s' = segments s"
    and "\<exists>es. tag_entries (registry s') = ?es @ es \<and> fst ` set es \<inter> fst ` set ?es = {}"
    and "r = Ok True \<Longrightarrow>
           \<exists>t. map_of (tag_entries (registry s')) tag = Some t \<and> types_equal t type"
    by blast+
qed

lemma registered_append:
  assumes "registered es g"
  shows "registered (es @ fs) g"
  using assms by (auto simp: registered_def map_add_def split: option.splits)

lemma registered_size_bytes [simp]: "registered es (g\<lparr>size_bytes := x\<rparr>) = registered es g"
  by (simp add: registered_def split: option.splits)

text \<open>The tail of segment creation, after the checks and the registration.\<close>

definition emit_segment :: "u32 \<Rightarrow> SDDL2_Type \<Rightarrow> size_t \<Rightarrow> unit vm_op" where
  "emit_segment tag type n =
     vm_bind (vm_get (can_merge tag)) (\<lambda>merge.
     if merge then vm_modify (\<lambda>s. advance_cursor n (merge_last n s)) else
     vm_bind segment_list_ensure_capacity (\<lambda>room.
     if \<not> room then vm_fail SDDL2_LIMIT_EXCEEDED else
     vm_modify (\<lambda>s. advance_cursor n (append_segment
       \<lparr>seg_tag = tag, start_pos = current_pos (buffer s), size_bytes = n, seg_type = type\<rparr> s))))"

lemma vm_wf_merge:
  assumes wf: "vm_wf d s" and m: "can_merge tag s"
    and b: "current_pos (buffer s) + n \<le> buf_size (buffer s)"
  shows "vm_wf d (advance_cursor n (merge_last n s))"
proof -
  let ?gs = "seg_items (segments s)"
  from m have ne: "?gs \<noteq> []" by (simp add: can_merge_def)
  then have gs: "?gs = butlast ?gs @ [last ?gs]" by simp
  have t: "map seg_tag (butlast ?gs @ [(last ?gs)\<lparr>size_bytes := x\<rparr>]) = map seg_tag ?gs" for x
    using arg_cong [OF gs, of "map seg_tag"] by simp
  have "list_all (registered es) ?gs \<Longrightarrow>
      list_all (registered es) (butlast ?gs @ [(last ?gs)\<lparr>size_bytes := x\<rparr>])" for es x
    using arg_cong [OF gs, of "list_all (registered es)"] by simp
  moreover have "length ?gs = Suc (length ?gs - 1)" using ne by simp
  ultimately show ?thesis
    using wf b tiles_extend [OF ne, of 0 "current_pos (buffer s)" n] t
    by (simp add: vm_wf_defs advance_cursor_def merge_last_def Let_def)
qed

lemma vm_wf_emit:
  assumes wf: "vm_wf d s"
    and r: "tag \<noteq> 0 \<longrightarrow>
      (\<exists>t. map_of (tag_entries (registry s)) tag = Some t \<and> types_equal t type)"
    and b: "current_pos (buffer s) + n \<le> buf_size (buffer s)"
  shows "vm_wf d (snd (emit_segment tag type n s))"
proof (cases "can_merge tag s")
  case True
  then show ?thesis
    using vm_wf_merge [OF wf True b] by (simp add: emit_segment_def vm_simps)
next
  case False
  let ?gs = "seg_items (segments s)"
  obtain ok cap al where e: "ensure_capacity (length ?gs) (seg_capacity (segments s))
      sizeof_SDDL2_Segment SDDL2_SEGMENT_MAX_CAPACITY (allocator s) = (ok, cap, al)"
    by (cases "ensure_capacity (length ?gs) (seg_capacity (segments s))
      sizeof_SDDL2_Segment SDDL2_SEGMENT_MAX_CAPACITY (allocator s)") auto
  have "length ?gs \<le> seg_capacity (segments s)"
    "seg_capacity (segments s) \<le> SDDL2_SEGMENT_MAX_CAPACITY"
    using wf by (simp_all add: vm_wf_defs)
  note c = ensure_capacity_cases [OF e this]
  have tl: "?gs \<noteq> [] \<Longrightarrow> seg_tag (last ?gs) \<noteq> tag"
    using False tiles_end [of ?gs 0 "current_pos (buffer s)"] wf
    by (auto simp: can_merge_def vm_wf_defs Let_def)
  let ?g = "\<lparr>seg_tag = tag, start_pos = current_pos (buffer s), size_bytes = n, seg_type = type\<rparr>"
  have "successively (\<noteq>) (map seg_tag (?gs @ [?g]))"
    using wf tl by (auto simp: vm_wf_defs successively_append_iff last_map)
  moreover have "registered (tag_entries (registry s)) ?g"
    using r by (auto simp: registered_def)
  ultimately show ?thesis
    using wf False e c b
    by (auto simp: emit_segment_def vm_simps segment_list_ensure_capacity_def advance_cursor_def
        append_segment_def vm_wf_defs tiles_snoc)
qed

lemma vm_wf_frames:
  assumes "vm_wf d s"
  shows "length vs \<le> 256 \<Longrightarrow> vm_wf d (s\<lparr>stack := (stack s)\<lparr>items := vs\<rparr>\<rparr>)"
    and "vm_wf d (s\<lparr>regs := (regs s)[i := v]\<rparr>)"
    and "vm_wf d (s\<lparr>trace := t\<rparr>)" and "vm_wf d (s\<lparr>allocator := al\<rparr>)"
  using assms by (simp_all add: vm_wf_defs)

lemma segment_create_internal_emit:
  "segment_create_internal tag type element_count =
     vm_bind (vm_lift (SDDL2_Type_size type)) (\<lambda>total_type_size.
     let (ovf, n) = ZL_overflowMulST element_count total_type_size in
     if ovf then vm_fail SDDL2_MATH_OVERFLOW else
     vm_bind (vm_get (\<lambda>s. buf_size (buffer s) < current_pos (buffer s) + n)) (\<lambda>out.
     if out then vm_fail SDDL2_SEGMENT_BOUNDS else
     vm_bind (if tag \<noteq> 0 then tag_registry_register tag type else vm_return True) (\<lambda>registered.
     if \<not> registered then vm_fail SDDL2_TYPE_MISMATCH else emit_segment tag type n)))"
  by (simp add: segment_create_internal_def emit_segment_def cong: if_cong)

lemma vm_wf_register:
  assumes "vm_wf d s" "tag_registry_register tag type s = (r, s')" "tag \<noteq> 0"
  shows "vm_wf d s'"
proof -
  have rw: "registry_wf s" using assms(1) by (simp add: vm_wf_def)
  note c = tag_registry_register_cases [OF assms(2) rw assms(3)]
  obtain es where "tag_entries (registry s') = tag_entries (registry s) @ es" using c(6) by blast
  with c(1-5) assms(1) registered_append show ?thesis
    by (auto simp: vm_wf_def stack_wf_def cursor_wf_def segments_wf_def list_all_iff)
qed

lemma vm_wf_segment_create:
  assumes wf: "vm_wf d s"
  shows "vm_wf d (snd (segment_create_internal tag type cnt s))"
proof -
  have "vm_wf d (snd (vm_bind (if tag \<noteq> 0 then tag_registry_register tag type else vm_return True)
     (\<lambda>registered. if \<not> registered then vm_fail SDDL2_TYPE_MISMATCH else emit_segment tag type m) s))"
    if b: "\<not> buf_size (buffer s) < current_pos (buffer s) + m" for m
  proof (cases "tag = 0")
    case True
    then show ?thesis using vm_wf_emit [OF wf, of 0 type m] b by (simp add: vm_simps)
  next
    case False
    obtain r s' where e: "tag_registry_register tag type s = (r, s')" by force
    have rw: "registry_wf s" using wf by (simp add: vm_wf_def)
    note c = tag_registry_register_cases [OF e rw False]
    have wf': "vm_wf d s'" by (rule vm_wf_register [OF wf e False])
    show ?thesis
    proof (cases "r = Ok True")
      case True
      then show ?thesis
        using vm_wf_emit [OF wf', of tag type m] c(4,7) b False e by (simp add: vm_simps)
    next
      case ne: False
      then show ?thesis using wf' False e by (auto simp: vm_simps split: vmres.splits)
    qed
  qed
  then show ?thesis
    using wf unfolding segment_create_internal_emit ZL_overflowMulST_def builtin_mul_overflow_def
    by (auto simp: vm_bind_def [of "vm_lift x" for x] vm_bind_def [of "vm_get f" for f]
        vm_lift_def vm_get_def vm_fail_def split: vmres.splits)
qed

interpretation vmwf: vm_invariant "vm_wf d" for d
proof
  fix s vs i v t al tag type n
  assume wf: "vm_wf d s"
  show "length (items (stack s)) \<le> capacity (stack s)"
    using wf by (simp add: vm_wf_defs)
  show "vm_wf d (s\<lparr>stack := (stack s)\<lparr>items := vs\<rparr>\<rparr>)" if "length vs \<le> capacity (stack s)"
    using vm_wf_frames(1) [OF wf] that wf by (simp add: vm_wf_defs)
  show "vm_wf d (s\<lparr>regs := (regs s)[i := v]\<rparr>)" "vm_wf d (s\<lparr>trace := t\<rparr>)"
    "vm_wf d (s\<lparr>allocator := al\<rparr>)"
    using vm_wf_frames [OF wf] by blast+
  show "vm_wf d (snd (segment_create_internal tag type n s))"
    by (rule vm_wf_segment_create [OF wf])
qed

section \<open>Segment creation\<close>

text \<open>What a segment creation adds to the list.\<close>

definition add_segment ::
  "u32 \<Rightarrow> SDDL2_Type \<Rightarrow> size_t \<Rightarrow> size_t \<Rightarrow> SDDL2_Segment list \<Rightarrow> SDDL2_Segment list" where
  "add_segment tag type pos n gs =
     (if gs \<noteq> [] \<and> seg_tag (last gs) = tag
      then butlast gs @ [(last gs)\<lparr>size_bytes := size_bytes (last gs) + n\<rparr>]
      else gs @ [\<lparr>seg_tag = tag, start_pos = pos, size_bytes = n, seg_type = type\<rparr>])"

lemma emit_segment_exact:
  assumes wf: "vm_wf d s" and e: "emit_segment tag type n s = (r, s')"
  shows "r = Ok () \<and> seg_items (segments s') =
           add_segment tag type (current_pos (buffer s)) n (seg_items (segments s))
         \<and> current_pos (buffer s') = current_pos (buffer s) + n
       \<or> r = Fail SDDL2_LIMIT_EXCEEDED \<and> seg_items (segments s') = seg_items (segments s)
         \<and> current_pos (buffer s') = current_pos (buffer s)"
proof -
  let ?gs = "seg_items (segments s)"
  have m: "can_merge tag s \<longleftrightarrow> ?gs \<noteq> [] \<and> seg_tag (last ?gs) = tag"
    using wf tiles_end [of ?gs 0 "current_pos (buffer s)"]
    by (auto simp: can_merge_def vm_wf_defs Let_def)
  show ?thesis
    using e m
    by (auto simp: emit_segment_def vm_simps add_segment_def advance_cursor_def merge_last_def
        append_segment_def segment_list_ensure_capacity_def Let_def split: if_splits prod.splits)
qed

text \<open>
  C17: creating a segment, in a state of the invariant and for a size that does not wrap. A size
  beyond the input is refused and changes nothing. Otherwise the segment is appended, or
  merged into the last one of the same tag, and the cursor advances by exactly its size; a
  type conflict or a full list leaves the segments and the cursor as they were.
\<close>

theorem segment_create_exact:
  assumes wf: "vm_wf d s" and ts: "SDDL2_Type_size type = Ok sz"
    and len: "length d + unat cnt * unat sz < 2 ^ 64"
    and c: "segment_create_internal tag type cnt s = (r, s')"
  shows "if length d < unat (current_pos (buffer s)) + unat cnt * unat sz
     then r = Fail SDDL2_SEGMENT_BOUNDS \<and> s' = s
     else r = Ok () \<and> seg_items (segments s') =
            add_segment tag type (current_pos (buffer s)) (cnt * sz) (seg_items (segments s))
          \<and> unat (current_pos (buffer s')) = unat (current_pos (buffer s)) + unat cnt * unat sz
        \<or> (r = Fail SDDL2_TYPE_MISMATCH \<or> r = Fail SDDL2_LIMIT_EXCEEDED)
          \<and> seg_items (segments s') = seg_items (segments s)
          \<and> current_pos (buffer s') = current_pos (buffer s)"
proof -
  let ?n = "cnt * sz"
  have un: "unat ?n = unat cnt * unat sz" using len by (simp add: unat_word_ariths)
  have size: "unat (buf_size (buffer s)) = length d" "unat (current_pos (buffer s)) \<le> length d"
    using wf len by (auto simp: vm_wf_def cursor_wf_def unat_of_nat word_le_nat_alt)
  then have up: "unat (current_pos (buffer s) + ?n) = unat (current_pos (buffer s)) + unat cnt * unat sz"
    using len unat_add_no_wrap64 [of "current_pos (buffer s)" ?n] un by simp
  then have bnd: "buf_size (buffer s) < current_pos (buffer s) + ?n
      \<longleftrightarrow> length d < unat (current_pos (buffer s)) + unat cnt * unat sz"
    using size by (simp add: word_less_nat_alt)
  have novf: "ZL_overflowMulST cnt sz = (False, ?n)"
    using len by (simp add: ZL_overflowMulST_def builtin_mul_overflow_def)
  show ?thesis
  proof (cases "length d < unat (current_pos (buffer s)) + unat cnt * unat sz")
    case True
    then show ?thesis
      using c bnd novf ts by (simp add: segment_create_internal_emit vm_simps)
  next
    case False
    let ?reg = "if tag \<noteq> 0 then tag_registry_register tag type else vm_return True"
    obtain q t where q: "?reg s = (q, t)" by force
    have wt: "vm_wf d t" and bt: "buffer t = buffer s" "segments t = segments s"
      using q wf vm_wf_register [of d s tag type q t]
        tag_registry_register_cases(4,5) [of tag type s q t]
      by (auto simp: vm_wf_def vm_return_def split: if_splits)
    have "q = Ok True \<or> q = Ok False"
      using q by (auto simp: vm_return_def tag_registry_register_def split: if_splits option.splits
          prod.splits bool.splits)
    then show ?thesis
    proof
      assume "q = Ok True"
      then have "emit_segment tag type ?n t = (r, s')"
        using c bnd novf ts q False by (simp add: segment_create_internal_emit vm_simps)
      from emit_segment_exact [OF wt this] False up show ?thesis by (auto simp: bt)
    next
      assume "q = Ok False"
      then show ?thesis
        using c bnd novf ts q False bt by (auto simp: segment_create_internal_emit vm_simps)
    qed
  qed
qed

theorem segment_create_exact_witness:
  "fst (segment_create_internal 5 (SDDL2_Type SDDL2_TYPE_U16LE 1 None) 2 (example_vm [] [1, 2, 3, 4, 5]))
     \<in> {Ok (), Fail SDDL2_TYPE_MISMATCH, Fail SDDL2_LIMIT_EXCEEDED}"
proof -
  let ?s = "example_vm [] [1, 2, 3, 4, 5]" and ?t = "SDDL2_Type SDDL2_TYPE_U16LE 1 None"
  have wf: "vm_wf [1, 2, 3, 4, 5] ?s"
    by (simp add: vm_wf_defs example_vm_def SDDL2_vm_init_def SDDL2_Tag_registry_init_def
        sddl2_alloc_def SDDL2_Input_cursor_init_def SDDL2_Var_registers_init_def)
  have ts: "SDDL2_Type_size ?t = Ok 2" by (simp add: SDDL2_Type_size_def SDDL2_kind_size_def)
  obtain r s' where c: "segment_create_internal 5 ?t 2 ?s = (r, s')" by force
  have "current_pos (buffer ?s) = 0" by (simp add: SDDL2_Input_cursor_init_def)
  with segment_create_exact [OF wf ts _ c] c show ?thesis by auto
qed

section \<open>Undefined behaviour\<close>

definition no_undef :: "'a vm_op \<Rightarrow> bool" where
  "no_undef m \<longleftrightarrow> (\<forall>s. fst (m s) \<noteq> Undef)"

named_theorems no_undef_intros \<open>operations that never reach undefined behaviour\<close>

lemma no_undef_seq [no_undef_intros]:
  "no_undef (vm_return x)" "no_undef (vm_fail e)" "no_undef (vm_get f)" "no_undef (vm_modify g)"
  by (simp_all add: no_undef_def vm_simps)

lemma no_undef_lift [no_undef_intros]: "r \<noteq> Undef \<Longrightarrow> no_undef (vm_lift r)"
  by (simp add: no_undef_def vm_simps)

lemma no_undef_bind [no_undef_intros]:
  "no_undef m \<Longrightarrow> (\<And>x. no_undef (f x)) \<Longrightarrow> no_undef (vm_bind m f)"
  by (auto simp: no_undef_def vm_bind_def split: prod.splits vmres.splits)
    (metis fst_conv)+

lemma no_undef_if [no_undef_intros]:
  "no_undef a \<Longrightarrow> no_undef b \<Longrightarrow> no_undef (if c then a else b)"
  by simp

lemma no_undef_let [no_undef_intros]:
  "(\<And>x. no_undef (f x)) \<Longrightarrow> no_undef (Let y f)"
  "(\<And>x y. no_undef (g x y)) \<Longrightarrow> no_undef (case p of (x, y) \<Rightarrow> g x y)"
  by (simp_all add: Let_def split: prod.splits)

lemma no_undef_case [no_undef_intros]:
  "(\<And>x. no_undef (f x)) \<Longrightarrow> (\<And>x. no_undef (g x)) \<Longrightarrow> (\<And>x. no_undef (h x))
     \<Longrightarrow> no_undef (case v of SDDL2_VALUE_I64 x \<Rightarrow> f x | SDDL2_VALUE_TAG x \<Rightarrow> g x
           | SDDL2_VALUE_TYPE x \<Rightarrow> h x)"
  "no_undef a \<Longrightarrow> (\<And>x. no_undef (b x)) \<Longrightarrow> no_undef (case w of None \<Rightarrow> a | Some x \<Rightarrow> b x)"
  by (simp_all split: SDDL2_Value.splits option.splits)

lemma no_undef_prims [no_undef_intros]:
  "no_undef (SDDL2_Stack_push v)" "no_undef SDDL2_Stack_pop" "no_undef SDDL2_Stack_peek"
  "no_undef SDDL2_op_swap" "no_undef (vm_trace e)" "no_undef (check_load_bounds a n)"
  "no_undef (tag_registry_register tag type)" "no_undef segment_list_ensure_capacity"
  by (simp_all add: no_undef_def SDDL2_Stack_push_def SDDL2_Stack_pop_def SDDL2_Stack_peek_def
      SDDL2_op_swap_def vm_trace_def check_load_bounds_def tag_registry_register_def
      segment_list_ensure_capacity_def split: list.splits prod.splits option.splits bool.splits)

lemma SDDL2_kind_size_defined: "SDDL2_kind_size k \<noteq> Undef"
  by (cases k) (simp_all add: SDDL2_kind_size_def)

lemma SDDL2_Type_size_defined [no_undef_intros]: "SDDL2_Type_size t \<noteq> Undef"
  using SDDL2_kind_size_defined [of "type_kind t"]
  by (auto simp: SDDL2_Type_size_def split: option.splits vmres.splits)

lemma no_undef_stack [no_undef_intros]:
  "no_undef pop_i64" "no_undef pop_positive_i64" "no_undef pop_tag" "no_undef pop_type"
  "no_undef (push_i64 x)" "no_undef vm_trace_reset"
  unfolding pop_i64_def pop_positive_i64_def pop_tag_def pop_type_def push_i64_def
    vm_trace_reset_def
  by (intro no_undef_intros)+

lemma no_undef_shapes [no_undef_intros]:
  "no_undef (load_op n f)" "no_undef (traced_binary nm sy g pc)" "no_undef (traced_unary nm sy h pc)"
  "no_undef (segment_create_internal tag type cnt)"
  unfolding load_op_def traced_binary_def traced_unary_def SDDL2_log_binary_op_def
    SDDL2_log_unary_op_def segment_create_internal_def
  by (intro no_undef_intros)+
end
