(* ===== verification/SDDL2_Interpreter.thy ===== *)
theory SDDL2_Interpreter
  imports SDDL2_VM_Exact SDDL2_VM_Invariant
begin

text \<open>
  The bytecode interpreter of SDDL2 (\<^verbatim>\<open>compress/graphs/sddl2/sddl2_interpreter.c\<close>): decoding,
  the dispatch tables, forward jumps, and the execution loop. The program counter is a byte
  offset in the bytecode, a natural number: an object's size leaves room for \<^verbatim>\<open>pc + 8\<close> in a
  \<^verbatim>\<open>size_t\<close>.
\<close>

section \<open>Families and opcodes\<close>

abbreviation (input) SDDL2_FAMILY_PUSH :: u16 where "SDDL2_FAMILY_PUSH \<equiv> 0x0001"
abbreviation (input) SDDL2_FAMILY_MATH :: u16 where "SDDL2_FAMILY_MATH \<equiv> 0x0002"
abbreviation (input) SDDL2_FAMILY_CMP :: u16 where "SDDL2_FAMILY_CMP \<equiv> 0x0003"
abbreviation (input) SDDL2_FAMILY_LOGIC :: u16 where "SDDL2_FAMILY_LOGIC \<equiv> 0x0004"
abbreviation (input) SDDL2_FAMILY_CONTROL :: u16 where "SDDL2_FAMILY_CONTROL \<equiv> 0x0005"
abbreviation (input) SDDL2_FAMILY_LOAD :: u16 where "SDDL2_FAMILY_LOAD \<equiv> 0x0006"
abbreviation (input) SDDL2_FAMILY_STACK :: u16 where "SDDL2_FAMILY_STACK \<equiv> 0x0007"
abbreviation (input) SDDL2_FAMILY_TYPE :: u16 where "SDDL2_FAMILY_TYPE \<equiv> 0x0008"
abbreviation (input) SDDL2_FAMILY_VAR :: u16 where "SDDL2_FAMILY_VAR \<equiv> 0x0009"
abbreviation (input) SDDL2_FAMILY_CALL :: u16 where "SDDL2_FAMILY_CALL \<equiv> 0x000B"
abbreviation (input) SDDL2_FAMILY_SEGMENT :: u16 where "SDDL2_FAMILY_SEGMENT \<equiv> 0x000C"
abbreviation (input) SDDL2_OP_PUSH_ZERO :: u16 where "SDDL2_OP_PUSH_ZERO \<equiv> 0x0001"
abbreviation (input) SDDL2_OP_PUSH_U32 :: u16 where "SDDL2_OP_PUSH_U32 \<equiv> 0x0002"
abbreviation (input) SDDL2_OP_PUSH_I32 :: u16 where "SDDL2_OP_PUSH_I32 \<equiv> 0x0003"
abbreviation (input) SDDL2_OP_PUSH_I64 :: u16 where "SDDL2_OP_PUSH_I64 \<equiv> 0x0004"
abbreviation (input) SDDL2_OP_PUSH_TAG :: u16 where "SDDL2_OP_PUSH_TAG \<equiv> 0x0005"
abbreviation (input) SDDL2_OP_PUSH_CURRENT_POS :: u16 where "SDDL2_OP_PUSH_CURRENT_POS \<equiv> 0x0080"
abbreviation (input) SDDL2_OP_PUSH_REMAINING :: u16 where "SDDL2_OP_PUSH_REMAINING \<equiv> 0x0081"
abbreviation (input) SDDL2_OP_PUSH_STACK_DEPTH :: u16 where "SDDL2_OP_PUSH_STACK_DEPTH \<equiv> 0x0082"
abbreviation (input) SDDL2_OP_PUSH_TYPE_BYTES :: u16 where "SDDL2_OP_PUSH_TYPE_BYTES \<equiv> 0x0100"
abbreviation (input) SDDL2_OP_PUSH_TYPE_U8 :: u16 where "SDDL2_OP_PUSH_TYPE_U8 \<equiv> 0x0110"
abbreviation (input) SDDL2_OP_PUSH_TYPE_I8 :: u16 where "SDDL2_OP_PUSH_TYPE_I8 \<equiv> 0x0111"
abbreviation (input) SDDL2_OP_PUSH_TYPE_U16LE :: u16 where "SDDL2_OP_PUSH_TYPE_U16LE \<equiv> 0x0112"
abbreviation (input) SDDL2_OP_PUSH_TYPE_U16BE :: u16 where "SDDL2_OP_PUSH_TYPE_U16BE \<equiv> 0x0113"
abbreviation (input) SDDL2_OP_PUSH_TYPE_I16LE :: u16 where "SDDL2_OP_PUSH_TYPE_I16LE \<equiv> 0x0114"
abbreviation (input) SDDL2_OP_PUSH_TYPE_I16BE :: u16 where "SDDL2_OP_PUSH_TYPE_I16BE \<equiv> 0x0115"
abbreviation (input) SDDL2_OP_PUSH_TYPE_U32LE :: u16 where "SDDL2_OP_PUSH_TYPE_U32LE \<equiv> 0x0116"
abbreviation (input) SDDL2_OP_PUSH_TYPE_U32BE :: u16 where "SDDL2_OP_PUSH_TYPE_U32BE \<equiv> 0x0117"
abbreviation (input) SDDL2_OP_PUSH_TYPE_I32LE :: u16 where "SDDL2_OP_PUSH_TYPE_I32LE \<equiv> 0x0118"
abbreviation (input) SDDL2_OP_PUSH_TYPE_I32BE :: u16 where "SDDL2_OP_PUSH_TYPE_I32BE \<equiv> 0x0119"
abbreviation (input) SDDL2_OP_PUSH_TYPE_U64LE :: u16 where "SDDL2_OP_PUSH_TYPE_U64LE \<equiv> 0x011A"
abbreviation (input) SDDL2_OP_PUSH_TYPE_U64BE :: u16 where "SDDL2_OP_PUSH_TYPE_U64BE \<equiv> 0x011B"
abbreviation (input) SDDL2_OP_PUSH_TYPE_I64LE :: u16 where "SDDL2_OP_PUSH_TYPE_I64LE \<equiv> 0x011C"
abbreviation (input) SDDL2_OP_PUSH_TYPE_I64BE :: u16 where "SDDL2_OP_PUSH_TYPE_I64BE \<equiv> 0x011D"
abbreviation (input) SDDL2_OP_PUSH_TYPE_F8 :: u16 where "SDDL2_OP_PUSH_TYPE_F8 \<equiv> 0x0130"
abbreviation (input) SDDL2_OP_PUSH_TYPE_F16LE :: u16 where "SDDL2_OP_PUSH_TYPE_F16LE \<equiv> 0x0131"
abbreviation (input) SDDL2_OP_PUSH_TYPE_F16BE :: u16 where "SDDL2_OP_PUSH_TYPE_F16BE \<equiv> 0x0132"
abbreviation (input) SDDL2_OP_PUSH_TYPE_BF16LE :: u16 where "SDDL2_OP_PUSH_TYPE_BF16LE \<equiv> 0x0133"
abbreviation (input) SDDL2_OP_PUSH_TYPE_BF16BE :: u16 where "SDDL2_OP_PUSH_TYPE_BF16BE \<equiv> 0x0134"
abbreviation (input) SDDL2_OP_PUSH_TYPE_F32LE :: u16 where "SDDL2_OP_PUSH_TYPE_F32LE \<equiv> 0x0135"
abbreviation (input) SDDL2_OP_PUSH_TYPE_F32BE :: u16 where "SDDL2_OP_PUSH_TYPE_F32BE \<equiv> 0x0136"
abbreviation (input) SDDL2_OP_PUSH_TYPE_F64LE :: u16 where "SDDL2_OP_PUSH_TYPE_F64LE \<equiv> 0x0137"
abbreviation (input) SDDL2_OP_PUSH_TYPE_F64BE :: u16 where "SDDL2_OP_PUSH_TYPE_F64BE \<equiv> 0x0138"
abbreviation (input) SDDL2_OP_MATH_ADD :: u16 where "SDDL2_OP_MATH_ADD \<equiv> 0x0001"
abbreviation (input) SDDL2_OP_MATH_SUB :: u16 where "SDDL2_OP_MATH_SUB \<equiv> 0x0002"
abbreviation (input) SDDL2_OP_MATH_MUL :: u16 where "SDDL2_OP_MATH_MUL \<equiv> 0x0003"
abbreviation (input) SDDL2_OP_MATH_DIV :: u16 where "SDDL2_OP_MATH_DIV \<equiv> 0x0004"
abbreviation (input) SDDL2_OP_MATH_MOD :: u16 where "SDDL2_OP_MATH_MOD \<equiv> 0x0005"
abbreviation (input) SDDL2_OP_MATH_ABS :: u16 where "SDDL2_OP_MATH_ABS \<equiv> 0x0006"
abbreviation (input) SDDL2_OP_MATH_NEG :: u16 where "SDDL2_OP_MATH_NEG \<equiv> 0x0007"
abbreviation (input) SDDL2_OP_MATH_BIT_AND :: u16 where "SDDL2_OP_MATH_BIT_AND \<equiv> 0x0008"
abbreviation (input) SDDL2_OP_MATH_BIT_OR :: u16 where "SDDL2_OP_MATH_BIT_OR \<equiv> 0x0009"
abbreviation (input) SDDL2_OP_MATH_BIT_XOR :: u16 where "SDDL2_OP_MATH_BIT_XOR \<equiv> 0x000A"
abbreviation (input) SDDL2_OP_MATH_BIT_NOT :: u16 where "SDDL2_OP_MATH_BIT_NOT \<equiv> 0x000B"
abbreviation (input) SDDL2_OP_CMP_EQ :: u16 where "SDDL2_OP_CMP_EQ \<equiv> 0x0001"
abbreviation (input) SDDL2_OP_CMP_NE :: u16 where "SDDL2_OP_CMP_NE \<equiv> 0x0002"
abbreviation (input) SDDL2_OP_CMP_LT :: u16 where "SDDL2_OP_CMP_LT \<equiv> 0x0003"
abbreviation (input) SDDL2_OP_CMP_LE :: u16 where "SDDL2_OP_CMP_LE \<equiv> 0x0004"
abbreviation (input) SDDL2_OP_CMP_GT :: u16 where "SDDL2_OP_CMP_GT \<equiv> 0x0005"
abbreviation (input) SDDL2_OP_CMP_GE :: u16 where "SDDL2_OP_CMP_GE \<equiv> 0x0006"
abbreviation (input) SDDL2_OP_LOGIC_AND :: u16 where "SDDL2_OP_LOGIC_AND \<equiv> 0x0001"
abbreviation (input) SDDL2_OP_LOGIC_OR :: u16 where "SDDL2_OP_LOGIC_OR \<equiv> 0x0002"
abbreviation (input) SDDL2_OP_LOGIC_XOR :: u16 where "SDDL2_OP_LOGIC_XOR \<equiv> 0x0003"
abbreviation (input) SDDL2_OP_LOGIC_NOT :: u16 where "SDDL2_OP_LOGIC_NOT \<equiv> 0x0004"
abbreviation (input) SDDL2_OP_CONTROL_HALT :: u16 where "SDDL2_OP_CONTROL_HALT \<equiv> 0x0001"
abbreviation (input) SDDL2_OP_CONTROL_EXPECT_TRUE :: u16 where "SDDL2_OP_CONTROL_EXPECT_TRUE \<equiv> 0x0002"
abbreviation (input) SDDL2_OP_CONTROL_JUMP_IF :: u16 where "SDDL2_OP_CONTROL_JUMP_IF \<equiv> 0x0003"
abbreviation (input) SDDL2_OP_CONTROL_TRACE_START :: u16 where "SDDL2_OP_CONTROL_TRACE_START \<equiv> 0x0004"
abbreviation (input) SDDL2_OP_LOAD_U8 :: u16 where "SDDL2_OP_LOAD_U8 \<equiv> 0x0001"
abbreviation (input) SDDL2_OP_LOAD_I8 :: u16 where "SDDL2_OP_LOAD_I8 \<equiv> 0x0002"
abbreviation (input) SDDL2_OP_LOAD_U16LE :: u16 where "SDDL2_OP_LOAD_U16LE \<equiv> 0x0010"
abbreviation (input) SDDL2_OP_LOAD_I16LE :: u16 where "SDDL2_OP_LOAD_I16LE \<equiv> 0x0011"
abbreviation (input) SDDL2_OP_LOAD_U32LE :: u16 where "SDDL2_OP_LOAD_U32LE \<equiv> 0x0020"
abbreviation (input) SDDL2_OP_LOAD_I32LE :: u16 where "SDDL2_OP_LOAD_I32LE \<equiv> 0x0021"
abbreviation (input) SDDL2_OP_LOAD_I64LE :: u16 where "SDDL2_OP_LOAD_I64LE \<equiv> 0x0030"
abbreviation (input) SDDL2_OP_LOAD_U16BE :: u16 where "SDDL2_OP_LOAD_U16BE \<equiv> 0x0110"
abbreviation (input) SDDL2_OP_LOAD_I16BE :: u16 where "SDDL2_OP_LOAD_I16BE \<equiv> 0x0111"
abbreviation (input) SDDL2_OP_LOAD_U32BE :: u16 where "SDDL2_OP_LOAD_U32BE \<equiv> 0x0120"
abbreviation (input) SDDL2_OP_LOAD_I32BE :: u16 where "SDDL2_OP_LOAD_I32BE \<equiv> 0x0121"
abbreviation (input) SDDL2_OP_LOAD_I64BE :: u16 where "SDDL2_OP_LOAD_I64BE \<equiv> 0x0130"
abbreviation (input) SDDL2_OP_STACK_DUP :: u16 where "SDDL2_OP_STACK_DUP \<equiv> 0x0001"
abbreviation (input) SDDL2_OP_STACK_OVER :: u16 where "SDDL2_OP_STACK_OVER \<equiv> 0x0002"
abbreviation (input) SDDL2_OP_STACK_DROP :: u16 where "SDDL2_OP_STACK_DROP \<equiv> 0x0003"
abbreviation (input) SDDL2_OP_STACK_SWAP :: u16 where "SDDL2_OP_STACK_SWAP \<equiv> 0x0004"
abbreviation (input) SDDL2_OP_STACK_ROT :: u16 where "SDDL2_OP_STACK_ROT \<equiv> 0x0005"
abbreviation (input) SDDL2_OP_STACK_DROP_IF :: u16 where "SDDL2_OP_STACK_DROP_IF \<equiv> 0x0010"
abbreviation (input) SDDL2_OP_TYPE_FIXED_ARRAY :: u16 where "SDDL2_OP_TYPE_FIXED_ARRAY \<equiv> 0x0001"
abbreviation (input) SDDL2_OP_TYPE_STRUCTURE :: u16 where "SDDL2_OP_TYPE_STRUCTURE \<equiv> 0x0002"
abbreviation (input) SDDL2_OP_TYPE_SIZEOF :: u16 where "SDDL2_OP_TYPE_SIZEOF \<equiv> 0x0010"
abbreviation (input) SDDL2_OP_VAR_STORE :: u16 where "SDDL2_OP_VAR_STORE \<equiv> 0x0001"
abbreviation (input) SDDL2_OP_VAR_LOAD :: u16 where "SDDL2_OP_VAR_LOAD \<equiv> 0x0002"
abbreviation (input) SDDL2_OP_SEGMENT_CREATE_UNSPECIFIED :: u16 where "SDDL2_OP_SEGMENT_CREATE_UNSPECIFIED \<equiv> 0x0001"
abbreviation (input) SDDL2_OP_SEGMENT_CREATE_TAGGED :: u16 where "SDDL2_OP_SEGMENT_CREATE_TAGGED \<equiv> 0x0002"


section \<open>Immediates and the PUSH family\<close>

definition read_u32_immediate :: "byte list \<Rightarrow> nat \<Rightarrow> (u32 \<times> nat) vmres" where
  "read_u32_immediate bytecode pc =
     (if length bytecode < pc + 4 then Fail SDDL2_INVALID_BYTECODE
      else Ok (ZL_read32 (drop pc bytecode), pc + 4))"

definition read_i32_immediate :: "byte list \<Rightarrow> nat \<Rightarrow> (u32 \<times> nat) vmres" where
  "read_i32_immediate bytecode pc =
     (if length bytecode < pc + 4 then Fail SDDL2_INVALID_BYTECODE
      else Ok (ZL_read32 (drop pc bytecode), pc + 4))"

definition read_i64_immediate :: "byte list \<Rightarrow> nat \<Rightarrow> (i64 \<times> nat) vmres" where
  "read_i64_immediate bytecode pc =
     (if length bytecode < pc + 8 then Fail SDDL2_INVALID_BYTECODE
      else Ok (ZL_read64 (drop pc bytecode), pc + 8))"

definition push_type_kind :: "u16 \<Rightarrow> SDDL2_Type_kind option" where
  "push_type_kind opcode =
     (if opcode = SDDL2_OP_PUSH_TYPE_BYTES then Some SDDL2_TYPE_BYTES
      else if opcode = SDDL2_OP_PUSH_TYPE_U8 then Some SDDL2_TYPE_U8
      else if opcode = SDDL2_OP_PUSH_TYPE_I8 then Some SDDL2_TYPE_I8
      else if opcode = SDDL2_OP_PUSH_TYPE_U16LE then Some SDDL2_TYPE_U16LE
      else if opcode = SDDL2_OP_PUSH_TYPE_U16BE then Some SDDL2_TYPE_U16BE
      else if opcode = SDDL2_OP_PUSH_TYPE_I16LE then Some SDDL2_TYPE_I16LE
      else if opcode = SDDL2_OP_PUSH_TYPE_I16BE then Some SDDL2_TYPE_I16BE
      else if opcode = SDDL2_OP_PUSH_TYPE_U32LE then Some SDDL2_TYPE_U32LE
      else if opcode = SDDL2_OP_PUSH_TYPE_U32BE then Some SDDL2_TYPE_U32BE
      else if opcode = SDDL2_OP_PUSH_TYPE_I32LE then Some SDDL2_TYPE_I32LE
      else if opcode = SDDL2_OP_PUSH_TYPE_I32BE then Some SDDL2_TYPE_I32BE
      else if opcode = SDDL2_OP_PUSH_TYPE_U64LE then Some SDDL2_TYPE_U64LE
      else if opcode = SDDL2_OP_PUSH_TYPE_U64BE then Some SDDL2_TYPE_U64BE
      else if opcode = SDDL2_OP_PUSH_TYPE_I64LE then Some SDDL2_TYPE_I64LE
      else if opcode = SDDL2_OP_PUSH_TYPE_I64BE then Some SDDL2_TYPE_I64BE
      else if opcode = SDDL2_OP_PUSH_TYPE_F8 then Some SDDL2_TYPE_F8
      else if opcode = SDDL2_OP_PUSH_TYPE_F16LE then Some SDDL2_TYPE_F16LE
      else if opcode = SDDL2_OP_PUSH_TYPE_F16BE then Some SDDL2_TYPE_F16BE
      else if opcode = SDDL2_OP_PUSH_TYPE_BF16LE then Some SDDL2_TYPE_BF16LE
      else if opcode = SDDL2_OP_PUSH_TYPE_BF16BE then Some SDDL2_TYPE_BF16BE
      else if opcode = SDDL2_OP_PUSH_TYPE_F32LE then Some SDDL2_TYPE_F32LE
      else if opcode = SDDL2_OP_PUSH_TYPE_F32BE then Some SDDL2_TYPE_F32BE
      else if opcode = SDDL2_OP_PUSH_TYPE_F64LE then Some SDDL2_TYPE_F64LE
      else if opcode = SDDL2_OP_PUSH_TYPE_F64BE then Some SDDL2_TYPE_F64BE
      else None)"

text \<open>The result is the program counter after the immediate, if any.\<close>

definition handle_push_family :: "u16 \<Rightarrow> byte list \<Rightarrow> nat \<Rightarrow> nat vm_op" where
  "handle_push_family opcode bytecode pc =
     (if opcode = SDDL2_OP_PUSH_ZERO then
        vm_bind (SDDL2_Stack_push (SDDL2_VALUE_I64 0)) (\<lambda>_. vm_return pc)
      else if opcode = SDDL2_OP_PUSH_U32 then
        vm_bind (vm_lift (read_u32_immediate bytecode pc)) (\<lambda>(value, pc).
        vm_bind (SDDL2_Stack_push (SDDL2_VALUE_I64 (ucast value))) (\<lambda>_. vm_return pc))
      else if opcode = SDDL2_OP_PUSH_I32 then
        vm_bind (vm_lift (read_i32_immediate bytecode pc)) (\<lambda>(value, pc).
        vm_bind (SDDL2_Stack_push (SDDL2_VALUE_I64 (scast value))) (\<lambda>_. vm_return pc))
      else if opcode = SDDL2_OP_PUSH_I64 then
        vm_bind (vm_lift (read_i64_immediate bytecode pc)) (\<lambda>(value, pc).
        vm_bind (SDDL2_Stack_push (SDDL2_VALUE_I64 value)) (\<lambda>_. vm_return pc))
      else if opcode = SDDL2_OP_PUSH_TAG then
        vm_bind (vm_lift (read_u32_immediate bytecode pc)) (\<lambda>(tag, pc).
        vm_bind (SDDL2_Stack_push (SDDL2_VALUE_TAG tag)) (\<lambda>_. vm_return pc))
      else if opcode = SDDL2_OP_PUSH_CURRENT_POS then
        vm_bind SDDL2_op_current_pos (\<lambda>_. vm_return pc)
      else if opcode = SDDL2_OP_PUSH_REMAINING then
        vm_bind SDDL2_op_remaining (\<lambda>_. vm_return pc)
      else if opcode = SDDL2_OP_PUSH_STACK_DEPTH then
        vm_bind SDDL2_op_push_stack_depth (\<lambda>_. vm_return pc)
      else case push_type_kind opcode of
        None \<Rightarrow> vm_fail SDDL2_INVALID_BYTECODE
      | Some kind \<Rightarrow>
          vm_bind (SDDL2_Stack_push (SDDL2_VALUE_TYPE (SDDL2_Type kind 1 None)))
            (\<lambda>_. vm_return pc))"

section \<open>Dispatch tables\<close>

text \<open>\<open>pc\<close> is \<^verbatim>\<open>pc_before\<close>, which the traced operations record.\<close>

definition dispatch_math :: "u16 \<Rightarrow> nat \<Rightarrow> unit vm_op" where
  "dispatch_math opcode pc =
     (if opcode = SDDL2_OP_MATH_ADD then SDDL2_op_add
      else if opcode = SDDL2_OP_MATH_SUB then SDDL2_op_sub
      else if opcode = SDDL2_OP_MATH_MUL then SDDL2_op_mul
      else if opcode = SDDL2_OP_MATH_DIV then SDDL2_op_div
      else if opcode = SDDL2_OP_MATH_MOD then SDDL2_op_mod
      else if opcode = SDDL2_OP_MATH_ABS then SDDL2_op_abs
      else if opcode = SDDL2_OP_MATH_NEG then SDDL2_op_neg
      else if opcode = SDDL2_OP_MATH_BIT_AND then SDDL2_op_bit_and pc
      else if opcode = SDDL2_OP_MATH_BIT_OR then SDDL2_op_bit_or pc
      else if opcode = SDDL2_OP_MATH_BIT_XOR then SDDL2_op_bit_xor pc
      else if opcode = SDDL2_OP_MATH_BIT_NOT then SDDL2_op_bit_not pc
      else vm_fail SDDL2_INVALID_BYTECODE)"

definition dispatch_cmp :: "u16 \<Rightarrow> nat \<Rightarrow> unit vm_op" where
  "dispatch_cmp opcode pc =
     (if opcode = SDDL2_OP_CMP_EQ then SDDL2_op_eq pc
      else if opcode = SDDL2_OP_CMP_NE then SDDL2_op_ne pc
      else if opcode = SDDL2_OP_CMP_LT then SDDL2_op_lt pc
      else if opcode = SDDL2_OP_CMP_LE then SDDL2_op_le pc
      else if opcode = SDDL2_OP_CMP_GT then SDDL2_op_gt pc
      else if opcode = SDDL2_OP_CMP_GE then SDDL2_op_ge pc
      else vm_fail SDDL2_INVALID_BYTECODE)"

definition dispatch_logic :: "u16 \<Rightarrow> nat \<Rightarrow> unit vm_op" where
  "dispatch_logic opcode pc =
     (if opcode = SDDL2_OP_LOGIC_AND then SDDL2_op_and pc
      else if opcode = SDDL2_OP_LOGIC_OR then SDDL2_op_or pc
      else if opcode = SDDL2_OP_LOGIC_XOR then SDDL2_op_xor pc
      else if opcode = SDDL2_OP_LOGIC_NOT then SDDL2_op_not pc
      else vm_fail SDDL2_INVALID_BYTECODE)"

definition dispatch_stack :: "u16 \<Rightarrow> unit vm_op" where
  "dispatch_stack opcode =
     (if opcode = SDDL2_OP_STACK_DROP then SDDL2_op_drop
      else if opcode = SDDL2_OP_STACK_DROP_IF then SDDL2_op_stack_drop_if
      else if opcode = SDDL2_OP_STACK_DUP then SDDL2_op_dup
      else if opcode = SDDL2_OP_STACK_SWAP then SDDL2_op_swap
      else vm_fail SDDL2_INVALID_BYTECODE)"

definition dispatch_load :: "u16 \<Rightarrow> unit vm_op" where
  "dispatch_load opcode =
     (if opcode = SDDL2_OP_LOAD_U8 then SDDL2_op_load_u8
      else if opcode = SDDL2_OP_LOAD_I8 then SDDL2_op_load_i8
      else if opcode = SDDL2_OP_LOAD_U16LE then SDDL2_op_load_u16le
      else if opcode = SDDL2_OP_LOAD_U16BE then SDDL2_op_load_u16be
      else if opcode = SDDL2_OP_LOAD_I16LE then SDDL2_op_load_i16le
      else if opcode = SDDL2_OP_LOAD_I16BE then SDDL2_op_load_i16be
      else if opcode = SDDL2_OP_LOAD_U32LE then SDDL2_op_load_u32le
      else if opcode = SDDL2_OP_LOAD_U32BE then SDDL2_op_load_u32be
      else if opcode = SDDL2_OP_LOAD_I32LE then SDDL2_op_load_i32le
      else if opcode = SDDL2_OP_LOAD_I32BE then SDDL2_op_load_i32be
      else if opcode = SDDL2_OP_LOAD_I64LE then SDDL2_op_load_i64le
      else if opcode = SDDL2_OP_LOAD_I64BE then SDDL2_op_load_i64be
      else vm_fail SDDL2_INVALID_BYTECODE)"

definition dispatch_type :: "u16 \<Rightarrow> unit vm_op" where
  "dispatch_type opcode =
     (if opcode = SDDL2_OP_TYPE_FIXED_ARRAY then SDDL2_op_type_fixed_array
      else if opcode = SDDL2_OP_TYPE_STRUCTURE then SDDL2_op_type_structure
      else if opcode = SDDL2_OP_TYPE_SIZEOF then SDDL2_op_type_sizeof
      else vm_fail SDDL2_INVALID_BYTECODE)"

definition dispatch_var :: "u16 \<Rightarrow> unit vm_op" where
  "dispatch_var opcode =
     (if opcode = SDDL2_OP_VAR_STORE then SDDL2_op_var_store
      else if opcode = SDDL2_OP_VAR_LOAD then SDDL2_op_var_load
      else vm_fail SDDL2_INVALID_BYTECODE)"

definition dispatch_segment :: "u16 \<Rightarrow> unit vm_op" where
  "dispatch_segment opcode =
     (if opcode = SDDL2_OP_SEGMENT_CREATE_UNSPECIFIED then SDDL2_op_segment_create_unspecified
      else if opcode = SDDL2_OP_SEGMENT_CREATE_TAGGED then SDDL2_op_segment_create_tagged
      else vm_fail SDDL2_INVALID_BYTECODE)"

section \<open>Forward jumps\<close>

definition instruction_family :: "u32 \<Rightarrow> u16" where
  "instruction_family instruction = ucast (drop_bit 16 instruction AND 0xFFFF)"
definition instruction_opcode :: "u32 \<Rightarrow> u16" where
  "instruction_opcode instruction = ucast (instruction AND 0xFFFF)"

text \<open>The bytes of immediate payload after the instruction word.\<close>

definition payload_size :: "u16 \<Rightarrow> u16 \<Rightarrow> nat" where
  "payload_size family opcode =
     (if family = SDDL2_FAMILY_PUSH then
        (if opcode = SDDL2_OP_PUSH_U32 \<or> opcode = SDDL2_OP_PUSH_I32
            \<or> opcode = SDDL2_OP_PUSH_TAG then 4
         else if opcode = SDDL2_OP_PUSH_I64 then 8
         else 0)
      else 0)"

primrec SDDL2_skip :: "byte list \<Rightarrow> nat \<Rightarrow> nat \<Rightarrow> nat vmres" where
  "SDDL2_skip bytecode 0 pc = Ok pc"
| "SDDL2_skip bytecode (Suc skip_count) pc =
     (if length bytecode < pc + 4 then Fail SDDL2_INVALID_BYTECODE
      else let
          instruction = ZL_read32 (drop pc bytecode);
          payload = payload_size (instruction_family instruction)
                      (instruction_opcode instruction);
          pc = pc + 4
        in if 0 < payload \<and> length bytecode < pc + payload then Fail SDDL2_INVALID_BYTECODE
           else SDDL2_skip bytecode skip_count (pc + payload))"

section \<open>The execution loop\<close>

text \<open>
  One turn of the loop: the program counter and the halt flag after the instruction at \<open>pc\<close>. A
  family number that no case names leaves \<^verbatim>\<open>err\<close> at \<^verbatim>\<open>SDDL2_OK\<close>: the instruction does nothing.
\<close>

definition vm_trace_start :: "unit vm_op" where
  "vm_trace_start = vm_modify (\<lambda>s. s\<lparr>trace := SDDL2_Trace_buffer_start (trace s)\<rparr>)"

definition handle_control :: "u16 \<Rightarrow> byte list \<Rightarrow> nat \<Rightarrow> (nat \<times> bool) vm_op" where
  "handle_control opcode bytecode pc =
     (if opcode = SDDL2_OP_CONTROL_HALT then vm_return (pc, True)
      else if opcode = SDDL2_OP_CONTROL_EXPECT_TRUE then
        vm_bind SDDL2_op_expect_true (\<lambda>_. vm_return (pc, False))
      else if opcode = SDDL2_OP_CONTROL_JUMP_IF then
        vm_bind SDDL2_op_jump_if (\<lambda>skip_count.
        vm_bind (vm_lift (SDDL2_skip bytecode (unat skip_count) pc)) (\<lambda>pc.
        vm_return (pc, False)))
      else if opcode = SDDL2_OP_CONTROL_TRACE_START then
        vm_bind vm_trace_start (\<lambda>_. vm_return (pc, False))
      else vm_fail SDDL2_INVALID_BYTECODE)"

definition dispatch :: "u16 \<Rightarrow> u16 \<Rightarrow> byte list \<Rightarrow> nat \<Rightarrow> (nat \<times> bool) vm_op" where
  "dispatch family opcode bytecode pc_before =
     (let pc = pc_before + 4;
          continue = (\<lambda>op. vm_bind op (\<lambda>_. vm_return (pc, False))) in
      if family = SDDL2_FAMILY_CONTROL then handle_control opcode bytecode pc
      else if family = SDDL2_FAMILY_PUSH then
        vm_bind (handle_push_family opcode bytecode pc) (\<lambda>pc. vm_return (pc, False))
      else if family = SDDL2_FAMILY_SEGMENT then continue (dispatch_segment opcode)
      else if family = SDDL2_FAMILY_MATH then continue (dispatch_math opcode pc_before)
      else if family = SDDL2_FAMILY_CMP then continue (dispatch_cmp opcode pc_before)
      else if family = SDDL2_FAMILY_LOGIC then continue (dispatch_logic opcode pc_before)
      else if family = SDDL2_FAMILY_STACK then continue (dispatch_stack opcode)
      else if family = SDDL2_FAMILY_TYPE then continue (dispatch_type opcode)
      else if family = SDDL2_FAMILY_LOAD then continue (dispatch_load opcode)
      else if family = SDDL2_FAMILY_VAR then continue (dispatch_var opcode)
      else if family = SDDL2_FAMILY_CALL then vm_fail SDDL2_INVALID_BYTECODE
      else vm_return (pc, False))"

definition SDDL2_step :: "byte list \<Rightarrow> nat \<Rightarrow> (nat \<times> bool) vm_op" where
  "SDDL2_step bytecode pc =
     (if length bytecode < pc + 4 then vm_fail SDDL2_INVALID_BYTECODE
      else let instruction = ZL_read32 (drop pc bytecode) in
        dispatch (instruction_family instruction) (instruction_opcode instruction) bytecode pc)"

lemma SDDL2_skip_bounds:
  assumes "SDDL2_skip bytecode k pc = Ok pc'"
  shows "pc + 4 * k \<le> pc'" "pc' \<le> max pc (length bytecode)" "pc' mod 4 = pc mod 4"
proof -
  have pl: "payload_size f o' mod 4 = 0" for f o' by (simp add: payload_size_def)
  have "pc + 4 * k \<le> pc' \<and> pc' \<le> max pc (length bytecode) \<and> pc' mod 4 = pc mod 4"
    using assms
  proof (induction k arbitrary: pc)
    case (Suc k)
    define p where "p = payload_size (instruction_family (ZL_read32 (drop pc bytecode)))
      (instruction_opcode (ZL_read32 (drop pc bytecode)))"
    from Suc.prems have b: "pc + 4 \<le> length bytecode" "p = 0 \<or> pc + 4 + p \<le> length bytecode"
      and r: "SDDL2_skip bytecode k (pc + 4 + p) = Ok pc'"
      by (auto simp: Let_def p_def [symmetric] split: if_splits)
    have "(pc + 4 + p) mod 4 = pc mod 4"
      using pl [of "instruction_family (ZL_read32 (drop pc bytecode))"
          "instruction_opcode (ZL_read32 (drop pc bytecode))"] unfolding p_def by presburger
    with Suc.IH [OF r] b show ?case by auto
  qed simp
  then show "pc + 4 * k \<le> pc'" "pc' \<le> max pc (length bytecode)" "pc' mod 4 = pc mod 4"
    by auto
qed

text \<open>Every instruction that does not fail moves the program counter forward, by whole words.\<close>

definition pc_ok :: "byte list \<Rightarrow> nat \<Rightarrow> nat \<Rightarrow> bool" where
  "pc_ok bytecode pc pc' \<longleftrightarrow> pc \<le> pc' \<and> pc' \<le> length bytecode \<and> pc' mod 4 = pc mod 4"

lemma vm_bind_Ok:
  "vm_bind m f s = (Ok y, s') \<longleftrightarrow> (\<exists>x t. m s = (Ok x, t) \<and> f x t = (Ok y, s'))"
  by (auto simp: vm_bind_def split: prod.splits vmres.splits)

lemma vm_simple_Ok [simp]:
  "vm_return x s = (Ok y, s') \<longleftrightarrow> x = y \<and> s = s'"
  "vm_fail e s \<noteq> (Ok y, s')"
  "vm_undef s \<noteq> (Ok y, s')"
  "vm_lift r s = (Ok y, s') \<longleftrightarrow> r = Ok y \<and> s = s'"
  by (auto simp: vm_return_def vm_fail_def vm_undef_def vm_lift_def)

lemma mod_4_add_8: "(pc + 8 :: nat) mod 4 = pc mod 4"
  by presburger

lemma handle_push_pc:
  assumes "handle_push_family opcode bytecode pc s = (Ok pc', s')" "pc \<le> length bytecode"
  shows "pc_ok bytecode pc pc'"
  using assms
  by (auto simp: handle_push_family_def vm_bind_Ok read_u32_immediate_def read_i32_immediate_def
      read_i64_immediate_def pc_ok_def mod_4_add_8 split: if_splits option.splits prod.splits)

lemma handle_control_pc:
  assumes "handle_control opcode bytecode pc s = (Ok (pc', h), s')" "pc \<le> length bytecode"
  shows "pc_ok bytecode pc pc'"
  using assms
  by (auto simp: handle_control_def vm_bind_Ok pc_ok_def split: if_splits
      dest: SDDL2_skip_bounds)

lemma SDDL2_step_pc:
  assumes "SDDL2_step bytecode pc s = (Ok (pc', h), s')"
  shows "pc_ok bytecode (pc + 4) pc'"
proof -
  from assms have len: "pc + 4 \<le> length bytecode"
    by (auto simp: SDDL2_step_def split: if_splits)
  have id: "pc_ok bytecode (pc + 4) (pc + 4)" using len by (simp add: pc_ok_def)
  from assms len show ?thesis
    unfolding SDDL2_step_def dispatch_def Let_def
    by (auto simp: vm_bind_Ok id split: if_splits
        dest!: handle_push_pc handle_control_pc)
qed

function exec_loop :: "byte list \<Rightarrow> nat \<Rightarrow> bool \<Rightarrow> unit vm_op" where
  "exec_loop bytecode pc halted s =
     (if pc < length bytecode \<and> \<not> halted then
        (case SDDL2_step bytecode pc s of
           (Ok (pc', halted'), s') \<Rightarrow> exec_loop bytecode pc' halted' s'
         | (Fail e, s') \<Rightarrow> (Fail e, s')
         | (Undef, s') \<Rightarrow> (Undef, s'))
      else (Ok (), s))"
  by auto

termination exec_loop
proof (relation "measure (\<lambda>(bytecode, pc, h, s). length bytecode - pc)")
  fix bytecode pc h s x y z u pc' h'
  assume "pc < length bytecode \<and> \<not> h" "(x, y) = SDDL2_step bytecode pc s" "x = Ok z" "(pc', h') = z"
  then have "pc_ok bytecode (pc + 4) pc'" using SDDL2_step_pc [of bytecode pc s pc' h' y] by simp
  then show "((bytecode, pc', h', y), bytecode, pc, h, s)
      \<in> measure (\<lambda>(bytecode, pc, h, s). length bytecode - pc)"
    using \<open>pc < length bytecode \<and> \<not> h\<close> by (auto simp: pc_ok_def)
qed simp

declare exec_loop.simps [simp del]

text \<open>
  \<^verbatim>\<open>SDDL2_execute_bytecode\<close>: the outcome, the caller's segment list and the allocator
  afterwards. The registry, the trace, the stack and the registers are local to the call.
\<close>

definition SDDL2_execute_bytecode ::
  "byte list \<Rightarrow> byte list \<Rightarrow> SDDL2_Segment_list \<Rightarrow> SDDL2_allocator
     \<Rightarrow> unit vmres \<times> SDDL2_Segment_list \<times> SDDL2_allocator" where
  "SDDL2_execute_bytecode bytecode input output_segments al =
     (if length bytecode mod 4 \<noteq> 0 then (Fail SDDL2_INVALID_BYTECODE, output_segments, al)
      else case exec_loop bytecode 0 False (SDDL2_vm_init output_segments al input) of
        (r, s) \<Rightarrow> (r, segments s, allocator s))"

section \<open>Reachable states\<close>

text \<open>
  \<open>reaches b n c c'\<close>: \<open>n\<close> instructions lead from configuration \<open>c\<close> to \<open>c'\<close>. A configuration
  is the program counter, the halt flag and the machine's state.
\<close>

inductive reaches ::
  "byte list \<Rightarrow> nat \<Rightarrow> nat \<times> bool \<times> vm \<Rightarrow> nat \<times> bool \<times> vm \<Rightarrow> bool" for bytecode where
  reaches_refl: "reaches bytecode 0 c c"
| reaches_step: "reaches bytecode n c (pc, False, s)
     \<Longrightarrow> SDDL2_step bytecode pc s = (Ok (pc', h), s') \<Longrightarrow> reaches bytecode (Suc n) c (pc', h, s')"

lemma reaches_Cons:
  assumes "reaches bytecode n (pc', h, s') c" "SDDL2_step bytecode pc s = (Ok (pc', h), s')"
  shows "reaches bytecode (Suc n) (pc, False, s) c"
  using assms
proof (induction n "(pc', h, s')" c rule: reaches.induct)
  case reaches_refl
  then show ?case by (blast intro: reaches.intros)
next
  case (reaches_step n pc1 s1 pc2 h2 s2)
  then show ?case by (blast intro: reaches.intros)
qed

section \<open>Invariants of execution\<close>

context vm_invariant
begin

lemma preserves_trace_start [preserves_intros]: "preserves I vm_trace_start"
  using trace_buffer by (simp add: preserves_def vm_trace_start_def vm_modify_def)

lemma preserves_dispatch_tables [preserves_intros]:
  "preserves I (dispatch_math opc pc)" "preserves I (dispatch_cmp opc pc)"
  "preserves I (dispatch_logic opc pc)" "preserves I (dispatch_stack opc)"
  "preserves I (dispatch_load opc)" "preserves I (dispatch_type opc)"
  "preserves I (dispatch_var opc)" "preserves I (dispatch_segment opc)"
  unfolding dispatch_math_def dispatch_cmp_def dispatch_logic_def dispatch_stack_def
    dispatch_load_def dispatch_type_def dispatch_var_def dispatch_segment_def
  by (intro preserves_intros)+

lemma preserves_handlers [preserves_intros]:
  "preserves I (handle_push_family opc bytecode pc)" "preserves I (handle_control opc bytecode pc)"
  unfolding handle_push_family_def handle_control_def by (intro preserves_intros)+

lemma preserves_SDDL2_step: "preserves I (SDDL2_step bytecode pc)"
  unfolding SDDL2_step_def dispatch_def Let_def by (intro preserves_intros)

lemma step_keeps: "SDDL2_step bytecode pc s = (r, s') \<Longrightarrow> I s \<Longrightarrow> I s'"
  using preserves_SDDL2_step [of bytecode pc] by (auto simp: preserves_def dest: spec [of _ s])

lemma reaches_keeps: "reaches bytecode n (pc, h, s) (pc', h', s') \<Longrightarrow> I s \<Longrightarrow> I s'"
proof (induction n "(pc, h, s)" "(pc', h', s')" arbitrary: pc' h' s' rule: reaches.induct)
  case (reaches_step n pc1 s1 pc' h' s')
  then show ?case using step_keeps by blast
qed

lemma exec_loop_keeps: "I s \<Longrightarrow> I (snd (exec_loop bytecode pc h s))"
proof (induction bytecode pc h s rule: exec_loop.induct)
  case (1 bytecode pc h s)
  obtain r s' where e: "SDDL2_step bytecode pc s = (r, s')" by force
  have "I s'" using step_keeps [OF e] "1.prems" .
  then show ?case
    using 1 e by (subst exec_loop.simps) (auto split: vmres.splits prod.splits)
qed

end

lemma reaches_pc:
  assumes "reaches bytecode n (pc, h, s) (pc', h', s')" "pc mod 4 = 0" "pc \<le> length bytecode"
  shows "pc + 4 * n \<le> pc'" "pc' \<le> length bytecode" "pc' mod 4 = 0"
proof -
  have "pc + 4 * n \<le> pc' \<and> pc' \<le> length bytecode \<and> pc' mod 4 = 0"
    using assms
  proof (induction n "(pc, h, s)" "(pc', h', s')" arbitrary: pc' h' s' rule: reaches.induct)
    case (reaches_step n pc1 s1 pc' h' s')
    have "pc_ok bytecode (pc1 + 4) pc'" using SDDL2_step_pc reaches_step.hyps(3) by blast
    with reaches_step show ?case by (auto simp: pc_ok_def)
  qed auto
  then show "pc + 4 * n \<le> pc'" "pc' \<le> length bytecode" "pc' mod 4 = 0" by simp_all
qed

text \<open>
  The loop is the iteration of the step: it ends in a configuration that is halted or at the
  end of the bytecode, or in one whose instruction fails.
\<close>

lemma exec_loop_reaches:
  assumes "exec_loop bytecode pc h s = (r, s')"
  shows "\<exists>n pc1 h1 s1. reaches bytecode n (pc, h, s) (pc1, h1, s1)
     \<and> (if pc1 < length bytecode \<and> \<not> h1
        then r \<noteq> Ok () \<and> SDDL2_step bytecode pc1 s1 = (map_vmres (\<lambda>_. (0, False)) r, s')
        else r = Ok () \<and> s' = s1)"
  using assms
proof (induction bytecode pc h s rule: exec_loop.induct)
  case (1 bytecode pc h s)
  show ?case
  proof (cases "pc < length bytecode \<and> \<not> h")
    case False
    then have "exec_loop bytecode pc h s = (Ok (), s)"
      by (simp only: exec_loop.simps [of bytecode pc] if_False)
    with "1.prems" have "r = Ok ()" "s' = s" by simp_all
    with False show ?thesis
      by (intro exI [of _ 0] exI [of _ pc] exI [of _ h] exI [of _ s]) (auto intro: reaches_refl)
  next
    case True
    obtain q t where q: "SDDL2_step bytecode pc s = (q, t)" by force
    show ?thesis
    proof (cases q)
      case (Ok z)
      then obtain pc' h' where z: "z = (pc', h')" by force
      have "exec_loop bytecode pc' h' t = (r, s')"
        using "1.prems" True q Ok z by (simp add: exec_loop.simps [of bytecode pc])
      from "1.IH" [OF True, of q t "(pc', h')" pc' h'] this q Ok z
      obtain n pc1 h1 s1 where "reaches bytecode n (pc', h', t) (pc1, h1, s1)"
        and e: "if pc1 < length bytecode \<and> \<not> h1
          then r \<noteq> Ok () \<and> SDDL2_step bytecode pc1 s1 = (map_vmres (\<lambda>_. (0, False)) r, s')
          else r = Ok () \<and> s' = s1"
        by auto
      moreover from this(1) q Ok z True have "reaches bytecode (Suc n) (pc, h, s) (pc1, h1, s1)"
        using reaches_Cons by auto
      ultimately show ?thesis by blast
    next
      case (Fail e)
      then have "r = Fail e" "s' = t"
        using "1.prems" True q by (simp_all add: exec_loop.simps [of bytecode pc])
      with q Fail True show ?thesis
        by (intro exI [of _ 0] exI [of _ pc] exI [of _ h] exI [of _ s]) (auto intro: reaches_refl)
    next
      case Undef
      then have "r = Undef" "s' = t"
        using "1.prems" True q by (simp_all add: exec_loop.simps [of bytecode pc])
      with q Undef True show ?thesis
        by (intro exI [of _ 0] exI [of _ pc] exI [of _ h] exI [of _ s]) (auto intro: reaches_refl)
    qed
  qed
qed

lemma vm_wf_init:
  assumes "seg_items segs = []" "seg_capacity segs \<le> SDDL2_SEGMENT_MAX_CAPACITY"
  shows "vm_wf input (SDDL2_vm_init segs al input)"
  using assms
  by (auto simp: vm_wf_defs SDDL2_vm_init_def SDDL2_Stack_init_def SDDL2_Var_registers_init_def
      SDDL2_Input_cursor_init_def SDDL2_Tag_registry_init_def split: option.splits prod.splits)

section \<open>Examples\<close>

text \<open>An allocator that always succeeds, and an assembler: little-endian words and immediates.\<close>

definition heap_allocator :: SDDL2_allocator where
  "heap_allocator = \<lparr>alloc_fn = Some (\<lambda>_ _. True), alloc_count = 0\<rparr>"

definition instr :: "u16 \<Rightarrow> u16 \<Rightarrow> byte list" where
  "instr family opcode = write_le 2 opcode @ write_le 2 family"

definition run_program :: "byte list \<Rightarrow> byte list \<Rightarrow> unit vmres \<times> SDDL2_Segment list" where
  "run_program bytecode input =
     (let (segs, al) = SDDL2_Segment_list_init heap_allocator;
          (r, segs, al) = SDDL2_execute_bytecode bytecode input segs al
      in (r, seg_items segs))"

text \<open>
  Ten bytes without a tag, then \<open>2 ^ 63 - 1\<close> two-byte elements of tag 1; and a header field
  that gives the length of the payload that follows it.
\<close>

definition wrap_program :: "byte list" where
  "wrap_program =
     instr SDDL2_FAMILY_PUSH SDDL2_OP_PUSH_U32 @ write_le 4 (10 :: u32)
     @ instr SDDL2_FAMILY_SEGMENT SDDL2_OP_SEGMENT_CREATE_UNSPECIFIED
     @ instr SDDL2_FAMILY_PUSH SDDL2_OP_PUSH_TAG @ write_le 4 (1 :: u32)
     @ instr SDDL2_FAMILY_PUSH SDDL2_OP_PUSH_TYPE_U16LE
     @ instr SDDL2_FAMILY_PUSH SDDL2_OP_PUSH_I64 @ write_le 8 (0x7fffffffffffffff :: u64)
     @ instr SDDL2_FAMILY_SEGMENT SDDL2_OP_SEGMENT_CREATE_TAGGED"

definition header_program :: "byte list" where
  "header_program =
     instr SDDL2_FAMILY_PUSH SDDL2_OP_PUSH_TAG @ write_le 4 (7 :: u32)
     @ instr SDDL2_FAMILY_PUSH SDDL2_OP_PUSH_TYPE_U8
     @ instr SDDL2_FAMILY_PUSH SDDL2_OP_PUSH_ZERO
     @ instr SDDL2_FAMILY_LOAD SDDL2_OP_LOAD_U8
     @ instr SDDL2_FAMILY_PUSH SDDL2_OP_PUSH_U32 @ write_le 4 (1 :: u32)
     @ instr SDDL2_FAMILY_SEGMENT SDDL2_OP_SEGMENT_CREATE_UNSPECIFIED
     @ instr SDDL2_FAMILY_SEGMENT SDDL2_OP_SEGMENT_CREATE_TAGGED"

lemma wrap_program_bytes:
  "wrap_program = [2, 0, 1, 0, 10, 0, 0, 0, 1, 0, 12, 0, 5, 0, 1, 0, 1, 0, 0, 0, 18, 1, 1, 0,
     4, 0, 1, 0, 255, 255, 255, 255, 255, 255, 255, 127, 2, 0, 12, 0]"
  by (simp add: wrap_program_def instr_def write_le_def upt_rec)

lemma header_program_bytes:
  "header_program = [5, 0, 1, 0, 7, 0, 0, 0, 16, 1, 1, 0, 1, 0, 1, 0, 1, 0, 6, 0,
     2, 0, 1, 0, 1, 0, 0, 0, 1, 0, 12, 0, 2, 0, 12, 0]"
  by (simp add: header_program_def instr_def write_le_def upt_rec)

lemmas init_defs = SDDL2_execute_bytecode_def SDDL2_vm_init_def SDDL2_Stack_init_def
  SDDL2_Input_cursor_init_def SDDL2_Tag_registry_init_def SDDL2_Segment_list_init_def
  heap_allocator_def sddl2_alloc_def run_program_def

lemmas exec_defs = exec_loop.simps SDDL2_step_def dispatch_def Let_def instruction_family_def
  instruction_opcode_def handle_push_family_def read_u32_immediate_def read_i64_immediate_def
  push_type_kind_def dispatch_segment_def dispatch_load_def vm_simps SDDL2_op_load_u8_def
  load_op_def check_load_bounds_def SDDL2_op_segment_create_unspecified_def
  SDDL2_op_segment_create_tagged_def segment_create_internal_def SDDL2_Type_size_def
  SDDL2_kind_size_def ZL_overflowMulST_def builtin_mul_overflow_def tag_registry_register_def
  ensure_capacity_def can_merge_def segment_list_ensure_capacity_def advance_cursor_def
  append_segment_def merge_last_def bytes_type_def sddl2_alloc_def ZL_read8_def ZL_read32_def
  ZL_read64_def

lemma run_header_program:
  "run_program header_program [2, 0xaa, 0xbb] =
     (Ok (), [\<lparr>seg_tag = 0, start_pos = 0, size_bytes = 1, seg_type = bytes_type\<rparr>,
              \<lparr>seg_tag = 7, start_pos = 1, size_bytes = 2,
               seg_type = SDDL2_Type SDDL2_TYPE_U8 1 None\<rparr>])"
  by (simp add: init_defs header_program_bytes) (simp add: exec_defs)

section \<open>Properties\<close>


text \<open>
  C12: the interpreter always stops, after at most one instruction per four bytes of bytecode.
  When it reports success it has halted or run to the exact end of the bytecode; when it
  fails, it fails at a complete instruction, so the test for an incomplete one never fires.
\<close>

theorem execute_terminates:
  assumes "length bytecode mod 4 = 0"
    "SDDL2_execute_bytecode bytecode input segs al = (r, segs', al')"
  shows "\<exists>n pc h s. n \<le> length bytecode div 4 \<and> pc mod 4 = 0
    \<and> reaches bytecode n (0, False, SDDL2_vm_init segs al input) (pc, h, s)
    \<and> (if r = Ok () then (h \<or> pc = length bytecode) \<and> segs' = segments s
       else \<not> h \<and> pc + 4 \<le> length bytecode
            \<and> fst (SDDL2_step bytecode pc s) = map_vmres (\<lambda>_. (0, False)) r)"
proof -
  let ?s0 = "SDDL2_vm_init segs al input"
  obtain s' where x: "exec_loop bytecode 0 False ?s0 = (r, s')" and s': "segs' = segments s'"
    using assms by (auto simp: SDDL2_execute_bytecode_def split: prod.splits)
  from exec_loop_reaches [OF x] obtain n pc h s where
    R: "reaches bytecode n (0, False, ?s0) (pc, h, s)"
    and e: "if pc < length bytecode \<and> \<not> h
      then r \<noteq> Ok () \<and> SDDL2_step bytecode pc s = (map_vmres (\<lambda>_. (0, False)) r, s')
      else r = Ok () \<and> s' = s"
    by blast
  note p = reaches_pc [OF R]
  have "n \<le> length bytecode div 4" using p by simp
  moreover have "pc + 4 \<le> length bytecode" if "pc < length bytecode"
    using p(3) that assms(1) by simp presburger
  ultimately show ?thesis
    using R p e s' by (intro exI [of _ n] exI [of _ pc] exI [of _ h] exI [of _ s]) (auto split: if_splits)
qed

theorem execute_terminates_witness:
  "\<exists>n pc h s. n \<le> 9 \<and> pc mod 4 = 0
     \<and> reaches header_program n (0, False, SDDL2_vm_init \<lparr>seg_items = [], seg_capacity = 0\<rparr>
         heap_allocator [2, 0xaa, 0xbb]) (pc, h, s)"
proof -
  have len: "length header_program = 36" by (simp add: header_program_bytes)
  then have m: "length header_program mod 4 = 0" by simp
  obtain r g al where x: "SDDL2_execute_bytecode header_program [2, 0xaa, 0xbb]
      \<lparr>seg_items = [], seg_capacity = 0\<rparr> heap_allocator = (r, g, al)"
    by (rule prod_cases3)
  from execute_terminates [OF m x] show ?thesis unfolding len by (elim exE conjE) (intro exI, auto)
qed

lemma execute_wf:
  assumes "seg_items segs = []" "seg_capacity segs \<le> SDDL2_SEGMENT_MAX_CAPACITY"
    "SDDL2_execute_bytecode bytecode input segs al = (r, segs', al')"
  shows "\<exists>s. vm_wf input s \<and> segs' = segments s"
proof (cases "length bytecode mod 4 = 0")
  case True
  have "vm_wf input (snd (exec_loop bytecode 0 False (SDDL2_vm_init segs al input)))"
    by (rule vmwf.exec_loop_keeps) (rule vm_wf_init [OF assms(1,2)])
  with True assms(3) show ?thesis
    by (auto simp: SDDL2_execute_bytecode_def split: prod.splits)
next
  case False
  with assms(3) have "segs' = segments (SDDL2_vm_init segs al input)"
    by (simp add: SDDL2_execute_bytecode_def SDDL2_vm_init_def split: prod.splits)
  then show ?thesis using vm_wf_init [OF assms(1,2)] by blast
qed

text \<open>
  C10: whatever the bytecode does, and whether it succeeds, fails or is cut short, the segments
  it leaves start at 0 and follow each other without gap up to a cursor that is inside the
  input (positions as \<^verbatim>\<open>size_t\<close>); neighbours have different tags, so merging is complete; two
  segments with the same non-zero tag have equal types; and there are at most 524288 of them.
\<close>

theorem execute_segments:
  assumes "seg_items segs = []" "seg_capacity segs \<le> SDDL2_SEGMENT_MAX_CAPACITY"
    "SDDL2_execute_bytecode bytecode input segs al = (r, segs', al')"
  shows "(\<exists>q. tiles 0 (seg_items segs') q \<and> q \<le> word_of_nat (length input))
    \<and> successively (\<noteq>) (map seg_tag (seg_items segs'))
    \<and> (\<forall>g \<in> set (seg_items segs'). \<forall>g' \<in> set (seg_items segs').
         seg_tag g = seg_tag g' \<and> seg_tag g \<noteq> 0 \<longrightarrow> types_equal (seg_type g) (seg_type g'))
    \<and> length (seg_items segs') \<le> SDDL2_SEGMENT_MAX_CAPACITY"
proof -
  obtain s where wf: "vm_wf input s" and s: "segs' = segments s"
    using execute_wf [OF assms] by blast
  have "types_equal (seg_type g) (seg_type g')"
    if "g \<in> set (seg_items segs')" "g' \<in> set (seg_items segs')" "seg_tag g = seg_tag g'"
      "seg_tag g \<noteq> 0" for g g'
  proof -
    have "registered (tag_entries (registry s)) g" "registered (tag_entries (registry s)) g'"
      using wf s that by (auto simp: vm_wf_defs list_all_iff)
    with that show ?thesis by (auto simp: registered_def types_equal_def split: option.splits if_splits)
  qed
  then show ?thesis using wf s by (auto simp: vm_wf_defs)
qed

theorem execute_segments_witness:
  "(\<exists>q. tiles 0 (snd (run_program header_program [2, 0xaa, 0xbb])) q \<and> q \<le> 3)
   \<and> successively (\<noteq>) (map seg_tag (snd (run_program header_program [2, 0xaa, 0xbb])))"
proof -
  obtain segs al where i: "SDDL2_Segment_list_init heap_allocator = (segs, al)" by force
  have e: "seg_items segs = []" "seg_capacity segs \<le> SDDL2_SEGMENT_MAX_CAPACITY"
    using i by (auto simp: SDDL2_Segment_list_init_def split: option.splits prod.splits)
  obtain r segs' al' where x: "SDDL2_execute_bytecode header_program [2, 0xaa, 0xbb] segs al = (r, segs', al')"
    by (cases "SDDL2_execute_bytecode header_program [2, 0xaa, 0xbb] segs al") auto
  show ?thesis
    using execute_segments [OF e x] by (simp add: run_program_def i x)
qed

lemma pop_members_no_undef:
  "16 + k * 16 \<le> unat bytes \<Longrightarrow> no_undef (pop_members k bytes ms)"
proof (induction k arbitrary: ms)
  case 0
  then show ?case by (simp add: no_undef_intros)
next
  case (Suc k)
  then have "no_undef (if unat (16 :: u64) + Suc k * unat (16 :: u64) \<le> unat bytes
      then pop_members k bytes (t # ms) else vm_undef)" for t
    by simp
  then show ?case
    unfolding pop_members.simps by (rule no_undef_bind [OF no_undef_stack(4)])
qed

lemma members_size_defined: "members_size tot ts \<noteq> Undef"
  using SDDL2_Type_size_defined
  by (induction ts arbitrary: tot) (auto simp: Let_def split: vmres.splits prod.splits)

lemma build_structure_no_undef:
  assumes "unat n < 2 ^ 60 - 1"
  shows "no_undef (build_structure n)"
proof -
  have b: "unat (16 + n * 16) = 16 + unat n * 16" using assms by (simp add: unat_word_ariths)
  then have "\<not> 16 + n * 16 < 16" by (simp add: word_less_nat_alt)
  moreover have "no_undef (vm_alloc k)" for k
    by (simp add: no_undef_def vm_alloc_def split: prod.splits)
  ultimately show ?thesis
    unfolding build_structure_def Let_def
    by (simp only: if_False) (intro no_undef_intros pop_members_no_undef members_size_defined, simp_all add: b)
qed

lemma no_undef_neq: "no_undef m \<Longrightarrow> m s = (Undef, s') \<longleftrightarrow> False"
  by (metis fst_conv no_undef_def)

lemma structure_undef:
  assumes "SDDL2_op_type_structure s = (Undef, s')"
  shows "\<exists>n vs. items (stack s) = SDDL2_VALUE_I64 n # vs \<and> 2 ^ 60 - 1 \<le> unat n"
proof -
  have "\<exists>n vs t. items (stack s) = SDDL2_VALUE_I64 n # vs \<and> build_structure n t = (Undef, s')"
    using assms unfolding SDDL2_op_type_structure_def
    by (auto simp: vm_simps split: list.splits SDDL2_Value.splits if_splits)
  then obtain n vs t where n: "items (stack s) = SDDL2_VALUE_I64 n # vs" "build_structure n t = (Undef, s')"
    by blast
  then have "\<not> unat n < 2 ^ 60 - 1" using no_undef_neq [OF build_structure_no_undef] by blast
  with n show ?thesis by (auto simp: not_less)
qed

lemma mod_undef:
  assumes "SDDL2_op_mod s = (Undef, s')"
  shows "\<exists>a vs. items (stack s) = SDDL2_VALUE_I64 (- 1) # SDDL2_VALUE_I64 a # vs
           \<and> sint a = INT64_MIN"
proof -
  have m1: "b = - 1" if "sint b = - 1" for b :: u64
  proof -
    have "b = word_of_int (sint b)" by simp
    then show ?thesis by (simp only: that) simp
  qed
  show ?thesis
    using assms
    by (auto simp: SDDL2_op_mod_def vm_simps m1 split: list.splits SDDL2_Value.splits if_splits)
qed

lemma no_undef_ops [no_undef_intros]:
  "no_undef SDDL2_op_add" "no_undef SDDL2_op_sub" "no_undef SDDL2_op_mul" "no_undef SDDL2_op_div"
  "no_undef SDDL2_op_abs" "no_undef SDDL2_op_neg" "no_undef SDDL2_op_drop"
  "no_undef SDDL2_op_stack_drop_if" "no_undef SDDL2_op_jump_if" "no_undef SDDL2_op_dup"
  "no_undef SDDL2_op_var_store" "no_undef SDDL2_op_var_load" "no_undef SDDL2_op_expect_true"
  "no_undef SDDL2_op_current_pos" "no_undef SDDL2_op_remaining"
  "no_undef SDDL2_op_push_stack_depth" "no_undef SDDL2_op_type_fixed_array"
  "no_undef SDDL2_op_type_sizeof" "no_undef SDDL2_op_segment_create_unspecified"
  "no_undef SDDL2_op_segment_create_tagged" "no_undef vm_trace_start"
  unfolding SDDL2_op_add_def SDDL2_op_sub_def SDDL2_op_mul_def SDDL2_op_div_def SDDL2_op_abs_def
    SDDL2_op_neg_def SDDL2_op_drop_def SDDL2_op_stack_drop_if_def SDDL2_op_jump_if_def
    SDDL2_op_dup_def SDDL2_op_var_store_def SDDL2_op_var_load_def SDDL2_op_expect_true_def
    SDDL2_op_current_pos_def SDDL2_op_remaining_def SDDL2_op_push_stack_depth_def
    SDDL2_op_type_fixed_array_def SDDL2_op_type_sizeof_def
    SDDL2_op_segment_create_unspecified_def SDDL2_op_segment_create_tagged_def vm_trace_start_def
  by (intro no_undef_intros)+

lemma no_undef_traced [no_undef_intros]:
  "no_undef (SDDL2_op_eq pc)" "no_undef (SDDL2_op_ne pc)" "no_undef (SDDL2_op_lt pc)"
  "no_undef (SDDL2_op_le pc)" "no_undef (SDDL2_op_gt pc)" "no_undef (SDDL2_op_ge pc)"
  "no_undef (SDDL2_op_bit_and pc)" "no_undef (SDDL2_op_bit_or pc)"
  "no_undef (SDDL2_op_bit_xor pc)" "no_undef (SDDL2_op_bit_not pc)"
  "no_undef (SDDL2_op_and pc)" "no_undef (SDDL2_op_or pc)" "no_undef (SDDL2_op_xor pc)"
  "no_undef (SDDL2_op_not pc)"
  unfolding SDDL2_op_eq_def SDDL2_op_ne_def SDDL2_op_lt_def SDDL2_op_le_def SDDL2_op_gt_def
    SDDL2_op_ge_def SDDL2_op_bit_and_def SDDL2_op_bit_or_def SDDL2_op_bit_xor_def
    SDDL2_op_bit_not_def SDDL2_op_and_def SDDL2_op_or_def SDDL2_op_xor_def SDDL2_op_not_def
  by (intro no_undef_intros)+

lemma no_undef_tables [no_undef_intros]:
  "no_undef (dispatch_cmp opc pc)" "no_undef (dispatch_logic opc pc)"
  "no_undef (dispatch_stack opc)" "no_undef (dispatch_load opc)"
  "no_undef (dispatch_var opc)" "no_undef (dispatch_segment opc)"
  unfolding dispatch_cmp_def dispatch_logic_def dispatch_stack_def dispatch_load_def
    dispatch_var_def dispatch_segment_def SDDL2_op_load_u8_def SDDL2_op_load_i8_def
    SDDL2_op_load_u16le_def SDDL2_op_load_i16le_def SDDL2_op_load_u16be_def
    SDDL2_op_load_i16be_def SDDL2_op_load_u32le_def SDDL2_op_load_i32le_def
    SDDL2_op_load_u32be_def SDDL2_op_load_i32be_def SDDL2_op_load_i64le_def
    SDDL2_op_load_i64be_def
  by (intro no_undef_intros)+

lemma immediates_defined [no_undef_intros]:
  "read_u32_immediate b pc \<noteq> Undef" "read_i32_immediate b pc \<noteq> Undef"
  "read_i64_immediate b pc \<noteq> Undef" "SDDL2_skip b k pc \<noteq> Undef"
proof -
  show "SDDL2_skip b k pc \<noteq> Undef" by (induction k arbitrary: pc) (simp_all add: Let_def)
qed (simp_all add: read_u32_immediate_def read_i32_immediate_def read_i64_immediate_def)

lemma no_undef_handlers [no_undef_intros]:
  "no_undef (handle_push_family opc bytecode pc)" "no_undef (handle_control opc bytecode pc)"
  unfolding handle_push_family_def handle_control_def by (intro no_undef_intros)+

lemmas no_undef_eqs = no_undef_ops [THEN no_undef_neq] no_undef_traced [THEN no_undef_neq]
  no_undef_seq [THEN no_undef_neq] no_undef_tables [THEN no_undef_neq]
  no_undef_handlers [THEN no_undef_neq]

lemma math_undef:
  "dispatch_math opc pc s = (Undef, s') \<Longrightarrow> opc = SDDL2_OP_MATH_MOD \<and> SDDL2_op_mod s = (Undef, s')"
  by (simp add: dispatch_math_def no_undef_eqs split: if_splits)

lemma type_undef:
  "dispatch_type opc s = (Undef, s')
     \<Longrightarrow> opc = SDDL2_OP_TYPE_STRUCTURE \<and> SDDL2_op_type_structure s = (Undef, s')"
  by (simp add: dispatch_type_def no_undef_eqs split: if_splits)

lemma vm_bind_undef:
  "vm_bind m f s = (Undef, s') \<longleftrightarrow>
     m s = (Undef, s') \<or> (\<exists>x t. m s = (Ok x, t) \<and> f x t = (Undef, s'))"
  by (auto simp: vm_bind_def split: prod.splits vmres.splits)



end
