(* ===== verification/SDDL2_Chunks.thy ===== *)
theory SDDL2_Chunks
  imports SDDL2_Interpreter
begin

text \<open>
  The SDDL2 segmenter and the chunk replay (\<^verbatim>\<open>compress/graphs/sddl2/sddl2.c\<close>). The planner
  cuts the segments the machine emitted into chunks of bounded size; each chunk is handed to
  the segmenter's \<^verbatim>\<open>ZL_Segmenter_processChunk\<close>, which is a parameter of the model, with the
  slices and the first stream id the replay graph needs. The replay splits a chunk along its
  slices and gives every primitive field of every slice a stream id.
\<close>

section \<open>Fields of a type\<close>

definition sddl2_determine_endianness :: "SDDL2_Type_kind \<Rightarrow> bool ZL_Result" where
  "sddl2_determine_endianness kind =
     (if kind \<in> {SDDL2_TYPE_U8, SDDL2_TYPE_I8, SDDL2_TYPE_F8} then Inr True
      else if kind \<in> {SDDL2_TYPE_U16LE, SDDL2_TYPE_I16LE, SDDL2_TYPE_U32LE, SDDL2_TYPE_I32LE,
        SDDL2_TYPE_U64LE, SDDL2_TYPE_I64LE, SDDL2_TYPE_F16LE, SDDL2_TYPE_BF16LE,
        SDDL2_TYPE_F32LE, SDDL2_TYPE_F64LE} then Inr True
      else if kind \<in> {SDDL2_TYPE_U16BE, SDDL2_TYPE_I16BE, SDDL2_TYPE_U32BE, SDDL2_TYPE_I32BE,
        SDDL2_TYPE_U64BE, SDDL2_TYPE_I64BE, SDDL2_TYPE_F16BE, SDDL2_TYPE_BF16BE,
        SDDL2_TYPE_F32BE, SDDL2_TYPE_F64BE} then Inr False
      else Inl ZL_ErrorCode_GENERIC)"

fun sddl2_try_count_primitive_fields :: "SDDL2_Type \<Rightarrow> size_t option"
  and try_count_members :: "size_t \<Rightarrow> SDDL2_Type list \<Rightarrow> size_t option" where
  "sddl2_try_count_primitive_fields (SDDL2_Type kind width None) =
     (if kind \<noteq> SDDL2_TYPE_STRUCTURE then Some 1 else None)"
| "sddl2_try_count_primitive_fields (SDDL2_Type kind width (Some (SDDL2_Struct_data a t members))) =
     (if kind \<noteq> SDDL2_TYPE_STRUCTURE then Some 1 else try_count_members 0 members)"
| "try_count_members tot [] = Some tot"
| "try_count_members tot (m # ms) = (case sddl2_try_count_primitive_fields m of
     None \<Rightarrow> None
   | Some member_total \<Rightarrow>
       if SIZE_MAX - tot < member_total then None else try_count_members (tot + member_total) ms)"

definition sddl2_count_primitive_fields :: "SDDL2_Type \<Rightarrow> size_t ZL_Result" where
  "sddl2_count_primitive_fields type = (case sddl2_try_count_primitive_fields type of
     None \<Rightarrow> Inl ZL_ErrorCode_GENERIC | Some total_fields \<Rightarrow> Inr total_fields)"

text \<open>The output arrays are the lists of the values written, in order.\<close>

fun sddl2_flatten_field_sizes :: "SDDL2_Type \<Rightarrow> size_t list ZL_Result"
  and flatten_sizes_members :: "SDDL2_Type list \<Rightarrow> size_t list ZL_Result" where
  "sddl2_flatten_field_sizes (SDDL2_Type kind width None) =
     (if kind = SDDL2_TYPE_STRUCTURE then Inl ZL_ErrorCode_GENERIC
      else case SDDL2_Type_size (SDDL2_Type kind width None) of
        Ok field_size \<Rightarrow> Inr [field_size] | _ \<Rightarrow> Inl ZL_ErrorCode_GENERIC)"
| "sddl2_flatten_field_sizes (SDDL2_Type kind width (Some (SDDL2_Struct_data a t members))) =
     (if kind = SDDL2_TYPE_STRUCTURE then flatten_sizes_members members
      else case SDDL2_Type_size (SDDL2_Type kind width (Some (SDDL2_Struct_data a t members))) of
        Ok field_size \<Rightarrow> Inr [field_size] | _ \<Rightarrow> Inl ZL_ErrorCode_GENERIC)"
| "flatten_sizes_members [] = Inr []"
| "flatten_sizes_members (m # ms) =
     res_bind (sddl2_flatten_field_sizes m) (\<lambda>xs. res_bind (flatten_sizes_members ms)
       (\<lambda>ys. Inr (xs @ ys)))"

fun sddl2_flatten_field_types :: "SDDL2_Type \<Rightarrow> SDDL2_Type_kind list ZL_Result"
  and flatten_types_members :: "SDDL2_Type list \<Rightarrow> SDDL2_Type_kind list ZL_Result" where
  "sddl2_flatten_field_types (SDDL2_Type kind width None) =
     (if kind = SDDL2_TYPE_STRUCTURE then Inl ZL_ErrorCode_GENERIC else Inr [kind])"
| "sddl2_flatten_field_types (SDDL2_Type kind width (Some (SDDL2_Struct_data a t members))) =
     (if kind = SDDL2_TYPE_STRUCTURE then flatten_types_members members else Inr [kind])"
| "flatten_types_members [] = Inr []"
| "flatten_types_members (m # ms) =
     res_bind (sddl2_flatten_field_types m) (\<lambda>xs. res_bind (flatten_types_members ms)
       (\<lambda>ys. Inr (xs @ ys)))"

text \<open>\<open>scratch n\<close>: whether \<^verbatim>\<open>ZL_Graph_getScratchSpace\<close> gives \<open>n\<close> bytes.\<close>

definition sddl2_extract_flat_field_sizes ::
  "(size_t \<Rightarrow> bool) \<Rightarrow> SDDL2_Type \<Rightarrow> size_t list ZL_Result" where
  "sddl2_extract_flat_field_sizes scratch type =
     (if type_kind type \<noteq> SDDL2_TYPE_STRUCTURE then Inl ZL_ErrorCode_GENERIC
      else res_bind (sddl2_count_primitive_fields type) (\<lambda>total_fields.
        if total_fields = 0 then Inl ZL_ErrorCode_GENERIC
        else if \<not> scratch (total_fields * 8) then Inl ZL_ErrorCode_allocation
        else res_bind (sddl2_flatten_field_sizes type) (\<lambda>field_sizes.
          if word_of_nat (length field_sizes) \<noteq> total_fields then Inl ZL_ErrorCode_GENERIC
          else Inr field_sizes)))"

definition sddl2_extract_flat_field_types ::
  "(size_t \<Rightarrow> bool) \<Rightarrow> SDDL2_Type \<Rightarrow> SDDL2_Type_kind list ZL_Result" where
  "sddl2_extract_flat_field_types scratch type =
     res_bind (sddl2_count_primitive_fields type) (\<lambda>total_fields.
       if total_fields = 0 then Inl ZL_ErrorCode_GENERIC
       else if \<not> scratch (total_fields * 4) then Inl ZL_ErrorCode_allocation
       else res_bind (sddl2_flatten_field_types type) (\<lambda>field_types.
         if word_of_nat (length field_types) \<noteq> total_fields then Inl ZL_ErrorCode_GENERIC
         else Inr field_types))"

section \<open>Replay of a chunk\<close>

text \<open>
  The engine's edges and nodes are a parameter: \<open>run call\<close> says whether the engine accepts the
  call. A conversion node has one output, a split as many as it has sizes. What the replay
  does to the edges is the list of the streams it routes to the destination graph.
\<close>

type_synonym ZL_IDType = u32

abbreviation (input) INT_MAX :: nat where "INT_MAX \<equiv> 2147483647"

datatype (plugins only: code) engine_call =
    Convert_struct_to_num bool
  | Convert_serial_to_num bool size_t
  | Split_node "size_t list"
  | Split_by_struct_node "size_t list"
  | Set_clustering_tag u32
  | Set_destination nat
  | Set_destination_store

type_synonym engine = "engine_call \<Rightarrow> unit ZL_Result"

record routed_stream =
  stream_tag :: u32
  stream_kind :: SDDL2_Type_kind
  stream_width :: "size_t option" \<comment> \<open>field size of a split structure\<close>

definition sddl2_apply_struct_field_conversion :: "engine \<Rightarrow> SDDL2_Type_kind \<Rightarrow> unit ZL_Result" where
  "sddl2_apply_struct_field_conversion run kind =
     (if kind = SDDL2_TYPE_BYTES then Inl ZL_ErrorCode_GENERIC
      else res_bind (sddl2_determine_endianness kind) (\<lambda>le. run (Convert_struct_to_num le)))"

definition sddl2_apply_type_conversion :: "engine \<Rightarrow> SDDL2_Type \<Rightarrow> unit ZL_Result" where
  "sddl2_apply_type_conversion run type = (case SDDL2_kind_size (type_kind type) of
     Ok element_size \<Rightarrow> res_bind (sddl2_determine_endianness (type_kind type)) (\<lambda>le.
       run (Convert_serial_to_num le (element_size * 8)))
   | _ \<Rightarrow> Inl ZL_ErrorCode_GENERIC)"

text \<open>The tag that is attached and the next stream id.\<close>

definition sddl2_set_next_stream_tag :: "engine \<Rightarrow> ZL_IDType \<Rightarrow> (u32 \<times> ZL_IDType) ZL_Result" where
  "sddl2_set_next_stream_tag run next_stream_id =
     (if word_of_nat INT_MAX < next_stream_id then Inl ZL_ErrorCode_internalBuffer_tooSmall
      else res_bind (run (Set_clustering_tag next_stream_id)) (\<lambda>_.
        Inr (next_stream_id, next_stream_id + 1)))"

fun route_fields ::
  "engine \<Rightarrow> nat \<Rightarrow> size_t list \<Rightarrow> SDDL2_Type_kind list \<Rightarrow> ZL_IDType
     \<Rightarrow> (routed_stream list \<times> ZL_IDType) ZL_Result" where
  "route_fields run dest (sz # szs) (k # ks) next_stream_id =
     (if sz = 0 then route_fields run dest szs ks (next_stream_id + 1)
      else res_bind (if k \<noteq> SDDL2_TYPE_BYTES then sddl2_apply_struct_field_conversion run k else Inr ()) (\<lambda>_.
        res_bind (sddl2_set_next_stream_tag run next_stream_id) (\<lambda>(tag, next_stream_id).
        res_bind (run (Set_destination dest)) (\<lambda>_.
        res_bind (route_fields run dest szs ks next_stream_id) (\<lambda>(streams, next_stream_id).
        Inr (\<lparr>stream_tag = tag, stream_kind = k, stream_width = Some sz\<rparr> # streams,
             next_stream_id))))))"
| "route_fields run dest szs ks next_stream_id = Inr ([], next_stream_id)"

definition sddl2_apply_structure_split ::
  "engine \<Rightarrow> (size_t \<Rightarrow> bool) \<Rightarrow> nat \<Rightarrow> SDDL2_Type \<Rightarrow> ZL_IDType
     \<Rightarrow> (routed_stream list \<times> ZL_IDType) ZL_Result" where
  "sddl2_apply_structure_split run scratch dest type next_stream_id =
     res_bind (sddl2_extract_flat_field_sizes scratch type) (\<lambda>field_sizes.
     res_bind (sddl2_extract_flat_field_types scratch type) (\<lambda>field_types.
     if length field_sizes \<noteq> length field_types then Inl ZL_ErrorCode_GENERIC
     else if \<not> scratch (word_of_nat (length field_sizes) * 8) then Inl ZL_ErrorCode_allocation
     else res_bind (run (Split_by_struct_node (filter (\<lambda>sz. 0 < sz) field_sizes))) (\<lambda>_.
       route_fields run dest field_sizes field_types next_stream_id)))"

definition sddl2_process_segment ::
  "engine \<Rightarrow> (size_t \<Rightarrow> bool) \<Rightarrow> nat \<Rightarrow> SDDL2_Type \<Rightarrow> ZL_IDType
     \<Rightarrow> (routed_stream list \<times> ZL_IDType) ZL_Result" where
  "sddl2_process_segment run scratch dest type next_stream_id =
     (if type_kind type = SDDL2_TYPE_STRUCTURE then
        sddl2_apply_structure_split run scratch dest type next_stream_id
      else res_bind (if type_kind type = SDDL2_TYPE_BYTES then Inr ()
                     else sddl2_apply_type_conversion run type) (\<lambda>_.
        res_bind (sddl2_set_next_stream_tag run next_stream_id) (\<lambda>(tag, next_stream_id).
        res_bind (run (Set_destination dest)) (\<lambda>_.
        Inr ([\<lparr>stream_tag = tag, stream_kind = type_kind type, stream_width = None\<rparr>],
             next_stream_id)))))"

record SDDL2_ReplaySegment =
  rs_size_bytes :: size_t
  rs_type :: SDDL2_Type

fun replay_loop ::
  "engine \<Rightarrow> (size_t \<Rightarrow> bool) \<Rightarrow> nat \<Rightarrow> SDDL2_ReplaySegment list \<Rightarrow> ZL_IDType
     \<Rightarrow> routed_stream list list ZL_Result" where
  "replay_loop run scratch dest [] next_stream_id = Inr []"
| "replay_loop run scratch dest (seg # segs) next_stream_id =
     (if rs_size_bytes seg = 0 then
        res_bind (sddl2_count_primitive_fields (rs_type seg)) (\<lambda>nbFields.
        res_bind (replay_loop run scratch dest segs (next_stream_id + ucast nbFields)) (\<lambda>rest.
        Inr ([] # rest)))
      else
        res_bind (sddl2_process_segment run scratch dest (rs_type seg) next_stream_id)
          (\<lambda>(streams, next_stream_id).
        res_bind (replay_loop run scratch dest segs next_stream_id) (\<lambda>rest.
        Inr (streams # rest))))"

text \<open>The streams routed for each slice of the chunk.\<close>

definition sddl2_replay_segments ::
  "engine \<Rightarrow> (size_t \<Rightarrow> bool) \<Rightarrow> nat \<Rightarrow> ZL_IDType \<Rightarrow> SDDL2_ReplaySegment list
     \<Rightarrow> routed_stream list list ZL_Result" where
  "sddl2_replay_segments run scratch dest startStreamId slices =
     (if slices = [] then res_bind (run Set_destination_store) (\<lambda>_. Inr [])
      else if \<not> scratch (word_of_nat (length slices) * 8) then Inl ZL_ErrorCode_allocation
      else res_bind (run (Split_node (filter (\<lambda>n. 0 < n) (map rs_size_bytes slices)))) (\<lambda>_.
        replay_loop run scratch dest slices startStreamId))"

section \<open>Errors and parameters of the segmenter\<close>

fun sddl2_segmenter_error_to_report :: "SDDL2_Error \<Rightarrow> ZL_ErrorCode" where
  "sddl2_segmenter_error_to_report SDDL2_INVALID_BYTECODE = ZL_ErrorCode_parameter_invalid"
| "sddl2_segmenter_error_to_report SDDL2_STACK_OVERFLOW = ZL_ErrorCode_transform_executionFailure"
| "sddl2_segmenter_error_to_report SDDL2_STACK_UNDERFLOW = ZL_ErrorCode_transform_executionFailure"
| "sddl2_segmenter_error_to_report SDDL2_MATH_OVERFLOW = ZL_ErrorCode_transform_executionFailure"
| "sddl2_segmenter_error_to_report SDDL2_TYPE_MISMATCH = ZL_ErrorCode_parameter_invalid"
| "sddl2_segmenter_error_to_report SDDL2_LOAD_BOUNDS = ZL_ErrorCode_corruption"
| "sddl2_segmenter_error_to_report SDDL2_SEGMENT_BOUNDS = ZL_ErrorCode_srcSize_tooSmall"
| "sddl2_segmenter_error_to_report SDDL2_LIMIT_EXCEEDED = ZL_ErrorCode_internalBuffer_tooSmall"
| "sddl2_segmenter_error_to_report SDDL2_DIV_ZERO = ZL_ErrorCode_parameter_invalid"
| "sddl2_segmenter_error_to_report SDDL2_ALLOCATION_FAILED = ZL_ErrorCode_allocation"
| "sddl2_segmenter_error_to_report SDDL2_VALIDATION_FAILED = ZL_ErrorCode_parameter_invalid"

definition sddl2_extract_single_destination :: "nat \<Rightarrow> nat list \<Rightarrow> nat ZL_Result" where
  "sddl2_extract_single_destination compress_generic graphids =
     (case graphids of
        [] \<Rightarrow> Inr compress_generic
      | [dest] \<Rightarrow> Inr dest
      | _ \<Rightarrow> Inl ZL_ErrorCode_GENERIC)"

abbreviation (input) SDDL2_DEFAULT_CHUNK_BYTE_SIZE :: size_t where
  "SDDL2_DEFAULT_CHUNK_BYTE_SIZE \<equiv> 16777216"
abbreviation (input) ZL_CHUNK_VERSION_MIN :: int where "ZL_CHUNK_VERSION_MIN \<equiv> 21"

text \<open>The chunk size parameter is an \<^verbatim>\<open>int\<close>; \<open>None\<close> when it was not given.\<close>

definition sddl2_resolve_chunk_size_limit :: "int option \<Rightarrow> int \<Rightarrow> size_t ZL_Result" where
  "sddl2_resolve_chunk_size_limit chunkSizeParam formatVersion =
     res_bind (case chunkSizeParam of
         None \<Rightarrow> Inr SDDL2_DEFAULT_CHUNK_BYTE_SIZE
       | Some v \<Rightarrow>
           if v < 0 then Inl ZL_ErrorCode_parameter_invalid
           else if 0 < v then Inr (word_of_int v)
           else Inr SDDL2_DEFAULT_CHUNK_BYTE_SIZE) (\<lambda>chunkSizeLimit.
     Inr (if formatVersion < ZL_CHUNK_VERSION_MIN then SIZE_MAX else chunkSizeLimit))"

section \<open>The chunk planner\<close>

text \<open>
  What is handed to \<^verbatim>\<open>ZL_Segmenter_processChunk\<close>: the number of bytes of the input the chunk
  takes, and for a replay chunk its slices and its first stream id. \<open>process n c\<close> is the
  outcome of that call for the chunk \<open>c\<close> after \<open>n\<close> earlier ones.
\<close>

datatype sddl2_chunk =
    Store_chunk (chunk_bytes: size_t)
  | Replay_chunk (chunk_bytes: size_t) (chunk_slices: "SDDL2_ReplaySegment list")
      (chunk_start_id: ZL_IDType)

type_synonym chunk_sink = "nat \<Rightarrow> sddl2_chunk \<Rightarrow> unit ZL_Result"

record SDDL2_ChunkAccumulator =
  acc_slices :: "SDDL2_ReplaySegment list"
  acc_capacity :: nat
  acc_bytes :: size_t
  startStreamId :: ZL_IDType

record SDDL2_ChunkPlanner =
  remainingInputBytes :: size_t
  chunkSizeLimit :: size_t
  nextStreamId :: ZL_IDType
  acc :: SDDL2_ChunkAccumulator
  emitted :: "sddl2_chunk list" \<comment> \<open>the chunks processed so far\<close>

definition sddl2_process_segment_chunk ::
  "chunk_sink \<Rightarrow> SDDL2_ReplaySegment list \<Rightarrow> size_t \<Rightarrow> ZL_IDType \<Rightarrow> sddl2_chunk list
     \<Rightarrow> sddl2_chunk list ZL_Result" where
  "sddl2_process_segment_chunk process slices chunkBytes startId done =
     (if word_of_nat INT_MAX < startId then Inl ZL_ErrorCode_internalBuffer_tooSmall
      else let c = Replay_chunk chunkBytes slices startId in
        res_bind (process (length done) c) (\<lambda>_. Inr (done @ [c])))"

definition sddl2_append_chunk_replay_slice ::
  "SDDL2_ChunkAccumulator \<Rightarrow> ZL_IDType \<Rightarrow> SDDL2_Type \<Rightarrow> size_t
     \<Rightarrow> SDDL2_ChunkAccumulator ZL_Result" where
  "sddl2_append_chunk_replay_slice chunk segmentStreamId type sliceBytes =
     (if SIZE_MAX - sliceBytes < acc_bytes chunk then Inl ZL_ErrorCode_internalBuffer_tooSmall
      else if length (acc_slices chunk) = acc_capacity chunk
      then Inl ZL_ErrorCode_internalBuffer_tooSmall
      else Inr (chunk
        \<lparr>startStreamId := if acc_slices chunk = [] then segmentStreamId else startStreamId chunk,
         acc_slices := acc_slices chunk @ [\<lparr>rs_size_bytes = sliceBytes, rs_type = type\<rparr>],
         acc_bytes := acc_bytes chunk + sliceBytes\<rparr>))"

definition sddl2_flush_chunk_segments ::
  "chunk_sink \<Rightarrow> SDDL2_ChunkPlanner \<Rightarrow> SDDL2_ChunkPlanner ZL_Result" where
  "sddl2_flush_chunk_segments process p =
     (if acc_slices (acc p) = [] then Inr p
      else res_bind (sddl2_process_segment_chunk process (acc_slices (acc p)) (acc_bytes (acc p))
             (startStreamId (acc p)) (emitted p)) (\<lambda>em.
        Inr (p\<lparr>emitted := em, acc := (acc p)\<lparr>acc_slices := [], acc_bytes := 0\<rparr>\<rparr>)))"

definition sddl2_get_chunk_split_unit_size :: "SDDL2_Type \<Rightarrow> size_t ZL_Result" where
  "sddl2_get_chunk_split_unit_size type =
     (if type_kind type = SDDL2_TYPE_STRUCTURE then
        (case struct_data type of
           None \<Rightarrow> Inl ZL_ErrorCode_GENERIC
         | Some sd \<Rightarrow>
             if total_size_bytes sd = 0 then Inl ZL_ErrorCode_GENERIC
             else Inr (total_size_bytes sd))
      else case SDDL2_kind_size (type_kind type) of
        Ok n \<Rightarrow> Inr n | _ \<Rightarrow> Inl ZL_ErrorCode_GENERIC)"

definition sddl2_reserve_segment_stream_id ::
  "SDDL2_Type \<Rightarrow> SDDL2_ChunkPlanner \<Rightarrow> (ZL_IDType \<times> SDDL2_ChunkPlanner) ZL_Result" where
  "sddl2_reserve_segment_stream_id type p =
     (case sddl2_try_count_primitive_fields type of
        None \<Rightarrow> Inl ZL_ErrorCode_GENERIC
      | Some segmentStreams \<Rightarrow>
          if segmentStreams = 0 then Inl ZL_ErrorCode_GENERIC
          else if word_of_nat INT_MAX < segmentStreams
          then Inl ZL_ErrorCode_internalBuffer_tooSmall
          else let segmentStreamCount = ucast segmentStreams in
            if word_of_nat INT_MAX - segmentStreamCount < nextStreamId p
            then Inl ZL_ErrorCode_internalBuffer_tooSmall
            else Inr (nextStreamId p,
                      p\<lparr>nextStreamId := nextStreamId p + segmentStreamCount\<rparr>))"

text \<open>
  The splitting loop. \<open>maxSliceBytes\<close> is a positive multiple of the unit size at the call, so
  the guard that makes the recursion total is never the reason it stops.
\<close>

function split_loop ::
  "chunk_sink \<Rightarrow> SDDL2_Type \<Rightarrow> ZL_IDType \<Rightarrow> size_t \<Rightarrow> size_t \<Rightarrow> SDDL2_ChunkPlanner
     \<Rightarrow> SDDL2_ChunkPlanner ZL_Result" where
  "split_loop process type segmentStreamId maxSliceBytes remaining p =
     (if remaining = 0 \<or> maxSliceBytes = 0 then Inr p
      else let sliceBytes = (if maxSliceBytes < remaining then maxSliceBytes else remaining) in
        res_bind (sddl2_append_chunk_replay_slice (acc p) segmentStreamId type sliceBytes) (\<lambda>chunk.
        let p = p\<lparr>acc := chunk\<rparr>; remaining = remaining - sliceBytes in
        res_bind (if 0 < remaining then sddl2_flush_chunk_segments process p else Inr p) (\<lambda>p.
        split_loop process type segmentStreamId maxSliceBytes remaining p)))"
  by auto

termination split_loop
  by (relation "measure (\<lambda>(_, _, _, _, remaining, _). unat remaining)")
    (auto simp: unat_sub word_less_nat_alt word_le_nat_alt unat_gt_0)

declare split_loop.simps [simp del]

definition sddl2_plan_split_segment_chunks ::
  "chunk_sink \<Rightarrow> SDDL2_Segment \<Rightarrow> ZL_IDType \<Rightarrow> SDDL2_ChunkPlanner
     \<Rightarrow> SDDL2_ChunkPlanner ZL_Result" where
  "sddl2_plan_split_segment_chunks process seg segmentStreamId p =
     res_bind (sddl2_get_chunk_split_unit_size (seg_type seg)) (\<lambda>elementBytes.
     if size_bytes seg mod elementBytes \<noteq> 0 then Inl ZL_ErrorCode_nodeParameter_invalidValue
     else if chunkSizeLimit p < elementBytes then Inl ZL_ErrorCode_parameter_invalid
     else let maxElementsPerChunk = chunkSizeLimit p div elementBytes;
              maxSliceBytes = maxElementsPerChunk * elementBytes in
       split_loop process (seg_type seg) segmentStreamId maxSliceBytes (size_bytes seg) p)"

definition would_exceed_chunk :: "SDDL2_ChunkPlanner \<Rightarrow> size_t \<Rightarrow> bool" where
  "would_exceed_chunk p n \<longleftrightarrow> acc_slices (acc p) \<noteq> [] \<and> chunkSizeLimit p \<noteq> SIZE_MAX
     \<and> (chunkSizeLimit p \<le> acc_bytes (acc p) \<or> chunkSizeLimit p - acc_bytes (acc p) < n)"

definition sddl2_plan_segment_chunk ::
  "chunk_sink \<Rightarrow> SDDL2_Segment \<Rightarrow> SDDL2_ChunkPlanner \<Rightarrow> SDDL2_ChunkPlanner ZL_Result" where
  "sddl2_plan_segment_chunk process seg p =
     (if remainingInputBytes p < size_bytes seg then Inl ZL_ErrorCode_nodeParameter_invalidValue
      else res_bind (sddl2_reserve_segment_stream_id (seg_type seg)
          (p\<lparr>remainingInputBytes := remainingInputBytes p - size_bytes seg\<rparr>)) (\<lambda>(segmentStreamId, p).
        if chunkSizeLimit p = SIZE_MAX \<or> size_bytes seg \<le> chunkSizeLimit p then
          res_bind (if would_exceed_chunk p (size_bytes seg)
                    then sddl2_flush_chunk_segments process p else Inr p) (\<lambda>p.
          res_bind (sddl2_append_chunk_replay_slice (acc p) segmentStreamId (seg_type seg)
                     (size_bytes seg)) (\<lambda>chunk.
          Inr (p\<lparr>acc := chunk\<rparr>)))
        else
          res_bind (sddl2_flush_chunk_segments process p)
            (sddl2_plan_split_segment_chunks process seg segmentStreamId)))"

fun plan_loop ::
  "chunk_sink \<Rightarrow> SDDL2_Segment list \<Rightarrow> SDDL2_ChunkPlanner \<Rightarrow> SDDL2_ChunkPlanner ZL_Result" where
  "plan_loop process [] p = Inr p"
| "plan_loop process (seg # segs) p =
     res_bind (sddl2_plan_segment_chunk process seg p) (plan_loop process segs)"

definition sddl2_init_chunk_planner :: "size_t \<Rightarrow> size_t \<Rightarrow> nat \<Rightarrow> SDDL2_ChunkPlanner" where
  "sddl2_init_chunk_planner input_size limit maxSegments =
     \<lparr>remainingInputBytes = input_size, chunkSizeLimit = limit, nextStreamId = 0,
      acc = \<lparr>acc_slices = [], acc_capacity = maxSegments, acc_bytes = 0, startStreamId = 0\<rparr>,
      emitted = []\<rparr>"

definition sddl2_plan_segment_chunks ::
  "chunk_sink \<Rightarrow> (size_t \<Rightarrow> bool) \<Rightarrow> SDDL2_Segment list \<Rightarrow> size_t \<Rightarrow> size_t
     \<Rightarrow> sddl2_chunk list ZL_Result" where
  "sddl2_plan_segment_chunks process scratch segs input_size limit =
     (if segs = [] then
        res_bind (process 0 (Store_chunk input_size)) (\<lambda>_. Inr [Store_chunk input_size])
      else if \<not> scratch (word_of_nat (length segs) * 24) then Inl ZL_ErrorCode_allocation
      else res_bind (plan_loop process segs
             (sddl2_init_chunk_planner input_size limit (length segs))) (\<lambda>p.
        if remainingInputBytes p \<noteq> 0 then Inl ZL_ErrorCode_nodeParameter_invalidValue
        else res_bind (sddl2_flush_chunk_segments process p) (\<lambda>p. Inr (emitted p))))"

section \<open>The segmenter\<close>

definition sddl2_execute_vm_segments ::
  "byte list \<Rightarrow> byte list \<Rightarrow> SDDL2_allocator \<Rightarrow> SDDL2_Segment list vmres" where
  "sddl2_execute_vm_segments bytecode input al =
     (let (segs, al) = SDDL2_Segment_list_init al;
          (r, segs, al) = SDDL2_execute_bytecode bytecode input segs al
      in map_vmres (\<lambda>_. seg_items segs) r)"

text \<open>
  \<^verbatim>\<open>SDDL2_segment\<close> for a serial input and its bytecode parameter: the chunks it processed, or
  the error it reports. An undefined behaviour of the machine stays one.
\<close>

definition SDDL2_segment ::
  "chunk_sink \<Rightarrow> (size_t \<Rightarrow> bool) \<Rightarrow> SDDL2_allocator \<Rightarrow> byte list \<Rightarrow> byte list \<Rightarrow> int option \<Rightarrow> int
     \<Rightarrow> sddl2_chunk list ZL_Result option" where
  "SDDL2_segment process scratch al bytecode input chunkSizeParam formatVersion =
     (case sddl2_resolve_chunk_size_limit chunkSizeParam formatVersion of
        Inl e \<Rightarrow> Some (Inl e)
      | Inr limit \<Rightarrow>
          (case sddl2_execute_vm_segments bytecode input al of
             Undef \<Rightarrow> None
           | Fail e \<Rightarrow> Some (Inl (sddl2_segmenter_error_to_report e))
           | Ok segs \<Rightarrow> Some (sddl2_plan_segment_chunks process scratch segs
                           (word_of_nat (length input)) limit)))"

end
