(* ===== verification/SDDL2_Chunks_Plan.thy ===== *)
theory SDDL2_Chunks_Plan
  imports SDDL2_Chunks
begin

text \<open>
  Correctness of the SDDL2 chunk planner and of the replay: the chunks cut the input along
  the segments, and every slice routes its streams within its own interval of stream ids.
\<close>

section \<open>The planner covers the input\<close>

text \<open>
  Stream ids: a segment gets as many as its type has primitive fields, in order. The replay
  numbers the slices of a chunk from the chunk's first id on.
\<close>

definition field_count :: "SDDL2_Type \<Rightarrow> nat" where
  "field_count t = (case sddl2_try_count_primitive_fields t of None \<Rightarrow> 0 | Some n \<Rightarrow> unat n)"

primrec segment_ids :: "nat \<Rightarrow> SDDL2_Segment list \<Rightarrow> (SDDL2_Segment \<times> nat) list" where
  "segment_ids i [] = []"
| "segment_ids i (g # gs) = (g, i) # segment_ids (i + field_count (seg_type g)) gs"

primrec slice_ids :: "nat \<Rightarrow> SDDL2_ReplaySegment list \<Rightarrow> (SDDL2_ReplaySegment \<times> nat) list" where
  "slice_ids i [] = []"
| "slice_ids i (r # rs) = (r, i) # slice_ids (i + field_count (rs_type r)) rs"

definition chunk_ids :: "sddl2_chunk \<Rightarrow> (SDDL2_ReplaySegment \<times> nat) list" where
  "chunk_ids c = (case c of Store_chunk b \<Rightarrow> [] | Replay_chunk b rs i \<Rightarrow> slice_ids (unat i) rs)"

definition slice_bytes :: "SDDL2_ReplaySegment list \<Rightarrow> nat" where
  "slice_bytes rs = sum_list (map (\<lambda>r. unat (rs_size_bytes r)) rs)"

definition field_total :: "SDDL2_ReplaySegment list \<Rightarrow> nat" where
  "field_total rs = sum_list (map (\<lambda>r. field_count (rs_type r)) rs)"

text \<open>
  The slices of one segment: they have its type and its id, their sizes add up to its size,
  and there is exactly one unless the segment is larger than the chunk limit.
\<close>

definition sliced :: "size_t \<Rightarrow> SDDL2_Segment \<times> nat \<Rightarrow> (SDDL2_ReplaySegment \<times> nat) list \<Rightarrow> bool" where
  "sliced limit gi part \<longleftrightarrow>
     part \<noteq> [] \<and> (\<forall>(r, i) \<in> set part. rs_type r = seg_type (fst gi) \<and> i = snd gi)
     \<and> slice_bytes (map fst part) = unat (size_bytes (fst gi))
     \<and> (limit = SIZE_MAX \<or> size_bytes (fst gi) \<le> limit \<longrightarrow> length part = 1)"

definition chunk_wf :: "size_t \<Rightarrow> sddl2_chunk \<Rightarrow> bool" where
  "chunk_wf limit c \<longleftrightarrow> (case c of
     Store_chunk b \<Rightarrow> False
   | Replay_chunk b rs i \<Rightarrow> rs \<noteq> [] \<and> unat b = slice_bytes rs
       \<and> (limit = SIZE_MAX \<or> b \<le> limit) \<and> unat i + field_total rs \<le> INT_MAX)"

text \<open>All slices so far with their ids, and the part of the invariant about the accumulator.\<close>

definition planned :: "SDDL2_ChunkPlanner \<Rightarrow> (SDDL2_ReplaySegment \<times> nat) list" where
  "planned p = concat (map chunk_ids (emitted p))
     @ slice_ids (unat (startStreamId (acc p))) (acc_slices (acc p))"

definition acc_wf :: "SDDL2_ChunkPlanner \<Rightarrow> bool" where
  "acc_wf p \<longleftrightarrow> unat (acc_bytes (acc p)) = slice_bytes (acc_slices (acc p))
     \<and> (chunkSizeLimit p = SIZE_MAX \<or> acc_bytes (acc p) \<le> chunkSizeLimit p)
     \<and> (acc_slices (acc p) \<noteq> [] \<longrightarrow>
          unat (startStreamId (acc p)) + field_total (acc_slices (acc p)) \<le> INT_MAX)
     \<and> list_all (chunk_wf (chunkSizeLimit p)) (emitted p)"

definition planner_wf :: "size_t \<Rightarrow> SDDL2_Segment list \<Rightarrow> SDDL2_ChunkPlanner \<Rightarrow> bool" where
  "planner_wf input done p \<longleftrightarrow>
     (\<exists>parts. list_all2 (sliced (chunkSizeLimit p)) (segment_ids 0 done) parts
        \<and> concat parts = planned p)
     \<and> acc_wf p
     \<and> unat (remainingInputBytes p) + sum_list (map (\<lambda>g. unat (size_bytes g)) done) = unat input
     \<and> unat (nextStreamId p) = sum_list (map (\<lambda>g. field_count (seg_type g)) done)
     \<and> (acc_slices (acc p) \<noteq> [] \<longrightarrow>
          unat (startStreamId (acc p)) + field_total (acc_slices (acc p)) = unat (nextStreamId p))"

lemma slice_bytes_simps [simp]:
  "slice_bytes [] = 0" "slice_bytes (r # rs) = unat (rs_size_bytes r) + slice_bytes rs"
  "slice_bytes (rs @ ss) = slice_bytes rs + slice_bytes ss"
  by (simp_all add: slice_bytes_def)

lemma field_total_simps [simp]:
  "field_total [] = 0" "field_total (r # rs) = field_count (rs_type r) + field_total rs"
  "field_total (rs @ ss) = field_total rs + field_total ss"
  by (simp_all add: field_total_def)

lemma slice_ids_append [simp]:
  "slice_ids i (rs @ ss) = slice_ids i rs @ slice_ids (i + field_total rs) ss"
  by (induction rs arbitrary: i) (simp_all add: add.assoc)

lemma segment_ids_append [simp]:
  "segment_ids i (gs @ hs) =
     segment_ids i gs @ segment_ids (i + sum_list (map (\<lambda>g. field_count (seg_type g)) gs)) hs"
  by (induction gs arbitrary: i) (simp_all add: add.assoc)

lemma unat_add_checked:
  assumes "\<not> SIZE_MAX - y < (x :: u64)"
  shows "unat (x + y) = unat x + unat y"
  using assms add_overflow_subtraction_test [of y x] unat_add_no_wrap64 [of x y]
  by (simp add: not_le)

lemma append_slice:
  assumes "sddl2_append_chunk_replay_slice a i t n = Inr a'"
  shows "acc_slices a' = acc_slices a @ [\<lparr>rs_size_bytes = n, rs_type = t\<rparr>]"
    "unat (acc_bytes a') = unat (acc_bytes a) + unat n"
    "acc_bytes a' = acc_bytes a + n"
    "startStreamId a' = (if acc_slices a = [] then i else startStreamId a)"
    "acc_capacity a' = acc_capacity a"
  using assms unat_add_checked [of n "acc_bytes a"]
  by (auto simp: sddl2_append_chunk_replay_slice_def split: if_splits)

lemma flush:
  assumes "sddl2_flush_chunk_segments process p = Inr p'" "acc_wf p"
  shows "acc_wf p'" "planned p' = planned p" "acc_slices (acc p') = []"
    "chunkSizeLimit p' = chunkSizeLimit p" "nextStreamId p' = nextStreamId p"
    "remainingInputBytes p' = remainingInputBytes p"
    "acc_capacity (acc p') = acc_capacity (acc p)"
proof -
  have "acc_wf p' \<and> planned p' = planned p \<and> acc_slices (acc p') = []
    \<and> chunkSizeLimit p' = chunkSizeLimit p \<and> nextStreamId p' = nextStreamId p
    \<and> remainingInputBytes p' = remainingInputBytes p
    \<and> acc_capacity (acc p') = acc_capacity (acc p)"
    using assms
    by (auto simp: sddl2_flush_chunk_segments_def sddl2_process_segment_chunk_def acc_wf_def
        planned_def chunk_ids_def chunk_wf_def Let_def word_less_nat_alt split: if_splits)
  then show "acc_wf p'" "planned p' = planned p" "acc_slices (acc p') = []"
    "chunkSizeLimit p' = chunkSizeLimit p" "nextStreamId p' = nextStreamId p"
    "remainingInputBytes p' = remainingInputBytes p"
    "acc_capacity (acc p') = acc_capacity (acc p)"
    by simp_all
qed

text \<open>Appending one slice to the accumulator, when it fits in the chunk.\<close>

lemma append_planned:
  assumes "sddl2_append_chunk_replay_slice (acc p) i t n = Inr a" "acc_wf p"
    "chunkSizeLimit p = SIZE_MAX \<or> acc_bytes (acc p) + n \<le> chunkSizeLimit p"
    "acc_slices (acc p) \<noteq> [] \<longrightarrow>
       unat (startStreamId (acc p)) + field_total (acc_slices (acc p)) = unat i"
    "unat i + field_count t \<le> INT_MAX"
  defines "p' \<equiv> p\<lparr>acc := a\<rparr>"
  shows "acc_wf p'" "planned p' = planned p @ [(\<lparr>rs_size_bytes = n, rs_type = t\<rparr>, unat i)]"
  using assms append_slice [OF assms(1)] by (auto simp: acc_wf_def planned_def)

lemma split_loop_planned:
  assumes "split_loop process t i mx rem p = Inr p'" "acc_wf p" "acc_slices (acc p) = []"
    "rem \<noteq> 0" "mx \<noteq> 0" "chunkSizeLimit p = SIZE_MAX \<or> mx \<le> chunkSizeLimit p"
    "unat i + field_count t \<le> INT_MAX"
  shows "\<exists>part. part \<noteq> [] \<and> (\<forall>(r, j) \<in> set part. rs_type r = t \<and> j = unat i)
     \<and> slice_bytes (map fst part) = unat rem \<and> planned p' = planned p @ part
     \<and> acc_wf p' \<and> startStreamId (acc p') = i \<and> field_total (acc_slices (acc p')) = field_count t
     \<and> chunkSizeLimit p' = chunkSizeLimit p \<and> nextStreamId p' = nextStreamId p
     \<and> remainingInputBytes p' = remainingInputBytes p"
  using assms
proof (induction "unat rem" arbitrary: rem p rule: less_induct)
  case less
  define n where "n = (if mx < rem then mx else rem)"
  obtain a where a: "sddl2_append_chunk_replay_slice (acc p) i t n = Inr a"
    and rest: "res_bind (if 0 < rem - n then sddl2_flush_chunk_segments process (p\<lparr>acc := a\<rparr>)
        else Inr (p\<lparr>acc := a\<rparr>)) (split_loop process t i mx (rem - n)) = Inr p'"
    using less.prems by (subst (asm) split_loop.simps) (auto simp: n_def Let_def)
  have n: "n \<le> mx" "n \<noteq> 0" "n \<le> rem" using less.prems by (auto simp: n_def)
  have "acc_bytes (acc p) = 0" using less.prems(2,3) by (simp add: acc_wf_def unat_eq_0)
  then have fit: "chunkSizeLimit p = SIZE_MAX \<or> acc_bytes (acc p) + n \<le> chunkSizeLimit p"
    using n(1) less.prems(6) by auto
  note ap = append_planned [OF a less.prems(2) fit _ less.prems(7)] less.prems(3)
  note as = append_slice [OF a]
  let ?r = "\<lparr>rs_size_bytes = n, rs_type = t\<rparr>"
  show ?case
  proof (cases "rem - n = 0")
    case True
    then have "rem = n" by simp
    with True rest have "p' = p\<lparr>acc := a\<rparr>"
      by (simp add: split_loop.simps [of _ _ _ _ 0])
    then show ?thesis
      using ap as \<open>rem = n\<close> by (intro exI [of _ "[(?r, unat i)]"]) simp
  next
    case False
    then have gt: "0 < rem - n" by (simp add: word_gt_0)
    with rest obtain q where q: "sddl2_flush_chunk_segments process (p\<lparr>acc := a\<rparr>) = Inr q"
      and l: "split_loop process t i mx (rem - n) q = Inr p'"
      by auto
    have ap': "acc_wf (p\<lparr>acc := a\<rparr>)" "planned (p\<lparr>acc := a\<rparr>) = planned p @ [(?r, unat i)]"
      using ap by simp_all
    note f = flush [OF q ap'(1)]
    have "unat (rem - n) < unat rem"
      using n(3) unat_gt_0 [of n] n(2) by (simp add: unat_sub word_le_nat_alt)
    from less.hyps [OF this l] f False less.prems
    obtain part where part: "part \<noteq> [] \<and> (\<forall>(r, j) \<in> set part. rs_type r = t \<and> j = unat i)
      \<and> slice_bytes (map fst part) = unat (rem - n) \<and> planned p' = planned q @ part
      \<and> acc_wf p' \<and> startStreamId (acc p') = i \<and> field_total (acc_slices (acc p')) = field_count t
      \<and> chunkSizeLimit p' = chunkSizeLimit q \<and> nextStreamId p' = nextStreamId q
      \<and> remainingInputBytes p' = remainingInputBytes q"
      by auto
    have "unat n + unat (rem - n) = unat rem"
      using n(3) by (simp add: unat_sub word_le_nat_alt)
    with part f ap' show ?thesis
      by (intro exI [of _ "(?r, unat i) # part"]) auto
  qed
qed

lemma reserve:
  assumes "sddl2_reserve_segment_stream_id t p = Inr (i, p')"
  shows "p' = p\<lparr>nextStreamId := nextStreamId p'\<rparr>" "i = nextStreamId p"
    "unat (nextStreamId p') = unat (nextStreamId p) + field_count t"
    "unat (nextStreamId p') \<le> INT_MAX" "0 < field_count t"
proof -
  obtain c where c: "sddl2_try_count_primitive_fields t = Some c" "c \<noteq> 0"
    "\<not> word_of_nat INT_MAX < c" "\<not> word_of_nat INT_MAX - ucast c < nextStreamId p"
    "i = nextStreamId p" "p' = p\<lparr>nextStreamId := nextStreamId p + ucast c\<rparr>"
    using assms
    by (auto simp: sddl2_reserve_segment_stream_id_def Let_def split: option.splits if_splits)
  have cb: "unat c \<le> INT_MAX" using c(3) by (simp add: word_less_nat_alt not_less)
  then have uc: "unat (ucast c :: u32) = unat c"
    by (simp add: unsigned_ucast_eq take_bit_nat_eq_self)
  have "unat (word_of_nat INT_MAX - ucast c :: u32) = INT_MAX - unat c"
    using cb uc by (subst unat_sub) (auto simp: word_le_nat_alt)
  with c(4) have b: "unat (nextStreamId p) + unat c \<le> INT_MAX"
    using cb by (simp add: word_less_nat_alt not_less)
  then have "unat (nextStreamId p + ucast c) = unat (nextStreamId p) + unat c"
    using uc by (simp add: unat_word_ariths)
  then show "p' = p\<lparr>nextStreamId := nextStreamId p'\<rparr>" "i = nextStreamId p"
    "unat (nextStreamId p') = unat (nextStreamId p) + field_count t"
    "unat (nextStreamId p') \<le> INT_MAX" "0 < field_count t"
    using c b by (simp_all add: field_count_def unat_gt_0)
qed

lemma planner_wf_snoc:
  assumes wf: "planner_wf input done p"
    and part: "part \<noteq> []" "\<forall>(r, j) \<in> set part. rs_type r = seg_type g \<and> j = unat (nextStreamId p)"
      "slice_bytes (map fst part) = unat (size_bytes g)"
      "chunkSizeLimit p = SIZE_MAX \<or> size_bytes g \<le> chunkSizeLimit p \<longrightarrow> length part = 1"
    and q: "planned q = planned p @ part" "acc_wf q" "chunkSizeLimit q = chunkSizeLimit p"
      "unat (remainingInputBytes q) + unat (size_bytes g) = unat (remainingInputBytes p)"
      "unat (nextStreamId q) = unat (nextStreamId p) + field_count (seg_type g)"
      "acc_slices (acc q) \<noteq> [] \<longrightarrow>
          unat (startStreamId (acc q)) + field_total (acc_slices (acc q)) = unat (nextStreamId q)"
  shows "planner_wf input (done @ [g]) q"
proof -
  obtain parts where P: "list_all2 (sliced (chunkSizeLimit p)) (segment_ids 0 done) parts"
    "concat parts = planned p"
    using wf by (auto simp: planner_wf_def)
  have ids: "unat (nextStreamId p) = sum_list (map (\<lambda>g. field_count (seg_type g)) done)"
    using wf by (simp add: planner_wf_def)
  have "sliced (chunkSizeLimit p) (g, unat (nextStreamId p)) part"
    using part by (simp add: sliced_def)
  then have "list_all2 (sliced (chunkSizeLimit q)) (segment_ids 0 (done @ [g])) (parts @ [part])"
    using P(1) q(3) ids by (simp add: list_all2_appendI)
  moreover have "concat (parts @ [part]) = planned q" using P(2) q(1) by simp
  ultimately show ?thesis
    using wf q unfolding planner_wf_def by (auto simp: add_ac intro!: exI [of _ "parts @ [part]"])
qed

lemma split_unit_nonzero: "sddl2_get_chunk_split_unit_size t = Inr n \<Longrightarrow> n \<noteq> 0"
  by (cases "type_kind t")
    (auto simp: sddl2_get_chunk_split_unit_size_def SDDL2_kind_size_def split: option.splits if_splits)

lemma max_slice:
  assumes "e \<noteq> 0" "\<not> l < (e :: u64)"
  shows "l div e * e \<noteq> 0" "l div e * e \<le> l"
proof -
  have e: "0 < unat e" "unat e \<le> unat l"
    using assms unat_gt_0 [of e] by (simp_all add: word_less_nat_alt not_less)
  have "unat l div unat e * unat e < 18446744073709551616"
    using unat_lt2p64 [of l] by (rule le_less_trans [rotated]) simp
  then have u: "unat (l div e * e) = unat l div unat e * unat e"
    using le_less_trans [OF div_le_dividend unat_lt2p64 [of l], of "unat e"]
    by (simp add: unat_word_ariths)
  then have "unat (l div e * e) \<noteq> 0" using e by (simp add: div_greater_zero_iff)
  then show "l div e * e \<noteq> 0" by (metis unat_0)
  show "l div e * e \<le> l" using u by (simp add: word_le_nat_alt)
qed

lemma word_add_le:
  assumes "b \<le> l" "n \<le> l - (b :: u64)"
  shows "b + n \<le> l"
proof -
  have "unat b + unat n \<le> unat l" using assms by (simp add: word_le_nat_alt unat_sub)
  then have "unat (b + n) = unat b + unat n"
    using unat_add_no_wrap64 [of b n] unat_lt2p64 [of l] by linarith
  then show ?thesis using \<open>unat b + unat n \<le> unat l\<close> by (simp add: word_le_nat_alt)
qed

text \<open>After the test of \<open>would_exceed_chunk\<close>, a segment within the limit fits in the chunk.\<close>

lemma fits:
  assumes "(if would_exceed_chunk p n then sddl2_flush_chunk_segments process p else Inr p) = Inr q"
    "acc_wf p" "chunkSizeLimit p = SIZE_MAX \<or> n \<le> chunkSizeLimit p"
    "acc_slices (acc p) \<noteq> [] \<longrightarrow>
      unat (startStreamId (acc p)) + field_total (acc_slices (acc p)) = unat i"
  shows "acc_wf q \<and> planned q = planned p \<and> chunkSizeLimit q = chunkSizeLimit p
    \<and> nextStreamId q = nextStreamId p \<and> remainingInputBytes q = remainingInputBytes p
    \<and> (acc_slices (acc q) \<noteq> [] \<longrightarrow>
        unat (startStreamId (acc q)) + field_total (acc_slices (acc q)) = unat i)
    \<and> (chunkSizeLimit q = SIZE_MAX \<or> acc_bytes (acc q) + n \<le> chunkSizeLimit q)"
proof -
  have empty: "acc_bytes (acc r) = 0" if "acc_wf r" "acc_slices (acc r) = []" for r
    using that by (simp add: acc_wf_def unat_eq_0)
  show ?thesis
  proof (cases "would_exceed_chunk p n")
    case True
    then have f: "sddl2_flush_chunk_segments process p = Inr q" using assms(1) by simp
    note F = flush [OF f assms(2)]
    show ?thesis using F empty [OF F(1,3)] assms(3) by simp
  next
    case False
    then have q: "q = p" using assms(1) by simp
    have "chunkSizeLimit p = SIZE_MAX \<or> acc_bytes (acc p) + n \<le> chunkSizeLimit p"
    proof (cases "acc_slices (acc p) = []")
      case True
      then show ?thesis using empty [OF assms(2)] assms(3) by simp
    next
      case ne: False
      then show ?thesis
        using False word_add_le [of "acc_bytes (acc p)" "chunkSizeLimit p" n]
        by (auto simp: would_exceed_chunk_def linorder_not_le linorder_not_less less_imp_le)
    qed
    then show ?thesis using q assms by simp
  qed
qed

lemma plan_segment_wf:
  assumes plan: "sddl2_plan_segment_chunk process g p = Inr q" and wf: "planner_wf input done p"
  shows "planner_wf input (done @ [g]) q" "chunkSizeLimit q = chunkSizeLimit p"
proof -
  let ?p1 = "p\<lparr>remainingInputBytes := remainingInputBytes p - size_bytes g\<rparr>"
  have rem: "\<not> remainingInputBytes p < size_bytes g"
    using plan by (auto simp: sddl2_plan_segment_chunk_def split: if_splits)
  then have ur: "unat (remainingInputBytes p - size_bytes g) + unat (size_bytes g)
      = unat (remainingInputBytes p)"
    by (simp add: unat_sub word_le_nat_alt word_less_nat_alt)
  obtain i p2 where r: "sddl2_reserve_segment_stream_id (seg_type g) ?p1 = Inr (i, p2)"
    using plan rem by (auto simp: sddl2_plan_segment_chunk_def split: if_splits)
  note R = reserve [OF r]
  have p2: "acc p2 = acc p" "emitted p2 = emitted p" "chunkSizeLimit p2 = chunkSizeLimit p"
    "remainingInputBytes p2 = remainingInputBytes p - size_bytes g"
    by (subst R(1), simp)+
  have w2: "acc_wf p2" "planned p2 = planned p"
  proof -
    have "acc_wf p" using wf by (simp add: planner_wf_def)
    then show "acc_wf p2" using p2 by (simp add: acc_wf_def)
    show "planned p2 = planned p" using p2 by (simp add: planned_def)
  qed
  have st: "acc_slices (acc p2) \<noteq> [] \<longrightarrow>
      unat (startStreamId (acc p2)) + field_total (acc_slices (acc p2)) = unat i"
    using wf p2(1) R(2) by (simp add: planner_wf_def)
  have i: "i = nextStreamId p" using R(2) by simp
  have nx: "unat (nextStreamId p2) = unat (nextStreamId p) + field_count (seg_type g)"
    using R(3) by simp
  have nmax: "unat i + field_count (seg_type g) \<le> INT_MAX" using R(4) nx i by simp
  have "planner_wf input (done @ [g]) q \<and> chunkSizeLimit q = chunkSizeLimit p"
  proof (cases "chunkSizeLimit p = SIZE_MAX \<or> size_bytes g \<le> chunkSizeLimit p")
    case small: True
    let ?fl = "if would_exceed_chunk p2 (size_bytes g) then sddl2_flush_chunk_segments process p2
      else Inr p2"
    obtain p3 a where p3: "?fl = Inr p3" and q: "q = p3\<lparr>acc := a\<rparr>"
      and a: "sddl2_append_chunk_replay_slice (acc p3) i (seg_type g) (size_bytes g) = Inr a"
      using plan rem r small p2(3)
      by (auto simp: sddl2_plan_segment_chunk_def split: if_splits)
    have w3: "acc_wf p3" "planned p3 = planned p" "chunkSizeLimit p3 = chunkSizeLimit p"
      "nextStreamId p3 = nextStreamId p2" "remainingInputBytes p3 = remainingInputBytes p2"
      "acc_slices (acc p3) \<noteq> [] \<longrightarrow>
        unat (startStreamId (acc p3)) + field_total (acc_slices (acc p3)) = unat i"
      "chunkSizeLimit p3 = SIZE_MAX \<or> acc_bytes (acc p3) + size_bytes g \<le> chunkSizeLimit p3"
      using fits [OF p3 w2(1) _ st] small p2(3) w2(2) by auto
    note A = append_planned [OF a w3(1,7,6) nmax] and S = append_slice [OF a]
    have "planner_wf input (done @ [g]) q"
      using A S w3 p2 nx ur i q
      by (intro planner_wf_snoc [OF wf, of "[(\<lparr>rs_size_bytes = size_bytes g, rs_type = seg_type g\<rparr>, unat i)]"])
        auto
    then show ?thesis using q w3(3) by simp
  next
    case large: False
    obtain p3 where p3: "sddl2_flush_chunk_segments process p2 = Inr p3"
      and q: "sddl2_plan_split_segment_chunks process g i p3 = Inr q"
      using plan rem r large p2(3)
      by (auto simp: sddl2_plan_segment_chunk_def split: if_splits)
    note F = flush [OF p3 w2(1)]
    obtain e where e: "sddl2_get_chunk_split_unit_size (seg_type g) = Inr e"
      and le: "\<not> chunkSizeLimit p3 < e"
      and L: "split_loop process (seg_type g) i (chunkSizeLimit p3 div e * e) (size_bytes g) p3 = Inr q"
      using q by (auto simp: sddl2_plan_split_segment_chunks_def Let_def split: if_splits)
    note mx = max_slice [OF split_unit_nonzero [OF e] le]
    have "size_bytes g \<noteq> 0" using large by auto
    from split_loop_planned [OF L F(1) F(3) this mx(1) _ nmax] mx(2)
    obtain part where "part \<noteq> []" "\<forall>(r, j) \<in> set part. rs_type r = seg_type g \<and> j = unat i"
      "slice_bytes (map fst part) = unat (size_bytes g)" "planned q = planned p3 @ part"
      "acc_wf q" "startStreamId (acc q) = i" "field_total (acc_slices (acc q)) = field_count (seg_type g)"
      "chunkSizeLimit q = chunkSizeLimit p3" "nextStreamId q = nextStreamId p3"
      "remainingInputBytes q = remainingInputBytes p3"
      by blast
    then show ?thesis
      using planner_wf_snoc [OF wf, of part g q] large F w2 p2 nx ur i by auto
  qed
  then show "planner_wf input (done @ [g]) q" "chunkSizeLimit q = chunkSizeLimit p" by simp_all
qed

lemma plan_loop_wf:
  assumes "plan_loop process gs p = Inr q" "planner_wf input done p"
  shows "planner_wf input (done @ gs) q" "chunkSizeLimit q = chunkSizeLimit p"
proof -
  have "planner_wf input (done @ gs) q \<and> chunkSizeLimit q = chunkSizeLimit p"
    using assms
  proof (induction gs arbitrary: p "done")
    case (Cons g gs)
    then obtain p1 where p1: "sddl2_plan_segment_chunk process g p = Inr p1"
      "plan_loop process gs p1 = Inr q"
      by auto
    note P = plan_segment_wf [OF p1(1) Cons.prems(2)]
    from Cons.IH [OF p1(2) P(1)] P(2) show ?case by simp
  qed simp
  then show "planner_wf input (done @ gs) q" "chunkSizeLimit q = chunkSizeLimit p" by simp_all
qed

lemma planner_wf_init: "planner_wf input [] (sddl2_init_chunk_planner input limit n)"
  by (simp add: planner_wf_def sddl2_init_chunk_planner_def acc_wf_def planned_def)

lemma plan_covers:
  assumes "sddl2_plan_segment_chunks process scratch segs input limit = Inr chunks" "segs \<noteq> []"
  shows "sum_list (map (\<lambda>g. unat (size_bytes g)) segs) = unat input
    \<and> sum_list (map (\<lambda>c. unat (chunk_bytes c)) chunks) = unat input
    \<and> list_all (chunk_wf limit) chunks
    \<and> (\<exists>parts. list_all2 (sliced limit) (segment_ids 0 segs) parts
         \<and> concat parts = concat (map chunk_ids chunks))"
proof -
  let ?p0 = "sddl2_init_chunk_planner input limit (length segs)"
  obtain p q where p: "plan_loop process segs ?p0 = Inr p" "remainingInputBytes p = 0"
    and q: "sddl2_flush_chunk_segments process p = Inr q" "chunks = emitted q"
    using assms by (auto simp: sddl2_plan_segment_chunks_def split: if_splits)
  have wf: "planner_wf input segs p" and lim: "chunkSizeLimit p = limit"
    using plan_loop_wf [OF p(1) planner_wf_init]
    by (simp_all add: sddl2_init_chunk_planner_def)
  have aw: "acc_wf p" using wf by (simp add: planner_wf_def)
  note F = flush [OF q(1) aw]
  have pl: "planned p = concat (map chunk_ids chunks)"
    using F(2,3) q(2) by (simp add: planned_def)
  obtain parts where parts: "list_all2 (sliced limit) (segment_ids 0 segs) parts"
    "concat parts = concat (map chunk_ids chunks)"
    using wf lim pl by (auto simp: planner_wf_def)
  have cw: "list_all (chunk_wf limit) chunks"
    using F(1,4) lim q(2) by (simp add: acc_wf_def)
  have fst_ids: "map fst (slice_ids i rs) = rs" for i rs
    by (induction rs arbitrary: i) simp_all
  have "slice_bytes (map fst (chunk_ids c)) = unat (chunk_bytes c)" if "chunk_wf limit c" for c
    using that by (auto simp: chunk_wf_def chunk_ids_def fst_ids split: sddl2_chunk.splits)
  then have cs: "slice_bytes (map fst (concat (map chunk_ids chunks)))
      = sum_list (map (\<lambda>c. unat (chunk_bytes c)) chunks)"
    using cw by (induction chunks) simp_all
  have "slice_bytes (map fst (concat parts)) = sum_list (map (\<lambda>(g, i). unat (size_bytes g)) gs)"
    if "list_all2 (sliced limit) gs parts" for gs
    using that by (induction rule: list_all2_induct) (auto simp: sliced_def)
  moreover have "map (\<lambda>(g, i). unat (size_bytes g)) (segment_ids i segs)
      = map (\<lambda>g. unat (size_bytes g)) segs" for i
    by (induction segs arbitrary: i) simp_all
  ultimately have "sum_list (map (\<lambda>c. unat (chunk_bytes c)) chunks)
      = sum_list (map (\<lambda>g. unat (size_bytes g)) segs)"
    using parts cs by metis
  moreover have "sum_list (map (\<lambda>g. unat (size_bytes g)) segs) = unat input"
    using wf p(2) by (simp add: planner_wf_def)
  ultimately show ?thesis using cw parts by auto
qed

text \<open>
  C13: a successful plan covers the input. The sizes of the segments add up, without wrapping, to
  the size of the input; the chunks are cut from it in order, each the exact sum of its
  slices and none larger than the limit; read together, the slices are the segments in
  order, each segment one slice unless it alone exceeds the limit; and the stream id the
  replay gives a slice, counting fields from the chunk's first id, is the one the planner
  reserved for its segment.
\<close>

theorem plan_covers_input:
  assumes "sddl2_plan_segment_chunks process scratch segs input limit = Inr chunks" "segs \<noteq> []"
  shows "sum_list (map (\<lambda>g. unat (size_bytes g)) segs) = unat input
    \<and> sum_list (map (\<lambda>c. unat (chunk_bytes c)) chunks) = unat input
    \<and> list_all (chunk_wf limit) chunks
    \<and> (\<exists>parts. list_all2 (sliced limit) (segment_ids 0 segs) parts
         \<and> concat parts = concat (map chunk_ids chunks))"
  using assms by (rule plan_covers)

lemmas plan_defs = sddl2_plan_segment_chunks_def sddl2_init_chunk_planner_def
  sddl2_plan_segment_chunk_def sddl2_reserve_segment_stream_id_def would_exceed_chunk_def
  sddl2_flush_chunk_segments_def sddl2_process_segment_chunk_def
  sddl2_append_chunk_replay_slice_def sddl2_plan_split_segment_chunks_def
  sddl2_get_chunk_split_unit_size_def SDDL2_kind_size_def Let_def

theorem plan_covers_input_witness:
  "\<exists>chunks. sddl2_plan_segment_chunks (\<lambda>_ _. Inr ()) (\<lambda>_. True)
     [\<lparr>seg_tag = 0, start_pos = 0, size_bytes = 5, seg_type = bytes_type\<rparr>] 5 2 = Inr chunks
     \<and> sum_list (map (\<lambda>c. unat (chunk_bytes c)) chunks) = 5"
proof -
  let ?segs = "[\<lparr>seg_tag = 0, start_pos = 0, size_bytes = 5, seg_type = bytes_type\<rparr>]"
  obtain chunks where c: "sddl2_plan_segment_chunks (\<lambda>_ _. Inr ()) (\<lambda>_. True) ?segs 5 2 = Inr chunks"
    by (simp add: plan_defs bytes_type_def split_loop.simps)
  from plan_covers_input [OF c] c show ?thesis by auto
qed

section \<open>Field counting\<close>

text \<open>The counts, the sizes and the kinds of the fields agree.\<close>

lemma count_flatten_sizes:
  "sddl2_try_count_primitive_fields t = Some n \<Longrightarrow> sddl2_flatten_field_sizes t = Inr szs
     \<Longrightarrow> length szs = unat n"
  "try_count_members tot ms = Some n \<Longrightarrow> flatten_sizes_members ms = Inr szs
     \<Longrightarrow> unat tot + length szs = unat n"
proof (induction t and tot ms arbitrary: n szs and n szs
    rule: sddl2_try_count_primitive_fields_try_count_members.induct)
  case (4 tot m ms)
  then obtain k xs ys where k: "sddl2_try_count_primitive_fields m = Some k"
    "\<not> SIZE_MAX - tot < k" "try_count_members (tot + k) ms = Some n"
    and xs: "sddl2_flatten_field_sizes m = Inr xs" "flatten_sizes_members ms = Inr ys" "szs = xs @ ys"
    by (auto split: option.splits if_splits)
  have "unat (tot + k) = unat tot + unat k"
    using unat_add_checked [OF k(2)] by (simp add: add.commute)
  with "4.IH"(1) [OF k(1) xs(1)] "4.IH"(2) [OF k(1,2,3) xs(2)] xs(3) show ?case by simp
qed (auto split: if_splits vmres.splits)

lemma count_flatten_types:
  "sddl2_try_count_primitive_fields t = Some n \<Longrightarrow>
     \<exists>ks. sddl2_flatten_field_types t = Inr ks \<and> length ks = unat n"
  "try_count_members tot ms = Some n \<Longrightarrow>
     \<exists>ks. flatten_types_members ms = Inr ks \<and> unat tot + length ks = unat n"
proof (induction t and tot ms arbitrary: n and n
    rule: sddl2_try_count_primitive_fields_try_count_members.induct)
  case (4 tot m ms)
  then obtain k where k: "sddl2_try_count_primitive_fields m = Some k"
    "\<not> SIZE_MAX - tot < k" "try_count_members (tot + k) ms = Some n"
    by (auto split: option.splits if_splits)
  have "unat (tot + k) = unat tot + unat k"
    using unat_add_checked [OF k(2)] by (simp add: add.commute)
  with "4.IH"(1) [OF k(1)] "4.IH"(2) [OF k(1,2,3)] show ?case by fastforce
qed (auto split: if_splits)

section \<open>Stream ids in the replay\<close>

lemma set_tag:
  assumes "sddl2_set_next_stream_tag run i = Inr (tag, j)"
  shows "tag = i" "unat i \<le> INT_MAX" "unat j = Suc (unat i)"
proof -
  have b: "tag = i" "j = i + 1" "unat i \<le> INT_MAX"
    using assms by (auto simp: sddl2_set_next_stream_tag_def word_less_nat_alt split: if_splits)
  then show "tag = i" "unat i \<le> INT_MAX" by simp_all
  show "unat j = Suc (unat i)" using b by (simp add: unat_word_ariths)
qed

text \<open>Tags of a list of streams, increasing and in an interval.\<close>

definition tags_in :: "nat \<Rightarrow> nat \<Rightarrow> routed_stream list \<Rightarrow> bool" where
  "tags_in lo hi streams \<longleftrightarrow> sorted_wrt (<) (map (\<lambda>s. unat (stream_tag s)) streams)
     \<and> (\<forall>s \<in> set streams. lo \<le> unat (stream_tag s) \<and> unat (stream_tag s) < hi)"

lemma route_fields_tags:
  assumes "route_fields run dest szs ks i = Inr (streams, j)" "length szs = length ks"
    "unat i + length szs \<le> INT_MAX"
  shows "unat j = unat i + length szs \<and> tags_in (unat i) (unat i + length szs) streams"
  using assms
proof (induction szs arbitrary: ks i streams j)
  case Nil
  then show ?case by (simp add: tags_in_def)
next
  case (Cons sz szs)
  then obtain k ks' where ks: "ks = k # ks'" by (cases ks) auto
  show ?case
  proof (cases "sz = 0")
    case True
    have "unat (i + 1) = Suc (unat i)" using Cons.prems(3) by (simp add: unat_word_ariths)
    with Cons.IH [of ks' "i + 1" streams j] Cons.prems True ks show ?thesis
      by (auto simp: tags_in_def)
  next
    case False
    then obtain tag i' rest where t: "sddl2_set_next_stream_tag run i = Inr (tag, i')"
      and r: "route_fields run dest szs ks' i' = Inr (rest, j)"
      and s: "streams = \<lparr>stream_tag = tag, stream_kind = k, stream_width = Some sz\<rparr> # rest"
      using Cons.prems(1) ks by (auto split: prod.splits if_splits)
    note T = set_tag [OF t]
    have "unat j = unat i' + length szs \<and> tags_in (unat i') (unat i' + length szs) rest"
      using Cons.IH [OF r] T Cons.prems ks by simp
    then show ?thesis using T s by (auto simp: tags_in_def)
  qed
qed

lemma field_count_primitive: "type_kind t \<noteq> SDDL2_TYPE_STRUCTURE \<Longrightarrow> field_count t = 1"
  by (cases t rule: sddl2_try_count_primitive_fields.cases) (auto simp: field_count_def)

lemma process_segment_tags:
  assumes "sddl2_process_segment run scratch dest t i = Inr (streams, j)"
    "unat i + field_count t \<le> INT_MAX"
  shows "unat j = unat i + field_count t \<and> tags_in (unat i) (unat i + field_count t) streams"
proof (cases "type_kind t = SDDL2_TYPE_STRUCTURE")
  case True
  with assms(1) obtain szs ks n where n: "sddl2_try_count_primitive_fields t = Some n"
    and szs: "sddl2_flatten_field_sizes t = Inr szs"
    and len: "length szs = length ks" and r: "route_fields run dest szs ks i = Inr (streams, j)"
    by (auto simp: sddl2_process_segment_def sddl2_apply_structure_split_def
        sddl2_extract_flat_field_sizes_def sddl2_count_primitive_fields_def
        split: if_splits option.splits)
  have "length szs = field_count t"
    using count_flatten_sizes(1) [OF n szs] n by (simp add: field_count_def)
  with route_fields_tags [OF r len] assms(2) show ?thesis by simp
next
  case False
  then obtain tag where t: "sddl2_set_next_stream_tag run i = Inr (tag, j)"
    and s: "streams = [\<lparr>stream_tag = tag, stream_kind = type_kind t, stream_width = None\<rparr>]"
    using assms(1) by (auto simp: sddl2_process_segment_def split: if_splits)
  with set_tag [OF t] field_count_primitive [OF False] show ?thesis by (simp add: tags_in_def)
qed

lemma replay_loop_tags:
  assumes "replay_loop run scratch dest rs i = Inr outs" "unat i + field_total rs \<le> INT_MAX"
  shows "list_all2 (\<lambda>(r, k) streams. (rs_size_bytes r = 0 \<longrightarrow> streams = [])
      \<and> tags_in k (k + field_count (rs_type r)) streams) (slice_ids (unat i) rs) outs"
  using assms
proof (induction rs arbitrary: i outs)
  case (Cons r rs)
  show ?case
  proof (cases "rs_size_bytes r = 0")
    case True
    with Cons.prems(1) obtain n rest where n: "sddl2_try_count_primitive_fields (rs_type r) = Some n"
      and rest: "replay_loop run scratch dest rs (i + ucast n) = Inr rest" and o: "outs = [] # rest"
      by (auto simp: sddl2_count_primitive_fields_def split: option.splits)
    have fc: "field_count (rs_type r) = unat n" using n by (simp add: field_count_def)
    then have b: "unat i + unat n \<le> INT_MAX" using Cons.prems(2) by simp
    then have "unat (ucast n :: u32) = unat n"
      by (simp add: unsigned_ucast_eq take_bit_nat_eq_self)
    then have "unat (i + ucast n) = unat i + unat n" using b by (simp add: unat_word_ariths)
    with Cons.IH [OF rest] Cons.prems(2) o fc True show ?thesis by (simp add: tags_in_def)
  next
    case False
    with Cons.prems(1) obtain streams j rest where
      p: "sddl2_process_segment run scratch dest (rs_type r) i = Inr (streams, j)"
      and rest: "replay_loop run scratch dest rs j = Inr rest" and o: "outs = streams # rest"
      by (auto split: prod.splits)
    have "unat i + field_count (rs_type r) \<le> INT_MAX" using Cons.prems(2) by simp
    from process_segment_tags [OF p this] Cons.IH [OF rest] Cons.prems(2) o False
    show ?thesis by simp
  qed
qed simp

text \<open>
  C14: replaying a chunk tags streams with the ids that were reserved for their slice. Every
  stream routed for a slice has a tag in the slice's interval of ids, the tags of one slice
  increase, and an empty slice keeps its interval but routes nothing; so the streams of
  different segments never share a tag, in whichever chunk they are.
\<close>

theorem replay_stream_tags:
  assumes "sddl2_replay_segments run scratch dest start slices = Inr outs"
    "unat start + field_total slices \<le> INT_MAX"
  shows "list_all2 (\<lambda>(r, k) streams. (rs_size_bytes r = 0 \<longrightarrow> streams = [])
      \<and> sorted_wrt (<) (map (\<lambda>s. unat (stream_tag s)) streams)
      \<and> (\<forall>s \<in> set streams. k \<le> unat (stream_tag s)
           \<and> unat (stream_tag s) < k + field_count (rs_type r)))
    (slice_ids (unat start) slices) outs"
proof (cases "slices = []")
  case True
  then show ?thesis using assms by (auto simp: sddl2_replay_segments_def)
next
  case False
  then have "replay_loop run scratch dest slices start = Inr outs"
    using assms by (auto simp: sddl2_replay_segments_def split: if_splits)
  from replay_loop_tags [OF this assms(2)] show ?thesis unfolding tags_in_def .
qed

theorem replay_stream_tags_witness:
  "list_all2 (\<lambda>(r, k) streams. \<forall>s \<in> set streams. k \<le> unat (stream_tag s))
     (slice_ids (unat (7 :: u32)) [\<lparr>rs_size_bytes = 3, rs_type = bytes_type\<rparr>])
     [[\<lparr>stream_tag = 7, stream_kind = SDDL2_TYPE_BYTES, stream_width = None\<rparr>]]"
proof -
  let ?rs = "[\<lparr>rs_size_bytes = 3, rs_type = bytes_type\<rparr>]"
  let ?outs = "[[\<lparr>stream_tag = 7, stream_kind = SDDL2_TYPE_BYTES, stream_width = None\<rparr>]]"
  have r: "sddl2_replay_segments (\<lambda>_. Inr ()) (\<lambda>_. True) 0 7 ?rs = Inr ?outs"
    by (simp add: sddl2_replay_segments_def sddl2_process_segment_def bytes_type_def
        sddl2_set_next_stream_tag_def)
  have b: "unat (7 :: u32) + field_total ?rs \<le> INT_MAX"
    by (simp add: field_count_def bytes_type_def)
  show ?thesis by (rule list_all2_mono [OF replay_stream_tags [OF r b]]) auto
qed

definition nested_array_type :: SDDL2_Type where
  "nested_array_type = SDDL2_Type SDDL2_TYPE_STRUCTURE 1 (Some (SDDL2_Struct_data 1 7
     [SDDL2_Type SDDL2_TYPE_U8 1 None,
      SDDL2_Type SDDL2_TYPE_STRUCTURE 3 (Some (SDDL2_Struct_data 0 2
        [SDDL2_Type SDDL2_TYPE_U16LE 1 None]))]))"


end
