(* ===== verification/Codec_Stream.thy ===== *)
theory Codec_Stream
  imports Varint
begin

text \<open>
  What codecs exchange with the graph engine: typed data, the context of a call, and the
  contract of a lossless codec. A piece of data is its type, element width, content and, for
  strings, lengths (\<^verbatim>\<open>ZL_Data\<close> of \<^verbatim>\<open>common/stream.c\<close>). The engine is represented by what a
  codec asks of it: the format version, and whether creating a stream succeeds.
\<close>

section \<open>Typed data\<close>

datatype (plugins only: code) ZL_Type =
  ZL_Type_serial | ZL_Type_struct | ZL_Type_numeric | ZL_Type_string

record ZL_Data =
  data_type :: ZL_Type
  eltWidth :: nat
  data_bytes :: "byte list"
  stringLens :: "u32 list"

definition STREAM_validateTypeWidth :: "ZL_Type \<Rightarrow> nat \<Rightarrow> unit ZL_Result" where
  "STREAM_validateTypeWidth type width =
     (case type of
        ZL_Type_serial \<Rightarrow> if width \<noteq> 1 then Inl ZL_ErrorCode_streamParameter_invalid else Inr ()
      | ZL_Type_string \<Rightarrow> if width \<noteq> 1 then Inl ZL_ErrorCode_streamParameter_invalid else Inr ()
      | ZL_Type_struct \<Rightarrow> if width = 0 then Inl ZL_ErrorCode_streamParameter_invalid else Inr ()
      | ZL_Type_numeric \<Rightarrow>
          if \<not> (width = 1 \<or> width = 2 \<or> width = 4 \<or> width = 8)
          then Inl ZL_ErrorCode_streamParameter_invalid else Inr ())"

definition numElts :: "ZL_Data \<Rightarrow> nat" where
  "numElts d = (if data_type d = ZL_Type_string then length (stringLens d)
     else length (data_bytes d) div eltWidth d)"

text \<open>
  Data the engine hands to a codec: the width fits the type, the content is a whole number of
  elements, the string lengths add up to it, and the sizes fit the address space.
\<close>

definition wf_data :: "ZL_Data \<Rightarrow> bool" where
  "wf_data d \<longleftrightarrow> STREAM_validateTypeWidth (data_type d) (eltWidth d) = Inr ()
     \<and> eltWidth d dvd length (data_bytes d)
     \<and> length (data_bytes d) < 2 ^ 64 \<and> eltWidth d < 2 ^ 64
     \<and> (if data_type d = ZL_Type_string
        then sum_list (map unat (stringLens d)) = length (data_bytes d)
        else stringLens d = [])"

abbreviation numeric :: "nat \<Rightarrow> byte list \<Rightarrow> ZL_Data" where
  "numeric w bs \<equiv> \<lparr>data_type = ZL_Type_numeric, eltWidth = w, data_bytes = bs, stringLens = []\<rparr>"

abbreviation serial :: "byte list \<Rightarrow> ZL_Data" where
  "serial bs \<equiv> \<lparr>data_type = ZL_Type_serial, eltWidth = 1, data_bytes = bs, stringLens = []\<rparr>"

definition is_numeric :: "ZL_Data \<Rightarrow> bool" where
  "is_numeric d \<longleftrightarrow> data_type d = ZL_Type_numeric \<and> wf_data d"

lemma is_numericE:
  assumes "is_numeric d"
  obtains w bs where "d = numeric w bs" "ZL_isLegalIntegerWidth w" "w dvd length bs"
    "length bs < 2 ^ 64" "0 < w"
proof -
  have "ZL_isLegalIntegerWidth (eltWidth d)"
    using assms by (auto simp: is_numeric_def wf_data_def STREAM_validateTypeWidth_def
        ZL_isLegalIntegerWidth_def split: if_splits)
  moreover from this have "0 < eltWidth d" by (auto simp: ZL_isLegalIntegerWidth_def)
  ultimately show ?thesis
    using assms that [of "eltWidth d" "data_bytes d"] by (auto simp: is_numeric_def wf_data_def)
qed

lemma is_numeric_numeric:
  "is_numeric (numeric w bs) \<longleftrightarrow>
     ZL_isLegalIntegerWidth w \<and> w dvd length bs \<and> length bs < 2 ^ 64"
  by (auto simp: is_numeric_def wf_data_def STREAM_validateTypeWidth_def ZL_isLegalIntegerWidth_def)

lemma wf_numeric: "wf_data (numeric w bs) \<longleftrightarrow>
     ZL_isLegalIntegerWidth w \<and> w dvd length bs \<and> length bs < 2 ^ 64"
  using is_numeric_numeric by (simp add: is_numeric_def)

lemma numElts_numeric [simp]: "numElts (numeric w bs) = length bs div w"
  by (simp add: numElts_def)

lemma wf_serial [simp]: "wf_data (serial bs) \<longleftrightarrow> length bs < 2 ^ 64"
  by (simp add: wf_data_def STREAM_validateTypeWidth_def)

lemma numElts_serial [simp]: "numElts (serial bs) = length bs"
  by (simp add: numElts_def)

lemma legal_widthE:
  assumes "ZL_isLegalIntegerWidth w"
  obtains "w = 1" | "w = 2" | "w = 4" | "w = 8"
  using assms by (auto simp: ZL_isLegalIntegerWidth_def)

section \<open>Calls of the engine\<close>

text \<open>
  \<open>createTypedStream\<close> is \<^verbatim>\<open>ZL_Encoder_createTypedStream\<close> and \<^verbatim>\<open>ZL_Decoder_createTypedStream\<close>
  as codecs use them: no stream when the size overflows, the width is 0 or the memory is not
  there. \<open>ctx_alloc\<close> decides the last.
\<close>

record codec_ctx =
  formatVersion :: nat
  ctx_alloc :: "nat \<Rightarrow> bool"

definition createTypedStream :: "codec_ctx \<Rightarrow> nat \<Rightarrow> nat \<Rightarrow> unit ZL_Result" where
  "createTypedStream ctx eltsCapacity width =
     (if 2 ^ 64 \<le> eltsCapacity * width \<or> width = 0 \<or> \<not> ctx_alloc ctx (eltsCapacity * width)
      then Inl ZL_ErrorCode_allocation else Inr ())"

lemma createTypedStream_Inr [simp]:
  "createTypedStream ctx n w = Inr u \<longleftrightarrow> n * w < 2 ^ 64 \<and> 0 < w \<and> ctx_alloc ctx (n * w)"
  by (auto simp: createTypedStream_def)

definition big_ctx :: "nat \<Rightarrow> codec_ctx" where
  "big_ctx v = \<lparr>formatVersion = v, ctx_alloc = (\<lambda>_. True)\<rparr>"

lemma big_ctx_simps [simp]: "formatVersion (big_ctx v) = v" "ctx_alloc (big_ctx v) n"
  by (simp_all add: big_ctx_def)

section \<open>The contract of a codec\<close>

text \<open>
  \<open>enc\<close> is an encoder binding with its local parameters: the output streams and the codec
  header. \<open>dec\<close> is the matching decoder binding, which knows the header and the streams only.
  The result of either is \<^const>\<open>None\<close> where the C code would have no defined behaviour.
  \<open>accepts\<close> is what the typed input port guarantees. A decoder at the same format version that
  can allocate the result gives back the input, and the streams between them are well formed.
\<close>

locale lossless_codec =
  fixes enc :: "codec_ctx \<Rightarrow> 'p \<Rightarrow> ZL_Data \<Rightarrow> (ZL_Data list \<times> byte list) ZL_Result option"
    and dec :: "codec_ctx \<Rightarrow> byte list \<Rightarrow> ZL_Data list \<Rightarrow> ZL_Data ZL_Result option"
    and accepts :: "ZL_Data \<Rightarrow> bool"
  assumes lossless:
    "accepts d \<Longrightarrow> enc cctx p d = Some (Inr (outs, hdr)) \<Longrightarrow> formatVersion dctx = formatVersion cctx
     \<Longrightarrow> (\<And>n. ctx_alloc dctx n) \<Longrightarrow> dec dctx hdr outs = Some (Inr d)"
    and outputs_wf: "accepts d \<Longrightarrow> enc cctx p d = Some (Inr (outs, hdr)) \<Longrightarrow> list_all wf_data outs"
begin

lemma encoder_injective:
  assumes "accepts d" "accepts e" "enc cctx p d = Some (Inr out)" "enc cctx q e = Some (Inr out)"
  shows "d = e"
proof -
  obtain outs hdr where o: "out = (outs, hdr)" by force
  let ?dctx = "\<lparr>formatVersion = formatVersion cctx, ctx_alloc = (\<lambda>_. True)\<rparr>"
  have "dec ?dctx hdr outs = Some (Inr d)" "dec ?dctx hdr outs = Some (Inr e)"
    using assms o by (auto intro: lossless)
  then show ?thesis by simp
qed

end

end
