(* ===== verification/Codec_Delta.thy ===== *)
theory Codec_Delta
  imports Codec_Stream
begin

text \<open>
  The delta codec (\<^verbatim>\<open>codecs/delta\<close>): the scalar kernels for the four widths, the SSSE3 decoders
  that compute prefix sums lane-wise, and the bindings with their two wire variants. Arrays
  are lists; a kernel for a width is the same loop at that word type.
\<close>

section \<open>Kernels\<close>

definition delta_loop :: "'a::len word list \<Rightarrow> nat \<Rightarrow> 'a word list" where
  "delta_loop src nelts = map (\<lambda>n. src ! n - src ! (n - 1)) [1..<nelts]"

definition ZS_deltaEncode8 :: "u8 list \<Rightarrow> nat \<Rightarrow> u8 \<times> u8 list" where
  "ZS_deltaEncode8 src nelts = (src ! 0, delta_loop src nelts)"
definition ZS_deltaEncode16 :: "u16 list \<Rightarrow> nat \<Rightarrow> u16 \<times> u16 list" where
  "ZS_deltaEncode16 src nelts = (src ! 0, delta_loop src nelts)"
definition ZS_deltaEncode32 :: "u32 list \<Rightarrow> nat \<Rightarrow> u32 \<times> u32 list" where
  "ZS_deltaEncode32 src nelts = (src ! 0, delta_loop src nelts)"
definition ZS_deltaEncode64 :: "u64 list \<Rightarrow> nat \<Rightarrow> u64 \<times> u64 list" where
  "ZS_deltaEncode64 src nelts = (src ! 0, delta_loop src nelts)"

text \<open>The bytes written at \<^verbatim>\<open>first\<close> and at \<^verbatim>\<open>deltas\<close>.\<close>

definition ZS_deltaEncode :: "byte list \<Rightarrow> nat \<Rightarrow> nat \<Rightarrow> byte list \<times> byte list" where
  "ZS_deltaEncode src nbElts width =
     (if nbElts = 0 then ([], [])
      else if width = 1 then
        let (first, deltas) = ZS_deltaEncode8 (read_elts 1 src) nbElts
        in (write_le 1 first, write_elts 1 deltas)
      else if width = 2 then
        let (first, deltas) = ZS_deltaEncode16 (read_elts 2 src) nbElts
        in (write_le 2 first, write_elts 2 deltas)
      else if width = 4 then
        let (first, deltas) = ZS_deltaEncode32 (read_elts 4 src) nbElts
        in (write_le 4 first, write_elts 4 deltas)
      else if width = 8 then
        let (first, deltas) = ZS_deltaEncode64 (read_elts 8 src) nbElts
        in (write_le 8 first, write_elts 8 deltas)
      else ([], []))"

primrec undelta_loop :: "'a::len word \<Rightarrow> 'a word list \<Rightarrow> 'a word list" where
  "undelta_loop prev [] = []"
| "undelta_loop prev (d # ds) = (prev + d) # undelta_loop (prev + d) ds"

text \<open>
  The SSSE3 helpers, a vector as the list of its lanes: \<^verbatim>\<open>_mm_slli_si128\<close> by a whole number of
  lanes moves them up and fills with 0, \<^verbatim>\<open>_mm_shuffle_epi8\<close> with a repeated mask broadcasts the
  last lane. The result is what is stored from element 1 on, the last value, and the deltas
  the scalar loop still has to do.
\<close>

definition mm_add :: "'a::len word list \<Rightarrow> 'a word list \<Rightarrow> 'a word list" where
  "mm_add a b = map2 (+) a b"

definition mm_slli_si128 :: "'a::len word list \<Rightarrow> nat \<Rightarrow> 'a word list" where
  "mm_slli_si128 a bytes =
     (let k = bytes div (LENGTH('a) div 8) in replicate k 0 @ take (length a - k) a)"

definition mm_broadcast_last :: "'a::len word list \<Rightarrow> 'a word list" where
  "mm_broadcast_last a = replicate (length a) (last a)"

fun ssse3_loop ::
  "('a::len word list \<Rightarrow> 'a word list) \<Rightarrow> nat \<Rightarrow> 'a word list \<Rightarrow> 'a word list
     \<Rightarrow> 'a word list \<times> 'a word list" where
  "ssse3_loop scan kEltsPerIter prev deltas =
     (if kEltsPerIter = 0 \<or> length deltas < kEltsPerIter then ([], deltas)
      else let values = scan (take kEltsPerIter deltas);
               (stored, rest) = ssse3_loop scan kEltsPerIter
                 (mm_add prev (mm_broadcast_last values)) (drop kEltsPerIter deltas)
           in (mm_add values prev @ stored, rest))"

declare ssse3_loop.simps [simp del]

definition scan8 :: "u8 list \<Rightarrow> u8 list" where
  "scan8 values =
     (let values = mm_add values (mm_slli_si128 values 8);
          values = mm_add values (mm_slli_si128 values 4);
          values = mm_add values (mm_slli_si128 values 2)
      in mm_add values (mm_slli_si128 values 1))"

definition scan16 :: "u16 list \<Rightarrow> u16 list" where
  "scan16 values =
     (let values = mm_add values (mm_slli_si128 values 8);
          values = mm_add values (mm_slli_si128 values 4)
      in mm_add values (mm_slli_si128 values 2))"

definition scan32 :: "u32 list \<Rightarrow> u32 list" where
  "scan32 values =
     (let values = mm_add values (mm_slli_si128 values 8)
      in mm_add values (mm_slli_si128 values 4))"

definition ZS_deltaDecode8_ssse3 :: "u8 \<Rightarrow> u8 list \<Rightarrow> u8 list \<times> u8 list" where
  "ZS_deltaDecode8_ssse3 dst0 deltas = ssse3_loop scan8 16 (replicate 16 dst0) deltas"
definition ZS_deltaDecode16_ssse3 :: "u16 \<Rightarrow> u16 list \<Rightarrow> u16 list \<times> u16 list" where
  "ZS_deltaDecode16_ssse3 dst0 deltas = ssse3_loop scan16 8 (replicate 8 dst0) deltas"
definition ZS_deltaDecode32_ssse3 :: "u32 \<Rightarrow> u32 list \<Rightarrow> u32 list \<times> u32 list" where
  "ZS_deltaDecode32_ssse3 dst0 deltas = ssse3_loop scan32 4 (replicate 4 dst0) deltas"

text \<open>
  The decoders with the vector helper compiled in (\<open>simd\<close>) or not; \<open>nbElts - 1\<close> deltas are
  read.
\<close>

definition finish_decode ::
  "'a::len word \<Rightarrow> 'a word list \<times> 'a word list \<Rightarrow> 'a word list" where
  "finish_decode first r =
     (let dst = first # fst r in dst @ undelta_loop (last dst) (snd r))"

definition ZS_deltaDecode8 :: "bool \<Rightarrow> u8 \<Rightarrow> u8 list \<Rightarrow> nat \<Rightarrow> u8 list" where
  "ZS_deltaDecode8 simd first deltas nbElts =
     (if nbElts = 0 then []
      else let ds = take (nbElts - 1) deltas
           in finish_decode first (if simd then ZS_deltaDecode8_ssse3 first ds else ([], ds)))"
definition ZS_deltaDecode16 :: "bool \<Rightarrow> u16 \<Rightarrow> u16 list \<Rightarrow> nat \<Rightarrow> u16 list" where
  "ZS_deltaDecode16 simd first deltas nbElts =
     (if nbElts = 0 then []
      else let ds = take (nbElts - 1) deltas
           in finish_decode first (if simd then ZS_deltaDecode16_ssse3 first ds else ([], ds)))"
definition ZS_deltaDecode32 :: "bool \<Rightarrow> u32 \<Rightarrow> u32 list \<Rightarrow> nat \<Rightarrow> u32 list" where
  "ZS_deltaDecode32 simd first deltas nbElts =
     (if nbElts = 0 then []
      else let ds = take (nbElts - 1) deltas
           in finish_decode first (if simd then ZS_deltaDecode32_ssse3 first ds else ([], ds)))"
definition ZS_deltaDecode64 :: "u64 \<Rightarrow> u64 list \<Rightarrow> nat \<Rightarrow> u64 list" where
  "ZS_deltaDecode64 first deltas nbElts =
     (if nbElts = 0 then [] else first # undelta_loop first (take (nbElts - 1) deltas))"

definition ZS_deltaDecode :: "bool \<Rightarrow> byte list \<Rightarrow> byte list \<Rightarrow> nat \<Rightarrow> nat \<Rightarrow> byte list" where
  "ZS_deltaDecode simd first deltas nbElts width =
     (if nbElts = 0 then []
      else if width = 1 then
        write_elts 1 (ZS_deltaDecode8 simd (ZL_read8 first) (read_elts 1 deltas) nbElts)
      else if width = 2 then
        write_elts 2 (ZS_deltaDecode16 simd (ZL_read16 first) (read_elts 2 deltas) nbElts)
      else if width = 4 then
        write_elts 4 (ZS_deltaDecode32 simd (ZL_read32 first) (read_elts 4 deltas) nbElts)
      else if width = 8 then
        write_elts 8 (ZS_deltaDecode64 (ZL_read64 first) (read_elts 8 deltas) nbElts)
      else [])"

section \<open>Bindings\<close>

definition EI_delta_int ::
  "codec_ctx \<Rightarrow> unit \<Rightarrow> ZL_Data \<Rightarrow> (ZL_Data list \<times> byte list) ZL_Result" where
  "EI_delta_int ctx p d =
     (let intWidth = eltWidth d; nbInts = numElts d; src = data_bytes d in
      res_bind (createTypedStream ctx nbInts intWidth) (\<lambda>_.
      if nbInts = 0 then Inr ([numeric intWidth []], [])
      else if formatVersion ctx < 13 then
        let (first, deltas) = ZS_deltaEncode src nbInts intWidth
        in Inr ([numeric intWidth (first @ deltas)], [])
      else
        let (header, deltas) = ZS_deltaEncode src nbInts intWidth
        in Inr ([numeric intWidth deltas], header)))"

definition DI_delta_int ::
  "bool \<Rightarrow> codec_ctx \<Rightarrow> byte list \<Rightarrow> ZL_Data list \<Rightarrow> ZL_Data ZL_Result" where
  "DI_delta_int simd ctx header ins =
     (let d = hd ins; intWidth = eltWidth d; nbDeltas = numElts d in
      res_bind
        (if formatVersion ctx < 13 then
           Inr (if 0 < nbDeltas then (data_bytes d, drop intWidth (data_bytes d), nbDeltas)
                else ([], [], 0))
         else if header \<noteq> [] then
           (if length header \<noteq> intWidth then Inl ZL_ErrorCode_corruption
            else Inr (header, data_bytes d, nbDeltas + 1))
         else if nbDeltas \<noteq> 0 then Inl ZL_ErrorCode_corruption
         else Inr ([], [], 0))
        (\<lambda>(first, deltas, nbInts).
           res_bind (createTypedStream ctx nbInts intWidth) (\<lambda>_.
           Inr (numeric intWidth (ZS_deltaDecode simd first deltas nbInts intWidth)))))"

section \<open>The vector decoders compute what the scalar loop computes\<close>

lemma length_undelta_loop [simp]: "length (undelta_loop p ds) = length ds"
  by (induction ds arbitrary: p) simp_all

lemma undelta_loop_append:
  "undelta_loop p (ds @ es) = undelta_loop p ds @ undelta_loop (p + sum_list ds) es"
  by (induction ds arbitrary: p) (simp_all add: add.assoc)

lemma last_undelta_loop: "last (p # undelta_loop p ds) = p + sum_list ds"
  by (induction ds arbitrary: p) (simp_all add: add.assoc)

definition scans :: "('a::len word list \<Rightarrow> 'a word list) \<Rightarrow> nat \<Rightarrow> bool" where
  "scans scan k \<longleftrightarrow> 0 < k \<and> (\<forall>ds. length ds = k \<longrightarrow> scan ds = undelta_loop 0 ds)"

lemma mm_add_replicate: "mm_add (undelta_loop q ds) (replicate (length ds) p) = undelta_loop (q + p) ds"
proof (induction ds arbitrary: q)
  case (Cons d ds)
  then show ?case by (simp add: mm_add_def) (simp add: ac_simps)
qed (simp add: mm_add_def)

lemma ssse3_loop_scalar:
  assumes "scans scan k"
  shows "ssse3_loop scan k (replicate k p) ds = (stored, rest)
    \<Longrightarrow> undelta_loop p ds = stored @ undelta_loop (last (p # stored)) rest"
proof (induction "length ds" arbitrary: ds p stored rest rule: less_induct)
  case less
  show ?case
  proof (cases "length ds < k")
    case True
    with less.prems show ?thesis by (simp add: ssse3_loop.simps)
  next
    case False
    let ?v = "take k ds"
    have k: "0 < k" and v: "scan ?v = undelta_loop 0 ?v" and lv: "length ?v = k"
      using assms False by (auto simp: scans_def)
    have ne: "?v \<noteq> []" using k lv by auto
    have l: "last (undelta_loop p ?v) = p + sum_list ?v" for p
    proof -
      have "undelta_loop p ?v \<noteq> []" using ne by (cases ?v) simp_all
      then show ?thesis using last_undelta_loop [of p ?v] by simp
    qed
    have prev: "mm_add (replicate k p) (mm_broadcast_last (undelta_loop 0 ?v))
        = replicate k (p + sum_list ?v)"
      using lv by (simp add: mm_broadcast_last_def mm_add_def l zip_replicate)
    obtain st where st: "ssse3_loop scan k (replicate k (p + sum_list ?v)) (drop k ds) = (st, rest)"
      and s: "stored = undelta_loop p ?v @ st"
      using less.prems False k v prev lv mm_add_replicate [of 0 ?v p]
      by (simp add: ssse3_loop.simps [of scan k _ ds] Let_def split: prod.splits)
    have "undelta_loop (p + sum_list ?v) (drop k ds)
        = st @ undelta_loop (last ((p + sum_list ?v) # st)) rest"
      using False k by (intro less.hyps st) simp
    moreover have "last (p # stored) = last ((p + sum_list ?v) # st)"
      using s last_undelta_loop [of p ?v] by (cases "st = []") simp_all
    ultimately show ?thesis
      using undelta_loop_append [of p ?v "drop k ds"] s by simp
  qed
qed

lemma finish_decode_scalar:
  "finish_decode p ([], ds) = p # undelta_loop p ds"
  by (simp add: finish_decode_def)

lemma finish_decode_ssse3:
  "scans scan k \<Longrightarrow> finish_decode p (ssse3_loop scan k (replicate k p) ds) = p # undelta_loop p ds"
  using ssse3_loop_scalar [of scan k p ds]
  by (cases "ssse3_loop scan k (replicate k p) ds") (simp add: finish_decode_def)

text \<open>One step of the scan, lane by lane.\<close>

definition scan_step :: "nat \<Rightarrow> 'a::len word list \<Rightarrow> 'a word list" where
  "scan_step k v = mm_add v (replicate k 0 @ take (length v - k) v)"

lemma length_scan_step [simp]: "k \<le> length v \<Longrightarrow> length (scan_step k v) = length v"
  by (simp add: scan_step_def mm_add_def)

lemma nth_scan_step:
  "k \<le> length v \<Longrightarrow> i < length v \<Longrightarrow> scan_step k v ! i = v ! i + (if k \<le> i then v ! (i - k) else 0)"
  by (simp add: scan_step_def mm_add_def nth_append)

text \<open>
  \<open>strided m s v i\<close> sums \<open>m\<close> lanes below lane \<open>i\<close> that are \<open>s\<close> lanes apart. A step by \<open>s\<close>
  doubles the number of lanes and halves the stride.
\<close>

definition strided :: "nat \<Rightarrow> nat \<Rightarrow> 'a::len word list \<Rightarrow> nat \<Rightarrow> 'a word" where
  "strided m s v i = (\<Sum>j<m. if j * s \<le> i then v ! (i - j * s) else 0)"

lemma strided_Suc:
  "strided (Suc m) s v i = strided m s v i + (if m * s \<le> i then v ! (i - m * s) else 0)"
  by (simp add: strided_def)

lemma strided_double:
  "strided m (2 * s) v i + (if s \<le> i then strided m (2 * s) v (i - s) else 0) = strided (2 * m) s v i"
proof (induction m)
  case (Suc m)
  let ?t = "\<lambda>k. if k * s \<le> i then v ! (i - k * s) else 0"
  have odd: "?t (Suc (2 * m))
      = (if s \<le> i then if m * (2 * s) \<le> i - s then v ! (i - s - m * (2 * s)) else 0 else 0)"
    by (auto simp: algebra_simps)
  have even: "?t (2 * m) = (if m * (2 * s) \<le> i then v ! (i - m * (2 * s)) else 0)"
    by (simp add: algebra_simps)
  have "strided (2 * Suc m) s v i = strided (2 * m) s v i + ?t (2 * m) + ?t (Suc (2 * m))"
    using strided_Suc [of "2 * m" s v i] strided_Suc [of "Suc (2 * m)" s v i]
    by (simp only: mult_Suc_right add_2_eq_Suc)
  then show ?case
    unfolding odd even Suc.IH [symmetric] strided_Suc by (simp add: add.assoc add.left_commute)
qed (simp add: strided_def)

definition strides :: "'a::len word list \<Rightarrow> nat \<Rightarrow> nat \<Rightarrow> 'a word list \<Rightarrow> bool" where
  "strides v m s u \<longleftrightarrow> length u = length v \<and> (\<forall>i < length v. u ! i = strided m s v i)"

lemma strides_init: "strides v 1 s v"
  by (simp add: strides_def strided_def)

lemma strides_step: "strides v m (2 * s) u \<Longrightarrow> s \<le> length v \<Longrightarrow> strides v (2 * m) s (scan_step s u)"
  by (auto simp: strides_def nth_scan_step simp flip: strided_double)

lemma nth_undelta_loop: "i < length v \<Longrightarrow> undelta_loop p v ! i = p + (\<Sum>j\<le>i. v ! j)"
proof (induction v arbitrary: i p)
  case (Cons d v)
  show ?case
  proof (cases i)
    case (Suc j)
    with Cons show ?thesis by (simp add: add.assoc sum.atMost_Suc_shift del: sum.atMost_Suc)
  qed simp
qed simp

lemma strided_all: "i < m \<Longrightarrow> strided m 1 v i = (\<Sum>j\<le>i. v ! j)"
proof -
  assume i: "i < m"
  have "strided m 1 v i = (\<Sum>j \<in> {..<m} \<inter> {j. j \<le> i}. v ! (i - j))"
    by (simp add: strided_def sum.If_cases)
  also have "{..<m} \<inter> {j. j \<le> i} = {..i}" using i by auto
  also have "(\<Sum>j\<le>i. v ! (i - j)) = (\<Sum>j\<le>i. v ! j)"
    by (rule sum.reindex_bij_witness [of _ "\<lambda>j. i - j" "\<lambda>j. i - j"]) auto
  finally show ?thesis .
qed

lemma strides_scan: "strides v m 1 u \<Longrightarrow> length v = m \<Longrightarrow> u = undelta_loop 0 v"
  by (rule nth_equalityI) (auto simp: strides_def nth_undelta_loop strided_all simp del: One_nat_def)

lemma scans8: "scans scan8 16"
proof -
  have "scan8 v = undelta_loop 0 v" if v: "length v = 16" for v
  proof -
    have "strides v 2 8 (scan_step 8 v)"
      using strides_step [OF strides_init [of v "2 * 8"]] v by simp
    from strides_step [of v 2 4, simplified, OF this]
    have "strides v 4 4 (scan_step 4 (scan_step 8 v))" using v by simp
    from strides_step [of v 4 2, simplified, OF this]
    have "strides v 8 2 (scan_step 2 (scan_step 4 (scan_step 8 v)))" using v by simp
    from strides_step [of v 8 1, simplified, OF this]
    have "strides v 16 1 (scan_step 1 (scan_step 2 (scan_step 4 (scan_step 8 v))))" using v by simp
    from strides_scan [OF this v] show ?thesis
      using v by (simp add: scan8_def scan_step_def mm_slli_si128_def mm_add_def Let_def)
  qed
  then show ?thesis by (simp add: scans_def)
qed

lemma scans16: "scans scan16 8"
proof -
  have "scan16 v = undelta_loop 0 v" if v: "length v = 8" for v
  proof -
    have "strides v 2 4 (scan_step 4 v)"
      using strides_step [OF strides_init [of v "2 * 4"]] v by simp
    from strides_step [of v 2 2, simplified, OF this]
    have "strides v 4 2 (scan_step 2 (scan_step 4 v))" using v by simp
    from strides_step [of v 4 1, simplified, OF this]
    have "strides v 8 1 (scan_step 1 (scan_step 2 (scan_step 4 v)))" using v by simp
    from strides_scan [OF this v] show ?thesis
      using v by (simp add: scan16_def scan_step_def mm_slli_si128_def mm_add_def Let_def)
  qed
  then show ?thesis by (simp add: scans_def)
qed

lemma scans32: "scans scan32 4"
proof -
  have "scan32 v = undelta_loop 0 v" if v: "length v = 4" for v
  proof -
    have "strides v 2 2 (scan_step 2 v)"
      using strides_step [OF strides_init [of v "2 * 2"]] v by simp
    from strides_step [of v 2 1, simplified, OF this]
    have "strides v 4 1 (scan_step 1 (scan_step 2 v))" using v by simp
    from strides_scan [OF this v] show ?thesis
      using v by (simp add: scan32_def scan_step_def mm_slli_si128_def mm_add_def Let_def)
  qed
  then show ?thesis by (simp add: scans_def)
qed

lemma ZS_deltaDecode_scalar:
  "ZS_deltaDecode8 simd a as (Suc n) = a # undelta_loop a (take n as)"
  "ZS_deltaDecode16 simd b bs (Suc n) = b # undelta_loop b (take n bs)"
  "ZS_deltaDecode32 simd c cs (Suc n) = c # undelta_loop c (take n cs)"
  "ZS_deltaDecode64 e es (Suc n) = e # undelta_loop e (take n es)"
  by (simp_all add: ZS_deltaDecode8_def ZS_deltaDecode16_def ZS_deltaDecode32_def
      ZS_deltaDecode64_def ZS_deltaDecode8_ssse3_def ZS_deltaDecode16_ssse3_def
      ZS_deltaDecode32_ssse3_def finish_decode_scalar finish_decode_ssse3 [OF scans8]
      finish_decode_ssse3 [OF scans16] finish_decode_ssse3 [OF scans32] Let_def)

lemma undelta_delta:
  assumes "src \<noteq> []"
  shows "src ! 0 # undelta_loop (src ! 0) (delta_loop src (length src)) = src"
proof -
  have "undelta_loop x (map2 (-) xs (x # xs)) = xs" for x :: "'a word" and xs
  proof (induction xs arbitrary: x)
    case (Cons y ys)
    then show ?case by (cases ys) simp_all
  qed simp
  moreover have "delta_loop (x # xs) (Suc (length xs)) = map2 (-) xs (x # xs)" for x :: "'a word" and xs
    by (rule nth_equalityI) (simp_all add: delta_loop_def del: upt_Suc)
  ultimately show ?thesis using assms by (cases src) simp_all
qed

lemma length_delta_loop [simp]: "length (delta_loop xs n) = n - 1"
  by (simp add: delta_loop_def)

lemma delta_bytes:
  fixes xs :: "'a::len word list"
  assumes "LENGTH('a) = 8 * w" "0 < w" "w dvd length src" "length src div w = Suc n"
    and "xs = read_elts w src"
  shows "read_le (take w (write_le w (xs ! 0) @ r)) = xs ! 0"
    and "write_elts w (xs ! 0 # undelta_loop (xs ! 0)
           (take n (read_elts w (write_elts w (delta_loop xs (Suc n)))))) = src"
proof -
  have "length xs = Suc n" using assms by simp
  moreover from this have "xs \<noteq> []" by auto
  ultimately have "xs ! 0 # undelta_loop (xs ! 0) (delta_loop xs (Suc n)) = xs"
    using undelta_delta [of xs] by simp
  moreover have "read_elts w (write_elts w (delta_loop xs (Suc n))) = delta_loop xs (Suc n)"
    using assms by (simp add: mem_simps)
  moreover have "write_elts w xs = src" using assms by (simp add: mem_simps)
  ultimately show "write_elts w (xs ! 0 # undelta_loop (xs ! 0)
           (take n (read_elts w (write_elts w (delta_loop xs (Suc n)))))) = src" by simp
  show "read_le (take w (write_le w (xs ! 0) @ r)) = xs ! 0"
    using assms by (simp add: read_le_write_le_full)
qed

lemma delta_kernels:
  assumes "ZL_isLegalIntegerWidth w" "w dvd length src" "length src div w = Suc n"
    "ZS_deltaEncode src (Suc n) w = (first, deltas)"
  shows "length first = w" "length deltas = w * n"
    "ZS_deltaDecode simd (first @ r) deltas (Suc n) w = src"
proof -
  have "length first = w \<and> length deltas = w * n
      \<and> ZS_deltaDecode simd (first @ r) deltas (Suc n) w = src"
    using assms(1)
  proof (cases rule: legal_widthE)
    case 1
    with assms delta_bytes(1) [of 1 src n "read_elts 1 src :: u8 list" r]
      delta_bytes(2) [of 1 src n "read_elts 1 src :: u8 list"] show ?thesis
      by (auto simp: ZS_deltaEncode_def ZS_deltaEncode8_def ZS_deltaDecode_def
          ZS_deltaDecode_scalar ZL_read8_def Let_def)
  next
    case 2
    with assms delta_bytes(1) [of 2 src n "read_elts 2 src :: u16 list" r]
      delta_bytes(2) [of 2 src n "read_elts 2 src :: u16 list"] show ?thesis
      by (auto simp: ZS_deltaEncode_def ZS_deltaEncode16_def ZS_deltaDecode_def
          ZS_deltaDecode_scalar ZL_read16_def Let_def)
  next
    case 3
    with assms delta_bytes(1) [of 4 src n "read_elts 4 src :: u32 list" r]
      delta_bytes(2) [of 4 src n "read_elts 4 src :: u32 list"] show ?thesis
      by (auto simp: ZS_deltaEncode_def ZS_deltaEncode32_def ZS_deltaDecode_def
          ZS_deltaDecode_scalar ZL_read32_def Let_def)
  next
    case 4
    with assms delta_bytes(1) [of 8 src n "read_elts 8 src :: u64 list" r]
      delta_bytes(2) [of 8 src n "read_elts 8 src :: u64 list"] show ?thesis
      by (auto simp: ZS_deltaEncode_def ZS_deltaEncode64_def ZS_deltaDecode_def
          ZS_deltaDecode_scalar ZL_read64_def Let_def)
  qed
  then show "length first = w" "length deltas = w * n"
    "ZS_deltaDecode simd (first @ r) deltas (Suc n) w = src" by simp_all
qed

lemma delta_roundtrip_outputs:
  assumes "is_numeric d" "EI_delta_int cctx p d = Inr (outs, hdr)"
  shows "list_all wf_data outs"
    and "formatVersion dctx = formatVersion cctx \<Longrightarrow> (\<And>n. ctx_alloc dctx n)
      \<Longrightarrow> DI_delta_int simd dctx hdr outs = Inr d"
proof -
  obtain w bs where d: "d = numeric w bs" and w: "ZL_isLegalIntegerWidth w" "0 < w"
    and l: "w dvd length bs" "length bs < 2 ^ 64"
    using assms(1) by (elim is_numericE)
  have "list_all wf_data outs \<and> (formatVersion dctx = formatVersion cctx
      \<longrightarrow> (\<forall>n. ctx_alloc dctx n) \<longrightarrow> DI_delta_int simd dctx hdr outs = Inr d)"
  proof (cases "length bs div w")
    case 0
    then have "bs = []" using l w by (auto elim: dvdE)
    with assms(2) d w show ?thesis
      by (auto simp: EI_delta_int_def Let_def DI_delta_int_def wf_numeric ZS_deltaDecode_def)
  next
    case (Suc n)
    obtain f ds where e: "ZS_deltaEncode bs (Suc n) w = (f, ds)" by force
    note K = delta_kernels [OF w(1) l(1) Suc e]
    have len: "length bs = w * Suc n" using Suc l(1) w(2) by (metis dvd_mult_div_cancel)
    show ?thesis
    proof (cases "formatVersion cctx < 13")
      case True
      with assms(2) d e Suc have o: "outs = [numeric w (f @ ds)]" "hdr = []"
        by (auto simp: EI_delta_int_def Let_def)
      have lo: "length (f @ ds) = w * Suc n" using K by simp
      then have n: "length (f @ ds) div w = Suc n" using w(2) by simp
      show ?thesis
        using True len l w K(1) lo
        by (simp add: o d DI_delta_int_def Let_def wf_numeric K(3) n mult.commute del: length_append)
    next
      case False
      with assms(2) d e Suc have o: "outs = [numeric w ds]" "hdr = f"
        by (auto simp: EI_delta_int_def Let_def)
      have n: "length ds div w = n" using K(2) w(2) by simp
      have "f \<noteq> []" using K(1) w(2) by auto
      then show ?thesis
        using False len l w K(1,2)
        by (simp add: o d n DI_delta_int_def Let_def wf_numeric K(3) [of simd "[]", simplified] mult.commute)
    qed
  qed
  then show "list_all wf_data outs" "formatVersion dctx = formatVersion cctx
      \<Longrightarrow> (\<And>n. ctx_alloc dctx n) \<Longrightarrow> DI_delta_int simd dctx hdr outs = Inr d" by auto
qed

interpretation delta: lossless_codec "\<lambda>ctx p d. Some (EI_delta_int ctx p d)"
  "\<lambda>ctx header ins. Some (DI_delta_int simd ctx header ins)" is_numeric for simd
  by unfold_locales (auto intro: delta_roundtrip_outputs)

section \<open>Properties\<close>

text \<open>
  C32: the delta codec is lossless at every width and format version, whichever of the scalar and
  the vector decoder is compiled in.
\<close>

theorem delta_lossless:
  assumes "is_numeric d" "EI_delta_int cctx p d = Inr (outs, hdr)"
    "formatVersion dctx = formatVersion cctx" "\<And>n. ctx_alloc dctx n"
  shows "DI_delta_int simd dctx hdr outs = Inr d"
  using delta.lossless [of d cctx p outs hdr dctx] assms by simp

theorem delta_lossless_witness:
  "DI_delta_int True (big_ctx 13) [2] [numeric 1 [1, 1, 2]] = Inr (numeric 1 [2, 3, 4, 6])"
proof -
  have r: "read_elts 1 [2, 3, 4, 6] = ([2, 3, 4, 6] :: u8 list)" by (simp add: read_elts.simps)
  note r = r [simplified]
  have "EI_delta_int (big_ctx 13) () (numeric 1 [2, 3, 4, 6]) = Inr ([numeric 1 [1, 1, 2]], [2])"
    by (simp add: EI_delta_int_def Let_def ZS_deltaEncode_def ZS_deltaEncode8_def delta_loop_def r
        upt_rec write_le_def)
  from delta_lossless [OF _ this] show ?thesis
    by (simp add: is_numeric_numeric ZL_isLegalIntegerWidth_def)
qed

text \<open>
  C33: the SSSE3 delta decoders compute exactly what the scalar loop computes: the log-step prefix
  sums of one vector after the other, with the remaining elements done one by one, are the
  running sums.
\<close>

theorem delta_simd_scalar:
  "ZS_deltaDecode True first deltas nbElts width = ZS_deltaDecode False first deltas nbElts width"
  by (cases nbElts) (simp_all add: ZS_deltaDecode_def ZS_deltaDecode_scalar)

end
