(* ===== verification/Codec_Zigzag.thy ===== *)
theory Codec_Zigzag
  imports Codec_Stream
begin

text \<open>
  The zigzag codec (\<^verbatim>\<open>codecs/zigzag\<close>). Signed elements are words read by \<^const>\<open>sint\<close>; the 8-
  and 16-bit kernels compute in 32 bits, as the promotions of C have it.
\<close>

section \<open>Kernels\<close>

definition zigzag64 :: "u64 \<Rightarrow> u64" where
  "zigzag64 n = push_bit 1 n XOR signed_drop_bit 63 n"
definition zigzag32 :: "u32 \<Rightarrow> u32" where
  "zigzag32 n = push_bit 1 n XOR signed_drop_bit 31 n"
definition zigzag16 :: "u16 \<Rightarrow> u16" where
  "zigzag16 n = ucast (push_bit 1 (ucast n :: u32)
     XOR ucast (ucast (signed_drop_bit 15 (scast n :: u32)) :: u16))"
definition zigzag8 :: "u8 \<Rightarrow> u8" where
  "zigzag8 n = ucast (push_bit 1 (ucast n :: u32)
     XOR ucast (ucast (signed_drop_bit 7 (scast n :: u32)) :: u8))"

definition ZL_zigzagEncode64 :: "u64 list \<Rightarrow> nat \<Rightarrow> u64 list" where
  "ZL_zigzagEncode64 src nbElts = map (\<lambda>i. zigzag64 (src ! i)) [0..<nbElts]"
definition ZL_zigzagEncode32 :: "u32 list \<Rightarrow> nat \<Rightarrow> u32 list" where
  "ZL_zigzagEncode32 src nbElts = map (\<lambda>i. zigzag32 (src ! i)) [0..<nbElts]"
definition ZL_zigzagEncode16 :: "u16 list \<Rightarrow> nat \<Rightarrow> u16 list" where
  "ZL_zigzagEncode16 src nbElts = map (\<lambda>i. zigzag16 (src ! i)) [0..<nbElts]"
definition ZL_zigzagEncode8 :: "u8 list \<Rightarrow> nat \<Rightarrow> u8 list" where
  "ZL_zigzagEncode8 src nbElts = map (\<lambda>i. zigzag8 (src ! i)) [0..<nbElts]"

definition ZL_zigzagEncode :: "byte list \<Rightarrow> nat \<Rightarrow> nat \<Rightarrow> byte list" where
  "ZL_zigzagEncode src nbElts width =
     (if width = 1 then write_elts 1 (ZL_zigzagEncode8 (read_elts 1 src) nbElts)
      else if width = 2 then write_elts 2 (ZL_zigzagEncode16 (read_elts 2 src) nbElts)
      else if width = 4 then write_elts 4 (ZL_zigzagEncode32 (read_elts 4 src) nbElts)
      else if width = 8 then write_elts 8 (ZL_zigzagEncode64 (read_elts 8 src) nbElts)
      else [])"

definition unzigzag64 :: "u64 \<Rightarrow> u64" where
  "unzigzag64 z = drop_bit 1 z XOR (0 - (z AND 1))"
definition unzigzag32 :: "u32 \<Rightarrow> u32" where
  "unzigzag32 z = drop_bit 1 z XOR (0 - (z AND 1))"
definition unzigzag16 :: "u16 \<Rightarrow> u16" where
  "unzigzag16 z = (let mask = ucast (0 - (ucast z AND 1 :: u32)) :: u16
     in ucast (drop_bit 1 (ucast z :: u32) XOR ucast mask))"
definition unzigzag8 :: "u8 \<Rightarrow> u8" where
  "unzigzag8 z = (let mask = ucast (0 - (ucast z AND 1 :: u32)) :: u8
     in ucast (drop_bit 1 (ucast z :: u32) XOR ucast mask))"

definition ZL_zigzagDecode64 :: "u64 list \<Rightarrow> nat \<Rightarrow> u64 list" where
  "ZL_zigzagDecode64 src nbElts = map (\<lambda>i. unzigzag64 (src ! i)) [0..<nbElts]"
definition ZL_zigzagDecode32 :: "u32 list \<Rightarrow> nat \<Rightarrow> u32 list" where
  "ZL_zigzagDecode32 src nbElts = map (\<lambda>i. unzigzag32 (src ! i)) [0..<nbElts]"
definition ZL_zigzagDecode16 :: "u16 list \<Rightarrow> nat \<Rightarrow> u16 list" where
  "ZL_zigzagDecode16 src nbElts = map (\<lambda>i. unzigzag16 (src ! i)) [0..<nbElts]"
definition ZL_zigzagDecode8 :: "u8 list \<Rightarrow> nat \<Rightarrow> u8 list" where
  "ZL_zigzagDecode8 src nbElts = map (\<lambda>i. unzigzag8 (src ! i)) [0..<nbElts]"

definition ZL_zigzagDecode :: "byte list \<Rightarrow> nat \<Rightarrow> nat \<Rightarrow> byte list" where
  "ZL_zigzagDecode src nbElts width =
     (if width = 1 then write_elts 1 (ZL_zigzagDecode8 (read_elts 1 src) nbElts)
      else if width = 2 then write_elts 2 (ZL_zigzagDecode16 (read_elts 2 src) nbElts)
      else if width = 4 then write_elts 4 (ZL_zigzagDecode32 (read_elts 4 src) nbElts)
      else if width = 8 then write_elts 8 (ZL_zigzagDecode64 (read_elts 8 src) nbElts)
      else [])"

section \<open>Bindings\<close>

text \<open>The bindings dispatch on the width exactly as the two entry points above do.\<close>

definition EI_zigzag_num ::
  "codec_ctx \<Rightarrow> unit \<Rightarrow> ZL_Data \<Rightarrow> (ZL_Data list \<times> byte list) ZL_Result" where
  "EI_zigzag_num ctx p d =
     (let numWidth = eltWidth d; nbInts = numElts d in
      res_bind (createTypedStream ctx nbInts numWidth) (\<lambda>_.
      Inr ([numeric numWidth (ZL_zigzagEncode (data_bytes d) nbInts numWidth)], [])))"

definition DI_zigzag_num ::
  "codec_ctx \<Rightarrow> byte list \<Rightarrow> ZL_Data list \<Rightarrow> ZL_Data ZL_Result" where
  "DI_zigzag_num ctx header ins =
     (let d = hd ins; numWidth = eltWidth d; nbInts = numElts d in
      res_bind (createTypedStream ctx nbInts numWidth) (\<lambda>_.
      Inr (numeric numWidth (ZL_zigzagDecode (data_bytes d) nbInts numWidth))))"

section \<open>Elements\<close>

definition zigzag :: "'a::len word \<Rightarrow> 'a word" where
  "zigzag n = push_bit 1 n XOR signed_drop_bit (LENGTH('a) - 1) n"

definition unzigzag :: "'a::len word \<Rightarrow> 'a word" where
  "unzigzag z = drop_bit 1 z XOR (if bit z 0 then - 1 else 0)"

lemma minus_low_bit: "0 - (z AND 1) = (if bit z 0 then - 1 else 0 :: 'a::len word)"
  by (simp add: and_one_eq bit_0 mod_2_eq_odd)

lemma bit_zigzag:
  "k < LENGTH('a) \<Longrightarrow> bit (zigzag (n :: 'a::len word)) k \<longleftrightarrow>
     (0 < k \<and> bit n (k - 1)) \<noteq> bit n (LENGTH('a) - 1)"
  by (auto simp: zigzag_def bit_xor_iff bit_push_bit_iff bit_signed_drop_bit_iff Suc_le_eq
      not_less simp del: push_bit_Suc)

lemma bit_unzigzag:
  "k < LENGTH('a) \<Longrightarrow> bit (unzigzag (z :: 'a::len word)) k \<longleftrightarrow> bit z (Suc k) \<noteq> bit z 0"
  by (auto simp: unzigzag_def bit_simps simp del: drop_bit_Suc)

lemma unzigzag_zigzag: "unzigzag (zigzag n) = n"
proof (rule bit_word_eqI)
  fix k
  assume k: "k < LENGTH('a)"
  show "bit (unzigzag (zigzag n)) k = bit n k"
  proof (cases "Suc k < LENGTH('a)")
    case True
    with k show ?thesis by (auto simp: bit_unzigzag bit_zigzag)
  next
    case False
    with k have "LENGTH('a) = Suc k" by simp
    moreover from this have "\<not> bit (zigzag n) (Suc k)" by (auto dest: bit_imp_le_length)
    ultimately show ?thesis by (simp add: bit_unzigzag bit_zigzag)
  qed
qed

lemma zigzag_generic:
  "zigzag64 = zigzag" "zigzag32 = zigzag" "zigzag16 = zigzag" "zigzag8 = zigzag"
proof -
  show "zigzag64 = zigzag" "zigzag32 = zigzag"
    by (simp_all add: fun_eq_iff zigzag64_def zigzag32_def zigzag_def)
  show "zigzag16 = zigzag"
  proof (rule ext, rule bit_word_eqI)
    fix n :: u16 and k
    assume "k < LENGTH(16)"
    then show "bit (zigzag16 n) k = bit (zigzag n) k"
      by (auto simp: bit_zigzag zigzag16_def bit_simps min_def Suc_le_eq simp del: push_bit_Suc)
  qed
  show "zigzag8 = zigzag"
  proof (rule ext, rule bit_word_eqI)
    fix n :: u8 and k
    assume "k < LENGTH(8)"
    then show "bit (zigzag8 n) k = bit (zigzag n) k"
      by (auto simp: bit_zigzag zigzag8_def bit_simps min_def Suc_le_eq simp del: push_bit_Suc)
  qed
qed

lemma unzigzag_generic:
  "unzigzag64 = unzigzag" "unzigzag32 = unzigzag" "unzigzag16 = unzigzag" "unzigzag8 = unzigzag"
proof -
  show "unzigzag64 = unzigzag" "unzigzag32 = unzigzag"
    by (simp_all add: fun_eq_iff unzigzag64_def unzigzag32_def unzigzag_def minus_low_bit
        del: diff_0 diff_zero)
  show "unzigzag16 = unzigzag"
  proof (rule ext, rule bit_word_eqI)
    fix n :: u16 and k
    assume "k < LENGTH(16)"
    then show "bit (unzigzag16 n) k = bit (unzigzag n) k"
      by (auto simp: unzigzag16_def unzigzag_def bit_simps minus_low_bit simp del: diff_0)
  qed
  show "unzigzag8 = unzigzag"
  proof (rule ext, rule bit_word_eqI)
    fix n :: u8 and k
    assume "k < LENGTH(8)"
    then show "bit (unzigzag8 n) k = bit (unzigzag n) k"
      by (auto simp: unzigzag8_def unzigzag_def bit_simps minus_low_bit simp del: diff_0)
  qed
qed

lemma sign_bit_sint: "bit (n :: 'a::len word) (LENGTH('a) - 1) \<longleftrightarrow> sint n < 0"
  by (simp add: bit_last_iff)

lemma zigzag_value:
  fixes n :: "'a::len word"
  shows "uint (zigzag n) = (if 0 \<le> sint n then 2 * sint n else - 2 * sint n - 1)"
proof -
  have r: "sint n < 2 ^ (LENGTH('a) - 1)" "- (2 ^ (LENGTH('a) - 1)) \<le> sint n"
    using sint_lt [of n] sint_ge [of n] by auto
  have p: "2 * 2 ^ (LENGTH('a) - 1) = (2 :: int) ^ LENGTH('a)"
    by (metis Suc_diff_1 len_gt_0 power_Suc)
  have t: "uint (word_of_int i :: 'a word) = i" if "0 \<le> i" "i < 2 * 2 ^ (LENGTH('a) - 1)" for i
    using that p by (simp add: uint_word_of_int take_bit_int_eq_self)
  have d: "push_bit 1 n = word_of_int (2 * sint n)" by simp
  show ?thesis
  proof (cases "0 \<le> sint n")
    case True
    then have "zigzag n = push_bit 1 n"
      by (intro bit_word_eqI) (auto simp: bit_zigzag bit_push_bit_iff sign_bit_sint [simplified] Suc_le_eq
          simp del: push_bit_Suc)
    then show ?thesis using True r t [of "2 * sint n"] unfolding d by simp
  next
    case False
    then have "zigzag n = NOT (push_bit 1 n)"
      by (intro bit_word_eqI) (auto simp: bit_zigzag bit_push_bit_iff bit_not_iff sign_bit_sint [simplified]
          Suc_le_eq simp del: push_bit_Suc)
    also have "\<dots> = word_of_int (- 2 * sint n - 1)"
      unfolding d by (simp add: not_eq_complement)
    finally show ?thesis using False r t [of "- 2 * sint n - 1"] by simp
  qed
qed


section \<open>Round trip\<close>

lemma map_upt_nth: "map (\<lambda>i. f (xs ! i)) [0..<length xs] = map f xs"
  by (rule nth_equalityI) simp_all

lemma zigzag_bytes:
  fixes xs :: "'a::len word list"
  assumes "LENGTH('a) = 8 * w" "0 < w" "w dvd length src" "length src div w = n"
    "xs = read_elts w src"
  shows "write_elts w (map (\<lambda>i. unzigzag (read_elts w
    (write_elts w (map (\<lambda>i. zigzag (xs ! i)) [0..<n])) ! i :: 'a word)) [0..<n]) = src"
proof -
  have l: "length xs = n" using assms by simp
  have "read_elts w (write_elts w (map zigzag xs)) = map zigzag xs"
    using assms by (simp add: mem_simps)
  moreover have "map (\<lambda>i. unzigzag (map zigzag xs ! i)) [0..<n] = xs"
    using map_upt_nth [of unzigzag "map zigzag xs"] l by (simp add: comp_def unzigzag_zigzag)
  moreover have "write_elts w xs = src" using assms by (simp add: mem_simps)
  ultimately show ?thesis using map_upt_nth [of zigzag xs] l by simp
qed

lemma zigzag_kernels:
  assumes "ZL_isLegalIntegerWidth w" "w dvd length src" "length src div w = n"
  shows "length (ZL_zigzagEncode src n w) = length src"
    "ZL_zigzagDecode (ZL_zigzagEncode src n w) n w = src"
proof -
  note defs = ZL_zigzagEncode_def ZL_zigzagDecode_def ZL_zigzagEncode8_def ZL_zigzagDecode8_def
    ZL_zigzagEncode16_def ZL_zigzagDecode16_def ZL_zigzagEncode32_def ZL_zigzagDecode32_def
    ZL_zigzagEncode64_def ZL_zigzagDecode64_def zigzag_generic unzigzag_generic
  have "w * n = length src" using assms by auto
  with assms(1) show "length (ZL_zigzagEncode src n w) = length src"
    by (cases rule: legal_widthE) (simp_all add: defs)
  show "ZL_zigzagDecode (ZL_zigzagEncode src n w) n w = src"
    using assms(1)
  proof (cases rule: legal_widthE)
    case 1
    with assms zigzag_bytes [of 1 src n "read_elts 1 src :: u8 list"] show ?thesis by (simp add: defs)
  next
    case 2
    with assms zigzag_bytes [of 2 src n "read_elts 2 src :: u16 list"] show ?thesis by (simp add: defs)
  next
    case 3
    with assms zigzag_bytes [of 4 src n "read_elts 4 src :: u32 list"] show ?thesis by (simp add: defs)
  next
    case 4
    with assms zigzag_bytes [of 8 src n "read_elts 8 src :: u64 list"] show ?thesis by (simp add: defs)
  qed
qed

lemma zigzag_roundtrip:
  assumes "is_numeric d" "EI_zigzag_num cctx p d = Inr (outs, hdr)"
  shows "list_all wf_data outs"
    and "(\<And>n. ctx_alloc dctx n) \<Longrightarrow> DI_zigzag_num dctx hdr outs = Inr d"
proof -
  obtain w bs where d: "d = numeric w bs" and w: "ZL_isLegalIntegerWidth w" "0 < w"
    and l: "w dvd length bs" "length bs < 2 ^ 64"
    using assms(1) by (elim is_numericE)
  note K = zigzag_kernels [OF w(1) l(1) refl]
  have o: "outs = [numeric w (ZL_zigzagEncode bs (length bs div w) w)]"
    using assms(2) by (auto simp: d EI_zigzag_num_def Let_def)
  show "list_all wf_data outs" using w l by (simp add: o wf_numeric K)
  show "DI_zigzag_num dctx hdr outs = Inr d" if "\<And>n. ctx_alloc dctx n"
    using that w l by (simp add: o d DI_zigzag_num_def Let_def K)
qed

interpretation zigzag: lossless_codec "\<lambda>ctx p d. Some (EI_zigzag_num ctx p d)"
  "\<lambda>ctx header ins. Some (DI_zigzag_num ctx header ins)" is_numeric
  by unfold_locales (auto intro: zigzag_roundtrip)

text \<open>
  The zigzag codec is lossless at every width.
\<close>

theorem zigzag_lossless:
  assumes "is_numeric d" "EI_zigzag_num cctx p d = Inr (outs, hdr)"
    "formatVersion dctx = formatVersion cctx" "\<And>n. ctx_alloc dctx n"
  shows "DI_zigzag_num dctx hdr outs = Inr d"
  using zigzag.lossless [of d cctx p outs hdr dctx] assms by simp

theorem zigzag_lossless_witness:
  "DI_zigzag_num (big_ctx 13) [] [numeric 1 [0, 1, 2, 255]] = Inr (numeric 1 [0, 255, 1, 128])"
proof -
  have r: "read_elts 1 [0, 255, 1, 128] = ([0, 255, 1, 128] :: u8 list)"
    by (simp add: read_elts.simps)
  note r = r [simplified]
  have "EI_zigzag_num (big_ctx 13) () (numeric 1 [0, 255, 1, 128]) = Inr ([numeric 1 [0, 1, 2, 255]], [])"
    by (simp add: EI_zigzag_num_def Let_def ZL_zigzagEncode_def ZL_zigzagEncode8_def r
        upt_rec write_le_def zigzag_generic zigzag_def)
  from zigzag_lossless [OF _ this] show ?thesis
    by (simp add: is_numeric_numeric ZL_isLegalIntegerWidth_def)
qed

text \<open>
  What the zigzag kernels compute, at each width: the signed integers 0, -1, 1, -2, 2 and so
  on become 0, 1, 2, 3, 4 and so on.
\<close>

theorem zigzag_exact:
  "uint (zigzag8 a) = (if 0 \<le> sint a then 2 * sint a else - 2 * sint a - 1)
   \<and> uint (zigzag16 b) = (if 0 \<le> sint b then 2 * sint b else - 2 * sint b - 1)
   \<and> uint (zigzag32 c) = (if 0 \<le> sint c then 2 * sint c else - 2 * sint c - 1)
   \<and> uint (zigzag64 e) = (if 0 \<le> sint e then 2 * sint e else - 2 * sint e - 1)"
  by (simp add: zigzag_generic zigzag_value)

end
