(* ===== verification/Codec_Constant.thy ===== *)
theory Codec_Constant
  imports Codec_Stream
begin

text \<open>
  The constant codec (\<^verbatim>\<open>codecs/constant\<close>). The decoder writes whole 1 to 32 byte blocks over a
  destination of exactly the regenerated size; the model keeps that destination and makes a
  write outside of it \<^const>\<open>None\<close>. The scratch element buffer, the tail of the vector register
  and the destination start with arbitrary bytes.
\<close>

section \<open>Kernels\<close>

definition ZS_isConstantStream :: "byte list \<Rightarrow> nat \<Rightarrow> nat \<Rightarrow> bool" where
  "ZS_isConstantStream src nbElts width =
     (if nbElts = 0 then False
      else take (width * (nbElts - 1)) src = take (width * (nbElts - 1)) (drop width src))"

definition ZS_encodeConstant :: "byte list \<Rightarrow> nat \<Rightarrow> byte list" where
  "ZS_encodeConstant src width = take width src"

definition mem_write :: "byte list \<Rightarrow> nat \<Rightarrow> byte list \<Rightarrow> byte list option" where
  "mem_write dst off bs =
     (if off + length bs \<le> length dst
      then Some (take off dst @ bs @ drop (off + length bs) dst) else None)"

text \<open>\<open>n\<close> times: \<^verbatim>\<open>memcpy(nextElt, block, sizeof block); nextElt += step\<close>.\<close>

primrec store_loop :: "nat \<Rightarrow> nat \<Rightarrow> nat \<Rightarrow> byte list \<Rightarrow> byte list \<Rightarrow> byte list option" where
  "store_loop 0 off step block dst = Some dst"
| "store_loop (Suc n) off step block dst =
     Option.bind (mem_write dst off block) (store_loop n (off + step) step block)"

text \<open>
  With no element the loop bound \<^verbatim>\<open>dstNbElts - 1\<close> would wrap around and the loop run out of
  the destination; the callers never ask for that.
\<close>

definition ZS_decodeConstant_impl_fallback ::
  "byte list \<Rightarrow> nat \<Rightarrow> nat \<Rightarrow> byte list \<Rightarrow> nat \<Rightarrow> byte list \<Rightarrow> nat \<Rightarrow> byte list option" where
  "ZS_decodeConstant_impl_fallback dst off dstNbElts src width kEltBuffer kEltWidth =
     (if dstNbElts = 0 then None
      else let kEltBuffer = take width src @ drop width kEltBuffer in
      Option.bind (store_loop (dstNbElts - 1) off width (take kEltWidth kEltBuffer) dst) (\<lambda>dst.
      mem_write dst (off + (dstNbElts - 1) * width) (take width kEltBuffer)))"

text \<open>The vector loop runs while the store stays below \<^verbatim>\<open>storeLoopLimit\<close>.\<close>

function avx2_loop :: "int \<Rightarrow> nat \<Rightarrow> nat \<Rightarrow> byte list \<Rightarrow> byte list \<Rightarrow> (byte list \<times> nat) option" where
  "avx2_loop storeLoopLimit off step vec dst =
     (if 0 < step \<and> int off \<le> storeLoopLimit then
        Option.bind (mem_write dst off vec) (avx2_loop storeLoopLimit (off + step) step vec)
      else Some (dst, off))"
  by auto

termination avx2_loop
  by (relation "measure (\<lambda>(limit, off, _). nat (limit + 1 - int off))") auto

declare avx2_loop.simps [simp del]

definition ZS_decodeConstant_impl_avx2 ::
  "byte list \<Rightarrow> nat \<Rightarrow> byte list \<Rightarrow> nat \<Rightarrow> byte list \<Rightarrow> nat \<Rightarrow> byte list \<Rightarrow> byte list option" where
  "ZS_decodeConstant_impl_avx2 dst dstNbElts src width kEltBuffer kEltWidth junk =
     (let eltsPerStore = 32 div width;
          eltBytesPerStore = eltsPerStore * width;
          vec = concat (replicate eltsPerStore (take width src)) @ drop eltBytesPerStore junk;
          totalDstBytes = dstNbElts * width;
          storeLoopLimit = int totalDstBytes - 32 - 1;
          nbStores = unat ((word_of_nat totalDstBytes - 32
                       + (word_of_nat eltBytesPerStore - 1) :: size_t)
                     div word_of_nat eltBytesPerStore)
      in Option.bind (avx2_loop storeLoopLimit 0 eltBytesPerStore vec dst) (\<lambda>(dst, nextElt).
         let eltsStored = eltsPerStore * nbStores;
             remDstNbElts = dstNbElts - eltsStored
         in ZS_decodeConstant_impl_fallback dst nextElt remDstNbElts src width kEltBuffer kEltWidth))"

definition ZS_decodeConstant_impl ::
  "bool \<Rightarrow> byte list \<Rightarrow> nat \<Rightarrow> byte list \<Rightarrow> nat \<Rightarrow> byte list \<Rightarrow> nat \<Rightarrow> byte list \<Rightarrow> byte list option"
  where
  "ZS_decodeConstant_impl avx2 dst dstNbElts src width kEltBuffer kEltWidth junk =
     (if width = kEltWidth then store_loop dstNbElts 0 kEltWidth (take kEltWidth src) dst
      else if avx2 \<and> width \<le> 16
        then ZS_decodeConstant_impl_avx2 dst dstNbElts src width kEltBuffer kEltWidth junk
      else ZS_decodeConstant_impl_fallback dst 0 dstNbElts src width kEltBuffer kEltWidth)"

definition ZS_decodeConstant ::
  "bool \<Rightarrow> byte list \<Rightarrow> nat \<Rightarrow> byte list \<Rightarrow> nat \<Rightarrow> byte list \<Rightarrow> byte list \<Rightarrow> byte list option" where
  "ZS_decodeConstant avx2 dst dstNbElts src width buffer junk =
     (if width = 1 then ZS_decodeConstant_impl avx2 dst dstNbElts src width buffer 1 junk
      else if width = 2 then ZS_decodeConstant_impl avx2 dst dstNbElts src width buffer 2 junk
      else if width \<le> 4 then ZS_decodeConstant_impl avx2 dst dstNbElts src width buffer 4 junk
      else if width \<le> 8 then ZS_decodeConstant_impl avx2 dst dstNbElts src width buffer 8 junk
      else if width \<le> 16 then ZS_decodeConstant_impl avx2 dst dstNbElts src width buffer 16 junk
      else if width \<le> 32 then ZS_decodeConstant_impl avx2 dst dstNbElts src width buffer 32 junk
      else ZS_decodeConstant_impl avx2 dst dstNbElts src width buffer width junk)"

section \<open>Bindings\<close>

definition EI_constant_typed ::
  "codec_ctx \<Rightarrow> unit \<Rightarrow> ZL_Data \<Rightarrow> (ZL_Data list \<times> byte list) ZL_Result" where
  "EI_constant_typed ctx p d =
     (let src = data_bytes d; nbElts = numElts d; width = eltWidth d in
      if nbElts < 1 then Inl ZL_ErrorCode_srcSize_tooSmall
      else if \<not> ZS_isConstantStream src nbElts width then Inl ZL_ErrorCode_node_invalid_input
      else res_bind (createTypedStream ctx 1 width) (\<lambda>_.
        Inr ([d\<lparr>data_bytes := ZS_encodeConstant src width\<rparr>], ZL_varintEncode (word_of_nat nbElts))))"

text \<open>
  \<open>mem\<close> is the content the allocator leaves: of the destination, the scratch buffer and the
  register.
\<close>

definition DI_constant_typed ::
  "bool \<Rightarrow> (nat \<Rightarrow> byte list) \<Rightarrow> codec_ctx \<Rightarrow> byte list \<Rightarrow> ZL_Data list \<Rightarrow> ZL_Data ZL_Result option"
  where
  "DI_constant_typed avx2 mem ctx header ins =
     (let d = hd ins; src = data_bytes d; nbElts = numElts d; width = eltWidth d in
      if nbElts \<noteq> 1 then Some (Inl ZL_ErrorCode_corruption)
      else case ZL_varintDecode header of
        Inl e \<Rightarrow> Some (Inl e)
      | Inr (n, rest) \<Rightarrow>
          if rest \<noteq> [] then Some (Inl ZL_ErrorCode_corruption)
          else if unat n < 1 then Some (Inl ZL_ErrorCode_corruption)
          else case createTypedStream ctx (unat n) width of
            Inl e \<Rightarrow> Some (Inl e)
          | Inr _ \<Rightarrow>
              let bufferSize = (if width \<le> 32 then 32 else width) in
              if \<not> ctx_alloc ctx bufferSize then Some (Inl ZL_ErrorCode_allocation)
              else map_option (\<lambda>bs. Inr (d\<lparr>data_bytes := bs\<rparr>))
                     (ZS_decodeConstant avx2 (mem (unat n * width)) (unat n) src width
                       (mem bufferSize) (mem 32)))"

section \<open>The stores\<close>

lemma mem_write_Some:
  "off + length bs \<le> length dst \<Longrightarrow>
     mem_write dst off bs = Some (take off dst @ bs @ drop (off + length bs) dst)"
  by (simp add: mem_write_def)

lemma store_loop_elements:
  assumes "step \<le> length block" "n = 0 \<or> off + (n - 1) * step + length block \<le> length dst"
  shows "\<exists>dst'. store_loop n off step block dst = Some dst' \<and> length dst' = length dst
    \<and> (off \<le> length dst \<longrightarrow> take (off + n * step) dst' = take off dst @ concat (replicate n (take step block)))"
  using assms
proof (induction n arbitrary: off dst)
  case (Suc n)
  let ?d = "take off dst @ block @ drop (off + length block) dst"
  have o: "off + length block \<le> length dst" using Suc.prems by simp
  then have w: "mem_write dst off block = Some ?d" by (rule mem_write_Some)
  have l: "length ?d = length dst" using o by simp
  have "n = 0 \<or> off + step + (n - 1) * step + length block \<le> length ?d"
    using Suc.prems l by (cases n) auto
  from Suc.IH [OF Suc.prems(1) this] obtain d where
    d: "store_loop n (off + step) step block ?d = Some d" "length d = length ?d"
    "off + step \<le> length ?d \<Longrightarrow> take (off + step + n * step) d
       = take (off + step) ?d @ concat (replicate n (take step block))" by blast
  have "take (off + step) ?d = take off dst @ take step block"
    using o Suc.prems(1) by simp
  then show ?case
    using w d l o Suc.prems(1) by (simp add: add.assoc add.commute add.left_commute)
qed simp

lemma concat_replicate_concat:
  "concat (replicate m (concat (replicate q xs))) = concat (replicate (m * q) xs)"
  by (induction m) (simp_all add: replicate_add)

lemma concat_replicate_snoc: "concat (replicate m xs) @ xs = xs @ concat (replicate m xs)"
  by (induction m) simp_all

lemma fallback_elements:
  assumes "0 < n" "length src = w" "w \<le> k" "k \<le> 2 * w" "k \<le> length buf" "off + n * w = length dst"
  shows "ZS_decodeConstant_impl_fallback dst off n src w buf k
    = Some (take off dst @ concat (replicate n src))"
proof -
  obtain m where m: "n = Suc m" using assms(1) gr0_implies_Suc by blast
  let ?buf = "src @ drop w buf"
  have b: "take k ?buf = src @ take (k - w) (drop w buf)" "length (take k ?buf) = k"
    using assms by simp_all
  have "w \<le> length (take k ?buf)" using assms b by simp
  moreover have "m = 0 \<or> off + (m - 1) * w + length (take k ?buf) \<le> length dst"
    using assms(3,4,6) b(2) m by (cases m) simp_all
  ultimately obtain d where d: "store_loop m off w (take k ?buf) dst = Some d" "length d = length dst"
    "off \<le> length dst \<Longrightarrow> take (off + m * w) d
       = take off dst @ concat (replicate m (take w (take k ?buf)))"
    using store_loop_elements by blast
  have t: "take w (take k ?buf) = src" using assms(2) b(1) by simp
  have e: "off + m * w + w = length d" using assms(6) d(2) m by simp
  have "mem_write d (off + m * w) src = Some (take (off + m * w) d @ src)"
    using e assms(2) by (simp add: mem_write_def)
  moreover have "concat (replicate m src) @ src = concat (replicate n src)"
    by (simp add: m flip: concat_replicate_snoc)
  ultimately show ?thesis
    using d t m assms by (simp add: ZS_decodeConstant_impl_fallback_def Let_def)
qed

lemma avx2_loop_stores:
  assumes "0 < step" "limit < int (off + m * step)" "m = 0 \<or> int (off + (m - 1) * step) \<le> limit"
  shows "avx2_loop limit off step vec dst
    = map_option (\<lambda>d. (d, off + m * step)) (store_loop m off step vec dst)"
  using assms
proof (induction m arbitrary: off dst)
  case 0
  then show ?case by (simp add: avx2_loop.simps)
next
  case (Suc m)
  have le: "int off \<le> limit"
  proof -
    have "0 \<le> int m * int step" by simp
    moreover have "int off + int m * int step \<le> limit" using Suc.prems(3) by simp
    ultimately show ?thesis by linarith
  qed
  have "avx2_loop limit (off + step) step vec
      = (\<lambda>d. map_option (\<lambda>d. (d, off + step + m * step)) (store_loop m (off + step) step vec d))"
    using Suc.prems by (intro ext Suc.IH) (cases m; simp add: add.assoc)+
  with le Suc.prems(1) show ?case
    by (simp add: avx2_loop.simps [of limit off] map_option_bind comp_def add.assoc)
qed

lemma nbStores:
  assumes "0 < e" "e \<le> 32" "33 \<le> t + e" "t < 2 ^ 64"
  shows "unat ((word_of_nat t - 32 + (word_of_nat e - 1) :: size_t) div word_of_nat e) = (t + e - 33) div e"
proof -
  have "word_of_nat (t + e - 33) = (word_of_nat (t + e) - 33 :: size_t)"
    using assms(3) by (simp only: of_nat_diff) simp
  then have "word_of_nat t - 32 + (word_of_nat e - 1) = (word_of_nat (t + e - 33) :: size_t)"
    by simp
  moreover have "unat (word_of_nat (t + e - 33) :: size_t) = t + e - 33"
    using assms by (intro unat_of_nat_u64) simp
  moreover have "unat (word_of_nat e :: size_t) = e"
    using assms by (intro unat_of_nat_u64) simp
  ultimately show ?thesis by (simp only: unat_div_distrib)
qed

lemma avx2_elements:
  assumes "0 < n" "length src = w" "0 < w" "w \<le> 16" "w \<le> k" "k \<le> 2 * w" "k \<le> length buf"
    "n * w = length dst" "length dst < 2 ^ 64" "length junk = 32"
  shows "ZS_decodeConstant_impl_avx2 dst n src w buf k junk = Some (concat (replicate n src))"
proof -
  define q e t m where "q = 32 div w" and "e = q * w" and "t = n * w" and "m = (t + e - 33) div e"
  have "w \<le> 32" using assms(4) by simp
  then have q: "0 < q" using assms(3) by (simp add: q_def div_greater_zero_iff)
  have e: "0 < e" "e \<le> 32" using q assms(3) by (simp_all add: e_def q_def)
  have "32 = e + 32 mod w" by (simp add: e_def q_def)
  moreover have "32 mod w < w" using assms(3) by simp
  moreover have "w \<le> t" using assms(1) by (simp add: t_def)
  ultimately have te: "33 \<le> t + e" by linarith
  have me: "m * e \<le> t + e - 33" "t + e - 33 < Suc m * e"
    using div_mult_mod_eq [of "t + e - 33" e] mod_less_divisor [OF e(1), of "t + e - 33"]
    unfolding m_def by (linarith, metis dividend_less_div_times e(1) mult_Suc)
  have st: "unat ((word_of_nat t - 32 + (word_of_nat e - 1) :: size_t) div word_of_nat e) = m"
    unfolding m_def using assms(8,9) e te by (intro nbStores) (simp_all add: t_def)
  let ?vec = "concat (replicate q src) @ drop e junk"
  have lq: "length (concat (replicate q src)) = e"
    using assms(2) by (simp add: e_def length_concat sum_list_replicate)
  have lv: "length ?vec = 32" "take e ?vec = concat (replicate q src)"
    using lq assms(10) e by simp_all
  have lt: "length dst = t" using assms(8) by (simp add: t_def)
  have "t < 33 + m * e" using me(2) te unfolding mult_Suc by linarith
  then have "int t < int (33 + m * e)" by (simp only: of_nat_less_iff)
  then have c1: "int t - 33 < int (0 + m * e)" by simp
  have c2: "m = 0 \<or> int (0 + (m - 1) * e) \<le> int t - 33"
  proof (cases m)
    case (Suc m')
    then have "33 + m' * e \<le> t" using me(1) te unfolding mult_Suc by simp
    then have "int (33 + m' * e) \<le> int t" by (simp only: of_nat_le_iff)
    with Suc show ?thesis by simp
  qed simp
  have b: "m = 0 \<or> 0 + (m - 1) * e + length ?vec \<le> length dst"
    using c2 unfolding lv(1) lt by linarith
  obtain d where d: "store_loop m 0 e ?vec dst = Some d" "length d = length dst"
    "take (m * e) d = concat (replicate m (concat (replicate q src)))"
    using store_loop_elements [of e ?vec m 0 dst] lv e b by auto
  have loop: "avx2_loop (int t - 32 - 1) 0 e ?vec dst = Some (d, m * e)"
    using avx2_loop_stores [OF e(1) c1 c2, of ?vec dst] d(1) by simp
  have "m * e < t" using me(1) te e(2) by linarith
  then have "m * q * w < n * w" by (simp add: e_def t_def mult.assoc)
  then have lt_n: "m * q < n" by simp
  have off: "m * e + (n - m * q) * w = length d"
  proof -
    have "m * q * w \<le> n * w" using lt_n by simp
    then show ?thesis using assms(8) d(2) by (simp add: e_def diff_mult_distrib mult.assoc [symmetric])
  qed
  have "ZS_decodeConstant_impl_fallback d (m * e) (n - m * q) src w buf k
      = Some (take (m * e) d @ concat (replicate (n - m * q) src))"
    using lt_n assms off by (intro fallback_elements) simp_all
  also have "take (m * e) d @ concat (replicate (n - m * q) src) = concat (replicate n src)"
    using lt_n by (simp add: d(3) concat_replicate_concat flip: concat_append replicate_add)
  finally show ?thesis
    unfolding ZS_decodeConstant_impl_avx2_def Let_def
    by (simp only: assms(2) take_all order_refl loop st mult.commute [of q m] Option.bind.bind_lunit case_prod_conv
        flip: q_def e_def t_def)
qed

lemma impl_elements:
  assumes "0 < n" "length src = w" "0 < w" "w \<le> k" "k \<le> 2 * w" "k \<le> length buf"
    "n * w = length dst" "length dst < 2 ^ 64" "length junk = 32"
  shows "ZS_decodeConstant_impl avx2 dst n src w buf k junk = Some (concat (replicate n src))"
proof (cases "w = k")
  case True
  have "n = 0 \<or> 0 + (n - 1) * k + length src \<le> length dst"
    using assms(2,7) True by (cases n) simp_all
  then obtain d where "store_loop n 0 k src dst = Some d" "length d = length dst"
    "take (n * k) d = concat (replicate n (take k src))"
    using store_loop_elements [of k src n 0 dst] assms(2) True by auto
  with assms(2,7) True show ?thesis by (simp add: ZS_decodeConstant_impl_def)
next
  case False
  with assms show ?thesis
    using avx2_elements [of n src w k buf dst junk] fallback_elements [of n src w k buf 0 dst]
    by (simp add: ZS_decodeConstant_impl_def)
qed

lemma decodeConstant_elements:
  assumes "0 < n" "length src = w" "0 < w" "length buf = (if w \<le> 32 then 32 else w)"
    "length dst = n * w" "n * w < 2 ^ 64" "length junk = 32"
  shows "ZS_decodeConstant avx2 dst n src w buf junk = Some (concat (replicate n src))"
proof -
  have *: "ZS_decodeConstant_impl avx2 dst n src w buf k junk = Some (concat (replicate n src))"
    if "w \<le> k" "k \<le> 2 * w" "k \<le> 32 \<or> k = w" for k
    using assms that by (intro impl_elements) (auto split: if_splits)
  consider "w = 1" | "w = 2" | "2 < w" using assms(3) by linarith
  then show ?thesis
  proof cases
    case 3
    with * show ?thesis by (simp add: ZS_decodeConstant_def)
  qed (use * [of 1] * [of 2] in \<open>simp_all add: ZS_decodeConstant_def\<close>)
qed

section \<open>Round trip\<close>

lemma isConstant_elements:
  assumes "ZS_isConstantStream src n w" "length src = w * n"
  shows "src = concat (replicate n (take w src))"
proof -
  have "length xs = w * Suc m \<Longrightarrow> take (w * m) xs = take (w * m) (drop w xs)
      \<Longrightarrow> xs = concat (replicate (Suc m) (take w xs))" for m and xs :: "byte list"
  proof (induction m arbitrary: xs)
    case (Suc m)
    let ?ys = "drop w xs"
    have ly: "length ?ys = w * Suc m" using Suc.prems(1) by simp
    have tk: "take (w * Suc m) xs = ?ys" using Suc.prems(2) ly by simp
    have "take w ?ys = take w xs" unfolding tk [symmetric] by simp
    moreover have "take (w * m) ?ys = take (w * m) (drop w ?ys)"
    proof -
      have "take (w * m) (drop w (take (w * Suc m) xs)) = take (w * m) (drop w xs)"
        by (simp add: drop_take)
      then show ?thesis unfolding tk by simp
    qed
    ultimately have "?ys = concat (replicate (Suc m) (take w xs))"
      using Suc.IH [OF ly] by simp
    then show ?case using append_take_drop_id [of w xs] by simp
  qed simp
  with assms show ?thesis
    by (cases n) (simp_all add: ZS_isConstantStream_def)
qed

definition is_fixed :: "ZL_Data \<Rightarrow> bool" where
  "is_fixed d \<longleftrightarrow> (data_type d = ZL_Type_serial \<or> data_type d = ZL_Type_struct) \<and> wf_data d"

definition fresh_memory :: "(nat \<Rightarrow> byte list) \<Rightarrow> bool" where
  "fresh_memory mem \<longleftrightarrow> (\<forall>n. length (mem n) = n)"

lemma constant_roundtrip:
  assumes "is_fixed d" "EI_constant_typed cctx p d = Inr (outs, hdr)"
  shows "list_all wf_data outs"
    and "fresh_memory mem \<Longrightarrow> (\<And>n. ctx_alloc dctx n) \<Longrightarrow>
      DI_constant_typed avx2 mem dctx hdr outs = Some (Inr d)"
proof -
  let ?w = "eltWidth d" and ?n = "numElts d" and ?src = "data_bytes d"
  have w: "0 < ?w" and dv: "?w dvd length ?src" and l64: "length ?src < 2 ^ 64"
    and t: "data_type d \<noteq> ZL_Type_string" "stringLens d = []"
    using assms(1) by (auto simp: is_fixed_def wf_data_def STREAM_validateTypeWidth_def split: if_splits)
  have nn: "?n = length ?src div ?w" using t by (simp add: numElts_def)
  then have len: "length ?src = ?w * ?n" using dv by simp
  have n: "0 < ?n" and c: "ZS_isConstantStream ?src ?n ?w"
    and o: "outs = [d\<lparr>data_bytes := take ?w ?src\<rparr>]" "hdr = ZL_varintEncode (word_of_nat ?n)"
    using assms(2) by (auto simp: EI_constant_typed_def Let_def ZS_encodeConstant_def split: if_splits)
  have wl: "?w \<le> length ?src" using len n by simp
  have n64: "?n < 2 ^ 64" using len l64 w by (metis le_less_trans le_square mult_le_mono1 nn div_le_dividend)
  have un: "unat (word_of_nat ?n :: u64) = ?n" using n64 by (intro unat_of_nat_u64) simp
  let ?e = "d\<lparr>data_bytes := take ?w ?src\<rparr>"
  have ne: "numElts ?e = 1" using t w wl by (simp add: numElts_def)
  show "list_all wf_data outs"
    using assms(1) wl l64 by (auto simp: o is_fixed_def wf_data_def)
  show "DI_constant_typed avx2 mem dctx hdr outs = Some (Inr d)"
    if m: "fresh_memory mem" and a: "\<And>n. ctx_alloc dctx n"
  proof -
    have "ZS_decodeConstant avx2 (mem (?n * ?w)) ?n (take ?w ?src) ?w
        (mem (if ?w \<le> 32 then 32 else ?w)) (mem 32) = Some (concat (replicate ?n (take ?w ?src)))"
      using m n w wl len l64 by (intro decodeConstant_elements) (auto simp: fresh_memory_def mult.commute)
    moreover have "concat (replicate ?n (take ?w ?src)) = ?src"
      using isConstant_elements [OF c len] by simp
    moreover have ct: "createTypedStream dctx ?n ?w = Inr ()"
      using len l64 w a by (simp add: mult.commute)
    ultimately have k: "ZS_decodeConstant avx2 (mem (?n * ?w)) ?n (take ?w ?src) ?w
        (mem (if ?w \<le> 32 then 32 else ?w)) (mem 32) = Some ?src" by simp
    show ?thesis
      using n a ZL_varintDecode_encode [of "word_of_nat ?n" "[]"]
      by (simp add: DI_constant_typed_def Let_def o ne un ct k split del: if_split cong: if_cong)
  qed
qed

interpretation constant_codec: lossless_codec "\<lambda>ctx p d. Some (EI_constant_typed ctx p d)"
  "\<lambda>ctx header ins. DI_constant_typed avx2 (\<lambda>n. map (f n) [0..<n]) ctx header ins" is_fixed for avx2 f
  by unfold_locales (auto intro: constant_roundtrip simp: fresh_memory_def)


section \<open>Properties\<close>

text \<open>
  The constant codec is lossless for serial and struct data, whatever the memory held, and
  with or without the vector loop: no store of the decoder leaves the destination.
\<close>

theorem constant_lossless:
  assumes "is_fixed d" "EI_constant_typed cctx p d = Inr (outs, hdr)"
    "fresh_memory mem" "\<And>n. ctx_alloc dctx n"
  shows "DI_constant_typed avx2 mem dctx hdr outs = Some (Inr d)"
  using assms by (rule constant_roundtrip)

theorem constant_lossless_witness:
  "DI_constant_typed True (\<lambda>n. replicate n 7) (big_ctx 11) [2]
     [\<lparr>data_type = ZL_Type_struct, eltWidth = 3, data_bytes = [1, 2, 3], stringLens = []\<rparr>]
   = Some (Inr \<lparr>data_type = ZL_Type_struct, eltWidth = 3, data_bytes = [1, 2, 3, 1, 2, 3],
       stringLens = []\<rparr>)"
proof -
  let ?d = "\<lparr>data_type = ZL_Type_struct, eltWidth = 3, data_bytes = [1, 2, 3, 1, 2, 3],
       stringLens = []\<rparr>"
  have "EI_constant_typed (big_ctx 11) () ?d = Inr ([?d\<lparr>data_bytes := [1, 2, 3]\<rparr>], [2])"
    by (simp add: EI_constant_typed_def Let_def numElts_def ZS_isConstantStream_def
        ZS_encodeConstant_def ZL_varintEncode.simps)
  moreover have "is_fixed ?d"
    by (simp add: is_fixed_def wf_data_def STREAM_validateTypeWidth_def dvd_eq_mod_eq_0)
  ultimately show ?thesis
    using constant_lossless [of ?d "big_ctx 11" "()" _ "[2]" "\<lambda>n. replicate n 7" "big_ctx 11" True]
    by (simp add: fresh_memory_def)
qed

text \<open>
  C34: on any input the decoder kernel of the constant codec fills its destination with copies of
  the element, for every element width: the stores of 1, 2, 4, 8, 16 or 32 bytes and of whole
  vector registers overlap, and the last ones stop exactly at the end.
\<close>

theorem constant_kernel_in_bounds:
  assumes "0 < n" "length src = w" "0 < w" "length buf = (if w \<le> 32 then 32 else w)"
    "length dst = n * w" "n * w < 2 ^ 64" "length junk = 32"
  shows "ZS_decodeConstant avx2 dst n src w buf junk = Some (concat (replicate n src))"
  using assms by (rule decodeConstant_elements)

theorem constant_kernel_in_bounds_witness:
  "ZS_decodeConstant True (replicate 60 9) 12 [1, 2, 3, 4, 5] 5 (replicate 32 8) (replicate 32 7)
   = Some (concat (replicate 12 [1, 2, 3, 4, 5]))"
  by (rule constant_kernel_in_bounds) simp_all

end
