(* ===== verification/NumOps.thy ===== *)
theory NumOps
  imports Codec_Stream
begin

text \<open>
  The array helpers of \<^verbatim>\<open>shared/numeric_operations.c\<close> and the element range of
  \<^verbatim>\<open>shared/estimate.c\<close>. Elements of any width are 64-bit words here; \<open>elts w\<close> reads an array of
  \<open>w\<close>-byte integers as the casts of the code do.
\<close>

abbreviation elts :: "nat \<Rightarrow> byte list \<Rightarrow> u64 list" where
  "elts w bs \<equiv> read_elts w bs"

section \<open>Elements as 64-bit values\<close>

lemma read_elts_write_elts_take:
  "0 < n \<Longrightarrow> read_elts n (write_elts n ws) = map (take_bit (8 * n)) (ws :: 'a::len word list)"
proof (induction ws)
  case Nil
  then show ?case by (subst read_elts.simps) simp
next
  case (Cons w ws)
  then show ?case by (simp add: read_elts_append read_le_write_le)
qed

lemma take_bit_read_le: "length bs \<le> n \<Longrightarrow> take_bit (8 * n) (read_le bs :: 'a::len word) = read_le bs"
  by (rule bit_word_eqI) (auto simp: bit_simps bit_read_le)

lemma elts_take_bit:
  "x \<in> set (read_elts w bs :: 'a::len word list) \<Longrightarrow> take_bit (8 * w) x = x"
proof (induction w bs rule: read_elts.induct)
  case (1 w bs)
  have "read_elts w bs = (if w = 0 \<or> length bs < w then []
      else read_le (take w bs) # read_elts w (drop w bs) :: 'a word list)"
    by (rule read_elts.simps)
  with 1 show ?case by (auto simp: take_bit_read_le split: if_splits)
qed

lemma write_elts_elts:
  assumes "ZL_isLegalIntegerWidth w" "w dvd length bs"
  shows "write_elts w (elts w bs) = bs"
  using assms by (intro write_elts_read_elts) (auto simp: ZL_isLegalIntegerWidth_def)

lemma read_elts_ucast:
  assumes "8 * w \<le> LENGTH('a::len)" "LENGTH('a) \<le> LENGTH('b::len)"
  shows "(read_elts w bs :: 'b word list) = map ucast (read_elts w bs :: 'a word list)"
  using assms(1)
proof (induction w bs rule: read_elts.induct)
  case (1 w bs)
  show ?case
  proof (cases "w = 0 \<or> length bs < w")
    case True
    then show ?thesis by (simp add: read_elts.simps)
  next
    case False
    then have "ucast (read_le (take w bs) :: 'a word) = (read_le (take w bs) :: 'b word)"
      using "1.prems" assms(2) by (intro ucast_read_le) simp_all
    with 1 False show ?thesis by (simp add: read_elts.simps [of w bs])
  qed
qed

lemma write_elts_take_bit:
  "0 < w \<Longrightarrow> \<forall>x \<in> set xs. take_bit (8 * w) x = x \<Longrightarrow> read_elts w (write_elts w xs) = (xs :: 'a::len word list)"
  by (simp add: read_elts_write_elts_take map_idI)

lemma take_bit_width_mono:
  "v \<le> w \<Longrightarrow> take_bit (8 * v) x = x \<Longrightarrow> take_bit (8 * w) x = (x :: 'a::len word)"
  by (metis take_bit_take_bit min.absorb2 mult_le_mono2)

lemma elts_fit: "\<forall>x \<in> set (elts w bs). take_bit (8 * w) x = x"
  by (simp add: elts_take_bit)

section \<open>Sums, limits and widths\<close>

definition NUMOP_sumArray32 :: "u32 list \<Rightarrow> u64" where
  "NUMOP_sumArray32 array = foldl (\<lambda>total x. total + ucast x) 0 array"

definition NUMOP_sumArrayST :: "size_t list \<Rightarrow> size_t" where
  "NUMOP_sumArrayST array = foldl (+) 0 array"

definition NUMOP_findMaxST :: "size_t list \<Rightarrow> size_t" where
  "NUMOP_findMaxST array = foldl (\<lambda>m x. if m < x then x else m) 0 array"

definition NUMOP_underLimit :: "u32 list \<Rightarrow> u32 \<Rightarrow> bool" where
  "NUMOP_underLimit array limit = foldl (\<lambda>u x. u \<and> x < limit) True array"

definition NUMOP_underLimitU16 :: "u16 list \<Rightarrow> u32 \<Rightarrow> bool" where
  "NUMOP_underLimitU16 array limit = foldl (\<lambda>u x. u \<and> ucast x < limit) True array"

definition NUMOP_numericWidthForValue :: "u64 \<Rightarrow> nat" where
  "NUMOP_numericWidthForValue maxValue =
     (if maxValue < 256 then 1 else if maxValue < 65536 then 2
      else if maxValue \<le> 0xffffffff then 4 else 8)"

definition NUMOP_numericWidthForArrayST :: "size_t list \<Rightarrow> nat" where
  "NUMOP_numericWidthForArrayST array = NUMOP_numericWidthForValue (NUMOP_findMaxST array)"

definition NUMOP_writeNumerics_fromST :: "nat \<Rightarrow> size_t list \<Rightarrow> byte list" where
  "NUMOP_writeNumerics_fromST numWidth srcST = concat (map (\<lambda>v. ZL_writeN v numWidth) srcST)"

definition NUMOP_writeNumerics_fromU32 :: "nat \<Rightarrow> u32 list \<Rightarrow> byte list" where
  "NUMOP_writeNumerics_fromU32 numWidth srcU = concat (map (\<lambda>v. ZL_writeN (ucast v) numWidth) srcU)"

definition NUMOP_writeST_fromNumerics :: "nat \<Rightarrow> byte list \<Rightarrow> nat \<Rightarrow> size_t list" where
  "NUMOP_writeST_fromNumerics nbValues srcNum numWidth =
     map (\<lambda>n. ZL_readN (drop (n * numWidth) srcNum) numWidth) [0..<nbValues]"

definition NUMOP_write32_fromNumerics :: "nat \<Rightarrow> byte list \<Rightarrow> nat \<Rightarrow> u32 list ZL_Result" where
  "NUMOP_write32_fromNumerics nbValues srcNum numWidth =
     (if nbValues = 0 then Inr []
      else if numWidth = 1 then Inr (map ucast (take nbValues (read_elts 1 srcNum :: u8 list)))
      else if numWidth = 2 then Inr (map ucast (take nbValues (read_elts 2 srcNum :: u16 list)))
      else if numWidth = 4 then Inr (take nbValues (read_elts 4 srcNum))
      else if numWidth = 8 then
        let src64 = take nbValues (read_elts 8 srcNum :: u64 list) in
        if list_ex (\<lambda>v. 0x100000000 \<le> v) src64 then Inl ZL_ErrorCode_integerOverflow
        else Inr (map ucast src64)
      else Inl ZL_ErrorCode_logicError)"

definition ZL_maxValueForWidth :: "nat \<Rightarrow> u64" where
  "ZL_maxValueForWidth width = (if width = 8 then - 1 else push_bit (width * 8) 1 - 1)"

text \<open>The smallest and the largest element; (0, 0) for an empty array.\<close>

definition ZL_computeUnsignedRange :: "byte list \<Rightarrow> nat \<Rightarrow> nat \<Rightarrow> u64 \<times> u64" where
  "ZL_computeUnsignedRange src nbElts eltSize =
     (let (mn, mx) = foldl (\<lambda>(mn, mx) x. (if x < mn then x else mn, if mx < x then x else mx))
            (ZL_maxValueForWidth eltSize, 0) (take nbElts (elts eltSize src))
      in (if nbElts = 0 then 0 else mn, mx))"

lemma foldl_add_u64: "foldl (+) c (map word_of_nat ds) = c + (word_of_nat (sum_list ds) :: u64)"
  by (induction ds arbitrary: c) (simp_all add: add.assoc)

lemma NUMOP_findMaxST_upper: "x \<in> set xs \<Longrightarrow> x \<le> NUMOP_findMaxST xs"
proof -
  have "m \<le> foldl (\<lambda>m x. if m < x then x else m) m xs
      \<and> (\<forall>x \<in> set xs. x \<le> foldl (\<lambda>m x. if m < x then x else m) m xs)" for m :: size_t
  proof (induction xs arbitrary: m)
    case (Cons y ys)
    from Cons [of "if m < y then y else m"] show ?case
      by (auto split: if_splits intro: order.trans)
  qed simp
  then show "x \<in> set xs \<Longrightarrow> x \<le> NUMOP_findMaxST xs" by (simp add: NUMOP_findMaxST_def)
qed

lemma underLimit_list_all [simp]:
  "NUMOP_underLimit xs limit \<longleftrightarrow> (\<forall>x \<in> set xs. x < limit)"
  "NUMOP_underLimitU16 ys limit \<longleftrightarrow> (\<forall>y \<in> set ys. ucast y < limit)"
proof -
  have "foldl (\<lambda>u x. u \<and> P x) b zs \<longleftrightarrow> b \<and> (\<forall>z \<in> set zs. P z)" for P :: "'z \<Rightarrow> bool" and b zs
    by (induction zs arbitrary: b) auto
  from this [of "\<lambda>x. x < limit" True xs]
  show "NUMOP_underLimit xs limit \<longleftrightarrow> (\<forall>x \<in> set xs. x < limit)"
    by (simp add: NUMOP_underLimit_def)
  have "foldl (\<lambda>u x. u \<and> P x) b zs \<longleftrightarrow> b \<and> (\<forall>z \<in> set zs. P z)" for P :: "u16 \<Rightarrow> bool" and b zs
    by (induction zs arbitrary: b) auto
  from this [of "\<lambda>x. ucast x < limit" True ys]
  show "NUMOP_underLimitU16 ys limit \<longleftrightarrow> (\<forall>y \<in> set ys. ucast y < limit)"
    by (simp add: NUMOP_underLimitU16_def)
qed

lemma numericWidth_legal [simp]: "ZL_isLegalIntegerWidth (NUMOP_numericWidthForValue v)"
  by (simp add: NUMOP_numericWidthForValue_def ZL_isLegalIntegerWidth_def)

lemma numericWidth_fits: "unat v < 2 ^ (8 * NUMOP_numericWidthForValue v)"
  using unat_lt2p64 [of v]
  by (auto simp: NUMOP_numericWidthForValue_def word_less_nat_alt word_le_nat_alt)

lemma take_bit_fits: "unat (x :: 'a::len word) < 2 ^ n \<Longrightarrow> take_bit n x = x"
  by (auto intro!: bit_word_eqI simp: bit_simps unat_less_exp_bits intro: ccontr)

lemma take_bit_unat_less: "take_bit n x = x \<Longrightarrow> unat (x :: 'a::len word) < 2 ^ n"
  by (metis unsigned_take_bit_eq take_bit_nat_less_exp)

lemma numericWidth_take_bit:
  assumes "x \<le> v"
  shows "take_bit (8 * NUMOP_numericWidthForValue v) x = x"
  using numericWidth_fits [of v] assms by (intro take_bit_fits) (simp add: word_le_nat_alt)

lemma numericWidth_least:
  assumes "ZL_isLegalIntegerWidth w" "unat v < 2 ^ (8 * w)"
  shows "NUMOP_numericWidthForValue v \<le> w"
  using assms by (auto simp: NUMOP_numericWidthForValue_def ZL_isLegalIntegerWidth_def
      word_less_nat_alt word_le_nat_alt)

lemma maxValueForWidth_mask: "ZL_isLegalIntegerWidth w \<Longrightarrow> ZL_maxValueForWidth w = mask (8 * w)"
  by (auto simp: ZL_maxValueForWidth_def ZL_isLegalIntegerWidth_def mask_eq_exp_minus_1)

lemma unat_maxValueForWidth:
  "ZL_isLegalIntegerWidth w \<Longrightarrow> unat (ZL_maxValueForWidth w) = 2 ^ (8 * w) - 1"
  by (auto simp: ZL_maxValueForWidth_def ZL_isLegalIntegerWidth_def unat_minus_1)

lemma computeUnsignedRange_bounds:
  assumes "ZL_computeUnsignedRange src n w = (mn, mx)" "x \<in> set (take n (elts w src))"
  shows "mn \<le> x" "x \<le> mx"
proof -
  let ?f = "\<lambda>(mn, mx) x. (if x < mn then x else mn, if mx < x then x else mx)"
  have "fst (foldl ?f p xs) \<le> fst p \<and> snd p \<le> snd (foldl ?f p xs)
      \<and> (\<forall>x \<in> set xs. fst (foldl ?f p xs) \<le> x \<and> x \<le> snd (foldl ?f p xs))"
    for p :: "u64 \<times> u64" and xs
  proof (induction xs arbitrary: p)
    case (Cons y ys)
    from Cons [of "?f p y"] show ?case
      by (cases p) (auto split: if_splits intro: order.trans)
  qed simp
  note this [of "(ZL_maxValueForWidth w, 0)" "take n (elts w src)"]
  moreover have "n \<noteq> 0" using assms(2) by (cases n) auto
  ultimately show "mn \<le> x" "x \<le> mx"
    using assms by (auto simp: ZL_computeUnsignedRange_def split: prod.splits)
qed

end
