(* ===== verification/Codec_RangePack.thy ===== *)
theory Codec_RangePack
  imports NumOps
begin

text \<open>
  The range pack codec (\<^verbatim>\<open>codecs/range_pack\<close>): elements minus a common value, at the smallest
  width that holds them. The types \<^verbatim>\<open>SrcInt\<close> and \<^verbatim>\<open>DstInt\<close> of the kernel macros are widths in
  bytes, and a cast to one of them is \<open>cast_to\<close>.
\<close>

section \<open>Kernels\<close>

definition cast_to :: "nat \<Rightarrow> u64 \<Rightarrow> u64" where
  "cast_to w x = take_bit (8 * w) x"

definition rangePack :: "nat \<Rightarrow> nat \<Rightarrow> byte list \<Rightarrow> nat \<Rightarrow> u64 \<Rightarrow> byte list" where
  "rangePack srcInt dstInt src nbElts minValue =
     (if minValue \<noteq> 0 then
        write_elts dstInt (map (\<lambda>x. cast_to dstInt (cast_to srcInt (x - minValue)))
          (take nbElts (elts srcInt src)))
      else if srcInt = dstInt then take (srcInt * nbElts) src
      else write_elts dstInt (map (cast_to dstInt) (take nbElts (elts srcInt src))))"

text \<open>The instances the dispatch knows; anything else is a failed assertion.\<close>

definition rangePackEncode :: "nat \<Rightarrow> byte list \<Rightarrow> nat \<Rightarrow> nat \<Rightarrow> u64 \<Rightarrow> byte list option" where
  "rangePackEncode dstWidth src srcWidth nbElts srcMinValue =
     (if (srcWidth, dstWidth) \<in> {(8, 8), (8, 4), (8, 2), (8, 1), (4, 4), (4, 2), (4, 1), (2, 2), (2, 1), (1, 1)}
      then Some (rangePack srcWidth dstWidth src nbElts (cast_to srcWidth srcMinValue))
      else None)"

definition rangeUnpack :: "nat \<Rightarrow> nat \<Rightarrow> byte list \<Rightarrow> nat \<Rightarrow> u64 \<Rightarrow> byte list" where
  "rangeUnpack dstInt srcInt src nbElts minValue =
     (if minValue \<noteq> 0 then
        write_elts dstInt (map (\<lambda>x. cast_to dstInt (cast_to dstInt x + minValue))
          (take nbElts (elts srcInt src)))
      else if srcInt = dstInt then take (srcInt * nbElts) src
      else write_elts dstInt (map (cast_to dstInt) (take nbElts (elts srcInt src))))"

definition rangePackDecode :: "nat \<Rightarrow> byte list \<Rightarrow> nat \<Rightarrow> nat \<Rightarrow> u64 \<Rightarrow> byte list option" where
  "rangePackDecode dstWidth src srcWidth nbElts dstMinValue =
     (if (dstWidth, srcWidth) \<in> {(8, 8), (8, 4), (8, 2), (8, 1), (4, 4), (4, 2), (4, 1), (2, 2), (2, 1), (1, 1)}
      then Some (rangeUnpack dstWidth srcWidth src nbElts (cast_to dstWidth dstMinValue))
      else None)"

section \<open>Bindings\<close>

text \<open>The local parameter is the reference \<^verbatim>\<open>ZL_RANGE_PACK_MAX_SUBTRACTED_PID\<close>, if it is set.\<close>

definition subtracted_value :: "byte list option \<Rightarrow> u64 \<Rightarrow> u64 ZL_Result" where
  "subtracted_value bound mn =
     (case bound of
        None \<Rightarrow> Inr mn
      | Some b \<Rightarrow> if length b \<noteq> 8 then Inl ZL_ErrorCode_graphParameter_invalid
                  else Inr (min mn (read_le b)))"

definition EI_rangePack ::
  "codec_ctx \<Rightarrow> byte list option \<Rightarrow> ZL_Data \<Rightarrow> (ZL_Data list \<times> byte list) ZL_Result option" where
  "EI_rangePack ctx bound d =
     (let src = data_bytes d; srcWidth = eltWidth d; nbElts = numElts d;
          (mn, mx) = ZL_computeUnsignedRange src nbElts srcWidth in
      case subtracted_value bound mn of
        Inl e \<Rightarrow> Some (Inl e)
      | Inr subtracted \<Rightarrow>
          let dstWidth = NUMOP_numericWidthForValue (mx - subtracted) in
          case createTypedStream ctx nbElts dstWidth of
            Inl e \<Rightarrow> Some (Inl e)
          | Inr _ \<Rightarrow> map_option (\<lambda>dst. Inr ([numeric dstWidth dst],
              word_of_nat srcWidth
                # (if subtracted \<noteq> 0 then take srcWidth (write_le 8 subtracted) else [])))
              (rangePackEncode dstWidth src srcWidth nbElts subtracted))"

definition DI_rangePack ::
  "codec_ctx \<Rightarrow> byte list \<Rightarrow> ZL_Data list \<Rightarrow> ZL_Data ZL_Result option" where
  "DI_rangePack ctx header ins =
     (let d = hd ins; src = data_bytes d; srcWidth = eltWidth d; nbElts = numElts d in
      if length header < 1 then Some (Inl ZL_ErrorCode_corruption)
      else let dstWidth = unat (hd header) in
      if dstWidth < srcWidth then Some (Inl ZL_ErrorCode_corruption)
      else if \<not> ZL_isLegalIntegerWidth dstWidth then Some (Inl ZL_ErrorCode_corruption)
      else if 1 < length header \<and> length header \<noteq> dstWidth + 1 then Some (Inl ZL_ErrorCode_corruption)
      else let minValue = (if 1 < length header then ZL_readLE64_N (tl header) dstWidth else 0) in
        case createTypedStream ctx nbElts dstWidth of
          Inl e \<Rightarrow> Some (Inl e)
        | Inr _ \<Rightarrow> map_option (\<lambda>dst. Inr (numeric dstWidth dst))
                     (rangePackDecode dstWidth src srcWidth nbElts minValue))"

section \<open>Round trip\<close>

lemma dispatch_widths:
  "(a, b) \<in> {(8, 8), (8, 4), (8, 2), (8, 1), (4, 4), (4, 2), (4, 1), (2, 2), (2, 1), (1, 1)}
   \<longleftrightarrow> ZL_isLegalIntegerWidth a \<and> ZL_isLegalIntegerWidth b \<and> b \<le> (a :: nat)"
  by (auto simp: ZL_isLegalIntegerWidth_def)

lemma rangePack_elts:
  assumes "ZL_isLegalIntegerWidth s" "ZL_isLegalIntegerWidth t" "t \<le> s" "s dvd length src"
    "n = length src div s" "\<And>x. x \<in> set (elts s src) \<Longrightarrow> take_bit (8 * t) (x - m) = x - m"
  shows "rangePack s t src n m = write_elts t (map (\<lambda>x. x - m) (elts s src))"
proof -
  have n: "take n (elts s src) = elts s src" "s * n = length src"
    using assms by (auto simp: ZL_isLegalIntegerWidth_def)
  have c: "cast_to t (cast_to s (x - m)) = x - m" "m = 0 \<Longrightarrow> cast_to t x = x"
    if "x \<in> set (elts s src)" for x
    using assms(3) assms(6) [OF that] by (auto simp: cast_to_def min_def)
  have e: "map (\<lambda>x. cast_to t (cast_to s (x - m))) (elts s src) = map (\<lambda>x. x - m) (elts s src)"
    "m = 0 \<Longrightarrow> map (cast_to t) (elts s src) = elts s src"
    using c by (auto intro: map_cong map_idI)
  have "s = t \<Longrightarrow> write_elts t (elts s src) = src"
    using assms by (auto intro: write_elts_elts)
  then show ?thesis unfolding rangePack_def n e(1) using e(2) by auto
qed

lemma rangeUnpack_elts:
  assumes "ZL_isLegalIntegerWidth s" "ZL_isLegalIntegerWidth t" "t \<le> s" "t dvd length src"
    "n = length src div t" "\<And>x. x \<in> set (elts t src) \<Longrightarrow> take_bit (8 * s) (x + m) = x + m"
  shows "rangeUnpack s t src n m = write_elts s (map (\<lambda>x. x + m) (elts t src))"
proof -
  have n: "take n (elts t src) = elts t src" "t * n = length src"
    using assms by (auto simp: ZL_isLegalIntegerWidth_def)
  have c: "cast_to s (cast_to s x + m) = x + m" "m = 0 \<Longrightarrow> cast_to s x = x"
    if "x \<in> set (elts t src)" for x
  proof -
    have "take_bit (8 * t) x = x" using that by (rule elts_take_bit)
    then have "take_bit (8 * s) x = x"
      using assms(3) by (metis take_bit_take_bit min.absorb2 mult_le_mono2)
    then show "cast_to s (cast_to s x + m) = x + m" "m = 0 \<Longrightarrow> cast_to s x = x"
      using assms(6) [OF that] by (auto simp: cast_to_def)
  qed
  have e: "map (\<lambda>x. cast_to s (cast_to s x + m)) (elts t src) = map (\<lambda>x. x + m) (elts t src)"
    "m = 0 \<Longrightarrow> map (cast_to s) (elts t src) = elts t src"
    using c by (auto intro: map_cong map_idI)
  have "t = s \<Longrightarrow> t * n = length src \<and> write_elts s (elts t src) = src"
    using assms n by (auto intro: write_elts_elts)
  then show ?thesis unfolding rangeUnpack_def n(1) e(1) using e(2) by auto
qed

lemma sub_mono:
  assumes "m \<le> mn" "mn \<le> x" "x \<le> mx"
  shows "m \<le> x \<and> x - m \<le> (mx - m :: 'a::len word)"
proof -
  have "m \<le> x" using assms by order
  moreover have "m \<le> mx" using assms by order
  ultimately show ?thesis using assms(3) by (simp add: word_le_nat_alt unat_sub)
qed

lemma range_min_fits:
  assumes "ZL_computeUnsignedRange bs n s = (mn, mx)" "n \<le> length (elts s bs)"
  shows "unat mn < 2 ^ (8 * s)"
proof (cases n)
  case 0
  with assms show ?thesis by (auto simp: ZL_computeUnsignedRange_def split: prod.splits)
next
  case (Suc k)
  then obtain x where x: "x \<in> set (take n (elts s bs))"
    using assms(2) by (cases "elts s bs") auto
  have "take_bit (8 * s) x = x" using x by (intro elts_take_bit) (rule in_set_takeD)
  then have "unat x < 2 ^ (8 * s)" by (rule take_bit_unat_less)
  with computeUnsignedRange_bounds(1) [OF assms(1) x] show ?thesis by (simp add: word_le_nat_alt)
qed

lemma range_max_fits:
  assumes "ZL_computeUnsignedRange bs n s = (mn, mx)" "n \<le> length (elts s bs)"
  shows "unat mx < 2 ^ (8 * s) \<and> mn \<le> mx"
proof (cases n)
  case 0
  with assms show ?thesis by (auto simp: ZL_computeUnsignedRange_def split: prod.splits)
next
  case (Suc k)
  let ?f = "\<lambda>(mn, mx) x. (if x < mn then x else mn, if mx < x then x else mx)"
  have mem: "snd (foldl ?f p xs) = snd p \<or> snd (foldl ?f p xs) \<in> set xs" for p :: "u64 \<times> u64" and xs
  proof (induction xs arbitrary: p)
    case (Cons y ys)
    from Cons [of "?f p y"] show ?case by (cases p) (auto split: if_splits)
  qed simp
  have "mx = 0 \<or> mx \<in> set (take n (elts s bs))"
    using assms(1) mem [of "(ZL_maxValueForWidth s, 0)" "take n (elts s bs)"]
    by (auto simp: ZL_computeUnsignedRange_def split: prod.splits)
  then have "unat mx < 2 ^ (8 * s)"
    by (auto dest!: in_set_takeD elts_take_bit intro: take_bit_unat_less)
  moreover obtain x where "x \<in> set (take n (elts s bs))"
    using Suc assms(2) by (cases "elts s bs") auto
  ultimately show ?thesis
    using computeUnsignedRange_bounds [OF assms(1), of x] by (auto intro: order.trans)
qed

lemma take_write_le: "k \<le> n \<Longrightarrow> take k (write_le n w) = write_le k w"
  by (simp add: write_le_def take_map)

lemma rangePack_roundtrip:
  assumes "is_numeric d" "EI_rangePack cctx p d = Some (Inr (outs, hdr))"
  shows "list_all wf_data outs"
    and "(\<And>n. ctx_alloc dctx n) \<Longrightarrow> DI_rangePack dctx hdr outs = Some (Inr d)"
proof -
  obtain s bs where d: "d = numeric s bs" and s: "ZL_isLegalIntegerWidth s" "0 < s"
    and l: "s dvd length bs" "length bs < 2 ^ 64"
    using assms(1) by (elim is_numericE)
  define n where "n = length bs div s"
  obtain mn mx where r: "ZL_computeUnsignedRange bs n s = (mn, mx)" by force
  obtain m where sv: "subtracted_value p mn = Inr m"
    using assms(2) by (auto simp: d EI_rangePack_def Let_def r n_def [symmetric] split: sum.splits)
  then have m: "m \<le> mn" by (auto simp: subtracted_value_def split: option.splits if_splits)
  define t where "t = NUMOP_numericWidthForValue (mx - m)"
  obtain dst where nt: "n * t < 2 ^ 64" and e: "rangePackEncode t bs s n m = Some dst"
    and o: "outs = [numeric t dst]" "hdr = word_of_nat s # (if m \<noteq> 0 then take s (write_le 8 m) else [])"
    using assms(2) by (auto simp: d EI_rangePack_def Let_def r n_def [symmetric] sv
        t_def [symmetric] split: sum.splits simp del: take_all_iff)
  let ?xs = "elts s bs"
  have n: "s * n = length bs" "length ?xs = n" using s l by (simp_all add: n_def)
  have "(s, t) \<in> {(8, 8), (8, 4), (8, 2), (8, 1), (4, 4), (4, 2), (4, 1), (2, 2), (2, 1), (1, 1)}"
    using e by (simp add: rangePackEncode_def split: if_splits)
  then have legal: "ZL_isLegalIntegerWidth t" "t \<le> s" unfolding dispatch_widths by simp_all
  have mw: "cast_to s m = m"
    using range_min_fits [OF r] m n unfolding cast_to_def
    by (intro take_bit_fits) (auto simp: word_le_nat_alt n_def intro: le_less_trans)
  have t0: "0 < t" using legal by (auto simp: ZL_isLegalIntegerWidth_def)
  have b: "m \<le> x \<and> x - m \<le> mx - m" if "x \<in> set ?xs" for x
    using computeUnsignedRange_bounds [OF r, of x] m n that
    by (intro sub_mono) (auto simp: n_def)
  have "rangePack s t bs n m = write_elts t (map (\<lambda>x. x - m) ?xs)"
    using s legal l b by (intro rangePack_elts) (auto simp: n_def t_def intro: numericWidth_take_bit)
  then have dst: "dst = write_elts t (map (\<lambda>x. x - m) ?xs)"
    using e mw by (auto simp: rangePackEncode_def split: if_splits)
  have ex: "elts t dst = map (\<lambda>x. x - m) ?xs"
    using b t0 by (auto simp: dst read_elts_write_elts_take t_def intro: numericWidth_take_bit)
  have "rangeUnpack s t dst n m = write_elts s (map (\<lambda>x. x + m) (elts t dst))"
    using s legal t0 n ex
    by (intro rangeUnpack_elts) (auto simp: dst elts_take_bit)
  then have inv: "rangeUnpack s t dst n m = bs"
    using s l by (simp add: ex comp_def write_elts_elts)
  have ld: "length dst = t * n" by (simp add: dst n)
  show "list_all wf_data outs"
    using legal nt by (simp add: o wf_numeric ld mult.commute)
  show "DI_rangePack dctx hdr outs = Some (Inr d)" if a: "\<And>n. ctx_alloc dctx n"
  proof -
    have us: "unat (word_of_nat s :: byte) = s" and s8: "s \<le> 8"
      using s by (auto simp: ZL_isLegalIntegerWidth_def)
    have ct: "createTypedStream dctx n s = Inr ()"
      using a l s n by (simp add: mult.commute)
    have k: "rangePackDecode s dst t n m = Some bs"
      unfolding rangePackDecode_def dispatch_widths using legal s inv mw by simp
    have h: "ZL_readLE64_N (write_le s m) s = m"
      using s8 mw by (simp add: ZL_readLE64_N_read_le read_le_write_le cast_to_def)
    have nt: "numElts (numeric t dst) = n" using t0 by (simp add: ld)
    show ?thesis
      using legal s k by (cases "m = 0") (simp_all add: DI_rangePack_def Let_def o d us ct h nt
          take_write_le s8 del: numElts_numeric)
  qed
qed


interpretation range_pack: lossless_codec EI_rangePack DI_rangePack is_numeric
  by unfold_locales (auto intro: rangePack_roundtrip)

text \<open>What the encoder sends: the elements minus the subtracted value, and no assertion fails.\<close>

lemma rangePack_spec:
  assumes "is_numeric d" "ZL_computeUnsignedRange (data_bytes d) (numElts d) (eltWidth d) = (mn, mx)"
    "subtracted_value p mn = Inr m" "\<And>n. ctx_alloc ctx n"
  defines "t \<equiv> NUMOP_numericWidthForValue (mx - m)"
  shows "t \<le> eltWidth d"
    "EI_rangePack ctx p d = Some (Inr ([numeric t (write_elts t (map (\<lambda>x. x - m) (elts (eltWidth d) (data_bytes d))))],
       word_of_nat (eltWidth d) # (if m \<noteq> 0 then write_le (eltWidth d) m else [])))"
proof -
  obtain s bs where d: "d = numeric s bs" and s: "ZL_isLegalIntegerWidth s" "0 < s"
    and l: "s dvd length bs" "length bs < 2 ^ 64"
    using assms(1) by (elim is_numericE)
  define n where "n = length bs div s"
  let ?xs = "elts s bs"
  have n: "s * n = length bs" "length ?xs = n" using s l by (simp_all add: n_def)
  have r: "ZL_computeUnsignedRange bs n s = (mn, mx)" using assms(2) by (simp add: d n_def)
  have m: "m \<le> mn" using assms(3) by (auto simp: subtracted_value_def split: option.splits if_splits)
  have b: "m \<le> x \<and> x - m \<le> mx - m" if "x \<in> set ?xs" for x
    using computeUnsignedRange_bounds [OF r, of x] m n that by (intro sub_mono) (auto simp: n_def)
  have "unat mx < 2 ^ (8 * s) \<and> m \<le> mx" using range_max_fits [OF r] m n by (auto intro: order.trans)
  then have "unat (mx - m) < 2 ^ (8 * s)" by (auto simp: unat_sub intro: le_less_trans [OF diff_le_self])
  then have ts: "t \<le> s" unfolding t_def using s(1) by (intro numericWidth_least)
  have legal: "ZL_isLegalIntegerWidth t" by (simp add: t_def)
  have mw: "cast_to s m = m"
    using range_min_fits [OF r] m n unfolding cast_to_def
    by (intro take_bit_fits) (auto simp: word_le_nat_alt n_def intro: le_less_trans)
  have "rangePack s t bs n m = write_elts t (map (\<lambda>x. x - m) ?xs)"
    using s legal ts l b by (intro rangePack_elts) (auto simp: n_def t_def intro: numericWidth_take_bit)
  then have e: "rangePackEncode t bs s n m = Some (write_elts t (map (\<lambda>x. x - m) ?xs))"
    unfolding rangePackEncode_def dispatch_widths using s legal ts mw by simp
  have "n * t \<le> length bs" using n(1) ts by (metis mult.commute mult_le_mono1)
  moreover have "0 < t" using legal by (auto simp: ZL_isLegalIntegerWidth_def)
  ultimately have c: "createTypedStream ctx n t = Inr ()" using l(2) assms(4) by simp
  have "s \<le> 8" using s(1) by (auto simp: ZL_isLegalIntegerWidth_def)
  then show "EI_rangePack ctx p d = Some (Inr ([numeric t (write_elts t (map (\<lambda>x. x - m)
      (elts (eltWidth d) (data_bytes d))))],
       word_of_nat (eltWidth d) # (if m \<noteq> 0 then write_le (eltWidth d) m else [])))"
    using assms(3) r e
    by (simp add: d EI_rangePack_def Let_def c take_write_le flip: n_def t_def)
  show "t \<le> eltWidth d" using ts by (simp add: d)
qed

section \<open>Properties\<close>

text \<open>
  The range pack codec is lossless, with or without a bound on the subtracted value.
\<close>

theorem rangePack_lossless:
  assumes "is_numeric d" "EI_rangePack cctx p d = Some (Inr (outs, hdr))"
    "formatVersion dctx = formatVersion cctx" "\<And>n. ctx_alloc dctx n"
  shows "DI_rangePack dctx hdr outs = Some (Inr d)"
  using assms by (rule range_pack.lossless)

theorem rangePack_lossless_witness:
  "DI_rangePack (big_ctx 20) [2, 0, 1] [numeric 1 [5, 0, 255]] = Some (Inr (numeric 2 [5, 1, 0, 1, 255, 1]))"
proof -
  let ?d = "numeric 2 [5, 1, 0, 1, 255, 1]"
  have x: "elts 2 [5, 1, 0, 1, 255, 1] = [0x105, 0x100, 0x1ff]"
    by (simp add: read_elts.simps)
  have "EI_rangePack (big_ctx 20) None ?d = Some (Inr ([numeric 1 [5, 0, 255]], [2, 0, 1]))"
    by (simp add: EI_rangePack_def Let_def ZL_computeUnsignedRange_def x ZL_maxValueForWidth_def
        subtracted_value_def NUMOP_numericWidthForValue_def createTypedStream_def rangePackEncode_def
        rangePack_def cast_to_def write_le_def upt_rec take_bit_eq_mask mask_eq_exp_minus_1)
  from rangePack_lossless [OF _ this] show ?thesis
    by (simp add: is_numeric_numeric ZL_isLegalIntegerWidth_def)
qed

text \<open>
  What the range pack encoder does, for every numeric input it can allocate the output for. It
  subtracts the smaller of the minimum and the bound from every element without wrapping,
  uses the smallest width that holds the largest difference, which is never wider than the
  input, and no assertion of the kernel fails.
\<close>

theorem rangePack_exact:
  assumes "is_numeric d" "ZL_computeUnsignedRange (data_bytes d) (numElts d) (eltWidth d) = (mn, mx)"
    "subtracted_value p mn = Inr m" "\<And>n. ctx_alloc ctx n"
  shows "NUMOP_numericWidthForValue (mx - m) \<le> eltWidth d
    \<and> (\<forall>x \<in> set (elts (eltWidth d) (data_bytes d)). m \<le> x)
    \<and> EI_rangePack ctx p d = Some (Inr
        ([numeric (NUMOP_numericWidthForValue (mx - m))
            (write_elts (NUMOP_numericWidthForValue (mx - m))
              (map (\<lambda>x. x - m) (elts (eltWidth d) (data_bytes d))))],
         word_of_nat (eltWidth d) # (if m \<noteq> 0 then write_le (eltWidth d) m else [])))"
proof -
  have "m \<le> x" if "x \<in> set (elts (eltWidth d) (data_bytes d))" for x
  proof -
    have "numElts d = length (elts (eltWidth d) (data_bytes d))"
      using assms(1) by (auto elim!: is_numericE)
    then have "mn \<le> x" using computeUnsignedRange_bounds(1) [OF assms(2), of x] that by simp
    moreover have "m \<le> mn" using assms(3) by (auto simp: subtracted_value_def split: option.splits if_splits)
    ultimately show ?thesis by order
  qed
  with rangePack_spec [OF assms] show ?thesis by blast
qed

theorem rangePack_exact_witness:
  "\<exists>hdr. EI_rangePack (big_ctx 20) None (numeric 1 [7, 9])
     = Some (Inr ([numeric 1 [0, 2]], hdr)) \<and> NUMOP_numericWidthForValue (9 - 7) \<le> 1"
proof -
  have x: "elts 1 [7, 9] = [7, 9]" by (simp add: read_elts.simps)
  note x = x [simplified]
  have r: "ZL_computeUnsignedRange (data_bytes (numeric 1 [7, 9])) (numElts (numeric 1 [7, 9]))
      (eltWidth (numeric 1 [7, 9])) = (7, 9)"
    by (simp add: ZL_computeUnsignedRange_def x ZL_maxValueForWidth_def)
  have n: "is_numeric (numeric 1 [7, 9])" by (simp add: is_numeric_numeric ZL_isLegalIntegerWidth_def)
  have m: "subtracted_value None 7 = Inr 7" by (simp add: subtracted_value_def)
  from rangePack_exact [OF n r m, of "big_ctx 20"] show ?thesis
    by (simp add: x NUMOP_numericWidthForValue_def write_le_def upt_rec)
qed

end
