(* ===== verification/Codec_Sentinel.thy ===== *)
theory Codec_Sentinel
  imports NumOps
begin

text \<open>
  The sentinel codec (\<^verbatim>\<open>codecs/sentinel\<close>): elements at chosen positions are replaced by a
  sentinel value and sent apart. Two encoders share one decoder: one picks the elements that
  do not fit a byte, the other gets positions and sentinel as parameters.
\<close>

section \<open>Kernels\<close>

text \<open>The loops over the elements, each read and written at its width.\<close>

primrec sentinelByte_loop :: "u64 list \<Rightarrow> u8 list \<times> u64 list" where
  "sentinelByte_loop [] = ([], [])"
| "sentinelByte_loop (v # vs) =
     (let (values, exceptions) = sentinelByte_loop vs in
      if v < 255 then (ucast v # values, exceptions) else (255 # values, v # exceptions))"

definition ZL_sentinelByteEncode :: "byte list \<Rightarrow> nat \<Rightarrow> nat \<Rightarrow> byte list \<times> byte list" where
  "ZL_sentinelByteEncode input n width =
     (let (values, exceptions) = sentinelByte_loop (take n (elts width input))
      in (write_elts 1 values, write_elts width exceptions))"

text \<open>
  \<open>i\<close> is the position, \<open>idx\<close> the indices not consumed yet. The error is the code the kernel
  returns: 1 for the sentinel at a position that is no exception, 2 for indices left over.
\<close>

primrec sentinel_loop :: "u64 \<Rightarrow> nat \<Rightarrow> size_t list \<Rightarrow> u64 list \<Rightarrow> nat + (u64 list \<times> u64 list)" where
  "sentinel_loop sentinel i idx [] = (if idx \<noteq> [] then Inl 2 else Inr ([], []))"
| "sentinel_loop sentinel i idx (v # vs) =
     (if idx \<noteq> [] \<and> unat (hd idx) = i then
        (case sentinel_loop sentinel (i + 1) (tl idx) vs of
           Inl e \<Rightarrow> Inl e
         | Inr (values, exceptions) \<Rightarrow> Inr (sentinel # values, v # exceptions))
      else if v = sentinel then Inl 1
      else (case sentinel_loop sentinel (i + 1) idx vs of
           Inl e \<Rightarrow> Inl e
         | Inr (values, exceptions) \<Rightarrow> Inr (v # values, exceptions)))"

definition ZL_sentinelEncode ::
  "byte list \<Rightarrow> nat \<Rightarrow> nat \<Rightarrow> size_t list \<Rightarrow> u64 \<Rightarrow> nat + (byte list \<times> byte list)" where
  "ZL_sentinelEncode input n width exceptionIndices sentinel =
     (case sentinel_loop sentinel 0 exceptionIndices (take n (elts width input)) of
        Inl e \<Rightarrow> Inl e
      | Inr (values, exceptions) \<Rightarrow> Inr (write_elts width values, write_elts width exceptions))"

primrec unsentinel_loop :: "u64 \<Rightarrow> u64 list \<Rightarrow> u64 list \<Rightarrow> nat + u64 list" where
  "unsentinel_loop sentinel exceptions [] = (if exceptions \<noteq> [] then Inl 2 else Inr [])"
| "unsentinel_loop sentinel exceptions (v # vs) =
     (if v \<noteq> sentinel then map_sum id (\<lambda>out. v # out) (unsentinel_loop sentinel exceptions vs)
      else if exceptions = [] then Inl 1
      else map_sum id (\<lambda>out. hd exceptions # out) (unsentinel_loop sentinel (tl exceptions) vs))"

definition ZL_sentinelDecode ::
  "byte list \<Rightarrow> byte list \<Rightarrow> nat \<Rightarrow> nat \<Rightarrow> nat \<Rightarrow> nat \<Rightarrow> u64 \<Rightarrow> nat + byte list" where
  "ZL_sentinelDecode values exceptions n numExceptions valWidth outWidth sentinel =
     map_sum id (write_elts outWidth)
       (unsentinel_loop sentinel (take numExceptions (elts outWidth exceptions))
         (take n (elts valWidth values)))"

section \<open>Bindings\<close>

definition sendSentinelHeader :: "u64 \<Rightarrow> nat \<Rightarrow> byte list" where
  "sendSentinelHeader sentinel valWidth =
     (if sentinel = ZL_maxValueForWidth valWidth then [] else ZL_varintEncode sentinel)"

definition EI_sentinel_byte ::
  "codec_ctx \<Rightarrow> unit \<Rightarrow> ZL_Data \<Rightarrow> (ZL_Data list \<times> byte list) ZL_Result" where
  "EI_sentinel_byte ctx p d =
     (let width = eltWidth d; n = numElts d in
      if width = 1 then Inl ZL_ErrorCode_node_invalid_input
      else res_bind (createTypedStream ctx n 1) (\<lambda>_.
        res_bind (createTypedStream ctx n width) (\<lambda>_.
        let (values, exceptions) = ZL_sentinelByteEncode (data_bytes d) n width
        in Inr ([numeric 1 values, numeric width exceptions], []))))"

text \<open>
  The local parameters: the array of indices, and the bytes of the sentinel, either of which
  may not be set.
\<close>

record sentinel_params =
  sentinel_indices :: "size_t list option"
  sentinel_value :: "byte list option"

definition chosen_sentinel :: "sentinel_params \<Rightarrow> nat \<Rightarrow> u64 ZL_Result" where
  "chosen_sentinel p width =
     (let maxVal = ZL_maxValueForWidth width in
      case sentinel_value p of
        None \<Rightarrow> Inr (maxVal AND maxVal)
      | Some b \<Rightarrow> if length b \<noteq> 8 then Inl ZL_ErrorCode_nodeParameter_invalid
                  else Inr (read_le b AND maxVal))"

definition EI_sentinel ::
  "codec_ctx \<Rightarrow> sentinel_params \<Rightarrow> ZL_Data \<Rightarrow> (ZL_Data list \<times> byte list) ZL_Result" where
  "EI_sentinel ctx p d =
     (let width = eltWidth d; n = numElts d in
      case sentinel_indices p of
        None \<Rightarrow> Inl ZL_ErrorCode_nodeParameter_invalid
      | Some exceptionIndices \<Rightarrow>
          res_bind (chosen_sentinel p width) (\<lambda>sentinel.
          res_bind (createTypedStream ctx n width) (\<lambda>_.
          res_bind (createTypedStream ctx (length exceptionIndices) width) (\<lambda>_.
          case ZL_sentinelEncode (data_bytes d) n width exceptionIndices sentinel of
            Inl rc \<Rightarrow> Inl ZL_ErrorCode_GENERIC
          | Inr (values, exceptions) \<Rightarrow>
              Inr ([numeric width values, numeric width exceptions],
                   sendSentinelHeader sentinel width)))))"

definition read_sentinel :: "byte list \<Rightarrow> u64 \<Rightarrow> u64 ZL_Result" where
  "read_sentinel header maxVal =
     (if header \<noteq> [] then
        res_bind (ZL_varintDecode header) (\<lambda>(decoded, rest).
        if maxVal < decoded then Inl ZL_ErrorCode_corruption else Inr decoded)
      else Inr maxVal)"

definition DI_sentinel ::
  "codec_ctx \<Rightarrow> byte list \<Rightarrow> ZL_Data list \<Rightarrow> ZL_Data ZL_Result" where
  "DI_sentinel ctx header ins =
     (let valuesIn = ins ! 0; exceptionsIn = ins ! 1;
          valWidth = eltWidth valuesIn; outWidth = eltWidth exceptionsIn;
          n = numElts valuesIn; numExceptions = numElts exceptionsIn;
          maxVal = ZL_maxValueForWidth valWidth in
      if outWidth < valWidth then Inl ZL_ErrorCode_corruption
      else res_bind (read_sentinel header maxVal) (\<lambda>sentinel.
        res_bind (createTypedStream ctx n outWidth) (\<lambda>_.
        case ZL_sentinelDecode (data_bytes valuesIn) (data_bytes exceptionsIn) n numExceptions
               valWidth outWidth sentinel of
          Inl rc \<Rightarrow> Inl ZL_ErrorCode_corruption
        | Inr out \<Rightarrow> Inr (numeric outWidth out))))"

section \<open>Round trip\<close>

lemma sentinelByte_loop_inverse:
  "sentinelByte_loop vs = (vals, exceptions) \<Longrightarrow>
     length vals = length vs \<and> set exceptions \<subseteq> set vs \<and> length exceptions \<le> length vs
     \<and> unsentinel_loop 255 exceptions (map ucast vals) = Inr vs"
proof (induction vs arbitrary: vals exceptions)
  case (Cons v vs)
  obtain a b where r: "sentinelByte_loop vs = (a, b)" by force
  note IH = Cons.IH [OF r]
  show ?case
  proof (cases "v < 255")
    case True
    then have u: "unat v < 255" by (simp add: word_less_nat_alt)
    then have "unat (ucast v :: u8) = unat v" by (simp add: unsigned_ucast_eq take_bit_nat_eq_self)
    then have "unat (ucast (ucast v :: u8) :: u64) = unat v" by simp
    then have "ucast (ucast v :: u8) = v" by (simp only: word_unat_eq_iff)
    moreover have "v \<noteq> 255" using True by auto
    ultimately show ?thesis using Cons.prems IH r True by auto
  next
    case False
    then show ?thesis using Cons.prems IH r by auto
  qed
qed simp

lemma sentinel_loop_inverse:
  "sentinel_loop s i idx vs = Inr (vals, exceptions) \<Longrightarrow>
     length vals = length vs \<and> set exceptions \<subseteq> set vs \<and> set vals \<subseteq> insert s (set vs)
     \<and> length exceptions = length idx \<and> unsentinel_loop s exceptions vals = Inr vs"
proof (induction vs arbitrary: i idx vals exceptions)
  case (Cons v vs)
  show ?case
  proof (cases "idx \<noteq> [] \<and> unat (hd idx) = i")
    case True
    with Cons.prems obtain a b where "sentinel_loop s (i + 1) (tl idx) vs = Inr (a, b)"
      "vals = s # a" "exceptions = v # b"
      by (auto split: sum.splits)
    with Cons.IH [of "i + 1" "tl idx" a b] True show ?thesis by auto
  next
    case False
    with Cons.prems obtain a b where "sentinel_loop s (i + 1) idx vs = Inr (a, b)"
      "vals = v # a" "exceptions = b" "v \<noteq> s"
      by (auto split: sum.splits if_splits)
    with Cons.IH [of "i + 1" idx a b] show ?thesis by auto
  qed
qed (auto split: if_splits)

lemma sentinel_decode:
  assumes "ZL_isLegalIntegerWidth w" "0 < w" "w dvd length bs" "length bs < 2 ^ 64"
    "unsentinel_loop s exceptions (elts v vals) = Inr (elts w bs)"
    "\<forall>x \<in> set exceptions. take_bit (8 * w) x = x" "length vals = v * (length bs div w)" "0 < v" "v \<le> w"
    "if hdr = [] then s = ZL_maxValueForWidth v
     else hdr = ZL_varintEncode s \<and> s \<le> ZL_maxValueForWidth v"
    "\<And>n. ctx_alloc ctx n"
  shows "DI_sentinel ctx hdr [numeric v vals, numeric w (write_elts w exceptions)] = Inr (numeric w bs)"
proof -
  define n where "n = length bs div w"
  have n: "n * w = length bs" "length vals div v = n" "length (elts v vals) = n"
    using assms by (simp_all add: n_def)
  have ct: "createTypedStream ctx n w = Inr ()" using assms n by simp
  have e: "read_elts w (write_elts w exceptions) = exceptions"
    using assms by (intro write_elts_take_bit) simp_all
  have k: "ZL_sentinelDecode vals (write_elts w exceptions) n (length exceptions) v w s = Inr bs"
    using assms n by (simp add: ZL_sentinelDecode_def e write_elts_elts)
  have "ZL_varintDecode (ZL_varintEncode s) = Inr (s, [])"
    using ZL_varintDecode_encode [of s "[]"] by simp
  then have "read_sentinel hdr (ZL_maxValueForWidth v) = Inr s"
    using assms(10)
    by (auto simp: read_sentinel_def not_less split: if_splits intro!: exI [of _ s])
  then show ?thesis
    using assms(2,9) by (simp add: DI_sentinel_def Let_def n(2) ct k)
qed

lemma sentinelByte_roundtrip:
  assumes "is_numeric d" "EI_sentinel_byte cctx p d = Inr (outs, hdr)"
  shows "list_all wf_data outs"
    and "(\<And>n. ctx_alloc dctx n) \<Longrightarrow> DI_sentinel dctx hdr outs = Inr d"
proof -
  obtain w bs where d: "d = numeric w bs" and w: "ZL_isLegalIntegerWidth w" "0 < w"
    and l: "w dvd length bs" "length bs < 2 ^ 64"
    using assms(1) by (elim is_numericE)
  define n where "n = length bs div w"
  have n: "w * n = length bs" "take n (elts w bs) = elts w bs" "length (elts w bs) = n"
    using w l by (simp_all add: n_def)
  obtain vals exs where k: "sentinelByte_loop (elts w bs) = (vals, exs)" by force
  note I = sentinelByte_loop_inverse [OF k]
  have o: "outs = [numeric 1 (write_elts 1 vals), numeric w (write_elts w exs)]" "hdr = []"
    using assms(2) k by (auto simp: d EI_sentinel_byte_def Let_def ZL_sentinelByteEncode_def n
        n_def [symmetric] split: if_splits)
  have len: "length vals = n" "length exs \<le> n" using I n by simp_all
  have "w * length exs \<le> length bs" using len(2) n(1) by (metis mult_le_mono2)
  moreover have "n \<le> length bs" using n(1) w(2) by (metis le_add1 mult_eq_if neq0_conv)
  ultimately show "list_all wf_data outs"
    using w l len(1) by (simp add: o wf_numeric ZL_isLegalIntegerWidth_def [of "Suc 0"])
  show "DI_sentinel dctx hdr outs = Inr d" if a: "\<And>n. ctx_alloc dctx n"
  proof -
    have r: "elts 1 (write_elts 1 vals) = map ucast vals"
      by (subst read_elts_ucast [where ?'a = 8]) (simp_all add: read_elts_write_elts)
    have "\<forall>x \<in> set exs. take_bit (8 * w) x = x" using I elts_fit by blast
    moreover have "unsentinel_loop 255 exs (elts 1 (write_elts 1 vals)) = Inr (elts w bs)"
      using I unfolding r by simp
    ultimately show ?thesis
      using w l a len n(1) unfolding o d
      by (intro sentinel_decode) (auto simp: ZL_maxValueForWidth_def n_def)
  qed
qed

lemma chosen_sentinel_fits:
  assumes "ZL_isLegalIntegerWidth w" "chosen_sentinel p w = Inr s"
  shows "take_bit (8 * w) s = s" "s \<le> ZL_maxValueForWidth w"
proof -
  obtain v where "s = v AND ZL_maxValueForWidth w"
    using assms(2) that [of "ZL_maxValueForWidth w"]
    by (auto simp: chosen_sentinel_def Let_def split: option.splits if_splits)
  then have "s = take_bit (8 * w) v"
    using assms(1) by (simp add: maxValueForWidth_mask flip: take_bit_eq_mask)
  then show t: "take_bit (8 * w) s = s" by simp
  show "s \<le> ZL_maxValueForWidth w"
    using take_bit_unat_less [OF t] unat_maxValueForWidth [OF assms(1)]
    by (simp add: word_le_nat_alt)
qed

lemma ZL_varintEncode_nonempty: "ZL_varintEncode s \<noteq> []"
  by (subst ZL_varintEncode.simps) simp

lemma sentinel_roundtrip:
  assumes "is_numeric d" "EI_sentinel cctx p d = Inr (outs, hdr)"
  shows "list_all wf_data outs"
    and "(\<And>n. ctx_alloc dctx n) \<Longrightarrow> DI_sentinel dctx hdr outs = Inr d"
proof -
  obtain w bs where d: "d = numeric w bs" and w: "ZL_isLegalIntegerWidth w" "0 < w"
    and l: "w dvd length bs" "length bs < 2 ^ 64"
    using assms(1) by (elim is_numericE)
  define n where "n = length bs div w"
  have n: "w * n = length bs" "take n (elts w bs) = elts w bs" "length (elts w bs) = n"
    using w l by (simp_all add: n_def)
  obtain idx s vals exs where s: "chosen_sentinel p w = Inr s"
    and k: "sentinel_loop s 0 idx (elts w bs) = Inr (vals, exs)"
    and o: "outs = [numeric w (write_elts w vals), numeric w (write_elts w exs)]"
      "hdr = sendSentinelHeader s w" and c: "length idx * w < 2 ^ 64"
    using assms(2) by (auto simp: d EI_sentinel_def Let_def ZL_sentinelEncode_def n
        n_def [symmetric] split: option.splits sum.splits)
  note I = sentinel_loop_inverse [OF k] and S = chosen_sentinel_fits [OF w(1) s]
  have fits: "\<forall>x \<in> set vals. take_bit (8 * w) x = x" "\<forall>x \<in> set exs. take_bit (8 * w) x = x"
    using I S(1) elts_fit by blast+
  show "list_all wf_data outs"
    using w l I n c by (simp add: o wf_numeric mult.commute)
  show "DI_sentinel dctx hdr outs = Inr d" if a: "\<And>n. ctx_alloc dctx n"
  proof -
    have "elts w (write_elts w vals) = vals" using fits w by (intro write_elts_take_bit) simp_all
    then have "unsentinel_loop s exs (elts w (write_elts w vals)) = Inr (elts w bs)" using I by simp
    moreover have "if hdr = [] then s = ZL_maxValueForWidth w
        else hdr = ZL_varintEncode s \<and> s \<le> ZL_maxValueForWidth w"
      using S(2) ZL_varintEncode_nonempty [of s] by (simp add: o sendSentinelHeader_def)
    ultimately show ?thesis
      using w l a fits I n unfolding o(1) d
      by (intro sentinel_decode) (auto simp: n_def)
  qed
qed

interpretation sentinel_byte: lossless_codec
  "\<lambda>ctx p d. Some (EI_sentinel_byte ctx p d)" "\<lambda>ctx header ins. Some (DI_sentinel ctx header ins)"
  is_numeric
  by unfold_locales (auto intro: sentinelByte_roundtrip)

interpretation sentinel: lossless_codec
  "\<lambda>ctx p d. Some (EI_sentinel ctx p d)" "\<lambda>ctx header ins. Some (DI_sentinel ctx header ins)"
  is_numeric
  by unfold_locales (auto intro: sentinel_roundtrip)

section \<open>Properties\<close>

text \<open>
  The sentinel codec is lossless for both encoders: what the byte encoder makes of a numeric
  input, and what the general one makes of it for any sentinel and any indices it accepts.
\<close>

theorem sentinel_lossless:
  assumes "is_numeric d" "\<And>n. ctx_alloc dctx n"
    "EI_sentinel_byte cctx () d = Inr (outs, hdr) \<or> EI_sentinel cctx p d = Inr (outs, hdr)"
  shows "DI_sentinel dctx hdr outs = Inr d"
  using assms by (auto intro: sentinelByte_roundtrip sentinel_roundtrip)

theorem sentinel_lossless_witness:
  "DI_sentinel (big_ctx 20) [] [numeric 1 [5, 255], numeric 2 [0, 1]] = Inr (numeric 2 [5, 0, 0, 1])"
proof -
  have x: "elts 2 [5, 0, 0, 1] = [5, 0x100]" by (simp add: read_elts.simps)
  have "EI_sentinel_byte (big_ctx 20) () (numeric 2 [5, 0, 0, 1])
      = Inr ([numeric 1 [5, 255], numeric 2 [0, 1]], [])"
    by (simp add: EI_sentinel_byte_def Let_def ZL_sentinelByteEncode_def x write_le_def upt_rec
        createTypedStream_def)
  from sentinel_lossless [OF _ _ disjI1, OF _ _ this] show ?thesis
    by (simp add: is_numeric_numeric ZL_isLegalIntegerWidth_def)
qed

text \<open>
  The inputs of the general encoder: the indices are increasing positions of the input, and no
  other position holds the sentinel.
\<close>

definition sentinel_input :: "u64 \<Rightarrow> nat \<Rightarrow> nat list \<Rightarrow> u64 list \<Rightarrow> bool" where
  "sentinel_input s i idx xs \<longleftrightarrow> sorted_wrt (<) idx \<and> (\<forall>j \<in> set idx. i \<le> j \<and> j < i + length xs)
     \<and> (\<forall>k < length xs. i + k \<notin> set idx \<longrightarrow> xs ! k \<noteq> s)"

lemma sentinel_input_Nil: "sentinel_input s i idx [] \<longleftrightarrow> idx = []"
  by (cases idx) (auto simp: sentinel_input_def)

lemma sentinel_input_Cons_here:
  "sentinel_input s i (i # idx) (v # vs) \<longleftrightarrow> sentinel_input s (Suc i) idx vs"
  by (fastforce simp: sentinel_input_def All_less_Suc2)

lemma sentinel_input_Cons_other:
  assumes "idx = [] \<or> hd idx \<noteq> i"
  shows "sentinel_input s i idx (v # vs) \<longleftrightarrow> v \<noteq> s \<and> sentinel_input s (Suc i) idx vs"
proof -
  have later: "\<forall>j \<in> set idx. Suc i \<le> j"
    if "sorted_wrt (<) idx" "\<forall>j \<in> set idx. i \<le> j"
    using that assms by (cases idx) (auto simp: Suc_le_eq order.strict_iff_order)
  show ?thesis
  proof
    assume R: "sentinel_input s i idx (v # vs)"
    then have ge: "\<forall>j \<in> set idx. Suc i \<le> j" by (intro later) (auto simp: sentinel_input_def)
    then have "i \<notin> set idx" by auto
    with R ge show "v \<noteq> s \<and> sentinel_input s (Suc i) idx vs"
      by (auto simp: sentinel_input_def All_less_Suc2)
  next
    assume "v \<noteq> s \<and> sentinel_input s (Suc i) idx vs"
    then show "sentinel_input s i idx (v # vs)"
      by (fastforce simp: sentinel_input_def All_less_Suc2)
  qed
qed

lemma sentinel_loop_accepts:
  "(\<exists>r. sentinel_loop s i idx xs = Inr r) \<longleftrightarrow> sentinel_input s i (map unat idx) xs"
proof (induction xs arbitrary: i idx)
  case Nil
  then show ?case by (simp add: sentinel_input_Nil)
next
  case (Cons v vs)
  show ?case
  proof (cases "idx \<noteq> [] \<and> unat (hd idx) = i")
    case True
    then obtain js where idx: "map unat idx = i # js" "map unat (tl idx) = js"
      by (cases idx) auto
    have "(\<exists>r. sentinel_loop s i idx (v # vs) = Inr r)
        \<longleftrightarrow> (\<exists>r. sentinel_loop s (i + 1) (tl idx) vs = Inr r)"
      using True by (auto split: sum.splits)
    with idx Cons [of "i + 1" "tl idx"] show ?thesis by (simp add: sentinel_input_Cons_here)
  next
    case False
    then have h: "map unat idx = [] \<or> hd (map unat idx) \<noteq> i" by (cases idx) auto
    have "(\<exists>r. sentinel_loop s i idx (v # vs) = Inr r)
        \<longleftrightarrow> v \<noteq> s \<and> (\<exists>r. sentinel_loop s (i + 1) idx vs = Inr r)"
      using False by (auto split: sum.splits)
    with Cons [of "i + 1" idx] sentinel_input_Cons_other [OF h] show ?thesis by simp
  qed
qed

lemma sentinel_loop_exceptions:
  "sentinel_loop s i idx xs = Inr (vals, exs) \<Longrightarrow>
     exs = map (\<lambda>j. xs ! (unat j - i)) idx \<and> (\<forall>j \<in> set idx. i \<le> unat j)"
proof (induction xs arbitrary: i idx vals exs)
  case (Cons v vs)
  show ?case
  proof (cases "idx \<noteq> [] \<and> unat (hd idx) = i")
    case True
    with Cons.prems obtain a b where r: "sentinel_loop s (i + 1) (tl idx) vs = Inr (a, b)"
      "exs = v # b"
      by (auto split: sum.splits)
    note IH = Cons.IH [OF r(1)]
    from True obtain j js where "idx = j # js" "unat j = i" by (cases idx) auto
    with IH r(2) show ?thesis by (auto simp: nth_Cons' Suc_le_eq)
  next
    case False
    with Cons.prems obtain a b where r: "sentinel_loop s (i + 1) idx vs = Inr (a, b)" "exs = b"
      by (auto split: sum.splits if_splits)
    from Cons.IH [OF r(1)] r(2) show ?thesis by (auto simp: nth_Cons' Suc_le_eq)
  qed
qed (auto split: if_splits)

text \<open>
  Exactly which inputs the general sentinel encoder accepts. The kernel succeeds if and only
  if the indices are increasing positions of the input and no other position holds the
  sentinel; the exceptions it sends are the elements at the indices.
\<close>

theorem sentinel_accepts:
  "((\<exists>r. sentinel_loop s 0 idx xs = Inr r) \<longleftrightarrow> sentinel_input s 0 (map unat idx) xs)
   \<and> (case sentinel_loop s 0 idx xs of
        Inl e \<Rightarrow> True | Inr (vals, exs) \<Rightarrow> exs = map (\<lambda>j. xs ! unat j) idx)"
  using sentinel_loop_accepts [of s 0 idx xs] sentinel_loop_exceptions [of s 0 idx xs]
  by (auto split: sum.splits)

end
