(* ===== verification/Codec_SparseNum.thy ===== *)
theory Codec_SparseNum
  imports NumOps
begin

text \<open>
  The sparse number codec (\<^verbatim>\<open>codecs/sparse_num\<close>): runs of a dominant value become distances
  between literals. The scan that lays out the streams, the encoder with its accounting of
  elements and the splitting of runs of \<open>2 ^ 32 - 1\<close>, the choice of the dominant value, the
  output count with its overflow check, and the decoder.
\<close>

section \<open>Encoder kernel\<close>

abbreviation (input) UINT32_MAX :: nat where "UINT32_MAX \<equiv> 4294967295"

definition ZL_sparseNumValidDistanceWidth :: "nat \<Rightarrow> bool" where
  "ZL_sparseNumValidDistanceWidth width \<longleftrightarrow> width = 1 \<or> width = 2 \<or> width = 4"

text \<open>Boyer-Moore voting over a prefix of at most 4096 elements.\<close>

definition vote :: "u64 \<times> nat \<Rightarrow> u64 \<Rightarrow> u64 \<times> nat" where
  "vote cv v =
     (let (candidate, votes) = cv in
      if votes = 0 then (v, 1)
      else if v = candidate then (candidate, votes + 1) else (candidate, votes - 1))"

definition ZL_sparseNumSelectDominant :: "byte list \<Rightarrow> nat \<Rightarrow> nat \<Rightarrow> u64" where
  "ZL_sparseNumSelectDominant src n valueWidth =
     (let sampleElts = (if n < 4096 then n else 4096);
          (candidate, votes) = foldl vote (0, 0) (take sampleElts (elts valueWidth src))
      in if votes = 0 then 0 else candidate)"

definition ZL_sparseNumDistanceWidth :: "nat \<Rightarrow> nat" where
  "ZL_sparseNumDistanceWidth maxDistance =
     (if maxDistance \<le> 255 then 1 else if maxDistance \<le> 65535 then 2 else 4)"

record ZL_SparseNumEncodeInfo =
  numDistances :: nat
  numValues :: nat
  distanceWidth :: nat

text \<open>The scan: \<open>run\<close> and \<open>maxDistance\<close> are \<^verbatim>\<open>uint32_t\<close> and never exceed their width.\<close>

primrec info_loop :: "u64 \<Rightarrow> nat \<Rightarrow> nat \<Rightarrow> nat \<Rightarrow> nat \<Rightarrow> u64 list \<Rightarrow> ZL_SparseNumEncodeInfo" where
  "info_loop dominant run maxDistance nv nd [] =
     (let (maxDistance, nd) =
            (if 0 < run then (if maxDistance < run then run else maxDistance, nd + 1)
             else (maxDistance, nd))
      in \<lparr>numDistances = nd, numValues = nv, distanceWidth = ZL_sparseNumDistanceWidth maxDistance\<rparr>)"
| "info_loop dominant run maxDistance nv nd (v # vs) =
     (if v = dominant then
        (if run = UINT32_MAX then info_loop dominant 0 UINT32_MAX (nv + 1) (nd + 1) vs
         else info_loop dominant (run + 1) maxDistance nv nd vs)
      else info_loop dominant 0 (if maxDistance < run then run else maxDistance) (nv + 1) (nd + 1) vs)"

definition ZL_sparseNumComputeEncodeInfo ::
  "byte list \<Rightarrow> nat \<Rightarrow> nat \<Rightarrow> u64 \<Rightarrow> ZL_SparseNumEncodeInfo" where
  "ZL_sparseNumComputeEncodeInfo src n valueWidth dominant =
     info_loop dominant 0 0 0 0 (take n (elts valueWidth src))"

text \<open>
  The writing pass: position \<open>i\<close>, elements accounted for \<open>done\<close>, current run; the distances
  and the literals written.
\<close>

primrec sparse_loop ::
  "bool \<Rightarrow> u64 \<Rightarrow> nat \<Rightarrow> nat \<Rightarrow> nat \<Rightarrow> u64 list \<Rightarrow> nat list \<times> u64 list" where
  "sparse_loop splitFullRun dominant i counted run [] =
     (if counted < i then [i - counted] else [], [])"
| "sparse_loop splitFullRun dominant i counted run (v # vs) =
     (if v = dominant then
        (if splitFullRun \<and> run = UINT32_MAX then
           (let (ds, vals) = sparse_loop splitFullRun dominant (i + 1) (i + 1) 0 vs
            in (UINT32_MAX # ds, v # vals))
         else sparse_loop splitFullRun dominant (i + 1) counted (run + 1) vs)
      else
        (let (ds, vals) = sparse_loop splitFullRun dominant (i + 1) (counted + run + 1) 0 vs
         in (run # ds, v # vals)))"

definition ZL_sparseNumEncode ::
  "byte list \<Rightarrow> nat \<Rightarrow> nat \<Rightarrow> nat \<Rightarrow> u64 \<Rightarrow> byte list \<times> byte list" where
  "ZL_sparseNumEncode src n valueWidth dw dominant =
     (let (ds, vals) = sparse_loop (if dominant = 0 \<and> dw = 1 then False else dw = 4)
            dominant 0 0 0 (take n (elts valueWidth src))
      in (write_elts dw (map (\<lambda>d. word_of_nat d :: u64) ds), write_elts valueWidth vals))"

section \<open>Decoder kernel\<close>

text \<open>\<^verbatim>\<open>ZL_SPARSE_NUM_DECODE_OUTPUT_COUNT_ERROR\<close> is \<^verbatim>\<open>SIZE_MAX\<close>.\<close>

primrec checked_count :: "size_t \<Rightarrow> size_t list \<Rightarrow> size_t" where
  "checked_count count [] = count"
| "checked_count count (d # ds) =
     (if SIZE_MAX - count \<le> d then SIZE_MAX else checked_count (count + d) ds)"

definition ZL_sparseNumDecodeOutputCount :: "byte list \<Rightarrow> nat \<Rightarrow> nat \<Rightarrow> nat \<Rightarrow> size_t" where
  "ZL_sparseNumDecodeOutputCount distances nd dw numLiterals =
     (let ds = take nd (elts dw distances); count = word_of_nat numLiterals in
      if nd \<le> UINT32_MAX \<and> numLiterals \<le> UINT32_MAX then foldl (+) count ds
      else if count = SIZE_MAX then SIZE_MAX
      else checked_count count ds)"

definition ZL_sparseNumDecodeBody :: "nat list \<Rightarrow> nat \<Rightarrow> u64 \<Rightarrow> u64 list \<Rightarrow> nat \<Rightarrow> nat \<Rightarrow> u64 list" where
  "ZL_sparseNumDecodeBody ds nd dominant vals nv valueWidth =
     (let writeRun = \<lambda>distance. replicate distance
            (if dominant = 0 then 0 else take_bit (8 * valueWidth) dominant)
      in concat (map (\<lambda>i. writeRun (ds ! i) @ [vals ! i]) [0..<nv])
         @ (if nd = nv + 1 then writeRun (ds ! nv) else []))"

definition ZL_sparseNumDecode ::
  "byte list \<Rightarrow> nat \<Rightarrow> nat \<Rightarrow> u64 \<Rightarrow> byte list \<Rightarrow> nat \<Rightarrow> nat \<Rightarrow> byte list" where
  "ZL_sparseNumDecode distances nd dw dominant vals nv valueWidth =
     write_elts valueWidth (ZL_sparseNumDecodeBody (map unat (elts dw distances)) nd dominant
       (elts valueWidth vals) nv valueWidth)"

section \<open>Bindings\<close>

definition ZL_sparseNumDominantFitsWidth :: "u64 \<Rightarrow> nat \<Rightarrow> bool" where
  "ZL_sparseNumDominantFitsWidth dominant width =
     (if width = 1 then dominant \<le> 0xff else if width = 2 then dominant \<le> 0xffff
      else if width = 4 then dominant \<le> 0xffffffff else width = 8)"

definition ZL_highbit64 :: "u64 \<Rightarrow> nat" where
  "ZL_highbit64 v = ZL_clz64 v XOR 63"

definition ZL_sparseNumWriteDominantHeader :: "u64 \<Rightarrow> byte list" where
  "ZL_sparseNumWriteDominantHeader dominant =
     ZL_writeLE64_N dominant (ZL_highbit64 dominant div 8 + 1)"

text \<open>
  The two nodes: \<open>autoDominant\<close> is false for \<^verbatim>\<open>EI_sparse_num\<close>. The parameter is the reference
  \<^verbatim>\<open>ZL_SPARSE_NUM_DOMINANT_VALUE_PID\<close>, if it is set.
\<close>

definition ZL_sparseNumEncoderDominant :: "byte list option \<Rightarrow> ZL_Data \<Rightarrow> u64 ZL_Result" where
  "ZL_sparseNumEncoderDominant param d =
     (case param of
        Some b \<Rightarrow>
          if length b \<noteq> 8 then Inl ZL_ErrorCode_graphParameter_invalid
          else if \<not> ZL_sparseNumDominantFitsWidth (read_le b) (eltWidth d)
            then Inl ZL_ErrorCode_node_invalid_input
          else if numElts d = 0 then Inr 0
          else Inr (read_le b)
      | None \<Rightarrow> Inr (ZL_sparseNumSelectDominant (data_bytes d) (numElts d) (eltWidth d)))"

definition ZL_sparseNumEncodeSelectedDominant ::
  "codec_ctx \<Rightarrow> u64 \<Rightarrow> ZL_Data \<Rightarrow> (ZL_Data list \<times> byte list) ZL_Result" where
  "ZL_sparseNumEncodeSelectedDominant ctx dominant d =
     (let header = (if dominant \<noteq> 0 then ZL_sparseNumWriteDominantHeader dominant else []);
          info = ZL_sparseNumComputeEncodeInfo (data_bytes d) (numElts d) (eltWidth d) dominant in
      res_bind (createTypedStream ctx (numDistances info) (distanceWidth info)) (\<lambda>_.
      res_bind (createTypedStream ctx (numValues info) (eltWidth d)) (\<lambda>_.
      let (ds, vals) = ZL_sparseNumEncode (data_bytes d) (numElts d) (eltWidth d)
            (distanceWidth info) dominant
      in Inr ([numeric (distanceWidth info) ds, numeric (eltWidth d) vals], header))))"

definition ZL_sparseNumEncodeNode ::
  "codec_ctx \<Rightarrow> bool \<times> byte list option \<Rightarrow> ZL_Data \<Rightarrow> (ZL_Data list \<times> byte list) ZL_Result" where
  "ZL_sparseNumEncodeNode ctx p d =
     (if \<not> ZL_isLegalIntegerWidth (eltWidth d) then Inl ZL_ErrorCode_node_invalid_input
      else res_bind (if fst p then ZL_sparseNumEncoderDominant (snd p) d else Inr 0) (\<lambda>dominant.
        ZL_sparseNumEncodeSelectedDominant ctx dominant d))"

definition DI_sparse_num ::
  "codec_ctx \<Rightarrow> byte list \<Rightarrow> ZL_Data list \<Rightarrow> ZL_Data ZL_Result" where
  "DI_sparse_num ctx header ins =
     (let distances = ins ! 0; vals = ins ! 1;
          dw = eltWidth distances; valueWidth = eltWidth vals;
          nd = numElts distances; nv = numElts vals in
      if \<not> ZL_sparseNumValidDistanceWidth dw then Inl ZL_ErrorCode_corruption
      else if \<not> ZL_isLegalIntegerWidth valueWidth then Inl ZL_ErrorCode_corruption
      else if valueWidth < length header then Inl ZL_ErrorCode_corruption
      else let dominant = (if header \<noteq> [] then ZL_readLE64_N header (length header) else 0) in
      if \<not> (nd = nv \<or> nv < 2 ^ 64 - 1 \<and> nd = nv + 1) then Inl ZL_ErrorCode_corruption
      else let outputCount = ZL_sparseNumDecodeOutputCount (data_bytes distances) nd dw nv in
      if outputCount = SIZE_MAX then Inl ZL_ErrorCode_integerOverflow
      else if fst (ZL_overflowMulST outputCount (word_of_nat valueWidth))
        then Inl ZL_ErrorCode_integerOverflow
      else res_bind (createTypedStream ctx (unat outputCount) valueWidth) (\<lambda>_.
        Inr (numeric valueWidth (ZL_sparseNumDecode (data_bytes distances) nd dw dominant
          (data_bytes vals) nv valueWidth))))"

section \<open>The streams and what they decode to\<close>

fun unsparse :: "u64 \<Rightarrow> nat list \<Rightarrow> u64 list \<Rightarrow> u64 list" where
  "unsparse dv (d # ds) (v # vs) = replicate d dv @ v # unsparse dv ds vs"
| "unsparse dv [d] [] = replicate d dv"
| "unsparse dv ds vs = []"

lemma body_unsparse:
  assumes "length ds = length vs \<or> length ds = length vs + 1" "take_bit (8 * w) dv = dv"
  shows "ZL_sparseNumDecodeBody ds (length ds) dv vs (length vs) w = unsparse dv ds vs"
proof -
  have z: "(if dv = 0 then 0 else take_bit (8 * w) dv) = dv" using assms(2) by simp
  have "concat (map (\<lambda>i. replicate (ds ! i) dv @ [vs ! i]) [0..<length vs])
      @ (if length ds = length vs + 1 then replicate (ds ! length vs) dv else []) = unsparse dv ds vs"
    if "length ds = length vs \<or> length ds = length vs + 1" for ds vs
    using that
  proof (induction dv ds vs rule: unsparse.induct)
    case (1 dv d ds v vs)
    have "map (\<lambda>i. replicate ((d # ds) ! i) dv @ [(v # vs) ! i]) [0..<Suc (length vs)]
        = (replicate d dv @ [v]) # map (\<lambda>i. replicate (ds ! i) dv @ [vs ! i]) [0..<length vs]"
      by (simp add: upt_conv_Cons map_Suc_upt [symmetric] del: upt_Suc map_Suc_upt)
    with 1 show ?case by (simp del: upt_Suc split: if_splits)
  qed simp_all
  from this [OF assms(1)] show ?thesis
    unfolding ZL_sparseNumDecodeBody_def Let_def z .
qed

lemma sparse_loop_inverse:
  "sparse_loop split dv i counted run xs = (ds, vals) \<Longrightarrow> counted + run = i \<Longrightarrow>
     unsparse dv ds vals = replicate run dv @ xs
     \<and> (length ds = length vals \<or> length ds = length vals + 1) \<and> set vals \<subseteq> set xs"
proof (induction xs arbitrary: i counted run ds vals)
  case Nil
  then show ?case by (auto split: if_splits)
next
  case (Cons x xs)
  show ?case
  proof (cases "x = dv \<and> \<not> (split \<and> run = UINT32_MAX)")
    case True
    with Cons.prems have "sparse_loop split dv (i + 1) counted (run + 1) xs = (ds, vals)"
      by (simp split: if_splits)
    from Cons.IH [OF this] Cons.prems(2) True show ?thesis
      by (auto simp: replicate_app_Cons_same)
  next
    case False
    obtain ds' vals' where r: "sparse_loop split dv (i + 1) (i + 1) 0 xs = (ds', vals')" by force
    have "ds = run # ds'" "vals = x # vals'"
      using Cons.prems False r by (auto split: if_splits prod.splits)
    with Cons.IH [OF r] show ?thesis by auto
  qed
qed


lemma info_loop_sparse:
  "sparse_loop True dv i counted run xs = (ds, vals) \<Longrightarrow> counted + run = i \<Longrightarrow>
     run \<le> UINT32_MAX \<Longrightarrow> m \<le> UINT32_MAX \<Longrightarrow>
     \<exists>m'. info_loop dv run m nv nd xs
        = \<lparr>numDistances = nd + length ds, numValues = nv + length vals,
           distanceWidth = ZL_sparseNumDistanceWidth m'\<rparr>
      \<and> m \<le> m' \<and> m' \<le> UINT32_MAX \<and> (\<forall>d \<in> set ds. d \<le> m')"
proof (induction xs arbitrary: i counted run m nv nd ds vals)
  case Nil
  then show ?case by (auto split: if_splits)
next
  case (Cons x xs)
  show ?case
  proof (cases "x = dv \<and> run \<noteq> UINT32_MAX")
    case True
    with Cons.prems have r: "sparse_loop True dv (i + 1) counted (run + 1) xs = (ds, vals)" by simp
    show ?thesis
      using Cons.IH [OF r, of m nv nd] Cons.prems True by simp
  next
    case False
    define m2 where "m2 = (if m < run then run else m)"
    obtain ds' vals' where r: "sparse_loop True dv (i + 1) (i + 1) 0 xs = (ds', vals')" by force
    have o: "ds = run # ds'" "vals = x # vals'"
      using Cons.prems False r by (auto split: if_splits prod.splits)
    have "info_loop dv run m nv nd (x # xs) = info_loop dv 0 m2 (nv + 1) (nd + 1) xs"
      using False Cons.prems(3,4) by (auto simp: m2_def)
    moreover have "m2 \<le> UINT32_MAX" "m \<le> m2" "run \<le> m2" using Cons.prems by (simp_all add: m2_def)
    moreover note Cons.IH [OF r, of m2 "nv + 1" "nd + 1"]
    ultimately show ?thesis by (auto simp: o)
  qed
qed

lemma sparse_loop_no_split:
  "sparse_loop True dv i counted run xs = (ds, vals) \<Longrightarrow> counted + run = i \<Longrightarrow>
     \<forall>d \<in> set ds. d < UINT32_MAX \<Longrightarrow> sparse_loop False dv i counted run xs = (ds, vals)"
proof (induction xs arbitrary: i counted run ds vals)
  case (Cons x xs)
  show ?case
  proof (cases "x = dv \<and> run \<noteq> UINT32_MAX")
    case True
    with Cons.prems have "sparse_loop True dv (i + 1) counted (run + 1) xs = (ds, vals)" by simp
    from Cons.IH [OF this] Cons.prems True show ?thesis by simp
  next
    case False
    obtain ds' vals' where r: "sparse_loop True dv (i + 1) (i + 1) 0 xs = (ds', vals')" by force
    have o: "ds = run # ds'" "vals = x # vals'"
      using Cons.prems False r by (auto split: if_splits prod.splits)
    then have "x \<noteq> dv" using Cons.prems False by auto
    with Cons.IH [OF r] Cons.prems o show ?thesis by simp
  qed
qed simp

lemma distance_width:
  "m \<le> UINT32_MAX \<Longrightarrow> m < 2 ^ (8 * ZL_sparseNumDistanceWidth m)"
  "ZL_sparseNumValidDistanceWidth (ZL_sparseNumDistanceWidth m)"
  "ZL_sparseNumDistanceWidth m \<noteq> 4 \<Longrightarrow> m < UINT32_MAX"
  by (auto simp: ZL_sparseNumDistanceWidth_def ZL_sparseNumValidDistanceWidth_def split: if_splits)

lemma length_unsparse:
  "length ds = length vals \<or> length ds = length vals + 1 \<Longrightarrow>
     length (unsparse dv ds vals) = length vals + sum_list ds"
  by (induction dv ds vals rule: unsparse.induct) auto

text \<open>What the encoder kernel writes, at the width the scan chose.\<close>

lemma sparse_encode:
  fixes w n src dv
  defines "info \<equiv> ZL_sparseNumComputeEncodeInfo src n w dv"
  defines "xs \<equiv> take n (elts w src)"
  obtains ds vals where
    "ZL_sparseNumEncode src n w (distanceWidth info) dv
       = (write_elts (distanceWidth info) (map (\<lambda>d. word_of_nat d :: u64) ds), write_elts w vals)"
    "numDistances info = length ds" "numValues info = length vals"
    "ZL_sparseNumValidDistanceWidth (distanceWidth info)"
    "\<forall>d \<in> set ds. d < 2 ^ (8 * distanceWidth info)"
    "unsparse dv ds vals = xs" "set vals \<subseteq> set xs"
    "length ds = length vals \<or> length ds = length vals + 1"
proof -
  obtain ds vals where r: "sparse_loop True dv 0 0 0 xs = (ds, vals)" by force
  obtain m where i: "info = \<lparr>numDistances = length ds, numValues = length vals,
      distanceWidth = ZL_sparseNumDistanceWidth m\<rparr>"
    and m: "m \<le> UINT32_MAX" "\<forall>d \<in> set ds. d \<le> m"
    using info_loop_sparse [OF r, of 0 0 0]
    by (auto simp: info_def xs_def ZL_sparseNumComputeEncodeInfo_def)
  have "sparse_loop (distanceWidth info = 4) dv 0 0 0 xs = (ds, vals)"
  proof (cases "distanceWidth info = 4")
    case False
    then have "m < UINT32_MAX" using i distance_width(3) by simp
    with m(2) False show ?thesis by (auto intro!: sparse_loop_no_split [OF r])
  qed (use r in simp)
  moreover have "(if dv = 0 \<and> distanceWidth info = 1 then False else distanceWidth info = 4)
      \<longleftrightarrow> distanceWidth info = 4" by simp
  ultimately have "ZL_sparseNumEncode src n w (distanceWidth info) dv
       = (write_elts (distanceWidth info) (map (\<lambda>d. word_of_nat d :: u64) ds), write_elts w vals)"
    unfolding ZL_sparseNumEncode_def xs_def [symmetric] by simp
  then show ?thesis
    using sparse_loop_inverse [OF r] m distance_width(1) [OF m(1)] distance_width(2) i
    by (intro that [of ds vals]) (auto intro: le_less_trans)
qed


section \<open>The count of the output\<close>

lemma checked_count:
  "c < 2 ^ 64 - 1 \<Longrightarrow> \<forall>d \<in> set ds. d < 2 ^ 64 \<Longrightarrow>
     checked_count (word_of_nat c) (map word_of_nat ds)
     = (if c + sum_list ds < 2 ^ 64 - 1 then word_of_nat (c + sum_list ds) else SIZE_MAX)"
proof (induction ds arbitrary: c)
  case (Cons d ds)
  have t: "SIZE_MAX - word_of_nat c \<le> (word_of_nat d :: u64) \<longleftrightarrow> 2 ^ 64 - 1 \<le> c + d"
    using Cons.prems by (simp add: word_le_nat_alt unat_sub unat_minus_1 unat_of_nat_u64) linarith
  show ?case
  proof (cases "2 ^ 64 - 1 \<le> c + d")
    case True
    with t show ?thesis by simp
  next
    case False
    with t Cons.IH [of "c + d"] Cons.prems show ?thesis by (simp add: add.assoc)
  qed
qed simp

lemma output_count:
  fixes nd dw nl distances
  assumes "dw \<le> 4" "nl < 2 ^ 64"
  defines "ds \<equiv> map unat (take nd (elts dw distances))"
  shows "ZL_sparseNumDecodeOutputCount distances nd dw nl
    = (if nl + sum_list ds < 2 ^ 64 - 1 then word_of_nat (nl + sum_list ds) else SIZE_MAX)"
proof -
  have e: "take nd (elts dw distances) = map word_of_nat ds" by (simp add: ds_def comp_def)
  have b: "\<forall>d \<in> set ds. d < 2 ^ 32"
  proof
    fix d assume "d \<in> set ds"
    then obtain x where "d = unat x" "x \<in> set (elts dw distances)"
      by (auto simp: ds_def dest: in_set_takeD)
    then have "d < 2 ^ (8 * dw)" using take_bit_unat_less elts_take_bit by blast
    also have "\<dots> \<le> 2 ^ 32" using assms(1) by (intro power_increasing) simp_all
    finally show "d < 2 ^ 32" .
  qed
  show ?thesis
  proof (cases "nd \<le> UINT32_MAX \<and> nl \<le> UINT32_MAX")
    case True
    have "sum_list ds \<le> length ds * (2 ^ 32 - 1)"
      using b by (induction ds) auto
    also have "\<dots> \<le> UINT32_MAX * (2 ^ 32 - 1)"
      using True by (intro mult_right_mono) (auto simp: ds_def)
    finally have "nl + sum_list ds < 2 ^ 64 - 1" using True by simp
    then show ?thesis
      using True unfolding ZL_sparseNumDecodeOutputCount_def Let_def e foldl_add_u64 by simp
  next
    case False
    have "(word_of_nat nl :: u64) = SIZE_MAX \<longleftrightarrow> nl = 2 ^ 64 - 1"
      using assms(2) by (simp add: word_unat_eq_iff unat_minus_1 unat_of_nat_u64)
    moreover have "\<forall>d \<in> set ds. d < 2 ^ 64" using b by auto
    moreover note checked_count [of nl ds]
    ultimately show ?thesis
      using False assms(2) unfolding ZL_sparseNumDecodeOutputCount_def Let_def e by auto
  qed
qed

section \<open>The header\<close>

lemma ZL_highbit64_top_bit: "dv \<noteq> 0 \<Longrightarrow> ZL_highbit64 dv = top_bit dv"
proof -
  assume nz: "dv \<noteq> 0"
  then obtain i where i: "bit dv i" by (auto simp: bit_eq_iff)
  have "bit dv (top_bit dv)"
    using top_bit(1) [of dv] top_bit(2) [of dv i] i by (auto simp: bit_simps split: if_splits)
  moreover have "\<not> bit dv j" if "top_bit dv < j" for j
    using top_bit(2) [of dv j] that by (auto simp: bit_simps)
  ultimately have "ZL_clz64 dv = 63 - top_bit dv" using top_bit(3) by (intro ZL_clz64_top_bit) auto
  moreover have "(63 - h) XOR 63 = h" if "h < 64" for h :: nat
  proof -
    have "\<forall>h \<in> set [0..<64]. (63 - h) XOR 63 = h" by code_simp
    with that show ?thesis by simp
  qed
  ultimately show ?thesis using top_bit(3) by (simp add: ZL_highbit64_def)
qed

lemma dominant_header:
  assumes "dv \<noteq> 0" "take_bit (8 * w) dv = dv" "0 < w"
  defines "h \<equiv> ZL_sparseNumWriteDominantHeader dv"
  shows "h \<noteq> []" "length h \<le> w" "length h \<le> 8" "ZL_readLE64_N h (length h) = dv"
proof -
  define n where "n = top_bit dv div 8 + 1"
  have h: "h = write_le n dv"
    by (simp add: h_def ZL_sparseNumWriteDominantHeader_def ZL_highbit64_top_bit [OF assms(1)]
        ZL_writeLE64_N_write_le n_def)
  then show "h \<noteq> []" by (simp add: n_def write_le_def)
  have t: "top_bit dv < 8 * w"
  proof (rule ccontr)
    assume "\<not> top_bit dv < 8 * w"
    moreover have "bit (dv OR 1) (top_bit dv)" by (rule top_bit)
    ultimately have "bit (take_bit (8 * w) dv) (top_bit dv)"
      using assms(2,3) by (auto simp: bit_simps)
    with \<open>\<not> top_bit dv < 8 * w\<close> show False by (simp add: bit_simps)
  qed
  then show "length h \<le> w" by (simp add: h n_def div_less_iff_less_mult mult.commute Suc_le_eq)
  show l: "length h \<le> 8" using top_bit(3) [of dv] by (simp add: h n_def)
  have "take_bit (8 * n) dv = dv"
  proof (rule bit_word_eqI)
    fix j assume "j < LENGTH(64)"
    have "j \<le> top_bit dv" if "bit dv j" using top_bit(2) [of dv j] that by (simp add: bit_simps)
    then show "bit (take_bit (8 * n) dv) j = bit dv j" by (auto simp: bit_simps n_def)
  qed
  then show "ZL_readLE64_N h (length h) = dv"
    using l by (simp add: ZL_readLE64_N_read_le h read_le_write_le)
qed

section \<open>The round trip\<close>

definition sparse_input :: "ZL_Data \<Rightarrow> bool" where
  "sparse_input d \<longleftrightarrow> is_numeric d \<and> numElts d < 2 ^ 64 - 1"

lemma select_dominant_fits:
  "take_bit (8 * w) (ZL_sparseNumSelectDominant src n w) = ZL_sparseNumSelectDominant src n w"
proof -
  have "fst (foldl vote p xs) \<in> insert (fst p) (set xs)" for p xs
    by (induction xs arbitrary: p) (fastforce simp: vote_def split: prod.splits if_splits)+
  from this [of "(0, 0)" "take (if n < 4096 then n else 4096) (elts w src)"]
  have "fst (foldl vote (0, 0) (take (if n < 4096 then n else 4096) (elts w src)))
      \<in> insert 0 (set (elts w src))" by (auto dest: in_set_takeD)
  then show ?thesis
    using elts_take_bit [of _ w src]
    by (auto simp: ZL_sparseNumSelectDominant_def Let_def split: prod.splits)
qed

lemma encoder_dominant_fits:
  assumes "ZL_isLegalIntegerWidth (eltWidth d)" "ZL_sparseNumEncoderDominant p d = Inr dv"
  shows "take_bit (8 * eltWidth d) dv = dv"
proof -
  have "take_bit (8 * eltWidth d) v = v" if "ZL_sparseNumDominantFitsWidth v (eltWidth d)" for v
    using that assms(1) unat_lt2p64 [of v]
    by (intro take_bit_fits)
      (auto simp: ZL_sparseNumDominantFitsWidth_def ZL_isLegalIntegerWidth_def word_le_nat_alt
        split: if_splits)
  with assms(2) show ?thesis
    by (auto simp: ZL_sparseNumEncoderDominant_def select_dominant_fits
        split: option.splits if_splits)
qed

lemma sparse_decode:
  assumes "ZL_isLegalIntegerWidth w" "ZL_sparseNumValidDistanceWidth dw"
    "\<forall>d \<in> set ds. d < 2 ^ (8 * dw)" "\<forall>v \<in> set vals. take_bit (8 * w) v = v"
    "length ds = length vals \<or> length ds = length vals + 1" "take_bit (8 * w) dv = dv"
    "length (unsparse dv ds vals) < 2 ^ 64 - 1" "length (unsparse dv ds vals) * w < 2 ^ 64"
    "\<And>n. ctx_alloc ctx n"
  shows "DI_sparse_num ctx (if dv = 0 then [] else ZL_sparseNumWriteDominantHeader dv)
      [numeric dw (write_elts dw (map (\<lambda>d. word_of_nat d :: u64) ds)), numeric w (write_elts w vals)]
    = Inr (numeric w (write_elts w (unsparse dv ds vals)))"
proof -
  have w: "0 < w" "0 < dw" "dw \<le> 4"
    using assms(1,2) by (auto simp: ZL_isLegalIntegerWidth_def ZL_sparseNumValidDistanceWidth_def)
  have "d < 2 ^ 64" if "d \<in> set ds" for d
  proof -
    have "(2 :: nat) ^ (8 * dw) \<le> 2 ^ 64" using w by (intro power_increasing) simp_all
    with assms(3) that show ?thesis by (meson order.strict_trans2)
  qed
  then have u: "map unat (map (\<lambda>d. word_of_nat d :: u64) ds) = ds"
    by (intro nth_equalityI) (simp_all add: unat_of_nat_u64)
  have "\<forall>x \<in> set (map (\<lambda>d. word_of_nat d :: u64) ds). take_bit (8 * dw) x = x"
  proof
    fix x assume "x \<in> set (map (\<lambda>d. word_of_nat d :: u64) ds)"
    then have "unat x \<in> set ds" using u by (metis image_eqI image_set)
    then show "take_bit (8 * dw) x = x" using assms(3) by (intro take_bit_fits) simp
  qed
  then have e: "elts dw (write_elts dw (map (\<lambda>d. word_of_nat d :: u64) ds))
      = map (\<lambda>d. word_of_nat d :: u64) ds" "elts w (write_elts w vals) = vals"
    using w assms(4) by (simp_all add: write_elts_take_bit)
  let ?n = "length (unsparse dv ds vals)"
  have n: "?n = length vals + sum_list ds" using assms(5) by (rule length_unsparse)
  have c: "ZL_sparseNumDecodeOutputCount (write_elts dw (map (\<lambda>d. word_of_nat d :: u64) ds))
      (length ds) dw (length vals) = word_of_nat ?n"
    using output_count [where dw = dw and nl = "length vals" and nd = "length ds"] assms(7) w n u
    by (simp add: e)
  have i: "(word_of_nat ?n :: u64) \<noteq> SIZE_MAX" "unat (word_of_nat ?n :: u64) = ?n"
    "unat (word_of_nat w :: u64) = w"
    using assms(1,7) by (auto simp: word_unat_eq_iff unat_minus_1 unat_of_nat_u64
        ZL_isLegalIntegerWidth_def)
  have b: "ZL_sparseNumDecodeBody ds (length ds) dv vals (length vals) w = unsparse dv ds vals"
    using assms(5,6) by (rule body_unsparse)
  have l: "length ds = length vals \<or> length vals < 2 ^ 64 - 1 \<and> length ds = length vals + 1"
    using n assms(5,7) by auto
  define h where "h = (if dv = 0 then [] else ZL_sparseNumWriteDominantHeader dv)"
  have h: "length h \<le> w" "(if h \<noteq> [] then ZL_readLE64_N h (length h) else 0) = dv"
    using dominant_header [OF _ assms(6) w(1)] by (auto simp: h_def)
  have ct: "createTypedStream ctx ?n w = Inr ()" using assms(8,9) w by simp
  show ?thesis
    unfolding h_def [symmetric] DI_sparse_num_def Let_def
    using assms(1,2,8) w l h(1)
    by (simp add: h(2) c i ct e u [simplified] b ZL_sparseNumDecode_def ZL_overflowMulST_def
        builtin_mul_overflow_def not_less)
qed

lemma sparse_roundtrip:
  assumes "sparse_input d" "ZL_sparseNumEncodeNode cctx p d = Inr (outs, hdr)"
  shows "list_all wf_data outs"
    and "(\<And>n. ctx_alloc dctx n) \<Longrightarrow> DI_sparse_num dctx hdr outs = Inr d"
proof -
  obtain w bs where d: "d = numeric w bs" and w: "ZL_isLegalIntegerWidth w" "0 < w"
    and l: "w dvd length bs" "length bs < 2 ^ 64"
    using assms(1) unfolding sparse_input_def by (blast elim: is_numericE)
  define n where "n = length bs div w"
  have n: "n * w = length bs" "take n (elts w bs) = elts w bs" "length (elts w bs) = n"
    using w l by (simp_all add: n_def)
  obtain dv where dv: "(if fst p then ZL_sparseNumEncoderDominant (snd p) d else Inr 0) = Inr dv"
    and s: "ZL_sparseNumEncodeSelectedDominant cctx dv d = Inr (outs, hdr)"
    using assms(2) by (auto simp: ZL_sparseNumEncodeNode_def simp del: if_split split: if_splits)
  have f: "take_bit (8 * w) dv = dv"
    using dv encoder_dominant_fits [of d] w by (auto simp: d split: if_splits)
  define info where "info = ZL_sparseNumComputeEncodeInfo bs n w dv"
  obtain ds vals where
    k: "ZL_sparseNumEncode bs n w (distanceWidth info) dv
       = (write_elts (distanceWidth info) (map (\<lambda>d. word_of_nat d :: u64) ds), write_elts w vals)"
    and c: "numDistances info = length ds" "numValues info = length vals"
    and v: "ZL_sparseNumValidDistanceWidth (distanceWidth info)"
      "\<forall>d \<in> set ds. d < 2 ^ (8 * distanceWidth info)"
    and u: "unsparse dv ds vals = elts w bs" "set vals \<subseteq> set (elts w bs)"
      "length ds = length vals \<or> length ds = length vals + 1"
    using sparse_encode [of bs n w dv] unfolding info_def [symmetric] n(2) by metis
  have o: "outs = [numeric (distanceWidth info)
        (write_elts (distanceWidth info) (map (\<lambda>d. word_of_nat d :: u64) ds)),
      numeric w (write_elts w vals)]"
    "hdr = (if dv = 0 then [] else ZL_sparseNumWriteDominantHeader dv)"
    "length ds * distanceWidth info < 2 ^ 64" "length vals * w < 2 ^ 64"
    using s c by (auto simp: ZL_sparseNumEncodeSelectedDominant_def Let_def d n_def [symmetric]
        info_def [symmetric] k)
  show "list_all wf_data outs"
    using o(3,4) v(1) w
    by (auto simp: o(1) wf_numeric mult.commute ZL_sparseNumValidDistanceWidth_def
        ZL_isLegalIntegerWidth_def)
  show "DI_sparse_num dctx hdr outs = Inr d" if a: "\<And>n. ctx_alloc dctx n"
  proof -
    have "n < 2 ^ 64 - 1" using assms(1) by (simp add: sparse_input_def d n_def)
    moreover have "\<forall>v \<in> set vals. take_bit (8 * w) v = v" using u(2) elts_fit by blast
    moreover have "write_elts w (elts w bs) = bs" using w(1) l(1) by (rule write_elts_elts)
    moreover note sparse_decode [OF w(1) v _ u(3) f _ _ a, unfolded u(1) n(3)]
    ultimately show ?thesis using n(1) l(2) by (simp add: o(1,2) d)
  qed
qed

interpretation sparse_num: lossless_codec
  "\<lambda>ctx p d. Some (ZL_sparseNumEncodeNode ctx p d)" "\<lambda>ctx header ins. Some (DI_sparse_num ctx header ins)"
  sparse_input
  by unfold_locales (auto intro: sparse_roundtrip)

section \<open>Voting\<close>

definition votes_bound :: "u64 \<times> nat \<Rightarrow> u64 list \<Rightarrow> bool" where
  "votes_bound cv xs \<longleftrightarrow> (\<forall>v. if v = fst cv then 2 * count_list xs v \<le> length xs + snd cv
     else 2 * count_list xs v + snd cv \<le> length xs)"

lemma votes_bound_step: "votes_bound cv xs \<Longrightarrow> votes_bound (vote cv x) (xs @ [x])"
proof -
  assume b: "votes_bound cv xs"
  obtain c k where cv: "cv = (c, k)" by force
  show ?thesis
  proof (cases "k = 0")
    case True
    then have "2 * count_list xs v \<le> length xs" for v
      using b spec [where x = v] by (auto simp: votes_bound_def cv split: if_splits)
    with True show ?thesis by (auto simp: votes_bound_def vote_def cv intro: le_SucI)
  next
    case False
    with b show ?thesis by (auto simp: votes_bound_def vote_def cv split: if_splits)
  qed
qed

lemma votes_bound_foldl: "votes_bound cv xs \<Longrightarrow> votes_bound (foldl vote cv ys) (xs @ ys)"
proof (induction ys arbitrary: cv xs)
  case (Cons y ys)
  from Cons.IH [OF votes_bound_step [OF Cons.prems]] show ?case by simp
qed simp

lemma majority_wins:
  assumes "length xs < 2 * count_list xs v"
  shows "fst (foldl vote (0, 0) xs) = v \<and> 0 < snd (foldl vote (0, 0) xs)"
proof -
  have "votes_bound (foldl vote (0, 0) xs) ([] @ xs)"
    by (rule votes_bound_foldl) (simp add: votes_bound_def)
  then have "if v = fst (foldl vote (0, 0) xs)
      then 2 * count_list xs v \<le> length xs + snd (foldl vote (0, 0) xs)
      else 2 * count_list xs v + snd (foldl vote (0, 0) xs) \<le> length xs"
    unfolding votes_bound_def append_Nil by (rule spec)
  with assms show ?thesis by (auto split: if_splits)
qed

section \<open>Properties\<close>

text \<open>
  C35: the sparse number codec is lossless for both nodes, whatever the dominant value: fixed at
  0, given as a parameter that fits the width, or chosen by voting. The scan and the writing
  pass agree, including the runs longer than a 32-bit distance. The input must have fewer than
  \<open>2 ^ 64 - 1\<close> elements, the count the decoder reserves for an error.
\<close>

theorem sparse_num_lossless:
  assumes "is_numeric d" "numElts d < 2 ^ 64 - 1" "\<And>n. ctx_alloc dctx n"
    "ZL_sparseNumEncodeNode cctx p d = Inr (outs, hdr)"
  shows "DI_sparse_num dctx hdr outs = Inr d"
  using assms sparse_roundtrip(2) [of d cctx p outs hdr dctx] by (simp add: sparse_input_def)

theorem sparse_num_lossless_witness:
  "DI_sparse_num (big_ctx 20) [7] [numeric 1 [1, 0, 1], numeric 1 [3, 4]] = Inr (numeric 1 [7, 3, 4, 7])"
proof -
  have x: "elts (Suc 0) [7, 3, 4, 7] = [7, 3, 4, 7]" by (simp add: read_elts.simps)
  have z: "ZL_clz64 7 = 61" by code_simp
  have h: "ZL_sparseNumWriteDominantHeader 7 = [7]"
    by (simp add: ZL_sparseNumWriteDominantHeader_def ZL_highbit64_def z ZL_writeLE64_N_def)
  have "ZL_sparseNumEncodeNode (big_ctx 20) (True, Some [7, 0, 0, 0, 0, 0, 0, 0])
      (numeric 1 [7, 3, 4, 7]) = Inr ([numeric 1 [1, 0, 1], numeric 1 [3, 4]], [7])"
    by (simp add: ZL_sparseNumEncodeNode_def ZL_sparseNumEncoderDominant_def
        ZL_sparseNumEncodeSelectedDominant_def ZL_sparseNumComputeEncodeInfo_def x h Let_def
        ZL_sparseNumDominantFitsWidth_def ZL_sparseNumEncode_def ZL_sparseNumDistanceWidth_def
        write_le_def ZL_isLegalIntegerWidth_def createTypedStream_def)
  from sparse_num_lossless [OF _ _ _ this] show ?thesis
    by (simp add: is_numeric_numeric ZL_isLegalIntegerWidth_def)
qed

text \<open>
  The output of the sparse number decoder, for streams nobody encoded: the count it computes
  before it allocates is the number of literals plus the sum of the distances, or the error
  value exactly when that sum does not fit below \<open>2 ^ 64 - 1\<close>, on the unchecked fast path as
  well; and the kernel writes exactly that many elements.
\<close>

theorem sparse_num_count_exact:
  assumes "ZL_sparseNumValidDistanceWidth dw" "dw * nd = length distances"
    "ZL_isLegalIntegerWidth w" "w * nv = length vals" "length vals < 2 ^ 64" "nd = nv \<or> nd = nv + 1"
  shows "ZL_sparseNumDecodeOutputCount distances nd dw nv
      = (if nv + sum_list (map unat (elts dw distances)) < 2 ^ 64 - 1
         then word_of_nat (nv + sum_list (map unat (elts dw distances))) else SIZE_MAX)
    \<and> length (ZL_sparseNumDecode distances nd dw dominant vals nv w)
      = w * (nv + sum_list (map unat (elts dw distances)))"
proof -
  have w: "0 < dw" "dw \<le> 4" "0 < w"
    using assms(1,3) by (auto simp: ZL_sparseNumValidDistanceWidth_def ZL_isLegalIntegerWidth_def)
  have n: "nd = length (elts dw distances)" "nv = length (elts w vals)"
    using w by (simp_all add: assms(2,4) [symmetric])
  have "nv < 2 ^ 64" using assms(4,5) w(3) by (metis le_less_trans mult_le_mono1 nat_mult_1 Suc_leI One_nat_def)
  note count = output_count [OF w(2) this, where nd = nd and distances = distances]
  define dv where "dv = take_bit (8 * w) dominant"
  define ds where "ds = map unat (elts dw distances)"
  have ln: "length ds = nd" using n by (simp add: ds_def)
  have "ZL_sparseNumDecodeBody ds nd dominant (elts w vals) nv w
      = ZL_sparseNumDecodeBody ds nd dv (elts w vals) nv w"
  proof -
    have "(if dominant = 0 then 0 else take_bit (8 * w) dominant)
        = (if dv = 0 then 0 else take_bit (8 * w) dv)" by (simp add: dv_def)
    then show ?thesis unfolding ZL_sparseNumDecodeBody_def Let_def by simp
  qed
  also have "\<dots> = unsparse dv ds (elts w vals)"
    using body_unsparse [of ds "elts w vals" w dv] assms(6) ln n by (simp add: dv_def)
  finally have "length (ZL_sparseNumDecodeBody ds nd dominant (elts w vals) nv w) = nv + sum_list ds"
    using length_unsparse [of ds "elts w vals" dv] assms(6) ln n by simp
  then show ?thesis
    using n count by (simp add: ZL_sparseNumDecode_def ds_def)
qed

theorem sparse_num_count_exact_witness:
  "ZL_sparseNumDecodeOutputCount [200, 100] 2 1 1 = 301"
proof -
  have "elts (Suc 0) [200, 100] = [200, 100]" by (simp add: read_elts.simps)
  then show ?thesis
    using sparse_num_count_exact [of 1 2 "[200, 100]" 1 1 "[9]" 0]
    by (simp add: ZL_sparseNumValidDistanceWidth_def ZL_isLegalIntegerWidth_def)
qed

text \<open>
  The dominant value the automatic node chooses: a value that more than half of the sampled
  elements have is always chosen, and what is chosen fits the width of the input.
\<close>

theorem sparse_num_majority:
  assumes "length (take 4096 (elts w src)) < 2 * count_list (take 4096 (elts w src)) v"
  shows "ZL_sparseNumSelectDominant src (length (elts w src)) w = v \<and> take_bit (8 * w) v = v"
proof -
  have "take (if length (elts w src) < 4096 then length (elts w src) else 4096) (elts w src)
      = take 4096 (elts w src)" by simp
  with majority_wins [OF assms]
  have "ZL_sparseNumSelectDominant src (length (elts w src)) w = v"
    unfolding ZL_sparseNumSelectDominant_def by (auto simp: Let_def split: prod.splits)
  with select_dominant_fits show ?thesis by metis
qed

theorem sparse_num_majority_witness: "ZL_sparseNumSelectDominant [5, 1, 5, 5, 2] 5 1 = 5"
proof -
  have e: "elts 1 [5, 1, 5, 5, 2] = [5, 1, 5, 5, 2]" by (simp add: read_elts.simps)
  have "ZL_sparseNumSelectDominant [5, 1, 5, 5, 2] (length (elts 1 [5, 1, 5, 5, 2])) 1 = 5"
    using sparse_num_majority [of 1 "[5, 1, 5, 5, 2]" 5] unfolding e by simp
  moreover have "length (elts 1 [5, 1, 5, 5, 2]) = 5" unfolding e by simp
  ultimately show ?thesis by (simp only:)
qed

end
