(* ===== verification/Codec_Dispatch.thy ===== *)
theory Codec_Dispatch
  imports Codec_RangePack
begin

text \<open>
  The dispatch codec (\<^verbatim>\<open>codecs/dispatchN_byTag\<close>): a serial input is cut into segments, each
  appended to the stream its tag names; tags and sizes travel as two numeric streams. Copies
  out of the bounds of a buffer have no defined behaviour and give \<^const>\<open>None\<close>.
\<close>

section \<open>Kernels\<close>

text \<open>A segment is a size and a tag. The buffers hold what has been written so far.\<close>

primrec dispatch_loop ::
  "(nat \<times> nat) list \<Rightarrow> byte list \<Rightarrow> nat list \<Rightarrow> byte list list \<Rightarrow> byte list list option" where
  "dispatch_loop [] src caps bufs = Some bufs"
| "dispatch_loop (s # segs) src caps bufs =
     (let (ssize, t) = s in
      if length src < ssize \<or> caps ! t < length (bufs ! t) + ssize then None
      else dispatch_loop segs (drop ssize src) caps (bufs[t := bufs ! t @ take ssize src]))"

definition ZL_dispatchN_byTag ::
  "size_t list \<Rightarrow> size_t list \<Rightarrow> u32 list \<Rightarrow> byte list \<Rightarrow> byte list list option" where
  "ZL_dispatchN_byTag outSizes segmentSizes tags src =
     dispatch_loop (zip (map unat segmentSizes) (map unat tags)) src (map unat outSizes)
       (replicate (length outSizes) [])"

definition copy_segment :: "nat \<Rightarrow> byte list \<Rightarrow> byte list" where
  "copy_segment segSize src =
     (if segSize = 1 then write_le 1 (ZL_read8 src)
      else if segSize = 2 then write_le 2 (ZL_read16 src)
      else if segSize = 4 then write_le 4 (ZL_read32 src)
      else if segSize = 8 then write_le 8 (ZL_read64 src)
      else take segSize src)"

text \<open>The decoder: \<open>room\<close> bytes are left at the destination.\<close>

primrec undispatch_loop :: "(nat \<times> nat) list \<Rightarrow> nat \<Rightarrow> byte list list \<Rightarrow> byte list option" where
  "undispatch_loop [] room srcs = Some []"
| "undispatch_loop (s # segs) room srcs =
     (let (segSize, tag) = s in
      if length (srcs ! tag) < segSize \<or> room < segSize then None
      else map_option ((@) (copy_segment segSize (srcs ! tag)))
             (undispatch_loop segs (room - segSize) (srcs[tag := drop segSize (srcs ! tag)])))"

definition ZL_dispatchN_byTag_decode ::
  "nat \<Rightarrow> byte list list \<Rightarrow> size_t list \<Rightarrow> u16 list \<Rightarrow> byte list option" where
  "ZL_dispatchN_byTag_decode dstCapacity srcs segmentSizes bufIndex =
     undispatch_loop (zip (map unat segmentSizes) (map unat bufIndex)) dstCapacity srcs"

section \<open>Bindings\<close>

text \<open>The two arrays of the instructions have \<^verbatim>\<open>nbSegments\<close> elements each.\<close>

record ZL_DispatchInstructions =
  dispatch_segments :: "(size_t \<times> u32) list"
  nbTags :: u32

abbreviation (input) segmentSizes where "segmentSizes si \<equiv> map fst (dispatch_segments si)"
abbreviation (input) tags where "tags si \<equiv> map snd (dispatch_segments si)"

text \<open>
  Where the instructions come from: the reference \<^verbatim>\<open>ZL_DISPATCH_INSTRUCTIONS_PID\<close>, or the
  external parser, which may fail.
\<close>

record dispatch_params =
  instructions :: "ZL_DispatchInstructions option"
  ext_parser :: "(ZL_Data \<Rightarrow> ZL_DispatchInstructions option) option"

definition getSplitInstructions :: "dispatch_params \<Rightarrow> ZL_Data \<Rightarrow> ZL_DispatchInstructions ZL_Result" where
  "getSplitInstructions p d =
     (if numElts d = 0 then Inr \<lparr>dispatch_segments = [], nbTags = 0\<rparr>
      else case instructions p of
        Some si \<Rightarrow> Inr si
      | None \<Rightarrow> (case ext_parser p of
          None \<Rightarrow> Inl ZL_ErrorCode_nodeParameter_invalid
        | Some f \<Rightarrow> (case f d of
            None \<Rightarrow> Inl ZL_ErrorCode_nodeParameter_invalid
          | Some si \<Rightarrow> Inr si)))"

definition sizes_byTags :: "(size_t \<times> nat) list \<Rightarrow> nat \<Rightarrow> size_t list" where
  "sizes_byTags segs n = foldl (\<lambda>outSizes (size, t). outSizes[t := outSizes ! t + size]) (replicate n 0) segs"

definition EI_dispatchN_byTag ::
  "codec_ctx \<Rightarrow> dispatch_params \<Rightarrow> ZL_Data \<Rightarrow> (ZL_Data list \<times> byte list) ZL_Result option" where
  "EI_dispatchN_byTag ctx p d =
     (case getSplitInstructions p d of Inl e \<Rightarrow> Some (Inl e) | Inr si \<Rightarrow>
      let inputSize = numElts d; nbSegments = length (dispatch_segments si);
          maxSegmentSize = NUMOP_findMaxST (segmentSizes si) in
      if (if formatVersion ctx < 20 then 256 \<le> nbTags si else 65536 \<le> nbTags si)
        then Some (Inl ZL_ErrorCode_temporaryLibraryLimitation)
      else if inputSize < unat maxSegmentSize then Some (Inl ZL_ErrorCode_nodeParameter_invalidValue)
      else if NUMOP_sumArrayST (segmentSizes si) \<noteq> word_of_nat inputSize
        then Some (Inl ZL_ErrorCode_nodeParameter_invalidValue)
      else if \<not> NUMOP_underLimit (tags si) (nbTags si)
        then Some (Inl ZL_ErrorCode_nodeParameter_invalidValue)
      else
      let tagsWidth = (if nbTags si = 0 then 1 else NUMOP_numericWidthForValue (ucast (nbTags si) - 1));
          segSizesWidth = NUMOP_numericWidthForValue maxSegmentSize;
          outSizes = sizes_byTags (zip (segmentSizes si) (map unat (tags si))) (unat (nbTags si)) in
      case res_bind (createTypedStream ctx nbSegments tagsWidth) (\<lambda>_.
           res_bind (createTypedStream ctx nbSegments segSizesWidth) (\<lambda>_.
           if \<not> ctx_alloc ctx (2 * unat (nbTags si) * 8) then Inl ZL_ErrorCode_allocation
           else if list_ex (\<lambda>n. createTypedStream ctx (unat n) 1 \<noteq> Inr ()) outSizes
             then Inl ZL_ErrorCode_allocation
           else Inr ())) of
        Inl e \<Rightarrow> Some (Inl e)
      | Inr _ \<Rightarrow> map_option (\<lambda>bufs. Inr
          (numeric tagsWidth (NUMOP_writeNumerics_fromU32 tagsWidth (tags si))
           # numeric segSizesWidth (NUMOP_writeNumerics_fromST segSizesWidth (segmentSizes si))
           # map serial bufs, []))
          (ZL_dispatchN_byTag outSizes (segmentSizes si) (tags si) (data_bytes d)))"

definition DI_dispatchN_byTag ::
  "codec_ctx \<Rightarrow> byte list \<Rightarrow> ZL_Data list \<Rightarrow> ZL_Data ZL_Result option" where
  "DI_dispatchN_byTag ctx header ins =
     (let tags = ins ! 0; segSizes = ins ! 1; inVariable = drop 2 ins;
          nbSegments = numElts segSizes; nbInVariable = length inVariable in
      if numElts tags \<noteq> nbSegments then Some (Inl ZL_ErrorCode_corruption)
      else if formatVersion ctx < 20 \<and> (256 \<le> nbInVariable \<or> 1 < eltWidth tags)
        then Some (Inl ZL_ErrorCode_temporaryLibraryLimitation)
      else if \<not> formatVersion ctx < 20 \<and> (65536 \<le> nbInVariable \<or> 2 < eltWidth tags)
        then Some (Inl ZL_ErrorCode_temporaryLibraryLimitation)
      else if list_ex (\<lambda>d. data_type d \<noteq> ZL_Type_serial) inVariable
        then Some (Inl ZL_ErrorCode_corruption)
      else
      let total = foldl (\<lambda>total d. total + word_of_nat (numElts d)) (0 :: size_t) inVariable in
      case createTypedStream ctx (unat total) 1 of Inl e \<Rightarrow> Some (Inl e) | Inr _ \<Rightarrow>
      if \<not> (ctx_alloc ctx (8 * nbInVariable) \<and> ctx_alloc ctx (8 * nbSegments)
           \<and> ctx_alloc ctx (2 * nbSegments)) then Some (Inl ZL_ErrorCode_allocation)
      else case rangePackDecode 8 (data_bytes segSizes) (eltWidth segSizes) nbSegments 0 of
        None \<Rightarrow> None
      | Some segBytes \<Rightarrow> (case rangePackDecode 2 (data_bytes tags) (eltWidth tags) nbSegments 0 of
          None \<Rightarrow> None
        | Some tagBytes \<Rightarrow>
            let segmentSizes = read_elts 8 segBytes; bufIndex = read_elts 2 tagBytes in
            if \<not> NUMOP_underLimitU16 bufIndex (word_of_nat nbInVariable)
              then Some (Inl ZL_ErrorCode_corruption)
            else if sizes_byTags (zip segmentSizes (map unat bufIndex)) nbInVariable
                \<noteq> map (\<lambda>d. word_of_nat (numElts d)) inVariable
              then Some (Inl ZL_ErrorCode_corruption)
            else map_option (\<lambda>bs. Inr (serial bs))
                   (ZL_dispatchN_byTag_decode (unat total) (map data_bytes inVariable)
                     segmentSizes bufIndex)))"

section \<open>Segments\<close>

definition tag_sum :: "nat \<Rightarrow> (nat \<times> nat) list \<Rightarrow> nat" where
  "tag_sum t segs = sum_list (map fst (filter (\<lambda>s. snd s = t) segs))"

lemma tag_sum_simps [simp]:
  "tag_sum t [] = 0"
  "tag_sum t ((n, u) # segs) = (if u = t then n else 0) + tag_sum t segs"
  by (simp_all add: tag_sum_def)

lemma copy_segment: "n \<le> length src \<Longrightarrow> copy_segment n src = take n src"
  using write_le_read_le [of "take n src", where ?'a = 8]
    write_le_read_le [of "take n src", where ?'a = 16]
    write_le_read_le [of "take n src", where ?'a = 32]
    write_le_read_le [of "take n src", where ?'a = 64]
  by (auto simp: copy_segment_def ZL_read8_def ZL_read16_def ZL_read32_def ZL_read64_def)

lemma length_sizes_byTags [simp]: "length (sizes_byTags segs n) = n"
proof -
  have "length (foldl (\<lambda>sizes (s, t). sizes[t := sizes ! t + s]) xs segs) = length xs" for xs :: "size_t list"
    by (induction segs arbitrary: xs) (auto split: prod.splits)
  then show ?thesis by (simp add: sizes_byTags_def)
qed

lemma sizes_byTags:
  assumes "\<forall>s \<in> set segs. snd s < n" "t < n"
  shows "sizes_byTags segs n ! t = word_of_nat (tag_sum t (map (\<lambda>(s, u). (unat s, u)) segs))"
proof -
  have "foldl (\<lambda>sizes (s, t). sizes[t := sizes ! t + s]) xs segs ! t
      = xs ! t + word_of_nat (tag_sum t (map (\<lambda>(s, u). (unat s, u)) segs))"
    if "\<forall>s \<in> set segs. snd s < length xs" "t < length xs" for xs :: "size_t list"
    using that by (induction segs arbitrary: xs) (auto simp: nth_list_update split: prod.splits)
  from this [of "replicate n 0"] assms show ?thesis by (simp add: sizes_byTags_def)
qed

lemma dispatch_loop_inverse:
  assumes "dispatch_loop segs src caps bufs = Some out" "\<forall>s \<in> set segs. snd s < length bufs"
  shows "\<exists>ds. length ds = length bufs \<and> out = map2 (@) bufs ds
    \<and> (\<forall>t < length bufs. length (ds ! t) = tag_sum t segs)
    \<and> sum_list (map fst segs) \<le> length src
    \<and> (\<forall>room \<ge> sum_list (map fst segs).
         undispatch_loop segs room ds = Some (take (sum_list (map fst segs)) src))"
  using assms
proof (induction segs arbitrary: src bufs)
  case Nil
  have "map2 (@) bufs (replicate (length bufs) []) = bufs" by (rule nth_equalityI) simp_all
  with Nil show ?case by (intro exI [of _ "replicate (length bufs) []"]) simp
next
  case (Cons s segs)
  obtain n t where s: "s = (n, t)" by force
  define bufs' where "bufs' = bufs[t := bufs ! t @ take n src]"
  have n: "n \<le> length src" and t: "t < length bufs"
    and r: "dispatch_loop segs (drop n src) caps bufs' = Some out"
    using Cons.prems by (auto simp: s bufs'_def not_less split: if_splits)
  from Cons.IH [OF r] Cons.prems(2) obtain ds where
    ds: "length ds = length bufs" "out = map2 (@) bufs' ds"
      "\<forall>u < length bufs. length (ds ! u) = tag_sum u segs"
    and sum: "sum_list (map fst segs) \<le> length src - n"
    and u: "\<And>room. sum_list (map fst segs) \<le> room \<Longrightarrow>
         undispatch_loop segs room ds = Some (take (sum_list (map fst segs)) (drop n src))"
    by (auto simp: bufs'_def)
  define es where "es = ds[t := take n src @ ds ! t]"
  have "out = map2 (@) bufs es"
    by (rule nth_equalityI) (use ds t in \<open>auto simp: es_def bufs'_def nth_list_update\<close>)
  moreover have "es[t := drop n (es ! t)] = ds" "length (es ! t) \<ge> n" "take n (es ! t) = take n src"
    using ds(1) t n by (simp_all add: es_def)
  ultimately show ?case
    using ds n t sum
    by (intro exI [of _ es])
      (auto simp: s es_def nth_list_update copy_segment u take_add [symmetric])
qed

section \<open>The decoder\<close>

lemma unpack_to:
  assumes "ZL_isLegalIntegerWidth s" "ZL_isLegalIntegerWidth t" "t \<le> s" "t dvd length src"
  shows "rangePackDecode s src t (length src div t) 0 = Some (write_elts s (elts t src))"
    "elts s (write_elts s (elts t src)) = elts t src"
proof -
  have f: "\<forall>x \<in> set (elts t src). take_bit (8 * s) x = x"
    using elts_fit take_bit_width_mono [OF assms(3)] by blast
  have "rangeUnpack s t src (length src div t) 0 = write_elts s (map (\<lambda>x. x + 0) (elts t src))"
    using assms f by (intro rangeUnpack_elts) simp_all
  moreover have "(s, t) \<in> {(8, 8), (8, 4), (8, 2), (8, 1), (4, 4), (4, 2), (4, 1), (2, 2), (2, 1), (1, 1)}"
    unfolding dispatch_widths using assms by simp
  ultimately show "rangePackDecode s src t (length src div t) 0 = Some (write_elts s (elts t src))"
    unfolding rangePackDecode_def by (simp only: if_True cast_to_def take_bit_of_0 add_0_right map_ident)
  show "elts s (write_elts s (elts t src)) = elts t src"
    using f assms(1) by (intro write_elts_take_bit) (auto simp: ZL_isLegalIntegerWidth_def)
qed

lemma unat_ucast_u16 [simp]:
  "unat (ucast (x :: u16) :: u32) = unat x" "unat (ucast (x :: u16) :: u64) = unat x"
  using unsigned_less [of x, where ?'a = nat] by (simp_all add: unsigned_ucast_eq take_bit_nat_eq_self)

lemma unat_elts_2: "map unat (read_elts 2 bs :: u16 list) = map unat (elts 2 bs)"
proof -
  have "elts 2 bs = map ucast (read_elts 2 bs :: u16 list)" by (rule read_elts_ucast) simp_all
  then show ?thesis by simp
qed

lemma foldl_total: "foldl (\<lambda>total d. total + word_of_nat (numElts d)) (c :: size_t) (map serial bufs)
    = c + word_of_nat (sum_list (map length bufs))"
  by (induction bufs arbitrary: c) (simp_all add: add.assoc numElts_def)

text \<open>The decoder past its limits and allocations, in terms of the two lists of elements.\<close>

lemma DI_dispatch_kernel:
  fixes sw sb tw tb bufs
  defines "segs \<equiv> zip (map unat (elts sw sb)) (map unat (elts tw tb))"
  assumes "is_numeric (numeric tw tb)" "is_numeric (numeric sw sb)" "length tb div tw = length sb div sw"
    "tw \<le> (if formatVersion ctx < 20 then 1 else 2)"
    "length bufs < (if formatVersion ctx < 20 then 256 else 65536)"
    "sum_list (map length bufs) < 2 ^ 64" "\<And>n. ctx_alloc ctx n"
  shows "DI_dispatchN_byTag ctx hdr (numeric tw tb # numeric sw sb # map serial bufs)
    = (if (\<forall>s \<in> set segs. snd s < length bufs)
         \<and> (\<forall>t < length bufs. (word_of_nat (tag_sum t segs) :: size_t) = word_of_nat (length (bufs ! t)))
       then map_option (\<lambda>bs. Inr (serial bs)) (undispatch_loop segs (sum_list (map length bufs)) bufs)
       else Some (Inl ZL_ErrorCode_corruption))"
proof -
  have w: "ZL_isLegalIntegerWidth tw" "tw dvd length tb" "ZL_isLegalIntegerWidth sw" "sw dvd length sb"
    "sw \<le> 8" "tw \<le> 2" "0 < tw" "0 < sw"
    using assms(2,3,5) by (auto simp: is_numeric_numeric ZL_isLegalIntegerWidth_def split: if_splits)
  have u: "rangePackDecode 8 sb sw (length sb div sw) 0 = Some (write_elts 8 (elts sw sb))"
    "elts 8 (write_elts 8 (elts sw sb)) = elts sw sb"
    "rangePackDecode 2 tb tw (length sb div sw) 0 = Some (write_elts 2 (elts tw tb))"
    "elts 2 (write_elts 2 (elts tw tb)) = elts tw tb"
    using unpack_to [of 8 sw sb] unpack_to [of 2 tw tb] w assms(4)
    by (simp_all add: ZL_isLegalIntegerWidth_def)
  define T where "T = (read_elts 2 (write_elts 2 (elts tw tb)) :: u16 list)"
  have T: "map unat T = map unat (elts tw tb)" by (simp add: T_def unat_elts_2 u)
  have len: "length (elts sw sb) = length T"
    using arg_cong [OF T, of length] assms(4) w by simp
  have segs: "segs = map (\<lambda>(s, u). (unat s, u)) (zip (elts sw sb) (map unat T))"
    by (simp add: segs_def T zip_map1 zip_map2 comp_def split_def)
  have b: "length bufs < 2 ^ 32" using assms(6) by (auto split: if_splits)
  have lim: "NUMOP_underLimitU16 T (word_of_nat (length bufs)) \<longleftrightarrow> (\<forall>s \<in> set segs. snd s < length bufs)"
  proof -
    have "NUMOP_underLimitU16 T (word_of_nat (length bufs)) \<longleftrightarrow> (\<forall>x \<in> set (map unat T). x < length bufs)"
      using b by (simp add: word_less_nat_alt unsigned_of_nat take_bit_nat_eq_self)
    also have "map unat T = map snd segs" using len by (simp add: segs_def T [symmetric])
    finally show ?thesis by simp
  qed
  have sz: "sizes_byTags (zip (elts sw sb) (map unat T)) (length bufs) = map (\<lambda>b. word_of_nat (length b)) bufs
      \<longleftrightarrow> (\<forall>t < length bufs. (word_of_nat (tag_sum t segs) :: size_t) = word_of_nat (length (bufs ! t)))"
    if "\<forall>s \<in> set segs. snd s < length bufs"
  proof -
    have "\<forall>s \<in> set (zip (elts sw sb) (map unat T)). snd s < length bufs"
      using that by (auto simp: segs)
    from sizes_byTags [OF this] show ?thesis by (simp add: list_eq_iff_nth_eq segs)
  qed
  have tot: "unat (word_of_nat (sum_list (map length bufs)) :: size_t) = sum_list (map length bufs)"
    using assms(7) by (simp add: unat_of_nat_u64)
  have ct: "createTypedStream ctx (sum_list (map length bufs)) (Suc 0) = Inr ()" using assms(7,8) by simp
  have sg: "zip (map unat (elts sw sb)) (map unat T) = segs" by (simp add: segs_def T)
  show ?thesis
    unfolding DI_dispatchN_byTag_def Let_def
    using assms(5,6) w
    by (cases "formatVersion ctx < 20") (simp_all add: assms(4,8) foldl_total [simplified] tot ct u T_def [symmetric] lim sz comp_def sg list_ex_iff numElts_serial [simplified]
        ZL_dispatchN_byTag_decode_def del: underLimit_list_all cong: if_cong)
qed

lemma undispatch_defined:
  assumes "\<forall>s \<in> set segs. snd s < length srcs" "\<forall>t < length srcs. tag_sum t segs \<le> length (srcs ! t)"
    "sum_list (map fst segs) \<le> room"
  shows "\<exists>bs. undispatch_loop segs room srcs = Some bs \<and> length bs = sum_list (map fst segs)"
  using assms
proof (induction segs arbitrary: room srcs)
  case (Cons s segs)
  obtain n t where s: "s = (n, t)" by force
  have t: "t < length srcs" using Cons.prems(1) by (simp add: s)
  have n: "n + tag_sum t segs \<le> length (srcs ! t)" using Cons.prems(2) t by (auto simp: s)
  have "\<forall>u < length (srcs[t := drop n (srcs ! t)]).
      tag_sum u segs \<le> length (srcs[t := drop n (srcs ! t)] ! u)"
  proof (intro allI impI)
    fix u assume "u < length (srcs[t := drop n (srcs ! t)])"
    then show "tag_sum u segs \<le> length (srcs[t := drop n (srcs ! t)] ! u)"
      using Cons.prems(2) n by (cases "u = t") (auto simp: s)
  qed
  moreover have "\<forall>s \<in> set segs. snd s < length (srcs[t := drop n (srcs ! t)])"
    "sum_list (map fst segs) \<le> room - n"
    using Cons.prems(1,3) by (simp_all add: s)
  ultimately obtain bs where "undispatch_loop segs (room - n) (srcs[t := drop n (srcs ! t)]) = Some bs"
    "length bs = sum_list (map fst segs)"
    using Cons.IH by blast
  with n Cons.prems(3) show ?case by (simp add: s copy_segment not_less)
qed simp

lemma sum_tag_sums:
  assumes "\<forall>s \<in> set segs. snd s < n"
  shows "(\<Sum>t<n. tag_sum t segs) = sum_list (map fst segs)"
  using assms
proof (induction segs)
  case (Cons s segs)
  obtain m u where s: "s = (m, u)" by force
  have "(\<Sum>t<n. tag_sum t (s # segs)) = (\<Sum>t<n. if t = u then m else 0) + (\<Sum>t<n. tag_sum t segs)"
    by (simp add: s sum.distrib eq_commute [of u])
  with Cons show ?case by (simp add: s)
qed simp

section \<open>The round trip\<close>

definition is_serial :: "ZL_Data \<Rightarrow> bool" where
  "is_serial d \<longleftrightarrow> data_type d = ZL_Type_serial \<and> wf_data d"

lemma is_serialE:
  assumes "is_serial d"
  obtains bs where "d = serial bs" "length bs < 2 ^ 64"
  using assms that [of "data_bytes d"]
  by (cases d) (auto simp: is_serial_def wf_data_def STREAM_validateTypeWidth_def split: if_splits)

lemma write_numerics:
  assumes "ZL_isLegalIntegerWidth w"
  shows "NUMOP_writeNumerics_fromST w xs = write_elts w xs"
    "NUMOP_writeNumerics_fromU32 w ys = write_elts w (map ucast ys :: u64 list)"
  using assms by (simp_all add: NUMOP_writeNumerics_fromST_def NUMOP_writeNumerics_fromU32_def
      write_elts_def ZL_writeN_write_le comp_def)

lemma unat_ucast_u32: "unat (ucast (y :: u32) :: u64) = unat y"
  using unat_lt2p32 [of y] by (simp add: unsigned_ucast_eq take_bit_nat_eq_self del: unat_lt2p32)

lemma tags_fit:
  assumes "x < n" "n < 65536"
  shows "take_bit (8 * NUMOP_numericWidthForValue (ucast (n :: u32) - 1)) (ucast (x :: u32) :: u64) = ucast x"
    "NUMOP_numericWidthForValue (ucast n - 1) \<le> 2"
    "n < 256 \<Longrightarrow> NUMOP_numericWidthForValue (ucast n - 1) = 1"
proof -
  note u = unat_ucast_u32
  have "1 \<le> (ucast n :: u64)" using assms(1) u [of n] by (auto simp: word_le_nat_alt word_less_nat_alt)
  then have n: "unat (ucast n - 1 :: u64) = unat n - 1" by (simp add: unat_sub u)
  have "(ucast x :: u64) \<le> ucast n - 1" using assms(1) n by (simp add: word_le_nat_alt word_less_nat_alt u)
  then show "take_bit (8 * NUMOP_numericWidthForValue (ucast n - 1)) (ucast x :: u64) = ucast x"
    by (rule numericWidth_take_bit)
  show "NUMOP_numericWidthForValue (ucast n - 1) \<le> 2"
    "n < 256 \<Longrightarrow> NUMOP_numericWidthForValue (ucast n - 1) = 1"
    using assms n by (auto simp: NUMOP_numericWidthForValue_def word_less_nat_alt word_le_nat_alt)
qed

lemma dispatch_roundtrip:
  assumes "is_serial d" "EI_dispatchN_byTag cctx p d = Some (Inr (outs, hdr))"
  shows "list_all wf_data outs"
    and "formatVersion dctx = formatVersion cctx \<Longrightarrow> (\<And>n. ctx_alloc dctx n) \<Longrightarrow>
      DI_dispatchN_byTag dctx hdr outs = Some (Inr d)"
proof -
  obtain bs where d: "d = serial bs" and l: "length bs < 2 ^ 64" using assms(1) by (rule is_serialE)
  have ne: "numElts d = length bs" by (simp add: d numElts_def)
  obtain si where si: "getSplitInstructions p d = Inr si"
    using assms(2) by (auto simp: EI_dispatchN_byTag_def split: sum.splits)
  define S T where "S = map fst (dispatch_segments si)" and "T = map snd (dispatch_segments si)"
  define n where "n = unat (nbTags si)"
  define tw where "tw = (if nbTags si = 0 then 1 else NUMOP_numericWidthForValue (ucast (nbTags si) - 1))"
  define sw where "sw = NUMOP_numericWidthForValue (NUMOP_findMaxST S)"
  define caps where "caps = sizes_byTags (zip S (map unat T)) n"
  define segs where "segs = zip (map unat S) (map unat T)"
  obtain bufs where lim: "if formatVersion cctx < 20 then nbTags si < 256 else nbTags si < 65536"
    and under: "\<forall>x \<in> set T. x < nbTags si"
    and total: "NUMOP_sumArrayST S = word_of_nat (length bs)"
    and al: "length S * tw < 2 ^ 64" "length S * sw < 2 ^ 64"
    and k: "dispatch_loop segs bs (map unat caps) (replicate n []) = Some bufs"
    and o: "outs = numeric tw (NUMOP_writeNumerics_fromU32 tw T)
        # numeric sw (NUMOP_writeNumerics_fromST sw S) # map serial bufs"
  proof -
    note E = assms(2) [unfolded EI_dispatchN_byTag_def si sum.case Let_def ne]
    show ?thesis
      using E that unfolding segs_def caps_def tw_def sw_def n_def S_def T_def
      by (auto simp: ZL_dispatchN_byTag_def d not_le split: sum.splits if_splits)
  qed
  have len: "length S = length T" by (simp add: S_def T_def)
  have tags: "\<forall>s \<in> set segs. snd s < n"
    using under by (auto simp: segs_def n_def word_less_nat_alt dest!: set_zip_rightD)
  have sums: "map fst segs = map unat S" using len by (simp add: segs_def)
  obtain B where B: "length B = n" "bufs = map2 (@) (replicate n []) B"
      "\<forall>t < n. length (B ! t) = tag_sum t segs" "sum_list (map fst segs) \<le> length bs"
      "\<And>room. sum_list (map fst segs) \<le> room \<Longrightarrow>
         undispatch_loop segs room B = Some (take (sum_list (map fst segs)) bs)"
    using dispatch_loop_inverse [OF k] tags by auto
  have bufs: "bufs = B" unfolding B(2) by (rule nth_equalityI) (simp_all add: B(1))
  have "NUMOP_sumArrayST S = word_of_nat (sum_list (map unat S))"
    using foldl_add_u64 [of 0 "map unat S"] by (simp add: NUMOP_sumArrayST_def comp_def)
  moreover have "unat (word_of_nat (sum_list (map unat S)) :: size_t) = sum_list (map unat S)"
    using B(4) l unfolding sums by (intro unat_of_nat_u64) simp
  moreover have "unat (word_of_nat (length bs) :: size_t) = length bs"
    using l by (intro unat_of_nat_u64) simp
  ultimately have sum: "sum_list (map fst segs) = length bs"
    using total unfolding sums by metis
  have "sum_list (map length bufs) = (\<Sum>t<n. length (B ! t))"
    by (simp add: bufs sum_list_sum_nth atLeast0LessThan B(1))
  also have "\<dots> = sum_list (map fst segs)" using B(3) sum_tag_sums [OF tags] by simp
  finally have tot: "sum_list (map length bufs) = length bs" using sum by simp
  have legal: "ZL_isLegalIntegerWidth tw" "ZL_isLegalIntegerWidth sw"
    by (simp_all add: tw_def sw_def ZL_isLegalIntegerWidth_def [of "Suc 0"])
  then have pos: "0 < tw" "0 < sw" by (auto simp: ZL_isLegalIntegerWidth_def)
  have tw: "tw \<le> (if formatVersion cctx < 20 then 1 else 2)"
  proof (cases "nbTags si = 0")
    case False
    then have "0 < nbTags si" by (simp add: word_gt_0)
    moreover have "nbTags si < 65536" using lim by (auto split: if_splits intro: less_trans)
    ultimately show ?thesis
      using lim tags_fit(2,3) [of 0 "nbTags si"] False by (auto simp: tw_def split: if_splits)
  qed (simp add: tw_def)
  have n: "n < (if formatVersion cctx < 20 then 256 else 65536)"
    using lim by (auto simp: n_def word_less_nat_alt split: if_splits)
  have "\<forall>x \<in> set (map ucast T :: u64 list). take_bit (8 * tw) x = x"
    using under lim tags_fit(1) [of _ "nbTags si"]
    by (auto simp: tw_def word_less_nat_alt split: if_splits)
  moreover have "\<forall>x \<in> set S. take_bit (8 * sw) x = x"
    unfolding sw_def using NUMOP_findMaxST_upper numericWidth_take_bit by blast
  ultimately have e: "elts tw (write_elts tw (map ucast T :: u64 list)) = map ucast T"
      "elts sw (write_elts sw S) = S"
    using pos by (simp_all add: write_elts_take_bit)
  have u: "map unat (map ucast T :: u64 list) = map unat T"
    by (simp add: unat_ucast_u32)
  note O = o [unfolded write_numerics [OF legal(1)] write_numerics [OF legal(2)]]
  have "length b < 2 ^ 64" if "b \<in> set bufs" for b
    using sum_list_map_le_member [OF that, of length] tot l by simp
  then have "list_all wf_data (map serial bufs)" unfolding list_all_iff by (simp add: wf_serial [simplified])
  then show "list_all wf_data outs"
    using al legal len by (simp add: O wf_numeric mult.commute)
  show "DI_dispatchN_byTag dctx hdr outs = Some (Inr d)"
    if v: "formatVersion dctx = formatVersion cctx" and a: "\<And>n. ctx_alloc dctx n"
  proof -
    have "undispatch_loop segs (length bs) bufs = Some bs" using B(5) [of "length bs"] sum by (simp add: bufs)
    moreover have "\<forall>t < length bufs. length (bufs ! t) = tag_sum t segs" "length bufs = n"
      using B(1,3) by (simp_all add: bufs)
    ultimately show ?thesis
      using DI_dispatch_kernel [of tw "write_elts tw (map ucast T :: u64 list)" sw "write_elts sw S" dctx bufs hdr]
        tw n legal pos len al l tags tot a unfolding O e u v segs_def [symmetric]
      by (simp add: is_numeric_numeric mult.commute d)
  qed
qed

interpretation dispatch: lossless_codec EI_dispatchN_byTag DI_dispatchN_byTag is_serial
  by unfold_locales (auto intro: dispatch_roundtrip)

section \<open>Properties\<close>





text \<open>
  C38: the sum of the segment sizes wraps around. Two segments of \<open>2 ^ 63\<close> and \<open>2 ^ 63 + 5\<close> bytes
  for a stream of 5 bytes pass every check of the dispatch decoder, and its kernel then copies
  out of the bounds of the source and of the destination.
\<close>

theorem dispatch_decoder_size_wraps:
  "DI_dispatchN_byTag (big_ctx 20) []
     [numeric 1 [0, 0], numeric 8 [0, 0, 0, 0, 0, 0, 0, 0x80, 5, 0, 0, 0, 0, 0, 0, 0x80],
      serial [1, 2, 3, 4, 5]] = None"
proof -
  have e: "elts 1 [0, 0] = [0, 0]"
    "elts 8 [0, 0, 0, 0, 0, 0, 0, 0x80, 5, 0, 0, 0, 0, 0, 0, 0x80]
      = [0x8000000000000000, 0x8000000000000005]"
    by (simp_all add: read_elts.simps)
  have "length [0, 0, 0, 0, 0, 0, 0, 0x80, 5, 0, 0, 0, 0, 0, 0, 0x80 :: byte] = 8 * 2" by simp
  then have "is_numeric (numeric 8 [0, 0, 0, 0, 0, 0, 0, 0x80, 5, 0, 0, 0, 0, 0, 0, 0x80])"
    unfolding is_numeric_numeric by (simp only: dvd_triv_left ZL_isLegalIntegerWidth_def) simp
  from DI_dispatch_kernel [OF _ this, of 1 "[0, 0]" "big_ctx 20" "[[1, 2, 3, 4, 5]]" "[]"]
  show ?thesis
    unfolding e by (simp add: is_numeric_numeric ZL_isLegalIntegerWidth_def)
qed

end
