(* ===== verification/Wire_Format.thy ===== *)
theory Wire_Format
  imports NumOps
begin

text \<open>
  What the encoder and the decoder of frames share: versions and the magic number
  (\<^verbatim>\<open>common/wire_format.c\<close>), the limits of each version (\<^verbatim>\<open>common/limits.c\<close>), unique identifiers
  (\<^verbatim>\<open>common/unique_id.c\<close>) and \<^verbatim>\<open>ZL_nextPow2\<close> (\<^verbatim>\<open>shared/bits.h\<close>).
\<close>

section \<open>Versions and the magic number\<close>

abbreviation (input) ZL_MIN_FORMAT_VERSION :: nat where "ZL_MIN_FORMAT_VERSION \<equiv> 8"
abbreviation (input) ZL_MAX_FORMAT_VERSION :: nat where "ZL_MAX_FORMAT_VERSION \<equiv> 27"
abbreviation (input) ZL_COMMENT_VERSION_MIN :: nat where "ZL_COMMENT_VERSION_MIN \<equiv> 22"
abbreviation (input) ZL_MATERIALIZED_DICT_VERSION_MIN :: nat where "ZL_MATERIALIZED_DICT_VERSION_MIN \<equiv> 25"
abbreviation (input) CHUNK_VERSION_MIN :: nat where "CHUNK_VERSION_MIN \<equiv> 21"

definition ZSTRONG_MAGIC_NUMBER_BASE :: u32 where
  "ZSTRONG_MAGIC_NUMBER_BASE = 0xD7B1A5C0"

definition ZL_isFormatVersionSupported :: "nat \<Rightarrow> bool" where
  "ZL_isFormatVersionSupported version \<longleftrightarrow>
     ZL_MIN_FORMAT_VERSION \<le> version \<and> version \<le> ZL_MAX_FORMAT_VERSION"

definition ZL_getMagicNumber :: "nat \<Rightarrow> u32" where
  "ZL_getMagicNumber version = ZSTRONG_MAGIC_NUMBER_BASE + word_of_nat version"

definition ZL_getFormatVersionFromMagic :: "u32 \<Rightarrow> nat ZL_Result" where
  "ZL_getFormatVersionFromMagic magic =
     (if magic < ZSTRONG_MAGIC_NUMBER_BASE
        \<or> ZSTRONG_MAGIC_NUMBER_BASE + word_of_nat ZL_MAX_FORMAT_VERSION + 16 < magic
        then Inl ZL_ErrorCode_header_unknown
      else if magic < ZSTRONG_MAGIC_NUMBER_BASE + word_of_nat ZL_MIN_FORMAT_VERSION
        then Inl ZL_ErrorCode_formatVersion_unsupported
      else if ZSTRONG_MAGIC_NUMBER_BASE + word_of_nat ZL_MAX_FORMAT_VERSION < magic
        then Inl ZL_ErrorCode_formatVersion_unsupported
      else Inr (unat (magic - ZSTRONG_MAGIC_NUMBER_BASE)))"

definition ZL_getFormatVersionFromFrame :: "byte list \<Rightarrow> nat ZL_Result" where
  "ZL_getFormatVersionFromFrame src =
     (if length src < 4 then Inl ZL_ErrorCode_srcSize_tooSmall
      else ZL_getFormatVersionFromMagic (ZL_read32 src))"

definition ZL_writeMagicNumber :: "nat \<Rightarrow> byte list" where
  "ZL_writeMagicNumber version = write_le 4 (ZL_getMagicNumber version)"

section \<open>Limits\<close>

abbreviation (input) ZL_ENCODER_INPUT_LIMIT :: nat where "ZL_ENCODER_INPUT_LIMIT \<equiv> 2048"
abbreviation (input) ZL_MAX_HEADER_COMMENT_SIZE_LIMIT :: nat where
  "ZL_MAX_HEADER_COMMENT_SIZE_LIMIT \<equiv> 10000"

definition ZL_runtimeInputLimit :: "nat \<Rightarrow> nat" where
  "ZL_runtimeInputLimit v = (if v \<le> 14 then 1 else 2048)"

definition ZL_runtimeNodeInputLimit :: "nat \<Rightarrow> nat" where
  "ZL_runtimeNodeInputLimit v = (if v \<le> 15 then 1 else ZL_runtimeInputLimit v)"

definition ZL_runtimeNodeLimit :: "nat \<Rightarrow> nat" where
  "ZL_runtimeNodeLimit v = (if v < 9 then 256 else if v < 20 then 10000 else 20000)"

definition ZL_runtimeStreamLimit :: "nat \<Rightarrow> nat" where
  "ZL_runtimeStreamLimit v = (if v < 9 then 256 else if v < 16 then 10000 else 110000)"

definition ZL_transformOutStreamsLimit :: "nat \<Rightarrow> nat" where
  "ZL_transformOutStreamsLimit v = (if v < 9 then 32 else if v < 16 then 1024 else 100000)"

section \<open>Unique identifiers\<close>

text \<open>An identifier is its \<^verbatim>\<open>ZL_UNIQUE_ID_SIZE\<close> bytes.\<close>

abbreviation (input) ZL_UNIQUE_ID_SIZE :: nat where "ZL_UNIQUE_ID_SIZE \<equiv> 32"

definition ZL_UniqueID_isValid :: "byte list \<Rightarrow> bool" where
  "ZL_UniqueID_isValid ident \<longleftrightarrow> list_ex (\<lambda>b. b \<noteq> 0) ident"

primrec significantBytes_loop :: "nat \<Rightarrow> byte list \<Rightarrow> nat" where
  "significantBytes_loop 0 ident = 0"
| "significantBytes_loop (Suc i) ident =
     (if ident ! i \<noteq> 0 then Suc i else significantBytes_loop i ident)"

definition ZL_UniqueID_significantBytes :: "byte list \<Rightarrow> nat" where
  "ZL_UniqueID_significantBytes ident = significantBytes_loop (length ident) ident"

section \<open>Widths in bits\<close>

definition ZL_nextPow2 :: "u64 \<Rightarrow> nat" where
  "ZL_nextPow2 upperBound = (if upperBound \<le> 1 then 0 else 64 - ZL_clz64 (upperBound - 1))"

function ZL_nextPow2_fallback_loop :: "nat \<Rightarrow> u64 \<Rightarrow> u64 \<Rightarrow> nat" where
  "ZL_nextPow2_fallback_loop i val upperBound =
     (if val < upperBound \<and> i < 64 then ZL_nextPow2_fallback_loop (i + 1) (push_bit 1 val) upperBound
      else i)"
  by auto

termination ZL_nextPow2_fallback_loop
  by (relation "measure (\<lambda>(i, _). 64 - i)") auto

definition ZL_nextPow2_fallback :: "u64 \<Rightarrow> nat" where
  "ZL_nextPow2_fallback upperBound = ZL_nextPow2_fallback_loop 0 1 upperBound"

text \<open>\<^verbatim>\<open>ZL_StandardTransformID_end\<close> is 128.\<close>

definition ZL_StandardTransformID_numBits :: "nat \<Rightarrow> nat" where
  "ZL_StandardTransformID_numBits v = (if v < 24 then ZL_nextPow2 64 else ZL_nextPow2 128)"

section \<open>Lemmas\<close>

lemma not_isl_Inr: "\<not> isl r \<Longrightarrow> \<exists>x. r = Inr x"
  by (cases r) simp_all

lemma length_ZL_writeMagicNumber [simp]: "length (ZL_writeMagicNumber v) = 4"
  by (simp add: ZL_writeMagicNumber_def)

lemma magic_roundtrip:
  assumes "ZL_isFormatVersionSupported v"
  shows "ZL_getFormatVersionFromFrame (ZL_writeMagicNumber v @ rest) = Inr v"
proof -
  have "v \<in> set [8..<28]" using assms unfolding set_upt atLeastLessThan_iff ZL_isFormatVersionSupported_def by simp
  moreover have "\<forall>v \<in> set [8..<28]. ZL_getFormatVersionFromMagic (ZL_getMagicNumber v) = Inr v"
    by code_simp
  ultimately have "ZL_getFormatVersionFromMagic (ZL_getMagicNumber v) = Inr v" by blast
  moreover have "ZL_read32 (ZL_writeMagicNumber v @ rest) = ZL_getMagicNumber v"
    by (simp add: ZL_read32_def ZL_writeMagicNumber_def read_le_write_le_full)
  ultimately show ?thesis
    by (simp add: ZL_getFormatVersionFromFrame_def ZL_writeMagicNumber_def)
qed

lemma significantBytes:
  "significantBytes_loop n ident \<le> n"
  "i < n \<Longrightarrow> significantBytes_loop n ident \<le> i \<Longrightarrow> ident ! i = 0"
  "0 < significantBytes_loop n ident \<Longrightarrow> ident ! (significantBytes_loop n ident - 1) \<noteq> 0"
  by (induction n) (auto simp: less_Suc_eq split: if_splits)

lemma significantBytes_pad:
  assumes "length ident = n"
  defines "k \<equiv> ZL_UniqueID_significantBytes ident"
  shows "take k ident @ replicate (n - k) 0 = ident" "k \<le> n" "0 < k \<longleftrightarrow> ZL_UniqueID_isValid ident"
proof -
  show "k \<le> n" using significantBytes(1) by (simp add: k_def ZL_UniqueID_significantBytes_def assms(1))
  then show p: "take k ident @ replicate (n - k) 0 = ident"
    by (intro nth_equalityI)
      (auto simp: assms(1) nth_append k_def ZL_UniqueID_significantBytes_def not_less
        intro: significantBytes(2))
  show "0 < k \<longleftrightarrow> ZL_UniqueID_isValid ident"
  proof
    assume "0 < k"
    then have "ident ! (k - 1) \<noteq> 0" "k - 1 < length ident"
      using significantBytes(3) [of n ident] \<open>k \<le> n\<close>
      by (auto simp: k_def ZL_UniqueID_significantBytes_def assms(1))
    then show "ZL_UniqueID_isValid ident" by (auto simp: ZL_UniqueID_isValid_def list_ex_iff)
  next
    assume "ZL_UniqueID_isValid ident"
    then show "0 < k" using p by (cases "k = 0") (auto simp: ZL_UniqueID_isValid_def list_ex_iff)
  qed
qed

end
