(* ===== verification/Frame_Header.thy ===== *)
theory Frame_Header
  imports Wire_Format
begin

text \<open>
  The frame header: the encoder (\<^verbatim>\<open>compress/encode_frameheader.c\<close>) and the decoder
  (\<^verbatim>\<open>decompress/decode_frameheader.c\<close>) for every supported format version. The hash
  \<^verbatim>\<open>XXH3_64bits\<close> is the parameter \<open>xxh\<close>, the success of an allocation is \<open>alloc\<close>.
\<close>

section \<open>Data\<close>

record ZL_FrameProperties =
  hasContentChecksum :: bool
  hasCompressedChecksum :: bool
  hasComment :: bool
  hasBundleID :: bool

record InputDesc =
  in_type :: ZL_Type
  byteSize :: size_t
  in_numElts :: size_t

record EFH_FrameInfo =
  fprop :: ZL_FrameProperties
  inputDescs :: "InputDesc list"
  fh_comment :: "byte list"
  bundleID :: "byte list"

text \<open>\<open>numElts\<close> of \<^verbatim>\<open>ZL_FrameInfo\<close> is not set below version 21.\<close>

record ZL_FrameInfo =
  fi_formatVersion :: nat
  properties :: ZL_FrameProperties
  fi_types :: "ZL_Type list"
  decompressedSizes :: "u64 list"
  fi_numElts :: "u64 list"
  frameHeaderSize :: nat
  fi_comment :: "byte list"
  fi_bundleID :: "byte list"

section \<open>Encoder\<close>

abbreviation (input) "perInputBound \<equiv> 2 * 10 + 1 :: nat"

text \<open>\<^verbatim>\<open>ZL_varintSize(nbBuffs - 1)\<close> wraps around when there is no buffer.\<close>

definition computeFHBound :: "nat \<Rightarrow> nat \<Rightarrow> nat \<Rightarrow> nat \<Rightarrow> nat ZL_Result" where
  "computeFHBound numInputs nbTransforms nbBuffs nbRegens =
     (if ZL_ENCODER_INPUT_LIMIT < numInputs then Inl ZL_ErrorCode_GENERIC
      else if ZL_runtimeNodeLimit ZL_MAX_FORMAT_VERSION < nbTransforms then Inl ZL_ErrorCode_GENERIC
      else if ZL_runtimeStreamLimit ZL_MAX_FORMAT_VERSION < nbBuffs then Inl ZL_ErrorCode_GENERIC
      else Inr (4 + numInputs * perInputBound + ZL_varintSize (word_of_nat nbTransforms)
        + ZL_varintSize (word_of_nat nbBuffs - 1) + nbBuffs * 4 + nbTransforms * 22 + nbRegens * 4
        + 4 + 4 + (nbTransforms + 7) div 8 + 1 + nbTransforms * 3))"

definition encodeType :: "ZL_Type \<Rightarrow> u8" where
  "encodeType t = (case t of ZL_Type_serial \<Rightarrow> 0 | ZL_Type_struct \<Rightarrow> 1 | ZL_Type_numeric \<Rightarrow> 2
     | ZL_Type_string \<Rightarrow> 3)"

definition frameFlags :: "nat \<Rightarrow> ZL_FrameProperties \<Rightarrow> u8" where
  "frameFlags v p =
     (if hasContentChecksum p then 1 else 0)
     OR (if hasCompressedChecksum p then 2 else 0)
     OR (if ZL_COMMENT_VERSION_MIN \<le> v \<and> hasComment p then 4 else 0)
     OR (if ZL_MATERIALIZED_DICT_VERSION_MIN \<le> v \<and> hasBundleID p then 8 else 0)"

text \<open>Types at two bits each: a word of up to 32 types, and the words of a long list.\<close>

primrec inTypes :: "nat \<Rightarrow> ZL_Type list \<Rightarrow> u64" where
  "inTypes n [] = 0"
| "inTypes n (t # ts) = push_bit (2 * n) (ucast (encodeType t)) OR inTypes (n + 1) ts"

fun type_groups :: "ZL_Type list \<Rightarrow> byte list" where
  "type_groups ts =
     (if ts = [] then [] else write_le 8 (inTypes 0 (take 32 ts)) @ type_groups (drop 32 ts))"

declare type_groups.simps [simp del]

definition encodeTypes_v21 :: "ZL_Type list \<Rightarrow> byte list" where
  "encodeTypes_v21 ts =
     (let n = length ts in
      if n < 15 then
        (let token = foldl (\<lambda>token k. token OR push_bit (2 * k + 4) (encodeType (ts ! k)))
               (word_of_nat n) [0..<min 2 n]
         in token # take ((n + 1) div 4) (write_le 8 (inTypes 0 (drop 2 ts))))
      else
        [word_of_nat ((n - 15) * 16) OR 15, word_of_nat ((n - 15) div 16)]
        @ take ((n + 3) div 4) (type_groups ts))"

definition encodeTypes_v15 :: "ZL_Type list \<Rightarrow> byte list ZL_Result" where
  "encodeTypes_v15 ts =
     (let n = length ts;
          token1 = foldl (\<lambda>token k. token OR push_bit (2 * k) (encodeType (ts ! k)))
            (push_bit 6 (if n < 4 then word_of_nat (n - 1) else 3)) [0..<min n 3];
          token2 = foldl (\<lambda>token k. token OR push_bit (2 * (k - 3)) (encodeType (ts ! k)))
            (if n < 19 then word_of_nat ((n - 4) * 16) else push_bit 4 15) [3..<min n 5]
      in if 273 < n \<and> ZL_ENCODER_INPUT_LIMIT < n then Inl ZL_ErrorCode_userBuffers_invalidNum
      else Inr ([token1]
        @ (if 3 < n then [token2] else [])
        @ (if 18 < n then [if 273 < n then 255 else word_of_nat (n - 19)] else [])
        @ (if 273 < n then write_le 2 (word_of_nat (n - 274) :: u16) else [])
        @ (if 5 < n then take (((n - 5) + 3) div 4) (type_groups (drop 5 ts)) else [])))"

definition encodeTypes :: "nat \<Rightarrow> ZL_Type list \<Rightarrow> byte list ZL_Result" where
  "encodeTypes v ts =
     (if CHUNK_VERSION_MIN \<le> v then Inr (encodeTypes_v21 ts)
      else if 15 \<le> v then encodeTypes_v15 ts
      else if v = 14 then
        (if 1 < length ts then Inl ZL_ErrorCode_graph_invalidNumInputs else Inr [encodeType (ts ! 0)])
      else if 1 < length ts then Inl ZL_ErrorCode_graph_invalidNumInputs
      else if encodeType (ts ! 0) \<noteq> 0 then Inl ZL_ErrorCode_streamType_incorrect
      else Inr [])"

text \<open>
  The sizes; \<open>avail\<close> is what is left of the destination. A varint is written only where
  \<^verbatim>\<open>ZL_VARINT_FAST_OVERWRITE_64\<close> bytes are available.
\<close>

definition EFH_encodeInputSizes_v20 :: "nat \<Rightarrow> InputDesc list \<Rightarrow> byte list ZL_Result" where
  "EFH_encodeInputSizes_v20 avail ds =
     (if avail < length ds * 4 then Inl ZL_ErrorCode_dstCapacity_tooSmall
      else if list_ex (\<lambda>d. 0xffffffff \<le> byteSize d) ds then Inl ZL_ErrorCode_srcSize_tooLarge
      else Inr (concat (map (\<lambda>d. write_le 4 (ucast (byteSize d) :: u32)) ds)))"

definition EFH_writeVarint :: "nat \<Rightarrow> u64 \<Rightarrow> byte list ZL_Result" where
  "EFH_writeVarint avail num =
     (if avail < 10 then Inl ZL_ErrorCode_dstCapacity_tooSmall else Inr (ZL_varintEncode num))"

primrec writeVarints :: "nat \<Rightarrow> u64 list \<Rightarrow> byte list ZL_Result" where
  "writeVarints avail [] = Inr []"
| "writeVarints avail (x # xs) =
     res_bind (EFH_writeVarint avail x) (\<lambda>bs.
     res_bind (writeVarints (avail - length bs) xs) (\<lambda>cs. Inr (bs @ cs)))"

definition EFH_encodeInputSizes_v21 :: "nat \<Rightarrow> InputDesc list \<Rightarrow> byte list ZL_Result" where
  "EFH_encodeInputSizes_v21 avail ds =
     writeVarints avail (map (\<lambda>d. byteSize d + 1) ds
       @ map in_numElts (filter (\<lambda>d. in_type d = ZL_Type_string) ds))"

definition EFH_encodeInputSizes :: "nat \<Rightarrow> nat \<Rightarrow> InputDesc list \<Rightarrow> byte list ZL_Result" where
  "EFH_encodeInputSizes v avail ds =
     (if v \<le> 20 then EFH_encodeInputSizes_v20 avail ds else EFH_encodeInputSizes_v21 avail ds)"

definition hasBundle :: "nat \<Rightarrow> ZL_FrameProperties \<Rightarrow> bool" where
  "hasBundle v p \<longleftrightarrow> ZL_MATERIALIZED_DICT_VERSION_MIN \<le> v \<and> hasBundleID p"

definition frameHeaderBound :: "nat \<Rightarrow> EFH_FrameInfo \<Rightarrow> nat ZL_Result" where
  "frameHeaderBound v fip =
     res_bind (computeFHBound (length (inputDescs fip)) 0 0 0) (\<lambda>hsBound.
     Inr (hsBound + (if fh_comment fip \<noteq> [] then 4 + length (fh_comment fip) else 0)
       + (if hasBundle v (fprop fip) then 1 + ZL_UNIQUE_ID_SIZE else 0)))"

definition encodeBundleID :: "nat \<Rightarrow> EFH_FrameInfo \<Rightarrow> byte list ZL_Result" where
  "encodeBundleID v fip =
     (if hasBundle v (fprop fip) then
        (let sigBytes = ZL_UniqueID_significantBytes (bundleID fip) in
         if sigBytes = 0 then Inl ZL_ErrorCode_nodeParameter_invalid
         else Inr (word_of_nat sigBytes # take sigBytes (bundleID fip)))
      else Inr [])"

definition encodeComment :: "nat \<Rightarrow> EFH_FrameInfo \<Rightarrow> byte list ZL_Result" where
  "encodeComment v fip =
     (if ZL_COMMENT_VERSION_MIN \<le> v \<and> hasComment (fprop fip) then
        (if ZL_MAX_HEADER_COMMENT_SIZE_LIMIT < length (fh_comment fip) then Inl ZL_ErrorCode_graph_invalid
         else Inr (ZL_varintEncode (word_of_nat (length (fh_comment fip))) @ fh_comment fip))
      else Inr [])"

definition writeFrameHeader_internal ::
  "(byte list \<Rightarrow> u64) \<Rightarrow> nat \<Rightarrow> EFH_FrameInfo \<Rightarrow> nat \<Rightarrow> byte list ZL_Result" where
  "writeFrameHeader_internal xxh v fip dstCapacity =
     res_bind (frameHeaderBound v fip) (\<lambda>hsBound.
     if dstCapacity < hsBound then Inl ZL_ErrorCode_dstCapacity_tooSmall
     else
     let magic = ZL_writeMagicNumber v;
         flags = (if CHUNK_VERSION_MIN \<le> v then [frameFlags v (fprop fip)] else []) in
     res_bind (encodeBundleID v fip) (\<lambda>bundle.
     res_bind (encodeTypes v (map in_type (inputDescs fip))) (\<lambda>types.
     let out = magic @ flags @ bundle @ types in
     res_bind (EFH_encodeInputSizes v (dstCapacity - length out) (inputDescs fip)) (\<lambda>sizes.
     res_bind (encodeComment v fip) (\<lambda>comment.
     let out = out @ sizes @ comment;
         fhchk = (if CHUNK_VERSION_MIN \<le> v \<and> hasCompressedChecksum (fprop fip)
           then [ucast (xxh out AND 255)] else [])
     in Inr (out @ fhchk))))))"

text \<open>
  \<^verbatim>\<open>writeFrameHeaderV3orMore\<close>: the header goes to the destination itself when that is as large
  as the bound without comment and identifier, and through a workspace otherwise.
\<close>

definition EFH_writeFrameHeader ::
  "(byte list \<Rightarrow> u64) \<Rightarrow> (nat \<Rightarrow> bool) \<Rightarrow> nat \<Rightarrow> EFH_FrameInfo \<Rightarrow> nat \<Rightarrow> byte list ZL_Result" where
  "EFH_writeFrameHeader xxh alloc v fip dstCapacity =
     res_bind (computeFHBound (length (inputDescs fip)) 0 0 0) (\<lambda>dstBound.
     if \<not> alloc (if dstCapacity < dstBound then dstBound else 0) then Inl ZL_ErrorCode_allocation
     else if dstBound \<le> dstCapacity then writeFrameHeader_internal xxh v fip dstCapacity
     else res_bind (writeFrameHeader_internal xxh v fip dstBound) (\<lambda>out.
       if length out \<le> dstCapacity then Inr out else Inl ZL_ErrorCode_dstCapacity_tooSmall))"

section \<open>Decoder\<close>

definition decodeType :: "u8 \<Rightarrow> ZL_Type" where
  "decodeType et = (if et = 0 then ZL_Type_serial else if et = 1 then ZL_Type_struct
     else if et = 2 then ZL_Type_numeric else ZL_Type_string)"

text \<open>Each step takes the source and the bytes consumed, and gives the new count with its result.\<close>

definition DFH_decodeNbOutputs :: "nat \<Rightarrow> byte list \<Rightarrow> nat \<Rightarrow> (nat \<times> nat) ZL_Result" where
  "DFH_decodeNbOutputs v src consumed =
     (if v \<le> 14 then Inr (1, consumed + (if v = 14 then 1 else 0))
      else if v < CHUNK_VERSION_MIN then
        (if length src < consumed + 1 + 4 then Inl ZL_ErrorCode_srcSize_tooSmall
         else
           let nbOutputs = unat (drop_bit 6 (src ! consumed)) + 1; consumed = consumed + 1;
               (nbOutputs, consumed) = (if nbOutputs = 4
                 then (unat (drop_bit 4 (src ! consumed)) + 4, consumed + 1) else (nbOutputs, consumed));
               (nbOutputs, consumed) = (if nbOutputs = 19
                 then (unat (src ! consumed) + 19, consumed + 1) else (nbOutputs, consumed));
               (nbOutputs, consumed) = (if nbOutputs = 274
                 then (unat (ZL_read16 (drop consumed src)) + 274, consumed + 2)
                 else (nbOutputs, consumed))
           in Inr (nbOutputs, consumed))
      else if length src < consumed + 1 then Inl ZL_ErrorCode_srcSize_tooSmall
      else
        let token1 = src ! consumed; consumed = consumed + 1; nbOutputs = unat (token1 AND 15) in
        if nbOutputs = 15 then
          (if length src < consumed + 1 then Inl ZL_ErrorCode_srcSize_tooSmall
           else Inr (unat (src ! consumed) * 16 + unat (drop_bit 4 token1) + 15, consumed + 1))
        else Inr (nbOutputs, consumed))"

text \<open>\<open>count\<close> types from position \<open>n\<close> on, a new token every four of them.\<close>

primrec types_loop :: "nat \<Rightarrow> byte list \<Rightarrow> nat \<Rightarrow> u8 \<Rightarrow> nat \<Rightarrow> ZL_Type list \<times> nat" where
  "types_loop 0 src consumed token n = ([], consumed)"
| "types_loop (Suc count) src consumed token n =
     (let shift = (n mod 4) * 2;
          (token, consumed) = (if shift = 0 then (src ! consumed, consumed + 1) else (token, consumed));
          (ts, consumed) = types_loop count src consumed token (n + 1)
      in (decodeType (drop_bit shift token AND 3) # ts, consumed))"

definition DFH_decoderOutputTypes ::
  "nat \<Rightarrow> nat \<Rightarrow> byte list \<Rightarrow> nat \<Rightarrow> (ZL_Type list \<times> nat) ZL_Result" where
  "DFH_decoderOutputTypes v nbOutputs src consumed =
     (if v < 14 then Inr ([ZL_Type_serial], consumed)
      else if v < CHUNK_VERSION_MIN then
        (if length src < 5 then Inl ZL_ErrorCode_srcSize_tooSmall
         else let first = map (\<lambda>n. decodeType (drop_bit (n * 2) (src ! 4) AND 3)) [0..<min nbOutputs 3] in
           if nbOutputs \<le> 3 then Inr (first, consumed)
           else if length src < 6 then Inl ZL_ErrorCode_srcSize_tooSmall
           else let second = map (\<lambda>n. decodeType (drop_bit ((n - 3) * 2) (src ! 5) AND 3)) [3..<min nbOutputs 5] in
             if nbOutputs \<le> 5 then Inr (first @ second, consumed)
             else if length src < consumed + ((nbOutputs - 5) + 3) div 4 then Inl ZL_ErrorCode_srcSize_tooSmall
             else let (ts, consumed) = types_loop (nbOutputs - 5) src consumed 0 0
                  in Inr (first @ second @ ts, consumed))
      else
        let first = (if nbOutputs \<le> 14
              then map (\<lambda>n. decodeType (drop_bit (n * 2 + 4) (src ! (consumed - 1)) AND 3)) [0..<min 2 nbOutputs]
              else []);
            already = (if nbOutputs \<le> 14 then 2 else 0) in
        if nbOutputs \<le> 2 then Inr (first, consumed)
        else if length src < consumed + (nbOutputs - already + 3) div 4 then Inl ZL_ErrorCode_srcSize_tooSmall
        else let (ts, consumed) = types_loop (nbOutputs - already) src consumed 0 0
             in Inr (first @ ts, consumed))"

definition DFH_decodeOutputSizes_v20 :: "byte list \<Rightarrow> nat \<Rightarrow> nat \<Rightarrow> (u64 list \<times> nat) ZL_Result" where
  "DFH_decodeOutputSizes_v20 src consumed nbOutputs =
     (if length src - consumed < 4 * nbOutputs then Inl ZL_ErrorCode_srcSize_tooSmall
      else Inr (map (\<lambda>n. ucast (ZL_read32 (drop (consumed + 4 * n) src))) [0..<nbOutputs],
                consumed + 4 * nbOutputs))"

primrec sizes_loop :: "nat \<Rightarrow> byte list \<Rightarrow> (u64 list \<times> byte list) ZL_Result" where
  "sizes_loop 0 ptr = Inr ([], ptr)"
| "sizes_loop (Suc n) ptr =
     res_bind (ZL_varintDecode ptr) (\<lambda>(v64, ptr).
     if v64 = 0 then Inl ZL_ErrorCode_temporaryLibraryLimitation
     else res_bind (sizes_loop n ptr) (\<lambda>(ds, ptr). Inr ((v64 - 1) # ds, ptr)))"

primrec numElts_loop :: "(ZL_Type \<times> u64) list \<Rightarrow> byte list \<Rightarrow> (u64 list \<times> byte list) ZL_Result" where
  "numElts_loop [] ptr = Inr ([], ptr)"
| "numElts_loop (td # tds) ptr =
     (let (t, dSize) = td in
      res_bind (case t of
          ZL_Type_struct \<Rightarrow> Inr (0, ptr)
        | ZL_Type_numeric \<Rightarrow> Inr (0, ptr)
        | ZL_Type_serial \<Rightarrow> Inr (dSize, ptr)
        | ZL_Type_string \<Rightarrow> ZL_varintDecode ptr) (\<lambda>(n, ptr).
      res_bind (numElts_loop tds ptr) (\<lambda>(ns, ptr). Inr (n # ns, ptr))))"

definition DFH_decodeOutputSizes_v21 ::
  "byte list \<Rightarrow> nat \<Rightarrow> ZL_Type list \<Rightarrow> (u64 list \<times> u64 list \<times> nat) ZL_Result" where
  "DFH_decodeOutputSizes_v21 src consumed types =
     (let ptr = drop consumed src in
      if length ptr < 1 then Inl ZL_ErrorCode_srcSize_tooSmall
      else if ptr ! 0 = 0 then Inl ZL_ErrorCode_temporaryLibraryLimitation
      else res_bind (sizes_loop (length types) ptr) (\<lambda>(dSizes, ptr).
           res_bind (numElts_loop (zip types dSizes) ptr) (\<lambda>(ns, ptr).
           Inr (dSizes, ns, length src - length ptr))))"

definition DFH_decodeOutputSizes ::
  "nat \<Rightarrow> byte list \<Rightarrow> nat \<Rightarrow> ZL_Type list \<Rightarrow> (u64 list \<times> u64 list \<times> nat) ZL_Result" where
  "DFH_decodeOutputSizes v src consumed types =
     (if v < CHUNK_VERSION_MIN then
        res_bind (DFH_decodeOutputSizes_v20 src consumed (length types)) (\<lambda>(ds, c). Inr (ds, [], c))
      else DFH_decodeOutputSizes_v21 src consumed types)"

definition decodeProperties :: "nat \<Rightarrow> byte list \<Rightarrow> nat \<Rightarrow> (ZL_FrameProperties \<times> nat) ZL_Result" where
  "decodeProperties v src consumed =
     (if CHUNK_VERSION_MIN \<le> v then
        (if length src \<le> consumed then Inl ZL_ErrorCode_srcSize_tooSmall
         else let flags = src ! consumed in
           Inr (\<lparr>hasContentChecksum = flags AND 1 \<noteq> 0, hasCompressedChecksum = flags AND 2 \<noteq> 0,
                 hasComment = flags AND 4 \<noteq> 0,
                 hasBundleID = ZL_MATERIALIZED_DICT_VERSION_MIN \<le> v \<and> flags AND 8 \<noteq> 0\<rparr>, consumed + 1))
      else Inr (\<lparr>hasContentChecksum = False, hasCompressedChecksum = False, hasComment = False,
                 hasBundleID = False\<rparr>, consumed))"

definition decodeBundleID :: "ZL_FrameProperties \<Rightarrow> byte list \<Rightarrow> nat \<Rightarrow> (byte list \<times> nat) ZL_Result" where
  "decodeBundleID p src consumed =
     (if hasBundleID p then
        (if length src \<le> consumed then Inl ZL_ErrorCode_corruption
         else let encLen = unat (src ! consumed); consumed = consumed + 1 in
           if encLen = 0 then Inl ZL_ErrorCode_corruption
           else if ZL_UNIQUE_ID_SIZE < encLen then Inl ZL_ErrorCode_corruption
           else if length src < consumed + encLen then Inl ZL_ErrorCode_corruption
           else let ident = take encLen (drop consumed src) @ replicate (ZL_UNIQUE_ID_SIZE - encLen) 0 in
             if \<not> ZL_UniqueID_isValid ident then Inl ZL_ErrorCode_corruption
             else Inr (ident, consumed + encLen))
      else Inr (replicate ZL_UNIQUE_ID_SIZE 0, consumed))"

definition decodeComment ::
  "(nat \<Rightarrow> bool) \<Rightarrow> nat \<Rightarrow> ZL_FrameProperties \<Rightarrow> byte list \<Rightarrow> nat \<Rightarrow> (byte list \<times> nat) ZL_Result" where
  "decodeComment alloc v p src consumed =
     (if ZL_COMMENT_VERSION_MIN \<le> v \<and> hasComment p then
        res_bind (ZL_varintDecode (drop consumed src)) (\<lambda>(commentSize, ptr).
        if commentSize = 0 then Inl ZL_ErrorCode_corruption
        else if word_of_nat ZL_MAX_HEADER_COMMENT_SIZE_LIMIT < commentSize then Inl ZL_ErrorCode_corruption
        else let n = unat commentSize; consumed = length src - length ptr in
          if \<not> alloc n then Inl ZL_ErrorCode_allocation
          else if length src < consumed + n then Inl ZL_ErrorCode_corruption
          else Inr (take n (drop consumed src), consumed + n))
      else Inr ([], consumed))"

definition decodeChecksum ::
  "(byte list \<Rightarrow> u64) \<Rightarrow> nat \<Rightarrow> ZL_FrameProperties \<Rightarrow> byte list \<Rightarrow> nat \<Rightarrow> nat ZL_Result" where
  "decodeChecksum xxh v p src consumed =
     (if CHUNK_VERSION_MIN \<le> v \<and> hasCompressedChecksum p then
        (if length src < consumed + 1 then Inl ZL_ErrorCode_srcSize_tooSmall
         else if xxh (take consumed src) AND 255 \<noteq> ucast (src ! consumed) then Inl ZL_ErrorCode_corruption
         else Inr (consumed + 1))
      else Inr consumed)"

text \<open>The decoded information and the size of the header.\<close>

definition DFH_FrameInfo_decodeFrameHeader ::
  "(byte list \<Rightarrow> u64) \<Rightarrow> (nat \<Rightarrow> bool) \<Rightarrow> byte list \<Rightarrow> (ZL_FrameInfo \<times> nat) ZL_Result" where
  "DFH_FrameInfo_decodeFrameHeader xxh alloc src =
     res_bind (ZL_getFormatVersionFromFrame src) (\<lambda>v.
     res_bind (decodeProperties v src 4) (\<lambda>(p, consumed).
     res_bind (decodeBundleID p src consumed) (\<lambda>(ident, consumed).
     res_bind (DFH_decodeNbOutputs v src consumed) (\<lambda>(nbOutputs, consumed).
     if ZL_runtimeInputLimit v < nbOutputs then Inl ZL_ErrorCode_outputs_tooNumerous
     else if nbOutputs = 0 then Inl ZL_ErrorCode_GENERIC
     else if \<not> alloc (4 * nbOutputs) then Inl ZL_ErrorCode_allocation
     else
     res_bind (DFH_decoderOutputTypes v nbOutputs src consumed) (\<lambda>(types, consumed).
     if \<not> alloc (8 * nbOutputs) then Inl ZL_ErrorCode_allocation
     else
     res_bind (DFH_decodeOutputSizes v src consumed types) (\<lambda>(dSizes, ns, consumed).
     res_bind (decodeComment alloc v p src consumed) (\<lambda>(comment, consumed).
     res_bind (decodeChecksum xxh v p src consumed) (\<lambda>consumed.
     Inr (\<lparr>fi_formatVersion = v, properties = p, fi_types = types, decompressedSizes = dSizes,
           fi_numElts = ns, frameHeaderSize = (if CHUNK_VERSION_MIN \<le> v then consumed else 0),
           fi_comment = comment, fi_bundleID = ident\<rparr>, consumed)))))))))"

section \<open>Queries\<close>

text \<open>
  \<^verbatim>\<open>ZL_FrameInfo_create\<close> gives no object on an error. The getters take an \<^verbatim>\<open>int\<close> that is only
  compared with the count, so a negative one reads before the array: \<^const>\<open>None\<close>.
\<close>

abbreviation (input) sizeof_ZL_FrameInfo :: nat where "sizeof_ZL_FrameInfo \<equiv> 104"

definition ZL_FrameInfo_create :: "(byte list \<Rightarrow> u64) \<Rightarrow> (nat \<Rightarrow> bool) \<Rightarrow> byte list \<Rightarrow> ZL_FrameInfo option" where
  "ZL_FrameInfo_create xxh alloc src =
     (if \<not> alloc sizeof_ZL_FrameInfo then None
      else case DFH_FrameInfo_decodeFrameHeader xxh alloc src of Inl _ \<Rightarrow> None | Inr (zfi, _) \<Rightarrow> Some zfi)"

definition ZL_FrameInfo_getFormatVersion :: "ZL_FrameInfo option \<Rightarrow> nat ZL_Result" where
  "ZL_FrameInfo_getFormatVersion zfi =
     (case zfi of None \<Rightarrow> Inl ZL_ErrorCode_GENERIC | Some z \<Rightarrow> Inr (fi_formatVersion z))"

definition ZL_FrameInfo_getNumOutputs :: "ZL_FrameInfo option \<Rightarrow> nat ZL_Result" where
  "ZL_FrameInfo_getNumOutputs zfi =
     (case zfi of None \<Rightarrow> Inl ZL_ErrorCode_GENERIC | Some z \<Rightarrow> Inr (length (fi_types z)))"

definition get_output :: "'a list \<Rightarrow> int \<Rightarrow> 'a option" where
  "get_output xs outputID = (if outputID < 0 then None else Some (xs ! nat outputID))"

definition ZL_FrameInfo_getOutputType :: "ZL_FrameInfo \<Rightarrow> int \<Rightarrow> ZL_Type option ZL_Result" where
  "ZL_FrameInfo_getOutputType zfi outputID =
     (if int (length (fi_types zfi)) \<le> outputID then Inl ZL_ErrorCode_outputID_invalid
      else Inr (get_output (fi_types zfi) outputID))"

definition ZL_FrameInfo_getDecompressedSize :: "ZL_FrameInfo \<Rightarrow> int \<Rightarrow> u64 option ZL_Result" where
  "ZL_FrameInfo_getDecompressedSize zfi outputID =
     (if int (length (fi_types zfi)) \<le> outputID then Inl ZL_ErrorCode_outputID_invalid
      else Inr (get_output (decompressedSizes zfi) outputID))"

definition ZL_FrameInfo_getNumElts :: "ZL_FrameInfo \<Rightarrow> int \<Rightarrow> u64 option ZL_Result" where
  "ZL_FrameInfo_getNumElts zfi outputID =
     (if int (length (fi_types zfi)) \<le> outputID then Inl ZL_ErrorCode_outputID_invalid
      else if fi_formatVersion zfi < CHUNK_VERSION_MIN then Inl ZL_ErrorCode_GENERIC
      else if get_output (fi_types zfi) outputID = Some ZL_Type_struct
        then Inl ZL_ErrorCode_temporaryLibraryLimitation
      else if get_output (fi_types zfi) outputID = Some ZL_Type_numeric
        then Inl ZL_ErrorCode_temporaryLibraryLimitation
      else Inr (get_output (fi_numElts zfi) outputID))"

definition ZL_FrameInfo_getComment :: "ZL_FrameInfo \<Rightarrow> byte list ZL_Result" where
  "ZL_FrameInfo_getComment zfi =
     (if fi_formatVersion zfi < ZL_COMMENT_VERSION_MIN then Inl ZL_ErrorCode_GENERIC
      else Inr (fi_comment zfi))"

definition ZL_FrameInfo_getBundleID :: "ZL_FrameInfo \<Rightarrow> byte list option" where
  "ZL_FrameInfo_getBundleID zfi =
     (if ZL_UniqueID_isValid (fi_bundleID zfi) then Some (fi_bundleID zfi) else None)"

definition ZL_getNumOutputs :: "(byte list \<Rightarrow> u64) \<Rightarrow> (nat \<Rightarrow> bool) \<Rightarrow> byte list \<Rightarrow> nat ZL_Result" where
  "ZL_getNumOutputs xxh alloc src = ZL_FrameInfo_getNumOutputs (ZL_FrameInfo_create xxh alloc src)"

text \<open>The two queries that parse the header on their own.\<close>

definition ZL_getOutputType :: "byte list \<Rightarrow> ZL_Type ZL_Result" where
  "ZL_getOutputType src =
     res_bind (ZL_getFormatVersionFromFrame src) (\<lambda>v.
     if v \<le> 13 then Inr ZL_Type_serial
     else if v < CHUNK_VERSION_MIN then
       (if length src < 5 then Inl ZL_ErrorCode_srcSize_tooSmall
        else if 3 < src ! 4 then Inl ZL_ErrorCode_invalidRequest_singleOutputFrameOnly
        else Inr (decodeType (src ! 4)))
     else if length src < 6 then Inl ZL_ErrorCode_srcSize_tooSmall
     else
       let flags = src ! 4;
           bundleIDFieldLen = (if ZL_MATERIALIZED_DICT_VERSION_MIN \<le> v \<and> flags AND 8 \<noteq> 0
             then 1 + unat (src ! 5) else 0);
           tokenOffset = 5 + bundleIDFieldLen in
       if length src < tokenOffset + 1 then Inl ZL_ErrorCode_srcSize_tooSmall
       else if src ! tokenOffset AND 15 \<noteq> 1 then Inl ZL_ErrorCode_invalidRequest_singleOutputFrameOnly
       else Inr (decodeType (drop_bit 4 (src ! tokenOffset) AND 3)))"

definition getDecompressedSizeV3orMore :: "nat \<Rightarrow> byte list \<Rightarrow> u64 ZL_Result" where
  "getDecompressedSizeV3orMore v src =
     (if length src < 5 then Inl ZL_ErrorCode_srcSize_tooSmall
      else
      let flags = src ! 4; hasBundleID = (ZL_MATERIALIZED_DICT_VERSION_MIN \<le> v \<and> flags AND 8 \<noteq> 0) in
      if hasBundleID \<and> length src < 6 then Inl ZL_ErrorCode_srcSize_tooSmall
      else
      let bundleIDFieldLen = (if hasBundleID then 1 + unat (src ! 5) else 0);
          chunked = (if CHUNK_VERSION_MIN \<le> v then 1 else 0);
          hSize = 4 + (if 13 < v then 1 else 0) + chunked + bundleIDFieldLen in
      if length src < hSize + 4 then Inl ZL_ErrorCode_srcSize_tooSmall
      else if 14 < v \<and> 64 \<le> src ! (4 + chunked + bundleIDFieldLen)
        then Inl ZL_ErrorCode_invalidRequest_singleOutputFrameOnly
      else if v < CHUNK_VERSION_MIN then Inr (ucast (ZL_read32 (drop hSize src)))
      else res_bind (ZL_varintDecode (drop hSize src)) (\<lambda>(oSize, _).
        if oSize = 0 then Inl ZL_ErrorCode_temporaryLibraryLimitation
        else if SIZE_MAX \<le> oSize then Inl ZL_ErrorCode_GENERIC
        else Inr (oSize - 1)))"

definition ZL_getDecompressedSize :: "byte list \<Rightarrow> u64 ZL_Result" where
  "ZL_getDecompressedSize src =
     res_bind (ZL_getFormatVersionFromFrame src) (\<lambda>v. getDecompressedSizeV3orMore v src)"

end
