(* ===== verification/Frame_Roundtrip.thy ===== *)
theory Frame_Roundtrip
  imports Frame_Header
begin

text \<open>
  What the frame header decoder reads of what the encoder wrote: the packed types in their three
  layouts, every other field, the whole header, the bound on its size, and the queries.
\<close>

section \<open>Packed types\<close>

lemma decode_encodeType [simp]: "decodeType (encodeType t) = t"
  by (cases t) (simp_all add: decodeType_def encodeType_def)

lemma encodeType_2_bits: "bit (encodeType t) r \<Longrightarrow> r < 2"
  by (cases t) (auto simp: encodeType_def bit_1_iff bit_numeral_rec split: if_splits nat.splits
      elim!: less_2_cases)

lemma bit_inTypes:
  "bit (inTypes n ts) m \<longleftrightarrow>
     m < 64 \<and> n \<le> m div 2 \<and> m div 2 < n + length ts \<and> bit (encodeType (ts ! (m div 2 - n))) (m mod 2)"
proof (induction ts arbitrary: n)
  case (Cons t ts)
  have "bit (push_bit (2 * n) (ucast (encodeType t) :: u64)) m
      \<longleftrightarrow> m < 64 \<and> m div 2 = n \<and> bit (encodeType t) (m mod 2)"
  proof -
    have "m - 2 * n < 2 \<longleftrightarrow> m div 2 = n" if "2 * n \<le> m" using that by linarith
    moreover have "m - 2 * n = m mod 2" if "m div 2 = n" using that by (simp add: minus_mult_div_eq_mod [symmetric])
    ultimately show ?thesis
      using encodeType_2_bits [of t "m - 2 * n"] by (auto simp: bit_simps)
  qed
  with Cons show ?case
    by (auto simp: bit_simps nth_Cons' Suc_diff_Suc less_Suc_eq_le)
qed simp

definition packs :: "byte list \<Rightarrow> ZL_Type list \<Rightarrow> bool" where
  "packs bs ts \<longleftrightarrow> (length ts + 3) div 4 \<le> length bs
     \<and> (\<forall>q < (length ts + 3) div 4. \<forall>b < 8. bit (bs ! q) b \<longleftrightarrow>
          4 * q + b div 2 < length ts \<and> bit (encodeType (ts ! (4 * q + b div 2))) (b mod 2))"

lemma packs_code:
  assumes "packs bs ts" "i < length ts"
  shows "drop_bit (2 * (i mod 4)) (bs ! (i div 4)) AND 3 = encodeType (ts ! i)"
proof (rule bit_word_eqI)
  fix r assume "r < LENGTH(8)"
  have q: "i div 4 < (length ts + 3) div 4" using assms(2) by linarith
  have m: "2 * (i mod 4) + r < 8" "(2 * (i mod 4) + r) div 2 = i mod 4" "(2 * (i mod 4) + r) mod 2 = r"
    if "r < 2"
  proof -
    have "i mod 4 < 4" by simp
    with that show "2 * (i mod 4) + r < 8" by linarith
    show "(2 * (i mod 4) + r) div 2 = i mod 4" "(2 * (i mod 4) + r) mod 2 = r"
      using that by (simp_all add: div_mult_self2 mod_mult_self2)
  qed
  have t: "(x :: u8) AND 3 = take_bit 2 x" for x by (simp add: take_bit_eq_mask mask_eq_exp_minus_1)
  show "bit (drop_bit (2 * (i mod 4)) (bs ! (i div 4)) AND 3) r = bit (encodeType (ts ! i)) r"
  proof (cases "r < 2")
    case True
    have "bit (drop_bit (2 * (i mod 4)) (bs ! (i div 4)) AND 3) r \<longleftrightarrow> bit (bs ! (i div 4)) (2 * (i mod 4) + r)"
      using True by (simp add: t bit_take_bit_iff bit_drop_bit_eq)
    also have "\<dots> \<longleftrightarrow> bit (encodeType (ts ! i)) r"
      using assms(1) [unfolded packs_def, THEN conjunct2, rule_format, OF q m(1) [OF True]] assms(2)
      unfolding m(2,3) [OF True] by simp
    finally show ?thesis .
  next
    case False
    then show ?thesis using encodeType_2_bits [of "ts ! i" r] by (auto simp: t bit_take_bit_iff)
  qed
qed

lemma bit_write_le: "q < n \<Longrightarrow> b < 8 \<Longrightarrow> bit (write_le n w ! q) b \<longleftrightarrow> bit w (8 * q + b)"
  by (simp add: write_le_def bit_simps)

lemma packs_word: "length ts \<le> 32 \<Longrightarrow> packs (write_le 8 (inTypes 0 ts)) ts"
proof -
  assume l: "length ts \<le> 32"
  have "bit (write_le 8 (inTypes 0 ts) ! q) b \<longleftrightarrow>
      4 * q + b div 2 < length ts \<and> bit (encodeType (ts ! (4 * q + b div 2))) (b mod 2)"
    if "q < (length ts + 3) div 4" "b < 8" for q b
  proof -
    have "q < 8" using that l by linarith
    moreover have "(8 * q + b) div 2 = 4 * q + b div 2" "(8 * q + b) mod 2 = b mod 2" by presburger+
    ultimately show ?thesis using that(2) by (simp add: bit_write_le bit_inTypes)
  qed
  moreover have "(length ts + 3) div 4 \<le> 8" using l by linarith
  ultimately show ?thesis by (simp add: packs_def)
qed

lemma packs_append:
  assumes "packs bs ts" "length bs = 8" "length ts = 32" "packs cs us"
  shows "packs (bs @ cs) (ts @ us)"
proof -
  have n: "(length (ts @ us) + 3) div 4 = 8 + (length us + 3) div 4" using assms(3) by simp
  have "bit ((bs @ cs) ! q) b \<longleftrightarrow> 4 * q + b div 2 < length (ts @ us)
      \<and> bit (encodeType ((ts @ us) ! (4 * q + b div 2))) (b mod 2)"
    if "q < 8 + (length us + 3) div 4" "b < 8" for q b
  proof (cases "q < 8")
    case True
    then have "4 * q + b div 2 < 32" using that(2) by linarith
    with True that(2) assms(1-3) show ?thesis by (auto simp: packs_def nth_append)
  next
    case False
    then have "4 * q + b div 2 = 32 + (4 * (q - 8) + b div 2)" by linarith
    with False that assms(2-4) show ?thesis by (auto simp: packs_def nth_append)
  qed
  then show ?thesis unfolding packs_def n using assms(2,4) by (auto simp: packs_def)
qed

lemma packs_groups: "packs (type_groups ts) ts"
proof (induction ts rule: type_groups.induct)
  case (1 ts)
  show ?case
  proof (cases "ts = []")
    case True
    then show ?thesis by (simp add: packs_def)
  next
    case False
    then have g: "type_groups ts = write_le 8 (inTypes 0 (take 32 ts)) @ type_groups (drop 32 ts)"
      by (simp add: type_groups.simps [of ts])
    show ?thesis
    proof (cases "length ts < 32")
      case True
      then have "packs (write_le 8 (inTypes 0 ts)) ts" by (intro packs_word) simp
      with True g show ?thesis by (simp add: type_groups.simps [of "[]"])
    next
      case long: False
      have "packs (write_le 8 (inTypes 0 (take 32 ts)) @ type_groups (drop 32 ts)) (take 32 ts @ drop 32 ts)"
        using long 1 [OF False] by (intro packs_append packs_word) simp_all
      then show ?thesis by (simp add: g)
    qed
  qed
qed

lemma types_loop:
  assumes "n mod 4 \<noteq> 0 \<Longrightarrow> token = src ! (p + n div 4)" "c = p + (n + 3) div 4"
  shows "types_loop k src c token n
    = (map (\<lambda>i. decodeType (drop_bit (2 * (i mod 4)) (src ! (p + i div 4)) AND 3)) [n..<n + k],
       p + (n + k + 3) div 4)"
  using assms
proof (induction k arbitrary: n token c)
  case (Suc k)
  define token' where "token' = src ! (p + n div 4)"
  have "(if (n mod 4) * 2 = 0 then (src ! c, c + 1) else (token, c)) = (token', p + (n + 1 + 3) div 4)"
  proof (cases "n mod 4 = 0")
    case True
    then have "(n + 3) div 4 = n div 4" "(n + 1 + 3) div 4 = n div 4 + 1" by presburger+
    with True Suc.prems(2) show ?thesis by (simp add: token'_def)
  next
    case False
    then have "(n + 1 + 3) div 4 = (n + 3) div 4" by presburger
    with False Suc.prems show ?thesis by (simp add: token'_def)
  qed
  moreover have "(n + 1) mod 4 \<noteq> 0 \<Longrightarrow> token' = src ! (p + (n + 1) div 4)"
  proof -
    assume "(n + 1) mod 4 \<noteq> 0"
    then have "(n + 1) div 4 = n div 4" by presburger
    then show ?thesis by (simp add: token'_def)
  qed
  note Suc.IH [OF this refl]
  ultimately show ?case
    by (simp add: Let_def upt_conv_Cons token'_def mult.commute del: upt_Suc)
qed simp

lemma types_loop_packs:
  assumes "packs bs ts" "\<And>q. q < (length ts + 3) div 4 \<Longrightarrow> src ! (c + q) = bs ! q"
  shows "types_loop (length ts) src c 0 0 = (ts, c + (length ts + 3) div 4)"
proof -
  have "decodeType (drop_bit (2 * (i mod 4)) (src ! (c + i div 4)) AND 3) = ts ! i" if "i < length ts" for i
  proof -
    have "i div 4 < (length ts + 3) div 4" using that by linarith
    then show ?thesis using assms packs_code [OF assms(1) that] by simp
  qed
  then have "map (\<lambda>i. decodeType (drop_bit (2 * (i mod 4)) (src ! (c + i div 4)) AND 3)) [0..<0 + length ts] = ts"
    by (intro nth_equalityI) simp_all
  then show ?thesis using types_loop [of 0 0 src c c "length ts"] by simp
qed


lemma types_loop_packed:
  assumes "packs bs ts" "k = (length ts + 3) div 4" "c = length pre"
  shows "types_loop (length ts) (pre @ take k bs @ rest) c 0 0 = (ts, c + k)"
proof -
  have "k \<le> length bs" using assms(1,2) by (simp add: packs_def)
  then have "(pre @ take k bs @ rest) ! (c + q) = bs ! q" if "q < k" for q
    using that assms(3) by (simp add: nth_append)
  with types_loop_packs [OF assms(1)] show ?thesis by (simp add: assms(2))
qed

section \<open>Round trip of the types\<close>

abbreviation (input) all_types :: "ZL_Type list" where
  "all_types \<equiv> [ZL_Type_serial, ZL_Type_struct, ZL_Type_numeric, ZL_Type_string]"

lemma in_all_types: "t \<in> set all_types"
  by (cases t) simp_all

definition token_v21 :: "nat \<Rightarrow> ZL_Type list \<Rightarrow> u8" where
  "token_v21 n ts = foldl (\<lambda>token k. token OR push_bit (2 * k + 4) (encodeType (ts ! k)))
     (word_of_nat n) [0..<min 2 n]"

lemma token_v21_code:
  "\<forall>n \<in> set [2..<15]. \<forall>a \<in> set all_types. \<forall>b \<in> set all_types.
     unat (token_v21 n [a, b] AND 15) = n \<and> decodeType (drop_bit 4 (token_v21 n [a, b]) AND 3) = a
     \<and> decodeType (drop_bit 6 (token_v21 n [a, b]) AND 3) = b"
  by code_simp

lemma token_v21_code_1:
  "\<forall>a \<in> set all_types. unat (token_v21 1 [a] AND 15) = 1
     \<and> decodeType (drop_bit 4 (token_v21 1 [a]) AND 3) = a"
  by code_simp

lemma token_v21:
  assumes "ts \<noteq> []" "length ts < 15"
  defines "token \<equiv> token_v21 (length ts) ts"
  shows "unat (token AND 15) = length ts"
    "map (\<lambda>n. decodeType (drop_bit (n * 2 + 4) token AND 3)) [0..<min 2 (length ts)] = take 2 ts"
proof -
  have "unat (token AND 15) = length ts \<and>
    map (\<lambda>n. decodeType (drop_bit (n * 2 + 4) token AND 3)) [0..<min 2 (length ts)] = take 2 ts"
  proof (cases "\<exists>a. ts = [a]")
    case True
    then obtain a where "ts = [a]" by blast
    with token_v21_code_1 [rule_format, OF in_all_types [of a]] show ?thesis
      by (simp add: token_def)
  next
    case False
    with assms(1) obtain a b us where ts: "ts = a # b # us" by (metis neq_Nil_conv)
    have m: "min 2 (length ts) = 2" "[0..<2] = [0, 1 :: nat]" by (simp_all add: ts numeral_2_eq_2)
    have "token_v21 (length ts) ts = token_v21 (length ts) [a, b]"
      by (simp add: token_v21_def m) (simp add: ts)
    moreover have "length ts \<in> set [2..<15]"
      using assms(2) unfolding set_upt atLeastLessThan_iff by (simp add: ts)
    ultimately show ?thesis
      using token_v21_code [rule_format, OF _ in_all_types in_all_types, of "length ts" a b]
      by (simp add: token_def m) (simp add: ts)
  qed
  then show "unat (token AND 15) = length ts"
    "map (\<lambda>n. decodeType (drop_bit (n * 2 + 4) token AND 3)) [0..<min 2 (length ts)] = take 2 ts"
    by simp_all
qed


definition token1_v15 :: "nat \<Rightarrow> ZL_Type list \<Rightarrow> u8" where
  "token1_v15 n ts = foldl (\<lambda>token k. token OR push_bit (2 * k) (encodeType (ts ! k)))
     (push_bit 6 (if n < 4 then word_of_nat (n - 1) else 3)) [0..<min n 3]"

definition token2_v15 :: "nat \<Rightarrow> ZL_Type list \<Rightarrow> u8" where
  "token2_v15 n ts = foldl (\<lambda>token k. token OR push_bit (2 * (k - 3)) (encodeType (ts ! k)))
     (if n < 19 then word_of_nat ((n - 4) * 16) else push_bit 4 15) [3..<min n 5]"

definition token_types :: "u8 \<Rightarrow> nat \<Rightarrow> ZL_Type list" where
  "token_types token n = map (\<lambda>k. decodeType (drop_bit (k * 2) token AND 3)) [0..<n]"

lemma token1_v15_code:
  "\<forall>n \<in> set [1..<5]. \<forall>a \<in> set all_types. \<forall>b \<in> set all_types. \<forall>c \<in> set all_types.
     unat (drop_bit 6 (token1_v15 n [a, b, c])) + 1 = n
     \<and> token_types (token1_v15 n [a, b, c]) (min n 3) = take n [a, b, c]"
  by code_simp

lemma token2_v15_code:
  "\<forall>n \<in> set [4..<20]. \<forall>a \<in> set all_types. \<forall>d \<in> set all_types. \<forall>e \<in> set all_types.
     unat (drop_bit 4 (token2_v15 n [a, a, a, d, e])) + 4 = n
     \<and> token_types (token2_v15 n [a, a, a, d, e]) (min n 5 - 3) = take (n - 3) [d, e]"
  by code_simp


lemma token1_v15:
  assumes "ts \<noteq> []"
  defines "token \<equiv> token1_v15 (length ts) ts"
  shows "unat (drop_bit 6 token) + 1 = min (length ts) 4"
    "token_types token (min (length ts) 3) = take 3 ts"
proof -
  obtain us where us: "length us = 3" "take 3 ts = take (length ts) us"
  proof
    show "length (take 3 (ts @ [ZL_Type_serial, ZL_Type_serial])) = 3" using assms(1) by (cases ts) simp_all
    show "take 3 ts = take (length ts) (take 3 (ts @ [ZL_Type_serial, ZL_Type_serial]))"
      by (simp add: min_def)
  qed
  then obtain a b c where us3: "us = [a, b, c]" by (auto simp: length_Suc_conv numeral_3_eq_3)
  have "ts ! k = us ! k" if "k < min (length ts) 3" for k
    using arg_cong [OF us(2), of "\<lambda>xs. xs ! k"] that by simp
  then have "token = token1_v15 (length ts) us"
    unfolding token_def token1_v15_def by (intro foldl_cong) auto
  also have "\<dots> = token1_v15 (min (length ts) 4) us"
    by (cases "length ts < 4") (simp_all add: token1_v15_def min_def)
  finally have t: "token = token1_v15 (min (length ts) 4) [a, b, c]" by (simp add: us3)
  have "min (length ts) 4 \<in> set [1..<5]"
    using assms(1) unfolding set_upt atLeastLessThan_iff by (cases ts) auto
  from token1_v15_code [rule_format, OF this in_all_types in_all_types in_all_types, of a b c]
  have c: "unat (drop_bit 6 token) + 1 = min (length ts) 4"
    "token_types token (min (min (length ts) 4) 3) = take (min (length ts) 4) us"
    unfolding t us3 by simp_all
  show "unat (drop_bit 6 token) + 1 = min (length ts) 4" by (rule c(1))
  show "token_types token (min (length ts) 3) = take 3 ts"
    using c(2) by (cases "length ts < 4") (simp_all add: us us(2) min_def us(1) split: if_splits)
qed

lemma token2_v15:
  assumes "3 < length ts"
  defines "token \<equiv> token2_v15 (length ts) ts"
  shows "unat (drop_bit 4 token) + 4 = min (length ts) 19"
    "token_types token (min (length ts) 5 - 3) = take 2 (drop 3 ts)"
proof -
  define vs where "vs = take 2 (drop 3 ts @ [ZL_Type_serial])"
  have v: "length vs = 2" using assms(1) by (simp add: vs_def)
  then obtain d e where de: "vs = [d, e]" by (auto simp: length_Suc_conv numeral_2_eq_2)
  have "ts ! k = [d, d, d, d, e] ! k" if "k \<in> set [3..<min (length ts) 5]" for k
  proof -
    have "ts ! k = vs ! (k - 3)" using that by (auto simp: vs_def nth_append)
    moreover have "k = 3 \<or> k = 4" using that by auto
    ultimately show ?thesis by (auto simp: de)
  qed
  then have "token = token2_v15 (length ts) [d, d, d, d, e]"
    unfolding token_def token2_v15_def by (intro foldl_cong) auto
  also have "\<dots> = token2_v15 (min (length ts) 19) [d, d, d, d, e]"
    by (cases "length ts < 19") (simp_all add: token2_v15_def min_def)
  finally have t: "token = token2_v15 (min (length ts) 19) [d, d, d, d, e]" .
  have "min (length ts) 19 \<in> set [4..<20]"
    using assms(1) unfolding set_upt atLeastLessThan_iff by auto
  from token2_v15_code [rule_format, OF this in_all_types in_all_types in_all_types, of d d e]
  have c: "unat (drop_bit 4 token) + 4 = min (length ts) 19"
    "token_types token (min (min (length ts) 19) 5 - 3) = take (min (length ts) 19 - 3) vs"
    unfolding t de by simp_all
  show "unat (drop_bit 4 token) + 4 = min (length ts) 19" by (rule c(1))
  have m: "min (min (length ts) 19) 5 = min (length ts) 5" by simp
  show "token_types token (min (length ts) 5 - 3) = take 2 (drop 3 ts)"
  proof (cases "length ts = 4")
    case True
    then show ?thesis using c(2) by (simp add: m vs_def)
  next
    case False
    then have "take (min (length ts) 19 - 3) vs = vs" using v assms(1) by simp
    with False assms(1) c(2) show ?thesis by (simp add: m) (simp add: vs_def)
  qed
qed


lemma long_count_v21:
  assumes "15 \<le> n" "n < 4110"
  defines "token \<equiv> word_of_nat ((n - 15) * 16) OR 15 :: u8"
  shows "token AND 15 = 15"
    "unat (word_of_nat ((n - 15) div 16) :: u8) * 16 + unat (drop_bit 4 token) + 15 = n"
proof -
  have f: "(15 :: u8) = mask 4" by (simp add: mask_eq_exp_minus_1)
  show "token AND 15 = 15" by (rule bit_word_eqI) (simp add: token_def bit_simps)
  have "(word_of_nat ((n - 15) * 16) :: u8) = push_bit 4 (word_of_nat (n - 15))"
    by (simp add: push_bit_eq_mult)
  then have "drop_bit 4 token = take_bit 4 (word_of_nat (n - 15) :: u8)"
    unfolding token_def f by (intro bit_word_eqI) (auto simp: bit_simps)
  also have "unat \<dots> = (n - 15) mod 16"
    by (simp add: unat_word_ariths take_bit_eq_mod unat_mod_distrib unat_of_nat mod_mod_cancel)
  finally have "unat (drop_bit 4 token) = (n - 15) mod 16" .
  moreover have "unat (word_of_nat ((n - 15) div 16) :: u8) = (n - 15) div 16"
    using assms(2) by (simp add: unat_of_nat)
  ultimately show "unat (word_of_nat ((n - 15) div 16) :: u8) * 16 + unat (drop_bit 4 token) + 15 = n"
    using assms(1) by (simp add: div_mult_mod_eq)
qed

lemma types_v21:
  fixes pre rest :: "byte list"
  assumes "ts \<noteq> []" "length ts \<le> 2048" "21 \<le> v"
  defines "src \<equiv> pre @ encodeTypes_v21 ts @ rest"
  obtains c where "DFH_decodeNbOutputs v src (length pre) = Inr (length ts, c)"
    "DFH_decoderOutputTypes v (length ts) src c = Inr (ts, length pre + length (encodeTypes_v21 ts))"
proof (cases "length ts < 15")
  case True
  define n where "n = length ts"
  define k where "k = (n + 1) div 4"
  define bs where "bs = take k (write_le 8 (inTypes 0 (drop 2 ts)))"
  define token where "token = token_v21 n ts"
  have tok: "unat (token AND 15) = n"
    "map (\<lambda>n. decodeType (drop_bit (n * 2 + 4) token AND 3)) [0..<min 2 n] = take 2 ts"
    using token_v21 [OF assms(1) True] by (simp_all add: token_def n_def)
  have k8: "k \<le> 8" using True by (simp add: k_def n_def)
  have e: "encodeTypes_v21 ts = token # bs"
    using True by (simp add: encodeTypes_v21_def token_v21_def bs_def k_def token_def n_def Let_def)
  have l: "length bs = k" using k8 by (simp add: bs_def)
  have src: "src = (pre @ [token]) @ bs @ rest" by (simp add: src_def e)
  have t: "src ! length pre = token" by (simp add: src nth_append)
  show ?thesis
  proof
    have "n \<noteq> 15" using True by (simp add: n_def)
    then show "DFH_decodeNbOutputs v src (length pre) = Inr (length ts, length pre + 1)"
      using assms(3) by (simp add: DFH_decodeNbOutputs_def t Let_def tok(1)) (simp add: src n_def)
    have "DFH_decoderOutputTypes v n src (length pre + 1) = Inr (ts, length pre + 1 + k)"
    proof (cases "n \<le> 2")
      case True
      then have "k = 0" by (simp add: k_def)
      moreover have "take 2 ts = ts" using True by (simp add: n_def)
      ultimately show ?thesis
        using True assms(3) tok(2) by (simp add: DFH_decoderOutputTypes_def t Let_def)
    next
      case False
      then have kk: "(n - 2 + 3) div 4 = k" "length (drop 2 ts) = n - 2" by (simp_all add: k_def n_def)
      have "length (drop 2 ts) \<le> 32" using True by simp
      from packs_word [OF this]
      have "types_loop (n - 2) src (length pre + 1) 0 0 = (drop 2 ts, length pre + 1 + k)"
        using types_loop_packed [of "write_le 8 (inTypes 0 (drop 2 ts))" "drop 2 ts" k
          "length pre + 1" "pre @ [token]" rest] kk
        by (simp add: src bs_def)
      with False True kk assms(3) tok(2) show ?thesis
        by (simp add: DFH_decoderOutputTypes_def t Let_def n_def [symmetric])
          (simp add: src l)
    qed
    then show "DFH_decoderOutputTypes v (length ts) src (length pre + 1)
        = Inr (ts, length pre + length (encodeTypes_v21 ts))"
      by (simp add: n_def e l)
  qed
next
  case False
  define n where "n = length ts"
  define k where "k = (n + 3) div 4"
  define token :: u8 where "token = word_of_nat ((n - 15) * 16) OR 15"
  define token2 :: u8 where "token2 = word_of_nat ((n - 15) div 16)"
  have n: "15 \<le> n" "n < 4110" using False assms(2) by (simp_all add: n_def)
  note c = long_count_v21 [OF n, folded token_def token2_def]
  have e: "encodeTypes_v21 ts = [token, token2] @ take k (type_groups ts)"
    using False by (simp add: encodeTypes_v21_def token_def token2_def k_def n_def Let_def)
  have p: "packs (type_groups ts) ts" by (rule packs_groups)
  then have l: "(n + 3) div 4 \<le> length (type_groups ts)" by (simp add: packs_def n_def)
  have src: "src = (pre @ [token, token2]) @ take k (type_groups ts) @ rest" by (simp add: src_def e)
  have t: "src ! length pre = token" "src ! Suc (length pre) = token2"
    by (simp_all add: src nth_append)
  show ?thesis
  proof
    show "DFH_decodeNbOutputs v src (length pre) = Inr (length ts, length pre + 2)"
      using assms(3) c by (simp add: DFH_decodeNbOutputs_def t Let_def) (simp add: src n_def)
    have "types_loop n src (length pre + 2) 0 0 = (ts, length pre + 2 + k)"
      using types_loop_packed [OF p, of k "length pre + 2" "pre @ [token, token2]" rest]
      by (simp add: src k_def n_def)
    with n assms(3) show "DFH_decoderOutputTypes v (length ts) src (length pre + 2)
        = Inr (ts, length pre + length (encodeTypes_v21 ts))"
      by (simp add: DFH_decoderOutputTypes_def Let_def n_def [symmetric] e k_def)
        (simp add: src k_def min_absorb2 [OF l])
  qed
qed


text \<open>The count of version 15 to 20, in up to five bytes before the packed types.\<close>

definition count_v15 :: "ZL_Type list \<Rightarrow> byte list" where
  "count_v15 ts = (let n = length ts in
     [token1_v15 n ts]
     @ (if 3 < n then [token2_v15 n ts] else [])
     @ (if 18 < n then [if 273 < n then 255 else word_of_nat (n - 19)] else [])
     @ (if 273 < n then write_le 2 (word_of_nat (n - 274) :: u16) else []))"

lemma encodeTypes_v15_count:
  "length ts \<le> 2048 \<Longrightarrow> encodeTypes_v15 ts
     = Inr (count_v15 ts @ (if 5 < length ts then take ((length ts - 5 + 3) div 4) (type_groups (drop 5 ts)) else []))"
  by (simp add: encodeTypes_v15_def count_v15_def token1_v15_def token2_v15_def Let_def)

lemma count_v15:
  assumes "ts \<noteq> []" "length ts \<le> 2048" "15 \<le> v" "v < 21" "4 \<le> length rest"
  shows "DFH_decodeNbOutputs v (pre @ count_v15 ts @ rest) (length pre)
    = Inr (length ts, length pre + length (count_v15 ts))"
proof -
  define n where "n = length ts"
  define src where "src = pre @ count_v15 ts @ rest"
  have one: "unat (drop_bit 6 (token1_v15 n ts)) + 1 = min n 4"
    using token1_v15(1) [OF assms(1)] by (simp add: n_def)
  have two: "unat (drop_bit 4 (token2_v15 n ts)) + 4 = min n 19" if "3 < n"
    using token2_v15(1) that by (simp add: n_def)
  have room: "\<not> length src < length pre + 1 + 4"
    using assms(5) by (simp add: src_def count_v15_def Let_def)
  consider "n \<le> 3" | "3 < n" "n \<le> 18" | "18 < n" "n \<le> 273" | "273 < n" by linarith
  then have "DFH_decodeNbOutputs v src (length pre) = Inr (n, length pre + length (count_v15 ts))"
  proof cases
    case 1
    then have "src = pre @ [token1_v15 n ts] @ rest" "length (count_v15 ts) = 1"
      by (simp_all add: src_def count_v15_def n_def Let_def)
    with 1 one room assms(3,4) show ?thesis by (simp add: DFH_decodeNbOutputs_def Let_def)
  next
    case 2
    then have "src = pre @ [token1_v15 n ts, token2_v15 n ts] @ rest" "length (count_v15 ts) = 2"
      by (simp_all add: src_def count_v15_def n_def Let_def)
    with 2 one two room assms(3,4) show ?thesis
      by (simp add: DFH_decodeNbOutputs_def Let_def nth_append)
  next
    case 3
    define m where "m = n - 19"
    have "src = pre @ [token1_v15 n ts, token2_v15 n ts, word_of_nat m] @ rest"
      "length (count_v15 ts) = 3"
      using 3 by (simp_all add: src_def count_v15_def n_def Let_def m_def)
    moreover have m: "m < 256" "n = m + 19" using 3 by (simp_all add: m_def)
    moreover have "unat (word_of_nat m :: u8) = m" using m(1) by (simp add: unat_of_nat)
    ultimately show ?thesis using 3 one two room assms(3,4)
      by (simp add: DFH_decodeNbOutputs_def Let_def nth_append)
  next
    case 4
    define m where "m = n - 274"
    define tail where "tail = write_le 2 (word_of_nat m :: u16)"
    have "src = pre @ [token1_v15 n ts, token2_v15 n ts, 255] @ tail @ rest"
      "length (count_v15 ts) = 5"
      using 4 by (simp_all add: src_def count_v15_def n_def Let_def tail_def m_def)
    moreover have "drop (Suc (Suc (Suc (length pre)))) src = tail @ rest" by (simp add: calculation(1))
    moreover have m: "m < 65536" "n = m + 274" using 4 assms(2) by (simp_all add: m_def n_def)
    moreover have "unat (word_of_nat m :: u16) = m" using m(1) by (simp add: unat_of_nat)
    moreover have "ZL_read16 (tail @ rest) = word_of_nat m"
      by (simp add: ZL_read16_def tail_def read_le_write_le_full)
    ultimately show ?thesis using 4 one two room assms(3,4)
      by (simp add: DFH_decodeNbOutputs_def Let_def nth_append)
  qed
  then show ?thesis by (simp add: src_def n_def)
qed

lemma types_v15:
  fixes pre rest :: "byte list"
  assumes "ts \<noteq> []" "length ts \<le> 2048" "15 \<le> v" "v < 21" "4 \<le> length rest" "length pre = 4"
    "encodeTypes_v15 ts = Inr bs"
  defines "src \<equiv> pre @ bs @ rest"
  shows "DFH_decodeNbOutputs v src 4 = Inr (length ts, 4 + length (count_v15 ts))"
    "DFH_decoderOutputTypes v (length ts) src (4 + length (count_v15 ts)) = Inr (ts, 4 + length bs)"
proof -
  define n where "n = length ts"
  define k where "k = (n - 5 + 3) div 4"
  define packed where "packed = (if 5 < n then take k (type_groups (drop 5 ts)) else [])"
  have "Inr bs = (Inr (count_v15 ts @ packed) :: byte list ZL_Result)"
    unfolding assms(7) [symmetric] packed_def k_def n_def by (rule encodeTypes_v15_count [OF assms(2)])
  then have bs: "bs = count_v15 ts @ packed" by simp
  have src: "src = pre @ count_v15 ts @ packed @ rest" by (simp add: src_def bs)
  show "DFH_decodeNbOutputs v src 4 = Inr (length ts, 4 + length (count_v15 ts))"
    using count_v15 [OF assms(1-4), of "packed @ rest" pre] assms(5,6) by (simp add: src)
  have t1: "src ! 4 = token1_v15 n ts"
    by (simp add: src count_v15_def Let_def nth_append assms(6) n_def)
  have t2: "src ! 5 = token2_v15 n ts" if "3 < n"
    using that by (simp add: src count_v15_def Let_def nth_append assms(6) n_def)
  have first: "map (\<lambda>n. decodeType (drop_bit (n * 2) (token1_v15 n' ts) AND 3)) [0..<min n 3] = take 3 ts"
    if "n' = n" for n'
    using token1_v15(2) [OF assms(1)] that by (simp add: token_types_def n_def)
  have "map (\<lambda>n. decodeType (drop_bit ((n - 3) * 2) token AND 3)) [3..<3 + m] = token_types token m" for token m
    by (rule nth_equalityI) (simp_all add: token_types_def)
  from this [of "token2_v15 n ts" "min n 5 - 3"]
  have second: "map (\<lambda>k. decodeType (drop_bit ((k - 3) * 2) (token2_v15 n ts) AND 3)) [3..<min n 5]
      = take 2 (drop 3 ts)" if "3 < n"
    using that token2_v15(2) [of ts] by (simp add: n_def)
  have room: "5 \<le> length src" using assms(6) by (simp add: src count_v15_def Let_def)
  consider "n \<le> 3" | "3 < n" "n \<le> 5" | "5 < n" by linarith
  then have "DFH_decoderOutputTypes v n src (4 + length (count_v15 ts)) = Inr (ts, 4 + length bs)"
  proof cases
    case 1
    then have "take 3 ts = ts" by (simp add: n_def)
    with 1 room first [OF refl] assms(3,4) show ?thesis
      by (simp add: DFH_decoderOutputTypes_def Let_def t1 bs packed_def)
  next
    case 2
    then have s: "take 3 ts @ take 2 (drop 3 ts) = ts"
      by (simp add: n_def take_add [symmetric] del: take_append)
    have "6 \<le> length src" using 2 assms(6) by (simp add: src count_v15_def Let_def n_def)
    with 2 room first [OF refl] second assms(3,4) s show ?thesis
      by (simp add: DFH_decoderOutputTypes_def Let_def t1 t2 bs packed_def)
  next
    case 3
    have p: "packs (type_groups (drop 5 ts)) (drop 5 ts)" by (rule packs_groups)
    then have l: "k \<le> length (type_groups (drop 5 ts))" by (simp add: packs_def k_def n_def)
    have "types_loop (n - 5) src (4 + length (count_v15 ts)) 0 0 = (drop 5 ts, 4 + length bs)"
      using types_loop_packed [OF p, of k "4 + length (count_v15 ts)" "pre @ count_v15 ts" rest] 3 l
      by (simp add: src packed_def k_def n_def assms(6) bs)
    moreover have s: "take 3 ts @ take 2 (drop 3 ts) @ drop 5 ts = ts"
      using append_take_drop_id [of 5 ts] take_add [of 3 2 ts] by (metis append_assoc numeral_plus_numeral add_num_simps)
    moreover have "6 \<le> length src" using 3 assms(6) by (simp add: src count_v15_def Let_def n_def)
    moreover have "\<not> length src < 4 + length (count_v15 ts) + k"
      using 3 l by (simp add: src packed_def assms(6))
    ultimately show ?thesis
      using 3 room first [OF refl] second assms(3,4)
      by (simp add: DFH_decoderOutputTypes_def Let_def t1 t2 k_def)
  qed
  then show "DFH_decoderOutputTypes v (length ts) src (4 + length (count_v15 ts)) = Inr (ts, 4 + length bs)"
    by (simp add: n_def)
qed


section \<open>Round trip of the other fields\<close>

lemma writeVarints_Inr:
  "writeVarints avail xs = Inr bs \<Longrightarrow> bs = concat (map ZL_varintEncode xs)"
  by (induction xs arbitrary: avail bs) (auto simp: EFH_writeVarint_def res_bind_eq_Inr split: if_splits)

lemma sizes_loop_encode:
  "\<forall>x \<in> set xs. x + 1 \<noteq> 0 \<Longrightarrow>
     sizes_loop (length xs) (concat (map (\<lambda>x. ZL_varintEncode (x + 1)) xs) @ rest) = Inr (xs, rest)"
  by (induction xs) (simp_all add: ZL_varintDecode_encode)

definition decoded_numElts :: "InputDesc \<Rightarrow> u64" where
  "decoded_numElts d = (case in_type d of ZL_Type_serial \<Rightarrow> byteSize d
     | ZL_Type_string \<Rightarrow> in_numElts d | _ \<Rightarrow> 0)"

lemma numElts_loop_encode:
  "numElts_loop (zip (map in_type ds) (map byteSize ds))
     (concat (map ZL_varintEncode (map in_numElts (filter (\<lambda>d. in_type d = ZL_Type_string) ds))) @ rest)
   = Inr (map decoded_numElts ds, rest)"
  by (induction ds) (auto simp: ZL_varintDecode_encode decoded_numElts_def split: ZL_Type.splits)

lemma varint_first_byte: "val \<noteq> 0 \<Longrightarrow> ZL_varintEncode val ! 0 \<noteq> 0"
proof (cases "128 \<le> val")
  case True
  then show ?thesis using bit_7_continuation [of "ucast (val AND 0x7f)"]
    by (auto simp: ZL_varintEncode_large)
next
  case False
  assume "val \<noteq> 0"
  then have "unat val \<noteq> 0" "unat val < 128" using False by (simp_all add: unat_eq_0 word_less_nat_alt not_le)
  then have "unat (ucast val :: byte) \<noteq> 0" by (simp add: unsigned_ucast_eq take_bit_eq_mod)
  with False show ?thesis by (auto simp: not_le)
qed

lemma sizes_v21:
  assumes "EFH_encodeInputSizes_v21 avail ds = Inr bs" "ds \<noteq> []" "\<forall>d \<in> set ds. byteSize d + 1 \<noteq> 0"
  shows "DFH_decodeOutputSizes_v21 (pre @ bs @ rest) (length pre) (map in_type ds)
    = Inr (map byteSize ds, map decoded_numElts ds, length pre + length bs)"
proof -
  define first second where "first = concat (map (\<lambda>x. ZL_varintEncode (x + 1)) (map byteSize ds))"
    and "second = concat (map ZL_varintEncode (map in_numElts (filter (\<lambda>d. in_type d = ZL_Type_string) ds)))"
  have bs: "bs = first @ second"
    using writeVarints_Inr [OF assms(1) [unfolded EFH_encodeInputSizes_v21_def]]
    by (simp add: first_def second_def comp_def)
  obtain d ds' where ds: "ds = d # ds'" using assms(2) by (cases ds) auto
  have "first ! 0 \<noteq> 0" "first \<noteq> []"
    using varint_first_byte [of "byteSize d + 1"] assms(3) length_ZL_varintEncode [of "byteSize d + 1"]
      ZL_varintSize_bounds(1) [of "byteSize d + 1"]
    by (auto simp: first_def ds nth_append)
  moreover have "sizes_loop (length ds) (first @ second @ rest) = Inr (map byteSize ds, second @ rest)"
    using sizes_loop_encode [of "map byteSize ds" "second @ rest"] assms(3) by (simp add: first_def)
  moreover have "numElts_loop (zip (map in_type ds) (map byteSize ds)) (second @ rest)
      = Inr (map decoded_numElts ds, rest)"
    using numElts_loop_encode [of ds rest] by (simp only: second_def)
  ultimately show ?thesis
    by (simp add: DFH_decodeOutputSizes_v21_def bs nth_append Let_def)
qed

lemma ucast_down_up: "ucast (ucast (x :: u64) :: u32) = take_bit 32 x"
  by (rule bit_word_eqI) (simp add: bit_simps)

lemma sizes_v20:
  assumes "EFH_encodeInputSizes_v20 avail ds = Inr bs"
  shows "DFH_decodeOutputSizes_v20 (pre @ bs @ rest) (length pre) (length ds)
    = Inr (map byteSize ds, length pre + length bs)" "length bs = 4 * length ds"
proof -
  let ?enc = "\<lambda>d. write_le 4 (ucast (byteSize d) :: u32)"
  have bs: "bs = concat (map ?enc ds)" and small: "\<forall>d \<in> set ds. byteSize d < 0xffffffff"
    using assms by (auto simp: EFH_encodeInputSizes_v20_def list_ex_iff not_le split: if_splits)
  show l: "length bs = 4 * length ds" unfolding bs by (induction ds) simp_all
  have "drop (4 * n) (concat (map ?enc ds)) = concat (map ?enc (drop n ds))" if "n \<le> length ds" for n
    using that
  proof (induction ds arbitrary: n)
    case (Cons d ds)
    then show ?case by (cases n) simp_all
  qed simp
  then have dr: "drop (length pre + 4 * n) (pre @ bs @ rest) = concat (map ?enc (drop n ds)) @ rest"
    if "n < length ds" for n
    using that l by (simp add: bs)
  have "ucast (ZL_read32 (drop (length pre + 4 * n) (pre @ bs @ rest))) = byteSize (ds ! n)"
    if "n < length ds" for n
  proof -
    have "byteSize (ds ! n) < 0xffffffff" using small that by simp
    then have "take_bit 32 (byteSize (ds ! n)) = byteSize (ds ! n)"
      by (intro take_bit_fits) (simp add: word_less_nat_alt)
    moreover have "ZL_read32 (?enc (ds ! n) @ xs) = ucast (byteSize (ds ! n))" for xs
      by (simp add: ZL_read32_def read_le_write_le_full)
    moreover have "drop n ds = ds ! n # drop (Suc n) ds" using that by (simp add: Cons_nth_drop_Suc)
    ultimately show ?thesis unfolding dr [OF that] by (simp add: ucast_down_up)
  qed
  then show "DFH_decodeOutputSizes_v20 (pre @ bs @ rest) (length pre) (length ds)
      = Inr (map byteSize ds, length pre + length bs)"
    by (auto simp: DFH_decodeOutputSizes_v20_def l intro!: nth_equalityI)
qed


lemma types_roundtrip:
  fixes pre rest :: "byte list"
  assumes "ts \<noteq> []" "length ts \<le> 2048" "encodeTypes v ts = Inr bs"
    "v < 21 \<Longrightarrow> length pre = 4" "4 \<le> length rest \<or> 21 \<le> v"
  defines "src \<equiv> pre @ bs @ rest"
  obtains c where "DFH_decodeNbOutputs v src (length pre) = Inr (length ts, c)"
    "DFH_decoderOutputTypes v (length ts) src c = Inr (ts, length pre + length bs)"
proof -
  consider "21 \<le> v" | "15 \<le> v" "v < 21" | "v = 14" | "v < 14" by linarith
  then show ?thesis
  proof cases
    case 1
    then have "bs = encodeTypes_v21 ts" using assms(3) by (simp add: encodeTypes_def)
    then show ?thesis using types_v21 [OF assms(1,2) 1, of pre rest] that by (metis src_def)
  next
    case 2
    then have "encodeTypes_v15 ts = Inr bs" using assms(3) by (simp add: encodeTypes_def)
    moreover have "length pre = 4" "4 \<le> length rest" using assms(4,5) 2 by simp_all
    ultimately show ?thesis
      using types_v15 [OF assms(1,2) 2, of rest pre bs] that [of "4 + length (count_v15 ts)"]
      by (simp add: src_def)
  next
    case 3
    then obtain t where t: "ts = [t]" "bs = [encodeType t]"
      using assms(1,3) by (cases ts) (auto simp: encodeTypes_def Suc_lessI split: if_splits)
    have "decodeType (encodeType t AND 3) = t" by (cases t) (simp_all add: encodeType_def decodeType_def)
    then show ?thesis
      using that [of 5] 3 t assms(4) by (simp add: src_def DFH_decodeNbOutputs_def
          DFH_decoderOutputTypes_def Let_def nth_append)
  next
    case 4
    then have "ts = [ZL_Type_serial]" "bs = []"
      using assms(1,3) by (cases ts; cases "hd ts"; auto simp: encodeTypes_def Suc_lessI encodeType_def split: if_splits)+
    then show ?thesis
      using that [of 4] 4 assms(4) by (simp add: src_def DFH_decodeNbOutputs_def DFH_decoderOutputTypes_def)
  qed
qed

text \<open>The properties a header of version \<open>v\<close> can carry.\<close>

definition carried :: "nat \<Rightarrow> ZL_FrameProperties \<Rightarrow> ZL_FrameProperties" where
  "carried v p = \<lparr>hasContentChecksum = (21 \<le> v \<and> hasContentChecksum p),
     hasCompressedChecksum = (21 \<le> v \<and> hasCompressedChecksum p),
     hasComment = (22 \<le> v \<and> hasComment p), hasBundleID = (25 \<le> v \<and> hasBundleID p)\<rparr>"

lemma flags_code:
  "\<forall>a b c d. let flags = (if a then 1 else 0) OR (if b then 2 else 0) OR (if c then 4 else 0) OR (if d then 8 else 0) :: u8
     in (flags AND 1 \<noteq> 0) = a \<and> (flags AND 2 \<noteq> 0) = b \<and> (flags AND 4 \<noteq> 0) = c \<and> (flags AND 8 \<noteq> 0) = d"
  by (simp add: Let_def)

lemma properties_roundtrip:
  fixes v p
  defines "flags \<equiv> if 21 \<le> v then [frameFlags v p] else []"
  assumes "length pre = 4"
  shows "decodeProperties v (pre @ flags @ rest) 4 = Inr (carried v p, 4 + length flags)"
proof (cases "21 \<le> v")
  case True
  have "(pre @ flags @ rest) ! 4 = frameFlags v p" using assms(2) True by (simp add: flags_def nth_append)
  then show ?thesis
    using True assms(2) flags_code [rule_format, of "hasContentChecksum p" "hasCompressedChecksum p"
        "22 \<le> v \<and> hasComment p" "25 \<le> v \<and> hasBundleID p"]
    by (simp add: decodeProperties_def carried_def Let_def frameFlags_def) (simp add: flags_def)
qed (simp add: decodeProperties_def carried_def flags_def)

lemma bundle_roundtrip:
  assumes "encodeBundleID v fip = Inr bs" "length (bundleID fip) = 32"
  shows "decodeBundleID (carried v (fprop fip)) (pre @ bs @ rest) (length pre)
    = Inr (if hasBundle v (fprop fip) then bundleID fip else replicate 32 0, length pre + length bs)"
proof (cases "hasBundle v (fprop fip)")
  case True
  define k where "k = ZL_UniqueID_significantBytes (bundleID fip)"
  note pad = significantBytes_pad [OF assms(2), folded k_def]
  have k: "0 < k" and bs: "bs = word_of_nat k # take k (bundleID fip)"
    using assms(1) True by (auto simp: encodeBundleID_def k_def Let_def split: if_splits)
  have "unat (word_of_nat k :: u8) = k" using pad(2) by (simp add: unat_of_nat)
  moreover have "(pre @ bs @ rest) ! length pre = word_of_nat k" by (simp add: bs nth_append)
  moreover have "length (take k (bundleID fip)) = k" using pad(2) assms(2) by simp
  moreover have "take k (drop (Suc (length pre)) (pre @ bs @ rest)) = take k (bundleID fip)"
    using pad(2) assms(2) by (simp add: bs)
  moreover have "hasBundleID (carried v (fprop fip))" using True by (simp add: carried_def hasBundle_def)
  ultimately show ?thesis
    using True k pad assms(2) by (simp add: decodeBundleID_def Let_def) (simp add: bs)
next
  case False
  then have "\<not> hasBundleID (carried v (fprop fip))" by (simp add: carried_def hasBundle_def)
  with False assms(1) show ?thesis by (simp add: encodeBundleID_def decodeBundleID_def)
qed

lemma comment_roundtrip:
  assumes "encodeComment v fip = Inr bs" "hasComment (fprop fip) \<Longrightarrow> fh_comment fip \<noteq> []"
  shows "decodeComment (\<lambda>_. True) v (carried v (fprop fip)) (pre @ bs @ rest) (length pre)
    = Inr (if 22 \<le> v \<and> hasComment (fprop fip) then fh_comment fip else [], length pre + length bs)"
proof (cases "22 \<le> v \<and> hasComment (fprop fip)")
  case True
  define c where "c = fh_comment fip"
  have l: "length c \<le> 10000" and bs: "bs = ZL_varintEncode (word_of_nat (length c)) @ c"
    using assms(1) True by (auto simp: encodeComment_def c_def split: if_splits)
  have "c \<noteq> []" using assms(2) True by (simp add: c_def)
  have u: "unat (word_of_nat (length c) :: u64) = length c" using l by (simp add: unat_of_nat)
  then have "(word_of_nat (length c) :: u64) \<noteq> 0" "\<not> (10000 :: u64) < word_of_nat (length c)"
    using l \<open>c \<noteq> []\<close> by (auto simp: word_less_nat_alt simp flip: unat_eq_0)
  then show ?thesis
    using True by (simp add: decodeComment_def carried_def bs ZL_varintDecode_encode u Let_def c_def [symmetric])
qed (use assms in \<open>auto simp: encodeComment_def decodeComment_def carried_def\<close>)


section \<open>Round trip of the header\<close>

definition decoded_info :: "nat \<Rightarrow> EFH_FrameInfo \<Rightarrow> nat \<Rightarrow> ZL_FrameInfo" where
  "decoded_info v fip headerSize =
     \<lparr>fi_formatVersion = v, properties = carried v (fprop fip), fi_types = map in_type (inputDescs fip),
      decompressedSizes = map byteSize (inputDescs fip),
      fi_numElts = (if 21 \<le> v then map decoded_numElts (inputDescs fip) else []),
      frameHeaderSize = (if 21 \<le> v then headerSize else 0),
      fi_comment = (if 22 \<le> v \<and> hasComment (fprop fip) then fh_comment fip else []),
      fi_bundleID = (if hasBundle v (fprop fip) then bundleID fip else replicate 32 0)\<rparr>"

lemma sizes_roundtrip:
  assumes "EFH_encodeInputSizes v avail ds = Inr bs" "ds \<noteq> []" "\<forall>d \<in> set ds. byteSize d + 1 \<noteq> 0"
  shows "DFH_decodeOutputSizes v (pre @ bs @ rest) (length pre) (map in_type ds)
    = Inr (map byteSize ds, if 21 \<le> v then map decoded_numElts ds else [], length pre + length bs)"
    "v < 21 \<Longrightarrow> 4 \<le> length bs"
proof -
  show "v < 21 \<Longrightarrow> 4 \<le> length bs"
    using assms(1,2) sizes_v20(2) [of avail ds bs] by (cases ds) (simp_all add: EFH_encodeInputSizes_def)
  show "DFH_decodeOutputSizes v (pre @ bs @ rest) (length pre) (map in_type ds)
    = Inr (map byteSize ds, if 21 \<le> v then map decoded_numElts ds else [], length pre + length bs)"
  proof (cases "21 \<le> v")
    case True
    then show ?thesis
      using assms sizes_v21 [of avail ds bs pre rest]
      by (simp add: EFH_encodeInputSizes_def DFH_decodeOutputSizes_def)
  next
    case False
    then show ?thesis
      using assms(1) sizes_v20(1) [of avail ds bs pre rest]
      by (simp add: EFH_encodeInputSizes_def DFH_decodeOutputSizes_def)
  qed
qed

lemma writeFrameHeader_internal_parts:
  assumes "writeFrameHeader_internal xxh v fip cap = Inr out"
  obtains bnd types sizes comment where
    "encodeBundleID v fip = Inr bnd" "encodeTypes v (map in_type (inputDescs fip)) = Inr types"
    "\<exists>avail. EFH_encodeInputSizes v avail (inputDescs fip) = Inr sizes" "encodeComment v fip = Inr comment"
    "length (inputDescs fip) \<le> 2048"
    "out = (let bs = ZL_writeMagicNumber v @ (if 21 \<le> v then [frameFlags v (fprop fip)] else [])
              @ bnd @ types @ sizes @ comment
            in bs @ (if 21 \<le> v \<and> hasCompressedChecksum (fprop fip) then [ucast (xxh bs AND 255)] else []))"
proof -
  obtain b where b: "frameHeaderBound v fip = Inr b" "\<not> cap < b"
    using assms by (auto simp: writeFrameHeader_internal_def res_bind_eq_Inr split: if_splits)
  then have "length (inputDescs fip) \<le> 2048"
    by (auto simp: frameHeaderBound_def computeFHBound_def res_bind_eq_Inr split: if_splits)
  with assms [unfolded writeFrameHeader_internal_def Let_def b(1) res_bind_simps if_not_P [OF b(2)] res_bind_eq_Inr]
  show thesis
    by (elim exE conjE, intro that) (assumption | erule exI | simp only: Let_def append_assoc sum.inject)+
qed

lemma byte_mask: "(255 :: u64) = mask 8"
  by (simp add: mask_eq_exp_minus_1)

lemma checksum_roundtrip:
  fixes xxh :: "byte list \<Rightarrow> u64" and v :: nat and p :: ZL_FrameProperties
  defines "chk \<equiv> \<lambda>bs. if 21 \<le> v \<and> hasCompressedChecksum p then [ucast (xxh bs AND 255)] else []"
  shows "decodeChecksum xxh v (carried v p) (bs @ chk bs @ rest) (length bs) = Inr (length bs + length (chk bs))"
proof -
  have "ucast (ucast (xxh bs AND 255) :: u8) = xxh bs AND 255"
    unfolding byte_mask by (rule bit_word_eqI) (auto simp: bit_simps)
  then show ?thesis by (simp add: decodeChecksum_def carried_def chk_def nth_append)
qed

lemma frame_header_decodes:
  assumes "ZL_isFormatVersionSupported v" "inputDescs fip \<noteq> []" "length (bundleID fip) = 32"
    "hasComment (fprop fip) \<Longrightarrow> fh_comment fip \<noteq> []"
    "\<forall>d \<in> set (inputDescs fip). byteSize d + 1 \<noteq> 0"
    "writeFrameHeader_internal xxh v fip cap = Inr out"
  shows "DFH_FrameInfo_decodeFrameHeader xxh (\<lambda>_. True) (out @ rest)
    = Inr (decoded_info v fip (length out), length out)"
proof -
  obtain bnd types sizes comment avail where parts:
    "encodeBundleID v fip = Inr bnd" "encodeTypes v (map in_type (inputDescs fip)) = Inr types"
    "EFH_encodeInputSizes v avail (inputDescs fip) = Inr sizes" "encodeComment v fip = Inr comment"
    and n: "length (inputDescs fip) \<le> 2048"
    and out: "out = (let bs = ZL_writeMagicNumber v @ (if 21 \<le> v then [frameFlags v (fprop fip)] else [])
              @ bnd @ types @ sizes @ comment
            in bs @ (if 21 \<le> v \<and> hasCompressedChecksum (fprop fip) then [ucast (xxh bs AND 255)] else []))"
    using writeFrameHeader_internal_parts [OF assms(6)] by metis
  define magic flags where "magic = ZL_writeMagicNumber v"
    and "flags = (if 21 \<le> v then [frameFlags v (fprop fip)] else [])"
  define bs where "bs = magic @ flags @ bnd @ types @ sizes @ comment"
  define chk where "chk = (if 21 \<le> v \<and> hasCompressedChecksum (fprop fip) then [ucast (xxh bs AND 255)] else [] :: u8 list)"
  define src where "src = out @ rest"
  have out': "out = bs @ chk" unfolding out bs_def magic_def flags_def chk_def Let_def by (rule refl)
  have m: "length magic = 4" by (simp add: magic_def ZL_writeMagicNumber_def)
  have sz: "v < 21 \<Longrightarrow> 4 \<le> length sizes" by (rule sizes_roundtrip(2) [OF parts(3) assms(2,5)])
  have s1: "ZL_getFormatVersionFromFrame src = Inr v"
    using magic_roundtrip [OF assms(1)] by (simp add: src_def out' bs_def magic_def)
  have s2: "decodeProperties v src 4 = Inr (carried v (fprop fip), 4 + length flags)"
    using properties_roundtrip [OF m, of v "fprop fip" "bnd @ types @ sizes @ comment @ chk @ rest"]
    by (simp add: src_def out' bs_def flags_def)
  have s3: "decodeBundleID (carried v (fprop fip)) src (4 + length flags)
      = Inr (if hasBundle v (fprop fip) then bundleID fip else replicate 32 0, 4 + length (flags @ bnd))"
    using bundle_roundtrip [OF parts(1) assms(3), of "magic @ flags" "types @ sizes @ comment @ chk @ rest"] m
    by (simp add: src_def out' bs_def)
  have nb: "bnd = []" "flags = []" if "v < 21"
    using parts(1) that by (simp_all add: encodeBundleID_def hasBundle_def flags_def)
  obtain c where s4: "DFH_decodeNbOutputs v src (4 + length (flags @ bnd)) = Inr (length (inputDescs fip), c)"
    and s5: "DFH_decoderOutputTypes v (length (inputDescs fip)) src c
      = Inr (map in_type (inputDescs fip), 4 + length (flags @ bnd @ types))"
  proof (rule types_roundtrip [of "map in_type (inputDescs fip)" v types "magic @ flags @ bnd"
        "sizes @ comment @ chk @ rest"])
    show "4 \<le> length (sizes @ comment @ chk @ rest) \<or> 21 \<le> v" using sz by fastforce
  qed (use assms(2) n parts(2) nb m in \<open>simp_all add: src_def out' bs_def\<close>)
  have s6: "DFH_decodeOutputSizes v src (4 + length (flags @ bnd @ types)) (map in_type (inputDescs fip))
      = Inr (map byteSize (inputDescs fip), if 21 \<le> v then map decoded_numElts (inputDescs fip) else [],
          4 + length (flags @ bnd @ types @ sizes))"
    using sizes_roundtrip(1) [OF parts(3) assms(2,5), of "magic @ flags @ bnd @ types" "comment @ chk @ rest"] m
    by (simp add: src_def out' bs_def)
  have s7: "decodeComment (\<lambda>_. True) v (carried v (fprop fip)) src (4 + length (flags @ bnd @ types @ sizes))
      = Inr (if 22 \<le> v \<and> hasComment (fprop fip) then fh_comment fip else [], length bs)"
    using comment_roundtrip [OF parts(4) assms(4), of "magic @ flags @ bnd @ types @ sizes" "chk @ rest"] m
    by (simp add: src_def out' bs_def)
  have s8: "decodeChecksum xxh v (carried v (fprop fip)) src (length bs) = Inr (length out)"
    using checksum_roundtrip [of xxh v "fprop fip" bs rest] by (simp add: src_def out' chk_def)
  have lim: "\<not> ZL_runtimeInputLimit v < length (inputDescs fip)" "length (inputDescs fip) \<noteq> 0"
    using n assms(2) parts(2) by (auto simp: ZL_runtimeInputLimit_def encodeTypes_def split: if_splits)
  show ?thesis
    unfolding src_def [symmetric] DFH_FrameInfo_decodeFrameHeader_def
    by (simp only: s1 s2 s3 s4 s5 s6 s7 s8 lim res_bind_simps split_conv if_False simp_thms decoded_info_def)
qed


section \<open>The size of the header\<close>

lemma encodeTypes_length:
  assumes "encodeTypes v ts = Inr bs" "length ts \<le> 2048"
  shows "length bs \<le> length ts + 6"
proof -
  consider "21 \<le> v" | "15 \<le> v" "v < 21" | "v < 15" by linarith
  then show ?thesis
  proof cases
    case 1
    then show ?thesis using assms(1) by (auto simp: encodeTypes_def encodeTypes_v21_def Let_def min_def)
  next
    case 2
    then have "encodeTypes_v15 ts = Inr bs" using assms(1) by (simp add: encodeTypes_def)
    then show ?thesis
      unfolding encodeTypes_v15_count [OF assms(2)] by (auto simp: count_v15_def Let_def min_def)
  next
    case 3
    then show ?thesis using assms(1) by (auto simp: encodeTypes_def split: if_splits)
  qed
qed

lemma encodeTypes_accepts:
  assumes "ts \<noteq> []" "length ts \<le> 2048" "v < 15 \<Longrightarrow> length ts = 1" "v < 14 \<Longrightarrow> ts ! 0 = ZL_Type_serial"
  obtains bs where "encodeTypes v ts = Inr bs"
  using that assms encodeTypes_v15_count [OF assms(2)]
  by (cases "v < 14"; cases "v < 15"; cases "v < 21") (auto simp: encodeTypes_def encodeType_def)

lemma writeVarints_room:
  "10 * length xs \<le> avail \<Longrightarrow> \<exists>bs. writeVarints avail xs = Inr bs \<and> length bs \<le> 10 * length xs"
proof (induction xs arbitrary: avail)
  case (Cons x xs)
  have l: "length (ZL_varintEncode x) \<le> 10" by (simp add: length_ZL_varintEncode ZL_varintSize_bounds)
  then have "10 * length xs \<le> avail - length (ZL_varintEncode x)" using Cons.prems by simp
  from Cons.IH [OF this] Cons.prems l show ?case by (force simp: EFH_writeVarint_def)
qed simp

lemma sizes_accepted:
  assumes "20 * length ds \<le> avail" "v < 21 \<Longrightarrow> \<forall>d \<in> set ds. byteSize d < 0xffffffff"
  obtains bs where "EFH_encodeInputSizes v avail ds = Inr bs" "length bs \<le> 20 * length ds"
proof (cases "v < 21")
  case True
  then have "EFH_encodeInputSizes v avail ds = EFH_encodeInputSizes_v20 avail ds"
    by (simp add: EFH_encodeInputSizes_def)
  moreover obtain bs where "EFH_encodeInputSizes_v20 avail ds = Inr bs"
    using assms True by (auto simp: EFH_encodeInputSizes_v20_def list_ex_iff linorder_not_le)
  ultimately show ?thesis using that sizes_v20(2) [of avail ds bs] by simp
next
  case False
  define xs where "xs = map (\<lambda>d. byteSize d + 1) ds @ map in_numElts (filter (\<lambda>d. in_type d = ZL_Type_string) ds)"
  have "length xs \<le> 2 * length ds" by (simp add: xs_def)
  then obtain bs where "writeVarints avail xs = Inr bs" "length bs \<le> 20 * length ds"
    using writeVarints_room [of xs avail] assms(1) by fastforce
  with that False show ?thesis
    by (simp add: EFH_encodeInputSizes_def EFH_encodeInputSizes_v21_def xs_def)
qed

lemma computeFHBound_eq: "n \<le> 2048 \<Longrightarrow> computeFHBound n 0 0 0 = Inr (24 + 21 * n)"
proof -
  have "ZL_varintSize 0 = 1" "ZL_varintSize (- 1) = 10" by code_simp+
  then show ?thesis if "n \<le> 2048" using that by (simp add: computeFHBound_def)
qed

lemma frameHeaderBound_eq:
  "length (inputDescs fip) \<le> 2048 \<Longrightarrow> frameHeaderBound v fip
     = Inr (24 + 21 * length (inputDescs fip)
         + (if fh_comment fip \<noteq> [] then 4 + length (fh_comment fip) else 0)
         + (if hasBundle v (fprop fip) then 33 else 0))"
  by (simp add: frameHeaderBound_def computeFHBound_eq)

lemma bundle_accepted:
  assumes "hasBundle v (fprop fip) \<Longrightarrow> ZL_UniqueID_isValid (bundleID fip)" "length (bundleID fip) = 32"
  obtains bs where "encodeBundleID v fip = Inr bs" "length bs \<le> (if hasBundle v (fprop fip) then 33 else 0)"
  using that assms significantBytes_pad(2,3) [OF assms(2)]
  by (cases "hasBundle v (fprop fip)") (auto simp: encodeBundleID_def Let_def)

lemma comment_accepted:
  assumes "length (fh_comment fip) \<le> 10000" "hasComment (fprop fip) \<Longrightarrow> fh_comment fip \<noteq> []"
  obtains bs where "encodeComment v fip = Inr bs"
    "length bs \<le> (if fh_comment fip \<noteq> [] then 10 + length (fh_comment fip) else 0)"
proof (cases "22 \<le> v \<and> hasComment (fprop fip)")
  case True
  then show ?thesis using that assms by (simp add: encodeComment_def length_ZL_varintEncode ZL_varintSize_bounds)
qed (use that in \<open>auto simp: encodeComment_def\<close>)

lemma EFH_writeFrameHeader_internal:
  assumes "EFH_writeFrameHeader xxh alloc v fip cap = Inr out"
  shows "\<exists>cap'. writeFrameHeader_internal xxh v fip cap' = Inr out"
  using assms unfolding EFH_writeFrameHeader_def by (auto split: if_splits)

lemma frame_header_written:
  assumes "inputDescs fip \<noteq> []" "length (inputDescs fip) \<le> 2048"
    "v < 15 \<longrightarrow> length (inputDescs fip) = 1"
    "v < 14 \<longrightarrow> in_type (inputDescs fip ! 0) = ZL_Type_serial"
    "v < 21 \<longrightarrow> (\<forall>d \<in> set (inputDescs fip). byteSize d < 0xffffffff)"
    "hasBundle v (fprop fip) \<longrightarrow> ZL_UniqueID_isValid (bundleID fip)" "length (bundleID fip) = 32"
    "length (fh_comment fip) \<le> 10000" "hasComment (fprop fip) \<longrightarrow> fh_comment fip \<noteq> []"
    "frameHeaderBound v fip = Inr bound" "bound \<le> cap"
  shows "\<exists>out. writeFrameHeader_internal xxh v fip cap = Inr out \<and> length out \<le> bound"
proof -
  let ?n = "length (inputDescs fip)"
  define extra where "extra = (if hasBundle v (fprop fip) then 33 else 0 :: nat)"
  define com where "com = (if fh_comment fip \<noteq> [] then 4 + length (fh_comment fip) else 0)"
  have b: "bound = 24 + 21 * ?n + com + extra"
    using assms(2,10) by (simp add: frameHeaderBound_eq com_def extra_def)
  obtain types where t: "encodeTypes v (map in_type (inputDescs fip)) = Inr types"
    using encodeTypes_accepts [of "map in_type (inputDescs fip)" v] assms(1-4) by auto
  have tl: "length types \<le> ?n + 6" using encodeTypes_length [OF t] assms(2) by simp
  obtain bnd where bn: "encodeBundleID v fip = Inr bnd" "length bnd \<le> extra"
    by (rule bundle_accepted [of v fip]) (use assms(6,7) in \<open>simp_all add: extra_def\<close>)
  obtain comment where c: "encodeComment v fip = Inr comment" "length comment \<le> com + 6"
  proof (rule comment_accepted [OF assms(8), of v])
    fix bs assume "encodeComment v fip = Inr bs"
      "length bs \<le> (if fh_comment fip \<noteq> [] then 10 + length (fh_comment fip) else 0)"
    then show thesis by (intro that [of bs]) (auto simp: com_def split: if_splits)
  qed (use assms(9) in simp)
  define start where "start = ZL_writeMagicNumber v @ (if 21 \<le> v then [frameFlags v (fprop fip)] else []) @ bnd @ types"
  have st: "length start \<le> 5 + extra + ?n + 6" using bn(2) tl by (simp add: start_def ZL_writeMagicNumber_def)
  then have "20 * ?n \<le> cap - length start" using b assms(11) by linarith
  then obtain sizes where s: "EFH_encodeInputSizes v (cap - length start) (inputDescs fip) = Inr sizes"
    "length sizes \<le> 20 * ?n"
    by (rule sizes_accepted [of "inputDescs fip" "cap - length start" v]) (use assms(5) in simp_all)
  have "\<exists>out. writeFrameHeader_internal xxh v fip cap = Inr out
      \<and> length out \<le> length start + length sizes + length comment + 1"
    using assms(10,11) t bn(1) c(1) s(1)
    unfolding writeFrameHeader_internal_def start_def by (simp add: Let_def)
  with st s(2) c(2) b show ?thesis by fastforce
qed

definition example_frame :: EFH_FrameInfo where
  "example_frame =
     \<lparr>fprop = \<lparr>hasContentChecksum = True, hasCompressedChecksum = True, hasComment = True, hasBundleID = True\<rparr>,
      inputDescs = [\<lparr>in_type = ZL_Type_string, byteSize = 300, in_numElts = 7\<rparr>,
        \<lparr>in_type = ZL_Type_numeric, byteSize = 8, in_numElts = 2\<rparr>,
        \<lparr>in_type = ZL_Type_serial, byteSize = 5, in_numElts = 5\<rparr>],
      fh_comment = [104, 105], bundleID = [1, 2, 3] @ replicate 29 0\<rparr>"

lemma example_frame_written:
  "frameHeaderBound 27 example_frame = Inr 126"
  "\<exists>out. EFH_writeFrameHeader (\<lambda>_. 7) (\<lambda>_. True) 27 example_frame 500 = Inr out"
proof -
  show b: "frameHeaderBound 27 example_frame = Inr 126"
    by (simp add: frameHeaderBound_eq hasBundle_def example_frame_def)
  have "ZL_UniqueID_isValid (bundleID example_frame)" by code_simp
  then obtain out where "writeFrameHeader_internal (\<lambda>_. 7) 27 example_frame 500 = Inr out"
    using frame_header_written [OF _ _ _ _ _ _ _ _ _ b, of 500 "\<lambda>_. 7"] by (auto simp: example_frame_def)
  moreover have "computeFHBound (length (inputDescs example_frame)) 0 0 0 = Inr 87"
    by (simp add: computeFHBound_eq example_frame_def)
  ultimately show "\<exists>out. EFH_writeFrameHeader (\<lambda>_. 7) (\<lambda>_. True) 27 example_frame 500 = Inr out"
    by (simp add: EFH_writeFrameHeader_def)
qed

text \<open>
  C24: frame headers round trip. For every supported format version, what the encoder writes for one
  or more inputs, followed by anything, is decoded to the version, the properties the version
  carries, the types and sizes of the inputs, the element counts (from version 21), the comment
  (from version 22) and the bundle identifier (from version 25), and the decoder consumes exactly
  the bytes written.
\<close>

theorem frame_header_roundtrip:
  assumes "ZL_isFormatVersionSupported v" "inputDescs fip \<noteq> []" "length (bundleID fip) = 32"
    "hasComment (fprop fip) \<longrightarrow> fh_comment fip \<noteq> []"
    "\<forall>d \<in> set (inputDescs fip). byteSize d + 1 \<noteq> 0"
    "EFH_writeFrameHeader xxh alloc v fip cap = Inr out"
  shows "DFH_FrameInfo_decodeFrameHeader xxh (\<lambda>_. True) (out @ rest)
    = Inr (decoded_info v fip (length out), length out)"
  using EFH_writeFrameHeader_internal [OF assms(6)] frame_header_decodes assms(1-5) by blast

theorem frame_header_roundtrip_witness:
  "\<exists>out. EFH_writeFrameHeader (\<lambda>_. 7) (\<lambda>_. True) 27 example_frame 500 = Inr out
     \<and> DFH_FrameInfo_decodeFrameHeader (\<lambda>_. 7) (\<lambda>_. True) (out @ [9])
       = Inr (decoded_info 27 example_frame (length out), length out)"
proof -
  have "ZL_isFormatVersionSupported 27 \<and> inputDescs example_frame \<noteq> []
      \<and> length (bundleID example_frame) = 32
      \<and> (hasComment (fprop example_frame) \<longrightarrow> fh_comment example_frame \<noteq> [])
      \<and> (\<forall>d \<in> set (inputDescs example_frame). byteSize d + 1 \<noteq> 0)"
    by code_simp
  with example_frame_written(2) show ?thesis
    using frame_header_roundtrip [of 27 example_frame "\<lambda>_. 7" "\<lambda>_. True" 500 _ "[9]"] by metis
qed


text \<open>
  C25: the bound on the header is enough. When the format version supports the inputs, the
  identifier and the comment are valid and the destination has the bound the encoder computes,
  the encoder does write a header (no field finds the destination too small), and the header is no
  longer than the bound, whatever the number of inputs, their sizes and the checksum.
\<close>

theorem frame_header_fits:
  assumes "inputDescs fip \<noteq> []" "length (inputDescs fip) \<le> 2048"
    "v < 15 \<longrightarrow> length (inputDescs fip) = 1"
    "v < 14 \<longrightarrow> in_type (inputDescs fip ! 0) = ZL_Type_serial"
    "v < 21 \<longrightarrow> (\<forall>d \<in> set (inputDescs fip). byteSize d < 0xffffffff)"
    "hasBundle v (fprop fip) \<longrightarrow> ZL_UniqueID_isValid (bundleID fip)" "length (bundleID fip) = 32"
    "length (fh_comment fip) \<le> 10000" "hasComment (fprop fip) \<longrightarrow> fh_comment fip \<noteq> []"
    "frameHeaderBound v fip = Inr bound" "bound \<le> cap"
  shows "\<exists>out. writeFrameHeader_internal xxh v fip cap = Inr out \<and> length out \<le> bound"
  using assms by (rule frame_header_written)

theorem frame_header_fits_witness:
  "\<exists>out. writeFrameHeader_internal (\<lambda>_. 7) 27 example_frame 126 = Inr out \<and> length out \<le> 126"
proof -
  have "ZL_UniqueID_isValid (bundleID example_frame)" by code_simp
  then show ?thesis
    using frame_header_fits [OF _ _ _ _ _ _ _ _ _ example_frame_written(1), of 126 "\<lambda>_. 7"]
    by (simp add: example_frame_def)
qed

end
