(* ===== verification/Frame_Query.thy ===== *)
theory Frame_Query
  imports Frame_Roundtrip
begin

text \<open>
  The queries that parse a frame header on their own, against what the encoder writes: they agree
  with the full decoder on frames with one output. On frames with several outputs the type query
  refuses; the size query refuses below version 21 only.
\<close>

lemma bundle_field:
  fixes v fip bnd magic tail
  defines "src \<equiv> magic @ [frameFlags v (fprop fip)] @ bnd @ tail"
  assumes "encodeBundleID v fip = Inr bnd" "length (bundleID fip) = 32" "length magic = 4"
  shows "src ! 4 = frameFlags v (fprop fip)"
    "25 \<le> v \<and> frameFlags v (fprop fip) AND 8 \<noteq> 0 \<longleftrightarrow> hasBundle v (fprop fip)"
    "(if hasBundle v (fprop fip) then Suc (unat (src ! 5)) else 0) = length bnd"
proof -
  show "src ! 4 = frameFlags v (fprop fip)" by (simp add: src_def nth_append assms(4))
  show "25 \<le> v \<and> frameFlags v (fprop fip) AND 8 \<noteq> 0 \<longleftrightarrow> hasBundle v (fprop fip)"
    by (simp add: hasBundle_def frameFlags_def)
  show "(if hasBundle v (fprop fip) then Suc (unat (src ! 5)) else 0) = length bnd"
  proof (cases "hasBundle v (fprop fip)")
    case True
    define k where "k = ZL_UniqueID_significantBytes (bundleID fip)"
    have k: "k \<le> 32" using significantBytes_pad(2) [OF assms(3)] by (simp add: k_def)
    have b: "bnd = word_of_nat k # take k (bundleID fip)"
      using assms(2) True by (auto simp: encodeBundleID_def k_def Let_def split: if_splits)
    then have "src ! 5 = word_of_nat k" by (simp add: src_def nth_append assms(4))
    moreover have "unat (word_of_nat k :: u8) = k" using k by (simp add: unat_of_nat)
    ultimately show ?thesis using True k by (simp add: b assms(3))
  qed (use assms(2) in \<open>simp add: encodeBundleID_def\<close>)
qed

lemma token_codes:
  "\<forall>a \<in> set all_types. token_v21 1 [a] < 64 \<and> token1_v15 1 [a] \<le> 3
     \<and> decodeType (token1_v15 1 [a]) = a \<and> token1_v15 1 [a] < 64"
  by code_simp

text \<open>The byte after the flags and the identifier, which holds the number of inputs.\<close>

lemma first_token:
  assumes "encodeTypes v ts = Inr types" "ts \<noteq> []" "length ts \<le> 2048" "15 \<le> v"
  obtains token more where "types = token # more"
    "21 \<le> v \<Longrightarrow> token AND 15 = 1 \<longleftrightarrow> length ts = 1"
    "v < 21 \<Longrightarrow> 64 \<le> token \<longleftrightarrow> length ts \<noteq> 1"
    "length ts = 1 \<Longrightarrow> more = [] \<and> token < 64
       \<and> decodeType (if 21 \<le> v then drop_bit 4 token AND 3 else token) = hd ts
       \<and> (v < 21 \<longrightarrow> token \<le> 3)"
proof (cases "21 \<le> v")
  case True
  then have types: "types = encodeTypes_v21 ts" using assms(1) by (simp add: encodeTypes_def)
  show ?thesis
  proof (cases "length ts < 15")
    case short: True
    define token where "token = token_v21 (length ts) ts"
    have t: "types = token # take ((length ts + 1) div 4) (write_le 8 (inTypes 0 (drop 2 ts)))"
      using short by (simp add: types encodeTypes_v21_def token_def token_v21_def Let_def)
    have c: "unat (token AND 15) = length ts" using token_v21(1) [OF assms(2) short] by (simp add: token_def)
    have one: "token AND 15 = 1 \<longleftrightarrow> length ts = 1" using c by (metis unat_1 unsigned_1 word_unat_eq_iff)
    have "token < 64 \<and> decodeType (drop_bit 4 token AND 3) = hd ts" if l: "length ts = 1"
    proof -
      obtain a where "ts = [a]" using l by (cases ts) auto
      then show ?thesis
        using token_v21_code_1 [rule_format, OF in_all_types [of a]] token_codes [rule_format, OF in_all_types [of a]]
        by (simp add: token_def)
    qed
    with True t one show ?thesis by (intro that [OF t]) auto
  next
    case False
    have "(word_of_nat ((length ts - 15) * 16) OR 15 :: u8) AND 15 = 15"
      by (rule bit_word_eqI) (simp add: bit_simps)
    with True False show ?thesis
      by (intro that [of "word_of_nat ((length ts - 15) * 16) OR 15"
            "word_of_nat ((length ts - 15) div 16) # take ((length ts + 3) div 4) (type_groups ts)"])
        (auto simp: types encodeTypes_v21_def Let_def)
  qed
next
  case False
  then have "encodeTypes_v15 ts = Inr types" using assms(1,4) by (simp add: encodeTypes_def)
  define token where "token = token1_v15 (length ts) ts"
  obtain more where t: "types = token # more" "length ts = 1 \<Longrightarrow> more = []"
    using \<open>encodeTypes_v15 ts = Inr types\<close> encodeTypes_v15_count [OF assms(3)]
    by (auto simp: count_v15_def Let_def token_def)
  have "unat token div 64 + 1 = min (length ts) 4"
    using token1_v15(1) [OF assms(2)] by (simp add: token_def unat_drop_bit)
  moreover have "length ts \<noteq> 0" using assms(2) by simp
  moreover have "unat token div 64 = 0 \<longleftrightarrow> unat token < 64" by (simp add: div_eq_0_iff)
  ultimately have "64 \<le> unat token \<longleftrightarrow> length ts \<noteq> 1" by (auto simp: min_def split: if_splits)
  then have "64 \<le> token \<longleftrightarrow> length ts \<noteq> 1" by (simp add: word_le_nat_alt)
  moreover have "token \<le> 3 \<and> token < 64 \<and> decodeType token = hd ts" if l: "length ts = 1"
  proof -
    obtain a where "ts = [a]" using l by (cases ts) auto
    then show ?thesis using token_codes [rule_format, OF in_all_types [of a]] by (simp add: token_def)
  qed
  ultimately show ?thesis using False t by (intro that [OF t(1)]) auto
qed

text \<open>What the encoder writes, up to the sizes.\<close>

lemma header_start:
  assumes "writeFrameHeader_internal xxh v fip cap = Inr out"
  obtains bnd types sizes tail where
    "out = ZL_writeMagicNumber v @ (if 21 \<le> v then [frameFlags v (fprop fip)] else []) @ bnd @ types @ sizes @ tail"
    "encodeBundleID v fip = Inr bnd" "encodeTypes v (map in_type (inputDescs fip)) = Inr types"
    "\<exists>avail. EFH_encodeInputSizes v avail (inputDescs fip) = Inr sizes" "length (inputDescs fip) \<le> 2048"
  using assms
  by (rule writeFrameHeader_internal_parts) (auto simp: Let_def intro!: that)

lemma getOutputType_written:
  assumes "ZL_isFormatVersionSupported v" "inputDescs fip \<noteq> []" "length (bundleID fip) = 32"
    "writeFrameHeader_internal xxh v fip cap = Inr out"
  shows "ZL_getOutputType (out @ rest) =
    (if length (inputDescs fip) = 1 then Inr (in_type (hd (inputDescs fip)))
     else Inl ZL_ErrorCode_invalidRequest_singleOutputFrameOnly)"
proof -
  obtain bnd types sizes tail where
    out: "out = ZL_writeMagicNumber v @ (if 21 \<le> v then [frameFlags v (fprop fip)] else []) @ bnd @ types @ sizes @ tail"
    and b: "encodeBundleID v fip = Inr bnd" and t: "encodeTypes v (map in_type (inputDescs fip)) = Inr types"
    and n: "length (inputDescs fip) \<le> 2048"
    using header_start [OF assms(4)] by metis
  define magic where "magic = ZL_writeMagicNumber v"
  have m: "length magic = 4" by (simp add: magic_def ZL_writeMagicNumber_def)
  have ver: "ZL_getFormatVersionFromFrame (out @ rest) = Inr v"
    using magic_roundtrip [OF assms(1)] by (simp add: out)
  have hd: "hd (map in_type (inputDescs fip)) = in_type (hd (inputDescs fip))"
    using assms(2) by (cases "inputDescs fip") simp_all
  consider "21 \<le> v" | "15 \<le> v" "v < 21" | "v = 14" | "v < 14" by linarith
  then show ?thesis
  proof cases
    case 1
    obtain token more where tok: "types = token # more"
      "token AND 15 = 1 \<longleftrightarrow> length (inputDescs fip) = 1"
      "length (inputDescs fip) = 1 \<Longrightarrow> decodeType (drop_bit 4 token AND 3) = in_type (hd (inputDescs fip))"
    proof (rule first_token [OF t])
      fix token more
      assume "types = token # more" "21 \<le> v \<Longrightarrow> token AND 15 = 1 \<longleftrightarrow> length (map in_type (inputDescs fip)) = 1"
        "length (map in_type (inputDescs fip)) = 1 \<Longrightarrow> more = [] \<and> token < 64
          \<and> decodeType (if 21 \<le> v then drop_bit 4 token AND 3 else token) = hd (map in_type (inputDescs fip))
          \<and> (v < 21 \<longrightarrow> token \<le> 3)"
      with 1 hd show thesis by (intro that [of token more]) simp_all
    qed (use 1 n assms(2) in simp_all)
    define src where "src = out @ rest"
    have src: "src = magic @ [frameFlags v (fprop fip)] @ bnd @ token # more @ sizes @ tail @ rest"
      using 1 by (simp add: src_def out tok(1) magic_def)
    note bf = bundle_field(1,3) [OF b assms(3) m, where tail = "token # more @ sizes @ tail @ rest", folded src]
      bundle_field(2) [OF b assms(3) m]
    have at: "src ! (5 + length bnd) = token" using m by (simp add: src nth_append)
    have len: "\<not> length src < 6" "\<not> length src < 5 + length bnd + 1" by (simp_all add: src m)
    have field: "(if 25 \<le> v \<and> frameFlags v (fprop fip) AND 8 \<noteq> 0 then 1 + unat (src ! 5) else 0) = length bnd"
      unfolding bf(3) using bf(2) by (cases "hasBundle v (fprop fip)") simp_all
    have ver': "\<not> v \<le> 13" "\<not> v < 21" using 1 by simp_all
    show ?thesis
      unfolding ZL_getOutputType_def ver [folded src_def] res_bind_simps src_def [symmetric] Let_def bf(1) field at
        if_not_P [OF len(1)] if_not_P [OF len(2)] if_not_P [OF ver'(1)] if_not_P [OF ver'(2)]
      using tok(2,3) by (cases "length (inputDescs fip) = 1") simp_all
  next
    case 2
    then have e: "bnd = []" using b by (simp add: encodeBundleID_def hasBundle_def)
    obtain token more where tok: "types = token # more"
      "64 \<le> token \<longleftrightarrow> length (inputDescs fip) \<noteq> 1"
      "length (inputDescs fip) = 1 \<Longrightarrow> token \<le> 3 \<and> decodeType token = in_type (hd (inputDescs fip))"
    proof (rule first_token [OF t])
      fix token more
      assume "types = token # more" "v < 21 \<Longrightarrow> 64 \<le> token \<longleftrightarrow> length (map in_type (inputDescs fip)) \<noteq> 1"
        "length (map in_type (inputDescs fip)) = 1 \<Longrightarrow> more = [] \<and> token < 64
          \<and> decodeType (if 21 \<le> v then drop_bit 4 token AND 3 else token) = hd (map in_type (inputDescs fip))
          \<and> (v < 21 \<longrightarrow> token \<le> 3)"
      with 2 hd show thesis by (intro that [of token more]) simp_all
    qed (use 2 n assms(2) in simp_all)
    have "(out @ rest) ! 4 = token" using 2 m by (simp add: out tok(1) e nth_append flip: magic_def)
    moreover have "3 < token" if "64 \<le> token" using that by (simp add: word_le_nat_alt word_less_nat_alt)
    ultimately show ?thesis
      unfolding ZL_getOutputType_def ver res_bind_simps
      using 2 tok(2,3) m by (auto simp: out tok(1) magic_def [symmetric] not_less [symmetric])
  next
    case 3
    then have e: "bnd = []" using b by (simp add: encodeBundleID_def hasBundle_def)
    obtain d where d: "inputDescs fip = [d]" "types = [encodeType (in_type d)]"
      using t 3 assms(2) by (cases "inputDescs fip") (auto simp: encodeTypes_def split: if_splits)
    have "(out @ rest) ! 4 = encodeType (in_type d)" using 3 m by (simp add: out d(2) e nth_append flip: magic_def)
    moreover have "\<not> 3 < encodeType (in_type d)" by (cases "in_type d") (simp_all add: encodeType_def)
    ultimately show ?thesis
      unfolding ZL_getOutputType_def ver res_bind_simps using 3 m by (simp add: out d magic_def [symmetric])
  next
    case 4
    then obtain d where "inputDescs fip = [d]" "in_type d = ZL_Type_serial"
      using t assms(2) by (cases "inputDescs fip"; cases "in_type (hd (inputDescs fip))")
        (auto simp: encodeTypes_def encodeType_def split: if_splits)
    with 4 show ?thesis unfolding ZL_getOutputType_def ver res_bind_simps by simp
  qed
qed


lemma getDecompressedSize_written:
  assumes "ZL_isFormatVersionSupported v" "inputDescs fip = [d]" "length (bundleID fip) = 32"
    "writeFrameHeader_internal xxh v fip cap = Inr out" "4 \<le> length rest" "byteSize d < - 2"
  shows "ZL_getDecompressedSize (out @ rest) = Inr (byteSize d)"
proof -
  obtain bnd types sizes tail avail where
    out: "out = ZL_writeMagicNumber v @ (if 21 \<le> v then [frameFlags v (fprop fip)] else []) @ bnd @ types @ sizes @ tail"
    and b: "encodeBundleID v fip = Inr bnd" and t: "encodeTypes v (map in_type (inputDescs fip)) = Inr types"
    and s: "EFH_encodeInputSizes v avail (inputDescs fip) = Inr sizes"
    using header_start [OF assms(4)] by metis
  define magic where "magic = ZL_writeMagicNumber v"
  define src where "src = out @ rest"
  have m: "length magic = 4" by (simp add: magic_def ZL_writeMagicNumber_def)
  have ver: "ZL_getFormatVersionFromFrame src = Inr v"
    using magic_roundtrip [OF assms(1)] by (simp add: out src_def)
  have ty: "types = (if 13 < v then [hd types] else [])" "14 < v \<Longrightarrow> hd types < 64"
  proof -
    consider "15 \<le> v" | "v = 14" | "v < 14" by linarith
    then have "types = (if 13 < v then [hd types] else []) \<and> (14 < v \<longrightarrow> hd types < 64)"
    proof cases
      case 1
      show ?thesis by (rule first_token [OF t]) (use 1 assms(2) in simp_all)
    qed (use t assms(2) in \<open>auto simp: encodeTypes_def split: if_splits\<close>)
    then show "types = (if 13 < v then [hd types] else [])" "14 < v \<Longrightarrow> hd types < 64" by simp_all
  qed
  show ?thesis
  proof (cases "21 \<le> v")
    case True
    have src: "src = magic @ [frameFlags v (fprop fip)] @ bnd @ hd types # sizes @ tail @ rest"
      using True ty(1) by (simp add: src_def out magic_def)
    have sz: "sizes = ZL_varintEncode (byteSize d + 1) @ drop (length (ZL_varintEncode (byteSize d + 1))) sizes"
    proof -
      have "EFH_encodeInputSizes_v21 avail [d] = Inr sizes"
        using s True assms(2) by (simp add: EFH_encodeInputSizes_def)
      from writeVarints_Inr [OF this [unfolded EFH_encodeInputSizes_v21_def]] show ?thesis by simp
    qed
    note bf = bundle_field(1,3) [OF b assms(3) m, where tail = "hd types # sizes @ tail @ rest", folded src]
      bundle_field(2) [OF b assms(3) m]
    have field: "(if 25 \<le> v \<and> frameFlags v (fprop fip) AND 8 \<noteq> 0 then 1 + unat (src ! 5) else 0) = length bnd"
      unfolding bf(3) using bf(2) by (cases "hasBundle v (fprop fip)") simp_all
    have at: "src ! (4 + 1 + length bnd) = hd types" using m by (simp add: src nth_append)
    have dr: "drop (4 + 1 + 1 + length bnd) src = sizes @ tail @ rest" using m by (simp add: src)
    have len: "\<not> length src < 5" "\<not> length src < 4 + 1 + 1 + length bnd + 4"
      "\<not> ((25 \<le> v \<and> frameFlags v (fprop fip) AND 8 \<noteq> 0) \<and> length src < 6)"
      using assms(5) by (simp_all add: src m)
    have dec: "ZL_varintDecode (sizes @ tail @ rest)
        = Inr (byteSize d + 1, drop (length (ZL_varintEncode (byteSize d + 1))) sizes @ tail @ rest)"
      by (subst sz) (simp add: ZL_varintDecode_encode)
    have tok: "\<not> (14 < v \<and> 64 \<le> hd types)" "\<not> v < 21" "21 \<le> v" "13 < v" using True ty(2) by (auto simp: not_le)
    have sizes: "byteSize d + 1 \<noteq> 0" "\<not> SIZE_MAX \<le> byteSize d + 1"
    proof -
      have u: "unat (byteSize d) < 2 ^ 64 - 2" using assms(6) by (simp add: word_less_nat_alt)
      then have "unat (byteSize d + 1) = unat (byteSize d) + 1" by (simp add: unat_word_ariths)
      with u show "byteSize d + 1 \<noteq> 0" "\<not> SIZE_MAX \<le> byteSize d + 1"
        by (auto simp: word_le_nat_alt unat_minus_1 simp flip: unat_eq_0)
    qed
    show ?thesis
      unfolding src_def [symmetric] ZL_getDecompressedSize_def ver res_bind_simps
        getDecompressedSizeV3orMore_def Let_def bf(1) field if_not_P [OF len(1)] if_P [OF tok(3)] if_P [OF tok(4)]
        at if_not_P [OF len(2)] if_not_P [OF len(3)] if_not_P [OF tok(1)] if_not_P [OF tok(2)] dr dec
      using sizes by simp
  next
    case False
    then have e: "bnd = []" using b by (simp add: encodeBundleID_def hasBundle_def)
    have sz: "EFH_encodeInputSizes_v20 avail [d] = Inr sizes"
      using s False assms(2) by (simp add: EFH_encodeInputSizes_def)
    have src: "src = (magic @ types) @ sizes @ tail @ rest" using False e by (simp add: src_def out magic_def)
    have hs: "length (magic @ types) = 4 + (if 13 < v then 1 else 0)" using m ty(1) by (simp split: if_splits) (metis length_Cons list.size(3) One_nat_def)
    have "ucast (ZL_read32 (drop (4 + (if 13 < v then 1 else 0)) src)) = byteSize d"
      using sizes_v20(1) [OF sz, of "magic @ types" "tail @ rest"] hs sizes_v20(2) [OF sz]
      by (simp add: DFH_decodeOutputSizes_v20_def src split: if_splits)
    moreover have "src ! 4 = hd types" if "14 < v" using that ty(1) m by (cases types) (simp_all add: src nth_append)
    moreover have "\<not> length src < 4 + (if 13 < v then 1 else 0) + 4" "\<not> length src < 5"
      using hs m sizes_v20(2) [OF sz] by (simp_all add: src)
    ultimately show ?thesis
      unfolding src_def [symmetric] ZL_getDecompressedSize_def ver res_bind_simps getDecompressedSizeV3orMore_def Let_def
      using False ty(2) by (auto simp: not_le)
  qed
qed


text \<open>
  C26: the two queries that parse the header on their own agree with the encoder on the frames they
  are meant for. On a frame with one output followed by at least four bytes, they return its type
  and its decompressed size, with or without flags, bundle identifier and comment, in every
  supported format version; on a frame with several outputs the type query refuses.
\<close>

theorem queries_single_output:
  assumes "ZL_isFormatVersionSupported v" "inputDescs fip \<noteq> []" "length (bundleID fip) = 32"
    "EFH_writeFrameHeader xxh alloc v fip cap = Inr out" "4 \<le> length rest"
    "\<forall>d \<in> set (inputDescs fip). byteSize d < - 2"
  shows "ZL_getOutputType (out @ rest) =
      (if length (inputDescs fip) = 1 then Inr (in_type (hd (inputDescs fip)))
       else Inl ZL_ErrorCode_invalidRequest_singleOutputFrameOnly)
    \<and> (length (inputDescs fip) = 1 \<longrightarrow>
         ZL_getDecompressedSize (out @ rest) = Inr (byteSize (hd (inputDescs fip))))"
proof -
  obtain cap' where w: "writeFrameHeader_internal xxh v fip cap' = Inr out"
    using EFH_writeFrameHeader_internal [OF assms(4)] by blast
  have "ZL_getDecompressedSize (out @ rest) = Inr (byteSize (hd (inputDescs fip)))"
    if l: "length (inputDescs fip) = 1"
  proof -
    obtain d where "inputDescs fip = [d]" using l by (cases "inputDescs fip") auto
    then show ?thesis using getDecompressedSize_written [OF assms(1) _ assms(3) w assms(5)] assms(6) by simp
  qed
  with getOutputType_written [OF assms(1-3) w] show ?thesis by blast
qed

definition single_frame :: EFH_FrameInfo where
  "single_frame = example_frame\<lparr>inputDescs := [\<lparr>in_type = ZL_Type_struct, byteSize = 300, in_numElts = 3\<rparr>]\<rparr>"

lemma single_frame_written:
  "\<exists>out. EFH_writeFrameHeader (\<lambda>_. 7) (\<lambda>_. True) 27 single_frame 500 = Inr out"
proof -
  have b: "frameHeaderBound 27 single_frame = Inr 84"
    by (simp add: frameHeaderBound_eq hasBundle_def example_frame_def single_frame_def)
  have "ZL_UniqueID_isValid (bundleID single_frame)" by code_simp
  then obtain out where "writeFrameHeader_internal (\<lambda>_. 7) 27 single_frame 500 = Inr out"
    using frame_header_written [OF _ _ _ _ _ _ _ _ _ b, of 500 "\<lambda>_. 7"]
    by (auto simp: example_frame_def single_frame_def)
  moreover have "computeFHBound (length (inputDescs single_frame)) 0 0 0 = Inr 45"
    by (simp add: computeFHBound_eq single_frame_def)
  ultimately show ?thesis by (simp add: EFH_writeFrameHeader_def)
qed

theorem queries_single_output_witness:
  "\<exists>out. EFH_writeFrameHeader (\<lambda>_. 7) (\<lambda>_. True) 27 single_frame 500 = Inr out
     \<and> ZL_getOutputType (out @ [1, 2, 3, 4]) = Inr ZL_Type_struct
     \<and> ZL_getDecompressedSize (out @ [1, 2, 3, 4]) = Inr 300"
proof -
  obtain out where "EFH_writeFrameHeader (\<lambda>_. 7) (\<lambda>_. True) 27 single_frame 500 = Inr out"
    using single_frame_written by blast
  with queries_single_output [of 27 single_frame "\<lambda>_. 7" "\<lambda>_. True" 500 out "[1, 2, 3, 4]"] show ?thesis
    by (simp add: single_frame_def example_frame_def ZL_isFormatVersionSupported_def)
qed


end
