(* ===== verification/Bitpack.thy ===== *)
theory Bitpack
  imports NumOps
begin

text \<open>
  The bit packer (\<^verbatim>\<open>codecs/bitpack/common_bitpack_kernel.c\<close>) for elements of 8, 16 and 32 bits, in the
  build without AVX2 and BMI2: edge cases, the one-bit variants, the byte variants and the generic
  loops. What every one of them writes is the little-endian bit stream of the elements, and what
  every one of them reads is that stream.
\<close>

section \<open>Encoders\<close>

definition ZS_bitpackEncodeBound :: "nat \<Rightarrow> nat \<Rightarrow> nat" where
  "ZS_bitpackEncodeBound nbElts nbBits = (nbElts * nbBits + 7) div 8"

text \<open>\<^const>\<open>None\<close> is the answer \<^verbatim>\<open>-1\<close>: no edge case.\<close>

definition ZS_bitpackEncodeEdgeCase :: "nat \<Rightarrow> 'a::len word list \<Rightarrow> nat \<Rightarrow> byte list option" where
  "ZS_bitpackEncodeEdgeCase eltSize src nbBits =
     (if src = [] \<or> nbBits = 0 then Some []
      else if nbBits = eltSize * 8 then Some (write_elts eltSize src)
      else None)"

text \<open>The values enter the accumulator from the last one on.\<close>

definition bit1pack32 :: "nat \<Rightarrow> u32 list \<Rightarrow> byte list" where
  "bit1pack32 dstCapacity src32 =
     (let acc = foldl (\<lambda>acc v. push_bit 1 acc + ucast v) (0 :: u64) (rev src32);
          dstSize = (length src32 + 7) div 8
      in if 8 \<le> dstCapacity then take dstSize (write_le 8 acc) else ZL_writeLE64_N acc dstSize)"

text \<open>
  The generic encoder of 32-bit values: \<open>room\<close> bytes are left at the destination. A write of eight
  bytes advances by the whole bytes only; what it writes past them is overwritten by the next one.
\<close>

definition absorb :: "nat \<Rightarrow> u64 \<times> nat \<Rightarrow> u32 list \<Rightarrow> u64 \<times> nat" where
  "absorb nbBits = foldl (\<lambda>(acc64, bitPos) v. (acc64 OR push_bit bitPos (ucast v), bitPos + nbBits))"

primrec encode32_rounds ::
  "nat \<Rightarrow> nat \<Rightarrow> nat \<Rightarrow> nat \<Rightarrow> u64 \<Rightarrow> nat \<Rightarrow> u32 list \<Rightarrow> byte list \<times> nat \<times> u64 \<times> nat \<times> u32 list" where
  "encode32_rounds nbBits nbPacks 0 room acc64 bitPos vals = ([], room, acc64, bitPos, vals)"
| "encode32_rounds nbBits nbPacks (Suc nr) room acc64 bitPos vals =
     (if \<not> 7 < room then ([], room, acc64, bitPos, vals)
      else
      let (acc64, bitPos) = absorb nbBits (acc64, bitPos) (take nbPacks vals);
          nbBytesCommitted = bitPos div 8;
          (out, rest) = encode32_rounds nbBits nbPacks nr (room - nbBytesCommitted)
            (drop_bit (nbBytesCommitted * 8) acc64) (bitPos mod 8) (drop nbPacks vals)
      in (take nbBytesCommitted (write_le 8 acc64) @ out, rest))"

definition commit :: "nat \<Rightarrow> u64 \<Rightarrow> nat \<Rightarrow> byte list" where
  "commit room acc64 nbBytesCommitted =
     (if 8 \<le> room then take nbBytesCommitted (write_le 8 acc64)
      else ZL_writeLE64_N acc64 nbBytesCommitted)"

primrec encode32_last :: "nat \<Rightarrow> nat \<Rightarrow> u64 \<Rightarrow> nat \<Rightarrow> u32 list \<Rightarrow> byte list" where
  "encode32_last nbBits room acc64 bitPos [] = commit room acc64 ((bitPos + 7) div 8)"
| "encode32_last nbBits room acc64 bitPos (v # vs) =
     (let acc64 = acc64 OR push_bit bitPos (ucast v); bitPos = bitPos + nbBits in
      if 63 - nbBits < bitPos then
        (let nbBytesCommitted = bitPos div 8
         in commit room acc64 nbBytesCommitted
            @ encode32_last nbBits (room - nbBytesCommitted)
                (drop_bit (nbBytesCommitted * 8) acc64) (bitPos mod 8) vs)
      else encode32_last nbBits room acc64 bitPos vs)"

definition ZS_bitpackEncode32_generic :: "u32 list \<Rightarrow> nat \<Rightarrow> byte list" where
  "ZS_bitpackEncode32_generic src32 nbBits =
     (let nbPacks = 56 div nbBits;
          (out, room, acc64, bitPos, vals) = encode32_rounds nbBits nbPacks (length src32 div nbPacks)
            ((length src32 * nbBits + 7) div 8) 0 0 src32
      in out @ encode32_last nbBits room acc64 bitPos vals)"

primrec ZS_bitpackEncode8_generic :: "nat \<Rightarrow> nat \<Rightarrow> u64 \<Rightarrow> u8 list \<Rightarrow> byte list" where
  "ZS_bitpackEncode8_generic nbBits bits state [] = (if 0 < bits then [ucast state] else [])"
| "ZS_bitpackEncode8_generic nbBits bits state (v # vs) =
     (let state = state OR push_bit bits (ucast v); bits = bits + nbBits in
      if 8 \<le> bits then ucast state # ZS_bitpackEncode8_generic nbBits (bits - 8) (drop_bit 8 state) vs
      else ZS_bitpackEncode8_generic nbBits bits state vs)"

function flush16 :: "nat \<Rightarrow> u64 \<Rightarrow> byte list \<times> nat \<times> u64" where
  "flush16 bits state =
     (if 8 \<le> bits then
        (let (out, rest) = flush16 (bits - 8) (drop_bit 8 state) in (ucast state # out, rest))
      else ([], bits, state))"
  by auto

termination flush16
  by (relation "measure fst") auto

declare flush16.simps [simp del]

primrec ZS_bitpackEncode16_generic :: "nat \<Rightarrow> nat \<Rightarrow> u64 \<Rightarrow> u16 list \<Rightarrow> byte list" where
  "ZS_bitpackEncode16_generic nbBits bits state [] = (if 0 < bits then [ucast state] else [])"
| "ZS_bitpackEncode16_generic nbBits bits state (v # vs) =
     (let (out, bits, state) = flush16 (bits + nbBits) (state OR push_bit bits (ucast v))
      in out @ ZS_bitpackEncode16_generic nbBits bits state vs)"

definition ZS_bitpackEncode8 :: "u8 list \<Rightarrow> nat \<Rightarrow> byte list" where
  "ZS_bitpackEncode8 src nbBits =
     (case ZS_bitpackEncodeEdgeCase 1 src nbBits of Some out \<Rightarrow> out
      | None \<Rightarrow> ZS_bitpackEncode8_generic nbBits 0 0 src)"

definition ZS_bitpackEncode16 :: "u16 list \<Rightarrow> nat \<Rightarrow> byte list" where
  "ZS_bitpackEncode16 src nbBits =
     (case ZS_bitpackEncodeEdgeCase 2 src nbBits of Some out \<Rightarrow> out
      | None \<Rightarrow> if nbBits mod 8 = 0 then map ucast src
               else ZS_bitpackEncode16_generic nbBits 0 0 src)"

text \<open>\<^verbatim>\<open>ZS_bytepackEncode32\<close> copies the low one, two or three bytes of each element.\<close>

definition ZS_bytepackEncode32 :: "u32 list \<Rightarrow> nat \<Rightarrow> byte list" where
  "ZS_bytepackEncode32 src nbBits =
     (let n = (if nbBits = 8 then 1 else if nbBits = 16 then 2 else 3)
      in concat (map (\<lambda>v. take n (write_le 4 v)) src))"

definition ZS_bitpackEncode32 :: "nat \<Rightarrow> u32 list \<Rightarrow> nat \<Rightarrow> byte list" where
  "ZS_bitpackEncode32 dstCapacity src nbBits =
     (case ZS_bitpackEncodeEdgeCase 4 src nbBits of Some out \<Rightarrow> out
      | None \<Rightarrow> if nbBits = 1 \<and> length src \<le> 64 then bit1pack32 dstCapacity src
               else if nbBits mod 8 = 0 then ZS_bytepackEncode32 src nbBits
               else ZS_bitpackEncode32_generic src nbBits)"

section \<open>Decoders\<close>

definition ZS_bitpackDecodeEdgeCase :: "nat \<Rightarrow> nat \<Rightarrow> byte list \<Rightarrow> nat \<Rightarrow> 'a::len word list option" where
  "ZS_bitpackDecodeEdgeCase eltSize nbElts src nbBits =
     (if nbElts = 0 then Some []
      else if nbBits = 0 then Some (replicate nbElts 0)
      else if nbBits = eltSize * 8 then Some (read_elts eltSize (take ((nbElts * nbBits + 7) div 8) src))
      else None)"

text \<open>The source is everything that is available, \<^verbatim>\<open>srcCapacity\<close> bytes.\<close>

definition load64 :: "byte list \<Rightarrow> u64" where
  "load64 src = (if length src < 8 then ZL_readLE64_N src (length src) else ZL_read64 src)"

primrec bit1depack :: "nat \<Rightarrow> u64 \<Rightarrow> 'a::len word list" where
  "bit1depack 0 acc = []"
| "bit1depack (Suc n) acc = ucast (acc AND 1) # bit1depack n (drop_bit 1 acc)"

primrec depack :: "nat \<Rightarrow> nat \<Rightarrow> u64 \<Rightarrow> u32 list \<times> u64" where
  "depack nbBits 0 acc64 = ([], acc64)"
| "depack nbBits (Suc n) acc64 =
     (let (vs, rest) = depack nbBits n (drop_bit nbBits acc64)
      in (ucast (acc64 AND (push_bit nbBits 1 - 1)) # vs, rest))"

text \<open>
  \<open>src\<close> is the source from \<^verbatim>\<open>srcPtr\<close> on. The rounds give the values, and the position, bits and
  accumulator for the rest; the last round that could not load eight bytes ends them.
\<close>

primrec decode32_rounds ::
  "nat \<Rightarrow> nat \<Rightarrow> nat \<Rightarrow> byte list \<Rightarrow> u64 \<Rightarrow> nat \<Rightarrow> u32 list \<times> byte list \<times> u64 \<times> nat" where
  "decode32_rounds nbBits nbDepacks 0 src acc64 bitPos = ([], src, acc64, bitPos)"
| "decode32_rounds nbBits nbDepacks (Suc nr) src acc64 bitPos =
     (let vs = fst (depack nbBits nbDepacks acc64);
          bitPos = bitPos + nbDepacks * nbBits;
          src = drop (bitPos div 8) src; bitPos = bitPos mod 8 in
      if 7 < length src then
        (let (ws, rest) = decode32_rounds nbBits nbDepacks nr src (drop_bit bitPos (ZL_read64 src)) bitPos
         in (vs @ ws, rest))
      else (vs, src, drop_bit bitPos (ZL_readLE64_N src (length src)), bitPos))"

primrec decode32_last :: "nat \<Rightarrow> nat \<Rightarrow> byte list \<Rightarrow> u64 \<Rightarrow> nat \<Rightarrow> u32 list" where
  "decode32_last nbBits 0 src acc64 bitPos = []"
| "decode32_last nbBits (Suc n) src acc64 bitPos =
     (let v = ucast (acc64 AND (push_bit nbBits 1 - 1));
          acc64 = drop_bit nbBits acc64; bitPos = bitPos + nbBits in
      if 63 - nbBits < bitPos then
        (let src = drop (bitPos div 8) src; bitPos = bitPos mod 8
         in v # decode32_last nbBits n src (drop_bit bitPos (load64 src)) bitPos)
      else v # decode32_last nbBits n src acc64 bitPos)"

definition ZS_bitpackDecode32_generic :: "nat \<Rightarrow> byte list \<Rightarrow> nat \<Rightarrow> u32 list" where
  "ZS_bitpackDecode32_generic nbValues src nbBits =
     (if nbValues = 0 then []
      else
      let src = take ((nbValues * nbBits + 7) div 8) src; nbDepacks = 56 div nbBits;
          (vs, src, acc64, bitPos) = decode32_rounds nbBits nbDepacks (nbValues div nbDepacks) src (load64 src) 0
      in vs @ decode32_last nbBits (nbValues - length vs) src acc64 bitPos)"

primrec ZS_bitpackDecode8_generic :: "nat \<Rightarrow> nat \<Rightarrow> nat \<Rightarrow> u64 \<Rightarrow> byte list \<Rightarrow> u8 list" where
  "ZS_bitpackDecode8_generic nbBits 0 bits state ip = []"
| "ZS_bitpackDecode8_generic nbBits (Suc n) bits state ip =
     (let (state, bits, ip) = (if bits < nbBits
            then (state OR push_bit bits (ucast (hd ip)), bits + 8, tl ip) else (state, bits, ip))
      in ucast (state AND (push_bit nbBits 1 - 1))
         # ZS_bitpackDecode8_generic nbBits n (bits - nbBits) (drop_bit nbBits state) ip)"

function fill16 :: "nat \<Rightarrow> nat \<Rightarrow> u64 \<Rightarrow> byte list \<Rightarrow> nat \<times> u64 \<times> byte list" where
  "fill16 nbBits bits state ip =
     (if bits < nbBits then fill16 nbBits (bits + 8) (state OR push_bit bits (ucast (hd ip))) (tl ip)
      else (bits, state, ip))"
  by auto

termination fill16
  by (relation "measure (\<lambda>(nbBits, bits, _). nbBits - bits)") auto

declare fill16.simps [simp del]

primrec ZS_bitpackDecode16_generic :: "nat \<Rightarrow> nat \<Rightarrow> nat \<Rightarrow> u64 \<Rightarrow> byte list \<Rightarrow> u16 list" where
  "ZS_bitpackDecode16_generic nbBits 0 bits state ip = []"
| "ZS_bitpackDecode16_generic nbBits (Suc n) bits state ip =
     (let (bits, state, ip) = fill16 nbBits bits state ip
      in ucast (state AND (push_bit nbBits 1 - 1))
         # ZS_bitpackDecode16_generic nbBits n (bits - nbBits) (drop_bit nbBits state) ip)"

definition ZS_bitpackDecode8 :: "nat \<Rightarrow> byte list \<Rightarrow> nat \<Rightarrow> u8 list" where
  "ZS_bitpackDecode8 nbElts src nbBits =
     (case ZS_bitpackDecodeEdgeCase 1 nbElts src nbBits of Some out \<Rightarrow> out
      | None \<Rightarrow> if nbBits = 1 \<and> nbElts \<le> 64 then bit1depack nbElts (load64 src)
               else ZS_bitpackDecode8_generic nbBits nbElts 0 0 src)"

definition ZS_bitpackDecode16 :: "nat \<Rightarrow> byte list \<Rightarrow> nat \<Rightarrow> u16 list" where
  "ZS_bitpackDecode16 nbElts src nbBits =
     (case ZS_bitpackDecodeEdgeCase 2 nbElts src nbBits of Some out \<Rightarrow> out
      | None \<Rightarrow> if nbBits = 8 then map ucast (take nbElts src)
               else ZS_bitpackDecode16_generic nbBits nbElts 0 0 src)"

definition ZS_bytepackDecode32 :: "nat \<Rightarrow> byte list \<Rightarrow> nat \<Rightarrow> u32 list" where
  "ZS_bytepackDecode32 nbElts src nbBits =
     (let n = (if nbBits = 8 then 1 else if nbBits = 16 then 2 else 3)
      in map (\<lambda>i. read_le (take n (drop (n * i) src))) [0..<nbElts])"

definition ZS_bitpackDecode32 :: "nat \<Rightarrow> byte list \<Rightarrow> nat \<Rightarrow> u32 list" where
  "ZS_bitpackDecode32 nbElts src nbBits =
     (case ZS_bitpackDecodeEdgeCase 4 nbElts src nbBits of Some out \<Rightarrow> out
      | None \<Rightarrow> if nbBits = 1 \<and> nbElts \<le> 64 then bit1depack nbElts (load64 src)
               else if nbBits mod 8 = 0 then ZS_bytepackDecode32 nbElts src nbBits
               else ZS_bitpackDecode32_generic nbElts src nbBits)"


section \<open>The bit stream\<close>

text \<open>
  The specification: the low \<open>n\<close> bits of every element, lowest first, one after the other, in bytes
  filled from their lowest bit, the last one with zeros.
\<close>

definition stream_bits :: "nat \<Rightarrow> 'a::len word list \<Rightarrow> bool list" where
  "stream_bits n vs = concat (map (\<lambda>v. map (bit v) [0..<n]) vs)"

function pack_bits :: "bool list \<Rightarrow> byte list" where
  "pack_bits bs =
     (if bs = [] then [] else horner_sum of_bool 2 (take 8 bs) # pack_bits (drop 8 bs))"
  by auto

termination pack_bits
  by (relation "measure length") auto

declare pack_bits.simps [simp del]

lemma pack_bits_Nil [simp]: "pack_bits [] = []"
  by (simp add: pack_bits.simps)

lemma stream_bits_simps [simp]:
  "stream_bits n [] = []" "stream_bits n (v # vs) = map (bit v) [0..<n] @ stream_bits n vs"
  "stream_bits n (us @ vs) = stream_bits n us @ stream_bits n vs"
  by (simp_all add: stream_bits_def)

lemma length_stream_bits [simp]: "length (stream_bits n vs) = length vs * n"
  by (induction vs) simp_all

lemma length_pack_bits [simp]: "length (pack_bits bs) = (length bs + 7) div 8"
proof (induction bs rule: pack_bits.induct)
  case (1 bs)
  show ?case
  proof (cases "bs = []")
    case False
    then have z: "length bs \<noteq> 0" by simp
    have "Suc ((length bs - 8 + 7) div 8) = (length bs + 7) div 8"
    proof (cases "8 \<le> length bs")
      case True
      then obtain k where "length bs = 8 + k" using le_Suc_ex by blast
      then show ?thesis by simp
    next
      case False
      then have "(length bs + 7) div 8 = 1" using z by linarith
      with False show ?thesis by simp
    qed
    with False 1 show ?thesis by (simp add: pack_bits.simps [of bs])
  qed simp
qed

lemma pack_bits_append: "8 dvd length xs \<Longrightarrow> pack_bits (xs @ ys) = pack_bits xs @ pack_bits ys"
proof (induction xs rule: pack_bits.induct)
  case (1 xs)
  show ?case
  proof (cases "xs = []")
    case False
    then have "8 \<le> length xs" using 1(2) by (auto dest: dvd_imp_le)
    with 1 False show ?thesis
      by (simp add: pack_bits.simps [of "xs @ ys"] pack_bits.simps [of xs])
  qed simp
qed

lemma nth_pack_bits:
  "q < (length bs + 7) div 8 \<Longrightarrow> pack_bits bs ! q = horner_sum of_bool 2 (take 8 (drop (8 * q) bs))"
proof (induction bs arbitrary: q rule: pack_bits.induct)
  case (1 bs)
  show ?case
  proof (cases "bs = []")
    case False
    show ?thesis
    proof (cases q)
      case (Suc r)
      then have "r < (length (drop 8 bs) + 7) div 8" using 1(2) by simp
      from 1(1) [OF False this] Suc False show ?thesis
        by (simp add: pack_bits.simps [of bs] add.commute)
    qed (use False in \<open>simp add: pack_bits.simps [of bs]\<close>)
  qed (use 1 in simp)
qed

text \<open>An accumulator holds the bits not yet written.\<close>

definition holds :: "u64 \<Rightarrow> bool list \<Rightarrow> bool" where
  "holds w bs \<longleftrightarrow> (\<forall>j. bit w j \<longleftrightarrow> j < length bs \<and> bs ! j)"

lemma holds_0 [simp]: "holds 0 []"
  by (simp add: holds_def)

lemma holds_absorb:
  assumes "holds w bs" "length bs + n \<le> 64" "unat (v :: 'a::len word) < 2 ^ n"
  shows "holds (w OR push_bit (length bs) (ucast v)) (bs @ map (bit v) [0..<n])"
  unfolding holds_def
proof
  fix j
  have f: "i < n" if "bit v i" for i
    using unat_less_exp_bits [THEN iffD1, OF assms(3)] that by (meson not_le)
  have w: "bit w j \<longleftrightarrow> j < length bs \<and> bs ! j" using assms(1) by (simp add: holds_def)
  show "bit (w OR push_bit (length bs) (ucast v)) j
      \<longleftrightarrow> j < length (bs @ map (bit v) [0..<n]) \<and> (bs @ map (bit v) [0..<n]) ! j"
  proof (cases "j < length bs")
    case False
    then show ?thesis using f [of "j - length bs"] assms(2) w
      by (cases "j - length bs < n") (auto simp: bit_simps nth_append)
  qed (use w in \<open>simp add: bit_simps nth_append\<close>)
qed

lemma holds_drop:
  assumes "holds w bs"
  shows "holds (drop_bit k w) (drop k bs)"
  unfolding holds_def
proof
  fix j
  have "bit w (k + j) \<longleftrightarrow> k + j < length bs \<and> bs ! (k + j)" using assms by (simp add: holds_def)
  then show "bit (drop_bit k w) j \<longleftrightarrow> j < length (drop k bs) \<and> drop k bs ! j"
    by (cases "k + j < length bs") (auto simp: bit_drop_bit_eq)
qed

lemma holds_byte: "holds w bs \<Longrightarrow> (ucast w :: byte) = horner_sum of_bool 2 (take 8 bs)"
  by (rule bit_word_eqI) (auto simp: holds_def bit_simps)

lemma holds_write:
  assumes "holds w bs" "c \<le> (length bs + 7) div 8"
  shows "write_le c w = pack_bits (take (8 * c) bs)"
proof (rule nth_equalityI)
  have m: "(min (length bs) (8 * c) + 7) div 8 = c" using assms(2) by linarith
  then show "length (write_le c w) = length (pack_bits (take (8 * c) bs))" by simp
  fix q assume "q < length (write_le c w)"
  then have q: "q < c" by simp
  have "write_le c w ! q = ucast (drop_bit (8 * q) w)" using q by (simp add: write_le_def)
  also have "\<dots> = horner_sum of_bool 2 (take 8 (drop (8 * q) bs))" by (rule holds_byte [OF holds_drop [OF assms(1)]])
  also have "\<dots> = pack_bits (take (8 * c) bs) ! q"
    using q m by (simp add: nth_pack_bits drop_take min_def) 
  finally show "write_le c w ! q = pack_bits (take (8 * c) bs) ! q" .
qed


lemma holds_commit:
  assumes "holds w bs" "length bs \<le> 64" "c = length bs div 8"
  shows "write_le c w @ pack_bits (drop (8 * c) bs @ ys) = pack_bits (bs @ ys)"
    "holds (drop_bit (c * 8) w) (drop (8 * c) bs)" "length (drop (8 * c) bs) = length bs mod 8"
proof -
  have c: "8 * c \<le> length bs" "c \<le> (length bs + 7) div 8" unfolding assms(3) by (simp_all add: div_le_mono)
  have "pack_bits (take (8 * c) bs @ drop (8 * c) bs @ ys) = pack_bits (take (8 * c) bs) @ pack_bits (drop (8 * c) bs @ ys)"
    using c(1) by (intro pack_bits_append) (simp add: min_absorb2)
  then show "write_le c w @ pack_bits (drop (8 * c) bs @ ys) = pack_bits (bs @ ys)"
    using holds_write [OF assms(1) c(2)] by (simp add: append_assoc [symmetric] del: append_assoc)
  show "holds (drop_bit (c * 8) w) (drop (8 * c) bs)" using holds_drop [OF assms(1), of "8 * c"] by (simp add: mult.commute)
  show "length (drop (8 * c) bs) = length bs mod 8" by (simp add: assms(3) minus_mult_div_eq_mod)
qed

lemma holds_finish:
  "holds w bs \<Longrightarrow> length bs \<le> 64 \<Longrightarrow> write_le ((length bs + 7) div 8) w = pack_bits bs"
  using holds_write [of w bs "(length bs + 7) div 8"] by simp

lemma commit_write_le: "c \<le> 8 \<Longrightarrow> commit room w c = write_le c w"
  by (auto simp: commit_def ZL_writeLE64_N_write_le write_le_def take_map)

section \<open>What the encoders write\<close>

lemma encode8_generic:
  assumes "holds state sb" "length sb < 8" "nbBits < 8" "\<forall>v \<in> set vs. unat v < 2 ^ nbBits"
  shows "ZS_bitpackEncode8_generic nbBits (length sb) state vs = pack_bits (sb @ stream_bits nbBits vs)"
  using assms
proof (induction vs arbitrary: state sb)
  case Nil
  then show ?case using holds_byte [of state sb] by (auto simp: pack_bits.simps [of sb])
next
  case (Cons v vs)
  define sb' where "sb' = sb @ map (bit v) [0..<nbBits]"
  have h: "holds (state OR push_bit (length sb) (ucast v)) sb'"
    unfolding sb'_def using Cons.prems by (intro holds_absorb) simp_all
  have l: "length sb' = length sb + nbBits" by (simp add: sb'_def)
  show ?case
  proof (cases "8 \<le> length sb'")
    case True
    have "length (drop 8 sb') < 8" using l Cons.prems by simp
    from Cons.IH [OF holds_drop [OF h] this Cons.prems(3)] Cons.prems(4) True l
    show ?thesis
      using holds_byte [OF h] pack_bits.simps [of "sb' @ stream_bits nbBits vs"]
      by (auto simp: Let_def) (auto simp: sb'_def)
  next
    case False
    with Cons.IH [OF h _ Cons.prems(3)] Cons.prems(4) l show ?thesis by (simp add: Let_def sb'_def)
  qed
qed

lemma flush16_commit:
  assumes "holds state sb"
  shows "flush16 (length sb) state
    = (pack_bits (take (8 * (length sb div 8)) sb), length sb mod 8, drop_bit (8 * (length sb div 8)) state)"
  using assms
proof (induction "length sb" arbitrary: state sb rule: less_induct)
  case less
  show ?case
  proof (cases "8 \<le> length sb")
    case True
    define k where "k = (length sb - 8) div 8"
    obtain m where "length sb = 8 + m" using True le_Suc_ex by blast
    then have k: "length sb div 8 = Suc k" "(length sb - 8) div 8 = k" "(length sb - 8) mod 8 = length sb mod 8"
      by (simp_all add: k_def)
    have "flush16 (length sb - 8) (drop_bit 8 state)
        = (pack_bits (take (8 * k) (drop 8 sb)), length sb mod 8, drop_bit (8 * k) (drop_bit 8 state))"
      using less(1) [OF _ holds_drop [OF less(2), of 8]] True k by simp
    moreover have "pack_bits (take (8 * Suc k) sb) = horner_sum of_bool 2 (take 8 sb) # pack_bits (take (8 * k) (drop 8 sb))"
      using True by (subst pack_bits.simps) (auto simp: drop_take min_def)
    ultimately show ?thesis
      using True holds_byte [OF less(2)] by (subst flush16.simps) (simp add: k(1) add.commute)
  next
    case False
    then show ?thesis by (subst flush16.simps) simp
  qed
qed

lemma encode16_generic:
  assumes "holds state sb" "length sb < 8" "nbBits < 16" "\<forall>v \<in> set vs. unat v < 2 ^ nbBits"
  shows "ZS_bitpackEncode16_generic nbBits (length sb) state vs = pack_bits (sb @ stream_bits nbBits vs)"
  using assms
proof (induction vs arbitrary: state sb)
  case Nil
  then show ?case using holds_byte [of state sb] by (auto simp: pack_bits.simps [of sb])
next
  case (Cons v vs)
  define sb' where "sb' = sb @ map (bit v) [0..<nbBits]"
  define c where "c = length sb' div 8"
  have h: "holds (state OR push_bit (length sb) (ucast v)) sb'"
    unfolding sb'_def using Cons.prems by (intro holds_absorb) simp_all
  have l: "length sb' = length sb + nbBits" "length sb' \<le> 64" using Cons.prems by (simp_all add: sb'_def)
  note com = holds_commit [OF h l(2) c_def]
  have "write_le c (state OR push_bit (length sb) (ucast v)) = pack_bits (take (8 * c) sb')"
    using holds_write [OF h, of c] by (simp add: c_def div_le_mono)
  with flush16_commit [OF h] com(3)
  have "ZS_bitpackEncode16_generic nbBits (length sb) state (v # vs)
      = write_le c (state OR push_bit (length sb) (ucast v))
        @ ZS_bitpackEncode16_generic nbBits (length (drop (8 * c) sb')) (drop_bit (c * 8) (state OR push_bit (length sb) (ucast v))) vs"
    by (simp add: c_def l(1) mult.commute)
  also have "\<dots> = write_le c (state OR push_bit (length sb) (ucast v)) @ pack_bits (drop (8 * c) sb' @ stream_bits nbBits vs)"
    using Cons.IH [OF com(2)] Cons.prems com(3) by simp
  finally show ?case using com(1) by (simp add: sb'_def)
qed


lemma absorb_holds:
  assumes "holds acc sb" "length sb + length vs * nbBits \<le> 64" "\<forall>v \<in> set vs. unat v < 2 ^ nbBits"
  shows "\<exists>acc'. absorb nbBits (acc, length sb) vs = (acc', length sb + length vs * nbBits)
    \<and> holds acc' (sb @ stream_bits nbBits vs)"
  using assms
proof (induction vs arbitrary: acc sb)
  case (Cons v vs)
  define sb' where "sb' = sb @ map (bit v) [0..<nbBits]"
  have "holds (acc OR push_bit (length sb) (ucast v)) sb'"
    unfolding sb'_def using Cons.prems by (intro holds_absorb) simp_all
  from Cons.IH [OF this] Cons.prems show ?case by (simp add: absorb_def sb'_def add.assoc)
qed (simp add: absorb_def)

lemma encode32_rounds:
  assumes "holds acc sb" "length sb < 8" "nbPacks * nbBits \<le> 56" "\<forall>v \<in> set vals. unat v < 2 ^ nbBits"
    "encode32_rounds nbBits nbPacks nr room acc (length sb) vals = (out, room', acc', bitPos', vals')"
  shows "\<exists>sb'. holds acc' sb' \<and> length sb' = bitPos' \<and> bitPos' < 8 \<and> set vals' \<subseteq> set vals
    \<and> out @ pack_bits (sb' @ stream_bits nbBits vals') = pack_bits (sb @ stream_bits nbBits vals)"
  using assms
proof (induction nr arbitrary: room acc sb vals out)
  case (Suc nr)
  show ?case
  proof (cases "7 < room")
    case True
    define us where "us = take nbPacks vals"
    define sb1 where "sb1 = sb @ stream_bits nbBits us"
    have "length us * nbBits \<le> nbPacks * nbBits" by (simp add: us_def)
    then have l: "length sb + length us * nbBits \<le> 64" using Suc.prems(2,3) by linarith
    have "\<forall>v \<in> set us. unat v < 2 ^ nbBits" using Suc.prems(4) by (auto simp: us_def dest: in_set_takeD)
    from absorb_holds [OF Suc.prems(1) l this] obtain acc1 where
      a: "absorb nbBits (acc, length sb) us = (acc1, length sb1)" "holds acc1 sb1" by (auto simp: sb1_def)
    define c where "c = length sb1 div 8"
    have l1: "length sb1 \<le> 64" using l by (simp add: sb1_def)
    note com = holds_commit [OF a(2) l1 c_def]
    obtain out1 where r: "encode32_rounds nbBits nbPacks nr (room - c) (drop_bit (c * 8) acc1)
        (length (drop (8 * c) sb1)) (drop nbPacks vals) = (out1, room', acc', bitPos', vals')"
      and out: "out = take c (write_le 8 acc1) @ out1"
      using Suc.prems(5) True a(1) com(3) by (auto simp: us_def c_def Let_def split: prod.splits)
    have "\<forall>v \<in> set (drop nbPacks vals). unat v < 2 ^ nbBits" using Suc.prems(4) by (auto dest: in_set_dropD)
    from Suc.IH [OF com(2) _ Suc.prems(3) this r] obtain sb' where
      "holds acc' sb'" "length sb' = bitPos'" "bitPos' < 8" "set vals' \<subseteq> set (drop nbPacks vals)"
      and o: "out1 @ pack_bits (sb' @ stream_bits nbBits vals')
        = pack_bits (drop (8 * c) sb1 @ stream_bits nbBits (drop nbPacks vals))"
      using com(3) by auto
    moreover have "take c (write_le 8 acc1) = write_le c acc1"
      using l1 by (auto simp: c_def write_le_def take_map)
    moreover have "stream_bits nbBits vals = stream_bits nbBits us @ stream_bits nbBits (drop nbPacks vals)"
      unfolding us_def by (metis append_take_drop_id stream_bits_simps(3))
    moreover have "set (drop nbPacks vals) \<subseteq> set vals" by (rule set_drop_subset)
    ultimately show ?thesis
      using com(1) [of "stream_bits nbBits (drop nbPacks vals)"] by (intro exI [of _ sb']) (auto simp: out sb1_def)
  next
    case False
    then show ?thesis using Suc.prems by (intro exI [of _ sb]) auto
  qed
qed auto

lemma encode32_last:
  assumes "holds acc sb" "length sb \<le> 63 - nbBits" "nbBits < 32" "\<forall>v \<in> set vals. unat v < 2 ^ nbBits"
  shows "encode32_last nbBits room acc (length sb) vals = pack_bits (sb @ stream_bits nbBits vals)"
  using assms
proof (induction vals arbitrary: room acc sb)
  case Nil
  then have "(length sb + 7) div 8 \<le> 8" by linarith
  with Nil show ?case by (simp add: commit_write_le holds_finish)
next
  case (Cons v vs)
  define acc1 where "acc1 = acc OR push_bit (length sb) (ucast v)"
  define sb1 where "sb1 = sb @ map (bit v) [0..<nbBits]"
  have h: "holds acc1 sb1" unfolding sb1_def acc1_def using Cons.prems by (intro holds_absorb) simp_all
  have l: "length sb1 = length sb + nbBits" "length sb1 \<le> 64" using Cons.prems by (simp_all add: sb1_def)
  show ?case
  proof (cases "63 - nbBits < length sb1")
    case True
    define c where "c = length sb1 div 8"
    note com = holds_commit [OF h l(2) c_def]
    have "length sb1 mod 8 < 8" by simp
    then have "length sb1 mod 8 \<le> 63 - nbBits" using Cons.prems(3) by linarith
    then have "encode32_last nbBits (room - c) (drop_bit (c * 8) acc1) (length (drop (8 * c) sb1)) vs
        = pack_bits (drop (8 * c) sb1 @ stream_bits nbBits vs)"
      using Cons.IH [OF com(2)] Cons.prems(3,4) com(3) by simp
    moreover have "encode32_last nbBits room acc (length sb) (v # vs)
        = commit room acc1 c @ encode32_last nbBits (room - c) (drop_bit (c * 8) acc1) (length (drop (8 * c) sb1)) vs"
      using True com(3) by (simp add: acc1_def [symmetric] l(1) c_def Let_def)
    moreover have "c \<le> 8" using l(2) by (simp add: c_def)
    ultimately show ?thesis using com(1) by (simp add: commit_write_le sb1_def)
  next
    case False
    then show ?thesis
      using Cons.IH [OF h] Cons.prems(3,4) l by (simp add: acc1_def [symmetric] Let_def) (simp add: sb1_def)
  qed
qed

lemma encode32_generic:
  assumes "0 < nbBits" "nbBits < 32" "\<forall>v \<in> set vals. unat v < 2 ^ nbBits"
  shows "ZS_bitpackEncode32_generic vals nbBits = pack_bits (stream_bits nbBits vals)"
proof -
  define nbPacks where "nbPacks = 56 div nbBits"
  obtain out room acc bitPos rest where r: "encode32_rounds nbBits nbPacks (length vals div nbPacks)
      ((length vals * nbBits + 7) div 8) 0 0 vals = (out, room, acc, bitPos, rest)"
    using prod_cases5 by blast
  have "nbPacks * nbBits \<le> 56" by (simp add: nbPacks_def)
  from encode32_rounds [OF holds_0 _ this assms(3), simplified, OF r] obtain sb where
    "holds acc sb" "length sb = bitPos" "bitPos < 8" "set rest \<subseteq> set vals"
    "out @ pack_bits (sb @ stream_bits nbBits rest) = pack_bits (stream_bits nbBits vals)" by auto
  moreover from this have "length sb \<le> 63 - nbBits" "\<forall>v \<in> set rest. unat v < 2 ^ nbBits"
    using assms(2,3) by (linarith, blast)
  ultimately show ?thesis
    using encode32_last [of acc sb nbBits rest room] assms
    by (auto simp: ZS_bitpackEncode32_generic_def nbPacks_def [symmetric] r)
qed


lemma pack_bits_bytes: "8 dvd n \<Longrightarrow> pack_bits (stream_bits n vs) = concat (map (\<lambda>v. write_le (n div 8) v) vs)"
  if "n \<le> LENGTH('a)" for vs :: "'a::len word list"
proof (induction vs)
  case (Cons v vs)
  have "pack_bits (map (bit v) [0..<n]) = write_le (n div 8) v"
  proof (rule nth_equalityI)
    fix q assume "q < length (pack_bits (map (bit v) [0..<n]))"
    then have q: "q < n div 8" "8 * q + 8 \<le> n" using Cons.prems by (auto simp: dvd_def)
    have "take 8 (drop (8 * q) (map (bit v) [0..<n])) = map (bit v) [8 * q..<8 * q + 8]"
      using q(2) by (simp add: drop_map take_map)
    then show "pack_bits (map (bit v) [0..<n]) ! q = write_le (n div 8) v ! q"
      using q Cons.prems by (auto simp: nth_pack_bits write_le_def bit_simps intro!: bit_word_eqI)
  qed (use Cons.prems in \<open>auto simp: dvd_def\<close>)
  with Cons show ?case by (simp add: pack_bits_append)
qed simp

lemma bit1pack32_acc:
  assumes "length vs \<le> 64" "\<forall>v \<in> set vs. unat v < 2"
  shows "holds (foldl (\<lambda>acc v. push_bit 1 acc + ucast v) (0 :: u64) (rev vs)) (stream_bits 1 (vs :: u32 list))"
  using assms
proof (induction vs)
  case (Cons v vs)
  define acc where "acc = foldl (\<lambda>acc v. push_bit 1 acc + ucast v) (0 :: u64) (rev vs)"
  have h: "holds acc (stream_bits 1 vs)" using Cons by (simp add: acc_def)
  have "unat v = unat (0 :: u32) \<or> unat v = unat (1 :: u32)" using Cons.prems(2) by (auto simp: less_2_cases_iff)
  then have v: "v = 0 \<or> v = 1" by (simp only: word_unat_eq_iff)
  have "bit (push_bit 1 acc + ucast v) j \<longleftrightarrow> (if j = 0 then bit v 0 else j < 64 \<and> bit acc (j - 1))" for j
  proof -
    have or: "push_bit 1 acc + ucast v = push_bit 1 acc OR ucast v"
      using v by (intro disjunctive_add) (auto simp: bit_simps bit_0)
    show ?thesis unfolding or bit_or_iff bit_push_bit_iff using v by (auto simp: bit_simps bit_0)
  qed
  then have "holds (push_bit 1 acc + ucast v) (bit v 0 # stream_bits 1 vs)"
    unfolding holds_def using h [unfolded holds_def] Cons.prems(1) by (auto simp: nth_Cons' less_Suc_eq_le)
  moreover have "foldl (\<lambda>acc v. push_bit 1 acc + ucast v) (0 :: u64) (rev (v # vs)) = push_bit 1 acc + ucast v"
    unfolding acc_def by simp
  ultimately show ?case by simp
qed simp


lemma stream_bits_0 [simp]: "stream_bits 0 vs = []"
  by (induction vs) simp_all

lemma encode_edge_case:
  fixes src :: "'a::len word list"
  assumes "ZS_bitpackEncodeEdgeCase eltSize src nbBits = Some out" "LENGTH('a) = 8 * eltSize"
  shows "out = pack_bits (stream_bits nbBits src)"
  using assms pack_bits_bytes [of nbBits src]
  by (auto simp: ZS_bitpackEncodeEdgeCase_def write_elts_def split: if_splits)

lemma bitpackEncode8_stream:
  assumes "nbBits \<le> 8" "\<forall>v \<in> set src. unat v < 2 ^ nbBits"
  shows "ZS_bitpackEncode8 src nbBits = pack_bits (stream_bits nbBits src)"
proof (cases "ZS_bitpackEncodeEdgeCase 1 src nbBits")
  case None
  then have "nbBits < 8" using assms(1) by (auto simp: ZS_bitpackEncodeEdgeCase_def split: if_splits)
  with None encode8_generic [OF holds_0, of nbBits src] assms(2) show ?thesis by (simp add: ZS_bitpackEncode8_def)
qed (use encode_edge_case in \<open>fastforce simp: ZS_bitpackEncode8_def\<close>)

lemma bitpackEncode16_stream:
  assumes "nbBits \<le> 16" "\<forall>v \<in> set src. unat v < 2 ^ nbBits"
  shows "ZS_bitpackEncode16 src nbBits = pack_bits (stream_bits nbBits src)"
proof (cases "ZS_bitpackEncodeEdgeCase 2 src nbBits")
  case None
  then have b: "0 < nbBits" "nbBits < 16" using assms(1) by (auto simp: ZS_bitpackEncodeEdgeCase_def split: if_splits)
  show ?thesis
  proof (cases "nbBits mod 8 = 0")
    case True
    then have "nbBits = 8" using b by presburger
    moreover have "concat (map (write_le 1) src) = map ucast src" by (induction src) (simp_all add: write_le_def)
    ultimately show ?thesis using None pack_bits_bytes [of 8 src] by (simp add: ZS_bitpackEncode16_def)
  next
    case False
    with None encode16_generic [OF holds_0, of nbBits src] assms(2) b show ?thesis by (simp add: ZS_bitpackEncode16_def)
  qed
qed (use encode_edge_case in \<open>fastforce simp: ZS_bitpackEncode16_def\<close>)

lemma bitpackEncode32_stream:
  assumes "nbBits \<le> 32" "\<forall>v \<in> set src. unat v < 2 ^ nbBits"
  shows "ZS_bitpackEncode32 dstCapacity src nbBits = pack_bits (stream_bits nbBits src)"
proof (cases "ZS_bitpackEncodeEdgeCase 4 src nbBits")
  case None
  then have b: "0 < nbBits" "nbBits < 32" using assms(1) by (auto simp: ZS_bitpackEncodeEdgeCase_def split: if_splits)
  consider "nbBits = 1" "length src \<le> 64" | "\<not> (nbBits = 1 \<and> length src \<le> 64)" "nbBits mod 8 = 0"
    | "\<not> (nbBits = 1 \<and> length src \<le> 64)" "nbBits mod 8 \<noteq> 0" by blast
  then show ?thesis
  proof cases
    case 1
    define acc where "acc = foldl (\<lambda>acc v. push_bit 1 acc + ucast v) (0 :: u64) (rev src)"
    have "holds acc (stream_bits 1 src)" using bit1pack32_acc 1 assms(2) by (simp add: acc_def)
    from holds_finish [OF this] 1 have "write_le ((length src + 7) div 8) acc = pack_bits (stream_bits 1 src)" by simp
    moreover have "bit1pack32 dstCapacity src = commit dstCapacity acc ((length src + 7) div 8)"
      by (simp add: bit1pack32_def acc_def commit_def Let_def)
    moreover have "(length src + 7) div 8 \<le> 8" using 1 by linarith
    ultimately show ?thesis using None 1 by (simp add: ZS_bitpackEncode32_def commit_write_le)
  next
    case 2
    then have "nbBits = 8 \<or> nbBits = 16 \<or> nbBits = 24" using b by presburger
    moreover have "take n (write_le 4 v) = write_le n v" if "n \<le> 4" for n and v :: u32
      using that by (simp add: write_le_def take_map)
    ultimately have "ZS_bytepackEncode32 src nbBits = concat (map (write_le (nbBits div 8)) src)"
      by (auto simp: ZS_bytepackEncode32_def)
    then show ?thesis using None 2 b pack_bits_bytes [of nbBits src] by (auto simp: ZS_bitpackEncode32_def mod_0_imp_dvd)
  next
    case 3
    then show ?thesis using None encode32_generic [OF b assms(2)] by (auto simp: ZS_bitpackEncode32_def)
  qed
qed (use encode_edge_case in \<open>fastforce simp: ZS_bitpackEncode32_def\<close>)


section \<open>What the decoders read\<close>

text \<open>The bits of the source are \<^term>\<open>stream_bits 8 src\<close>; the elements are cut from them.\<close>

primrec unstream :: "nat \<Rightarrow> nat \<Rightarrow> bool list \<Rightarrow> 'a::len word list" where
  "unstream n 0 bs = []"
| "unstream n (Suc k) bs = horner_sum of_bool 2 (take n bs) # unstream n k (drop n bs)"

lemma length_unstream [simp]: "length (unstream n k bs) = k"
  by (induction k arbitrary: bs) simp_all

lemma unstream_append: "k * n \<le> length bs \<Longrightarrow> unstream n k (bs @ cs) = unstream n k bs"
  by (induction k arbitrary: bs) simp_all

lemma unstream_add: "unstream n (k + m) bs = unstream n k bs @ unstream n m (drop (k * n) bs)"
  by (induction k arbitrary: bs) (simp_all add: add.commute)

lemma unstream_stream:
  assumes "\<forall>v \<in> set vs. unat (v :: 'a::len word) < 2 ^ n"
  shows "unstream n (length vs) (stream_bits n vs @ bs) = vs"
  using assms
proof (induction vs)
  case (Cons v vs)
  have "bit v j \<Longrightarrow> j < n" for j
    using unat_less_exp_bits [THEN iffD1, of v n] Cons.prems by (meson list.set_intros(1) not_le)
  then have "horner_sum of_bool 2 (map (bit v) [0..<n]) = v"
    by (intro bit_word_eqI) (auto simp: bit_simps)
  with Cons show ?case by simp
qed simp

lemma nth_stream_bits: "j < length vs * n \<Longrightarrow> stream_bits n vs ! j = bit (vs ! (j div n)) (j mod n)"
proof (induction vs arbitrary: j)
  case (Cons v vs)
  show ?case
  proof (cases "j < n")
    case False
    then obtain i where i: "j = n + i" using le_Suc_ex not_less by blast
    then have "0 < n" using Cons.prems by (cases n) auto
    with Cons i show ?thesis by (simp add: nth_append div_add_self1)
  qed (simp add: nth_append)
qed simp

lemma drop_stream_bits: "drop (k * n) (stream_bits n vs) = stream_bits n (drop k vs)"
proof (induction k arbitrary: vs)
  case (Suc k)
  show ?case
  proof (cases vs)
    case (Cons v us)
    with Suc [of us] show ?thesis by (simp add: add.commute [of _ n] drop_drop [symmetric] del: drop_drop)
  qed simp
qed simp

lemma holds_take:
  assumes "holds w bs" "n < 64"
  shows "(ucast (w AND (push_bit n 1 - 1)) :: 'a::len word) = horner_sum of_bool 2 (take n bs)"
proof -
  have m: "push_bit n 1 - 1 = (mask n :: u64)" by (simp add: mask_eq_exp_minus_1 push_bit_eq_mult)
  have w: "bit w j \<longleftrightarrow> j < length bs \<and> bs ! j" for j using assms(1) by (simp add: holds_def)
  show ?thesis
    unfolding m
  proof (rule bit_word_eqI)
    fix j assume "j < LENGTH('a)"
    then show "bit (ucast (w AND mask n) :: 'a word) j = bit (horner_sum of_bool 2 (take n bs) :: 'a word) j"
      using assms(2) by (cases "j < n") (auto simp: bit_simps w)
  qed
qed

lemma holds_load64: "holds (load64 src) (take 64 (stream_bits 8 src))"
proof -
  have n: "(stream_bits 8 src) ! j = bit (src ! (j div 8)) (j mod 8)" if "j < length src * 8" for j
    using that by (rule nth_stream_bits)
  show ?thesis
  proof (cases "length src < 8")
    case True
    then have "load64 src = read_le src" by (simp add: load64_def ZL_readLE64_N_read_le)
    with True n show ?thesis by (auto simp: holds_def bit_read_le min_def)
  next
    case False
    then have "load64 src = read_le (take 8 src)" by (simp add: load64_def ZL_read64_def)
    with False n show ?thesis by (auto simp: holds_def bit_read_le min_def)
  qed
qed

lemma decode8_generic:
  assumes "holds state sb" "length sb \<le> 8" "0 < nbBits" "nbBits < 8" "k * nbBits \<le> length sb + 8 * length ip"
  shows "ZS_bitpackDecode8_generic nbBits k (length sb) state ip = unstream nbBits k (sb @ stream_bits 8 ip)"
  using assms
proof (induction k arbitrary: state sb ip)
  case (Suc k)
  obtain state' sb' ip' where
    s: "(if length sb < nbBits then (state OR push_bit (length sb) (ucast (hd ip)), length sb + 8, tl ip)
         else (state, length sb, ip)) = (state', length sb', ip')"
    and h: "holds state' sb'" and e: "sb' @ stream_bits 8 ip' = sb @ stream_bits 8 ip"
    and l: "nbBits \<le> length sb'" "length sb' < nbBits + 8" "length sb' + 8 * length ip' = length sb + 8 * length ip"
  proof (cases "length sb < nbBits")
    case True
    then obtain b bs where ip: "ip = b # bs" using Suc.prems(5) by (cases ip) auto
    have "holds (state OR push_bit (length sb) (ucast b)) (sb @ map (bit b) [0..<8])"
      using Suc.prems True unsigned_less [of b, where ?'a = nat] by (intro holds_absorb) simp_all
    with True ip Suc.prems that [of "state OR push_bit (length sb) (ucast b)" "sb @ map (bit b) [0..<8]" bs]
    show thesis by simp
  next
    case False
    with Suc.prems that [of state sb ip] show thesis by simp
  qed
  have "length (drop nbBits sb') = length sb' - nbBits" by simp
  with Suc.IH [OF holds_drop [OF h, of nbBits], of ip'] Suc.prems l
  have "ZS_bitpackDecode8_generic nbBits k (length sb' - nbBits) (drop_bit nbBits state') ip'
      = unstream nbBits k (drop nbBits sb' @ stream_bits 8 ip')" by simp
  then show ?case
    unfolding ZS_bitpackDecode8_generic.simps s using holds_take [OF h, of nbBits] Suc.prems(4) l(1)
    by (simp add: e [symmetric])
qed simp

lemma fill16_holds:
  assumes "holds state sb" "nbBits \<le> length sb + 8 * length ip" "nbBits < 16" "length sb < nbBits + 8"
  shows "\<exists>state' sb' ip'. fill16 nbBits (length sb) state ip = (length sb', state', ip') \<and> holds state' sb'
    \<and> sb' @ stream_bits 8 ip' = sb @ stream_bits 8 ip \<and> nbBits \<le> length sb' \<and> length sb' < nbBits + 8
    \<and> length sb' + 8 * length ip' = length sb + 8 * length ip"
  using assms
proof (induction ip arbitrary: state sb)
  case Nil
  then show ?case by (subst fill16.simps) auto
next
  case (Cons b bs)
  show ?case
  proof (cases "length sb < nbBits")
    case True
    define sb' where "sb' = sb @ map (bit b) [0..<8]"
    have "holds (state OR push_bit (length sb) (ucast b)) sb'"
      unfolding sb'_def using Cons.prems True unsigned_less [of b, where ?'a = nat] by (intro holds_absorb) simp_all
    from Cons.IH [OF this] Cons.prems True show ?thesis
      by (subst fill16.simps) (simp add: sb'_def add.assoc)
  next
    case False
    with Cons.prems show ?thesis by (subst fill16.simps) auto
  qed
qed

lemma decode16_generic:
  assumes "holds state sb" "length sb < 8" "0 < nbBits" "nbBits < 16" "k * nbBits \<le> length sb + 8 * length ip"
  shows "ZS_bitpackDecode16_generic nbBits k (length sb) state ip = unstream nbBits k (sb @ stream_bits 8 ip)"
  using assms
proof (induction k arbitrary: state sb ip)
  case (Suc k)
  obtain state' sb' ip' where f: "fill16 nbBits (length sb) state ip = (length sb', state', ip')" "holds state' sb'"
    and e: "sb' @ stream_bits 8 ip' = sb @ stream_bits 8 ip"
    and l: "nbBits \<le> length sb'" "length sb' < nbBits + 8" "length sb' + 8 * length ip' = length sb + 8 * length ip"
    using fill16_holds [OF Suc.prems(1), of nbBits ip] Suc.prems by auto
  from Suc.IH [OF holds_drop [OF f(2), of nbBits], of ip'] Suc.prems l
  have "ZS_bitpackDecode16_generic nbBits k (length sb' - nbBits) (drop_bit nbBits state') ip'
      = unstream nbBits k (drop nbBits sb' @ stream_bits 8 ip')" by simp
  then show ?case
    using holds_take [OF f(2), of nbBits] Suc.prems(4) l(1) by (simp add: f(1) e [symmetric])
qed simp


lemma depack_unstream:
  assumes "holds acc sb" "n < 64"
  shows "fst (depack n k acc) = unstream n k sb"
  using assms(1)
proof (induction k arbitrary: acc sb)
  case (Suc k)
  show ?case
    using Suc.IH [OF holds_drop [OF Suc.prems, of n]] holds_take [OF Suc.prems assms(2), where ?'a = 32]
    by (simp add: split_beta)
qed simp

text \<open>The accumulator after a load at bit \<open>bitPos\<close> of the source.\<close>

lemma holds_reload: "holds (drop_bit bitPos (load64 src)) (drop bitPos (take 64 (stream_bits 8 src)))"
  by (rule holds_drop [OF holds_load64])

lemma advance_source:
  "drop (p mod 8) (stream_bits 8 (drop (p div 8) src)) = drop p (stream_bits 8 src)"
proof -
  have "drop (p mod 8) (drop (p div 8 * 8) (stream_bits 8 src)) = drop p (stream_bits 8 src)"
    by (simp add: div_mult_mod_eq add.commute)
  then show ?thesis by (simp add: drop_stream_bits)
qed

lemma advance_room:
  assumes "p + q \<le> 8 * length src"
  shows "p mod 8 + q \<le> 8 * length (drop (p div 8) src)"
proof -
  have "8 * (p div 8) + p mod 8 = p" by simp
  moreover have "8 * length (drop (p div 8) src) = 8 * length src - 8 * (p div 8)" by (simp add: diff_mult_distrib2)
  ultimately show ?thesis using assms by linarith
qed

lemma unstream_window:
  assumes "bitPos + k * n \<le> 64" "bitPos + k * n \<le> 8 * length src"
  shows "unstream n k (drop bitPos (take 64 (stream_bits 8 src)))
    = (unstream n k (drop bitPos (stream_bits 8 src)) :: 'a::len word list)"
proof -
  define S where "S = stream_bits 8 src"
  have "drop bitPos S = drop bitPos (take 64 S) @ drop 64 S"
    using assms(1) by (metis append_take_drop_id drop_append drop_take le_add1 le_trans length_take min_def
        diff_is_0_eq' drop0 drop_all nat_le_linear append_Nil2 drop_drop le_add_diff_inverse2)
  moreover have "k * n \<le> length (drop bitPos (take 64 S))" using assms by (simp add: S_def mult.commute)
  ultimately show ?thesis by (simp add: unstream_append S_def)
qed

lemma decode32_rounds:
  assumes "0 < n" "n < 32" "bitPos < 8" "bitPos + (nr * k + m) * n \<le> 8 * length src" "k * n \<le> 56"
  shows "\<exists>d src' acc' bitPos'. decode32_rounds n k nr src (drop_bit bitPos (load64 src)) bitPos
      = (unstream n (d * k) (drop bitPos (stream_bits 8 src)), src', acc', bitPos')
    \<and> d \<le> nr \<and> bitPos' < 8 \<and> acc' = drop_bit bitPos' (load64 src')
    \<and> drop bitPos' (stream_bits 8 src') = drop (bitPos + d * k * n) (stream_bits 8 src)"
  using assms(3,4)
proof (induction nr arbitrary: src bitPos)
  case 0
  then show ?case by (intro exI [of _ "0 :: nat"]) auto
next
  case (Suc nr)
  define p where "p = bitPos + k * n"
  define src1 where "src1 = drop (p div 8) src"
  have p: "p \<le> 64" "p \<le> 8 * length src"
    using Suc.prems assms(5) by (simp_all add: p_def algebra_simps)
  have vs: "fst (depack n k (drop_bit bitPos (load64 src))) = unstream n k (drop bitPos (stream_bits 8 src))"
    using depack_unstream [OF holds_reload, of n] unstream_window [of bitPos k n src] p assms(2)
    by (simp add: p_def)
  have adv: "drop (p mod 8) (stream_bits 8 src1) = drop (bitPos + k * n) (stream_bits 8 src)"
    unfolding src1_def p_def [symmetric] by (rule advance_source)
  show ?case
  proof (cases "7 < length src1")
    case True
    have "p mod 8 + (nr * k + m) * n \<le> 8 * length src1"
      unfolding src1_def using Suc.prems by (intro advance_room) (simp add: p_def algebra_simps)
    from Suc.IH [OF _ this] obtain d src' acc' bitPos' where
      r: "decode32_rounds n k nr src1 (drop_bit (p mod 8) (load64 src1)) (p mod 8)
        = (unstream n (d * k) (drop (p mod 8) (stream_bits 8 src1)), src', acc', bitPos')"
      and d: "d \<le> nr" "bitPos' < 8" "acc' = drop_bit bitPos' (load64 src')"
        "drop bitPos' (stream_bits 8 src') = drop (p mod 8 + d * k * n) (stream_bits 8 src1)" by auto
    have "load64 src1 = ZL_read64 src1" "7 < length src - p div 8" using True by (simp_all add: load64_def src1_def)
    then have "decode32_rounds n k (Suc nr) src (drop_bit bitPos (load64 src)) bitPos
        = (unstream n (Suc d * k) (drop bitPos (stream_bits 8 src)), src', acc', bitPos')"
      using True r adv by (simp add: vs p_def [symmetric] src1_def [symmetric] Let_def unstream_add add.commute)
    moreover have "drop bitPos' (stream_bits 8 src') = drop (bitPos + Suc d * k * n) (stream_bits 8 src)"
      using d(4) adv by (metis add.assoc add.commute drop_drop mult.assoc mult_Suc)
    ultimately show ?thesis using d(1-3) by (intro exI [of _ "Suc d"]) auto
  next
    case False
    then have "load64 src1 = ZL_readLE64_N src1 (length src1)" "\<not> 7 < length src - p div 8"
      by (simp_all add: load64_def src1_def)
    then have "decode32_rounds n k (Suc nr) src (drop_bit bitPos (load64 src)) bitPos
        = (unstream n (1 * k) (drop bitPos (stream_bits 8 src)), src1, drop_bit (p mod 8) (load64 src1), p mod 8)"
      using False by (simp add: vs p_def [symmetric] src1_def [symmetric] Let_def)
    then show ?thesis using adv by (intro exI [of _ "1 :: nat"]) auto
  qed
qed

lemma decode32_last:
  assumes "0 < n" "n < 32" "bitPos \<le> 63 - n" "bitPos + k * n \<le> 8 * length src"
    "holds acc (drop bitPos (take 64 (stream_bits 8 src)))"
  shows "decode32_last n k src acc bitPos = unstream n k (drop bitPos (stream_bits 8 src))"
  using assms(3-5)
proof (induction k arbitrary: src acc bitPos)
  case (Suc k)
  define p where "p = bitPos + n"
  have v: "ucast (acc AND (push_bit n 1 - 1)) = (horner_sum of_bool 2 (take n (drop bitPos (stream_bits 8 src))) :: u32)"
  proof -
    have "take n (drop bitPos (take 64 (stream_bits 8 src))) = take n (drop bitPos (stream_bits 8 src))"
      using Suc.prems(1) assms(2) by (simp add: drop_take take_take)
    then show ?thesis using holds_take [OF Suc.prems(3), of n, where ?'a = 32] assms(2) by simp
  qed
  have h: "holds (drop_bit n acc) (drop p (take 64 (stream_bits 8 src)))"
    using holds_drop [OF Suc.prems(3), of n] by (simp add: p_def add.commute)
  show ?case
  proof (cases "63 - n < p")
    case True
    define src1 where "src1 = drop (p div 8) src"
    have adv: "drop (p mod 8) (stream_bits 8 src1) = drop p (stream_bits 8 src)"
      unfolding src1_def by (rule advance_source)
    have "p mod 8 + k * n \<le> 8 * length src1"
      unfolding src1_def using Suc.prems(2) by (intro advance_room) (simp add: p_def algebra_simps)
    moreover have "p mod 8 < 8" by simp
    then have "p mod 8 \<le> 63 - n" using assms(2) by linarith
    ultimately have "decode32_last n k src1 (drop_bit (p mod 8) (load64 src1)) (p mod 8)
        = unstream n k (drop p (stream_bits 8 src))"
      using Suc.IH [OF _ _ holds_reload] adv by simp
    then show ?thesis using True v by (simp add: p_def [symmetric] src1_def [symmetric] Let_def) (simp add: p_def add.commute)
  next
    case False
    then show ?thesis
      using Suc.IH [OF _ _ h] Suc.prems(2) v by (simp add: p_def [symmetric] Let_def) (simp add: p_def add.commute)
  qed
qed simp


lemma stream_bits_take: "take (k * n) (stream_bits n vs) = stream_bits n (take k vs)"
proof (induction k arbitrary: vs)
  case (Suc k)
  show ?case
  proof (cases vs)
    case (Cons v us)
    with Suc [of us] show ?thesis by simp
  qed simp
qed simp

lemma unstream_prefix:
  assumes "k * n \<le> 8 * c" "c \<le> length src"
  shows "unstream n k (stream_bits 8 (take c src)) = (unstream n k (stream_bits 8 src) :: 'a::len word list)"
proof -
  have "(unstream n k (stream_bits 8 (take c src) @ stream_bits 8 (drop c src)) :: 'a word list)
      = unstream n k (stream_bits 8 (take c src))"
    using assms by (intro unstream_append) (simp add: mult.commute)
  then show ?thesis by (simp flip: stream_bits_simps(3))
qed

lemma enough_bytes: "k * n \<le> 8 * ((k * n + 7) div 8)" for k n :: nat
  by linarith

lemma decode32_generic:
  assumes "0 < n" "n < 32" "(k * n + 7) div 8 \<le> length src"
  shows "ZS_bitpackDecode32_generic k src n = unstream n k (stream_bits 8 src)"
proof (cases "k = 0")
  case False
  define src0 where "src0 = take ((k * n + 7) div 8) src"
  define q where "q = 56 div n"
  have len: "k * n \<le> 8 * length src0" using assms(3) enough_bytes [of k n] by (simp add: src0_def)
  have kq: "k div q * q + k mod q = k" by simp
  have "q * n \<le> 56" by (simp add: q_def)
  from decode32_rounds [OF assms(1,2) _ _ this, of 0 "k div q" "k mod q" src0] len kq
  obtain d src' acc' bitPos' where
    r: "decode32_rounds n q (k div q) src0 (load64 src0) 0
        = (unstream n (d * q) (stream_bits 8 src0), src', acc', bitPos')"
    and d: "d \<le> k div q" "bitPos' < 8" "acc' = drop_bit bitPos' (load64 src')"
      "drop bitPos' (stream_bits 8 src') = drop (d * q * n) (stream_bits 8 src0)" by auto
  have dq: "d * q \<le> k" using d(1) by (metis kq le_add1 le_trans mult_le_mono1)
  have "length (drop bitPos' (stream_bits 8 src')) = length (drop (d * q * n) (stream_bits 8 src0))" by (simp only: d(4))
  then have "8 * length src' - bitPos' = 8 * length src0 - d * q * n" by (simp add: mult.commute)
  moreover have "d * q * n < k * n" if "k \<noteq> d * q" using that dq assms(1) by simp
  ultimately have "bitPos' + (k - d * q) * n \<le> 8 * length src' \<or> k = d * q"
    using len unfolding diff_mult_distrib by linarith
  moreover have "bitPos' \<le> 63 - n" using d(2) assms(2) by linarith
  ultimately have "decode32_last n (k - d * q) src' acc' bitPos'
      = unstream n (k - d * q) (drop (d * q * n) (stream_bits 8 src0))"
    using decode32_last [OF assms(1,2), of bitPos' "k - d * q" src' acc'] holds_reload [of bitPos' src'] d(3,4)
    by (cases "k = d * q") auto
  then have "ZS_bitpackDecode32_generic k src n = unstream n (d * q + (k - d * q)) (stream_bits 8 src0)"
    using False by (simp add: ZS_bitpackDecode32_generic_def src0_def [symmetric] q_def [symmetric] r Let_def unstream_add)
  also have "\<dots> = unstream n k (stream_bits 8 src)"
    using dq unstream_prefix [OF enough_bytes assms(3)] by (simp add: src0_def)
  finally show ?thesis .
qed (simp add: ZS_bitpackDecode32_generic_def)

lemma unstream_bytes:
  assumes "k * m \<le> length src"
  shows "unstream (8 * m) k (stream_bits 8 src) = map (\<lambda>i. read_le (take m (drop (m * i) src))) [0..<k]"
  using assms
proof (induction k arbitrary: src)
  case (Suc k)
  have "horner_sum of_bool 2 (take (8 * m) (stream_bits 8 src)) = (read_le (take m src) :: 'a word)"
    using Suc.prems stream_bits_take [of m 8 src] nth_stream_bits [of _ "take m src" 8]
    by (intro bit_word_eqI) (auto simp: bit_simps bit_read_le mult.commute)
  moreover have "drop (8 * m) (stream_bits 8 src) = stream_bits 8 (drop m src)"
    using drop_stream_bits [of m 8 src] by (simp add: mult.commute)
  moreover have "map (\<lambda>i. read_le (take m (drop (m * i) src)) :: 'a word) [0..<Suc k]
      = read_le (take m src) # map (\<lambda>i. read_le (take m (drop (m * i) (drop m src)))) [0..<k]"
    by (simp add: upt_conv_Cons map_Suc_upt [symmetric] comp_def add.commute del: upt_Suc map_Suc_upt)
  ultimately show ?case using Suc.IH [of "drop m src"] Suc.prems by simp
qed simp

lemma read_elts_bytes:
  "0 < m \<Longrightarrow> k * m \<le> length src \<Longrightarrow> read_elts m (take (k * m) src) = unstream (8 * m) k (stream_bits 8 src)"
proof (induction k arbitrary: src)
  case 0
  then show ?case by (simp add: read_elts.simps)
next
  case (Suc k)
  have e: "unstream (8 * m) (Suc 0) (stream_bits 8 src) = [read_le (take m src) :: 'a word]"
    using unstream_bytes [of 1 m src] Suc.prems by simp
  have "drop (8 * m) (stream_bits 8 src) = stream_bits 8 (drop m src)"
    using drop_stream_bits [of m 8 src] by (simp add: mult.commute)
  with Suc e show ?case
    by (subst read_elts.simps) (simp add: drop_take min_def add.commute)
qed


lemma bit1depack_unstream: "holds acc sb \<Longrightarrow> bit1depack k acc = (unstream 1 k sb :: 'a::len word list)"
proof (induction k arbitrary: acc sb)
  case (Suc k)
  show ?case
    using Suc.IH [OF holds_drop [OF Suc.prems, of 1]] holds_take [OF Suc.prems, of 1, where ?'a = 'a]
    by (simp add: push_bit_eq_mult)
qed simp

lemma bit1depack_load:
  assumes "k \<le> 64" "(k + 7) div 8 \<le> length src"
  shows "bit1depack k (load64 src) = (unstream 1 k (stream_bits 8 src) :: 'a::len word list)"
proof -
  have "k \<le> 8 * length src" using assms(2) by linarith
  then show ?thesis
    using unstream_window [of 0 k 1 src, where ?'a = 'a]
      bit1depack_unstream [OF holds_load64, of k src, where ?'a = 'a] assms(1) by simp
qed

lemma unstream_0_bits: "unstream 0 k bs = replicate k 0"
  by (induction k arbitrary: bs) simp_all

lemma decode_edge_case:
  assumes "ZS_bitpackDecodeEdgeCase eltSize k src n = Some (out :: 'a::len word list)"
    "(k * n + 7) div 8 \<le> length src" "0 < eltSize"
  shows "out = unstream n k (stream_bits 8 src)"
proof -
  consider "k = 0" "out = []" | "n = 0" "out = replicate k 0" |
    "n = eltSize * 8" "out = read_elts eltSize (take ((k * n + 7) div 8) src)"
    using assms(1) by (auto simp: ZS_bitpackDecodeEdgeCase_def split: if_splits)
  then show ?thesis
  proof cases
    case 3
    have "(k * (eltSize * 8) + 7) div 8 = k * eltSize" by simp
    with 3 assms(2,3) read_elts_bytes [of eltSize k src, where ?'a = 'a] show ?thesis by (simp add: mult.commute)
  qed (simp_all add: unstream_0_bits)
qed

lemma decode_edge_none:
  "ZS_bitpackDecodeEdgeCase eltSize k src n = None \<Longrightarrow> n \<le> 8 * eltSize \<Longrightarrow> 0 < n \<and> n < 8 * eltSize \<and> k \<noteq> 0"
  by (auto simp: ZS_bitpackDecodeEdgeCase_def split: if_splits)

lemma enough_source: "(k * n + 7) div 8 \<le> l \<Longrightarrow> k * n \<le> 8 * l" for k n l :: nat
  by linarith

lemma bitpackDecode8_stream:
  assumes "n \<le> 8" "(k * n + 7) div 8 \<le> length src"
  shows "ZS_bitpackDecode8 k src n = unstream n k (stream_bits 8 src)"
proof (cases "ZS_bitpackDecodeEdgeCase 1 k src n :: u8 list option")
  case None
  have "0 < n" "n < 8" using decode_edge_none [OF None] assms(1) by simp_all
  with None decode8_generic [OF holds_0, of n k src] bit1depack_load [of k src] assms(2) enough_source [OF assms(2)]
  show ?thesis by (auto simp: ZS_bitpackDecode8_def)
qed (use decode_edge_case assms(2) in \<open>fastforce simp: ZS_bitpackDecode8_def\<close>)

lemma bitpackDecode16_stream:
  assumes "n \<le> 16" "(k * n + 7) div 8 \<le> length src"
  shows "ZS_bitpackDecode16 k src n = unstream n k (stream_bits 8 src)"
proof (cases "ZS_bitpackDecodeEdgeCase 2 k src n :: u16 list option")
  case None
  have b: "0 < n" "n < 16" using decode_edge_none [OF None] assms(1) by simp_all
  show ?thesis
  proof (cases "n = 8")
    case True
    then have "k \<le> length src" using assms(2) by simp
    then have "map ucast (take k src) = (unstream 8 k (stream_bits 8 src) :: u16 list)"
      using unstream_bytes [of k 1 src, where ?'a = 16]
      by (auto intro!: nth_equalityI bit_word_eqI simp: bit_read_le bit_simps take_Suc_conv_app_nth less_Suc_eq)
    with None True show ?thesis by (simp add: ZS_bitpackDecode16_def)
  next
    case False
    with None b decode16_generic [OF holds_0, of n k src] enough_source [OF assms(2)] show ?thesis
      by (simp add: ZS_bitpackDecode16_def)
  qed
qed (use decode_edge_case assms(2) in \<open>fastforce simp: ZS_bitpackDecode16_def\<close>)

lemma bitpackDecode32_stream:
  assumes "n \<le> 32" "(k * n + 7) div 8 \<le> length src"
  shows "ZS_bitpackDecode32 k src n = unstream n k (stream_bits 8 src)"
proof (cases "ZS_bitpackDecodeEdgeCase 4 k src n :: u32 list option")
  case None
  have b: "0 < n" "n < 32" using decode_edge_none [OF None] assms(1) by simp_all
  consider "n = 1" "k \<le> 64" | "\<not> (n = 1 \<and> k \<le> 64)" "n mod 8 = 0" | "\<not> (n = 1 \<and> k \<le> 64)" "n mod 8 \<noteq> 0" by blast
  then show ?thesis
  proof cases
    case 1
    with None bit1depack_load [of k src] assms(2) show ?thesis by (simp add: ZS_bitpackDecode32_def)
  next
    case 2
    then have "n = 8 * 1 \<or> n = 8 * 2 \<or> n = 8 * 3" using b by presburger
    then have "ZS_bytepackDecode32 k src n = unstream n k (stream_bits 8 src)"
    proof (elim disjE)
      assume n: "n = 8 * 1"
      have "k * 1 \<le> length src" using assms(2) unfolding n by linarith
      from unstream_bytes [OF this, where ?'a = 32] n show ?thesis by (simp add: ZS_bytepackDecode32_def)
    next
      assume n: "n = 8 * 2"
      have "k * 2 \<le> length src" using assms(2) unfolding n by linarith
      from unstream_bytes [OF this, where ?'a = 32] n show ?thesis by (simp add: ZS_bytepackDecode32_def)
    next
      assume n: "n = 8 * 3"
      have "k * 3 \<le> length src" using assms(2) unfolding n by linarith
      from unstream_bytes [OF this, where ?'a = 32] n show ?thesis by (simp add: ZS_bytepackDecode32_def)
    qed
    with None 2 show ?thesis by (auto simp: ZS_bitpackDecode32_def)
  next
    case 3
    with None decode32_generic [OF b assms(2)] show ?thesis by (auto simp: ZS_bitpackDecode32_def)
  qed
qed (use decode_edge_case assms(2) in \<open>fastforce simp: ZS_bitpackDecode32_def\<close>)


section \<open>Round trip\<close>

lemma stream_of_packed: "take (length bs) (stream_bits 8 (pack_bits bs @ rest)) = bs"
proof (rule nth_equalityI)
  have l: "length bs \<le> 8 * ((length bs + 7) div 8)" by linarith
  then show "length (take (length bs) (stream_bits 8 (pack_bits bs @ rest))) = length bs" by (simp add: mult.commute)
  fix j assume "j < length (take (length bs) (stream_bits 8 (pack_bits bs @ rest)))"
  then have j: "j < length bs" by simp
  have q2: "j < length (pack_bits bs) * 8" using j l by simp
  then have q: "j div 8 < (length bs + 7) div 8" by (simp add: less_mult_imp_div_less)
  have "8 * (j div 8) + j mod 8 = j" by simp
  with j have "pack_bits bs ! (j div 8) = horner_sum of_bool 2 (take 8 (drop (8 * (j div 8)) bs))"
    "take 8 (drop (8 * (j div 8)) bs) ! (j mod 8) = bs ! j"
    by (simp_all add: nth_pack_bits q)
  moreover have "j mod 8 < length (take 8 (drop (8 * (j div 8)) bs))"
  proof -
    have "8 * (j div 8) + j mod 8 < length bs" "j mod 8 < 8" using j by simp_all
    then show ?thesis unfolding length_take length_drop by linarith
  qed
  ultimately show "take (length bs) (stream_bits 8 (pack_bits bs @ rest)) ! j = bs ! j"
    using j q2 nth_stream_bits [of j "pack_bits bs" 8] by (simp add: nth_append bit_simps)
qed

lemma unstream_packed:
  assumes "\<forall>v \<in> set vs. unat (v :: 'a::len word) < 2 ^ n"
  shows "unstream n (length vs) (stream_bits 8 (pack_bits (stream_bits n vs) @ rest)) = vs"
proof -
  define S where "S = stream_bits 8 (pack_bits (stream_bits n vs) @ rest)"
  have "S = stream_bits n vs @ drop (length vs * n) S"
    using stream_of_packed [of "stream_bits n vs" rest] append_take_drop_id [of "length vs * n" S] by (simp add: S_def)
  then show ?thesis using unstream_stream [OF assms] by (metis S_def)
qed

lemma bitpack8_roundtrip:
  assumes "n \<le> 8" "\<forall>v \<in> set vs. unat v < 2 ^ n"
  shows "ZS_bitpackDecode8 (length vs) (ZS_bitpackEncode8 vs n @ rest) n = vs"
    "length (ZS_bitpackEncode8 vs n) = (length vs * n + 7) div 8"
  using assms by (simp_all add: bitpackEncode8_stream bitpackDecode8_stream unstream_packed del: stream_bits_simps(3))

lemma bitpack32_roundtrip:
  assumes "n \<le> 32" "\<forall>v \<in> set vs. unat v < 2 ^ n"
  shows "ZS_bitpackDecode32 (length vs) (ZS_bitpackEncode32 cap vs n @ rest) n = vs"
    "length (ZS_bitpackEncode32 cap vs n) = (length vs * n + 7) div 8"
  using assms by (simp_all add: bitpackEncode32_stream bitpackDecode32_stream unstream_packed del: stream_bits_simps(3))

lemma stream_bits_ucast:
  "n \<le> LENGTH('b) \<Longrightarrow> stream_bits n (map ucast vs :: 'b::len word list) = stream_bits n (vs :: 'a::len word list)"
  by (induction vs) (auto simp: bit_simps)

lemma unat_ucast_fits: "unat v < 2 ^ n \<Longrightarrow> unat (ucast (v :: 'a::len word) :: 'b::len word) < 2 ^ n"
proof -
  have "unat (ucast v :: 'b word) \<le> unat v" by (simp add: unsigned_ucast_eq)
  then show "unat v < 2 ^ n \<Longrightarrow> unat (ucast v :: 'b word) < 2 ^ n" by (rule le_less_trans)
qed

text \<open>
  C28: every variant of the bit packer refines one bit stream. For elements that fit in \<open>n\<close> bits, the
  encoders for elements of 32 bits, and where \<open>n\<close> allows of 16 and of 8 bits, all write the
  concatenation of the low \<open>n\<close> bits of the elements in little-endian bytes, whatever variant their size,
  count and destination select; and from any bytes, valid or not, the decoders read the elements
  that stream has. What an encoder wrote, followed by anything, is read back.
\<close>

theorem bitpack_refines:
  assumes "n \<le> 32" "\<forall>v \<in> set vs. unat (v :: u32) < 2 ^ n" "(k * n + 7) div 8 \<le> length bytes"
  shows "ZS_bitpackEncode32 cap vs n = pack_bits (stream_bits n vs)
    \<and> (n \<le> 16 \<longrightarrow> ZS_bitpackEncode16 (map ucast vs) n = pack_bits (stream_bits n vs))
    \<and> (n \<le> 8 \<longrightarrow> ZS_bitpackEncode8 (map ucast vs) n = pack_bits (stream_bits n vs))
    \<and> ZS_bitpackDecode32 k bytes n = unstream n k (stream_bits 8 bytes)
    \<and> (n \<le> 16 \<longrightarrow> ZS_bitpackDecode16 k bytes n = unstream n k (stream_bits 8 bytes))
    \<and> (n \<le> 8 \<longrightarrow> ZS_bitpackDecode8 k bytes n = unstream n k (stream_bits 8 bytes))
    \<and> ZS_bitpackDecode32 (length vs) (ZS_bitpackEncode32 cap vs n @ rest) n = vs"
proof -
  have "n \<le> 16 \<longrightarrow> ZS_bitpackEncode16 (map ucast vs) n = pack_bits (stream_bits n vs)"
    "n \<le> 8 \<longrightarrow> ZS_bitpackEncode8 (map ucast vs) n = pack_bits (stream_bits n vs)"
    using assms(2) by (simp_all add: bitpackEncode16_stream bitpackEncode8_stream stream_bits_ucast unat_ucast_fits)
  then show ?thesis
    using assms bitpack32_roundtrip
    by (simp add: bitpackEncode32_stream bitpackDecode32_stream bitpackDecode16_stream bitpackDecode8_stream)
qed

theorem bitpack_refines_witness:
  "ZS_bitpackEncode32 3 [5, 2, 7, 1] 3 = pack_bits (stream_bits 3 [5, 2, 7, 1 :: u32])
   \<and> ZS_bitpackDecode32 (length [5, 2, 7, 1 :: u32]) (ZS_bitpackEncode32 3 [5, 2, 7, 1] 3 @ [255]) 3 = [5, 2, 7, 1]"
proof -
  have "(3 :: nat) \<le> 32" "\<forall>v \<in> set [5, 2, 7, 1 :: u32]. unat v < 2 ^ 3" "(4 * 3 + 7) div 8 \<le> length [1, 2 :: byte]"
    by simp_all
  from bitpack_refines [OF this, of 3 "[255]"] show ?thesis by blast
qed

end
