(* ===== verification/Chunk_Header.thy ===== *)
theory Chunk_Header
  imports Frame_Header Bitpack
begin

text \<open>
  The chunk header: the description of the graph the decoder has to run, written by
  \<^verbatim>\<open>compress/encode_frameheader.c\<close> and read by \<^verbatim>\<open>decompress/decode_frameheader.c\<close>. Codec identifiers
  travel as packed standard numbers and varints for custom ones, the counts as a bitmap and varints
  for the unusual values, the distances between streams as packed numbers.
\<close>

section \<open>Data\<close>

datatype TransformType_e = trt_standard | trt_custom

record PublicTransformInfo =
  trt :: TransformType_e
  trid :: u32

text \<open>The stored buffers are given by their sizes; the first one is not a stored stream.\<close>

record GraphInfo =
  nbSessionInputs :: nat
  trInfo :: "PublicTransformInfo list"
  trHSizes :: "size_t list"
  gi_nbVOs :: "size_t list"
  nbTrInputs :: "size_t list"
  dictIdxs :: "u32 list"
  distances :: "u32 list"
  storedBuffs :: "size_t list"

record DFH_NodeInfo =
  trpid :: PublicTransformInfo
  trhStart :: nat
  trhSize :: size_t
  nbVOs :: u32
  nbRegens :: u32
  regenDistances :: "u32 list"
  dictIdx :: u32

text \<open>The part of \<^verbatim>\<open>DFH_Struct\<close> a chunk header sets; the counts are the lengths of the lists.\<close>

record DFH_Struct =
  dfh_formatVersion :: nat
  frameinfo :: "ZL_FrameInfo option"
  nodes :: "DFH_NodeInfo list"
  storedStreamSizes :: "size_t list"
  dfh_regenDistances :: "u32 list"
  totalTHSize :: nat

abbreviation (input) ZL_DICT_INDEX_NONE :: u32 where "ZL_DICT_INDEX_NONE \<equiv> - 1"
abbreviation (input) ZL_MAX_DICTS_PER_BUNDLE :: u32 where "ZL_MAX_DICTS_PER_BUNDLE \<equiv> 0xFFFF"
abbreviation (input) ZL_StandardTransformID_end :: u32 where "ZL_StandardTransformID_end \<equiv> 128"

section \<open>Dispatch by tag\<close>

primrec ZS_DispatchByTag_encode :: "'a list list \<Rightarrow> 'a list \<Rightarrow> u8 list \<Rightarrow> 'a list list" where
  "ZS_DispatchByTag_encode bufs src [] = bufs"
| "ZS_DispatchByTag_encode bufs src (t # index) =
     ZS_DispatchByTag_encode (bufs[unat t := bufs ! unat t @ [hd src]]) (tl src) index"

text \<open>The decoder with its position in every source.\<close>

primrec DispatchByTag_decode :: "'a list list \<Rightarrow> nat list \<Rightarrow> u8 list \<Rightarrow> 'a list" where
  "DispatchByTag_decode srcs pos [] = []"
| "DispatchByTag_decode srcs pos (t # index) =
     srcs ! unat t ! (pos ! unat t)
     # DispatchByTag_decode srcs (pos[unat t := pos ! unat t + 1]) index"

definition ZS_DispatchByTag_decode :: "'a list list \<Rightarrow> u8 list \<Rightarrow> 'a list" where
  "ZS_DispatchByTag_decode srcs index = DispatchByTag_decode srcs (replicate (length srcs) 0) index"

section \<open>Writer\<close>

text \<open>\<open>avail\<close> is the room left at the destination, which only selects the variant of the packer.\<close>

definition push_varints :: "u32 list \<Rightarrow> byte list" where
  "push_varints vals = concat (map (\<lambda>v. ZL_varintEncode (ucast v)) vals)"

definition compressTrt :: "u8 list \<Rightarrow> byte list" where
  "compressTrt flags = ZS_bitpackEncode8 flags 1"

definition compressTrID :: "nat \<Rightarrow> nat \<Rightarrow> u32 list \<Rightarrow> u8 list \<Rightarrow> byte list" where
  "compressTrID avail v trids ctrFlags =
     (if trids = [] then []
      else let bufs = ZS_DispatchByTag_encode [[], []] trids ctrFlags
           in ZS_bitpackEncode32 avail (bufs ! 0) (ZL_StandardTransformID_numBits v) @ push_varints (bufs ! 1))"

definition compressTrHSize :: "nat \<Rightarrow> u32 list \<Rightarrow> byte list" where
  "compressTrHSize avail trhs =
     ZS_bitpackEncode32 avail (map (\<lambda>h. if 0 < h then 1 else 0) trhs) 1
     @ push_varints (map (\<lambda>h. h - 1) (filter (\<lambda>h. 0 < h) trhs))"

definition compressNbVOs :: "nat \<Rightarrow> u32 list \<Rightarrow> byte list" where
  "compressNbVOs avail nbvos =
     ZS_bitpackEncode32 avail (map (\<lambda>n. if 0 < n then 1 else 0) nbvos) 1
     @ push_varints (map (\<lambda>n. n - 1) (filter (\<lambda>n. 0 < n) nbvos))"

definition compressNumInputs :: "nat \<Rightarrow> u32 list \<Rightarrow> byte list" where
  "compressNumInputs avail numInputs =
     ZS_bitpackEncode32 avail (map (\<lambda>n. if 1 < n then 1 else 0) numInputs) 1
     @ push_varints (map (\<lambda>n. n - 2) (filter (\<lambda>n. 1 < n) numInputs))"

definition max_u32 :: "u32 list \<Rightarrow> u32" where
  "max_u32 = foldl (\<lambda>maxVal v. if maxVal < v then v else maxVal) 0"

definition compressDictIdxs :: "nat \<Rightarrow> u32 list \<Rightarrow> byte list" where
  "compressDictIdxs avail idxs =
     (let flags = ZS_bitpackEncode32 avail (map (\<lambda>i. if i \<noteq> ZL_DICT_INDEX_NONE then 1 else 0) idxs) 1;
          vals = filter (\<lambda>i. i \<noteq> ZL_DICT_INDEX_NONE) idxs in
      flags @ (if vals = [] then []
        else let nbBits = ZL_nextPow2 (ucast (max_u32 vals + 1))
             in word_of_nat nbBits # ZS_bitpackEncode32 (avail - length flags - 1) vals nbBits))"

definition compressStreamDistances :: "nat \<Rightarrow> u32 list \<Rightarrow> nat \<Rightarrow> byte list" where
  "compressStreamDistances avail ds nbStoredStreams =
     ZS_bitpackEncode32 avail ds (ZL_nextPow2 (word_of_nat (length ds + nbStoredStreams)))"

definition compressStrSizes :: "u32 list \<Rightarrow> byte list" where
  "compressStrSizes = push_varints"

definition trt_flag :: "TransformType_e \<Rightarrow> u8" where
  "trt_flag t = (case t of trt_standard \<Rightarrow> 0 | trt_custom \<Rightarrow> 1)"

definition writeChunkHeaderV8_internal ::
  "nat \<Rightarrow> ZL_FrameProperties \<Rightarrow> GraphInfo \<Rightarrow> nat \<Rightarrow> byte list ZL_Result" where
  "writeChunkHeaderV8_internal v fp gip dstCapacity =
     (let nbCodecs = length (trInfo gip); nbBuffs = length (storedBuffs gip) in
      res_bind (computeFHBound (nbSessionInputs gip) nbCodecs nbBuffs (length (distances gip))) (\<lambda>hsBound.
      if dstCapacity < hsBound then Inl ZL_ErrorCode_internalBuffer_tooSmall
      else if ZL_runtimeNodeLimit v \<le> nbCodecs then Inl ZL_ErrorCode_corruption
      else if word_of_nat (ZL_runtimeStreamLimit v) \<le> (word_of_nat nbBuffs - 1 :: size_t)
        then Inl ZL_ErrorCode_corruption
      else if nbBuffs = 0 then Inl ZL_ErrorCode_corruption
      else if v < 16 \<and> list_ex (\<lambda>n. n \<noteq> 1) (nbTrInputs gip) then Inl ZL_ErrorCode_node_versionMismatch
      else
      let push = \<lambda>out f. out @ f (dstCapacity - length out);
          trts = map (trt_flag \<circ> trt) (trInfo gip);
          out = (if v < 9 then [word_of_nat nbCodecs, word_of_nat (nbBuffs - 1)]
            else ZL_varintEncode (word_of_nat (nbCodecs + (if CHUNK_VERSION_MIN \<le> v then 1 else 0)))
              @ ZL_varintEncode (word_of_nat (nbBuffs - 1)));
          out = out @ (if v < CHUNK_VERSION_MIN
            then [(if hasContentChecksum fp then 1 else 0) OR (if hasCompressedChecksum fp then 2 else 0)] else []);
          out = out @ compressTrt trts;
          out = push out (\<lambda>avail. compressTrID avail v (map trid (trInfo gip)) trts);
          out = push out (\<lambda>avail. compressTrHSize avail (map ucast (trHSizes gip)));
          out = push out (\<lambda>avail. compressNbVOs avail (map ucast (gi_nbVOs gip)));
          out = (if 16 \<le> v then push out (\<lambda>avail. compressNumInputs avail (map ucast (nbTrInputs gip))) else out);
          out = (if ZL_MATERIALIZED_DICT_VERSION_MIN \<le> v \<and> hasBundleID fp
            then push out (\<lambda>avail. compressDictIdxs avail (dictIdxs gip)) else out);
          totalNbRegens = (if 16 \<le> v then sum_list (map (\<lambda>n. unat (ucast n :: u32)) (nbTrInputs gip)) else nbCodecs);
          out = push out (\<lambda>avail. compressStreamDistances avail
            (map (\<lambda>d. d - 1) (take totalNbRegens (distances gip))) (nbBuffs - 1))
      in Inr (out @ compressStrSizes (map ucast (tl (storedBuffs gip))))))"

definition EFH_writeChunkHeader ::
  "(nat \<Rightarrow> bool) \<Rightarrow> nat \<Rightarrow> ZL_FrameProperties \<Rightarrow> GraphInfo \<Rightarrow> nat \<Rightarrow> byte list ZL_Result" where
  "EFH_writeChunkHeader alloc v fp gip dstCapacity =
     res_bind (computeFHBound (nbSessionInputs gip) (length (trInfo gip)) (length (storedBuffs gip))
       (length (distances gip))) (\<lambda>dstBound.
     if \<not> alloc (4 * length (storedBuffs gip) + 4 * length (distances gip) + 9 * length (trInfo gip)
          + (if dstCapacity < dstBound then dstBound else 0)) then Inl ZL_ErrorCode_allocation
     else if dstBound \<le> dstCapacity then writeChunkHeaderV8_internal v fp gip dstCapacity
     else res_bind (writeChunkHeaderV8_internal v fp gip dstBound) (\<lambda>out.
       if length out \<le> dstCapacity then Inr out else Inl ZL_ErrorCode_dstCapacity_tooSmall))"

section \<open>Decoder\<close>

text \<open>A step takes what is left of the source and gives what is left after it.\<close>

type_synonym 'a rc = "byte list \<Rightarrow> ('a \<times> byte list) ZL_Result"

definition checkedBitpackDecode8 :: "nat \<Rightarrow> nat \<Rightarrow> u8 list rc" where
  "checkedBitpackDecode8 nbElts nbBits src =
     (let srcSize = (nbElts * nbBits + 7) div 8 in
      if 8 < nbBits then Inl ZL_ErrorCode_GENERIC
      else if length src < srcSize then Inl ZL_ErrorCode_internalBuffer_tooSmall
      else Inr (ZS_bitpackDecode8 nbElts src nbBits, drop srcSize src))"

definition checkedBitpackDecode32 :: "nat \<Rightarrow> nat \<Rightarrow> u32 list rc" where
  "checkedBitpackDecode32 nbElts nbBits src =
     (let srcSize = (nbElts * nbBits + 7) div 8 in
      if 32 < nbBits then Inl ZL_ErrorCode_GENERIC
      else if length src < srcSize then Inl ZL_ErrorCode_internalBuffer_tooSmall
      else Inr (ZS_bitpackDecode32 nbElts src nbBits, drop srcSize src))"

definition decompressTrt :: "nat \<Rightarrow> u8 list rc" where
  "decompressTrt nbFlags = checkedBitpackDecode8 nbFlags 1"

primrec pop_trids :: "nat \<Rightarrow> u32 list rc" where
  "pop_trids 0 src = Inr ([], src)"
| "pop_trids (Suc n) src =
     res_bind (ZL_varintDecode src) (\<lambda>(trid64, src).
     if 0xffffffff < trid64 then Inl ZL_ErrorCode_corruption
     else res_bind (pop_trids n src) (\<lambda>(ids, src). Inr (ucast trid64 # ids, src)))"

definition decompressTrID :: "nat \<Rightarrow> u8 list \<Rightarrow> u32 list rc" where
  "decompressTrID v trt8 src =
     (if trt8 = [] then Inr ([], src)
      else
      let nbTrs = \<lambda>t. length (filter (\<lambda>x. x = t) trt8) in
      res_bind (checkedBitpackDecode32 (nbTrs 0) (ZL_StandardTransformID_numBits v) src) (\<lambda>(snodeids, src).
      res_bind (pop_trids (nbTrs 1) src) (\<lambda>(cnodeids, src).
      Inr (ZS_DispatchByTag_decode [snodeids, cnodeids] trt8, src))))"

text \<open>The flags are replaced one by one by the values.\<close>

primrec trhSizes_loop :: "u32 list \<Rightarrow> u32 list rc" where
  "trhSizes_loop [] src = Inr ([], src)"
| "trhSizes_loop (f # fs) src =
     (if f \<noteq> 0 then
        res_bind (ZL_varintDecode src) (\<lambda>(trhSize64, src).
        if 0xfffffffe \<le> trhSize64 then Inl ZL_ErrorCode_corruption
        else res_bind (trhSizes_loop fs src) (\<lambda>(vs, src). Inr ((ucast trhSize64 + 1) # vs, src)))
      else res_bind (trhSizes_loop fs src) (\<lambda>(vs, src). Inr (f # vs, src)))"

definition decompressTrHSize :: "nat \<Rightarrow> u32 list rc" where
  "decompressTrHSize n src = res_bind (checkedBitpackDecode32 n 1 src) (\<lambda>(fs, src). trhSizes_loop fs src)"

primrec nbVOs_loop :: "u32 list \<Rightarrow> u32 list rc" where
  "nbVOs_loop [] src = Inr ([], src)"
| "nbVOs_loop (f # fs) src =
     (if f \<noteq> 0 then
        res_bind (ZL_varintDecode src) (\<lambda>(nbVOsMinus1, src).
        res_bind (nbVOs_loop fs src) (\<lambda>(vs, src). Inr ((ucast nbVOsMinus1 + 1) # vs, src)))
      else res_bind (nbVOs_loop fs src) (\<lambda>(vs, src). Inr (f # vs, src)))"

definition decompressNbVOs :: "nat \<Rightarrow> u32 list rc" where
  "decompressNbVOs n src = res_bind (checkedBitpackDecode32 n 1 src) (\<lambda>(fs, src). nbVOs_loop fs src)"

primrec nbRegens_loop :: "nat \<Rightarrow> u32 list \<Rightarrow> u32 list rc" where
  "nbRegens_loop v [] src = Inr ([], src)"
| "nbRegens_loop v (f # fs) src =
     (if f \<noteq> 0 then
        res_bind (ZL_varintDecode src) (\<lambda>(nbRegensMinus2, src).
        let n = ucast nbRegensMinus2 + 2 :: u32 in
        if ZL_runtimeNodeInputLimit v < unat n then Inl ZL_ErrorCode_corruption
        else res_bind (nbRegens_loop v fs src) (\<lambda>(vs, src). Inr (n # vs, src)))
      else res_bind (nbRegens_loop v fs src) (\<lambda>(vs, src). Inr (1 # vs, src)))"

definition decompressNbRegens :: "nat \<Rightarrow> nat \<Rightarrow> u32 list rc" where
  "decompressNbRegens v n src = res_bind (checkedBitpackDecode32 n 1 src) (\<lambda>(fs, src). nbRegens_loop v fs src)"

primrec merge_idxs :: "u32 list \<Rightarrow> u32 list \<Rightarrow> u32 list ZL_Result" where
  "merge_idxs [] vals = Inr []"
| "merge_idxs (f # fs) vals =
     (if f \<noteq> 0 then
        (if ZL_MAX_DICTS_PER_BUNDLE < hd vals then Inl ZL_ErrorCode_corruption
         else res_bind (merge_idxs fs (tl vals)) (\<lambda>is. Inr (hd vals # is)))
      else res_bind (merge_idxs fs vals) (\<lambda>is. Inr (ZL_DICT_INDEX_NONE # is)))"

definition decompressDictIdxs :: "nat \<Rightarrow> u32 list rc" where
  "decompressDictIdxs n src =
     res_bind (checkedBitpackDecode32 n 1 src) (\<lambda>(fs, src).
     let nbNonZero = length (filter (\<lambda>f. f \<noteq> 0) fs) in
     if 0 < nbNonZero then
       (if length src < 1 then Inl ZL_ErrorCode_srcSize_tooSmall
        else let nbBits = unat (hd src); src = tl src in
          if 16 < nbBits then Inl ZL_ErrorCode_corruption
          else res_bind (checkedBitpackDecode32 nbNonZero nbBits src) (\<lambda>(vals, src).
            res_bind (merge_idxs fs vals) (\<lambda>is. Inr (is, src))))
     else Inr (replicate n ZL_DICT_INDEX_NONE, src))"

definition decompress_regenStreamID_distances :: "nat \<Rightarrow> nat \<Rightarrow> u32 list rc" where
  "decompress_regenStreamID_distances nbGenStreams nbStoredStreams =
     checkedBitpackDecode32 nbGenStreams (ZL_nextPow2 (word_of_nat (nbGenStreams + nbStoredStreams)))"

primrec strSizes_loop :: "nat \<Rightarrow> size_t list rc" where
  "strSizes_loop 0 src = Inr ([], src)"
| "strSizes_loop (Suc n) src =
     res_bind (ZL_varintDecode src) (\<lambda>(streamSize64, src).
     if 0xffffffff \<le> streamSize64 then Inl ZL_ErrorCode_corruption
     else res_bind (strSizes_loop n src) (\<lambda>(vs, src). Inr (streamSize64 # vs, src)))"

definition decompressStrSizes :: "nat \<Rightarrow> size_t list rc" where
  "decompressStrSizes nbStreams src =
     (if length src < nbStreams then Inl ZL_ErrorCode_corruption else strSizes_loop nbStreams src)"

text \<open>The counts at the start.\<close>

definition decodeCounts :: "nat \<Rightarrow> (u64 \<times> u64) rc" where
  "decodeCounts v src =
     (if v < 9 then Inr ((ucast (src ! 0), ucast (src ! 1)), drop 2 src)
      else
      res_bind (ZL_varintDecode src) (\<lambda>(nbDecoders, src).
      if CHUNK_VERSION_MIN \<le> v \<and> nbDecoders = 0 then Inl ZL_ErrorCode_corruption
      else let nbDecoders = (if CHUNK_VERSION_MIN \<le> v then nbDecoders - 1 else nbDecoders) in
      res_bind (ZL_varintDecode src) (\<lambda>(nbStoredStreams, src). Inr ((nbDecoders, nbStoredStreams), src))))"

primrec cut_distances :: "u32 list \<Rightarrow> u32 list \<Rightarrow> u32 list list" where
  "cut_distances [] ds = []"
| "cut_distances (n # ns) ds = take (unat n) ds # cut_distances ns (drop (unat n) ds)"

primrec make_nodes ::
  "nat \<Rightarrow> (u8 \<times> u32 \<times> u32 \<times> u32 \<times> u32 \<times> u32 \<times> u32 list) list \<Rightarrow> DFH_NodeInfo list" where
  "make_nodes start [] = []"
| "make_nodes start (x # xs) =
     (let (t, ident, hsize, vos, regens, idx, ds) = x
      in \<lparr>trpid = \<lparr>trt = (if t = 0 then trt_standard else trt_custom), trid = ident\<rparr>, trhStart = start,
          trhSize = ucast hsize, nbVOs = vos, nbRegens = regens, regenDistances = ds, dictIdx = idx\<rparr>
         # make_nodes (start + unat hsize) xs)"

definition decodeFlags :: "nat \<Rightarrow> DFH_Struct \<Rightarrow> DFH_Struct rc" where
  "decodeFlags v dfh src =
     (if v < CHUNK_VERSION_MIN then
        (if length src < 1 then Inl ZL_ErrorCode_srcSize_tooSmall
         else Inr (dfh\<lparr>frameinfo := map_option (\<lambda>fi. fi\<lparr>properties := (properties fi)
             \<lparr>hasContentChecksum := hd src AND 1 \<noteq> 0, hasCompressedChecksum := hd src AND 2 \<noteq> 0\<rparr>\<rparr>) (frameinfo dfh)\<rparr>,
           tl src))
      else Inr (dfh, src))"

definition hasBundleDecl :: "DFH_Struct \<Rightarrow> bool" where
  "hasBundleDecl dfh = (case frameinfo dfh of None \<Rightarrow> False | Some fi \<Rightarrow> hasBundleID (properties fi))"

definition DFH_scratchSize :: "nat \<Rightarrow> nat" where
  "DFH_scratchSize nbTransforms = (nbTransforms * 24 + 4 - 1) div 4"

text \<open>
  \<open>alloc\<close> tells whether a vector can be resized to that many elements; the vector of distances is
  created with the stream limit of the last version as its greatest size. The header size is the
  number of bytes consumed.
\<close>

definition decodeChunkHeader_internal ::
  "(nat \<Rightarrow> bool) \<Rightarrow> DFH_Struct \<Rightarrow> byte list \<Rightarrow> (DFH_Struct \<times> nat) ZL_Result" where
  "decodeChunkHeader_internal alloc dfh src0 =
     (let v = dfh_formatVersion dfh in
      if length src0 < 2 then Inl ZL_ErrorCode_srcSize_tooSmall
      else
      res_bind (decodeCounts v src0) (\<lambda>((nbDecoders, nbStoredStreams), src).
      if word_of_nat (ZL_runtimeNodeLimit v) \<le> nbDecoders then Inl ZL_ErrorCode_temporaryLibraryLimitation
      else if word_of_nat (ZL_runtimeStreamLimit v) \<le> nbStoredStreams
        then Inl ZL_ErrorCode_temporaryLibraryLimitation
      else let n = unat nbDecoders; nbStored = unat nbStoredStreams in
      if \<not> (alloc n \<and> alloc nbStored \<and> alloc (DFH_scratchSize n)) then Inl ZL_ErrorCode_allocation
      else
      res_bind (decodeFlags v dfh src) (\<lambda>(dfh, src).
      res_bind (decompressTrt n src) (\<lambda>(trt8, src).
      res_bind (decompressTrID v trt8 src) (\<lambda>(trIDs, src).
      if list_ex (\<lambda>(t, i). t = 0 \<and> ZL_StandardTransformID_end \<le> i) (zip trt8 trIDs)
        then Inl ZL_ErrorCode_invalidTransform
      else
      res_bind (decompressTrHSize n src) (\<lambda>(hs, src).
      res_bind (decompressNbVOs n src) (\<lambda>(vos, src).
      res_bind (if 16 \<le> v then decompressNbRegens v n src else Inr (replicate n 1, src)) (\<lambda>(regens, src).
      let totalNbRegens = sum_list (map unat regens) in
      res_bind (if ZL_MATERIALIZED_DICT_VERSION_MIN \<le> v \<and> hasBundleDecl dfh then decompressDictIdxs n src
                else Inr (replicate n ZL_DICT_INDEX_NONE, src)) (\<lambda>(idxs, src).
      if \<not> (totalNbRegens \<le> ZL_runtimeStreamLimit ZL_MAX_FORMAT_VERSION \<and> alloc totalNbRegens)
        then Inl ZL_ErrorCode_allocation
      else
      res_bind (decompress_regenStreamID_distances totalNbRegens nbStored src) (\<lambda>(ds, src).
      res_bind (decompressStrSizes nbStored src) (\<lambda>(sizes, src).
      Inr (dfh\<lparr>nodes := make_nodes 0 (zip trt8 (zip trIDs (zip hs (zip vos (zip regens
               (zip idxs (cut_distances regens ds))))))),
             storedStreamSizes := sizes, dfh_regenDistances := ds,
             totalTHSize := sum_list (map unat hs)\<rparr>,
           length src0 - length src))))))))))))"

end
