(* ===== verification/Chunk_Roundtrip.thy ===== *)
theory Chunk_Roundtrip
  imports Chunk_Header
begin

text \<open>
  What the chunk header decoder reads of what the encoder wrote: each table of the header, then the
  whole header.
\<close>

section \<open>Packed tables and varints\<close>

lemma checked_decode32:
  assumes "n \<le> 32" "\<forall>v \<in> set vs. unat v < 2 ^ n"
  shows "checkedBitpackDecode32 (length vs) n (ZS_bitpackEncode32 cap vs n @ rest) = Inr (vs, rest)"
  using bitpack32_roundtrip [OF assms] assms(1) by (simp add: checkedBitpackDecode32_def Let_def)

lemma checked_decode8:
  assumes "n \<le> 8" "\<forall>v \<in> set vs. unat v < 2 ^ n"
  shows "checkedBitpackDecode8 (length vs) n (ZS_bitpackEncode8 vs n @ rest) = Inr (vs, rest)"
  using bitpack8_roundtrip [OF assms] assms(1) by (simp add: checkedBitpackDecode8_def Let_def)

lemma checked_flags:
  "n = length xs \<Longrightarrow>
   checkedBitpackDecode32 n 1 (ZS_bitpackEncode32 cap (map (\<lambda>x. if P x then 1 else 0) xs) 1 @ rest)
     = Inr (map (\<lambda>x. if P x then 1 else 0) xs, rest)"
  by (use checked_decode32 [of 1 "map (\<lambda>x. if P x then 1 else 0) xs" cap rest] in \<open>simp add: ball_Un\<close>)

lemma push_varints_simps [simp]:
  "push_varints [] = []"
  "push_varints (v # vs) = ZL_varintEncode (ucast v) @ push_varints vs"
  by (simp_all add: push_varints_def)

lemma ucast_u32_u64 [simp]: "(ucast (ucast (x :: u32) :: u64) :: u32) = x"
  by (rule bit_word_eqI) (simp add: bit_simps)

lemma u32_less: "unat (x :: u32) < 4294967296"
proof -
  have "unat x < 2 ^ LENGTH(32)" by (rule unsigned_less)
  then show ?thesis by simp
qed

lemma unat_ucast_u64 [simp]: "unat (ucast (x :: u32) :: u64) = unat x"
  by (simp add: unsigned_ucast_eq take_bit_eq_mod) (rule mod_less, rule less_trans [OF u32_less], simp)

lemma length_push_varints: "length vs \<le> length (push_varints vs)"
proof (induction vs)
  case (Cons v vs)
  have "0 < length (ZL_varintEncode (ucast v))" by (simp add: length_ZL_varintEncode ZL_varintSize_bounds)
  with Cons show ?case by (simp del: length_greater_0_conv)
qed simp

lemma pop_trids_pushed: "pop_trids (length ids) (push_varints ids @ rest) = Inr (ids, rest)"
proof (induction ids)
  case (Cons i ids)
  have "unat i \<le> 0xffffffff" using u32_less [of i] by linarith
  then have "\<not> 0xffffffff < (ucast i :: u64)" by (simp add: word_less_nat_alt)
  with Cons show ?case by (simp add: ZL_varintDecode_encode)
qed simp

lemma trhSizes_pushed:
  "\<forall>h \<in> set hs. h < 0xffffffff \<Longrightarrow>
   trhSizes_loop (map (\<lambda>h. if 0 < h then 1 else 0) hs)
     (push_varints (map (\<lambda>h. h - 1) (filter (\<lambda>h. 0 < h) hs)) @ rest) = Inr (hs, rest)"
proof (induction hs)
  case (Cons h hs)
  have "\<not> 0xfffffffe \<le> (ucast (h - 1) :: u64)" if "0 < h"
  proof -
    have "unat h < 0xffffffff" "0 < unat h" using that Cons.prems by (simp_all add: word_less_nat_alt)
    then have "unat h - 1 < 0xfffffffe" by linarith
    with that show ?thesis by (simp add: word_le_nat_alt unat_sub Suc_le_eq word_less_nat_alt)
  qed
  with Cons show ?case by (auto simp: ZL_varintDecode_encode word_neq_0_conv [symmetric])
qed simp

lemma nbVOs_pushed:
  "nbVOs_loop (map (\<lambda>h. if 0 < h then 1 else 0) hs)
     (push_varints (map (\<lambda>h. h - 1) (filter (\<lambda>h. 0 < h) hs)) @ rest) = Inr (hs, rest)"
  by (induction hs) (auto simp: ZL_varintDecode_encode word_neq_0_conv [symmetric])

lemma nbRegens_pushed:
  "\<forall>n \<in> set ns. 0 < n \<and> unat n \<le> ZL_runtimeNodeInputLimit v \<Longrightarrow>
   nbRegens_loop v (map (\<lambda>n. if 1 < n then 1 else 0) ns)
     (push_varints (map (\<lambda>n. n - 2) (filter (\<lambda>n. 1 < n) ns)) @ rest) = Inr (ns, rest)"
proof (induction ns)
  case (Cons n ns)
  have "n = 1" if "\<not> 1 < n" using that Cons.prems by (simp add: word_less_nat_alt word_unat_eq_iff)
  with Cons show ?case by (auto simp: ZL_varintDecode_encode)
qed simp

lemma ucast_u64_u32: "unat (s :: u64) < 2 ^ 32 \<Longrightarrow> ucast (ucast s :: u32) = s"
  by (simp only: word_unat_eq_iff unat_ucast_u64) (simp add: unsigned_ucast_eq take_bit_eq_mod)

lemma strSizes_pushed:
  "\<forall>s \<in> set ss. s < 0xffffffff \<Longrightarrow>
   strSizes_loop (length ss) (push_varints (map ucast ss) @ rest) = Inr (ss, rest)"
proof (induction ss)
  case (Cons s ss)
  then have "ucast (ucast s :: u32) = s" by (intro ucast_u64_u32) (simp add: word_less_nat_alt)
  with Cons show ?case by (auto simp: ZL_varintDecode_encode)
qed simp

section \<open>Codec identifiers\<close>

definition sel :: "u8 \<Rightarrow> 'a list \<Rightarrow> u8 list \<Rightarrow> 'a list" where
  "sel t xs fs = map fst (filter (\<lambda>(x, f). f = t) (zip xs fs))"

lemma sel_simps [simp]:
  "sel t [] fs = []" "sel t (x # xs) (f # fs) = (if f = t then x # sel t xs fs else sel t xs fs)"
  by (simp_all add: sel_def)

lemma length_sel: "length xs = length fs \<Longrightarrow> length (sel t xs fs) = length (filter (\<lambda>f. f = t) fs)"
  by (induction xs fs rule: list_induct2) simp_all

lemma set_sel: "x \<in> set (sel t xs fs) \<Longrightarrow> (x, t) \<in> set (zip xs fs)"
  by (auto simp: sel_def)

lemma dispatch_encode:
  "length xs = length fs \<Longrightarrow> set fs \<subseteq> {0, 1} \<Longrightarrow>
   ZS_DispatchByTag_encode [a, b] xs fs = [a @ sel 0 xs fs, b @ sel 1 xs fs]"
  by (induction xs fs arbitrary: a b rule: list_induct2) auto

lemma dispatch_decode:
  "length xs = length fs \<Longrightarrow> set fs \<subseteq> {0, 1} \<Longrightarrow>
   DispatchByTag_decode [a @ sel 0 xs fs, b @ sel 1 xs fs] [length a, length b] fs = xs"
proof (induction xs fs arbitrary: a b rule: list_induct2)
  case (Cons x xs f fs)
  show ?case
    using Cons.IH [of "a @ [x]" b] Cons.IH [of a "b @ [x]"] Cons.prems by auto
qed simp

lemma trID_roundtrip:
  assumes "length ids = length fs" "set fs \<subseteq> {0, 1}"
    "\<forall>(i, f) \<in> set (zip ids fs). f = 0 \<longrightarrow> unat i < 2 ^ ZL_StandardTransformID_numBits v"
    "ZL_StandardTransformID_numBits v \<le> 32"
  shows "decompressTrID v fs (compressTrID cap v ids fs @ rest) = Inr (ids, rest)"
proof (cases "ids = []")
  case False
  then have "fs \<noteq> []" using assms(1) by auto
  have "\<forall>i \<in> set (sel 0 ids fs). unat i < 2 ^ ZL_StandardTransformID_numBits v"
    using assms(3) by (auto dest: set_sel)
  note d = checked_decode32 [OF assms(4) this, unfolded length_sel [OF assms(1)]]
  have p: "pop_trids (length (filter (\<lambda>f. f = 1) fs)) (push_varints (sel 1 ids fs) @ rest) = Inr (sel 1 ids fs, rest)"
    using pop_trids_pushed [of "sel 1 ids fs" rest] by (simp add: length_sel [OF assms(1)])
  from dispatch_decode [OF assms(1,2), of "[]" "[]"] show ?thesis
    using False \<open>fs \<noteq> []\<close> assms(1,2)
    by (simp add: decompressTrID_def compressTrID_def dispatch_encode d p ZS_DispatchByTag_decode_def)
qed (use assms(1) in \<open>simp add: decompressTrID_def compressTrID_def\<close>)

section \<open>Widths\<close>

lemma nextPow2_top:
  assumes "1 < n"
  shows "ZL_nextPow2 n = Suc (top_bit (n - 1))" "bit (n - 1) (top_bit (n - 1))"
    "take_bit (Suc (top_bit (n - 1))) (n - 1) = n - 1"
proof -
  let ?h = "top_bit (n - 1)"
  have ne: "n - 1 \<noteq> 0" using assms by auto
  have below: "\<not> bit (n - 1) j" if "?h < j" for j
    using that top_bit(2) [of "n - 1" j] by (auto simp: bit_simps)
  show b: "bit (n - 1) ?h"
  proof (cases "?h = 0")
    case True
    obtain k where "bit (n - 1) k" using ne bit_eq_iff [of "n - 1" 0] by auto
    with True top_bit(2) [of "n - 1" k] show ?thesis by (auto simp: bit_simps)
  next
    case False
    with top_bit(1) [of "n - 1"] show ?thesis by (auto simp: bit_simps)
  qed
  show "ZL_nextPow2 n = Suc ?h"
    using ZL_clz64_top_bit [OF b below top_bit(3)] assms top_bit(3) [of "n - 1"]
    by (simp add: ZL_nextPow2_def not_le)
  show "take_bit (Suc ?h) (n - 1) = n - 1"
    by (rule bit_word_eqI) (use below in \<open>auto simp: bit_simps less_Suc_eq_le linorder_not_less [symmetric]\<close>)
qed

lemma nextPow2_fits:
  assumes "k < unat n"
  shows "k < 2 ^ ZL_nextPow2 n"
proof (cases "1 < n")
  case True
  have "unat (n - 1) < 2 ^ ZL_nextPow2 n"
    using take_bit_unat_less [OF nextPow2_top(3) [OF True]] by (simp add: nextPow2_top(1) [OF True])
  moreover have "k \<le> unat (n - 1)" using assms True by (simp add: unat_sub word_le_nat_alt word_less_nat_alt)
  ultimately show ?thesis by simp
next
  case False
  then have "unat n \<le> 1" by (simp add: word_less_nat_alt)
  with assms have "k = 0" by linarith
  then show ?thesis by simp
qed

lemma nextPow2_le:
  assumes "unat n \<le> 2 ^ k"
  shows "ZL_nextPow2 n \<le> k"
proof (cases "1 < n")
  case True
  have "unat (n - 1) < 2 ^ k" using assms True by (simp add: unat_sub word_le_nat_alt word_less_nat_alt)
  then have "take_bit k (n - 1) = n - 1" by (rule take_bit_fits)
  with nextPow2_top(2) [OF True] have "top_bit (n - 1) < k" by (metis bit_take_bit_iff)
  then show ?thesis by (simp add: nextPow2_top(1) [OF True])
qed (simp add: ZL_nextPow2_def not_less)


section \<open>Dictionary indices\<close>

lemma merge_idxs_flags:
  "\<forall>i \<in> set idxs. i = ZL_DICT_INDEX_NONE \<or> i \<le> ZL_MAX_DICTS_PER_BUNDLE \<Longrightarrow>
   merge_idxs (map (\<lambda>i. if i \<noteq> ZL_DICT_INDEX_NONE then 1 else 0) idxs)
     (filter (\<lambda>i. i \<noteq> ZL_DICT_INDEX_NONE) idxs) = Inr idxs"
  by (induction idxs) (auto simp: not_less)

lemma max_u32_step: "foldl (\<lambda>m v. if m < v then v else m) m vs = (foldl max m vs :: u32)"
  by (induction vs arbitrary: m) (auto simp: max_def)

lemma max_foldl_init: "m \<le> foldl max m vs" for m :: u32
proof (induction vs arbitrary: m)
  case (Cons w vs)
  then show ?case using order.trans [OF max.cobounded1 Cons.IH [of "max m w"]] by simp
qed simp

lemma max_foldl:
  "v \<in> set vs \<Longrightarrow> v \<le> foldl max m vs" "m \<le> b \<Longrightarrow> \<forall>v \<in> set vs. v \<le> b \<Longrightarrow> foldl max m vs \<le> b"
  for m v b :: u32
proof -
  show "v \<in> set vs \<Longrightarrow> v \<le> foldl max m vs"
  proof (induction vs arbitrary: m)
    case (Cons w vs)
    then show ?case using order.trans [OF max.cobounded2 max_foldl_init [of "max m w" vs]] by auto
  qed simp
  show "m \<le> b \<Longrightarrow> \<forall>v \<in> set vs. v \<le> b \<Longrightarrow> foldl max m vs \<le> b"
    by (induction vs arbitrary: m) auto
qed

lemma max_u32_bounds:
  "v \<in> set vs \<Longrightarrow> v \<le> max_u32 vs" "\<forall>v \<in> set vs. v \<le> b \<Longrightarrow> max_u32 vs \<le> b"
  unfolding max_u32_def max_u32_step by (auto intro: max_foldl)

lemma dict_widths:
  assumes "\<forall>i \<in> set idxs. i = ZL_DICT_INDEX_NONE \<or> i \<le> ZL_MAX_DICTS_PER_BUNDLE"
  defines "vals \<equiv> filter (\<lambda>i. i \<noteq> ZL_DICT_INDEX_NONE) idxs"
  shows "ZL_nextPow2 (ucast (max_u32 vals + 1)) \<le> 16"
    "\<forall>v \<in> set vals. unat v < 2 ^ ZL_nextPow2 (ucast (max_u32 vals + 1))"
proof -
  have le: "max_u32 vals \<le> 0xFFFF" by (rule max_u32_bounds(2)) (use assms(1) in \<open>auto simp: vals_def\<close>)
  then have u: "unat (max_u32 vals + 1) = unat (max_u32 vals) + 1"
    by (simp add: word_le_nat_alt unat_word_ariths)
  show "ZL_nextPow2 (ucast (max_u32 vals + 1)) \<le> 16"
    by (rule nextPow2_le) (use le in \<open>simp add: u word_le_nat_alt\<close>)
  show "\<forall>v \<in> set vals. unat v < 2 ^ ZL_nextPow2 (ucast (max_u32 vals + 1))"
    by (auto intro!: nextPow2_fits simp: u less_Suc_eq_le word_le_nat_alt [symmetric] intro: max_u32_bounds(1))
qed

lemma dictIdxs_roundtrip:
  assumes "\<forall>i \<in> set idxs. i = ZL_DICT_INDEX_NONE \<or> i \<le> ZL_MAX_DICTS_PER_BUNDLE" "n = length idxs"
  shows "decompressDictIdxs n (compressDictIdxs cap idxs @ rest) = Inr (idxs, rest)"
proof -
  define vals where "vals = filter (\<lambda>i. i \<noteq> ZL_DICT_INDEX_NONE) idxs"
  define nbBits where "nbBits = ZL_nextPow2 (ucast (max_u32 vals + 1))"
  note 16 = dict_widths(1) [OF assms(1), folded vals_def nbBits_def]
  note fits = dict_widths(2) [OF assms(1), folded vals_def nbBits_def]
  have len: "length (filter (\<lambda>f. f \<noteq> 0) (map (\<lambda>i. if i \<noteq> ZL_DICT_INDEX_NONE then 1 else 0 :: u32) idxs)) = length vals"
    by (simp add: filter_map o_def vals_def cong: filter_cong)
  have none: "replicate (length idxs) ZL_DICT_INDEX_NONE = idxs" if "vals = []"
    using that by (intro replicate_length_same) (auto simp: vals_def filter_empty_conv)
  have byte: "unat (word_of_nat nbBits :: byte) = nbBits" using 16 by (simp add: unsigned_of_nat take_bit_eq_mod)
  show ?thesis
    unfolding decompressDictIdxs_def compressDictIdxs_def vals_def [symmetric] nbBits_def [symmetric]
      append_assoc checked_flags [OF assms(2)] res_bind_simps split_conv Let_def len
    using none checked_decode32 [OF _ fits] 16 byte merge_idxs_flags [OF assms(1)] assms(2)
    by (auto simp: vals_def [symmetric])
qed

section \<open>The nodes\<close>

definition chunk_node :: "nat \<Rightarrow> ZL_FrameProperties \<Rightarrow> GraphInfo \<Rightarrow> nat \<Rightarrow> DFH_NodeInfo" where
  "chunk_node v fp gip i =
     \<lparr>trpid = trInfo gip ! i, trhStart = sum_list (map unat (take i (trHSizes gip))),
      trhSize = trHSizes gip ! i, nbVOs = ucast (gi_nbVOs gip ! i), nbRegens = ucast (nbTrInputs gip ! i),
      regenDistances = map (\<lambda>d. d - 1) (take (unat (nbTrInputs gip ! i))
        (drop (sum_list (map unat (take i (nbTrInputs gip)))) (distances gip))),
      dictIdx = (if ZL_MATERIALIZED_DICT_VERSION_MIN \<le> v \<and> hasBundleID fp then dictIdxs gip ! i
        else ZL_DICT_INDEX_NONE)\<rparr>"

lemma length_make_nodes [simp]: "length (make_nodes s xs) = length xs"
  by (induction xs arbitrary: s) (simp_all add: Let_def split: prod.split)

lemma nth_make_nodes:
  "i < length xs \<Longrightarrow> make_nodes s xs ! i =
     (let (t, ident, hsize, vos, regens, idx, ds) = xs ! i
      in \<lparr>trpid = \<lparr>trt = (if t = 0 then trt_standard else trt_custom), trid = ident\<rparr>,
          trhStart = s + sum_list (map (\<lambda>x. unat (fst (snd (snd x)))) (take i xs)),
          trhSize = ucast hsize, nbVOs = vos, nbRegens = regens, regenDistances = ds, dictIdx = idx\<rparr>)"
proof (induction xs arbitrary: i s)
  case (Cons x xs)
  then show ?case by (cases i) (auto simp: Let_def split: prod.split)
qed simp

lemma length_cut_distances [simp]: "length (cut_distances ns ds) = length ns"
  by (induction ns arbitrary: ds) simp_all

lemma nth_cut_distances:
  "i < length ns \<Longrightarrow> cut_distances ns ds ! i
     = take (unat (ns ! i)) (drop (sum_list (map unat (take i ns))) ds)"
proof (induction ns arbitrary: i ds)
  case (Cons n ns)
  then show ?case by (cases i) (simp_all add: add.commute)
qed simp

section \<open>The parts of a header\<close>

definition counts_bytes :: "nat \<Rightarrow> nat \<Rightarrow> nat \<Rightarrow> byte list" where
  "counts_bytes v n k = (if v < 9 then [word_of_nat n, word_of_nat k]
     else ZL_varintEncode (word_of_nat (n + (if CHUNK_VERSION_MIN \<le> v then 1 else 0)))
       @ ZL_varintEncode (word_of_nat k))"

definition flags_bytes :: "nat \<Rightarrow> ZL_FrameProperties \<Rightarrow> byte list" where
  "flags_bytes v fp = (if v < CHUNK_VERSION_MIN
     then [(if hasContentChecksum fp then 1 else 0) OR (if hasCompressedChecksum fp then 2 else 0)] else [])"

definition regens_of :: "nat \<Rightarrow> GraphInfo \<Rightarrow> nat" where
  "regens_of v gip = (if 16 \<le> v then sum_list (map (\<lambda>n. unat (ucast n :: u32)) (nbTrInputs gip))
     else length (trInfo gip))"

lemma written_parts:
  assumes "writeChunkHeaderV8_internal v fp gip cap = Inr out"
  obtains c1 c2 c3 c4 c5 c6 where
    "out = counts_bytes v (length (trInfo gip)) (length (storedBuffs gip) - 1) @ flags_bytes v fp
       @ compressTrt (map (trt_flag \<circ> trt) (trInfo gip))
       @ compressTrID c1 v (map trid (trInfo gip)) (map (trt_flag \<circ> trt) (trInfo gip))
       @ compressTrHSize c2 (map ucast (trHSizes gip)) @ compressNbVOs c3 (map ucast (gi_nbVOs gip))
       @ (if 16 \<le> v then compressNumInputs c4 (map ucast (nbTrInputs gip)) else [])
       @ (if ZL_MATERIALIZED_DICT_VERSION_MIN \<le> v \<and> hasBundleID fp then compressDictIdxs c5 (dictIdxs gip) else [])
       @ compressStreamDistances c6 (map (\<lambda>d. d - 1) (take (regens_of v gip) (distances gip)))
           (length (storedBuffs gip) - 1)
       @ compressStrSizes (map ucast (tl (storedBuffs gip)))"
  using assms unfolding writeChunkHeaderV8_internal_def Let_def counts_bytes_def [symmetric]
    flags_bytes_def [symmetric] regens_of_def [symmetric]
  by (simp split: if_splits) metis+

lemma written_guards:
  assumes "writeChunkHeaderV8_internal v fp gip cap = Inr out"
  shows "length (trInfo gip) < ZL_runtimeNodeLimit v" "storedBuffs gip \<noteq> []"
    "length (storedBuffs gip) - 1 < ZL_runtimeStreamLimit v" "v < 16 \<Longrightarrow> \<forall>n \<in> set (nbTrInputs gip). n = 1"
proof -
  show "length (trInfo gip) < ZL_runtimeNodeLimit v" and ne: "storedBuffs gip \<noteq> []"
    and "v < 16 \<Longrightarrow> \<forall>n \<in> set (nbTrInputs gip). n = 1"
    using assms unfolding writeChunkHeaderV8_internal_def Let_def
    by (auto simp: list_ex_iff split: if_splits)
  have "length (storedBuffs gip) \<le> 110000"
    using assms unfolding writeChunkHeaderV8_internal_def Let_def
    by (auto simp: computeFHBound_def ZL_runtimeStreamLimit_def split: if_splits)
  with ne have "unat (word_of_nat (length (storedBuffs gip)) - 1 :: size_t) = length (storedBuffs gip) - 1"
    by (cases "storedBuffs gip") (simp_all add: unsigned_of_nat take_bit_eq_mod)
  moreover have "\<not> word_of_nat (ZL_runtimeStreamLimit v) \<le> (word_of_nat (length (storedBuffs gip)) - 1 :: size_t)"
    using assms unfolding writeChunkHeaderV8_internal_def Let_def by (auto split: if_splits)
  ultimately show "length (storedBuffs gip) - 1 < ZL_runtimeStreamLimit v"
    by (auto simp: word_le_nat_alt ZL_runtimeStreamLimit_def split: if_splits)
qed

lemma limits: "ZL_runtimeNodeLimit v \<le> 20000" "ZL_runtimeStreamLimit v \<le> 110000"
  "v < 9 \<Longrightarrow> ZL_runtimeNodeLimit v \<le> 256" "v < 9 \<Longrightarrow> ZL_runtimeStreamLimit v \<le> 256"
  by (simp_all add: ZL_runtimeNodeLimit_def ZL_runtimeStreamLimit_def)

lemma counts_roundtrip:
  assumes "n < ZL_runtimeNodeLimit v" "k < ZL_runtimeStreamLimit v"
  shows "decodeCounts v (counts_bytes v n k @ rest) = Inr ((word_of_nat n, word_of_nat k), rest)"
    "2 \<le> length (counts_bytes v n k)"
proof -
  have "(ucast (word_of_nat j :: byte) :: u64) = word_of_nat j" if "j < 256" for j
    using that by (simp add: word_unat_eq_iff unsigned_ucast_eq unsigned_of_nat take_bit_eq_mod)
  moreover have "word_of_nat (n + 1) \<noteq> (0 :: u64)"
  proof -
    have "unat (word_of_nat (n + 1) :: u64) = n + 1"
      using limits(1) [of v] assms(1) by (simp add: unsigned_of_nat take_bit_eq_mod del: of_nat_add of_nat_Suc)
    then show ?thesis by auto
  qed
  moreover have "word_of_nat (n + 1) - 1 = (word_of_nat n :: u64)" by simp
  ultimately show "decodeCounts v (counts_bytes v n k @ rest) = Inr ((word_of_nat n, word_of_nat k), rest)"
    using assms limits(3,4) [of v]
    by (auto simp: decodeCounts_def counts_bytes_def ZL_varintDecode_encode simp del: of_nat_add of_nat_Suc)
  have "1 \<le> length (ZL_varintEncode x)" for x
    using ZL_varintSize_bounds(1) [of x] by (simp add: length_ZL_varintEncode)
  then show "2 \<le> length (counts_bytes v n k)"
    using add_mono [of 1 "length (ZL_varintEncode x)" 1 "length (ZL_varintEncode y)" for x y]
    by (simp add: counts_bytes_def one_add_one [symmetric] del: one_add_one)
qed

section \<open>The whole header\<close>

definition graph_ok :: "nat \<Rightarrow> GraphInfo \<Rightarrow> bool" where
  "graph_ok v gip \<longleftrightarrow>
     length (trHSizes gip) = length (trInfo gip) \<and> length (gi_nbVOs gip) = length (trInfo gip)
     \<and> length (nbTrInputs gip) = length (trInfo gip) \<and> length (dictIdxs gip) = length (trInfo gip)
     \<and> list_all (\<lambda>i. trt i = trt_standard \<longrightarrow> unat (trid i) < 2 ^ ZL_StandardTransformID_numBits v) (trInfo gip)
     \<and> list_all (\<lambda>h. h < 0xffffffff) (trHSizes gip) \<and> list_all (\<lambda>n. n \<le> 0xffffffff) (gi_nbVOs gip)
     \<and> list_all (\<lambda>n. 1 \<le> n \<and> unat n \<le> ZL_runtimeNodeInputLimit v) (nbTrInputs gip)
     \<and> list_all (\<lambda>i. i = ZL_DICT_INDEX_NONE \<or> i \<le> ZL_MAX_DICTS_PER_BUNDLE) (dictIdxs gip)
     \<and> length (distances gip) = sum_list (map unat (nbTrInputs gip))
     \<and> length (distances gip) \<le> ZL_runtimeStreamLimit ZL_MAX_FORMAT_VERSION
     \<and> list_all (\<lambda>d. 1 \<le> d \<and> unat d \<le> length (distances gip) + (length (storedBuffs gip) - 1)) (distances gip)
     \<and> list_all (\<lambda>s. s < 0xffffffff) (tl (storedBuffs gip))"

definition decoded_chunk :: "nat \<Rightarrow> ZL_FrameProperties \<Rightarrow> GraphInfo \<Rightarrow> DFH_Struct \<Rightarrow> DFH_Struct" where
  "decoded_chunk v fp gip dfh =
     dfh\<lparr>frameinfo := (if v < CHUNK_VERSION_MIN then map_option (\<lambda>fi. fi\<lparr>properties := (properties fi)
           \<lparr>hasContentChecksum := hasContentChecksum fp, hasCompressedChecksum := hasCompressedChecksum fp\<rparr>\<rparr>)
           (frameinfo dfh) else frameinfo dfh),
         nodes := map (chunk_node v fp gip) [0..<length (trInfo gip)],
         storedStreamSizes := tl (storedBuffs gip), dfh_regenDistances := map (\<lambda>d. d - 1) (distances gip),
         totalTHSize := sum_list (map unat (trHSizes gip))\<rparr>"

lemma numBits: "ZL_StandardTransformID_numBits v = (if v < 24 then 6 else 7)"
proof -
  have "ZL_nextPow2 64 = 6" "ZL_nextPow2 128 = 7" by code_simp+
  then show ?thesis by (simp add: ZL_StandardTransformID_numBits_def)
qed

lemma flags_roundtrip:
  "decodeFlags v dfh (flags_bytes v fp @ rest) = Inr (dfh\<lparr>frameinfo := (if v < CHUNK_VERSION_MIN
     then map_option (\<lambda>fi. fi\<lparr>properties := (properties fi)
       \<lparr>hasContentChecksum := hasContentChecksum fp, hasCompressedChecksum := hasCompressedChecksum fp\<rparr>\<rparr>)
       (frameinfo dfh) else frameinfo dfh)\<rparr>, rest)"
  by (simp add: decodeFlags_def flags_bytes_def)

lemma trt_roundtrip:
  "n = length ts \<Longrightarrow> decompressTrt n (compressTrt (map (trt_flag \<circ> trt) ts) @ rest)
     = Inr (map (trt_flag \<circ> trt) ts, rest)"
  using checked_decode8 [of 1 "map (trt_flag \<circ> trt) ts" rest]
  by (simp add: decompressTrt_def compressTrt_def trt_flag_def split: TransformType_e.split)

lemma distance_widths:
  assumes "\<forall>d \<in> set ds. 1 \<le> d \<and> unat d \<le> length ds + k" "length ds + k < 2 ^ 32"
  shows "ZL_nextPow2 (word_of_nat (length ds + k)) \<le> 32"
    "\<forall>d \<in> set (map (\<lambda>d. d - 1) ds :: u32 list). unat d < 2 ^ ZL_nextPow2 (word_of_nat (length ds + k))"
proof -
  let ?w = "word_of_nat (length ds + k) :: u64"
  have u: "unat ?w = length ds + k" using assms(2) by (simp add: unsigned_of_nat take_bit_eq_mod del: of_nat_add)
  have "unat (d - 1) < length ds + k" if "d \<in> set ds" for d
    using that assms(1) by (auto simp: unat_sub word_le_nat_alt Suc_le_eq dest!: bspec [of _ _ d])
  then show "\<forall>d \<in> set (map (\<lambda>d. d - 1) ds). unat d < 2 ^ ZL_nextPow2 ?w"
    using nextPow2_fits [of _ ?w] by (simp add: u del: of_nat_add)
  show "ZL_nextPow2 ?w \<le> 32" by (rule nextPow2_le) (use assms(2) u in simp)
qed

lemma distances_roundtrip:
  assumes "\<forall>d \<in> set ds. 1 \<le> d \<and> unat d \<le> length ds + k" "length ds + k < 2 ^ 32" "n = length ds"
  shows "decompress_regenStreamID_distances n k (compressStreamDistances cap (map (\<lambda>d. d - 1) ds) k @ rest)
     = Inr (map (\<lambda>d. d - 1) ds, rest)"
  using checked_decode32 [OF distance_widths [OF assms(1,2)]] assms(3)
  by (simp add: decompress_regenStreamID_distances_def compressStreamDistances_def del: of_nat_add)

lemma unat_ucast_down: "unat (x :: u64) < 2 ^ 32 \<Longrightarrow> unat (ucast x :: u32) = unat x"
  by (simp add: unsigned_ucast_eq take_bit_eq_mod)

lemma map_unat_ucast_down:
  "\<forall>x \<in> set xs. unat (x :: u64) < 2 ^ 32 \<Longrightarrow> map unat (map ucast xs :: u32 list) = map unat xs"
  by (simp add: unat_ucast_down)

lemma map_third:
  "length a = length c \<Longrightarrow> length b = length c \<Longrightarrow> length d = length c \<Longrightarrow>
   map (\<lambda>x. fst (snd (snd x))) (zip a (zip b (zip c d))) = c"
  by (rule nth_equalityI) simp_all

lemma nodes_decoded:
  assumes ok: "graph_ok v gip"
    and idxs: "idxs = (if ZL_MATERIALIZED_DICT_VERSION_MIN \<le> v \<and> hasBundleID fp then dictIdxs gip
        else replicate (length (trInfo gip)) ZL_DICT_INDEX_NONE)"
  shows "make_nodes 0 (zip (map (trt_flag \<circ> trt) (trInfo gip)) (zip (map trid (trInfo gip))
      (zip (map ucast (trHSizes gip)) (zip (map ucast (gi_nbVOs gip)) (zip (map ucast (nbTrInputs gip))
      (zip idxs (cut_distances (map ucast (nbTrInputs gip)) (map (\<lambda>d. d - 1) (distances gip)))))))))
    = map (chunk_node v fp gip) [0..<length (trInfo gip)]" (is "make_nodes 0 ?xs = _")
proof (rule nth_equalityI)
  have l: "length (trHSizes gip) = length (trInfo gip)" "length (gi_nbVOs gip) = length (trInfo gip)"
    "length (nbTrInputs gip) = length (trInfo gip)" "length idxs = length (trInfo gip)"
    using ok idxs by (simp_all add: graph_ok_def)
  have h: "\<forall>x \<in> set (trHSizes gip). unat x < 2 ^ 32" "\<forall>x \<in> set (nbTrInputs gip). unat x < 2 ^ 32"
    using ok by (auto simp: graph_ok_def list_all_iff word_less_nat_alt ZL_runtimeNodeInputLimit_def
        ZL_runtimeInputLimit_def split: if_splits)
  show "length (make_nodes 0 ?xs) = length (map (chunk_node v fp gip) [0..<length (trInfo gip)])"
    by (simp add: l)
  fix i assume "i < length (make_nodes 0 ?xs)"
  then have i: "i < length (trInfo gip)" by (simp add: l)
  have xs: "i < length ?xs" using i by (simp add: l)
  have "sum_list (map (\<lambda>x. unat (fst (snd (snd x)))) (take i ?xs))
      = sum_list (map unat (take i (map (\<lambda>x. fst (snd (snd x))) ?xs)))"
    by (simp add: take_map o_def)
  also have "map (\<lambda>x. fst (snd (snd x))) ?xs = map ucast (trHSizes gip)"
    by (rule map_third) (simp_all add: l)
  also have "map unat (take i (map ucast (trHSizes gip) :: u32 list)) = map unat (take i (trHSizes gip))"
    by (simp only: take_map [symmetric] map_unat_ucast_down [OF h(1)])
  finally have start: "sum_list (map (\<lambda>x. unat (fst (snd (snd x)))) (take i ?xs)) = sum_list (map unat (take i (trHSizes gip)))" .
  have "map unat (take i (map ucast (nbTrInputs gip) :: u32 list)) = map unat (take i (nbTrInputs gip))"
    by (simp only: take_map [symmetric] map_unat_ucast_down [OF h(2)])
  note nin = arg_cong [OF this, of sum_list]
  have cut: "cut_distances (map ucast (nbTrInputs gip)) (map (\<lambda>d. d - 1) (distances gip)) ! i
      = map (\<lambda>d. d - 1) (take (unat (nbTrInputs gip ! i))
        (drop (sum_list (map unat (take i (nbTrInputs gip)))) (distances gip)))"
    using i h(2) by (simp add: nth_cut_distances l unat_ucast_down take_map [of _ "\<lambda>d. d - 1"] drop_map nin del: map_map)
  have "\<lparr>trt = (if trt_flag (trt t) = 0 then trt_standard else trt_custom), trid = trid t\<rparr> = t" for t
    by (cases t; cases "trt t") (simp_all add: trt_flag_def)
  moreover have "ucast (ucast (trHSizes gip ! i) :: u32) = trHSizes gip ! i"
    using h(1) i by (simp add: ucast_u64_u32 l)
  moreover have "idxs ! i = (if ZL_MATERIALIZED_DICT_VERSION_MIN \<le> v \<and> hasBundleID fp then dictIdxs gip ! i
      else ZL_DICT_INDEX_NONE)" using i by (simp add: idxs)
  ultimately show "make_nodes 0 ?xs ! i = map (chunk_node v fp gip) [0..<length (trInfo gip)] ! i"
    using i nth_make_nodes [OF xs, of 0] by (simp add: start cut l chunk_node_def)
qed

lemma regens_total:
  assumes "graph_ok v gip" "v < 16 \<Longrightarrow> \<forall>n \<in> set (nbTrInputs gip). n = 1"
  shows "regens_of v gip = length (distances gip)"
    "v < 16 \<Longrightarrow> map ucast (nbTrInputs gip) = (replicate (length (trInfo gip)) 1 :: u32 list)"
    "sum_list (map unat (map ucast (nbTrInputs gip) :: u32 list)) = length (distances gip)"
proof -
  have "\<forall>x \<in> set (nbTrInputs gip). unat x < 2 ^ 32"
    using assms(1) by (auto simp: graph_ok_def list_all_iff ZL_runtimeNodeInputLimit_def
        ZL_runtimeInputLimit_def split: if_splits)
  from map_unat_ucast_down [OF this] assms(1)
  show s: "sum_list (map unat (map ucast (nbTrInputs gip) :: u32 list)) = length (distances gip)"
    by (simp add: graph_ok_def del: map_map)
  have "nbTrInputs gip = replicate (length (trInfo gip)) 1" if "v < 16"
    using assms(1) assms(2) [OF that] replicate_length_same [of "nbTrInputs gip" 1] by (simp add: graph_ok_def)
  then show r: "v < 16 \<Longrightarrow> map ucast (nbTrInputs gip) = (replicate (length (trInfo gip)) 1 :: u32 list)" by simp
  show "regens_of v gip = length (distances gip)"
    using s r by (cases "v < 16") (simp_all add: regens_of_def o_def sum_list_replicate)
qed

lemma graph_okD:
  assumes "graph_ok v gip"
  shows "length (trHSizes gip) = length (trInfo gip)" "length (gi_nbVOs gip) = length (trInfo gip)"
    "length (nbTrInputs gip) = length (trInfo gip)" "length (dictIdxs gip) = length (trInfo gip)"
    "\<forall>i \<in> set (trInfo gip). trt i = trt_standard \<longrightarrow> unat (trid i) < 2 ^ ZL_StandardTransformID_numBits v"
    "\<forall>h \<in> set (trHSizes gip). unat h < 0xffffffff"
    "\<forall>n \<in> set (nbTrInputs gip). 1 \<le> unat n \<and> unat n \<le> ZL_runtimeNodeInputLimit v"
    "\<forall>i \<in> set (dictIdxs gip). i = ZL_DICT_INDEX_NONE \<or> i \<le> ZL_MAX_DICTS_PER_BUNDLE"
    "length (distances gip) \<le> 110000"
    "\<forall>d \<in> set (distances gip). 1 \<le> d \<and> unat d \<le> length (distances gip) + (length (storedBuffs gip) - 1)"
    "\<forall>s \<in> set (tl (storedBuffs gip)). s < 0xffffffff"
  using assms unfolding graph_ok_def list_all_iff
  by (auto simp: word_less_nat_alt word_le_nat_alt ZL_runtimeStreamLimit_def)

lemma graph_flags: "set (map (trt_flag \<circ> trt) ts) \<subseteq> {0, 1}" "trt_flag t = 0 \<longleftrightarrow> t = trt_standard"
  by (auto simp: trt_flag_def split: TransformType_e.split)

lemma graph_ids:
  assumes "graph_ok v gip"
  shows "decompressTrID v (map (trt_flag \<circ> trt) (trInfo gip))
      (compressTrID cap v (map trid (trInfo gip)) (map (trt_flag \<circ> trt) (trInfo gip)) @ rest)
    = Inr (map trid (trInfo gip), rest)"
    "\<not> list_ex (\<lambda>(t, i). t = 0 \<and> ZL_StandardTransformID_end \<le> i)
      (zip (map (trt_flag \<circ> trt) (trInfo gip)) (map trid (trInfo gip)))"
proof -
  note ok = graph_okD(5) [OF assms]
  show "decompressTrID v (map (trt_flag \<circ> trt) (trInfo gip))
      (compressTrID cap v (map trid (trInfo gip)) (map (trt_flag \<circ> trt) (trInfo gip)) @ rest)
    = Inr (map trid (trInfo gip), rest)"
    by (rule trID_roundtrip [OF _ graph_flags(1)])
      (use ok in \<open>auto simp: numBits zip_map_map zip_same_conv_map graph_flags(2)\<close>)
  have "unat (trid i) < 128" if "i \<in> set (trInfo gip)" "trt i = trt_standard" for i
    using that ok by (auto simp: numBits split: if_splits dest: bspec)
  then show "\<not> list_ex (\<lambda>(t, i). t = 0 \<and> ZL_StandardTransformID_end \<le> i)
      (zip (map (trt_flag \<circ> trt) (trInfo gip)) (map trid (trInfo gip)))"
    by (auto simp: list_ex_iff zip_map_map zip_same_conv_map graph_flags(2) word_le_nat_alt not_le)
qed

lemma graph_header_sizes:
  assumes "graph_ok v gip"
  shows "decompressTrHSize (length (trInfo gip)) (compressTrHSize cap (map ucast (trHSizes gip)) @ rest)
    = Inr (map ucast (trHSizes gip), rest)"
    "sum_list (map unat (map ucast (trHSizes gip) :: u32 list)) = sum_list (map unat (trHSizes gip))"
proof -
  have small: "\<forall>h \<in> set (trHSizes gip). unat h < 2 ^ 32" using graph_okD(6) [OF assms] by auto
  have "\<forall>h \<in> set (map ucast (trHSizes gip) :: u32 list). h < 0xffffffff"
    using small graph_okD(6) [OF assms] by (auto simp: word_less_nat_alt unat_ucast_down)
  from trhSizes_pushed [OF this] show "decompressTrHSize (length (trInfo gip))
      (compressTrHSize cap (map ucast (trHSizes gip)) @ rest) = Inr (map ucast (trHSizes gip), rest)"
    by (simp add: decompressTrHSize_def compressTrHSize_def checked_flags graph_okD(1) [OF assms] del: map_map One_nat_def)
  from map_unat_ucast_down [OF small]
  show "sum_list (map unat (map ucast (trHSizes gip) :: u32 list)) = sum_list (map unat (trHSizes gip))"
    by (simp only: simp_thms)
qed

lemma graph_vos:
  "graph_ok v gip \<Longrightarrow> decompressNbVOs (length (trInfo gip)) (compressNbVOs cap (map ucast (gi_nbVOs gip)) @ rest)
     = Inr (map ucast (gi_nbVOs gip), rest)"
  using nbVOs_pushed [of "map ucast (gi_nbVOs gip)"]
  by (simp add: decompressNbVOs_def compressNbVOs_def checked_flags graph_okD(2) del: map_map One_nat_def)

lemma graph_inputs:
  fixes cap :: nat
  assumes "graph_ok v gip" "v < 16 \<Longrightarrow> map ucast (nbTrInputs gip) = (replicate (length (trInfo gip)) 1 :: u32 list)"
  defines "part \<equiv> if 16 \<le> v then compressNumInputs cap (map ucast (nbTrInputs gip)) else []"
  shows "(if 16 \<le> v then decompressNbRegens v (length (trInfo gip)) (part @ rest)
      else Inr (replicate (length (trInfo gip)) 1, part @ rest)) = Inr (map ucast (nbTrInputs gip), rest)"
proof (cases "16 \<le> v")
  case True
  have "unat n < 2 ^ 32" if "n \<in> set (nbTrInputs gip)" for n
    using that graph_okD(7) [OF assms(1)]
    by (auto simp: ZL_runtimeNodeInputLimit_def ZL_runtimeInputLimit_def split: if_splits dest!: bspec)
  then have "\<forall>n \<in> set (map ucast (nbTrInputs gip) :: u32 list). 0 < n \<and> unat n \<le> ZL_runtimeNodeInputLimit v"
    using graph_okD(7) [OF assms(1)] by (auto simp: word_less_nat_alt unat_ucast_down Suc_le_eq)
  from nbRegens_pushed [OF this] show ?thesis
    using True by (simp add: part_def decompressNbRegens_def compressNumInputs_def checked_flags
        graph_okD(3) [OF assms(1)] del: map_map One_nat_def)
qed (use assms(2) in \<open>simp add: part_def\<close>)

lemma graph_dicts:
  fixes cap :: nat
  assumes "graph_ok v gip" "ZL_MATERIALIZED_DICT_VERSION_MIN \<le> v \<Longrightarrow> hasBundleDecl dfh = hasBundleID fp"
  defines "part \<equiv> if ZL_MATERIALIZED_DICT_VERSION_MIN \<le> v \<and> hasBundleID fp then compressDictIdxs cap (dictIdxs gip) else []"
  shows "(if ZL_MATERIALIZED_DICT_VERSION_MIN \<le> v \<and> hasBundleDecl dfh then decompressDictIdxs (length (trInfo gip)) (part @ rest)
      else Inr (replicate (length (trInfo gip)) ZL_DICT_INDEX_NONE, part @ rest))
    = Inr (if ZL_MATERIALIZED_DICT_VERSION_MIN \<le> v \<and> hasBundleID fp then dictIdxs gip
        else replicate (length (trInfo gip)) ZL_DICT_INDEX_NONE, rest)"
  using dictIdxs_roundtrip [OF graph_okD(8) [OF assms(1)] graph_okD(4) [OF assms(1), symmetric], of cap rest] assms(2)
  by (auto simp: part_def)

lemma graph_stored:
  assumes "graph_ok v gip"
  shows "decompressStrSizes (length (storedBuffs gip) - 1)
    (compressStrSizes (map ucast (tl (storedBuffs gip))) @ rest) = Inr (tl (storedBuffs gip), rest)"
  using strSizes_pushed [OF graph_okD(11) [OF assms], of rest]
    length_push_varints [of "map ucast (tl (storedBuffs gip))"]
  by (simp add: decompressStrSizes_def compressStrSizes_def)

lemma graph_distances:
  assumes "graph_ok v gip" "length (storedBuffs gip) - 1 < ZL_runtimeStreamLimit v"
  shows "decompress_regenStreamID_distances (length (distances gip)) (length (storedBuffs gip) - 1)
      (compressStreamDistances cap (map (\<lambda>d. d - 1) (distances gip)) (length (storedBuffs gip) - 1) @ rest)
    = Inr (map (\<lambda>d. d - 1) (distances gip), rest)"
  by (rule distances_roundtrip [OF graph_okD(10) [OF assms(1)]])
    (use graph_okD(9) [OF assms(1)] assms(2) limits(2) [of v] in simp_all)

lemma chunk_header_decodes:
  assumes "graph_ok v gip" "dfh_formatVersion dfh = v"
    "ZL_MATERIALIZED_DICT_VERSION_MIN \<le> v \<longrightarrow> hasBundleDecl dfh = hasBundleID fp"
    "writeChunkHeaderV8_internal v fp gip cap = Inr out"
  shows "decodeChunkHeader_internal (\<lambda>_. True) dfh (out @ rest) = Inr (decoded_chunk v fp gip dfh, length out)"
proof -
  let ?n = "length (trInfo gip)" and ?k = "length (storedBuffs gip) - 1"
  let ?trts = "map (trt_flag \<circ> trt) (trInfo gip)" and ?ids = "map trid (trInfo gip)"
  let ?hs = "map ucast (trHSizes gip) :: u32 list" and ?vos = "map ucast (gi_nbVOs gip) :: u32 list"
  let ?ins = "map ucast (nbTrInputs gip) :: u32 list" and ?ds = "map (\<lambda>d. d - 1) (distances gip)"
  define dfh' where "dfh' = dfh\<lparr>frameinfo := (if v < CHUNK_VERSION_MIN
     then map_option (\<lambda>fi. fi\<lparr>properties := (properties fi)
       \<lparr>hasContentChecksum := hasContentChecksum fp, hasCompressedChecksum := hasCompressedChecksum fp\<rparr>\<rparr>)
       (frameinfo dfh) else frameinfo dfh)\<rparr>"
  define idxs where "idxs = (if ZL_MATERIALIZED_DICT_VERSION_MIN \<le> v \<and> hasBundleID fp then dictIdxs gip
        else replicate ?n ZL_DICT_INDEX_NONE)"
  note g = written_guards [OF assms(4)]
  note tot = regens_total [OF assms(1) g(4)]
  obtain c1 c2 c3 c4 c5 c6 where out: "out = counts_bytes v ?n ?k @ flags_bytes v fp @ compressTrt ?trts
       @ compressTrID c1 v ?ids ?trts @ compressTrHSize c2 ?hs @ compressNbVOs c3 ?vos
       @ (if 16 \<le> v then compressNumInputs c4 ?ins else [])
       @ (if ZL_MATERIALIZED_DICT_VERSION_MIN \<le> v \<and> hasBundleID fp then compressDictIdxs c5 (dictIdxs gip) else [])
       @ compressStreamDistances c6 ?ds ?k @ compressStrSizes (map ucast (tl (storedBuffs gip)))"
    by (rule written_parts [OF assms(4)]) (rule that, simp only: tot(1) take_all order.refl)
  have n: "unat (word_of_nat ?n :: u64) = ?n" "unat (word_of_nat ?k :: u64) = ?k"
    using g(1,3) limits [of v] by (simp_all add: unsigned_of_nat take_bit_eq_mod)
  have lim: "\<not> word_of_nat (ZL_runtimeNodeLimit v) \<le> (word_of_nat ?n :: u64)"
    "\<not> word_of_nat (ZL_runtimeStreamLimit v) \<le> (word_of_nat ?k :: u64)"
    using g(1,3) limits [of v] n by (simp_all add: word_le_nat_alt unsigned_of_nat take_bit_eq_mod)
  have two: "\<not> length (out @ rest) < 2" using counts_roundtrip(2) [OF g(1,3)] by (simp add: out)
  have "ZL_MATERIALIZED_DICT_VERSION_MIN \<le> v \<Longrightarrow> hasBundleDecl dfh' = hasBundleID fp"
    using assms(3) by (simp add: dfh'_def hasBundleDecl_def)
  note dicts = graph_dicts [OF assms(1) this, folded idxs_def]
  have streams: "length (distances gip) \<le> ZL_runtimeStreamLimit ZL_MAX_FORMAT_VERSION"
    using graph_okD(9) [OF assms(1)] by (simp add: ZL_runtimeStreamLimit_def)
  have chunk: "dfh'\<lparr>nodes := make_nodes 0 (zip ?trts (zip ?ids (zip ?hs (zip ?vos (zip ?ins
        (zip idxs (cut_distances ?ins ?ds)))))))
      , storedStreamSizes := tl (storedBuffs gip), dfh_regenDistances := ?ds,
        totalTHSize := sum_list (map unat ?hs)\<rparr> = decoded_chunk v fp gip dfh"
    unfolding nodes_decoded [OF assms(1) idxs_def] graph_header_sizes(2) [OF assms(1)] dfh'_def decoded_chunk_def
    by simp
  show ?thesis
    unfolding decodeChunkHeader_internal_def assms(2) Let_def if_not_P [OF two]
    by (simp only: out append_assoc counts_roundtrip(1) [OF g(1,3)] res_bind_simps split_conv lim if_False simp_thms n
        flags_roundtrip dfh'_def [symmetric] trt_roundtrip graph_ids [OF assms(1)] graph_header_sizes(1) [OF assms(1)]
        graph_vos [OF assms(1)] graph_inputs [OF assms(1) tot(2)] dicts tot(3) streams
        graph_distances [OF assms(1) g(3)] graph_stored [OF assms(1)] chunk)
      (simp add: out)
qed

lemma EFH_writeChunkHeader_internal:
  assumes "EFH_writeChunkHeader alloc v fp gip cap = Inr out"
  shows "\<exists>cap'. writeChunkHeaderV8_internal v fp gip cap' = Inr out"
  using assms unfolding EFH_writeChunkHeader_def by (auto split: if_splits)

definition example_graph :: GraphInfo where
  "example_graph = \<lparr>nbSessionInputs = 1,
     trInfo = [\<lparr>trt = trt_standard, trid = 12\<rparr>, \<lparr>trt = trt_custom, trid = 70000\<rparr>, \<lparr>trt = trt_standard, trid = 3\<rparr>],
     trHSizes = [0, 300, 5], gi_nbVOs = [0, 2, 0], nbTrInputs = [1, 3, 1], dictIdxs = [- 1, 9, 0],
     distances = [1, 2, 5, 3, 1], storedBuffs = [305, 1000, 20, 0]\<rparr>"

definition example_props :: ZL_FrameProperties where
  "example_props = \<lparr>hasContentChecksum = True, hasCompressedChecksum = True, hasComment = False, hasBundleID = True\<rparr>"

definition example_dfh :: DFH_Struct where
  "example_dfh = \<lparr>dfh_formatVersion = 27,
     frameinfo = Some \<lparr>fi_formatVersion = 27, properties = example_props, fi_types = [ZL_Type_serial],
       decompressedSizes = [1025], fi_numElts = [1025], frameHeaderSize = 12, fi_comment = [], fi_bundleID = []\<rparr>,
     nodes = [], storedStreamSizes = [], dfh_regenDistances = [], totalTHSize = 0\<rparr>"

lemma computeFHBound_positive:
  "n \<le> 2048 \<Longrightarrow> t \<le> 20000 \<Longrightarrow> k \<le> 110000 \<Longrightarrow> computeFHBound n t k d
     = Inr (4 + n * 21 + ZL_varintSize (word_of_nat t) + ZL_varintSize (word_of_nat k - 1) + k * 4 + t * 22 + d * 4
         + 4 + 4 + (t + 7) div 8 + 1 + t * 3)"
  by (simp add: computeFHBound_def ZL_runtimeNodeLimit_def ZL_runtimeStreamLimit_def)

lemma chunk_header_written:
  assumes "nbSessionInputs gip \<le> 2048" "length (trInfo gip) < 20000" "storedBuffs gip \<noteq> []"
    "length (storedBuffs gip) \<le> 110000" "20 \<le> v"
    "computeFHBound (nbSessionInputs gip) (length (trInfo gip)) (length (storedBuffs gip)) (length (distances gip))
      = Inr bound" "bound \<le> cap"
  shows "\<exists>out. EFH_writeChunkHeader (\<lambda>_. True) v fp gip cap = Inr out
    \<and> writeChunkHeaderV8_internal v fp gip cap = Inr out"
proof -
  have "unat (word_of_nat (length (storedBuffs gip)) - 1 :: size_t) = length (storedBuffs gip) - 1"
    using assms(3,4) by (cases "storedBuffs gip") (simp_all add: unsigned_of_nat take_bit_eq_mod)
  then have "\<not> word_of_nat (ZL_runtimeStreamLimit v) \<le> (word_of_nat (length (storedBuffs gip)) - 1 :: size_t)"
    using assms(3-5) by (cases "storedBuffs gip")
      (auto simp: word_le_nat_alt ZL_runtimeStreamLimit_def unsigned_of_nat take_bit_eq_mod)
  then show ?thesis
    using assms by (simp add: EFH_writeChunkHeader_def writeChunkHeaderV8_internal_def Let_def
        ZL_runtimeNodeLimit_def not_le)
qed

lemma example_graph_bound:
  "computeFHBound (nbSessionInputs example_graph) (length (trInfo example_graph))
     (length (storedBuffs example_graph)) (length (distances example_graph)) = Inr 148"
proof -
  have "ZL_varintSize 3 = 1" by code_simp
  then show ?thesis by (simp add: example_graph_def computeFHBound_positive)
qed

lemma example_graph_ok: "graph_ok 27 example_graph"
  by (simp add: graph_ok_def example_graph_def numBits ZL_runtimeNodeInputLimit_def ZL_runtimeInputLimit_def
      ZL_runtimeStreamLimit_def)

lemma example_graph_written:
  "148 \<le> cap \<Longrightarrow> \<exists>out. EFH_writeChunkHeader (\<lambda>_. True) 27 example_props example_graph cap = Inr out"
  using chunk_header_written [OF _ _ _ _ _ example_graph_bound, of 27 cap example_props]
  by (auto simp: example_graph_def)

text \<open>
  C29: chunk headers round trip. The graph the encoder describes (codecs, their header sizes, the numbers of
  their outputs and inputs, dictionaries, distances between streams and sizes of the stored streams)
  is the one the decoder reads from the bytes written, whatever follows them, for every format
  version; the nodes get their parts of the codec headers and of the distances, and the decoder
  consumes exactly the bytes written.
\<close>

theorem chunk_header_roundtrip:
  assumes "graph_ok v gip" "dfh_formatVersion dfh = v"
    "ZL_MATERIALIZED_DICT_VERSION_MIN \<le> v \<longrightarrow> hasBundleDecl dfh = hasBundleID fp"
    "EFH_writeChunkHeader alloc v fp gip cap = Inr out"
  shows "decodeChunkHeader_internal (\<lambda>_. True) dfh (out @ rest) = Inr (decoded_chunk v fp gip dfh, length out)"
  using EFH_writeChunkHeader_internal [OF assms(4)] chunk_header_decodes assms(1-3) by blast

theorem chunk_header_roundtrip_witness:
  "\<exists>out. EFH_writeChunkHeader (\<lambda>_. True) 27 example_props example_graph 500 = Inr out
     \<and> decodeChunkHeader_internal (\<lambda>_. True) example_dfh (out @ [9])
       = Inr (decoded_chunk 27 example_props example_graph example_dfh, length out)"
proof -
  obtain out where "EFH_writeChunkHeader (\<lambda>_. True) 27 example_props example_graph 500 = Inr out"
    using example_graph_written [of 500] by auto
  moreover have "dfh_formatVersion example_dfh = 27" "hasBundleDecl example_dfh = hasBundleID example_props"
    by (simp_all add: example_dfh_def hasBundleDecl_def)
  ultimately show ?thesis
    using chunk_header_roundtrip [OF example_graph_ok, of example_dfh example_props "\<lambda>_. True" 500 out "[9]"] by blast
qed

end
