(* ===== verification/Chunk_Bounds.thy ===== *)
theory Chunk_Bounds
  imports Chunk_Roundtrip
begin

text \<open>
  The size of a chunk header against the bound the encoder computes for its buffer: the bound is
  enough as long as every stored stream is shorter than 2^28 bytes, and not in general.
\<close>

section \<open>The size of the tables\<close>

lemma varintSize_le:
  assumes "unat v < 2 ^ (7 * n)" "0 < n"
  shows "ZL_varintSize v \<le> n"
proof -
  have "top_bit v < 7 * n"
  proof (cases "top_bit v = 0")
    case False
    then have "bit v (top_bit v)" using top_bit(1) [of v] by (auto simp: bit_simps)
    moreover have "take_bit (7 * n) v = v" using assms(1) by (rule take_bit_fits)
    ultimately show ?thesis by (metis bit_take_bit_iff)
  qed (use assms(2) in simp)
  then show ?thesis by (simp add: ZL_varintSize_top_bit Suc_le_eq less_mult_imp_div_less mult.commute)
qed

lemma push_varints_le:
  assumes "\<forall>v \<in> set vs. unat v < 2 ^ (7 * n)" "0 < n"
  shows "length (push_varints vs) \<le> n * length vs"
  using assms(1)
proof (induction vs)
  case (Cons v vs)
  have "length (ZL_varintEncode (ucast v)) \<le> n"
    using Cons.prems assms(2) by (simp add: length_ZL_varintEncode varintSize_le)
  with Cons show ?case by simp
qed simp

lemma push_varints_le_5: "length (push_varints vs) \<le> 5 * length vs"
proof (rule push_varints_le)
  have "unat v < 2 ^ (7 * 5)" for v :: u32 by (rule less_trans [OF u32_less]) simp
  then show "\<forall>v \<in> set vs. unat v < 2 ^ (7 * 5)" by blast
qed simp

lemma length_flags: "length (ZS_bitpackEncode32 cap (map (\<lambda>x. if P x then 1 else 0) xs) 1) = (length xs + 7) div 8"
  using bitpack32_roundtrip(2) [of 1 "map (\<lambda>x. if P x then 1 else 0) xs" cap] by (simp add: ball_Un)

lemma packed_le: "b \<le> 8 * k \<Longrightarrow> (n * b + 7) div 8 \<le> k * n" for n b k :: nat
proof -
  assume "b \<le> 8 * k"
  then have "n * b \<le> n * (8 * k)" by (rule mult_le_mono2)
  then have "n * b + 7 \<le> 7 + k * n * 8" by (simp add: ac_simps)
  then have "(n * b + 7) div 8 \<le> (7 + k * n * 8) div 8" by (rule div_le_mono)
  then show ?thesis by simp
qed

lemma trt_length: "length (compressTrt (map (trt_flag \<circ> trt) ts)) = (length ts + 7) div 8"
  using bitpack8_roundtrip(2) [of 1 "map (trt_flag \<circ> trt) ts"]
  by (simp add: compressTrt_def trt_flag_def split: TransformType_e.split)

lemma sel_lengths: "length xs = length fs \<Longrightarrow> length (sel 0 xs fs) + length (sel 1 xs fs) \<le> length xs"
  by (induction xs fs rule: list_induct2) auto

lemma trID_length:
  assumes "graph_ok v gip"
  shows "length (compressTrID c v (map trid (trInfo gip)) (map (trt_flag \<circ> trt) (trInfo gip)))
    \<le> 5 * length (trInfo gip)"
proof (cases "trInfo gip = []")
  case False
  let ?ids = "map trid (trInfo gip)" and ?fs = "map (trt_flag \<circ> trt) (trInfo gip)"
  have "\<forall>i \<in> set (sel 0 ?ids ?fs). unat i < 2 ^ ZL_StandardTransformID_numBits v"
    using graph_okD(5) [OF assms] by (auto simp: sel_def zip_map_map zip_same_conv_map graph_flags(2))
  from bitpack32_roundtrip(2) [OF _ this, of c]
  have "length (ZS_bitpackEncode32 c (sel 0 ?ids ?fs) (ZL_StandardTransformID_numBits v)) \<le> 2 * length (sel 0 ?ids ?fs)"
    by (cases "length (sel 0 ?ids ?fs)") (auto simp: numBits)
  moreover have "length (sel 0 ?ids ?fs) + length (sel 1 ?ids ?fs) \<le> length ?ids" by (rule sel_lengths) simp
  ultimately show ?thesis
    using False push_varints_le_5 [of "sel 1 ?ids ?fs"]
    by (simp add: compressTrID_def dispatch_encode [OF _ graph_flags(1)])
qed (simp add: compressTrID_def)

lemma counted_length:
  "length (ZS_bitpackEncode32 c (map (\<lambda>x. if P x then 1 else 0) xs) 1 @ push_varints (map f (filter P xs)))
    \<le> (length xs + 7) div 8 + 5 * length xs"
proof -
  have "length (push_varints (map f (filter P xs))) \<le> 5 * length xs"
    using push_varints_le_5 [of "map f (filter P xs)"] length_filter_le [of P xs] unfolding length_map by linarith
  then show ?thesis by (simp add: length_flags del: One_nat_def)
qed

lemma dict_length:
  assumes "\<forall>i \<in> set idxs. i = ZL_DICT_INDEX_NONE \<or> i \<le> ZL_MAX_DICTS_PER_BUNDLE"
  shows "length (compressDictIdxs c idxs) \<le> (length idxs + 7) div 8 + 1 + 2 * length idxs"
proof -
  define vals where "vals = filter (\<lambda>i. i \<noteq> ZL_DICT_INDEX_NONE) idxs"
  have l: "length vals \<le> length idxs" by (simp add: vals_def)
  note b = dict_widths [OF assms, folded vals_def]
  have "length (ZS_bitpackEncode32 c' vals (ZL_nextPow2 (ucast (max_u32 vals + 1)))) \<le> 2 * length vals" for c'
    using bitpack32_roundtrip(2) [OF _ b(2)] b(1) packed_le [of "ZL_nextPow2 (ucast (max_u32 vals + 1))" 2 "length vals"] by simp
  note order.trans [OF this mult_le_mono2 [OF l]]
  then show ?thesis
    by (simp add: compressDictIdxs_def vals_def [symmetric] length_flags Let_def del: One_nat_def)
qed

lemma distances_length:
  assumes "graph_ok v gip" "length (storedBuffs gip) - 1 < ZL_runtimeStreamLimit v"
  shows "length (compressStreamDistances c (map (\<lambda>d. d - 1) (distances gip)) (length (storedBuffs gip) - 1))
    \<le> 4 * length (distances gip)"
proof -
  let ?k = "length (storedBuffs gip) - 1"
  have "length (distances gip) + ?k < 2 ^ 32" using graph_okD(9) [OF assms(1)] assms(2) limits(2) [of v] by simp
  note w = distance_widths [OF graph_okD(10) [OF assms(1)] this]
  show ?thesis
    using bitpack32_roundtrip(2) [OF w] packed_le [of _ 4 "length (distances gip)"] w(1)
    by (simp add: compressStreamDistances_def del: of_nat_add)
qed

lemma sizes_length:
  assumes "\<forall>s \<in> set ss. unat (s :: size_t) < 2 ^ 28"
  shows "length (compressStrSizes (map ucast ss)) \<le> 4 * length ss"
proof -
  have "\<forall>s \<in> set (map ucast ss :: u32 list). unat s < 2 ^ (7 * 4)"
    using assms by (auto intro!: unat_ucast_fits simp del: power_numeral)
  from push_varints_le [OF this] show ?thesis by (simp add: compressStrSizes_def)
qed

lemma counts_length:
  assumes "n < ZL_runtimeNodeLimit v" "0 < k" "k \<le> 110000"
  shows "length (counts_bytes v n (k - 1)) \<le> ZL_varintSize (word_of_nat n) + ZL_varintSize (word_of_nat k - 1) + 2"
proof -
  have "word_of_nat (k - 1) = (word_of_nat k - 1 :: u64)" using assms(2) by simp
  moreover have "ZL_varintSize (word_of_nat (n + 1)) \<le> 3"
    using assms(1) limits(1) [of v] by (intro varintSize_le) (simp_all add: unsigned_of_nat take_bit_eq_mod del: of_nat_add of_nat_Suc)
  ultimately show ?thesis
    using ZL_varintSize_bounds(1) [of "word_of_nat n"] ZL_varintSize_bounds(1) [of "word_of_nat k - 1"]
    by (auto simp: counts_bytes_def length_ZL_varintEncode simp del: of_nat_add of_nat_Suc)
qed

section \<open>The header against the bound\<close>

lemma chunk_header_length:
  assumes ok: "graph_ok v gip" and wr: "writeChunkHeaderV8_internal v fp gip cap = Inr out"
    and small: "\<forall>s \<in> set (tl (storedBuffs gip)). unat s < 2 ^ 28"
    and b: "computeFHBound (nbSessionInputs gip) (length (trInfo gip)) (length (storedBuffs gip))
      (length (distances gip)) = Inr bound"
  shows "length out \<le> bound"
proof -
  let ?n = "length (trInfo gip)" and ?k = "length (storedBuffs gip)"
  note g = written_guards [OF wr]
  note tot = regens_total [OF ok g(4)]
  obtain c1 c2 c3 c4 c5 c6 where out: "out = counts_bytes v ?n (?k - 1) @ flags_bytes v fp
       @ compressTrt (map (trt_flag \<circ> trt) (trInfo gip))
       @ compressTrID c1 v (map trid (trInfo gip)) (map (trt_flag \<circ> trt) (trInfo gip))
       @ compressTrHSize c2 (map ucast (trHSizes gip)) @ compressNbVOs c3 (map ucast (gi_nbVOs gip))
       @ (if 16 \<le> v then compressNumInputs c4 (map ucast (nbTrInputs gip)) else [])
       @ (if ZL_MATERIALIZED_DICT_VERSION_MIN \<le> v \<and> hasBundleID fp then compressDictIdxs c5 (dictIdxs gip) else [])
       @ compressStreamDistances c6 (map (\<lambda>d. d - 1) (distances gip)) (?k - 1)
       @ compressStrSizes (map ucast (tl (storedBuffs gip)))"
    by (rule written_parts [OF wr]) (rule that, simp only: tot(1) take_all order.refl)
  have k: "?k \<le> 110000" "bound = 4 + nbSessionInputs gip * 21 + ZL_varintSize (word_of_nat ?n)
      + ZL_varintSize (word_of_nat ?k - 1) + ?k * 4 + ?n * 22 + length (distances gip) * 4
      + 4 + 4 + (?n + 7) div 8 + 1 + ?n * 3"
    using b by (auto simp: computeFHBound_def ZL_runtimeStreamLimit_def split: if_splits)
  have "length (counts_bytes v ?n (?k - 1)) \<le> ZL_varintSize (word_of_nat ?n) + ZL_varintSize (word_of_nat ?k - 1) + 2"
    using g(1,2) k(1) by (intro counts_length) simp_all
  moreover have "length (flags_bytes v fp) \<le> 1" by (simp add: flags_bytes_def)
  moreover note trt_length [of "trInfo gip"] trID_length [OF ok, of c1]
  moreover have tables: "length (compressTrHSize c2 (map ucast (trHSizes gip))) \<le> (?n + 7) div 8 + 5 * ?n"
    "length (compressNbVOs c3 (map ucast (gi_nbVOs gip))) \<le> (?n + 7) div 8 + 5 * ?n"
    "length (compressNumInputs c4 (map ucast (nbTrInputs gip))) \<le> (?n + 7) div 8 + 5 * ?n"
    using counted_length [of c2 "\<lambda>h. 0 < h" "map ucast (trHSizes gip)" "\<lambda>h. h - 1"]
      counted_length [of c3 "\<lambda>h. 0 < h" "map ucast (gi_nbVOs gip)" "\<lambda>h. h - 1"]
      counted_length [of c4 "\<lambda>h. 1 < h" "map ucast (nbTrInputs gip)" "\<lambda>h. h - 2"]
    unfolding compressTrHSize_def compressNbVOs_def compressNumInputs_def length_map graph_okD(1-3) [OF ok] by blast+
  moreover have "length (if 16 \<le> v then compressNumInputs c4 (map ucast (nbTrInputs gip)) else []) \<le> (?n + 7) div 8 + 5 * ?n"
    using tables(3) by simp
  moreover have "length (if ZL_MATERIALIZED_DICT_VERSION_MIN \<le> v \<and> hasBundleID fp then compressDictIdxs c5 (dictIdxs gip) else [])
      \<le> (?n + 7) div 8 + 1 + 2 * ?n"
    using dict_length [OF graph_okD(8) [OF ok]] graph_okD(4) [OF ok] by simp
  moreover note distances_length [OF ok g(3), of c6] sizes_length [OF small]
  moreover have "8 * ((?n + 7) div 8) \<le> ?n + 7" by linarith
  moreover have "length (tl (storedBuffs gip)) + 1 = ?k" using g(2) by simp
  ultimately show ?thesis unfolding out length_append k(2) by linarith
qed

text \<open>
  C30: the bound on the chunk header is enough for streams shorter than 2^28 bytes. The buffer the
  header is built in has the bound the encoder computes from the numbers of inputs, codecs, streams
  and distances; when every stored stream is shorter than 2^28 bytes the header never exceeds it,
  whatever the codecs, counts, dictionaries and distances.
\<close>

theorem chunk_header_fits:
  assumes "graph_ok v gip" "EFH_writeChunkHeader alloc v fp gip cap = Inr out"
    "\<forall>s \<in> set (tl (storedBuffs gip)). unat s < 2 ^ 28"
    "computeFHBound (nbSessionInputs gip) (length (trInfo gip)) (length (storedBuffs gip))
      (length (distances gip)) = Inr bound"
  shows "length out \<le> bound"
  using EFH_writeChunkHeader_internal [OF assms(2)] chunk_header_length [OF assms(1) _ assms(3,4)] by blast

theorem chunk_header_fits_witness:
  "\<exists>out. EFH_writeChunkHeader (\<lambda>_. True) 27 example_props example_graph 148 = Inr out \<and> length out \<le> 148"
proof -
  obtain out where w: "EFH_writeChunkHeader (\<lambda>_. True) 27 example_props example_graph 148 = Inr out"
    using example_graph_written [of 148] by auto
  moreover have "\<forall>s \<in> set (tl (storedBuffs example_graph)). unat s < 2 ^ 28" by (simp add: example_graph_def)
  ultimately show ?thesis
    using chunk_header_fits [OF example_graph_ok w _ example_graph_bound] by blast
qed

definition large_graph :: GraphInfo where
  "large_graph = \<lparr>nbSessionInputs = 1, trInfo = [\<lparr>trt = trt_standard, trid = 12\<rparr>],
     trHSizes = [0], gi_nbVOs = [99], nbTrInputs = [1], dictIdxs = [- 1], distances = [1],
     storedBuffs = 0 # replicate 100 (2 ^ 28)\<rparr>"

lemma large_graph_bound:
  "computeFHBound (nbSessionInputs large_graph) (length (trInfo large_graph)) (length (storedBuffs large_graph))
     (length (distances large_graph)) = Inr 470"
proof -
  have "ZL_varintSize 1 = 1" "ZL_varintSize 100 = 1" by code_simp+
  then show ?thesis by (simp add: large_graph_def computeFHBound_positive)
qed

text \<open>
  C31: the bound on the chunk header is not enough in general. A stored size of 2^28 or more takes five
  bytes as a varint, the bound counts four for every stored stream, and nothing checks the room
  while the sizes are written: a chunk with a hundred such streams has a valid graph whose header is
  longer than the buffer of the bound's size it is written into.
\<close>

theorem chunk_header_exceeds_bound:
  "graph_ok 27 large_graph \<and> (\<exists>out bound. computeFHBound (nbSessionInputs large_graph)
       (length (trInfo large_graph)) (length (storedBuffs large_graph)) (length (distances large_graph)) = Inr bound
     \<and> EFH_writeChunkHeader (\<lambda>_. True) 27 example_props large_graph bound = Inr out \<and> bound < length out)"
proof -
  have ok: "graph_ok 27 large_graph"
    by (simp add: graph_ok_def large_graph_def numBits ZL_runtimeNodeInputLimit_def ZL_runtimeInputLimit_def
        ZL_runtimeStreamLimit_def list_all_iff)
  obtain out where w: "EFH_writeChunkHeader (\<lambda>_. True) 27 example_props large_graph 470 = Inr out"
    "writeChunkHeaderV8_internal 27 example_props large_graph 470 = Inr out"
    using chunk_header_written [OF _ _ _ _ _ large_graph_bound, of 27 470 example_props] by (auto simp: large_graph_def)
  have "ZL_varintSize (2 ^ 28) = 5" by code_simp
  then have "length (push_varints (replicate k (2 ^ 28))) = 5 * k" for k
    by (induction k) (simp_all add: length_ZL_varintEncode)
  then have "length (compressStrSizes (map ucast (tl (storedBuffs large_graph)))) = 500"
    by (simp add: compressStrSizes_def large_graph_def)
  then have "470 < length out" by - (rule written_parts [OF w(2)], simp del: One_nat_def)
  with ok w(1) large_graph_bound show ?thesis by blast
qed

text \<open>The decoder cuts the varint to 32 bits before its test: a count of zero inputs passes.\<close>

lemma nbRegens_wraps: "nbRegens_loop 27 [1] (ZL_varintEncode 0xFFFFFFFE @ rest) = Inr ([0], rest)"
  by (simp add: ZL_varintDecode_encode)

end
