(* ===== verification/RT_Graph.thy ===== *)
theory RT_Graph
  imports Chunk_Header Codec_Stream
begin

text \<open>
  The runtime graph of the compressor (\<^verbatim>\<open>compress/rtgraphs.c\<close>) and the description of a node
  (\<^verbatim>\<open>compress/cnode.c\<close>): an array of nodes and an array of streams, where the inputs come first and the
  outputs of a node follow each other from \<^verbatim>\<open>startOutRtsids\<close> on. A stream slot without content is
  \<^const>\<open>None\<close>. Identifiers are positions. Memory is there up to the limits of the vectors; memory
  arenas and reference counts are not part of the model.
\<close>

section \<open>Nodes of a compressor\<close>

text \<open>
  \<open>transform_f\<close> is the codec with its parameters: given the engine's answers and the inputs, the
  outputs it creates, in the order of creation, each with its outcome number, and the header it sends.
\<close>

record CNode =
  cn_trInfo :: PublicTransformInfo
  inputTypes :: "ZL_Type list"
  lastInputIsVariable :: bool
  soTypes :: "ZL_Type list"
  voTypes :: "ZL_Type list"
  minFormatVersion :: nat
  maxFormatVersion :: nat
  maybeDictIndex :: u32
  transform_f :: "codec_ctx \<Rightarrow> ZL_Data list \<Rightarrow> ((nat \<times> ZL_Data) list \<times> byte list option) ZL_Result"

abbreviation (input) CNODE_getTransformID :: "CNode \<Rightarrow> PublicTransformInfo" where
  "CNODE_getTransformID \<equiv> cn_trInfo"

definition CNODE_getNbInputPorts :: "CNode \<Rightarrow> nat" where
  "CNODE_getNbInputPorts cnode = length (inputTypes cnode)"

definition CNODE_isNbInputsCompatible :: "CNode \<Rightarrow> nat \<Rightarrow> bool" where
  "CNODE_isNbInputsCompatible cnode nbInputs =
     (if lastInputIsVariable cnode then CNODE_getNbInputPorts cnode - 1 \<le> nbInputs
      else nbInputs = CNODE_getNbInputPorts cnode)"

definition CNODE_getInputType :: "CNode \<Rightarrow> nat \<Rightarrow> ZL_Type" where
  "CNODE_getInputType cnode inputIndex = inputTypes cnode ! min inputIndex (CNODE_getNbInputPorts cnode - 1)"

definition CNODE_getNbOut1s :: "CNode \<Rightarrow> nat" where
  "CNODE_getNbOut1s cnode = length (soTypes cnode)"

definition CNODE_getNbOutcomes :: "CNode \<Rightarrow> nat" where
  "CNODE_getNbOutcomes cnode = CNODE_getNbOut1s cnode + length (voTypes cnode)"

definition CNODE_isVO :: "CNode \<Rightarrow> nat \<Rightarrow> bool" where
  "CNODE_isVO cnode outStreamIndex \<longleftrightarrow> CNODE_getNbOut1s cnode \<le> outStreamIndex"

definition CNODE_getOutStreamType :: "CNode \<Rightarrow> nat \<Rightarrow> ZL_Type" where
  "CNODE_getOutStreamType cnode outStreamIndex =
     (if \<not> CNODE_isVO cnode outStreamIndex then soTypes cnode ! outStreamIndex
      else voTypes cnode ! (outStreamIndex - CNODE_getNbOut1s cnode))"

section \<open>The runtime graph\<close>

record NodeHeaderSegment =
  startPos :: nat
  len :: nat

record RTNode =
  cnode :: CNode
  inRtsids :: "nat list"
  startOutRtsids :: nat
  nbOutStreams :: nat
  nodeHeaderSegment :: NodeHeaderSegment

record RT_CStream =
  stream :: "ZL_Data option"
  outcomeID :: nat
  toStore :: bool
  protectRank :: u32

record RTGraph =
  rt_nodes :: "RTNode list"
  streams :: "RT_CStream list"
  nextStreamUniqueID :: nat

abbreviation (input) zeroed_stream :: RT_CStream where
  "zeroed_stream \<equiv> \<lparr>stream = None, outcomeID = 0, toStore = False, protectRank = 0\<rparr>"

definition RTGM_init :: RTGraph where
  "RTGM_init = \<lparr>rt_nodes = [], streams = [], nextStreamUniqueID = 0\<rparr>"

definition RTGM_clearRTStreamsFrom :: "RTGraph \<Rightarrow> nat \<Rightarrow> RTGraph" where
  "RTGM_clearRTStreamsFrom g rank =
     (if rank = length (streams g) then g else g\<lparr>streams := take rank (streams g)\<rparr>)"

definition RTGM_reset :: "RTGraph \<Rightarrow> RTGraph" where
  "RTGM_reset g = (RTGM_clearRTStreamsFrom (g\<lparr>rt_nodes := []\<rparr>) 0)\<lparr>nextStreamUniqueID := 0\<rparr>"

definition RTGM_createNode :: "RTGraph \<Rightarrow> CNode \<Rightarrow> nat list \<Rightarrow> (nat \<times> RTGraph) ZL_Result" where
  "RTGM_createNode g cn inIds =
     (let newSize = length (streams g) + CNODE_getNbOut1s cn;
          node = \<lparr>cnode = cn, inRtsids = inIds, startOutRtsids = length (streams g), nbOutStreams = 0,
            nodeHeaderSegment = \<lparr>startPos = 0, len = 0\<rparr>\<rparr> in
      if ZL_runtimeNodeLimit ZL_MAX_FORMAT_VERSION \<le> length (rt_nodes g)
        then Inl ZL_ErrorCode_temporaryLibraryLimitation
      else if ZL_runtimeStreamLimit ZL_MAX_FORMAT_VERSION < newSize
        then Inl ZL_ErrorCode_temporaryLibraryLimitation
      else Inr (length (rt_nodes g),
        g\<lparr>rt_nodes := rt_nodes g @ [node],
          streams := streams g @ replicate (CNODE_getNbOut1s cn) zeroed_stream\<rparr>))"

definition RTGM_setNodeHeaderSegment :: "RTGraph \<Rightarrow> nat \<Rightarrow> NodeHeaderSegment \<Rightarrow> RTGraph" where
  "RTGM_setNodeHeaderSegment g rtnid nhs =
     g\<lparr>rt_nodes := (rt_nodes g)[rtnid := (rt_nodes g ! rtnid)\<lparr>nodeHeaderSegment := nhs\<rparr>]\<rparr>"

definition RTGM_getNbNodes :: "RTGraph \<Rightarrow> nat" where
  "RTGM_getNbNodes g = length (rt_nodes g)"

definition RTGM_getNbStreams :: "RTGraph \<Rightarrow> nat" where
  "RTGM_getNbStreams g = length (streams g)"

definition RTGM_getOutStreamID :: "RTGraph \<Rightarrow> nat \<Rightarrow> nat \<Rightarrow> nat" where
  "RTGM_getOutStreamID g rtnid outIdx = startOutRtsids (rt_nodes g ! rtnid) + outIdx"

definition RTGM_getInStreamID :: "RTGraph \<Rightarrow> nat \<Rightarrow> nat \<Rightarrow> nat" where
  "RTGM_getInStreamID g rtnid inIdx = inRtsids (rt_nodes g ! rtnid) ! inIdx"

definition RTGM_getCNode :: "RTGraph \<Rightarrow> nat \<Rightarrow> CNode" where
  "RTGM_getCNode g rtnid = cnode (rt_nodes g ! rtnid)"

definition RTGM_getInputDistance :: "RTGraph \<Rightarrow> nat \<Rightarrow> nat \<Rightarrow> u32" where
  "RTGM_getInputDistance g rtnid inIdx =
     word_of_nat (startOutRtsids (rt_nodes g ! rtnid)) - word_of_nat (RTGM_getInStreamID g rtnid inIdx)"

definition RTGM_getNbInStreams :: "RTGraph \<Rightarrow> nat \<Rightarrow> nat" where
  "RTGM_getNbInStreams g rtnid = length (inRtsids (rt_nodes g ! rtnid))"

definition RTGM_getNbOutStreams :: "RTGraph \<Rightarrow> nat \<Rightarrow> nat" where
  "RTGM_getNbOutStreams g rtnid = nbOutStreams (rt_nodes g ! rtnid)"

definition RTGM_nodeHeaderSegment :: "RTGraph \<Rightarrow> nat \<Rightarrow> NodeHeaderSegment" where
  "RTGM_nodeHeaderSegment g rtnid = nodeHeaderSegment (rt_nodes g ! rtnid)"

definition RTGM_reserveOutputStreamSlot :: "RTGraph \<Rightarrow> RTNode \<Rightarrow> nat \<Rightarrow> bool \<Rightarrow> (nat \<times> RTGraph) ZL_Result" where
  "RTGM_reserveOutputStreamSlot g rtnode outcome isVO =
     (if \<not> isVO then
        if length (streams g) \<le> startOutRtsids rtnode + outcome then Inl ZL_ErrorCode_successor_invalid
        else Inr (startOutRtsids rtnode + outcome, g)
      else if ZL_runtimeStreamLimit ZL_MAX_FORMAT_VERSION < length (streams g) + 1
        then Inl ZL_ErrorCode_allocation
      else Inr (length (streams g), g\<lparr>streams := streams g @ [zeroed_stream]\<rparr>))"

definition RTGM_registerOutputStream :: "RTGraph \<Rightarrow> nat \<Rightarrow> nat \<Rightarrow> nat \<Rightarrow> ZL_Data \<Rightarrow> RTGraph" where
  "RTGM_registerOutputStream g rtnid rtsid outcome d =
     g\<lparr>streams := (streams g)[rtsid := (streams g ! rtsid)\<lparr>stream := Some d, outcomeID := outcome\<rparr>],
       rt_nodes := (rt_nodes g)[rtnid := (rt_nodes g ! rtnid)\<lparr>nbOutStreams := nbOutStreams (rt_nodes g ! rtnid) + 1\<rparr>]\<rparr>"

text \<open>
  The codec fills and commits a stream after it was created; here the stream is created with that
  content, under the type of the node's port. The size of a committed stream is a number of elements
  times their width, or the sum of the string lengths, so content of any other shape cannot occur.
\<close>

definition RTGM_addStream :: "RTGraph \<Rightarrow> nat \<Rightarrow> nat \<Rightarrow> bool \<Rightarrow> ZL_Type \<Rightarrow> ZL_Data \<Rightarrow> (nat \<times> RTGraph) ZL_Result" where
  "RTGM_addStream g rtnid outcome isVO streamtype d =
     res_bind (RTGM_reserveOutputStreamSlot g (rt_nodes g ! rtnid) outcome isVO) (\<lambda>(rtsid, g).
     if stream (streams g ! rtsid) \<noteq> None then Inl ZL_ErrorCode_streamParameter_invalid
     else
     let g = g\<lparr>nextStreamUniqueID := nextStreamUniqueID g + 1\<rparr> in
     res_bind (STREAM_validateTypeWidth streamtype (eltWidth d)) (\<lambda>_.
     if \<not> wf_data (d\<lparr>data_type := streamtype\<rparr>) then Inl ZL_ErrorCode_allocation
     else Inr (rtsid, RTGM_registerOutputStream g rtnid rtsid outcome (d\<lparr>data_type := streamtype\<rparr>))))"

definition RTGM_refInput :: "RTGraph \<Rightarrow> ZL_Data \<Rightarrow> (nat \<times> RTGraph) ZL_Result" where
  "RTGM_refInput g d =
     (if ZL_runtimeStreamLimit ZL_MAX_FORMAT_VERSION < length (streams g) + 1 then Inl ZL_ErrorCode_allocation
      else Inr (length (streams g),
        g\<lparr>streams := streams g @ [zeroed_stream\<lparr>stream := Some d\<rparr>],
          nextStreamUniqueID := nextStreamUniqueID g + 1\<rparr>))"

definition RTGM_storeStream :: "RTGraph \<Rightarrow> nat \<Rightarrow> RTGraph" where
  "RTGM_storeStream g rtsid = g\<lparr>streams := (streams g)[rtsid := (streams g ! rtsid)\<lparr>toStore := True\<rparr>]\<rparr>"

definition RTGM_getRStream :: "RTGraph \<Rightarrow> nat \<Rightarrow> ZL_Data option" where
  "RTGM_getRStream g rtsid = stream (streams g ! rtsid)"

definition RTGM_getOutcomeID_fromRtstream :: "RTGraph \<Rightarrow> nat \<Rightarrow> nat" where
  "RTGM_getOutcomeID_fromRtstream g rtsid = outcomeID (streams g ! rtsid)"

text \<open>The stored buffers, from the last stream to the first.\<close>

definition RTGM_listBuffersToStore :: "RTGraph \<Rightarrow> byte list list" where
  "RTGM_listBuffersToStore g = map (\<lambda>s. data_bytes (the (stream s))) (filter toStore (rev (streams g)))"

definition RTGM_guardRTStream :: "RTGraph \<Rightarrow> nat \<Rightarrow> u32 \<Rightarrow> RTGraph" where
  "RTGM_guardRTStream g rtsid rank =
     (if rank = 0 then g
      else if protectRank (streams g ! rtsid) = 0
        then g\<lparr>streams := (streams g)[rtsid := (streams g ! rtsid)\<lparr>protectRank := rank\<rparr>]\<rparr>
      else g)"

text \<open>The ranks are compared after an intended wrap-around: rank 0 is the greatest.\<close>

definition RTGM_clearRTStream :: "RTGraph \<Rightarrow> nat \<Rightarrow> u32 \<Rightarrow> RTGraph" where
  "RTGM_clearRTStream g rtsid rank =
     (let rtcs = streams g ! rtsid in
      if toStore rtcs then g
      else if protectRank rtcs - 1 < rank - 1 then g
      else g\<lparr>streams := (streams g)[rtsid := rtcs\<lparr>stream := None\<rparr>]\<rparr>)"

definition RTGM_clearNodesFrom :: "RTGraph \<Rightarrow> nat \<Rightarrow> RTGraph" where
  "RTGM_clearNodesFrom g nodeRank =
     (if length (rt_nodes g) = nodeRank then g
      else (RTGM_clearRTStreamsFrom g (startOutRtsids (rt_nodes g ! nodeRank)))\<lparr>rt_nodes := take nodeRank (rt_nodes g)\<rparr>)"

end
