(* ===== verification/Engine_Encode.thy ===== *)
theory Engine_Encode
  imports RT_Graph
begin

text \<open>
  The compression engine on one chunk (\<^verbatim>\<open>compress/cctx.c\<close>, \<^verbatim>\<open>compress/enc_interface.c\<close>): running a node
  on streams of the runtime graph, storing a stream, and the description of the finished graph.
  Which nodes run on which streams is decided by graph functions of the user; every order they can
  choose is a derivation of \<open>session\<close>.
\<close>

section \<open>Context\<close>

record ZL_CCtx =
  rtgraph :: RTGraph
  stagingHeaderStream :: "byte list"
  sentHeaderStream :: "byte list"
  cc_version :: nat
  cc_nbInputs :: nat

abbreviation (input) ZL_ENCODER_TRANSFORM_HEADER_SIZE_LIMIT :: nat where
  "ZL_ENCODER_TRANSFORM_HEADER_SIZE_LIMIT \<equiv> 1000000"

definition appendToVector :: "byte list \<Rightarrow> byte list \<Rightarrow> (nat \<times> byte list) ZL_Result" where
  "appendToVector vector buffer =
     (if ZL_ENCODER_TRANSFORM_HEADER_SIZE_LIMIT < length vector + length buffer then Inl ZL_ErrorCode_allocation
      else Inr (length vector, vector @ buffer))"

definition CCTX_sendTrHeader :: "ZL_CCtx \<Rightarrow> nat \<Rightarrow> byte list \<Rightarrow> ZL_CCtx ZL_Result" where
  "CCTX_sendTrHeader cctx rtnid trh =
     res_bind (appendToVector (stagingHeaderStream cctx) trh) (\<lambda>(headerPos, staging).
     Inr (cctx\<lparr>stagingHeaderStream := staging,
       rtgraph := RTGM_setNodeHeaderSegment (rtgraph cctx) rtnid \<lparr>startPos = headerPos, len = length trh\<rparr>\<rparr>))"

text \<open>A failure to create a stream reaches the codec as a null pointer, which it reports as an allocation error.\<close>

definition CCTX_getNewStream :: "ZL_CCtx \<Rightarrow> nat \<Rightarrow> nat \<Rightarrow> ZL_Data \<Rightarrow> ZL_CCtx ZL_Result" where
  "CCTX_getNewStream cctx rtnid outcome d =
     (let cn = RTGM_getCNode (rtgraph cctx) rtnid in
      case RTGM_addStream (rtgraph cctx) rtnid outcome (CNODE_isVO cn outcome) (CNODE_getOutStreamType cn outcome) d of
        Inl _ \<Rightarrow> Inl ZL_ErrorCode_allocation
      | Inr (_, g) \<Rightarrow> Inr (cctx\<lparr>rtgraph := g\<rparr>))"

primrec createOutputs :: "ZL_CCtx \<Rightarrow> nat \<Rightarrow> (nat \<times> ZL_Data) list \<Rightarrow> ZL_CCtx ZL_Result" where
  "createOutputs cctx rtnid [] = Inr cctx"
| "createOutputs cctx rtnid (x # xs) =
     res_bind (CCTX_getNewStream cctx rtnid (fst x) (snd x)) (\<lambda>cctx. createOutputs cctx rtnid xs)"

section \<open>Running a node\<close>

definition ENC_runTransform_internal ::
  "codec_ctx \<Rightarrow> ZL_CCtx \<Rightarrow> CNode \<Rightarrow> nat \<Rightarrow> ZL_Data list \<Rightarrow> ZL_CCtx ZL_Result" where
  "ENC_runTransform_internal ctx cctx cn rtnid inputs =
     res_bind (transform_f cn ctx inputs) (\<lambda>(outs, header).
     res_bind (createOutputs cctx rtnid outs) (\<lambda>cctx.
     res_bind (case header of None \<Rightarrow> Inr cctx | Some trh \<Rightarrow> CCTX_sendTrHeader cctx rtnid trh) (\<lambda>cctx.
     let nbOut = RTGM_getNbOutStreams (rtgraph cctx) rtnid in
     if nbOut < CNODE_getNbOut1s cn then Inl ZL_ErrorCode_transform_executionFailure
     else if cc_version cctx < 9 \<and> nbOut = 0 then Inl ZL_ErrorCode_formatVersion_unsupported
     else if ZL_transformOutStreamsLimit (cc_version cctx) < nbOut then Inl ZL_ErrorCode_formatVersion_unsupported
     else Inr cctx)))"

definition ENC_runTransform ::
  "codec_ctx \<Rightarrow> ZL_CCtx \<Rightarrow> CNode \<Rightarrow> nat \<Rightarrow> ZL_Data list \<Rightarrow> ZL_CCtx ZL_Result" where
  "ENC_runTransform ctx cctx cn rtnid inputs =
     (if maybeDictIndex cn \<noteq> ZL_DICT_INDEX_NONE \<and> cc_version cctx < ZL_MATERIALIZED_DICT_VERSION_MIN
      then Inl ZL_ErrorCode_formatVersion_unsupported
      else ENC_runTransform_internal ctx cctx cn rtnid inputs)"

text \<open>An output slot that was never filled fails an assertion; here it is an execution failure.\<close>

definition CCTX_checkOutputCommitted :: "ZL_CCtx \<Rightarrow> nat \<Rightarrow> unit ZL_Result" where
  "CCTX_checkOutputCommitted cctx rtnid =
     (if list_all (\<lambda>n. RTGM_getRStream (rtgraph cctx) (RTGM_getOutStreamID (rtgraph cctx) rtnid n) \<noteq> None)
          [0..<RTGM_getNbOutStreams (rtgraph cctx) rtnid]
      then Inr () else Inl ZL_ErrorCode_transform_executionFailure)"

definition CCTX_runCNode_wParams ::
  "codec_ctx \<Rightarrow> ZL_CCtx \<Rightarrow> CNode \<Rightarrow> nat list \<Rightarrow> (nat \<times> ZL_CCtx) ZL_Result" where
  "CCTX_runCNode_wParams ctx cctx cn irtsids =
     (let nbInputs = length irtsids; inputs = map (\<lambda>i. the (RTGM_getRStream (rtgraph cctx) i)) irtsids in
      if \<not> CNODE_isNbInputsCompatible cn nbInputs then Inl ZL_ErrorCode_node_invalid_input
      else if ZL_runtimeNodeInputLimit (cc_version cctx) < nbInputs then Inl ZL_ErrorCode_node_versionMismatch
      else if list_ex (\<lambda>n. data_type (inputs ! n) \<noteq> CNODE_getInputType cn n) [0..<nbInputs]
        then Inl ZL_ErrorCode_node_unexpected_input_type
      else if cc_version cctx < minFormatVersion cn \<or> maxFormatVersion cn < cc_version cctx
        then Inl ZL_ErrorCode_node_versionMismatch
      else
      res_bind (RTGM_createNode (rtgraph cctx) cn irtsids) (\<lambda>(rtnid, g).
      res_bind (ENC_runTransform ctx (cctx\<lparr>rtgraph := g\<rparr>) cn rtnid inputs) (\<lambda>cctx.
      res_bind (CCTX_checkOutputCommitted cctx rtnid) (\<lambda>_.
      Inr (rtnid, cctx\<lparr>rtgraph := foldl (\<lambda>g i. RTGM_clearRTStream g i 0) (rtgraph cctx) irtsids\<rparr>)))))"

definition CCTX_storeStream :: "ZL_CCtx \<Rightarrow> nat \<Rightarrow> ZL_CCtx" where
  "CCTX_storeStream cctx rtsid = cctx\<lparr>rtgraph := RTGM_storeStream (rtgraph cctx) rtsid\<rparr>"

section \<open>Sessions\<close>

primrec mapInputs :: "ZL_CCtx \<Rightarrow> ZL_Data list \<Rightarrow> ZL_CCtx ZL_Result" where
  "mapInputs cctx [] = Inr cctx"
| "mapInputs cctx (d # ds) =
     res_bind (RTGM_refInput (rtgraph cctx) d) (\<lambda>(_, g). mapInputs (cctx\<lparr>rtgraph := g\<rparr>) ds)"

text \<open>The context before a chunk: no node, no stream, no header.\<close>

definition cleanChunk :: "nat \<Rightarrow> nat \<Rightarrow> ZL_CCtx \<Rightarrow> bool" where
  "cleanChunk v nbInputs cctx \<longleftrightarrow> rt_nodes (rtgraph cctx) = [] \<and> streams (rtgraph cctx) = []
     \<and> stagingHeaderStream cctx = [] \<and> sentHeaderStream cctx = [] \<and> cc_version cctx = v \<and> cc_nbInputs cctx = nbInputs"

definition startChunk :: "nat \<Rightarrow> ZL_Data list \<Rightarrow> ZL_CCtx ZL_Result" where
  "startChunk v inputs =
     (if inputs = [] then Inl ZL_ErrorCode_successor_invalidNumInputs
      else mapInputs \<lparr>rtgraph = RTGM_init, stagingHeaderStream = [], sentHeaderStream = [],
        cc_version = v, cc_nbInputs = length inputs\<rparr> inputs)"

text \<open>
  \<open>owned\<close> holds the streams that no node has consumed and that are not stored: the edges a graph
  function may still use. A node takes at least one input from them, no stream twice, and puts its
  outputs there; the stream
  the final store takes is serial, since the engine converts it before; memory of a stream is given
  back only after it was consumed or stored.
\<close>

inductive session :: "codec_ctx \<Rightarrow> nat \<Rightarrow> ZL_Data list \<Rightarrow> ZL_CCtx \<Rightarrow> nat set \<Rightarrow> bool"
  for ctx v inputs where
  start: "cleanChunk v (length inputs) cctx \<Longrightarrow> inputs \<noteq> [] \<Longrightarrow> mapInputs cctx inputs = Inr cctx'
    \<Longrightarrow> session ctx v inputs cctx' {..<length inputs}"
| node: "session ctx v inputs cctx owned \<Longrightarrow> set ids \<subseteq> owned \<Longrightarrow> distinct ids \<Longrightarrow> ids \<noteq> []
    \<Longrightarrow> CCTX_runCNode_wParams ctx cctx cn ids = Inr (rtnid, cctx')
    \<Longrightarrow> session ctx v inputs cctx'
      (owned - set ids \<union> {length (streams (rtgraph cctx))..<length (streams (rtgraph cctx'))})"
| store: "session ctx v inputs cctx owned \<Longrightarrow> i \<in> owned
    \<Longrightarrow> map_option data_type (RTGM_getRStream (rtgraph cctx) i) = Some ZL_Type_serial
    \<Longrightarrow> session ctx v inputs (CCTX_storeStream cctx i) (owned - {i})"
| guard: "session ctx v inputs cctx owned \<Longrightarrow> i \<in> owned
    \<Longrightarrow> session ctx v inputs (cctx\<lparr>rtgraph := RTGM_guardRTStream (rtgraph cctx) i rank\<rparr>) owned"
| clear: "session ctx v inputs cctx owned \<Longrightarrow> i < length (streams (rtgraph cctx)) \<Longrightarrow> i \<notin> owned
    \<Longrightarrow> session ctx v inputs (cctx\<lparr>rtgraph := RTGM_clearRTStream (rtgraph cctx) i rank\<rparr>) owned"

section \<open>The finished graph\<close>

definition ZL_RBuffer_slice :: "byte list \<Rightarrow> nat \<Rightarrow> nat \<Rightarrow> byte list ZL_Result" where
  "ZL_RBuffer_slice rb start n =
     (if word_of_nat start + word_of_nat n < (word_of_nat start :: size_t) then Inl ZL_ErrorCode_corruption
      else if length rb < unat (word_of_nat start + word_of_nat n :: size_t) then Inl ZL_ErrorCode_corruption
      else Inr (take n (drop start rb)))"

text \<open>The headers of the nodes, in the order the decoder needs them.\<close>

primrec sendHeaders :: "ZL_CCtx \<Rightarrow> nat list \<Rightarrow> ZL_CCtx ZL_Result" where
  "sendHeaders cctx [] = Inr cctx"
| "sendHeaders cctx (rtnid # ns) =
     (let nhs = RTGM_nodeHeaderSegment (rtgraph cctx) rtnid in
      if RTGM_getNbOutStreams (rtgraph cctx) rtnid < CNODE_getNbOut1s (RTGM_getCNode (rtgraph cctx) rtnid)
        then Inl ZL_ErrorCode_corruption
      else
      res_bind (ZL_RBuffer_slice (stagingHeaderStream cctx) (startPos nhs) (len nhs)) (\<lambda>slice.
      res_bind (appendToVector (sentHeaderStream cctx) slice) (\<lambda>(_, sent).
      sendHeaders (cctx\<lparr>sentHeaderStream := sent\<rparr>) ns)))"

definition CCTX_listBuffersToStore :: "ZL_CCtx \<Rightarrow> byte list list" where
  "CCTX_listBuffersToStore cctx = sentHeaderStream cctx # RTGM_listBuffersToStore (rtgraph cctx)"

text \<open>The stored buffers come beside the description, which has their sizes.\<close>

definition CCTX_getFinalGraph :: "ZL_CCtx \<Rightarrow> (GraphInfo \<times> byte list list) ZL_Result" where
  "CCTX_getFinalGraph cctx =
     (let g = rtgraph cctx; v = cc_version cctx; nbTransforms = RTGM_getNbNodes g;
          rtnids = map (\<lambda>n. nbTransforms - 1 - n) [0..<nbTransforms] in
      if ZL_runtimeNodeLimit v \<le> nbTransforms then Inl ZL_ErrorCode_formatVersion_unsupported
      else if ZL_runtimeStreamLimit v \<le> RTGM_getNbStreams g + 1 then Inl ZL_ErrorCode_formatVersion_unsupported
      else if ZL_runtimeInputLimit v < cc_nbInputs cctx then Inl ZL_ErrorCode_formatVersion_unsupported
      else
      res_bind (sendHeaders cctx rtnids) (\<lambda>cctx.
      let buffs = CCTX_listBuffersToStore cctx in
      Inr (\<lparr>nbSessionInputs = cc_nbInputs cctx,
        trInfo = map (\<lambda>rtnid. CNODE_getTransformID (RTGM_getCNode g rtnid)) rtnids,
        trHSizes = map (\<lambda>rtnid. word_of_nat (len (RTGM_nodeHeaderSegment g rtnid))) rtnids,
        gi_nbVOs = map (\<lambda>rtnid. word_of_nat (RTGM_getNbOutStreams g rtnid - CNODE_getNbOut1s (RTGM_getCNode g rtnid))) rtnids,
        nbTrInputs = map (\<lambda>rtnid. word_of_nat (RTGM_getNbInStreams g rtnid)) rtnids,
        dictIdxs = map (\<lambda>rtnid. maybeDictIndex (RTGM_getCNode g rtnid)) rtnids,
        distances = concat (map (\<lambda>rtnid. map (RTGM_getInputDistance g rtnid) [0..<RTGM_getNbInStreams g rtnid]) rtnids),
        storedBuffs = map (\<lambda>b. word_of_nat (length b)) buffs\<rparr>, buffs)))"

end
