(* ===== verification/Engine_Invariant.thy ===== *)
theory Engine_Invariant
  imports Engine_Encode
begin

text \<open>
  What a session keeps: the layout of the runtime graph, and that each node is a run of its codec on
  the contents its inputs had, although the engine frees streams as soon as they are consumed.
\<close>

section \<open>The outputs of a node\<close>

definition typed :: "CNode \<Rightarrow> nat \<Rightarrow> ZL_Data \<Rightarrow> ZL_Data" where
  "typed cn outcome d = d\<lparr>data_type := CNODE_getOutStreamType cn outcome\<rparr>"

abbreviation VO_outs :: "CNode \<Rightarrow> (nat \<times> ZL_Data) list \<Rightarrow> (nat \<times> ZL_Data) list" where
  "VO_outs cn ys \<equiv> filter (\<lambda>y. CNODE_isVO cn (fst y)) ys"

definition slots :: "CNode \<Rightarrow> (nat \<times> ZL_Data) list \<Rightarrow> ZL_Data list" where
  "slots cn outs = map (\<lambda>q. typed cn q (the (map_of outs q))) [0..<CNODE_getNbOut1s cn]
     @ map (\<lambda>y. typed cn (fst y) (snd y)) (VO_outs cn outs)"

lemma wf_serial_data: "wf_data d \<Longrightarrow> data_type d = ZL_Type_serial \<Longrightarrow> serial (data_bytes d) = d"
  by (cases d) (auto simp: wf_data_def STREAM_validateTypeWidth_def split: if_splits)

definition made :: "CNode \<Rightarrow> (nat \<times> ZL_Data) list \<Rightarrow> RT_CStream list \<Rightarrow> bool" where
  "made cn ys news \<longleftrightarrow>
     length news = CNODE_getNbOut1s cn + length (VO_outs cn ys)
     \<and> (\<forall>q < CNODE_getNbOut1s cn. stream (news ! q) = map_option (typed cn q) (map_of ys q))
     \<and> map stream (drop (CNODE_getNbOut1s cn) news) = map (\<lambda>y. Some (typed cn (fst y) (snd y))) (VO_outs cn ys)
     \<and> (\<forall>s \<in> set news. \<not> toStore s) \<and> (\<forall>y \<in> set ys. wf_data (typed cn (fst y) (snd y)))
     \<and> length ys = card {q. q < CNODE_getNbOut1s cn \<and> map_of ys q \<noteq> None} + length (VO_outs cn ys)"

lemma made_Nil: "made cn [] (replicate (CNODE_getNbOut1s cn) zeroed_stream)"
  by (simp add: made_def)

lemma made_VO:
  assumes "made cn ys news" "CNODE_isVO cn q" "stream s = Some (typed cn q d)" "\<not> toStore s"
    "wf_data (typed cn q d)"
  shows "made cn (ys @ [(q, d)]) (news @ [s])"
proof -
  have "map_of (ys @ [(q, d)]) p = map_of ys p" if "p < CNODE_getNbOut1s cn" for p
    using that assms(2) by (auto simp: map_add_def CNODE_isVO_def split: option.split)
  then have "{p. p < CNODE_getNbOut1s cn \<and> map_of (ys @ [(q, d)]) p \<noteq> None}
      = {p. p < CNODE_getNbOut1s cn \<and> map_of ys p \<noteq> None}" by (intro Collect_cong) (simp cong: conj_cong)
  then show ?thesis
    using assms \<open>\<And>p. p < CNODE_getNbOut1s cn \<Longrightarrow> map_of (ys @ [(q, d)]) p = map_of ys p\<close>
    unfolding made_def by (auto simp: nth_append)
qed

lemma made_SO:
  assumes "made cn ys news" "q < CNODE_getNbOut1s cn" "stream (news ! q) = None"
    "stream s = Some (typed cn q d)" "\<not> toStore s" "wf_data (typed cn q d)"
  shows "made cn (ys @ [(q, d)]) (news[q := s])"
proof -
  let ?nb = "CNODE_getNbOut1s cn"
  have n: "map_of ys q = None" using assms(1-3) by (auto simp: made_def)
  then have m: "map_of (ys @ [(q, d)]) p = (if p = q then Some d else map_of ys p)" for p
    by (auto simp: map_add_def split: option.split)
  have "{p. p < ?nb \<and> map_of (ys @ [(q, d)]) p \<noteq> None} = insert q {p. p < ?nb \<and> map_of ys p \<noteq> None}"
    using assms(2) by (auto simp: m)
  moreover have "q \<notin> {p. p < ?nb \<and> map_of ys p \<noteq> None}" using n by simp
  ultimately have "card {p. p < ?nb \<and> map_of (ys @ [(q, d)]) p \<noteq> None}
      = Suc (card {p. p < ?nb \<and> map_of ys p \<noteq> None})" by simp
  moreover have vo: "VO_outs cn (ys @ [(q, d)]) = VO_outs cn ys" using assms(2) by (simp add: CNODE_isVO_def)
  moreover have "drop ?nb (news[q := s]) = drop ?nb news" using assms(2) by simp
  moreover have "\<forall>s' \<in> set (news[q := s]). \<not> toStore s'"
    using assms(1,5) set_update_subset_insert [of news q s] by (auto simp: made_def)
  moreover have "q < length news" using assms(1,2) by (simp add: made_def)
  ultimately show ?thesis
    using assms unfolding made_def m vo by (auto simp: nth_list_update)
qed

lemma made_slots:
  assumes "made cn ys news" "CNODE_getNbOut1s cn \<le> length ys" "\<forall>q < length ys. stream (news ! q) \<noteq> None"
  shows "map stream news = map Some (slots cn ys)" "length ys = length (slots cn ys)"
    "list_all wf_data (slots cn ys)"
proof -
  let ?nb = "CNODE_getNbOut1s cn"
  have all: "map_of ys q \<noteq> None" if "q < ?nb" for q
  proof -
    have "stream (news ! q) = map_option (typed cn q) (map_of ys q)" using that assms(1) by (auto simp: made_def)
    moreover have "stream (news ! q) \<noteq> None" using that assms(2,3) by (meson less_le_trans)
    ultimately show ?thesis by auto
  qed
  then have "(q, the (map_of ys q)) \<in> set ys" if "q < ?nb" for q
    using that by (force intro: map_of_SomeD)
  then show "list_all wf_data (slots cn ys)"
    using assms(1) by (fastforce simp: made_def slots_def list_all_iff)
  from all have "{q. q < ?nb \<and> map_of ys q \<noteq> None} = {..<?nb}" by auto
  then show "length ys = length (slots cn ys)" using assms(1) by (simp add: made_def slots_def)
  have "map stream (take ?nb news) = map (\<lambda>q. Some (typed cn q (the (map_of ys q)))) [0..<?nb]"
    using assms(1) all by (intro nth_equalityI) (fastforce simp: made_def)+
  moreover have "map stream (drop ?nb news) = map (\<lambda>y. Some (typed cn (fst y) (snd y))) (VO_outs cn ys)"
    using assms(1) by (simp add: made_def)
  moreover have "map stream news = map stream (take ?nb news) @ map stream (drop ?nb news)"
    by (simp flip: map_append)
  ultimately show "map stream news = map Some (slots cn ys)" by (simp add: slots_def)
qed

text \<open>One call, then all calls, on the node at the end of the graph.\<close>

definition running :: "ZL_CCtx \<Rightarrow> RTNode list \<Rightarrow> RTNode \<Rightarrow> RT_CStream list \<Rightarrow> RT_CStream list \<Rightarrow> bool" where
  "running cctx ns nd old news \<longleftrightarrow> rt_nodes (rtgraph cctx) = ns @ [nd] \<and> streams (rtgraph cctx) = old @ news
     \<and> startOutRtsids nd = length old"

definition same_rest :: "ZL_CCtx \<Rightarrow> ZL_CCtx \<Rightarrow> bool" where
  "same_rest c c' \<longleftrightarrow> stagingHeaderStream c = stagingHeaderStream c' \<and> sentHeaderStream c = sentHeaderStream c'
     \<and> cc_version c = cc_version c' \<and> cc_nbInputs c = cc_nbInputs c'"

lemma getNewStream_step:
  assumes "running cctx ns nd old news" "made (cnode nd) ys news"
    "CCTX_getNewStream cctx (length ns) q d = Inr cctx'"
  obtains news' where
    "running cctx' ns (nd\<lparr>nbOutStreams := nbOutStreams nd + 1\<rparr>) old news'" "made (cnode nd) (ys @ [(q, d)]) news'"
    "same_rest cctx' cctx"
proof (cases "CNODE_isVO (cnode nd) q")
  case True
  let ?s = "zeroed_stream\<lparr>stream := Some (typed (cnode nd) q d), outcomeID := q\<rparr>"
  have "running cctx' ns (nd\<lparr>nbOutStreams := nbOutStreams nd + 1\<rparr>) old (news @ [?s])
      \<and> same_rest cctx' cctx \<and> wf_data (typed (cnode nd) q d)"
    using assms(1,3) True
    by (auto simp: running_def CCTX_getNewStream_def RTGM_addStream_def RTGM_reserveOutputStreamSlot_def
        RTGM_getCNode_def RTGM_registerOutputStream_def typed_def same_rest_def Let_def nth_append list_update_append
        split: sum.splits if_splits)
  with made_VO [OF assms(2) True, of ?s d] that show ?thesis by auto
next
  case False
  then have q: "q < CNODE_getNbOut1s (cnode nd)" by (simp add: CNODE_isVO_def)
  then have ql: "q < length news" using assms(2) by (simp add: made_def)
  let ?s = "(news ! q)\<lparr>stream := Some (typed (cnode nd) q d), outcomeID := q\<rparr>"
  have "running cctx' ns (nd\<lparr>nbOutStreams := nbOutStreams nd + 1\<rparr>) old (news[q := ?s])
      \<and> same_rest cctx' cctx \<and> stream (news ! q) = None \<and> wf_data (typed (cnode nd) q d)"
    using assms(1,3) False ql
    by (auto simp: running_def CCTX_getNewStream_def RTGM_addStream_def RTGM_reserveOutputStreamSlot_def
        RTGM_getCNode_def RTGM_registerOutputStream_def typed_def same_rest_def Let_def nth_append list_update_append
        split: sum.splits if_splits)
  moreover have "\<not> toStore ?s" using assms(2) ql by (simp add: made_def)
  ultimately show ?thesis using made_SO [OF assms(2) q, of ?s d] that by auto
qed

lemma createOutputs_made:
  assumes "running cctx ns nd old news" "made (cnode nd) ys news" "createOutputs cctx (length ns) xs = Inr cctx'"
  shows "\<exists>news'. running cctx' ns (nd\<lparr>nbOutStreams := nbOutStreams nd + length xs\<rparr>) old news'
    \<and> made (cnode nd) (ys @ xs) news' \<and> same_rest cctx' cctx"
  using assms
proof (induction xs arbitrary: cctx nd news ys)
  case Nil
  then show ?case by (auto simp: same_rest_def)
next
  case (Cons x xs)
  obtain c where c: "CCTX_getNewStream cctx (length ns) (fst x) (snd x) = Inr c" "createOutputs c (length ns) xs = Inr cctx'"
    using Cons.prems(3) by auto
  obtain news1 where n: "running c ns (nd\<lparr>nbOutStreams := nbOutStreams nd + 1\<rparr>) old news1"
    "made (cnode nd) (ys @ [x]) news1" "same_rest c cctx"
    using getNewStream_step [OF Cons.prems(1,2) c(1)] by auto
  have "made (cnode (nd\<lparr>nbOutStreams := nbOutStreams nd + 1\<rparr>)) (ys @ [x]) news1" using n(2) by simp
  from Cons.IH [OF n(1) this c(2)] n(3) show ?case by (auto simp: add.commute add.left_commute same_rest_def)
qed


lemma clearRTStream_simps [simp]:
  "rt_nodes (RTGM_clearRTStream g i r) = rt_nodes g"
  "length (streams (RTGM_clearRTStream g i r)) = length (streams g)"
  "j < length (streams g) \<Longrightarrow> toStore (streams (RTGM_clearRTStream g i r) ! j) = toStore (streams g ! j)"
  "j < length (streams g) \<Longrightarrow> j \<noteq> i \<or> toStore (streams g ! j)
    \<Longrightarrow> stream (streams (RTGM_clearRTStream g i r) ! j) = stream (streams g ! j)"
  by (cases "i = j"; auto simp: RTGM_clearRTStream_def Let_def)+

lemma clear_inputs:
  "rt_nodes (foldl (\<lambda>g i. RTGM_clearRTStream g i 0) g ids) = rt_nodes g"
  "length (streams (foldl (\<lambda>g i. RTGM_clearRTStream g i 0) g ids)) = length (streams g)"
  "j < length (streams g) \<Longrightarrow> toStore (streams (foldl (\<lambda>g i. RTGM_clearRTStream g i 0) g ids) ! j) = toStore (streams g ! j)"
  "j < length (streams g) \<Longrightarrow> j \<notin> set ids \<or> toStore (streams g ! j)
    \<Longrightarrow> stream (streams (foldl (\<lambda>g i. RTGM_clearRTStream g i 0) g ids) ! j) = stream (streams g ! j)"
  by (induction ids arbitrary: g) auto

section \<open>The effect of a node\<close>

definition header_of :: "byte list option \<Rightarrow> byte list" where
  "header_of h = (case h of None \<Rightarrow> [] | Some b \<Rightarrow> b)"

text \<open>A successful run of a node, as the engine checked it.\<close>

definition codec_ran :: "codec_ctx \<Rightarrow> nat \<Rightarrow> CNode \<Rightarrow> ZL_Data list \<Rightarrow> (nat \<times> ZL_Data) list \<Rightarrow> byte list option \<Rightarrow> bool" where
  "codec_ran ctx v cn ins outs h \<longleftrightarrow> transform_f cn ctx ins = Inr (outs, h) \<and> CNODE_isNbInputsCompatible cn (length ins)
     \<and> length ins \<le> ZL_runtimeNodeInputLimit v \<and> (\<forall>n < length ins. data_type (ins ! n) = CNODE_getInputType cn n)
     \<and> minFormatVersion cn \<le> v \<and> v \<le> maxFormatVersion cn \<and> list_all wf_data (slots cn outs)
     \<and> length (slots cn outs) \<le> ZL_transformOutStreamsLimit v \<and> (v < 9 \<longrightarrow> slots cn outs \<noteq> [])
     \<and> (maybeDictIndex cn \<noteq> ZL_DICT_INDEX_NONE \<longrightarrow> ZL_MATERIALIZED_DICT_VERSION_MIN \<le> v)"

definition node_of :: "CNode \<Rightarrow> nat list \<Rightarrow> nat \<Rightarrow> nat \<Rightarrow> byte list \<Rightarrow> byte list option \<Rightarrow> RTNode" where
  "node_of cn ids start n staging h = \<lparr>cnode = cn, inRtsids = ids, startOutRtsids = start, nbOutStreams = n,
     nodeHeaderSegment = (case h of None \<Rightarrow> \<lparr>startPos = 0, len = 0\<rparr>
       | Some b \<Rightarrow> \<lparr>startPos = length staging, len = length b\<rparr>)\<rparr>"

lemma node_of_simps [simp]:
  "cnode (node_of cn ids start n staging h) = cn" "inRtsids (node_of cn ids start n staging h) = ids"
  "startOutRtsids (node_of cn ids start n staging h) = start" "nbOutStreams (node_of cn ids start n staging h) = n"
  "nodeHeaderSegment (node_of cn ids start n staging None) = \<lparr>startPos = 0, len = 0\<rparr>"
  by (simp_all add: node_of_def)

lemma runTransform_effect:
  assumes "ENC_runTransform ctx cctx cn (length ns) ins = Inr cctx'"
    "running cctx ns nd old (replicate (CNODE_getNbOut1s cn) zeroed_stream)" "cnode nd = cn" "nbOutStreams nd = 0"
    "nodeHeaderSegment nd = \<lparr>startPos = 0, len = 0\<rparr>" "CCTX_checkOutputCommitted cctx' (length ns) = Inr ()"
  shows "\<exists>outs h news. transform_f cn ctx ins = Inr (outs, h)
    \<and> running cctx' ns (node_of cn (inRtsids nd) (length old) (length (slots cn outs)) (stagingHeaderStream cctx) h) old news
    \<and> map stream news = map Some (slots cn outs) \<and> (\<forall>s \<in> set news. \<not> toStore s)
    \<and> stagingHeaderStream cctx' = stagingHeaderStream cctx @ header_of h
    \<and> length (stagingHeaderStream cctx') \<le> max (length (stagingHeaderStream cctx)) ZL_ENCODER_TRANSFORM_HEADER_SIZE_LIMIT
    \<and> sentHeaderStream cctx' = sentHeaderStream cctx \<and> cc_version cctx' = cc_version cctx
    \<and> cc_nbInputs cctx' = cc_nbInputs cctx
    \<and> length (slots cn outs) \<le> ZL_transformOutStreamsLimit (cc_version cctx) \<and> list_all wf_data (slots cn outs)
    \<and> (cc_version cctx < 9 \<longrightarrow> slots cn outs \<noteq> [])
    \<and> (maybeDictIndex cn \<noteq> ZL_DICT_INDEX_NONE \<longrightarrow> ZL_MATERIALIZED_DICT_VERSION_MIN \<le> cc_version cctx)"
proof -
  obtain outs h c1 where t: "transform_f cn ctx ins = Inr (outs, h)" "createOutputs cctx (length ns) outs = Inr c1"
    and c2: "(case h of None \<Rightarrow> Inr c1 | Some trh \<Rightarrow> CCTX_sendTrHeader c1 (length ns) trh) = Inr cctx'"
    and nb: "CNODE_getNbOut1s cn \<le> RTGM_getNbOutStreams (rtgraph cctx') (length ns)"
    and v9: "cc_version cctx' < 9 \<longrightarrow> RTGM_getNbOutStreams (rtgraph cctx') (length ns) \<noteq> 0"
    and lim: "RTGM_getNbOutStreams (rtgraph cctx') (length ns) \<le> ZL_transformOutStreamsLimit (cc_version cctx')"
    and dict: "maybeDictIndex cn \<noteq> ZL_DICT_INDEX_NONE \<longrightarrow> ZL_MATERIALIZED_DICT_VERSION_MIN \<le> cc_version cctx"
    using assms(1)
    by (auto simp: ENC_runTransform_def ENC_runTransform_internal_def Let_def not_less split: if_splits)
  have made0: "made (cnode nd) [] (replicate (CNODE_getNbOut1s cn) zeroed_stream)" using made_Nil assms(3) by simp
  obtain news where r1: "running c1 ns (nd\<lparr>nbOutStreams := length outs\<rparr>) old news"
    and md: "made cn outs news" and same: "same_rest c1 cctx"
    using createOutputs_made [OF assms(2) made0 t(2)] assms(3,4) by auto
  have r2: "running cctx' ns (node_of cn (inRtsids nd) (length old) (length outs) (stagingHeaderStream cctx) h) old news
      \<and> stagingHeaderStream cctx' = stagingHeaderStream cctx @ header_of h
      \<and> length (stagingHeaderStream cctx') \<le> max (length (stagingHeaderStream cctx)) ZL_ENCODER_TRANSFORM_HEADER_SIZE_LIMIT
      \<and> sentHeaderStream cctx' = sentHeaderStream cctx \<and> cc_version cctx' = cc_version cctx
      \<and> cc_nbInputs cctx' = cc_nbInputs cctx"
    using c2 r1 same assms(2,3,5)
    by (cases nd) (auto simp: node_of_def running_def same_rest_def header_of_def CCTX_sendTrHeader_def appendToVector_def
        RTGM_setNodeHeaderSegment_def split: option.splits if_splits)
  then have gn: "RTGM_getNbOutStreams (rtgraph cctx') (length ns) = length outs"
    by (simp add: running_def RTGM_getNbOutStreams_def node_of_def)
  have "\<forall>q < length outs. stream (news ! q) \<noteq> None"
    using assms(6) r2 by (auto simp: CCTX_checkOutputCommitted_def gn list_all_iff running_def RTGM_getRStream_def
        RTGM_getOutStreamID_def node_of_def nth_append split: if_splits)
  note m = made_slots [OF md nb [unfolded gn] this]
  have "\<forall>s \<in> set news. \<not> toStore s" using md by (simp add: made_def)
  then show ?thesis using t(1) r2 m lim v9 dict unfolding gn by (intro exI [of _ outs] exI [of _ h] exI [of _ news]) auto
qed


lemma runCNode_effect:
  assumes "CCTX_runCNode_wParams ctx cctx cn ids = Inr (rtnid, cctx')"
  defines "g \<equiv> rtgraph cctx" and "g' \<equiv> rtgraph cctx'" and "ins \<equiv> map (\<lambda>i. the (stream (streams (rtgraph cctx) ! i))) ids"
  shows "\<exists>outs h. codec_ran ctx (cc_version cctx) cn ins outs h
    \<and> rt_nodes g' = rt_nodes g @ [node_of cn ids (length (streams g)) (length (slots cn outs)) (stagingHeaderStream cctx) h]
    \<and> length (streams g') = length (streams g) + length (slots cn outs)
    \<and> (\<forall>j < length (streams g). toStore (streams g' ! j) = toStore (streams g ! j)
        \<and> (j \<notin> set ids \<or> toStore (streams g ! j) \<longrightarrow> stream (streams g' ! j) = stream (streams g ! j)))
    \<and> (\<forall>q < length (slots cn outs). \<not> toStore (streams g' ! (length (streams g) + q))
        \<and> (length (streams g) + q \<notin> set ids \<longrightarrow> stream (streams g' ! (length (streams g) + q)) = Some (slots cn outs ! q)))
    \<and> stagingHeaderStream cctx' = stagingHeaderStream cctx @ header_of h
    \<and> length (stagingHeaderStream cctx') \<le> max (length (stagingHeaderStream cctx)) ZL_ENCODER_TRANSFORM_HEADER_SIZE_LIMIT
    \<and> sentHeaderStream cctx' = sentHeaderStream cctx \<and> cc_version cctx' = cc_version cctx
    \<and> cc_nbInputs cctx' = cc_nbInputs cctx"
proof -
  let ?nd = "node_of cn ids (length (streams g)) 0 [] None"
  let ?g1 = "g\<lparr>rt_nodes := rt_nodes g @ [?nd], streams := streams g @ replicate (CNODE_getNbOut1s cn) zeroed_stream\<rparr>"
  obtain c where c: "ENC_runTransform ctx (cctx\<lparr>rtgraph := ?g1\<rparr>) cn (length (rt_nodes g)) ins = Inr c"
    "CCTX_checkOutputCommitted c (length (rt_nodes g)) = Inr ()"
    "cctx' = c\<lparr>rtgraph := foldl (\<lambda>g i. RTGM_clearRTStream g i 0) (rtgraph c) ids\<rparr>"
    using assms(1) unfolding ins_def g_def
    by (auto simp: CCTX_runCNode_wParams_def RTGM_createNode_def RTGM_getRStream_def node_of_def Let_def split: if_splits)
  have chk: "CNODE_isNbInputsCompatible cn (length ids)" "length ids \<le> ZL_runtimeNodeInputLimit (cc_version cctx)"
    "\<forall>n < length ids. data_type (ins ! n) = CNODE_getInputType cn n"
    "minFormatVersion cn \<le> cc_version cctx" "cc_version cctx \<le> maxFormatVersion cn"
    using assms(1) unfolding ins_def
    by (auto simp: CCTX_runCNode_wParams_def RTGM_getRStream_def Let_def list_ex_iff split: if_splits)
  have "running (cctx\<lparr>rtgraph := ?g1\<rparr>) (rt_nodes g) ?nd (streams g) (replicate (CNODE_getNbOut1s cn) zeroed_stream)"
    by (simp add: running_def node_of_def)
  note eff = runTransform_effect [OF c(1) this node_of_simps(1,4,5) c(2), simplified]
  obtain outs h news where
    e: "transform_f cn ctx ins = Inr (outs, h)"
      "running c (rt_nodes g) (node_of cn ids (length (streams g)) (length (slots cn outs)) (stagingHeaderStream cctx) h)
        (streams g) news"
      "map stream news = map Some (slots cn outs)" "\<forall>s \<in> set news. \<not> toStore s"
      "stagingHeaderStream c = stagingHeaderStream cctx @ header_of h"
      "length (stagingHeaderStream c) \<le> max (length (stagingHeaderStream cctx)) ZL_ENCODER_TRANSFORM_HEADER_SIZE_LIMIT"
      "sentHeaderStream c = sentHeaderStream cctx" "cc_version c = cc_version cctx" "cc_nbInputs c = cc_nbInputs cctx"
      and r: "length (slots cn outs) \<le> ZL_transformOutStreamsLimit (cc_version cctx)" "list_all wf_data (slots cn outs)"
        "cc_version cctx < 9 \<longrightarrow> slots cn outs \<noteq> []"
        "maybeDictIndex cn \<noteq> ZL_DICT_INDEX_NONE \<longrightarrow> ZL_MATERIALIZED_DICT_VERSION_MIN \<le> cc_version cctx"
    using eff by blast
  have "codec_ran ctx (cc_version cctx) cn ins outs h"
    using e(1) r chk by (simp add: codec_ran_def ins_def)
  moreover
  have ln: "length news = length (slots cn outs)" using arg_cong [OF e(3), of length] by simp
  have "stream (news ! q) = Some (slots cn outs ! q)" "\<not> toStore (news ! q)" if "q < length (slots cn outs)" for q
    using that e(3,4) ln nth_map [of q news stream] by simp_all
  moreover have "streams (rtgraph c) = streams g @ news" "rt_nodes (rtgraph c) = rt_nodes g
      @ [node_of cn ids (length (streams g)) (length (slots cn outs)) (stagingHeaderStream cctx) h]"
    using e(2) by (simp_all add: running_def)
  ultimately show "\<exists>outs h. codec_ran ctx (cc_version cctx) cn ins outs h
    \<and> rt_nodes g' = rt_nodes g @ [node_of cn ids (length (streams g)) (length (slots cn outs)) (stagingHeaderStream cctx) h]
    \<and> length (streams g') = length (streams g) + length (slots cn outs)
    \<and> (\<forall>j < length (streams g). toStore (streams g' ! j) = toStore (streams g ! j)
        \<and> (j \<notin> set ids \<or> toStore (streams g ! j) \<longrightarrow> stream (streams g' ! j) = stream (streams g ! j)))
    \<and> (\<forall>q < length (slots cn outs). \<not> toStore (streams g' ! (length (streams g) + q))
        \<and> (length (streams g) + q \<notin> set ids \<longrightarrow> stream (streams g' ! (length (streams g) + q)) = Some (slots cn outs ! q)))
    \<and> stagingHeaderStream cctx' = stagingHeaderStream cctx @ header_of h
    \<and> length (stagingHeaderStream cctx') \<le> max (length (stagingHeaderStream cctx)) ZL_ENCODER_TRANSFORM_HEADER_SIZE_LIMIT
    \<and> sentHeaderStream cctx' = sentHeaderStream cctx \<and> cc_version cctx' = cc_version cctx
    \<and> cc_nbInputs cctx' = cc_nbInputs cctx"
    using e(5-9) ln
    by (intro exI [of _ outs] exI [of _ h]) (simp add: c(3) g'_def clear_inputs nth_append)
qed

end
