(* ===== verification/Engine_Session.thy ===== *)
theory Engine_Session
  imports Engine_Invariant
begin

text \<open>
  The invariant of a session, kept by every step a graph function can take.
\<close>

section \<open>Layout\<close>

text \<open>
  \<open>laid p ns e\<close>: the outputs of the nodes \<open>ns\<close> follow each other from \<open>p\<close> to \<open>e\<close>, and every node
  reads streams made before it.
\<close>

fun laid :: "nat \<Rightarrow> RTNode list \<Rightarrow> nat \<Rightarrow> bool" where
  "laid p [] e \<longleftrightarrow> p = e"
| "laid p (nd # ns) e \<longleftrightarrow> startOutRtsids nd = p \<and> inRtsids nd \<noteq> [] \<and> (\<forall>i \<in> set (inRtsids nd). i < p)
     \<and> laid (p + nbOutStreams nd) ns e"

lemma laid_append: "laid p (ns @ ms) e \<longleftrightarrow> (\<exists>m. laid p ns m \<and> laid m ms e)"
  by (induction ns arbitrary: p) auto

lemma laid_le: "laid p ns e \<Longrightarrow> p \<le> e"
  by (induction ns arbitrary: p) force+

lemma laid_node:
  assumes "laid p ns e" "nd \<in> set ns"
  shows "p \<le> startOutRtsids nd" "startOutRtsids nd + nbOutStreams nd \<le> e" "\<forall>i \<in> set (inRtsids nd). i < startOutRtsids nd"
    "inRtsids nd \<noteq> []"
  using assms by (induction ns arbitrary: p) (use laid_le in \<open>fastforce+\<close>)

definition consumed :: "RTNode list \<Rightarrow> nat list" where
  "consumed ns = concat (map inRtsids ns)"

lemma consumed_simps [simp]: "consumed [] = []" "consumed (ns @ ms) = consumed ns @ consumed ms"
  "consumed [nd] = inRtsids nd"
  by (simp_all add: consumed_def)

lemma consumed_less: "laid p ns e \<Longrightarrow> i \<in> set (consumed ns) \<Longrightarrow> i < e"
  using laid_node by (fastforce simp: consumed_def)

section \<open>The invariant\<close>

text \<open>
  \<open>vals\<close> is the content every stream had when it was made. A node is a run of its codec on these
  contents, and its header is its segment of the staging buffer.
\<close>

definition node_ok :: "codec_ctx \<Rightarrow> nat \<Rightarrow> ZL_Data list \<Rightarrow> byte list \<Rightarrow> RTNode \<Rightarrow> bool" where
  "node_ok ctx v vals staging nd \<longleftrightarrow> (\<exists>outs h.
     codec_ran ctx v (cnode nd) (map ((!) vals) (inRtsids nd)) outs h
     \<and> nbOutStreams nd = length (slots (cnode nd) outs)
     \<and> take (nbOutStreams nd) (drop (startOutRtsids nd) vals) = slots (cnode nd) outs
     \<and> len (nodeHeaderSegment nd) = length (header_of h)
     \<and> startPos (nodeHeaderSegment nd) + len (nodeHeaderSegment nd) \<le> length staging
     \<and> take (len (nodeHeaderSegment nd)) (drop (startPos (nodeHeaderSegment nd)) staging) = header_of h)"

definition stored :: "RTGraph \<Rightarrow> nat set" where
  "stored g = {i. i < length (streams g) \<and> toStore (streams g ! i)}"

definition sound :: "codec_ctx \<Rightarrow> nat \<Rightarrow> ZL_Data list \<Rightarrow> ZL_CCtx \<Rightarrow> nat set \<Rightarrow> ZL_Data list \<Rightarrow> bool" where
  "sound ctx v inputs cctx owned vals \<longleftrightarrow>
     length vals = length (streams (rtgraph cctx)) \<and> take (length inputs) vals = inputs
     \<and> list_all wf_data vals
     \<and> laid (length inputs) (rt_nodes (rtgraph cctx)) (length vals)
     \<and> list_all (node_ok ctx v vals (stagingHeaderStream cctx)) (rt_nodes (rtgraph cctx))
     \<and> distinct (consumed (rt_nodes (rtgraph cctx)))
     \<and> owned \<inter> stored (rtgraph cctx) = {}
     \<and> (owned \<union> stored (rtgraph cctx)) \<inter> set (consumed (rt_nodes (rtgraph cctx))) = {}
     \<and> owned \<union> stored (rtgraph cctx) \<union> set (consumed (rt_nodes (rtgraph cctx))) = {..<length vals}
     \<and> (\<forall>i \<in> owned \<union> stored (rtgraph cctx). stream (streams (rtgraph cctx) ! i) = Some (vals ! i))
     \<and> (\<forall>i \<in> stored (rtgraph cctx). data_type (vals ! i) = ZL_Type_serial)
     \<and> length (stagingHeaderStream cctx) \<le> ZL_ENCODER_TRANSFORM_HEADER_SIZE_LIMIT
     \<and> sentHeaderStream cctx = [] \<and> cc_version cctx = v \<and> cc_nbInputs cctx = length inputs"

lemma soundD:
  assumes "sound ctx v inputs cctx owned vals"
  shows "length vals = length (streams (rtgraph cctx))" "take (length inputs) vals = inputs" "list_all wf_data vals"
    "laid (length inputs) (rt_nodes (rtgraph cctx)) (length vals)"
    "list_all (node_ok ctx v vals (stagingHeaderStream cctx)) (rt_nodes (rtgraph cctx))"
    "distinct (consumed (rt_nodes (rtgraph cctx)))"
    "owned \<inter> stored (rtgraph cctx) = {}"
    "(owned \<union> stored (rtgraph cctx)) \<inter> set (consumed (rt_nodes (rtgraph cctx))) = {}"
    "owned \<union> stored (rtgraph cctx) \<union> set (consumed (rt_nodes (rtgraph cctx))) = {..<length vals}"
    "\<forall>i \<in> owned \<union> stored (rtgraph cctx). stream (streams (rtgraph cctx) ! i) = Some (vals ! i)"
    "\<forall>i \<in> stored (rtgraph cctx). data_type (vals ! i) = ZL_Type_serial"
    "length (stagingHeaderStream cctx) \<le> ZL_ENCODER_TRANSFORM_HEADER_SIZE_LIMIT"
    "sentHeaderStream cctx = []" "cc_version cctx = v" "cc_nbInputs cctx = length inputs"
  using assms unfolding sound_def by blast+

lemma node_ok_mono:
  assumes "node_ok ctx v vals staging nd" "\<forall>i \<in> set (inRtsids nd). i < length vals"
    "startOutRtsids nd + nbOutStreams nd \<le> length vals"
  shows "node_ok ctx v (vals @ new) (staging @ h) nd"
proof -
  have m: "map ((!) (vals @ new)) (inRtsids nd) = map ((!) vals) (inRtsids nd)"
    using assms(2) by (simp add: nth_append)
  obtain outs hd where o: "codec_ran ctx v (cnode nd) (map ((!) vals) (inRtsids nd)) outs hd"
    "nbOutStreams nd = length (slots (cnode nd) outs)"
    "take (nbOutStreams nd) (drop (startOutRtsids nd) vals) = slots (cnode nd) outs"
    "len (nodeHeaderSegment nd) = length (header_of hd)"
    "startPos (nodeHeaderSegment nd) + len (nodeHeaderSegment nd) \<le> length staging"
    "take (len (nodeHeaderSegment nd)) (drop (startPos (nodeHeaderSegment nd)) staging) = header_of hd"
    using assms(1) unfolding node_ok_def by blast
  have "take (nbOutStreams nd) (drop (startOutRtsids nd) (vals @ new)) = slots (cnode nd) outs"
    using o(3) assms(3) by simp
  moreover have "take (len (nodeHeaderSegment nd)) (drop (startPos (nodeHeaderSegment nd)) (staging @ h)) = header_of hd"
    using o(5,6) by simp
  ultimately show ?thesis using o unfolding node_ok_def m by (intro exI [of _ outs] exI [of _ hd]) simp
qed

section \<open>Steps\<close>

lemma mapInputs_effect:
  assumes "mapInputs cctx ds = Inr cctx'"
  shows "rt_nodes (rtgraph cctx') = rt_nodes (rtgraph cctx)
    \<and> streams (rtgraph cctx') = streams (rtgraph cctx) @ map (\<lambda>d. zeroed_stream\<lparr>stream := Some d\<rparr>) ds
    \<and> same_rest cctx' cctx"
  using assms
  by (induction ds arbitrary: cctx) (auto simp: RTGM_refInput_def same_rest_def split: if_splits)

lemma sound_start:
  assumes "cleanChunk v (length inputs) c" "mapInputs c inputs = Inr cctx" "list_all wf_data inputs"
  shows "sound ctx v inputs cctx {..<length inputs} inputs"
  using mapInputs_effect [OF assms(2)] assms(1,3) by (auto simp: cleanChunk_def same_rest_def sound_def stored_def)

lemma sound_same_streams:
  assumes s: "sound ctx v inputs cctx owned vals"
    and g: "rt_nodes g = rt_nodes (rtgraph cctx)" "length (streams g) = length (streams (rtgraph cctx))"
      "\<And>j. j < length (streams g) \<Longrightarrow> toStore (streams g ! j) = toStore (streams (rtgraph cctx) ! j)"
      "\<And>j. j \<in> owned \<union> stored (rtgraph cctx) \<Longrightarrow> stream (streams g ! j) = stream (streams (rtgraph cctx) ! j)"
  shows "sound ctx v inputs (cctx\<lparr>rtgraph := g\<rparr>) owned vals"
proof -
  have st: "stored g = stored (rtgraph cctx)" using g(2,3) by (auto simp: stored_def)
  show ?thesis using soundD [OF s] g(4) by (simp add: sound_def g(1,2) st)
qed

lemma sound_store:
  assumes s: "sound ctx v inputs cctx owned vals" and i: "i \<in> owned"
    and t: "map_option data_type (RTGM_getRStream (rtgraph cctx) i) = Some ZL_Type_serial"
  shows "sound ctx v inputs (CCTX_storeStream cctx i) (owned - {i}) vals"
proof -
  note d = soundD [OF s]
  let ?g = "RTGM_storeStream (rtgraph cctx) i"
  have l: "i < length (streams (rtgraph cctx))" using i d(1,9) by auto
  have st: "stored ?g = insert i (stored (rtgraph cctx))"
    using l by (auto simp: stored_def RTGM_storeStream_def nth_list_update)
  have n: "rt_nodes ?g = rt_nodes (rtgraph cctx)" "length (streams ?g) = length (streams (rtgraph cctx))"
    by (simp_all add: RTGM_storeStream_def)
  have u: "owned - {i} \<union> stored ?g = owned \<union> stored (rtgraph cctx)" "(owned - {i}) \<inter> stored ?g = {}"
    using i d(7) unfolding st by auto
  have c: "stream (streams ?g ! j) = stream (streams (rtgraph cctx) ! j)" for j
    using l by (cases "i = j") (auto simp: RTGM_storeStream_def)
  have "data_type (vals ! i) = ZL_Type_serial" using d(10) i t by (auto simp: RTGM_getRStream_def)
  then have "\<forall>j \<in> stored ?g. data_type (vals ! j) = ZL_Type_serial" using d(11) by (simp add: st)
  then show ?thesis using d unfolding sound_def CCTX_storeStream_def by (simp add: u n c)
qed

lemma list_update_same: "f (x) = f (xs ! i) \<Longrightarrow> f (xs[i := x] ! j) = f (xs ! j)"
  by (cases "i < length xs"; cases "i = j") (simp_all add: not_less list_update_beyond)

lemma guardRTStream_simps [simp]:
  "rt_nodes (RTGM_guardRTStream g i r) = rt_nodes g"
  "length (streams (RTGM_guardRTStream g i r)) = length (streams g)"
  "toStore (streams (RTGM_guardRTStream g i r) ! j) = toStore (streams g ! j)"
  "stream (streams (RTGM_guardRTStream g i r) ! j) = stream (streams g ! j)"
  by (simp_all add: RTGM_guardRTStream_def list_update_same)

lemma sound_guard:
  assumes "sound ctx v inputs cctx owned vals"
  shows "sound ctx v inputs (cctx\<lparr>rtgraph := RTGM_guardRTStream (rtgraph cctx) i rank\<rparr>) owned vals"
  by (rule sound_same_streams [OF assms]) simp_all

lemma sound_clear:
  assumes "sound ctx v inputs cctx owned vals" "i \<notin> owned"
  shows "sound ctx v inputs (cctx\<lparr>rtgraph := RTGM_clearRTStream (rtgraph cctx) i rank\<rparr>) owned vals"
proof (rule sound_same_streams [OF assms(1)])
  fix j assume "j \<in> owned \<union> stored (rtgraph cctx)"
  then have "j < length (streams (rtgraph cctx))" "j \<noteq> i \<or> toStore (streams (rtgraph cctx) ! j)"
    using soundD(1,9) [OF assms(1)] assms(2) by (auto simp: stored_def)
  then show "stream (streams (RTGM_clearRTStream (rtgraph cctx) i rank) ! j) = stream (streams (rtgraph cctx) ! j)"
    by simp
qed simp_all

lemma header_segment:
  "len (nodeHeaderSegment (node_of cn ids p n staging h)) = length (header_of h)"
  "startPos (nodeHeaderSegment (node_of cn ids p n staging h)) + length (header_of h) \<le> length (staging @ header_of h)"
  "take (length (header_of h)) (drop (startPos (nodeHeaderSegment (node_of cn ids p n staging h))) (staging @ header_of h))
    = header_of h"
  by (auto simp: node_of_def header_of_def split: option.splits)

lemma sound_node:
  assumes s: "sound ctx v inputs cctx owned vals" and ids: "set ids \<subseteq> owned" "distinct ids" "ids \<noteq> []"
    and run: "CCTX_runCNode_wParams ctx cctx cn ids = Inr (rtnid, cctx')"
  shows "\<exists>new. sound ctx v inputs cctx'
    (owned - set ids \<union> {length (streams (rtgraph cctx))..<length (streams (rtgraph cctx'))}) (vals @ new)"
proof -
  note d = soundD [OF s]
  let ?g = "rtgraph cctx" and ?g' = "rtgraph cctx'"
  let ?T = "length (streams ?g)"
  have own: "i < ?T" "stream (streams ?g ! i) = Some (vals ! i)" "i \<notin> set (consumed (rt_nodes ?g))"
    "\<not> toStore (streams ?g ! i)" if "i \<in> owned" for i
    using that d(1,7-10) by (auto simp: stored_def)
  have ins: "map (\<lambda>i. the (stream (streams ?g ! i))) ids = map ((!) vals) ids" using own(2) ids(1) by auto
  obtain outs h where r: "codec_ran ctx v cn (map ((!) vals) ids) outs h"
    and n: "rt_nodes ?g' = rt_nodes ?g @ [node_of cn ids ?T (length (slots cn outs)) (stagingHeaderStream cctx) h]"
    and l: "length (streams ?g') = ?T + length (slots cn outs)"
    and old: "\<forall>j < ?T. toStore (streams ?g' ! j) = toStore (streams ?g ! j)
        \<and> (j \<notin> set ids \<or> toStore (streams ?g ! j) \<longrightarrow> stream (streams ?g' ! j) = stream (streams ?g ! j))"
    and new: "\<forall>q < length (slots cn outs). \<not> toStore (streams ?g' ! (?T + q))
        \<and> (?T + q \<notin> set ids \<longrightarrow> stream (streams ?g' ! (?T + q)) = Some (slots cn outs ! q))"
    and st: "stagingHeaderStream cctx' = stagingHeaderStream cctx @ header_of h"
      "length (stagingHeaderStream cctx') \<le> max (length (stagingHeaderStream cctx)) ZL_ENCODER_TRANSFORM_HEADER_SIZE_LIMIT"
      "sentHeaderStream cctx' = sentHeaderStream cctx" "cc_version cctx' = cc_version cctx" "cc_nbInputs cctx' = cc_nbInputs cctx"
    using runCNode_effect [OF run] unfolding ins d(14) by blast
  let ?nd = "node_of cn ids ?T (length (slots cn outs)) (stagingHeaderStream cctx) h"
  let ?vals = "vals @ slots cn outs" and ?owned = "owned - set ids \<union> {?T..<length (streams ?g')}"
  have sto: "stored ?g' = stored ?g"
  proof -
    have "\<not> toStore (streams ?g' ! i)" if "?T \<le> i" "i < length (streams ?g')" for i
      using new that l by (metis add_diff_cancel_left' le_add_diff_inverse less_diff_conv2 add.commute)
    moreover have "toStore (streams ?g' ! i) = toStore (streams ?g ! i)" if "i < ?T" for i using old that by blast
    ultimately have "i < length (streams ?g') \<and> toStore (streams ?g' ! i) \<longleftrightarrow> i < ?T \<and> toStore (streams ?g ! i)" for i
      using l by (cases "i < ?T") auto
    then show ?thesis by (simp add: stored_def)
  qed
  have stl: "i < ?T" if "i \<in> stored ?g" for i using that by (simp add: stored_def)
  have "list_all (node_ok ctx v ?vals (stagingHeaderStream cctx')) (rt_nodes ?g)"
    unfolding list_all_iff st(1)
  proof (intro ballI node_ok_mono)
    fix nd assume "nd \<in> set (rt_nodes ?g)"
    note ln = laid_node [OF d(4) this]
    show "node_ok ctx v vals (stagingHeaderStream cctx) nd" using d(5) \<open>nd \<in> _\<close> by (simp add: list_all_iff)
    show "startOutRtsids nd + nbOutStreams nd \<le> length vals" using ln(2) .
    fix i assume "i \<in> set (inRtsids nd)"
    then show "i < length vals" using ln(2,3) by fastforce
  qed
  moreover have "node_ok ctx v ?vals (stagingHeaderStream cctx') ?nd"
  proof -
    have "map ((!) ?vals) ids = map ((!) vals) ids" using own(1) ids(1) d(1) by (auto simp: nth_append)
    then have "codec_ran ctx v (cnode ?nd) (map ((!) ?vals) (inRtsids ?nd)) outs h" using r by (metis node_of_simps(1,2))
    then show ?thesis unfolding node_ok_def st(1) header_segment(1)
    proof (intro exI conjI)
      show "take (length (header_of h)) (drop (startPos (nodeHeaderSegment ?nd)) (stagingHeaderStream cctx @ header_of h))
          = header_of h" by (rule header_segment)
      show "startPos (nodeHeaderSegment ?nd) + length (header_of h) \<le> length (stagingHeaderStream cctx @ header_of h)"
        by (rule header_segment)
    qed (use d(1) in \<open>simp_all\<close>)
  qed
  ultimately have "list_all (node_ok ctx v ?vals (stagingHeaderStream cctx')) (rt_nodes ?g')" by (simp add: n)
  moreover have "laid (length inputs) (rt_nodes ?g') (length ?vals)"
    using d(1,4) own(1) ids by (auto simp: n laid_append)
  moreover have "distinct (consumed (rt_nodes ?g'))" using d(6) ids own(3) by (auto simp: n)
  moreover have "list_all wf_data ?vals" using d(3) r by (simp add: codec_ran_def)
  moreover have "take (length inputs) ?vals = inputs" using d(2) laid_le [OF d(4)] by simp
  moreover have "?owned \<inter> stored ?g' = {}" using d(7) stl unfolding sto by fastforce
  moreover have con: "set (consumed (rt_nodes ?g')) = set (consumed (rt_nodes ?g)) \<union> set ids" by (simp add: n)
  moreover have "(?owned \<union> stored ?g') \<inter> set (consumed (rt_nodes ?g')) = {}"
  proof -
    have "set (consumed (rt_nodes ?g)) \<union> set ids \<subseteq> {..<?T}" using consumed_less [OF d(4)] d(1) own(1) ids(1) by auto
    then have "{?T..<length (streams ?g')} \<inter> (set (consumed (rt_nodes ?g)) \<union> set ids) = {}" by fastforce
    then show ?thesis using d(7,8) ids(1) unfolding con sto by blast
  qed
  moreover have "?owned \<union> stored ?g' \<union> set (consumed (rt_nodes ?g')) = {..<length ?vals}"
  proof -
    have "owned - set ids \<union> stored ?g \<union> (set (consumed (rt_nodes ?g)) \<union> set ids) = {..<?T}"
      using d(1,9) ids(1) by auto
    moreover have "{..<length ?vals} = {..<?T} \<union> {?T..<length (streams ?g')}" using d(1) l by auto
    ultimately show ?thesis unfolding con sto by blast
  qed
  moreover have "stream (streams ?g' ! i) = Some (?vals ! i)" if i: "i \<in> ?owned \<union> stored ?g'" for i
  proof (cases "i < ?T")
    case True
    then have "i \<in> owned - set ids \<union> stored ?g" using i by (auto simp: sto)
    then have "stream (streams ?g' ! i) = stream (streams ?g ! i)" "stream (streams ?g ! i) = Some (vals ! i)"
      using old True d(10) by (auto simp: stored_def dest: bspec)
    then show ?thesis using True d(1) by (simp add: nth_append)
  next
    case False
    then have "i - ?T < length (slots cn outs)" "i \<notin> set ids" using i l own(1) ids(1) stl unfolding sto by auto
    then show ?thesis using new False d(1) by (auto simp: nth_append not_less)
  qed
  moreover have "\<forall>i \<in> stored ?g'. data_type (?vals ! i) = ZL_Type_serial"
    using d(1,11) stl by (simp add: sto nth_append)
  moreover have "length ?vals = length (streams ?g')" using d(1) l by simp
  ultimately have "sound ctx v inputs cctx' ?owned ?vals" using d(12-15) st(2-5) unfolding sound_def by simp
  then show ?thesis ..
qed

lemma session_invariant:
  assumes "session ctx v inputs cctx owned" "list_all wf_data inputs"
  shows "\<exists>vals. sound ctx v inputs cctx owned vals"
  using assms(1)
proof induction
  case (start cctx cctx')
  then show ?case using sound_start assms(2) by blast
next
  case (node cctx owned ids cn rtnid cctx')
  then show ?case using sound_node by meson
next
  case (store cctx owned i)
  then show ?case using sound_store by blast
next
  case (guard cctx owned i rank)
  then show ?case using sound_guard by blast
next
  case (clear cctx owned i rank)
  then show ?case using sound_clear by blast
qed

end
