(* ===== verification/Engine_Decode.thy ===== *)
theory Engine_Decode
  imports Engine_Encode
begin

text \<open>
  The decompression engine on one chunk (\<^verbatim>\<open>decompress/decompress2.c\<close>, \<^verbatim>\<open>decompress/dtransforms.c\<close>,
  \<^verbatim>\<open>decompress/dictx.c\<close>): from a decoded chunk header, the position of every stream in the
  decoder's array, the stored streams, and the run of the decoders. The two shortcuts that leave
  the result alone, fused decoders and appending straight to the output, are not modelled.
\<close>

section \<open>Decoders\<close>

text \<open>
  \<open>transformFn\<close> gets the engine's answers, the dictionary index, the codec header, the streams and
  the number of streams to regenerate, and creates regenerated streams by their index.
\<close>

record DTransform =
  dt_inputTypes :: "ZL_Type list"
  dt_lastInputIsVariable :: bool
  dt_soTypes :: "ZL_Type list"
  dt_voTypes :: "ZL_Type list"
  transformFn :: "codec_ctx \<Rightarrow> u32 \<Rightarrow> byte list \<Rightarrow> ZL_Data list \<Rightarrow> nat \<Rightarrow> (nat \<times> ZL_Data) list ZL_Result"

record StandardDTransform =
  sdt_minFormatVersion :: nat
  sdt_maxFormatVersion :: nat
  dtr :: DTransform

text \<open>The table of standard decoders and the map of the custom ones.\<close>

record DTransforms_manager =
  SDecoders_array :: "u32 \<Rightarrow> StandardDTransform"
  dtmap :: "u32 \<rightharpoonup> DTransform"

definition DT_isNbRegensCompatible :: "DTransform \<Rightarrow> nat \<Rightarrow> bool" where
  "DT_isNbRegensCompatible dt n =
     (if dt_lastInputIsVariable dt then length (dt_inputTypes dt) - 1 \<le> n else n = length (dt_inputTypes dt))"

definition DT_getRegenType :: "DTransform \<Rightarrow> nat \<Rightarrow> ZL_Type" where
  "DT_getRegenType dt regenIdx =
     (let regenIdx = (if length (dt_inputTypes dt) \<le> regenIdx then length (dt_inputTypes dt) - 1 else regenIdx)
      in dt_inputTypes dt ! regenIdx)"

definition DTM_getStandardTransform :: "DTransforms_manager \<Rightarrow> u32 \<Rightarrow> nat \<Rightarrow> DTransform ZL_Result" where
  "DTM_getStandardTransform dtm transformID v =
     (if ZL_StandardTransformID_end \<le> transformID then Inl ZL_ErrorCode_logicError
      else let d = SDecoders_array dtm transformID in
      if v < sdt_minFormatVersion d \<or> sdt_maxFormatVersion d < v then Inl ZL_ErrorCode_formatVersion_unsupported
      else Inr (dtr d))"

definition DTM_getTransform :: "DTransforms_manager \<Rightarrow> PublicTransformInfo \<Rightarrow> nat \<Rightarrow> DTransform ZL_Result" where
  "DTM_getTransform dtm info v =
     (if trt info = trt_standard then DTM_getStandardTransform dtm (trid info) v
      else case dtmap dtm (trid info) of None \<Rightarrow> Inl ZL_ErrorCode_graph_invalid | Some dt \<Rightarrow> Inr dt)"

section \<open>Context\<close>

record ZL_DCtx_DataInfo =
  di_data :: "ZL_Data option"
  producerNodeIdx :: "nat option"

text \<open>
  \<open>producerNodeIdx\<close> is \<^const>\<open>None\<close> for \<^verbatim>\<open>ZL_PRODUCER_STORE\<close>. \<open>nodeInputs\<close> has the first stream and the number
  of streams each node reads (\<^verbatim>\<open>inputStreamBaseIdx\<close>, \<^verbatim>\<open>numInputStreams\<close>). \<open>dctx_bundle\<close> tells, when the frame
  has a dictionary bundle, which of its dictionaries are materialized.
\<close>

record ZL_DCtx =
  dtm :: DTransforms_manager
  dfh :: DFH_Struct
  dataInfo :: "ZL_DCtx_DataInfo list"
  nodeInputs :: "(u32 \<times> u32) list"
  nbOutputs :: nat
  thstream :: "byte list"
  streamEndPos :: nat
  dctx_bundle :: "bool list option"

section \<open>Placing the streams\<close>

definition DCTX_validateNodeStatic ::
  "nat \<Rightarrow> nat \<Rightarrow> nat \<Rightarrow> DTransform \<Rightarrow> DFH_NodeInfo \<Rightarrow> u32 \<Rightarrow> u32 \<Rightarrow> unit ZL_Result" where
  "DCTX_validateNodeStatic v nbStreams nbOuts dt nodeInfo base num =
     (if v < 9 \<and> num = 0 then Inl ZL_ErrorCode_formatVersion_unsupported
      else if ZL_transformOutStreamsLimit v < unat num then Inl ZL_ErrorCode_formatVersion_unsupported
      else if nbRegens nodeInfo = 0 then Inl ZL_ErrorCode_corruption
      else if \<not> DT_isNbRegensCompatible dt (unat (nbRegens nodeInfo)) then Inl ZL_ErrorCode_nodeRegen_countIncorrect
      else if dt_voTypes dt = [] \<and> nbVOs nodeInfo \<noteq> 0 then Inl ZL_ErrorCode_corruption
      else if nbStreams < unat (base + num) then Inl ZL_ErrorCode_graph_invalid
      else if (word_of_nat nbStreams - word_of_nat nbOuts :: size_t) < ucast (base + num) then Inl ZL_ErrorCode_graph_invalid
      else Inr ())"

primrec markRegens :: "nat \<Rightarrow> nat \<Rightarrow> u32 list \<Rightarrow> ZL_DCtx_DataInfo list \<Rightarrow> ZL_DCtx_DataInfo list ZL_Result" where
  "markRegens transformIdx inputEndIdx [] infos = Inr infos"
| "markRegens transformIdx inputEndIdx (d # ds) infos =
     (let outputStreamIdx = inputEndIdx + unat d in
      if length infos \<le> outputStreamIdx then Inl ZL_ErrorCode_corruption
      else if producerNodeIdx (infos ! outputStreamIdx) \<noteq> None then Inl ZL_ErrorCode_corruption
      else markRegens transformIdx inputEndIdx ds
        (infos[outputStreamIdx := (infos ! outputStreamIdx)\<lparr>producerNodeIdx := Some transformIdx\<rparr>]))"

text \<open>The loop over the nodes, at node \<open>transformIdx\<close> and stream \<open>streamIdx\<close>.\<close>

primrec planNodes ::
  "DTransforms_manager \<Rightarrow> nat \<Rightarrow> nat \<Rightarrow> nat \<Rightarrow> nat \<Rightarrow> DFH_NodeInfo list \<Rightarrow> ZL_DCtx_DataInfo list
    \<Rightarrow> ((u32 \<times> u32) list \<times> ZL_DCtx_DataInfo list) ZL_Result" where
  "planNodes tm v nbOuts transformIdx streamIdx [] infos = Inr ([], infos)"
| "planNodes tm v nbOuts transformIdx streamIdx (node # rest) infos =
     res_bind (DTM_getTransform tm (trpid node) v) (\<lambda>wrappedTr.
     let nbTrIns = length (dt_soTypes wrappedTr) + unat (nbVOs node);
         base = word_of_nat streamIdx; num = word_of_nat nbTrIns; inputEndIdx = streamIdx + nbTrIns in
     res_bind (DCTX_validateNodeStatic v (length infos) nbOuts wrappedTr node base num) (\<lambda>_.
     res_bind (markRegens transformIdx inputEndIdx (regenDistances node) infos) (\<lambda>infos.
     res_bind (planNodes tm v nbOuts (transformIdx + 1) inputEndIdx rest infos) (\<lambda>(bs, infos).
     Inr ((base, num) # bs, infos)))))"

text \<open>Each stream that no node regenerates is the next stored one.\<close>

fun placeStored :: "byte list \<Rightarrow> ZL_DCtx_DataInfo list \<Rightarrow> size_t list \<Rightarrow> nat \<Rightarrow> (ZL_DCtx_DataInfo list \<times> nat) ZL_Result" where
  "placeStored src [] sizes srcPos = (if sizes = [] then Inr ([], srcPos) else Inl ZL_ErrorCode_corruption)"
| "placeStored src (info # infos) sizes srcPos =
     (if producerNodeIdx info \<noteq> None then
        res_bind (placeStored src infos sizes srcPos) (\<lambda>(infos, srcPos). Inr (info # infos, srcPos))
      else case sizes of [] \<Rightarrow> Inl ZL_ErrorCode_corruption
      | storedSize # sizes \<Rightarrow>
        res_bind (placeStored src infos sizes (srcPos + unat storedSize)) (\<lambda>(infos, pos).
        Inr (info\<lparr>di_data := Some (serial (take (unat storedSize) (drop srcPos src)))\<rparr> # infos, pos)))"

definition fillStoredStreams :: "ZL_DCtx \<Rightarrow> byte list \<Rightarrow> nat \<Rightarrow> (ZL_DCtx \<times> nat) ZL_Result" where
  "fillStoredStreams dctx src start =
     (let h = dfh dctx; thsize = totalTHSize h; srcPos = start + thsize;
          totalNbStreams = length (storedStreamSizes h) + length (dfh_regenDistances h) in
      if length src < srcPos then Inl ZL_ErrorCode_srcSize_tooSmall
      else if ZL_runtimeStreamLimit (dfh_formatVersion h) < totalNbStreams
        then Inl ZL_ErrorCode_temporaryLibraryLimitation
      else
      res_bind (planNodes (dtm dctx) (dfh_formatVersion h) (nbOutputs dctx) 0 0 (nodes h)
        (replicate totalNbStreams \<lparr>di_data = None, producerNodeIdx = None\<rparr>)) (\<lambda>(bs, infos).
      res_bind (placeStored src infos (storedStreamSizes h) srcPos) (\<lambda>(infos, srcPos).
      if totalNbStreams = 0 then Inl ZL_ErrorCode_corruption
      else if length src < srcPos then Inl ZL_ErrorCode_srcSize_tooSmall
      else Inr (dctx\<lparr>dataInfo := infos, nodeInputs := bs, thstream := take thsize (drop start src), streamEndPos := srcPos\<rparr>,
        srcPos - start))))"

section \<open>Running the decoders\<close>

definition DCTX_getNodeInputs :: "ZL_DCtx \<Rightarrow> u32 \<times> u32 \<Rightarrow> ZL_Data option list" where
  "DCTX_getNodeInputs dctx bn = rev (map (\<lambda>n. di_data (dataInfo dctx ! (unat (fst bn) + n))) [0..<unat (snd bn)])"

text \<open>A missing input fails an assertion: \<open>ZL_ErrorCode_logicError\<close> here, and \<open>decoder_inputs_ready\<close> shows it does not occur.\<close>

definition DCTX_validateNodeInputs :: "DTransform \<Rightarrow> ZL_Data option list \<Rightarrow> unit ZL_Result" where
  "DCTX_validateNodeInputs dt inputs =
     (if list_ex (\<lambda>i. i = None) inputs then Inl ZL_ErrorCode_logicError
      else if list_ex (\<lambda>i. if i < length (dt_soTypes dt) then data_type (the (inputs ! i)) \<noteq> dt_soTypes dt ! i
          else data_type (the (inputs ! i)) \<notin> set (dt_voTypes dt)) [0..<length inputs]
        then Inl ZL_ErrorCode_graph_invalid
      else Inr ())"

definition DCTX_getRegeneratedStreamIDs :: "DFH_NodeInfo \<Rightarrow> u32 \<times> u32 \<Rightarrow> nat list" where
  "DCTX_getRegeneratedStreamIDs nodeInfo bn = map (\<lambda>d. unat (fst bn + snd bn + d)) (regenDistances nodeInfo)"

definition checkDict :: "bool list option \<Rightarrow> u32 \<Rightarrow> unit ZL_Result" where
  "checkDict b idx =
     (if idx = ZL_DICT_INDEX_NONE then Inr ()
      else case b of None \<Rightarrow> Inl ZL_ErrorCode_logicError
      | Some dicts \<Rightarrow>
        if length dicts \<le> unat idx then Inl ZL_ErrorCode_corruption
        else if \<not> dicts ! unat idx then Inl ZL_ErrorCode_dict_materialization
        else Inr ())"

text \<open>The decoder makes a stream, fills it and commits it; it reports an allocation error when it gets none.\<close>

definition DCTX_newStream :: "nat \<Rightarrow> ZL_Type \<Rightarrow> ZL_Data \<Rightarrow> ZL_DCtx_DataInfo list \<Rightarrow> ZL_DCtx_DataInfo list ZL_Result" where
  "DCTX_newStream streamID stype d infos =
     (case STREAM_validateTypeWidth stype (eltWidth d) of
        Inl _ \<Rightarrow> Inl ZL_ErrorCode_allocation
      | Inr _ \<Rightarrow> if \<not> wf_data (d\<lparr>data_type := stype\<rparr>) then Inl ZL_ErrorCode_allocation
          else Inr (infos[streamID := (infos ! streamID)\<lparr>di_data := Some (d\<lparr>data_type := stype\<rparr>)\<rparr>]))"

definition ZL_Decoder_createTypedStream ::
  "DTransform \<Rightarrow> nat list \<Rightarrow> nat \<Rightarrow> ZL_Data \<Rightarrow> ZL_DCtx_DataInfo list \<Rightarrow> ZL_DCtx_DataInfo list ZL_Result" where
  "ZL_Decoder_createTypedStream dt regensID index d infos =
     (if eltWidth d = 0 then Inl ZL_ErrorCode_allocation
      else if length regensID \<le> index then Inl ZL_ErrorCode_allocation
      else DCTX_newStream (regensID ! index) (DT_getRegenType dt index) d infos)"

primrec createRegens ::
  "DTransform \<Rightarrow> nat list \<Rightarrow> (nat \<times> ZL_Data) list \<Rightarrow> ZL_DCtx_DataInfo list \<Rightarrow> ZL_DCtx_DataInfo list ZL_Result" where
  "createRegens dt regensID [] infos = Inr infos"
| "createRegens dt regensID (x # xs) infos =
     res_bind (ZL_Decoder_createTypedStream dt regensID (fst x) (snd x) infos) (\<lambda>infos. createRegens dt regensID xs infos)"

definition DCTX_validateNodeOutputs :: "nat list \<Rightarrow> ZL_DCtx_DataInfo list \<Rightarrow> unit ZL_Result" where
  "DCTX_validateNodeOutputs regensID infos =
     (if list_ex (\<lambda>i. di_data (infos ! i) = None) regensID then Inl ZL_ErrorCode_transform_executionFailure else Inr ())"

definition DCTX_freeDecoderInputStreams :: "u32 \<times> u32 \<Rightarrow> ZL_DCtx_DataInfo list \<Rightarrow> ZL_DCtx_DataInfo list" where
  "DCTX_freeDecoderInputStreams bn infos =
     foldl (\<lambda>infos n. infos[unat (fst bn) + n := (infos ! (unat (fst bn) + n))\<lparr>di_data := None\<rparr>]) infos [0..<unat (snd bn)]"

definition DCTX_runDecoder :: "codec_ctx \<Rightarrow> ZL_DCtx \<Rightarrow> nat \<Rightarrow> ZL_DCtx ZL_Result" where
  "DCTX_runDecoder ctx dctx stage =
     (let nodeInfo = nodes (dfh dctx) ! stage; bn = nodeInputs dctx ! stage in
      res_bind (DTM_getTransform (dtm dctx) (trpid nodeInfo) (dfh_formatVersion (dfh dctx))) (\<lambda>dt.
      let inputs = DCTX_getNodeInputs dctx bn; regensID = DCTX_getRegeneratedStreamIDs nodeInfo bn in
      res_bind (DCTX_validateNodeInputs dt inputs) (\<lambda>_.
      res_bind (ZL_RBuffer_slice (thstream dctx) (trhStart nodeInfo) (unat (trhSize nodeInfo))) (\<lambda>thContent.
      res_bind (checkDict (dctx_bundle dctx) (dictIdx nodeInfo)) (\<lambda>_.
      res_bind (transformFn dt ctx (dictIdx nodeInfo) thContent (map the inputs) (unat (nbRegens nodeInfo))) (\<lambda>outs.
      res_bind (createRegens dt regensID outs (dataInfo dctx)) (\<lambda>infos.
      res_bind (DCTX_validateNodeOutputs regensID infos) (\<lambda>_.
      Inr (dctx\<lparr>dataInfo := DCTX_freeDecoderInputStreams bn infos\<rparr>)))))))))"

primrec runStages :: "codec_ctx \<Rightarrow> ZL_DCtx \<Rightarrow> nat list \<Rightarrow> ZL_DCtx ZL_Result" where
  "runStages ctx dctx [] = Inr dctx"
| "runStages ctx dctx (s # ss) = res_bind (DCTX_runDecoder ctx dctx s) (\<lambda>dctx. runStages ctx dctx ss)"

definition runDecoders :: "codec_ctx \<Rightarrow> ZL_DCtx \<Rightarrow> ZL_DCtx ZL_Result" where
  "runDecoders ctx dctx = runStages ctx dctx [0..<length (nodes (dfh dctx))]"

text \<open>The streams of the chunk that go to the outputs: the last ones, in reverse order.\<close>

definition chunkOutputs :: "ZL_DCtx \<Rightarrow> ZL_Data list ZL_Result" where
  "chunkOutputs dctx =
     (let nbStreams = length (dataInfo dctx) in
      if nbStreams < nbOutputs dctx then Inl ZL_ErrorCode_outputs_tooNumerous
      else if list_ex (\<lambda>n. di_data (dataInfo dctx ! (nbStreams - n - 1)) = None) [0..<nbOutputs dctx]
        then Inl ZL_ErrorCode_graph_invalid
      else Inr (map (\<lambda>n. the (di_data (dataInfo dctx ! (nbStreams - n - 1)))) [0..<nbOutputs dctx]))"

end
