(* ===== verification/Engine_Safety.thy ===== *)
theory Engine_Safety
  imports Engine_Decode Chunk_Roundtrip
begin

text \<open>
  Decoding an arbitrary chunk: once the header is decoded and the streams are placed, no decoder ever
  runs with a missing input or writes to a stream that is there already.
\<close>

section \<open>Regenerated streams\<close>

lemma map_update_same: "f y = f (xs ! i) \<Longrightarrow> map f (xs[i := y]) = map f xs"
  by (cases "i < length xs") (simp_all add: map_update list_update_same_conv not_less list_update_beyond)

lemma markRegens_effect:
  assumes "markRegens t e ds infos = Inr infos'"
  shows "distinct (map (\<lambda>d. e + unat d) ds)" "length infos' = length infos"
    "\<forall>d \<in> set ds. e + unat d < length infos \<and> producerNodeIdx (infos ! (e + unat d)) = None"
    "map di_data infos' = map di_data infos"
    "\<forall>q < length infos. producerNodeIdx (infos' ! q)
      = (if q \<in> set (map (\<lambda>d. e + unat d) ds) then Some t else producerNodeIdx (infos ! q))"
proof -
  have "distinct (map (\<lambda>d. e + unat d) ds) \<and> length infos' = length infos
    \<and> (\<forall>d \<in> set ds. e + unat d < length infos \<and> producerNodeIdx (infos ! (e + unat d)) = None)
    \<and> map di_data infos' = map di_data infos
    \<and> (\<forall>q < length infos. producerNodeIdx (infos' ! q)
      = (if q \<in> set (map (\<lambda>d. e + unat d) ds) then Some t else producerNodeIdx (infos ! q)))"
    using assms
  proof (induction ds arbitrary: infos)
    case (Cons d ds)
    let ?infos = "infos[e + unat d := (infos ! (e + unat d))\<lparr>producerNodeIdx := Some t\<rparr>]"
    have g: "e + unat d < length infos" "producerNodeIdx (infos ! (e + unat d)) = None"
      "markRegens t e ds ?infos = Inr infos'"
      using Cons.prems by (auto simp: Let_def split: if_splits)
    have m: "map di_data ?infos = map di_data infos" by (simp add: map_update_same)
    from Cons.IH [OF g(3)] g(1,2) show ?case unfolding m by (auto simp: nth_list_update split: if_splits)
  qed simp
  then show "distinct (map (\<lambda>d. e + unat d) ds)" "length infos' = length infos"
    "\<forall>d \<in> set ds. e + unat d < length infos \<and> producerNodeIdx (infos ! (e + unat d)) = None"
    "map di_data infos' = map di_data infos"
    "\<forall>q < length infos. producerNodeIdx (infos' ! q)
      = (if q \<in> set (map (\<lambda>d. e + unat d) ds) then Some t else producerNodeIdx (infos ! q))" by blast+
qed

text \<open>\<open>chained p bs e\<close>: the nodes read the streams from \<open>p\<close> to \<open>e\<close>, one after the other.\<close>

fun chained :: "nat \<Rightarrow> (u32 \<times> u32) list \<Rightarrow> nat \<Rightarrow> bool" where
  "chained p [] e \<longleftrightarrow> p = e"
| "chained p (b # bs) e \<longleftrightarrow> unat (fst b) = p \<and> chained (p + unat (snd b)) bs e"

abbreviation ends :: "u32 \<times> u32 \<Rightarrow> nat" where "ends bn \<equiv> unat (fst bn) + unat (snd bn)"

text \<open>What placing the nodes from node \<open>t\<close> on has done to the array.\<close>

definition planned :: "nat \<Rightarrow> DFH_NodeInfo list \<Rightarrow> (u32 \<times> u32) list \<Rightarrow> ZL_DCtx_DataInfo list \<Rightarrow> ZL_DCtx_DataInfo list \<Rightarrow> bool" where
  "planned t nds bs infos infos' \<longleftrightarrow>
     length bs = length nds \<and> length infos' = length infos \<and> map di_data infos' = map di_data infos
     \<and> (\<forall>s < length nds. distinct (DCTX_getRegeneratedStreamIDs (nds ! s) (bs ! s))
         \<and> (\<forall>q \<in> set (DCTX_getRegeneratedStreamIDs (nds ! s) (bs ! s)).
              q < length infos \<and> ends (bs ! s) \<le> q \<and> producerNodeIdx (infos' ! q) = Some (t + s)))
     \<and> (\<forall>q < length infos. producerNodeIdx (infos' ! q) \<noteq> producerNodeIdx (infos ! q) \<longrightarrow>
          producerNodeIdx (infos ! q) = None
          \<and> (\<exists>s < length nds. producerNodeIdx (infos' ! q) = Some (t + s)
               \<and> q \<in> set (DCTX_getRegeneratedStreamIDs (nds ! s) (bs ! s))))"

lemma regen_ids:
  assumes "e + unat d < 2 ^ 32" "e = unat b + unat n"
  shows "unat (b + n + d :: u32) = e + unat d"
proof -
  have "unat (b + n) = unat b + unat n" using assms by (intro unat_add_lem [THEN iffD1]) simp
  then show ?thesis using assms unat_add_lem [THEN iffD1, of "b + n" d] by simp
qed

lemma unat_u32: "n < 2 ^ 32 \<Longrightarrow> unat (word_of_nat n :: u32) = n"
  by (simp add: unat_of_nat)

lemma stream_limit: "ZL_runtimeStreamLimit v \<le> 110000" "ZL_transformOutStreamsLimit v \<le> 100000"
  by (simp_all add: ZL_runtimeStreamLimit_def ZL_transformOutStreamsLimit_def)

lemma planNodes_planned:
  assumes "planNodes tm v nbOuts t p nds infos = Inr (bs, infos')"
    "\<forall>nd \<in> set nds. length (regenDistances nd) = unat (nbRegens nd)" "length infos \<le> 110000" "p \<le> length infos"
  shows "planned t nds bs infos infos' \<and> (\<exists>e \<le> length infos. chained p bs e)"
  using assms
proof (induction nds arbitrary: t p infos bs)
  case Nil
  then show ?case by (auto simp: planned_def)
next
  case (Cons nd nds)
  obtain dt infos1 bs1 where g: "DTM_getTransform tm (trpid nd) v = Inr dt"
    and n: "nbRegens nd \<noteq> 0"
    and m: "markRegens t (p + (length (dt_soTypes dt) + unat (nbVOs nd))) (regenDistances nd) infos = Inr infos1"
    and r: "planNodes tm v nbOuts (t + 1) (p + (length (dt_soTypes dt) + unat (nbVOs nd))) nds infos1 = Inr (bs1, infos')"
    and b: "bs = (word_of_nat p, word_of_nat (length (dt_soTypes dt) + unat (nbVOs nd))) # bs1"
    using Cons.prems(1) by (auto simp: Let_def DCTX_validateNodeStatic_def split: if_splits)
  let ?n = "length (dt_soTypes dt) + unat (nbVOs nd)"
  note me = markRegens_effect [OF m]
  have "regenDistances nd \<noteq> []" using Cons.prems(2) n by (force simp: unat_eq_zero)
  then obtain d0 where "d0 \<in> set (regenDistances nd)" by (cases "regenDistances nd") auto
  then have e: "p + ?n < length infos" using me(3) by fastforce
  have w: "unat (word_of_nat p :: u32) = p" "unat (word_of_nat ?n :: u32) = ?n"
    using e Cons.prems(3) by (intro unat_u32; simp)+
  have ids: "DCTX_getRegeneratedStreamIDs nd (hd bs) = map (\<lambda>d. p + ?n + unat d) (regenDistances nd)"
    unfolding DCTX_getRegeneratedStreamIDs_def b list.sel fst_conv snd_conv
  proof (rule map_cong [OF refl])
    fix d assume "d \<in> set (regenDistances nd)"
    then have "p + ?n + unat d < 2 ^ 32" using me(3) Cons.prems(3) by fastforce
    then show "unat (word_of_nat p + word_of_nat ?n + d :: u32) = p + ?n + unat d" by (rule regen_ids) (simp only: w)
  qed
  have IH: "planned (t + 1) nds bs1 infos1 infos' \<and> (\<exists>e \<le> length infos1. chained (p + ?n) bs1 e)"
    using r by (rule Cons.IH) (use Cons.prems(2,3) me(2) e in auto)
  have keep: "producerNodeIdx (infos' ! q) = Some t" if "q \<in> set (DCTX_getRegeneratedStreamIDs nd (hd bs))" for q
    using that IH me(2,3,5) unfolding planned_def ids by (metis (no_types, lifting) imageE list.set_map option.distinct(1))
  have "distinct (DCTX_getRegeneratedStreamIDs ((nd # nds) ! s) (bs ! s))
      \<and> (\<forall>q \<in> set (DCTX_getRegeneratedStreamIDs ((nd # nds) ! s) (bs ! s)).
              q < length infos \<and> ends (bs ! s) \<le> q \<and> producerNodeIdx (infos' ! q) = Some (t + s))"
    if "s < length (nd # nds)" for s
    using that IH me(1-3) ids keep w by (cases s) (auto simp: planned_def b simp del: of_nat_add)
  moreover have "producerNodeIdx (infos ! q) = None
          \<and> (\<exists>s < length (nd # nds). producerNodeIdx (infos' ! q) = Some (t + s)
               \<and> q \<in> set (DCTX_getRegeneratedStreamIDs ((nd # nds) ! s) (bs ! s)))"
    if q: "q < length infos" "producerNodeIdx (infos' ! q) \<noteq> producerNodeIdx (infos ! q)" for q
  proof (cases "q \<in> set (DCTX_getRegeneratedStreamIDs nd (hd bs))")
    case True
    then have "producerNodeIdx (infos ! q) = None" using me(3) by (auto simp: ids)
    then show ?thesis using True keep by (intro conjI exI [of _ 0]) (simp_all add: b)
  next
    case False
    then have "producerNodeIdx (infos1 ! q) = producerNodeIdx (infos ! q)" using me(5) q(1) by (simp add: ids)
    then obtain s where "producerNodeIdx (infos ! q) = None" "s < length nds" "producerNodeIdx (infos' ! q) = Some (t + 1 + s)"
      "q \<in> set (DCTX_getRegeneratedStreamIDs (nds ! s) (bs1 ! s))"
      using IH q me(2) unfolding planned_def by metis
    then show ?thesis by (intro conjI exI [of _ "Suc s"]) (simp_all add: b)
  qed
  moreover have "length bs = length (nd # nds)" "length infos' = length infos" "map di_data infos' = map di_data infos"
    using IH me(2,4) by (auto simp: planned_def b)
  ultimately have "planned t (nd # nds) bs infos infos'" unfolding planned_def by blast
  then show ?case using IH me(2) by (auto simp: b w simp del: of_nat_add)
qed

section \<open>Stored streams\<close>

lemma placeStored_effect:
  assumes "placeStored src infos sizes pos = Inr (infos', e)"
  shows "map producerNodeIdx infos' = map producerNodeIdx infos"
    "\<forall>q < length infos. di_data (infos' ! q) \<noteq> None \<longleftrightarrow> producerNodeIdx (infos ! q) = None \<or> di_data (infos ! q) \<noteq> None"
proof -
  have "map producerNodeIdx infos' = map producerNodeIdx infos
    \<and> (\<forall>q < length infos. di_data (infos' ! q) \<noteq> None \<longleftrightarrow> producerNodeIdx (infos ! q) = None \<or> di_data (infos ! q) \<noteq> None)"
    using assms
    by (induction src infos sizes pos arbitrary: infos' rule: placeStored.induct)
      (fastforce simp: nth_Cons' less_Suc_eq_0_disj split: if_splits list.splits)+
  then show "map producerNodeIdx infos' = map producerNodeIdx infos"
    "\<forall>q < length infos. di_data (infos' ! q) \<noteq> None \<longleftrightarrow> producerNodeIdx (infos ! q) = None \<or> di_data (infos ! q) \<noteq> None"
    by blast+
qed

section \<open>Stages\<close>

lemma chained_nth:
  assumes "chained p bs e" "s < length bs"
  shows "p \<le> unat (fst (bs ! s))" "ends (bs ! s) \<le> e"
    "Suc s < length bs \<Longrightarrow> unat (fst (bs ! Suc s)) = ends (bs ! s)"
proof -
  have "p \<le> unat (fst (bs ! s)) \<and> ends (bs ! s) \<le> e \<and> (Suc s < length bs \<longrightarrow> unat (fst (bs ! Suc s)) = ends (bs ! s))"
    using assms
  proof (induction bs arbitrary: p s)
    case (Cons b bs)
    have le: "chained q cs e \<Longrightarrow> q \<le> e" for q cs by (induction cs arbitrary: q) force+
    show ?case
    proof (cases s)
      case 0
      then show ?thesis using Cons.prems le [of "p + unat (snd b)" bs] by (cases bs) auto
    next
      case (Suc k)
      then show ?thesis using Cons.prems Cons.IH [of "p + unat (snd b)" k] by auto
    qed
  qed simp
  then show "p \<le> unat (fst (bs ! s))" "ends (bs ! s) \<le> e"
    "Suc s < length bs \<Longrightarrow> unat (fst (bs ! Suc s)) = ends (bs ! s)" by blast+
qed

lemma chained_order:
  assumes "chained p bs e" "t < length bs" "s < t"
  shows "ends (bs ! s) \<le> unat (fst (bs ! t))"
  using assms(2,3)
proof (induction t)
  case (Suc t)
  have "unat (fst (bs ! Suc t)) = ends (bs ! t)" using chained_nth(3) [OF assms(1), of t] Suc.prems by simp
  then show ?case using Suc by (cases "s = t") auto
qed simp

definition ready :: "ZL_DCtx \<Rightarrow> nat \<Rightarrow> bool" where
  "ready d t \<longleftrightarrow>
     length (nodeInputs d) = length (nodes (dfh d)) \<and> (\<exists>e \<le> length (dataInfo d). chained 0 (nodeInputs d) e)
     \<and> (\<forall>s < length (nodes (dfh d)). distinct (DCTX_getRegeneratedStreamIDs (nodes (dfh d) ! s) (nodeInputs d ! s))
         \<and> (\<forall>q \<in> set (DCTX_getRegeneratedStreamIDs (nodes (dfh d) ! s) (nodeInputs d ! s)).
              q < length (dataInfo d) \<and> ends (nodeInputs d ! s) \<le> q \<and> producerNodeIdx (dataInfo d ! q) = Some s))
     \<and> (\<forall>q < length (dataInfo d). \<forall>s. producerNodeIdx (dataInfo d ! q) = Some s \<longrightarrow>
          s < length (nodes (dfh d)) \<and> q \<in> set (DCTX_getRegeneratedStreamIDs (nodes (dfh d) ! s) (nodeInputs d ! s)))
     \<and> (\<forall>q < length (dataInfo d). (\<forall>s < t. ends (nodeInputs d ! s) \<le> q) \<longrightarrow>
          (di_data (dataInfo d ! q) \<noteq> None \<longleftrightarrow> (\<forall>s. producerNodeIdx (dataInfo d ! q) = Some s \<longrightarrow> s < t)))"

lemma readyD:
  assumes "ready d t"
  shows "length (nodeInputs d) = length (nodes (dfh d))" "\<exists>e \<le> length (dataInfo d). chained 0 (nodeInputs d) e"
    "s < length (nodes (dfh d)) \<Longrightarrow> distinct (DCTX_getRegeneratedStreamIDs (nodes (dfh d) ! s) (nodeInputs d ! s))"
    "s < length (nodes (dfh d)) \<Longrightarrow> q \<in> set (DCTX_getRegeneratedStreamIDs (nodes (dfh d) ! s) (nodeInputs d ! s))
      \<Longrightarrow> q < length (dataInfo d) \<and> ends (nodeInputs d ! s) \<le> q \<and> producerNodeIdx (dataInfo d ! q) = Some s"
    "q < length (dataInfo d) \<Longrightarrow> producerNodeIdx (dataInfo d ! q) = Some s \<Longrightarrow>
      s < length (nodes (dfh d)) \<and> q \<in> set (DCTX_getRegeneratedStreamIDs (nodes (dfh d) ! s) (nodeInputs d ! s))"
    "q < length (dataInfo d) \<Longrightarrow> \<forall>s < t. ends (nodeInputs d ! s) \<le> q \<Longrightarrow>
      di_data (dataInfo d ! q) \<noteq> None \<longleftrightarrow> (\<forall>s. producerNodeIdx (dataInfo d ! q) = Some s \<longrightarrow> s < t)"
  using assms unfolding ready_def by blast+

lemma ready_inputs:
  assumes "ready d t" "t < length (nodes (dfh d))" "unat (fst (nodeInputs d ! t)) \<le> q" "q < ends (nodeInputs d ! t)"
  shows "q < length (dataInfo d)" "di_data (dataInfo d ! q) \<noteq> None"
proof -
  note r = readyD [OF assms(1)]
  obtain e where e: "e \<le> length (dataInfo d)" "chained 0 (nodeInputs d) e" using r(2) by blast
  have t: "t < length (nodeInputs d)" using r(1) assms(2) by simp
  show q: "q < length (dataInfo d)" using chained_nth(2) [OF e(2) t] e(1) assms(4) by simp
  have "s < t" if "producerNodeIdx (dataInfo d ! q) = Some s" for s
  proof (rule ccontr)
    assume "\<not> s < t"
    then have "ends (nodeInputs d ! t) \<le> ends (nodeInputs d ! s)"
      using chained_order [OF e(2), of s t] r(1) r(5) [OF q that] by (cases "s = t") auto
    moreover have "ends (nodeInputs d ! s) \<le> q" using r(5) [OF q that] r(4) by blast
    ultimately show False using assms(4) by simp
  qed
  moreover have "\<forall>s < t. ends (nodeInputs d ! s) \<le> q" using chained_order [OF e(2) t] assms(3) le_trans by blast
  ultimately show "di_data (dataInfo d ! q) \<noteq> None" using r(6) [OF q] by blast
qed

lemma ready_regens:
  assumes "ready d t" "t < length (nodes (dfh d))"
    "q \<in> set (DCTX_getRegeneratedStreamIDs (nodes (dfh d) ! t) (nodeInputs d ! t))"
  shows "q < length (dataInfo d)" "di_data (dataInfo d ! q) = None"
proof -
  note r = readyD [OF assms(1)]
  obtain e where e: "e \<le> length (dataInfo d)" "chained 0 (nodeInputs d) e" using r(2) by blast
  have t: "t < length (nodeInputs d)" using r(1) assms(2) by simp
  have q: "q < length (dataInfo d)" "ends (nodeInputs d ! t) \<le> q" "producerNodeIdx (dataInfo d ! q) = Some t"
    using r(4) [OF assms(2,3)] by auto
  then show "q < length (dataInfo d)" by simp
  have "\<forall>s < t. ends (nodeInputs d ! s) \<le> q" using chained_order [OF e(2) t] q(2) by fastforce
  then show "di_data (dataInfo d ! q) = None" using r(6) [OF q(1)] q(3) by blast
qed

lemma createRegens_effect:
  assumes "createRegens dt ids outs infos = Inr infos'" "\<forall>q \<in> set ids. q < length infos"
  shows "map producerNodeIdx infos' = map producerNodeIdx infos" "\<forall>q. q \<notin> set ids \<longrightarrow> infos' ! q = infos ! q"
proof -
  have "map producerNodeIdx infos' = map producerNodeIdx infos \<and> (\<forall>q. q \<notin> set ids \<longrightarrow> infos' ! q = infos ! q)"
    using assms
  proof (induction outs arbitrary: infos)
    case (Cons x outs)
    let ?i = "ids ! fst x" and ?dat = "(snd x)\<lparr>data_type := DT_getRegenType dt (fst x)\<rparr>"
    have r: "fst x < length ids" "createRegens dt ids outs (infos[?i := (infos ! ?i)\<lparr>di_data := Some ?dat\<rparr>]) = Inr infos'"
      using Cons.prems(1) by (auto simp: ZL_Decoder_createTypedStream_def DCTX_newStream_def split: sum.splits if_splits)
    have i: "?i \<in> set ids" using r(1) by simp
    have "map producerNodeIdx (infos[?i := (infos ! ?i)\<lparr>di_data := Some ?dat\<rparr>]) = map producerNodeIdx infos"
      by (simp add: map_update_same)
    then show ?case using Cons.IH [OF r(2)] Cons.prems(2) i by (metis length_list_update nth_list_update_neq)
  qed simp
  then show "map producerNodeIdx infos' = map producerNodeIdx infos" "\<forall>q. q \<notin> set ids \<longrightarrow> infos' ! q = infos ! q" by blast+
qed

lemma freeInputs_effect:
  assumes "ends bn \<le> length infos"
  shows "map producerNodeIdx (DCTX_freeDecoderInputStreams bn infos) = map producerNodeIdx infos"
    "q < length infos \<Longrightarrow> di_data (DCTX_freeDecoderInputStreams bn infos ! q)
      = (if unat (fst bn) \<le> q \<and> q < ends bn then None else di_data (infos ! q))"
proof -
  let ?f = "foldl (\<lambda>infos n. infos[unat (fst bn) + n := (infos ! (unat (fst bn) + n))\<lparr>di_data := None\<rparr>])"
  have "map producerNodeIdx (?f infos [0..<k]) = map producerNodeIdx infos
      \<and> (\<forall>q < length infos. di_data (?f infos [0..<k] ! q)
          = (if unat (fst bn) \<le> q \<and> q < unat (fst bn) + k then None else di_data (infos ! q)))"
    if "unat (fst bn) + k \<le> length infos" for k
    using that
  proof (induction k)
    case (Suc k)
    let ?i = "unat (fst bn) + k"
    let ?xs = "?f infos [0..<k]"
    have IH: "map producerNodeIdx ?xs = map producerNodeIdx infos"
      "\<forall>q < length infos. di_data (?xs ! q) = (if unat (fst bn) \<le> q \<and> q < ?i then None else di_data (infos ! q))"
      using Suc by simp_all
    have l: "length ?xs = length infos" using map_eq_imp_length_eq [OF IH(1)] .
    have "?f infos [0..<Suc k] = ?xs[?i := (?xs ! ?i)\<lparr>di_data := None\<rparr>]" by simp
    then show ?case using IH l Suc.prems by (auto simp: map_update_same nth_list_update simp del: upt_Suc)
  qed auto
  from this [OF assms]
  show "map producerNodeIdx (DCTX_freeDecoderInputStreams bn infos) = map producerNodeIdx infos"
    "q < length infos \<Longrightarrow> di_data (DCTX_freeDecoderInputStreams bn infos ! q)
      = (if unat (fst bn) \<le> q \<and> q < ends bn then None else di_data (infos ! q))"
    by (auto simp: DCTX_freeDecoderInputStreams_def)
qed

lemma runDecoder_parts:
  assumes "DCTX_runDecoder ctx d t = Inr d'"
  obtains dt outs infos where
    "createRegens dt (DCTX_getRegeneratedStreamIDs (nodes (dfh d) ! t) (nodeInputs d ! t)) outs (dataInfo d) = Inr infos"
    "\<forall>q \<in> set (DCTX_getRegeneratedStreamIDs (nodes (dfh d) ! t) (nodeInputs d ! t)). di_data (infos ! q) \<noteq> None"
    "d' = d\<lparr>dataInfo := DCTX_freeDecoderInputStreams (nodeInputs d ! t) infos\<rparr>"
  using assms by (auto simp: DCTX_runDecoder_def Let_def DCTX_validateNodeOutputs_def list_ex_iff split: if_splits)

lemma ready_step:
  assumes r: "ready d t" and t: "t < length (nodes (dfh d))" and run: "DCTX_runDecoder ctx d t = Inr d'"
  shows "ready d' (Suc t)" "dfh d' = dfh d" "nodeInputs d' = nodeInputs d"
proof -
  let ?ids = "DCTX_getRegeneratedStreamIDs (nodes (dfh d) ! t) (nodeInputs d ! t)"
  obtain dt outs infos where c: "createRegens dt ?ids outs (dataInfo d) = Inr infos"
    and v: "\<forall>q \<in> set ?ids. di_data (infos ! q) \<noteq> None"
    and d': "d' = d\<lparr>dataInfo := DCTX_freeDecoderInputStreams (nodeInputs d ! t) infos\<rparr>"
    using runDecoder_parts [OF run] .
  show same: "dfh d' = dfh d" "nodeInputs d' = nodeInputs d" by (simp_all add: d')
  note rd = readyD [OF r]
  obtain e where e: "e \<le> length (dataInfo d)" "chained 0 (nodeInputs d) e" using rd(2) by blast
  have ids: "\<forall>q \<in> set ?ids. q < length (dataInfo d)" using rd(4) [OF t] by blast
  note ce = createRegens_effect [OF c ids]
  have li: "length infos = length (dataInfo d)" using ce(1) map_eq_imp_length_eq by blast
  have en: "ends (nodeInputs d ! t) \<le> length infos" using chained_nth(2) [OF e(2), of t] rd(1) t e(1) li by simp
  note fe = freeInputs_effect [OF en]
  have p: "map producerNodeIdx (dataInfo d') = map producerNodeIdx (dataInfo d)" using fe(1) ce(1) by (simp add: d')
  have l: "length (dataInfo d') = length (dataInfo d)" using p map_eq_imp_length_eq by blast
  have pn: "producerNodeIdx (dataInfo d' ! q) = producerNodeIdx (dataInfo d ! q)" if "q < length (dataInfo d)" for q
    using p that l by (metis nth_map)
  have avail: "di_data (dataInfo d' ! q) \<noteq> None \<longleftrightarrow> (\<forall>s. producerNodeIdx (dataInfo d ! q) = Some s \<longrightarrow> s < Suc t)"
    if q: "q < length (dataInfo d)" "\<forall>s < Suc t. ends (nodeInputs d ! s) \<le> q" for q
  proof -
    have f: "di_data (dataInfo d' ! q) = di_data (infos ! q)" using fe(2) [of q] q li by (force simp: d')
    show ?thesis
    proof (cases "q \<in> set ?ids")
      case True
      then show ?thesis using f v rd(4) [OF t True] by simp
    next
      case False
      then have "producerNodeIdx (dataInfo d ! q) \<noteq> Some t" using rd(5) [OF q(1)] by blast
      moreover have "di_data (dataInfo d ! q) \<noteq> None \<longleftrightarrow> (\<forall>s. producerNodeIdx (dataInfo d ! q) = Some s \<longrightarrow> s < t)"
        using rd(6) [OF q(1)] q(2) by simp
      ultimately show ?thesis using f ce(2) False by (metis less_Suc_eq)
    qed
  qed
  have "\<forall>q < length (dataInfo d). \<forall>s. producerNodeIdx (dataInfo d' ! q) = Some s \<longrightarrow> s < length (nodes (dfh d))
      \<and> q \<in> set (DCTX_getRegeneratedStreamIDs (nodes (dfh d) ! s) (nodeInputs d ! s))" using rd(5) pn by simp
  moreover have "\<forall>s < length (nodes (dfh d)). distinct (DCTX_getRegeneratedStreamIDs (nodes (dfh d) ! s) (nodeInputs d ! s))
         \<and> (\<forall>q \<in> set (DCTX_getRegeneratedStreamIDs (nodes (dfh d) ! s) (nodeInputs d ! s)).
              q < length (dataInfo d) \<and> ends (nodeInputs d ! s) \<le> q \<and> producerNodeIdx (dataInfo d' ! q) = Some s)"
    using rd(3,4) pn by simp
  moreover have "\<forall>q < length (dataInfo d). (\<forall>s < Suc t. ends (nodeInputs d ! s) \<le> q) \<longrightarrow>
      (di_data (dataInfo d' ! q) \<noteq> None \<longleftrightarrow> (\<forall>s. producerNodeIdx (dataInfo d' ! q) = Some s \<longrightarrow> s < Suc t))"
    using avail by (simp add: pn)
  ultimately show "ready d' (Suc t)" unfolding ready_def same l using rd(1,2) by blast
qed

section \<open>Any chunk\<close>

lemma checked32_length: "checkedBitpackDecode32 n b src = Inr (vs, rest) \<Longrightarrow> length vs = n"
  by (auto simp: checkedBitpackDecode32_def Let_def bitpackDecode32_stream split: if_splits)

lemma cut_lengths:
  assumes "length ds = sum_list (map unat ns)" "i < length ns"
  shows "length (cut_distances ns ds ! i) = unat (ns ! i)"
proof -
  have "sum_list (map unat ns) = sum_list (map unat (take i ns)) + unat (ns ! i) + sum_list (map unat (drop (Suc i) ns))"
    by (subst id_take_nth_drop [OF assms(2)]) (simp only: map_append list.map sum_list.append sum_list.Cons add.assoc)
  then show ?thesis using assms by (simp add: nth_cut_distances)
qed

lemma made_regens:
  assumes "length ds = sum_list (map unat regens)"
    "nd \<in> set (make_nodes s (zip ts (zip ids (zip hs (zip vos (zip regens (zip idxs (cut_distances regens ds))))))))"
  shows "length (regenDistances nd) = unat (nbRegens nd)"
proof -
  let ?xs = "zip ts (zip ids (zip hs (zip vos (zip regens (zip idxs (cut_distances regens ds))))))"
  obtain i where i: "i < length ?xs" "nd = make_nodes s ?xs ! i" using assms(2) unfolding in_set_conv_nth length_make_nodes by blast
  have l: "i < length ts" "i < length ids" "i < length hs" "i < length vos" "i < length regens" "i < length idxs"
    using i(1) by (simp_all only: length_zip min_less_iff_conj)
  then have x: "?xs ! i = (ts ! i, ids ! i, hs ! i, vos ! i, regens ! i, idxs ! i, cut_distances regens ds ! i)"
    by (simp only: nth_zip length_zip min_less_iff_conj length_cut_distances simp_thms)
  show ?thesis using cut_lengths [OF assms(1) l(5)]
    unfolding i(2) nth_make_nodes [OF i(1)] x by (simp only: Let_def prod.case DFH_NodeInfo.simps)
qed

lemma if_Inl_Inr: "(if c then Inl e else r) = Inr y \<longleftrightarrow> \<not> c \<and> r = Inr y"
  by simp

lemma decoded_regens:
  assumes "decodeChunkHeader_internal alloc h0 src = Inr (h, n)" "nd \<in> set (nodes h)"
  shows "length (regenDistances nd) = unat (nbRegens nd)"
proof -
  obtain ts ids hs vos regens idxs ds b src0 rest where
    "nodes h = make_nodes 0 (zip ts (zip ids (zip hs (zip vos (zip regens (zip idxs (cut_distances regens ds)))))))"
    "checkedBitpackDecode32 (sum_list (map unat regens)) b src0 = Inr (ds, rest)"
    using assms(1) unfolding decodeChunkHeader_internal_def decompress_regenStreamID_distances_def Let_def
    by (simp only: if_Inl_Inr res_bind_eq_Inr split_paired_Ex prod.case) fastforce
  then show ?thesis using assms(2) checked32_length made_regens by metis
qed

lemma fillStoredStreams_ready:
  assumes "fillStoredStreams d src start = Inr (d', n)"
    "\<forall>nd \<in> set (nodes (dfh d)). length (regenDistances nd) = unat (nbRegens nd)"
  shows "ready d' 0" "dfh d' = dfh d"
proof -
  let ?h = "dfh d"
  let ?total = "length (storedStreamSizes ?h) + length (dfh_regenDistances ?h)"
  let ?blank = "replicate ?total \<lparr>di_data = None, producerNodeIdx = None\<rparr>"
  obtain bs infos infos' e where p: "planNodes (dtm d) (dfh_formatVersion ?h) (nbOutputs d) 0 0 (nodes ?h) ?blank = Inr (bs, infos)"
    and q: "placeStored src infos (storedStreamSizes ?h) (start + totalTHSize ?h) = Inr (infos', e)"
    and l: "?total \<le> ZL_runtimeStreamLimit (dfh_formatVersion ?h)"
    and d': "dfh d' = ?h" "nodeInputs d' = bs" "dataInfo d' = infos'"
    using assms(1) unfolding fillStoredStreams_def Let_def
    by (simp only: if_Inl_Inr res_bind_eq_Inr split_paired_Ex prod.case) fastforce
  show "dfh d' = dfh d" by (rule d')
  have pl: "planned 0 (nodes ?h) bs ?blank infos \<and> (\<exists>e \<le> length ?blank. chained 0 bs e)"
    using planNodes_planned [OF p assms(2)] l stream_limit(1) [of "dfh_formatVersion ?h"] by simp
  note pe = placeStored_effect [OF q]
  have li: "length infos' = length infos" "length infos = ?total" using map_eq_imp_length_eq [OF pe(1)] pl
    by (simp_all add: planned_def)
  have pn: "producerNodeIdx (infos' ! q) = producerNodeIdx (infos ! q)" if "q < ?total" for q
    using pe(1) li that by (metis nth_map)
  have dd: "di_data (infos ! q) = None" if "q < ?total" for q
  proof -
    have "map di_data infos ! q = map di_data ?blank ! q" using pl by (simp add: planned_def)
    then show ?thesis using that li by simp
  qed
  have "\<forall>q < length infos'. di_data (infos' ! q) \<noteq> None \<longleftrightarrow> (\<forall>s. producerNodeIdx (infos' ! q) = Some s \<longrightarrow> s < 0)"
    using pe(2) dd pn li by simp
  moreover have "\<forall>q < length infos'. \<forall>s. producerNodeIdx (infos' ! q) = Some s \<longrightarrow> s < length (nodes ?h)
      \<and> q \<in> set (DCTX_getRegeneratedStreamIDs (nodes ?h ! s) (bs ! s))"
  proof (intro allI impI)
    fix q s assume q: "q < length infos'" "producerNodeIdx (infos' ! q) = Some s"
    then have "producerNodeIdx (infos ! q) \<noteq> producerNodeIdx (?blank ! q)" "q < length ?blank" using pn li by simp_all
    then obtain k where "k < length (nodes ?h)" "producerNodeIdx (infos ! q) = Some (0 + k)"
      "q \<in> set (DCTX_getRegeneratedStreamIDs (nodes ?h ! k) (bs ! k))"
      using pl unfolding planned_def by blast
    then show "s < length (nodes ?h) \<and> q \<in> set (DCTX_getRegeneratedStreamIDs (nodes ?h ! s) (bs ! s))"
      using q pn li by simp
  qed
  moreover have "\<forall>s < length (nodes ?h). distinct (DCTX_getRegeneratedStreamIDs (nodes ?h ! s) (bs ! s))
      \<and> (\<forall>q \<in> set (DCTX_getRegeneratedStreamIDs (nodes ?h ! s) (bs ! s)).
           q < length infos' \<and> ends (bs ! s) \<le> q \<and> producerNodeIdx (infos' ! q) = Some s)"
    using pl pn li by (simp add: planned_def)
  moreover have "length bs = length (nodes ?h)" "\<exists>e \<le> length infos'. chained 0 bs e" using pl li by (simp_all add: planned_def)
  ultimately show "ready d' 0" unfolding ready_def d' by blast
qed

lemma ready_stages:
  assumes "runStages ctx d [k..<t] = Inr d'" "ready d k" "k \<le> t" "t \<le> length (nodes (dfh d))"
  shows "ready d' t \<and> dfh d' = dfh d \<and> nodeInputs d' = nodeInputs d"
  using assms
proof (induction "t - k" arbitrary: d k)
  case (Suc n)
  then have "[k..<t] = k # [Suc k..<t]" by (simp add: upt_conv_Cons)
  then obtain d1 where d1: "DCTX_runDecoder ctx d k = Inr d1" "runStages ctx d1 [Suc k..<t] = Inr d'" using Suc.prems by auto
  have k: "k < length (nodes (dfh d))" "n = t - Suc k" "Suc k \<le> t" using Suc by simp_all
  note st = ready_step [OF Suc.prems(2) k(1) d1(1)]
  show ?case using Suc.hyps(1) [OF k(2) d1(2) st(1) k(3)] st Suc.prems(4) by simp
qed simp

end
