(* ===== verification/Engine_Description.thy ===== *)
theory Engine_Description
  imports Engine_Session Engine_Safety
begin

text \<open>
  The description of a finished graph: what it holds for a sound session, that it can be written as a
  chunk header, and that the nodes the decoder reads from that header mirror the nodes of the session.
\<close>

section \<open>Dictionaries\<close>

definition dict_ok :: "ZL_FrameProperties \<Rightarrow> bool list option \<Rightarrow> u32 \<Rightarrow> bool" where
  "dict_ok fp dicts idx \<longleftrightarrow> idx = ZL_DICT_INDEX_NONE
     \<or> hasBundleID fp \<and> idx \<le> ZL_MAX_DICTS_PER_BUNDLE \<and> checkDict dicts idx = Inr ()"

section \<open>The description of the graph\<close>

abbreviation hdr :: "byte list \<Rightarrow> RTNode \<Rightarrow> byte list" where
  "hdr staging nd \<equiv> take (len (nodeHeaderSegment nd)) (drop (startPos (nodeHeaderSegment nd)) staging)"

lemma sendHeaders_effect:
  assumes "sendHeaders cctx ns = Inr cctx'"
  shows "cctx' = cctx\<lparr>sentHeaderStream := sentHeaderStream cctx
      @ concat (map (\<lambda>n. hdr (stagingHeaderStream cctx) (rt_nodes (rtgraph cctx) ! n)) ns)\<rparr>
    \<and> length (sentHeaderStream cctx') \<le> max (length (sentHeaderStream cctx)) ZL_ENCODER_TRANSFORM_HEADER_SIZE_LIMIT"
  using assms
proof (induction ns arbitrary: cctx)
  case (Cons n ns)
  let ?h = "hdr (stagingHeaderStream cctx) (rt_nodes (rtgraph cctx) ! n)"
  have "sendHeaders (cctx\<lparr>sentHeaderStream := sentHeaderStream cctx @ ?h\<rparr>) ns = Inr cctx'
      \<and> length (sentHeaderStream cctx @ ?h) \<le> ZL_ENCODER_TRANSFORM_HEADER_SIZE_LIMIT"
    using Cons.prems by (auto simp: Let_def ZL_RBuffer_slice_def appendToVector_def RTGM_nodeHeaderSegment_def split: if_splits)
  then show ?case using Cons.IH [of "cctx\<lparr>sentHeaderStream := sentHeaderStream cctx @ ?h\<rparr>"] by auto
qed simp

text \<open>The fields of the description, over the nodes in the decoder's order.\<close>

lemma finalGraph_fields:
  assumes "CCTX_getFinalGraph cctx = Inr (gip, buffs)" "sentHeaderStream cctx = []"
  defines "ms \<equiv> rev (rt_nodes (rtgraph cctx))"
  shows "trInfo gip = map (\<lambda>nd. cn_trInfo (cnode nd)) ms"
    "trHSizes gip = map (\<lambda>nd. word_of_nat (len (nodeHeaderSegment nd))) ms"
    "gi_nbVOs gip = map (\<lambda>nd. word_of_nat (nbOutStreams nd - CNODE_getNbOut1s (cnode nd))) ms"
    "nbTrInputs gip = map (\<lambda>nd. word_of_nat (length (inRtsids nd))) ms"
    "dictIdxs gip = map (\<lambda>nd. maybeDictIndex (cnode nd)) ms"
    "distances gip = concat (map (\<lambda>nd. map (\<lambda>i. word_of_nat (startOutRtsids nd) - word_of_nat i) (inRtsids nd)) ms)"
    "buffs = concat (map (hdr (stagingHeaderStream cctx)) ms) # RTGM_listBuffersToStore (rtgraph cctx)"
    "storedBuffs gip = map (\<lambda>b. word_of_nat (length b)) buffs"
    "length (streams (rtgraph cctx)) + 1 < ZL_runtimeStreamLimit (cc_version cctx)"
    "length (rt_nodes (rtgraph cctx)) < ZL_runtimeNodeLimit (cc_version cctx)"
    "length (hd buffs) \<le> ZL_ENCODER_TRANSFORM_HEADER_SIZE_LIMIT"
proof -
  let ?g = "rtgraph cctx"
  let ?ids = "map (\<lambda>n. length (rt_nodes ?g) - 1 - n) [0..<length (rt_nodes ?g)]"
  obtain c where c: "sendHeaders cctx ?ids = Inr c"
    and gip: "gip = \<lparr>nbSessionInputs = cc_nbInputs c,
        trInfo = map (\<lambda>rtnid. CNODE_getTransformID (RTGM_getCNode ?g rtnid)) ?ids,
        trHSizes = map (\<lambda>rtnid. word_of_nat (len (RTGM_nodeHeaderSegment ?g rtnid))) ?ids,
        gi_nbVOs = map (\<lambda>rtnid. word_of_nat (RTGM_getNbOutStreams ?g rtnid - CNODE_getNbOut1s (RTGM_getCNode ?g rtnid))) ?ids,
        nbTrInputs = map (\<lambda>rtnid. word_of_nat (RTGM_getNbInStreams ?g rtnid)) ?ids,
        dictIdxs = map (\<lambda>rtnid. maybeDictIndex (RTGM_getCNode ?g rtnid)) ?ids,
        distances = concat (map (\<lambda>rtnid. map (RTGM_getInputDistance ?g rtnid) [0..<RTGM_getNbInStreams ?g rtnid]) ?ids),
        storedBuffs = map (\<lambda>b. word_of_nat (length b)) (CCTX_listBuffersToStore c)\<rparr>"
    and b: "buffs = CCTX_listBuffersToStore c"
    and lim: "length (streams ?g) + 1 < ZL_runtimeStreamLimit (cc_version cctx)" "length (rt_nodes ?g) < ZL_runtimeNodeLimit (cc_version cctx)"
    using assms(1) unfolding CCTX_getFinalGraph_def Let_def RTGM_getNbNodes_def RTGM_getNbStreams_def
    by (simp only: if_Inl_Inr res_bind_eq_Inr sum.inject prod.inject not_le) blast
  show "length (streams ?g) + 1 < ZL_runtimeStreamLimit (cc_version cctx)" "length (rt_nodes ?g) < ZL_runtimeNodeLimit (cc_version cctx)"
    by (fact lim)+
  have d: "map (RTGM_getInputDistance ?g r) [0..<RTGM_getNbInStreams ?g r]
      = map (\<lambda>i. word_of_nat (startOutRtsids (rt_nodes ?g ! r)) - word_of_nat i) (inRtsids (rt_nodes ?g ! r))" for r
    by (intro nth_equalityI) (simp_all add: RTGM_getInputDistance_def RTGM_getNbInStreams_def RTGM_getInStreamID_def)
  note defs = RTGM_getCNode_def RTGM_nodeHeaderSegment_def RTGM_getNbOutStreams_def RTGM_getNbInStreams_def
  show "distances gip = concat (map (\<lambda>nd. map (\<lambda>i. word_of_nat (startOutRtsids nd) - word_of_nat i) (inRtsids nd)) ms)"
    unfolding gip GraphInfo.simps d ms_def by (rule arg_cong [of _ _ concat]) (intro nth_equalityI; simp add: rev_nth)
  show "trInfo gip = map (\<lambda>nd. cn_trInfo (cnode nd)) ms"
    "trHSizes gip = map (\<lambda>nd. word_of_nat (len (nodeHeaderSegment nd))) ms"
    "gi_nbVOs gip = map (\<lambda>nd. word_of_nat (nbOutStreams nd - CNODE_getNbOut1s (cnode nd))) ms"
    "nbTrInputs gip = map (\<lambda>nd. word_of_nat (length (inRtsids nd))) ms"
    "dictIdxs gip = map (\<lambda>nd. maybeDictIndex (cnode nd)) ms"
    unfolding gip GraphInfo.simps defs ms_def by (intro nth_equalityI; simp add: rev_nth)+
  show "storedBuffs gip = map (\<lambda>b. word_of_nat (length b)) buffs" by (simp add: gip b)
  show "length (hd buffs) \<le> ZL_ENCODER_TRANSFORM_HEADER_SIZE_LIMIT"
    using sendHeaders_effect [OF c, THEN conjunct2] assms(2) by (simp add: b CCTX_listBuffersToStore_def)
  show "buffs = concat (map (hdr (stagingHeaderStream cctx)) ms) # RTGM_listBuffersToStore ?g"
  proof -
    have "map (\<lambda>n. hdr (stagingHeaderStream cctx) (rt_nodes ?g ! n)) ?ids = map (hdr (stagingHeaderStream cctx)) ms"
      unfolding ms_def by (intro nth_equalityI; simp add: rev_nth)
    then show ?thesis using sendHeaders_effect [OF c] assms(2) by (simp add: b CCTX_listBuffersToStore_def)
  qed
qed

section \<open>The description is writable\<close>

lemma total_streams:
  assumes "sound ectx v inputs cctx {} vals"
  shows "length (consumed (rt_nodes (rtgraph cctx))) + length (RTGM_listBuffersToStore (rtgraph cctx)) = length vals"
proof -
  note d = soundD [OF assms]
  let ?c = "consumed (rt_nodes (rtgraph cctx))"
  have "length (RTGM_listBuffersToStore (rtgraph cctx)) = length (filter toStore (streams (rtgraph cctx)))"
    by (simp add: RTGM_listBuffersToStore_def flip: rev_filter)
  also have "\<dots> = card (stored (rtgraph cctx))" by (simp add: length_filter_conv_card stored_def)
  finally have b: "length (RTGM_listBuffersToStore (rtgraph cctx)) = card (stored (rtgraph cctx))" .
  have "finite (stored (rtgraph cctx))" by (simp add: stored_def)
  then have "card (stored (rtgraph cctx) \<union> set ?c) = card (stored (rtgraph cctx)) + card (set ?c)"
    using d(8) by (intro card_Un_disjoint) auto
  moreover have "stored (rtgraph cctx) \<union> set ?c = {..<length vals}" using d(9) by simp
  ultimately have "length vals = card (stored (rtgraph cctx)) + card (set ?c)" by simp
  then show ?thesis using b distinct_card [OF d(6)] by simp
qed

lemma length_consumed_rev: "length (consumed (rev ns)) = length (consumed ns)" "set (consumed (rev ns)) = set (consumed ns)"
  by (simp_all add: consumed_def length_concat rev_map [symmetric] sum_list_rev)

lemma distance_word:
  assumes "i < s" "s < 2 ^ 32"
  shows "unat (word_of_nat s - word_of_nat i :: u32) = s - i" "(1 :: u32) \<le> word_of_nat s - word_of_nat i"
    "unat (word_of_nat s - word_of_nat i - 1 :: u32) = s - i - 1"
proof -
  have "unat (word_of_nat s :: u32) = s" "unat (word_of_nat i :: u32) = i" using assms by (simp_all add: unat_of_nat)
  then show u: "unat (word_of_nat s - word_of_nat i :: u32) = s - i"
    using assms by (subst unat_sub) (simp_all add: word_le_nat_alt)
  then show l: "(1 :: u32) \<le> word_of_nat s - word_of_nat i" using assms(1) by (simp add: word_le_nat_alt)
  show "unat (word_of_nat s - word_of_nat i - 1 :: u32) = s - i - 1" using u unat_sub [OF l] by simp
qed

lemma node_okD:
  assumes "node_ok ectx v vals staging nd"
  obtains outs h where "codec_ran ectx v (cnode nd) (map ((!) vals) (inRtsids nd)) outs h"
    "nbOutStreams nd = length (slots (cnode nd) outs)"
    "take (nbOutStreams nd) (drop (startOutRtsids nd) vals) = slots (cnode nd) outs" "hdr staging nd = header_of h"
    "len (nodeHeaderSegment nd) = length (header_of h)" "len (nodeHeaderSegment nd) \<le> length staging"
  using assms unfolding node_ok_def by (metis add_leD2)

lemma node_bounds:
  assumes s: "sound ectx v inputs cctx owned vals" and nd: "nd \<in> set (rt_nodes (rtgraph cctx))"
  shows "nbOutStreams nd \<le> 100000" "1 \<le> length (inRtsids nd)" "length (inRtsids nd) \<le> ZL_runtimeNodeInputLimit v"
    "len (nodeHeaderSegment nd) \<le> 1000000" "CNODE_getNbOut1s (cnode nd) \<le> nbOutStreams nd"
    "startOutRtsids nd + nbOutStreams nd \<le> length vals" "\<forall>i \<in> set (inRtsids nd). i < startOutRtsids nd"
    "length inputs \<le> startOutRtsids nd"
proof -
  note d = soundD [OF s]
  note l = laid_node [OF d(4) nd]
  have "node_ok ectx v vals (stagingHeaderStream cctx) nd" using d(5) nd by (simp add: list_all_iff)
  then obtain outs h where o: "codec_ran ectx v (cnode nd) (map ((!) vals) (inRtsids nd)) outs h"
    "nbOutStreams nd = length (slots (cnode nd) outs)" "len (nodeHeaderSegment nd) \<le> length (stagingHeaderStream cctx)"
    by (rule node_okD) blast
  show "nbOutStreams nd \<le> 100000" "length (inRtsids nd) \<le> ZL_runtimeNodeInputLimit v"
    using o(1,2) stream_limit(2) [of v] by (auto simp: codec_ran_def)
  show "CNODE_getNbOut1s (cnode nd) \<le> nbOutStreams nd" using o(2) by (simp add: slots_def)
  show "len (nodeHeaderSegment nd) \<le> 1000000" using o(3) d(12) by simp
  show "1 \<le> length (inRtsids nd)" using l(4) by (cases "inRtsids nd") simp_all
  show "startOutRtsids nd + nbOutStreams nd \<le> length vals" "\<forall>i \<in> set (inRtsids nd). i < startOutRtsids nd"
    "length inputs \<le> startOutRtsids nd" using l(1-3) by simp_all
qed

lemma finalGraph_total:
  assumes s: "sound ectx v inputs cctx {} vals" and f: "CCTX_getFinalGraph cctx = Inr (gip, buffs)"
  shows "length (distances gip) + (length (storedBuffs gip) - 1) = length vals"
proof -
  note ff = finalGraph_fields [OF f soundD(13) [OF s]]
  have "length (distances gip) = length (consumed (rt_nodes (rtgraph cctx)))"
    unfolding ff(6) length_concat by (simp add: consumed_def length_concat comp_def rev_map [symmetric] sum_list_rev)
  then show ?thesis using total_streams [OF s] by (simp add: ff(7,8))
qed

lemma final_graph_ok:
  assumes s: "sound ectx v inputs cctx {} vals" and f: "CCTX_getFinalGraph cctx = Inr (gip, buffs)"
    and std: "\<forall>nd \<in> set (rt_nodes (rtgraph cctx)). trt (cn_trInfo (cnode nd)) = trt_standard
      \<longrightarrow> unat (trid (cn_trInfo (cnode nd))) < 2 ^ ZL_StandardTransformID_numBits v"
    and dict: "\<forall>nd \<in> set (rt_nodes (rtgraph cctx)). dict_ok fp dicts (maybeDictIndex (cnode nd))"
    and sizes: "\<forall>b \<in> set (tl buffs). length b < 0xffffffff"
  shows "graph_ok v gip"
proof -
  note d = soundD [OF s] and ff = finalGraph_fields [OF f soundD(13) [OF s]] and nb = node_bounds [OF s]
  let ?ms = "rev (rt_nodes (rtgraph cctx))"
  have T: "length vals + 1 < ZL_runtimeStreamLimit v" using ff(9) d(1,14) by simp
  then have T2: "length vals < 110000" using stream_limit(1) [of v] by linarith
  note tot = finalGraph_total [OF s f]
  have lim: "ZL_runtimeNodeInputLimit v \<le> 100000"
    by (simp add: ZL_runtimeNodeInputLimit_def ZL_runtimeInputLimit_def)
  have in_w: "unat (word_of_nat (length (inRtsids nd)) :: size_t) = length (inRtsids nd)" if "nd \<in> set (rt_nodes (rtgraph cctx))" for nd
    using nb(3) [OF that] lim by (simp add: unat_of_nat)
  have "sum_list (map unat (nbTrInputs gip)) = length (distances gip)"
    unfolding ff(4,6) length_concat map_map comp_def by (intro arg_cong [of _ _ sum_list] map_cong refl) (simp add: in_w)
  moreover have "list_all (\<lambda>n. 1 \<le> n \<and> unat n \<le> ZL_runtimeNodeInputLimit v) (nbTrInputs gip)"
    unfolding ff(4) list_all_iff using in_w nb(2,3) by (auto simp: word_le_nat_alt)
  moreover have "list_all (\<lambda>h. h < 0xffffffff) (trHSizes gip)"
    unfolding ff(2) list_all_iff using nb(4) by (fastforce simp: word_less_nat_alt unat_of_nat)
  moreover have "list_all (\<lambda>n. n \<le> 0xffffffff) (gi_nbVOs gip)"
    unfolding ff(3) list_all_iff using nb(1) by (fastforce simp: word_le_nat_alt unat_of_nat)
  moreover have "1 \<le> dd \<and> unat dd \<le> length vals" if dd: "dd \<in> set (distances gip)" for dd
  proof -
    obtain nd i where n: "nd \<in> set (rt_nodes (rtgraph cctx))" "i \<in> set (inRtsids nd)"
      "dd = word_of_nat (startOutRtsids nd) - word_of_nat i"
      using dd unfolding ff(6) by auto
    have "i < startOutRtsids nd" "startOutRtsids nd \<le> length vals" using nb(6,7) [OF n(1)] n(2) by auto
    then show ?thesis using distance_word [of i "startOutRtsids nd"] T2 n(3) by simp
  qed
  then have "list_all (\<lambda>d. 1 \<le> d \<and> unat d \<le> length (distances gip) + (length (storedBuffs gip) - 1)) (distances gip)"
    unfolding tot list_all_iff by blast
  moreover have "list_all (\<lambda>s. s < 0xffffffff) (tl (storedBuffs gip))"
    using sizes unfolding ff(8) list_all_iff map_tl [symmetric] by (fastforce simp: word_less_nat_alt unat_of_nat)
  moreover have "list_all (\<lambda>i. i = ZL_DICT_INDEX_NONE \<or> i \<le> ZL_MAX_DICTS_PER_BUNDLE) (dictIdxs gip)"
    using dict unfolding ff(5) list_all_iff by (auto simp: dict_ok_def)
  moreover have "list_all (\<lambda>i. trt i = trt_standard \<longrightarrow> unat (trid i) < 2 ^ ZL_StandardTransformID_numBits v) (trInfo gip)"
    using std unfolding ff(1) list_all_iff by auto
  moreover have "length (distances gip) \<le> ZL_runtimeStreamLimit ZL_MAX_FORMAT_VERSION"
    using tot T2 by (simp add: ZL_runtimeStreamLimit_def)
  ultimately show ?thesis unfolding graph_ok_def ff(1-5) by (simp only: length_map simp_thms ff(1-5))
qed

section \<open>Mirrored nodes\<close>

definition mirrors :: "byte list \<Rightarrow> byte list \<Rightarrow> RTNode \<Rightarrow> DFH_NodeInfo \<Rightarrow> bool" where
  "mirrors staging th nd dn \<longleftrightarrow> trpid dn = cn_trInfo (cnode nd)
     \<and> unat (nbVOs dn) = nbOutStreams nd - CNODE_getNbOut1s (cnode nd) \<and> unat (nbRegens dn) = length (inRtsids nd)
     \<and> regenDistances dn = map (\<lambda>i. word_of_nat (startOutRtsids nd) - word_of_nat i - 1) (inRtsids nd)
     \<and> dictIdx dn = maybeDictIndex (cnode nd)
     \<and> ZL_RBuffer_slice th (trhStart dn) (unat (trhSize dn)) = Inr (hdr staging nd)"

lemma concat_part:
  assumes "t < length xs"
  shows "take (length (xs ! t)) (drop (sum_list (map length (take t xs))) (concat xs)) = xs ! t"
    "sum_list (map length (take t xs)) + length (xs ! t) \<le> length (concat xs)"
proof -
  have "concat xs = concat (take t xs) @ xs ! t @ concat (drop (Suc t) xs)"
    by (subst id_take_nth_drop [OF assms]) simp
  then show "take (length (xs ! t)) (drop (sum_list (map length (take t xs))) (concat xs)) = xs ! t"
    "sum_list (map length (take t xs)) + length (xs ! t) \<le> length (concat xs)"
    by (simp_all add: length_concat)
qed

lemma slice_ok:
  assumes "start + n \<le> length rb" "length rb < 2 ^ 64"
  shows "ZL_RBuffer_slice rb start n = Inr (take n (drop start rb))"
proof -
  have "unat (word_of_nat start + word_of_nat n :: size_t) = start + n" "unat (word_of_nat start :: size_t) = start"
    using assms unfolding of_nat_add [symmetric] by (simp_all only: unat_of_nat) simp_all
  then show ?thesis using assms by (simp add: ZL_RBuffer_slice_def word_less_nat_alt)
qed

lemma map_unat_lengths: "\<forall>x \<in> set xs. f x < 2 ^ 64 \<Longrightarrow> map (\<lambda>x. unat (word_of_nat (f x) :: size_t)) xs = map f xs"
  by (simp add: unat_of_nat)

lemma mirrored_nodes:
  assumes s: "sound ectx v inputs cctx {} vals" and f: "CCTX_getFinalGraph cctx = Inr (gip, buffs)"
    and dict: "\<forall>nd \<in> set (rt_nodes (rtgraph cctx)). dict_ok fp dicts (maybeDictIndex (cnode nd))"
    and t: "t < length (rt_nodes (rtgraph cctx))"
  shows "mirrors (stagingHeaderStream cctx) (hd buffs) (rev (rt_nodes (rtgraph cctx)) ! t) (chunk_node v fp gip t)"
proof -
  note d = soundD [OF s] and ff = finalGraph_fields [OF f soundD(13) [OF s]] and nb = node_bounds [OF s]
  let ?ms = "rev (rt_nodes (rtgraph cctx))" and ?st = "stagingHeaderStream cctx"
  let ?nd = "?ms ! t"
  have nd: "?nd \<in> set (rt_nodes (rtgraph cctx))" "t < length ?ms" "?nd \<in> set ?ms"
    using t nth_mem [of t ?ms] by simp_all
  have lenh: "length (hdr ?st nd) = len (nodeHeaderSegment nd)" if "nd \<in> set ?ms" for nd
  proof -
    have "node_ok ectx v vals ?st nd" using d(5) that by (simp add: list_all_iff)
    then show ?thesis by (rule node_okD) simp
  qed
  have w: "unat (word_of_nat (len (nodeHeaderSegment nd)) :: size_t) = len (nodeHeaderSegment nd)"
    "unat (word_of_nat (length (inRtsids nd)) :: size_t) = length (inRtsids nd)"
    "unat (word_of_nat (nbOutStreams nd - CNODE_getNbOut1s (cnode nd)) :: size_t) = nbOutStreams nd - CNODE_getNbOut1s (cnode nd)"
    "length (inRtsids nd) \<le> 100000" "nbOutStreams nd \<le> 100000"
    if "nd \<in> set ?ms" for nd
  proof -
    have i: "length (inRtsids nd) \<le> 100000"
      using nb(3) [of nd] that by (simp add: ZL_runtimeNodeInputLimit_def ZL_runtimeInputLimit_def split: if_splits)
    then show "unat (word_of_nat (length (inRtsids nd)) :: size_t) = length (inRtsids nd)" "length (inRtsids nd) \<le> 100000"
      by (simp_all add: unat_of_nat)
    show "unat (word_of_nat (len (nodeHeaderSegment nd)) :: size_t) = len (nodeHeaderSegment nd)"
      "unat (word_of_nat (nbOutStreams nd - CNODE_getNbOut1s (cnode nd)) :: size_t) = nbOutStreams nd - CNODE_getNbOut1s (cnode nd)"
      "nbOutStreams nd \<le> 100000"
      using nb(1,4) [of nd] that by (simp_all only: set_rev unat_of_nat) simp_all
  qed
  have sub: "nd \<in> set ?ms" if "nd \<in> set (take t ?ms)" for nd using that in_set_takeD by fast
  have start: "sum_list (map unat (take t (trHSizes gip))) = sum_list (map length (take t (map (hdr ?st) ?ms)))"
    unfolding ff(2) take_map map_map by (intro arg_cong [of _ _ sum_list] map_cong refl) (simp only: comp_apply w(1) lenh sub)
  have start_eq: "trhStart (chunk_node v fp gip t) = sum_list (map length (take t (map (hdr ?st) ?ms)))"
    by (simp only: chunk_node_def DFH_NodeInfo.simps start)
  have size_eq: "unat (trhSize (chunk_node v fp gip t)) = length (hdr ?st ?nd)"
    unfolding lenh [OF nd(3)] using nd w(1) by (simp add: chunk_node_def ff(2))
  have "take (length (hdr ?st ?nd)) (drop (sum_list (map length (take t (map (hdr ?st) ?ms)))) (hd buffs)) = hdr ?st ?nd"
    "sum_list (map length (take t (map (hdr ?st) ?ms))) + length (hdr ?st ?nd) \<le> length (hd buffs)"
    using concat_part [of t "map (hdr ?st) ?ms"] nd(2) by (simp_all add: ff(7))
  moreover have "length (hd buffs) < 2 ^ 64" using ff(11) by simp
  ultimately have "ZL_RBuffer_slice (hd buffs) (trhStart (chunk_node v fp gip t)) (unat (trhSize (chunk_node v fp gip t)))
      = Inr (hdr ?st ?nd)"
    using slice_ok [of "trhStart (chunk_node v fp gip t)" "length (hdr ?st ?nd)" "hd buffs"] size_eq start_eq by simp
  moreover have "regenDistances (chunk_node v fp gip t)
      = map (\<lambda>i. word_of_nat (startOutRtsids ?nd) - word_of_nat i - 1) (inRtsids ?nd)"
  proof -
    let ?ds = "map (\<lambda>nd. map (\<lambda>i. word_of_nat (startOutRtsids nd) - word_of_nat i :: u32) (inRtsids nd)) ?ms"
    have "sum_list (map unat (take t (nbTrInputs gip))) = sum_list (map length (take t ?ds))"
      unfolding ff(4) take_map map_map by (intro arg_cong [of _ _ sum_list] map_cong refl) (simp only: comp_apply length_map w(2) sub)
    then show ?thesis using concat_part(1) [of t ?ds] nd w(2) [of ?nd] by (simp add: chunk_node_def ff(4,6))
  qed
  moreover have "dictIdx (chunk_node v fp gip t) = maybeDictIndex (cnode ?nd)"
  proof -
    have "node_ok ectx v vals ?st ?nd" using d(5) nd(1) by (simp add: list_all_iff)
    then have "maybeDictIndex (cnode ?nd) \<noteq> ZL_DICT_INDEX_NONE \<longrightarrow> ZL_MATERIALIZED_DICT_VERSION_MIN \<le> v"
      by (rule node_okD) (simp add: codec_ran_def)
    then show ?thesis using dict nd by (auto simp: chunk_node_def ff(5) dict_ok_def)
  qed
  moreover have "unat (nbVOs (chunk_node v fp gip t)) = nbOutStreams ?nd - CNODE_getNbOut1s (cnode ?nd)"
    "unat (nbRegens (chunk_node v fp gip t)) = length (inRtsids ?nd)"
    using w(2-5) [of ?nd] nd by (simp_all add: chunk_node_def ff(3,4) unat_ucast_down)
  ultimately show ?thesis using nd by (simp add: mirrors_def chunk_node_def ff(1))
qed

end
