(* ===== verification/Engine_Roundtrip.thy ===== *)
theory Engine_Roundtrip
  imports Engine_Description
begin

text \<open>
  What a session compressed, the decoders give back: the decoder's array mirrors the runtime graph,
  stream \<open>i\<close> of \<open>T\<close> at position \<open>T - 1 - i\<close>, its nodes run in the reverse order, and each undoes
  the node it mirrors.
\<close>

section \<open>Matching codecs\<close>

text \<open>
  A decoder matches an encoder when they declare the same streams, and on every successful run of the
  encoder it creates each regenerated stream once, with the content and the type of the input.
\<close>

definition decodable :: "codec_ctx \<Rightarrow> codec_ctx \<Rightarrow> DTransforms_manager \<Rightarrow> nat \<Rightarrow> CNode \<Rightarrow> bool" where
  "decodable ectx dctx tm v cn \<longleftrightarrow> (\<exists>dt. DTM_getTransform tm (cn_trInfo cn) v = Inr dt
     \<and> dt_inputTypes dt = inputTypes cn \<and> dt_lastInputIsVariable dt = lastInputIsVariable cn
     \<and> dt_soTypes dt = soTypes cn \<and> dt_voTypes dt = voTypes cn
     \<and> (\<forall>ins outs h. list_all wf_data ins \<longrightarrow> codec_ran ectx v cn ins outs h \<longrightarrow>
          (\<forall>y \<in> set outs. fst y < CNODE_getNbOutcomes cn)
          \<and> (\<exists>rs. transformFn dt dctx (maybeDictIndex cn) (header_of h) (slots cn outs) (length ins) = Inr rs
               \<and> distinct (map fst rs) \<and> set rs = set (enumerate 0 ins))))"

section \<open>Placing the nodes\<close>

lemma markRegens_ok:
  assumes "distinct (map (\<lambda>d. e + unat d) ds)"
    "\<forall>d \<in> set ds. e + unat d < length infos \<and> producerNodeIdx (infos ! (e + unat d)) = None"
  shows "\<exists>infos'. markRegens t e ds infos = Inr infos'"
  using assms
proof (induction ds arbitrary: infos)
  case (Cons d ds)
  let ?infos = "infos[e + unat d := (infos ! (e + unat d))\<lparr>producerNodeIdx := Some t\<rparr>]"
  have "\<exists>infos'. markRegens t e ds ?infos = Inr infos'"
    by (rule Cons.IH) (use Cons.prems in \<open>auto simp: nth_list_update\<close>)
  then show ?case using Cons.prems by (auto simp: Let_def not_le)
qed simp

text \<open>What the decoder checks of a node before it runs.\<close>

definition static_ok :: "DTransforms_manager \<Rightarrow> nat \<Rightarrow> RTNode \<Rightarrow> bool" where
  "static_ok tm v nd \<longleftrightarrow> (\<exists>dt. DTM_getTransform tm (cn_trInfo (cnode nd)) v = Inr dt
     \<and> DT_isNbRegensCompatible dt (length (inRtsids nd)) \<and> length (dt_soTypes dt) = CNODE_getNbOut1s (cnode nd)
     \<and> (dt_voTypes dt = [] \<longrightarrow> nbOutStreams nd = CNODE_getNbOut1s (cnode nd)))
     \<and> CNODE_getNbOut1s (cnode nd) \<le> nbOutStreams nd \<and> nbOutStreams nd \<le> ZL_transformOutStreamsLimit v
     \<and> (v < 9 \<longrightarrow> nbOutStreams nd \<noteq> 0)"

definition reads :: "nat \<Rightarrow> RTNode \<Rightarrow> u32 \<times> u32" where
  "reads T nd = (word_of_nat (T - (startOutRtsids nd + nbOutStreams nd)), word_of_nat (nbOutStreams nd))"

lemma validate_mirrored:
  assumes "DTM_getTransform tm (cn_trInfo (cnode nd)) v = Inr dt" "static_ok tm v nd" "mirrors staging th nd dn"
    "inRtsids nd \<noteq> []" "startOutRtsids nd + nbOutStreams nd \<le> T" "T \<le> 110000" "nbOuts \<le> startOutRtsids nd"
  shows "DCTX_validateNodeStatic v T nbOuts dt dn (fst (reads T nd)) (snd (reads T nd)) = Inr ()"
    "length (dt_soTypes dt) + unat (nbVOs dn) = nbOutStreams nd"
proof -
  have m: "unat (nbVOs dn) = nbOutStreams nd - CNODE_getNbOut1s (cnode nd)" "unat (nbRegens dn) = length (inRtsids nd)"
    using assms(3) by (simp_all add: mirrors_def)
  have st: "DT_isNbRegensCompatible dt (length (inRtsids nd))" "length (dt_soTypes dt) = CNODE_getNbOut1s (cnode nd)"
    "dt_voTypes dt = [] \<longrightarrow> nbOutStreams nd = CNODE_getNbOut1s (cnode nd)"
    "CNODE_getNbOut1s (cnode nd) \<le> nbOutStreams nd" "nbOutStreams nd \<le> ZL_transformOutStreamsLimit v"
    "v < 9 \<longrightarrow> nbOutStreams nd \<noteq> 0"
    using assms(1,2) by (auto simp: static_ok_def)
  show "length (dt_soTypes dt) + unat (nbVOs dn) = nbOutStreams nd" using st(2,4) m(1) by simp
  let ?b = "word_of_nat (T - (startOutRtsids nd + nbOutStreams nd)) :: u32" and ?n = "word_of_nat (nbOutStreams nd) :: u32"
  have w: "unat ?n = nbOutStreams nd" "unat (?b + ?n) = T - startOutRtsids nd"
    using assms(5,6) unfolding of_nat_add [symmetric] by (intro trans [OF unat_u32]; simp)+
  have "ucast (?b + ?n) \<le> (word_of_nat T - word_of_nat nbOuts :: size_t)"
  proof -
    have "unat (word_of_nat T - word_of_nat nbOuts :: size_t) = T - nbOuts"
      using assms(5-7) by (subst unat_sub) (simp_all add: word_le_nat_alt unat_of_nat)
    then show ?thesis using w(2) assms(7) by (simp add: word_le_nat_alt)
  qed
  moreover have "nbRegens dn \<noteq> 0" using m(2) assms(4) by (auto simp: unat_eq_zero)
  moreover have "nbVOs dn = 0" if "dt_voTypes dt = []" using m(1) st(3) that by (simp add: unat_eq_zero)
  moreover have "?n \<noteq> 0" if "v < 9" using w(1) st(6) that by auto
  ultimately show "DCTX_validateNodeStatic v T nbOuts dt dn (fst (reads T nd)) (snd (reads T nd)) = Inr ()"
    using st(1,5) w m(2) by (auto simp: DCTX_validateNodeStatic_def reads_def not_less)
qed

lemma flip:
  fixes T :: nat
  shows "\<forall>i \<in> S. i < T \<Longrightarrow> inj_on (\<lambda>i. T - 1 - i) S"
    "q < T \<Longrightarrow> \<forall>i \<in> S. i < T \<Longrightarrow> q \<in> (\<lambda>i. T - 1 - i) ` S \<longleftrightarrow> T - 1 - q \<in> S"
proof -
  have i: "T - 1 - (T - 1 - i) = i" if "i < T" for i using that by simp
  show "\<forall>i \<in> S. i < T \<Longrightarrow> inj_on (\<lambda>i. T - 1 - i) S"
    by (rule inj_on_inverseI [of _ "\<lambda>i. T - 1 - i"]) (blast intro: i)
  assume q: "q < T" "\<forall>i \<in> S. i < T"
  show "q \<in> (\<lambda>i. T - 1 - i) ` S \<longleftrightarrow> T - 1 - q \<in> S"
  proof
    assume "q \<in> (\<lambda>i. T - 1 - i) ` S"
    then show "T - 1 - q \<in> S" using i q(2) by auto
  next
    assume "T - 1 - q \<in> S"
    then show "q \<in> (\<lambda>i. T - 1 - i) ` S" using i [OF q(1)] by (intro image_eqI [of _ _ "T - 1 - q"]) simp_all
  qed
qed

lemma mirrored_slots:
  assumes "mirrors staging th nd dn" "\<forall>i \<in> set (inRtsids nd). i < startOutRtsids nd" "startOutRtsids nd \<le> T" "T \<le> 110000"
  shows "map (\<lambda>d. T - startOutRtsids nd + unat d) (regenDistances dn) = map (\<lambda>i. T - 1 - i) (inRtsids nd)"
proof -
  have "T - startOutRtsids nd + unat (word_of_nat (startOutRtsids nd) - word_of_nat i - 1 :: u32) = T - 1 - i"
    if "i \<in> set (inRtsids nd)" for i
    using distance_word(3) [of i "startOutRtsids nd"] assms(2-4) that by auto
  then show ?thesis using assms(1) by (simp add: mirrors_def)
qed

lemma planNodes_mirrored:
  assumes "list_all2 (mirrors staging th) ms nds" "laid p (rev ms) e" "nbOuts \<le> p" "e \<le> T" "T \<le> 110000"
    "list_all (static_ok tm v) ms" "length infos = T" "distinct (consumed ms)"
    "\<forall>i \<in> set (consumed ms). producerNodeIdx (infos ! (T - 1 - i)) = None"
  shows "\<exists>infos'. planNodes tm v nbOuts t (T - e) nds infos = Inr (map (reads T) ms, infos')
    \<and> length infos' = T \<and> map di_data infos' = map di_data infos
    \<and> (\<forall>q < T. producerNodeIdx (infos' ! q) = None
        \<longleftrightarrow> producerNodeIdx (infos ! q) = None \<and> T - 1 - q \<notin> set (consumed ms))"
  using assms
proof (induction ms arbitrary: nds infos e t)
  case (Cons nd ms)
  obtain dn nds' where nds: "nds = dn # nds'" "mirrors staging th nd dn" "list_all2 (mirrors staging th) ms nds'"
    using Cons.prems(1) by (auto simp: list_all2_Cons1)
  have l: "laid p (rev ms) (startOutRtsids nd)" "e = startOutRtsids nd + nbOutStreams nd" "inRtsids nd \<noteq> []"
    "\<forall>i \<in> set (inRtsids nd). i < startOutRtsids nd"
    using Cons.prems(2) by (auto simp: laid_append)
  have le: "nbOuts \<le> startOutRtsids nd" "startOutRtsids nd \<le> T" "startOutRtsids nd + nbOutStreams nd \<le> T"
    using laid_le [OF l(1)] Cons.prems(3,4) l(2) by simp_all
  obtain dt where dt: "DTM_getTransform tm (cn_trInfo (cnode nd)) v = Inr dt"
    using Cons.prems(6) by (auto simp: static_ok_def)
  have so: "static_ok tm v nd" using Cons.prems(6) by simp
  note val = validate_mirrored [OF dt so nds(2) l(3) le(3) Cons.prems(5) le(1)]
  note sl = mirrored_slots [OF nds(2) l(4) le(2) Cons.prems(5)]
  have cd: "distinct (inRtsids nd)" "distinct (consumed ms)" "set (inRtsids nd) \<inter> set (consumed ms) = {}"
    using Cons.prems(8) by (simp_all add: consumed_def)
  have lt: "\<forall>i \<in> set (inRtsids nd). i < T" "\<forall>i \<in> set (consumed ms). i < T"
    using l(4) le(2) consumed_less [OF l(1)] by (fastforce simp: length_consumed_rev)+
  have "distinct (map (\<lambda>i. T - 1 - i) (inRtsids nd))"
    using cd(1) flip(1) [of "set (inRtsids nd)" T] lt by (simp add: distinct_map)
  moreover have slot: "T - 1 - i < length infos \<and> producerNodeIdx (infos ! (T - 1 - i)) = None" if "i \<in> set (inRtsids nd)" for i
    using that Cons.prems(7,9) l(4) le(2) by (fastforce simp: consumed_def)
  moreover have "\<forall>d \<in> set (regenDistances dn). T - startOutRtsids nd + unat d < length infos
      \<and> producerNodeIdx (infos ! (T - startOutRtsids nd + unat d)) = None"
  proof
    fix d assume "d \<in> set (regenDistances dn)"
    then have "T - startOutRtsids nd + unat d \<in> set (map (\<lambda>i. T - 1 - i) (inRtsids nd))" unfolding sl [symmetric] by simp
    then show "T - startOutRtsids nd + unat d < length infos \<and> producerNodeIdx (infos ! (T - startOutRtsids nd + unat d)) = None"
      using slot by auto
  qed
  ultimately obtain infos1 where m: "markRegens t (T - startOutRtsids nd) (regenDistances dn) infos = Inr infos1"
    using markRegens_ok sl by metis
  note me = markRegens_effect [OF m, unfolded sl]
  have p1: "producerNodeIdx (infos1 ! q) = None \<longleftrightarrow> producerNodeIdx (infos ! q) = None \<and> T - 1 - q \<notin> set (inRtsids nd)"
    if "q < T" for q
    using me(5) that Cons.prems(7) flip(2) [OF that lt(1)] by simp
  have "\<exists>infos'. planNodes tm v nbOuts (t + 1) (T - startOutRtsids nd) nds' infos1 = Inr (map (reads T) ms, infos')
    \<and> length infos' = T \<and> map di_data infos' = map di_data infos1
    \<and> (\<forall>q < T. producerNodeIdx (infos' ! q) = None
        \<longleftrightarrow> producerNodeIdx (infos1 ! q) = None \<and> T - 1 - q \<notin> set (consumed ms))"
  proof (rule Cons.IH [OF nds(3) l(1) Cons.prems(3) le(2) Cons.prems(5)])
    show "\<forall>i \<in> set (consumed ms). producerNodeIdx (infos1 ! (T - 1 - i)) = None"
    proof
      fix i assume i: "i \<in> set (consumed ms)"
      then have "i < T" "producerNodeIdx (infos ! (T - 1 - i)) = None" "i \<notin> set (inRtsids nd)"
        using lt(2) Cons.prems(9) cd(3) by (auto simp: consumed_def)
      then show "producerNodeIdx (infos1 ! (T - 1 - i)) = None" using p1 [of "T - 1 - i"] by simp
    qed
  qed (use Cons.prems(6,7) me(2) cd(2) in simp_all)
  then obtain infos' where pl: "planNodes tm v nbOuts (t + 1) (T - startOutRtsids nd) nds' infos1 = Inr (map (reads T) ms, infos')"
    "length infos' = T" "map di_data infos' = map di_data infos1"
    "\<forall>q < T. producerNodeIdx (infos' ! q) = None \<longleftrightarrow> producerNodeIdx (infos1 ! q) = None \<and> T - 1 - q \<notin> set (consumed ms)"
    by blast
  have st: "T - e + nbOutStreams nd = T - startOutRtsids nd" "T - e = T - (startOutRtsids nd + nbOutStreams nd)"
    using l(2) le(3) by simp_all
  have tp: "trpid dn = cn_trInfo (cnode nd)" using nds(2) by (simp add: mirrors_def)
  have "planNodes tm v nbOuts t (T - e) nds infos = Inr (map (reads T) (nd # ms), infos')"
    using val(1) pl(1) m tp unfolding nds(1) planNodes.simps tp dt res_bind_simps Let_def val(2) st(1) Cons.prems(7)
    by (simp add: reads_def st(2))
  then show ?case using pl(2-4) me(4) p1 by (intro exI [of _ infos']) (auto simp: consumed_def)
qed auto

section \<open>Placing the stored streams\<close>

lemma placeStored_mirrored:
  assumes "list_all2 (\<lambda>info x. producerNodeIdx info = None \<longleftrightarrow> P x) infos xs"
    "\<forall>x \<in> set xs. P x \<longrightarrow> length (f x) < 2 ^ 64"
    "take (length (concat (map f (filter P xs)))) (drop pos src) = concat (map f (filter P xs))"
  shows "placeStored src infos (map (\<lambda>x. word_of_nat (length (f x))) (filter P xs)) pos
    = Inr (map2 (\<lambda>info x. if P x then info\<lparr>di_data := Some (serial (f x))\<rparr> else info) infos xs,
        pos + length (concat (map f (filter P xs))))"
  using assms
proof (induction infos xs arbitrary: pos rule: list_all2_induct)
  case (Cons info infos x xs)
  show ?case
  proof (cases "P x")
    case True
    have l: "unat (word_of_nat (length (f x)) :: size_t) = length (f x)" using Cons.prems(1) True by (simp add: unat_of_nat)
    have t: "take (length (f x) + length (concat (map f (filter P xs)))) (drop pos src) = f x @ concat (map f (filter P xs))"
      using Cons.prems(2) True by simp
    have "take (length (f x)) (drop pos src) = f x" using arg_cong [OF t, of "take (length (f x))"] by simp
    moreover have "take (length (concat (map f (filter P xs)))) (drop (pos + length (f x)) src) = concat (map f (filter P xs))"
      using arg_cong [OF t, of "drop (length (f x))"] by (simp add: drop_take add.commute)
    ultimately show ?thesis using Cons.IH [of "pos + length (f x)"] Cons.hyps(1) Cons.prems(1) True l
      by (simp add: add.assoc)
  next
    case False
    then show ?thesis using Cons.IH [of pos] Cons.hyps(1) Cons.prems by simp
  qed
qed simp

section \<open>Running the decoders\<close>

text \<open>
  Before the node that mirrors the last of \<open>ns\<close> runs, the streams up to \<open>e\<close> that no node of \<open>ns\<close> consumed
  are there, with the content they had.
\<close>

definition avail :: "nat \<Rightarrow> ZL_Data list \<Rightarrow> RTNode list \<Rightarrow> nat \<Rightarrow> ZL_DCtx_DataInfo list \<Rightarrow> bool" where
  "avail T vals ns e infos \<longleftrightarrow> length infos = T
     \<and> (\<forall>j < T. di_data (infos ! (T - 1 - j)) = (if j < e \<and> j \<notin> set (consumed ns) then Some (vals ! j) else None))"

lemma createRegens_exact:
  assumes "distinct ids" "\<forall>q \<in> set ids. q < length infos" "distinct (map fst rs)" "fst ` set rs \<subseteq> {..<length ids}"
    "\<forall>r \<in> set rs. wf_data (snd r) \<and> data_type (snd r) = DT_getRegenType dt (fst r)"
  shows "\<exists>infos'. createRegens dt ids rs infos = Inr infos' \<and> length infos' = length infos
    \<and> (\<forall>r \<in> set rs. di_data (infos' ! (ids ! fst r)) = Some (snd r))
    \<and> (\<forall>q < length infos. q \<notin> (\<lambda>r. ids ! fst r) ` set rs \<longrightarrow> infos' ! q = infos ! q)"
  using assms
proof (induction rs arbitrary: infos)
  case (Cons r rs)
  let ?i = "ids ! fst r"
  let ?infos = "infos[?i := (infos ! ?i)\<lparr>di_data := Some (snd r)\<rparr>]"
  have wf: "wf_data (snd r)" "data_type (snd r) = DT_getRegenType dt (fst r)" "fst r < length ids" "?i < length infos"
    using Cons.prems by auto
  have eq: "(snd r)\<lparr>data_type := DT_getRegenType dt (fst r)\<rparr> = snd r" unfolding wf(2) [symmetric] by simp
  have "eltWidth (snd r) \<noteq> 0" "STREAM_validateTypeWidth (DT_getRegenType dt (fst r)) (eltWidth (snd r)) = Inr ()"
    using wf by (auto simp: wf_data_def STREAM_validateTypeWidth_def split: ZL_Type.splits if_splits)
  then have c: "ZL_Decoder_createTypedStream dt ids (fst r) (snd r) infos = Inr ?infos"
    using wf by (simp add: ZL_Decoder_createTypedStream_def DCTX_newStream_def eq)
  have "\<exists>infos'. createRegens dt ids rs ?infos = Inr infos' \<and> length infos' = length ?infos
    \<and> (\<forall>r \<in> set rs. di_data (infos' ! (ids ! fst r)) = Some (snd r))
    \<and> (\<forall>q < length ?infos. q \<notin> (\<lambda>r. ids ! fst r) ` set rs \<longrightarrow> infos' ! q = ?infos ! q)"
    by (rule Cons.IH) (use Cons.prems in auto)
  then obtain infos' where i: "createRegens dt ids rs ?infos = Inr infos'" "length infos' = length infos"
    "\<forall>r \<in> set rs. di_data (infos' ! (ids ! fst r)) = Some (snd r)"
    "\<forall>q < length infos. q \<notin> (\<lambda>r. ids ! fst r) ` set rs \<longrightarrow> infos' ! q = ?infos ! q" by auto
  have "?i \<notin> (\<lambda>r. ids ! fst r) ` set rs"
  proof
    assume "?i \<in> (\<lambda>r. ids ! fst r) ` set rs"
    then obtain r' where "r' \<in> set rs" "ids ! fst r' = ?i" by auto
    then have "fst r' = fst r" using Cons.prems(1,4) nth_eq_iff_index_eq by fastforce
    then show False using Cons.prems(3) \<open>r' \<in> set rs\<close> by (metis distinct.simps(2) image_eqI list.set_map list.simps(9))
  qed
  then have "di_data (infos' ! ?i) = Some (snd r)" using i(4) wf(4) by simp
  then show ?case using c i by (intro exI [of _ infos']) auto
qed simp

lemma slots_types:
  assumes "\<forall>y \<in> set outs. fst y < CNODE_getNbOutcomes cn" "i < length (slots cn outs)"
  shows "if i < length (soTypes cn) then data_type (slots cn outs ! i) = soTypes cn ! i
    else data_type (slots cn outs ! i) \<in> set (voTypes cn)"
proof (cases "i < length (soTypes cn)")
  case True
  then show ?thesis
    by (simp add: slots_def nth_append typed_def CNODE_getOutStreamType_def CNODE_isVO_def CNODE_getNbOut1s_def)
next
  case False
  let ?k = "i - CNODE_getNbOut1s cn"
  have k: "?k < length (VO_outs cn outs)" using False assms(2) by (simp add: slots_def CNODE_getNbOut1s_def)
  let ?y = "VO_outs cn outs ! ?k"
  have y: "?y \<in> set outs" "CNODE_isVO cn (fst ?y)" using nth_mem [OF k] by auto
  then have "fst ?y - CNODE_getNbOut1s cn < length (voTypes cn)"
    using assms(1) by (fastforce simp: CNODE_getNbOutcomes_def CNODE_isVO_def)
  moreover have "slots cn outs ! i = typed cn (fst ?y) (snd ?y)"
    using False k by (simp add: slots_def nth_append CNODE_getNbOut1s_def)
  ultimately show ?thesis using False y(2) by (simp add: typed_def CNODE_getOutStreamType_def)
qed

lemma validateNodeInputs_slots:
  assumes "\<forall>y \<in> set outs. fst y < CNODE_getNbOutcomes cn" "dt_soTypes dt = soTypes cn" "dt_voTypes dt = voTypes cn"
  shows "DCTX_validateNodeInputs dt (map Some (slots cn outs)) = Inr ()"
proof -
  have "\<not> list_ex (\<lambda>i. if i < length (dt_soTypes dt) then data_type (the (map Some (slots cn outs) ! i)) \<noteq> dt_soTypes dt ! i
          else data_type (the (map Some (slots cn outs) ! i)) \<notin> set (dt_voTypes dt)) [0..<length (map Some (slots cn outs))]"
    using slots_types [OF assms(1)] unfolding list_ex_iff assms(2,3) by (auto split: if_splits)
  then show ?thesis unfolding DCTX_validateNodeInputs_def by (auto simp: list_ex_iff)
qed

lemma getNodeInputs_avail:
  assumes "avail T vals (ns @ [nd]) e (dataInfo d)" "laid p (ns @ [nd]) e" "e \<le> T" "T \<le> 110000" "length vals = T"
  shows "DCTX_getNodeInputs d (reads T nd) = map Some (take (nbOutStreams nd) (drop (startOutRtsids nd) vals))"
proof -
  have l: "e = startOutRtsids nd + nbOutStreams nd" "\<forall>i \<in> set (consumed (ns @ [nd])). i < startOutRtsids nd"
    using assms(2) consumed_less by (fastforce simp: laid_append)+
  have w: "unat (word_of_nat (T - e) :: u32) = T - e" "unat (word_of_nat (nbOutStreams nd) :: u32) = nbOutStreams nd"
    using assms(3,4) l(1) by (intro unat_u32; simp)+
  show ?thesis
  proof (rule nth_equalityI)
    show len: "length (DCTX_getNodeInputs d (reads T nd)) = length (map Some (take (nbOutStreams nd) (drop (startOutRtsids nd) vals)))"
      using assms(3,5) l(1) w by (simp add: DCTX_getNodeInputs_def reads_def)
    fix k assume "k < length (DCTX_getNodeInputs d (reads T nd))"
    then have k: "k < nbOutStreams nd" using w by (simp add: DCTX_getNodeInputs_def reads_def)
    let ?j = "startOutRtsids nd + k"
    have "T - e + (nbOutStreams nd - 1 - k) = T - 1 - ?j" using k l(1) assms(3) by simp
    then have "DCTX_getNodeInputs d (reads T nd) ! k = di_data (dataInfo d ! (T - 1 - ?j))"
      using k w by (simp add: DCTX_getNodeInputs_def reads_def rev_nth l(1))
    also have "\<dots> = Some (vals ! ?j)" using assms(1,3) k l by (fastforce simp: avail_def)
    finally show "DCTX_getNodeInputs d (reads T nd) ! k = map Some (take (nbOutStreams nd) (drop (startOutRtsids nd) vals)) ! k"
      using k l(1) assms(3,5) by simp
  qed
qed

lemma regenerated_ids:
  assumes "mirrors staging th nd dn" "\<forall>i \<in> set (inRtsids nd). i < startOutRtsids nd"
    "startOutRtsids nd + nbOutStreams nd \<le> T" "T \<le> 110000"
  shows "DCTX_getRegeneratedStreamIDs dn (reads T nd) = map (\<lambda>i. T - 1 - i) (inRtsids nd)"
proof -
  let ?b = "word_of_nat (T - (startOutRtsids nd + nbOutStreams nd)) :: u32" and ?n = "word_of_nat (nbOutStreams nd) :: u32"
  have "unat ?b = T - (startOutRtsids nd + nbOutStreams nd)" "unat ?n = nbOutStreams nd"
    using assms(3,4) by (intro unat_u32; simp)+
  then have w: "unat ?b + unat ?n = T - startOutRtsids nd" using assms(3) by linarith
  have sl: "map (\<lambda>d. T - startOutRtsids nd + unat d) (regenDistances dn) = map (\<lambda>i. T - 1 - i) (inRtsids nd)"
    using mirrored_slots [OF assms(1,2)] assms(3,4) by simp
  have "unat (?b + ?n + d) = T - startOutRtsids nd + unat d" if "d \<in> set (regenDistances dn)" for d
  proof -
    have "T - startOutRtsids nd + unat d \<in> set (map (\<lambda>i. T - 1 - i) (inRtsids nd))" using that unfolding sl [symmetric] by simp
    then have "T - startOutRtsids nd + unat d < 2 ^ 32" using assms(4) by auto
    then show ?thesis by (rule regen_ids) (simp only: w)
  qed
  then show ?thesis unfolding DCTX_getRegeneratedStreamIDs_def reads_def fst_conv snd_conv sl [symmetric] by (rule map_cong [OF refl])
qed

lemma avail_step:
  assumes av: "avail T vals (ns @ [nd]) e infos" and laid: "laid p (ns @ [nd]) e" "e \<le> T" "T \<le> 110000"
    and dis: "distinct (consumed (ns @ [nd]))"
    and new: "length infos' = T" "\<forall>i \<in> set (inRtsids nd). di_data (infos' ! (T - 1 - i)) = Some (vals ! i)"
      "\<forall>q < T. q \<notin> (\<lambda>i. T - 1 - i) ` set (inRtsids nd) \<longrightarrow> infos' ! q = infos ! q"
  shows "avail T vals ns (startOutRtsids nd) (DCTX_freeDecoderInputStreams (reads T nd) infos')"
  unfolding avail_def
proof (intro conjI allI impI)
  let ?m = "startOutRtsids nd" and ?free = "DCTX_freeDecoderInputStreams (reads T nd) infos'"
  have l: "e = ?m + nbOutStreams nd" "\<forall>i \<in> set (consumed (ns @ [nd])). i < ?m"
    using laid(1) consumed_less by (fastforce simp: laid_append)+
  have lt: "\<forall>i \<in> set (inRtsids nd). i < T"
  proof
    fix i assume "i \<in> set (inRtsids nd)"
    then have "i < ?m" using l(2) by simp
    then show "i < T" using l(1) laid(2) by simp
  qed
  have w: "unat (fst (reads T nd)) = T - e" "unat (snd (reads T nd)) = nbOutStreams nd"
    using laid(2,3) l(1) unfolding reads_def fst_conv snd_conv by (intro trans [OF unat_u32]; simp)+
  then have en: "ends (reads T nd) \<le> length infos'" using new(1) l(1) laid(2) by simp
  note fe = freeInputs_effect [OF en]
  show "length ?free = T" using map_eq_imp_length_eq [OF fe(1)] new(1) by simp
  fix j assume j: "j < T"
  have pos: "T - 1 - j < length infos'" "T - e \<le> T - 1 - j \<and> T - 1 - j < T - e + nbOutStreams nd \<longleftrightarrow> ?m \<le> j \<and> j < e"
    using j new(1) l(1) laid(2) by auto
  have f: "di_data (?free ! (T - 1 - j)) = (if ?m \<le> j \<and> j < e then None else di_data (infos' ! (T - 1 - j)))"
    using fe(2) [OF pos(1)] pos(2) unfolding w by simp
  have old: "di_data (infos ! (T - 1 - j)) = (if j < e \<and> j \<notin> set (consumed (ns @ [nd])) then Some (vals ! j) else None)"
    using av j by (simp add: avail_def)
  show "di_data (?free ! (T - 1 - j)) = (if j < ?m \<and> j \<notin> set (consumed ns) then Some (vals ! j) else None)"
  proof (cases "j \<in> set (inRtsids nd)")
    case True
    then have "j < ?m" "j \<notin> set (consumed ns)" using l(2) dis by auto
    then show ?thesis using True f new(2) by simp
  next
    case False
    then have "T - 1 - j \<notin> (\<lambda>i. T - 1 - i) ` set (inRtsids nd)"
      using flip(2) [of "T - 1 - j" T "set (inRtsids nd)"] j lt by simp
    then have "di_data (infos' ! (T - 1 - j)) = di_data (infos ! (T - 1 - j))" using new(3) j by simp
    then show ?thesis using f old False l by auto
  qed
qed

lemma regen_type:
  assumes "dt_inputTypes dt = inputTypes cn"
  shows "DT_getRegenType dt k = CNODE_getInputType cn k"
proof -
  have "min k (n - 1) = (if n \<le> k then n - 1 else k)" for n :: nat unfolding min_def by auto
  then show ?thesis using assms by (simp add: DT_getRegenType_def CNODE_getInputType_def CNODE_getNbInputPorts_def Let_def)
qed

lemma runDecoder_mirrored:
  assumes av: "avail T vals (ns @ [nd]) e (dataInfo d)" and laid: "laid p (ns @ [nd]) e" "e \<le> T" "T \<le> 110000"
    and dis: "distinct (consumed (ns @ [nd]))" and vals: "length vals = T" "list_all wf_data vals"
    and ok: "node_ok ectx v vals staging nd" and dec: "decodable ectx dctx (dtm d) v (cnode nd)"
    and mir: "mirrors staging (thstream d) nd (nodes (dfh d) ! t)" and bn: "nodeInputs d ! t = reads T nd"
    and ver: "dfh_formatVersion (dfh d) = v" and dict: "dict_ok fp (dctx_bundle d) (maybeDictIndex (cnode nd))"
  shows "\<exists>infos. DCTX_runDecoder dctx d t = Inr (d\<lparr>dataInfo := infos\<rparr>) \<and> avail T vals ns (startOutRtsids nd) infos"
proof -
  let ?cn = "cnode nd" and ?dn = "nodes (dfh d) ! t" and ?ins = "map ((!) vals) (inRtsids nd)"
  have l: "e = startOutRtsids nd + nbOutStreams nd" "\<forall>i \<in> set (inRtsids nd). i < startOutRtsids nd" "inRtsids nd \<noteq> []"
    using laid(1) by (auto simp: laid_append)
  obtain outs h where o: "codec_ran ectx v ?cn ?ins outs h" "nbOutStreams nd = length (slots ?cn outs)"
    "take (nbOutStreams nd) (drop (startOutRtsids nd) vals) = slots ?cn outs" "hdr staging nd = header_of h"
    using ok by (rule node_okD) blast
  have wfi: "wf_data (vals ! i)" "i < T" if "i \<in> set (inRtsids nd)" for i
    using that l laid(2) vals by (fastforce simp: list_all_length)+
  then have "list_all wf_data ?ins" by (simp add: list_all_iff)
  then obtain dt rs where dt: "DTM_getTransform (dtm d) (cn_trInfo ?cn) v = Inr dt" "dt_inputTypes dt = inputTypes ?cn"
    "dt_soTypes dt = soTypes ?cn" "dt_voTypes dt = voTypes ?cn"
    and vo: "\<forall>y \<in> set outs. fst y < CNODE_getNbOutcomes ?cn"
    and rs: "transformFn dt dctx (maybeDictIndex ?cn) (header_of h) (slots ?cn outs) (length ?ins) = Inr rs"
      "distinct (map fst rs)" "set rs = set (enumerate 0 ?ins)"
    using dec o(1) unfolding decodable_def by blast
  note gi = getNodeInputs_avail [OF av laid vals(1), unfolded o(3)]
  have m: "trpid ?dn = cn_trInfo ?cn" "unat (nbRegens ?dn) = length ?ins" "dictIdx ?dn = maybeDictIndex ?cn"
    "ZL_RBuffer_slice (thstream d) (trhStart ?dn) (unat (trhSize ?dn)) = Inr (header_of h)"
    using mir o(4) by (simp_all add: mirrors_def)
  let ?ids = "map (\<lambda>i. T - 1 - i) (inRtsids nd)"
  have ids: "DCTX_getRegeneratedStreamIDs ?dn (reads T nd) = ?ids"
    using regenerated_ids [OF mir l(2)] l(1) laid(2,3) by simp
  have "distinct ?ids" using dis flip(1) [of "set (inRtsids nd)" T] wfi(2) by (simp add: distinct_map)
  moreover have "\<forall>q \<in> set ?ids. q < length (dataInfo d)" using wfi(2) av by (fastforce simp: avail_def)
  moreover have rmem: "r \<in> set rs \<longleftrightarrow> fst r < length ?ins \<and> snd r = ?ins ! fst r" for r
    unfolding rs(3) by (cases r) (auto simp: in_set_enumerate_eq)
  then have "fst ` set rs \<subseteq> {..<length ?ids}" by auto
  moreover have "wf_data (snd r) \<and> data_type (snd r) = DT_getRegenType dt (fst r)" if "r \<in> set rs" for r
    using that rmem wfi(1) o(1) by (simp add: codec_ran_def regen_type [OF dt(2)])
  ultimately obtain infos where c: "createRegens dt ?ids rs (dataInfo d) = Inr infos" "length infos = length (dataInfo d)"
    "\<forall>r \<in> set rs. di_data (infos ! (?ids ! fst r)) = Some (snd r)"
    "\<forall>q < length (dataInfo d). q \<notin> (\<lambda>r. ?ids ! fst r) ` set rs \<longrightarrow> infos ! q = dataInfo d ! q"
    using createRegens_exact [of ?ids "dataInfo d" rs dt] rs(2) by blast
  have new: "di_data (infos ! (T - 1 - i)) = Some (vals ! i)" if i: "i \<in> set (inRtsids nd)" for i
  proof -
    obtain k where k: "k < length (inRtsids nd)" "i = inRtsids nd ! k" using i by (metis in_set_conv_nth)
    then have "(k, vals ! i) \<in> set rs" using rmem by simp
    then show ?thesis using c(3) k by force
  qed
  have img: "(\<lambda>r. ?ids ! fst r) ` set rs \<subseteq> (\<lambda>i. T - 1 - i) ` set (inRtsids nd)" using rmem by auto
  have "avail T vals ns (startOutRtsids nd) (DCTX_freeDecoderInputStreams (reads T nd) infos)"
    using avail_step [OF av laid dis, of infos] c(2,4) new img av by (fastforce simp: avail_def)
  moreover have "DCTX_validateNodeOutputs ?ids infos = Inr ()"
    using new by (auto simp: DCTX_validateNodeOutputs_def list_ex_iff)
  moreover have "checkDict (dctx_bundle d) (maybeDictIndex ?cn) = Inr ()" using dict by (auto simp: dict_ok_def checkDict_def)
  moreover have "map the (map Some (slots ?cn outs)) = slots ?cn outs" by (simp add: comp_def)
  ultimately show ?thesis
    using rs(1) c(1) validateNodeInputs_slots [OF vo dt(3,4)] dt(1) m(2)
    by (intro exI [of _ "DCTX_freeDecoderInputStreams (reads T nd) infos"])
      (simp only: DCTX_runDecoder_def Let_def bn m ver dt(1) res_bind_simps gi ids simp_thms)
qed

lemma runStages_mirrored:
  assumes "rt_nodes g = ns @ post" "laid p ns e" "avail T vals ns e (dataInfo d)" "e \<le> T" "T \<le> 110000"
    "distinct (consumed (rt_nodes g))" "length vals = T" "list_all wf_data vals"
    "\<forall>nd \<in> set (rt_nodes g). node_ok ectx v vals staging nd \<and> decodable ectx dctx (dtm d) v (cnode nd)
      \<and> dict_ok fp (dctx_bundle d) (maybeDictIndex (cnode nd))"
    "\<forall>t < length (rt_nodes g). mirrors staging (thstream d) (rev (rt_nodes g) ! t) (nodes (dfh d) ! t)
      \<and> nodeInputs d ! t = reads T (rev (rt_nodes g) ! t)"
    "dfh_formatVersion (dfh d) = v"
  shows "\<exists>infos. runStages dctx d [length (rt_nodes g) - length ns..<length (rt_nodes g)] = Inr (d\<lparr>dataInfo := infos\<rparr>)
    \<and> avail T vals [] p infos"
  using assms
proof (induction ns arbitrary: e d post rule: rev_induct)
  case Nil
  then show ?case by (auto intro!: exI [of _ "dataInfo d"])
next
  case (snoc nd ns)
  let ?N = "length (rt_nodes g)"
  let ?t = "?N - Suc (length ns)"
  have N: "?N = length ns + Suc (length post)" using snoc.prems(1) by simp
  have nd: "nd \<in> set (rt_nodes g)" "rev (rt_nodes g) ! ?t = nd"
    using snoc.prems(1) by (simp_all add: rev_nth N nth_append)
  have t: "?t < ?N" using N by simp
  have dis: "distinct (consumed (ns @ [nd]))" using snoc.prems(1,6) by (auto simp: consumed_def)
  have m: "mirrors staging (thstream d) nd (nodes (dfh d) ! ?t)" "nodeInputs d ! ?t = reads T nd"
    using snoc.prems(10) t nd(2) by auto
  obtain infos where run: "DCTX_runDecoder dctx d ?t = Inr (d\<lparr>dataInfo := infos\<rparr>)" "avail T vals ns (startOutRtsids nd) infos"
    using runDecoder_mirrored [OF snoc.prems(3,2,4,5) dis snoc.prems(7,8) _ _ m snoc.prems(11)] snoc.prems(9) nd(1) by blast
  have l: "laid p ns (startOutRtsids nd)" "startOutRtsids nd \<le> T" using snoc.prems(2,4) by (auto simp: laid_append)
  have "\<exists>infos'. runStages dctx (d\<lparr>dataInfo := infos\<rparr>) [?N - length ns..<?N] = Inr (d\<lparr>dataInfo := infos, dataInfo := infos'\<rparr>)
      \<and> avail T vals [] p infos'"
    by (rule snoc.IH [OF _ l(1) _ l(2)]) (use snoc.prems run(2) in simp_all)
  moreover have "[?N - length (ns @ [nd])..<?N] = ?t # [?N - length ns..<?N]"
    using upt_conv_Cons [OF t] N by simp
  ultimately show ?case using run(1) by simp
qed

lemma static_ok_node:
  assumes "node_ok ectx v vals staging nd" "decodable ectx dctx tm v (cnode nd)" "\<forall>i \<in> set (inRtsids nd). wf_data (vals ! i)"
  shows "static_ok tm v nd"
proof -
  let ?cn = "cnode nd" and ?ins = "map ((!) vals) (inRtsids nd)"
  obtain outs h where o: "codec_ran ectx v ?cn ?ins outs h" "nbOutStreams nd = length (slots ?cn outs)"
    using assms(1) by (rule node_okD) blast
  have "list_all wf_data ?ins" using assms(3) by (simp add: list_all_iff)
  then obtain dt where dt: "DTM_getTransform tm (cn_trInfo ?cn) v = Inr dt" "dt_inputTypes dt = inputTypes ?cn"
    "dt_lastInputIsVariable dt = lastInputIsVariable ?cn" "dt_soTypes dt = soTypes ?cn" "dt_voTypes dt = voTypes ?cn"
    and vo: "\<forall>y \<in> set outs. fst y < CNODE_getNbOutcomes ?cn"
    using assms(2) o(1) unfolding decodable_def by blast
  have "DT_isNbRegensCompatible dt (length (inRtsids nd))"
    using o(1) dt(2,3) by (auto simp: codec_ran_def DT_isNbRegensCompatible_def CNODE_isNbInputsCompatible_def CNODE_getNbInputPorts_def)
  moreover have "nbOutStreams nd = CNODE_getNbOut1s ?cn" if "dt_voTypes dt = []"
    using that vo dt(5) o(2) by (auto simp: slots_def CNODE_getNbOutcomes_def CNODE_isVO_def filter_empty_conv)
  moreover have "CNODE_getNbOut1s ?cn \<le> nbOutStreams nd" using o(2) by (simp add: slots_def)
  ultimately show ?thesis using o dt by (auto simp: static_ok_def codec_ran_def CNODE_getNbOut1s_def)
qed

section \<open>The round trip of a graph\<close>

text \<open>What the header of the chunk says, for the description of the finished graph.\<close>

definition describes :: "ZL_FrameProperties \<Rightarrow> nat \<Rightarrow> GraphInfo \<Rightarrow> DFH_Struct \<Rightarrow> bool" where
  "describes fp v gip h \<longleftrightarrow> dfh_formatVersion h = v \<and> nodes h = map (chunk_node v fp gip) [0..<length (trInfo gip)]
     \<and> storedStreamSizes h = tl (storedBuffs gip) \<and> dfh_regenDistances h = map (\<lambda>d. d - 1) (distances gip)
     \<and> totalTHSize h = sum_list (map unat (trHSizes gip))"

lemma stored_mirrored:
  assumes s: "sound ectx v inputs cctx {} vals" and q: "q < length vals"
  shows "toStore (rev (streams (rtgraph cctx)) ! q) \<longleftrightarrow> length vals - 1 - q \<notin> set (consumed (rt_nodes (rtgraph cctx)))"
    "toStore (rev (streams (rtgraph cctx)) ! q) \<Longrightarrow>
      serial (data_bytes (the (stream (rev (streams (rtgraph cctx)) ! q)))) = vals ! (length vals - 1 - q)"
proof -
  note d = soundD [OF s]
  let ?j = "length vals - 1 - q"
  have j: "?j < length vals" and r: "rev (streams (rtgraph cctx)) ! q = streams (rtgraph cctx) ! ?j"
    using q d(1) by (auto simp: rev_nth)
  have st: "toStore (rev (streams (rtgraph cctx)) ! q) \<longleftrightarrow> ?j \<in> stored (rtgraph cctx)" using j d(1) r by (simp add: stored_def)
  also have "\<dots> \<longleftrightarrow> ?j \<notin> set (consumed (rt_nodes (rtgraph cctx)))" using d(8,9) j by blast
  finally show "toStore (rev (streams (rtgraph cctx)) ! q) \<longleftrightarrow> ?j \<notin> set (consumed (rt_nodes (rtgraph cctx)))" .
  assume "toStore (rev (streams (rtgraph cctx)) ! q)"
  then have "stream (rev (streams (rtgraph cctx)) ! q) = Some (vals ! ?j)" "data_type (vals ! ?j) = ZL_Type_serial"
    using st d(10,11) r by auto
  moreover have "wf_data (vals ! ?j)" using d(3) j by (simp add: list_all_length)
  ultimately show "serial (data_bytes (the (stream (rev (streams (rtgraph cctx)) ! q)))) = vals ! ?j"
    using wf_serial_data by simp
qed

lemma fillStoredStreams_mirrored:
  assumes s: "sound ectx v inputs cctx {} vals" and f: "CCTX_getFinalGraph cctx = Inr (gip, buffs)"
    and dec: "\<forall>nd \<in> set (rt_nodes (rtgraph cctx)). decodable ectx dctx (dtm d) v (cnode nd)"
    and dict: "\<forall>nd \<in> set (rt_nodes (rtgraph cctx)). dict_ok fp dicts (maybeDictIndex (cnode nd))"
    and h: "describes fp v gip (dfh d)" "nbOutputs d = length inputs" and src: "drop start src = concat buffs @ rest" "start \<le> length src"
    and inp: "inputs \<noteq> []"
  shows "\<exists>infos e. fillStoredStreams d src start = Inr (d\<lparr>dataInfo := infos,
      nodeInputs := map (reads (length vals)) (rev (rt_nodes (rtgraph cctx))), thstream := hd buffs, streamEndPos := e\<rparr>, length (concat buffs))
    \<and> avail (length vals) vals (rt_nodes (rtgraph cctx)) (length vals) infos"
proof -
  note so = soundD [OF s] and ff = finalGraph_fields [OF f soundD(13) [OF s]]
  let ?g = "rtgraph cctx" and ?T = "length vals"
  let ?ms = "rev (rt_nodes ?g)" and ?blank = "replicate ?T \<lparr>di_data = None, producerNodeIdx = None\<rparr>"
  have T: "?T + 1 < ZL_runtimeStreamLimit v" "?T \<le> 110000" using ff(9) so(1,14) stream_limit(1) [of v] by simp_all
  have N: "length (trInfo gip) = length (rt_nodes ?g)" by (simp add: ff(1))
  have l2: "list_all2 (mirrors (stagingHeaderStream cctx) (hd buffs)) ?ms (nodes (dfh d))"
    using mirrored_nodes [OF s f dict] h(1) by (simp add: list_all2_conv_all_nth describes_def N)
  have la: "laid (length inputs) (rev ?ms) ?T" using so(4) by simp
  have sk: "list_all (static_ok (dtm d) v) ?ms"
  proof (unfold list_all_iff, intro ballI static_ok_node)
    fix nd assume nd: "nd \<in> set ?ms"
    then show "node_ok ectx v vals (stagingHeaderStream cctx) nd" using so(5) by (simp add: list_all_iff)
    show "decodable ectx dctx (dtm d) v (cnode nd)" using dec nd by simp
    fix i assume "i \<in> set (inRtsids nd)"
    then have "i < ?T" using node_bounds(6,7) [OF s, of nd] nd by auto
    then show "wf_data (vals ! i)" using so(3) by (simp add: list_all_length)
  qed
  have dis: "distinct (consumed ?ms)"
    using distinct_card [OF so(6)] card_distinct [of "consumed ?ms"] by (simp add: length_consumed_rev)
  have pr: "\<forall>i \<in> set (consumed ?ms). producerNodeIdx (?blank ! (?T - 1 - i)) = None"
    using consumed_less [OF so(4)] by (fastforce simp: length_consumed_rev)
  obtain infos where pl: "planNodes (dtm d) v (length inputs) 0 0 (nodes (dfh d)) ?blank = Inr (map (reads ?T) ?ms, infos)"
    "length infos = ?T" "map di_data infos = map di_data ?blank"
    "\<forall>q < ?T. producerNodeIdx (infos ! q) = None \<longleftrightarrow> producerNodeIdx (?blank ! q) = None \<and> ?T - 1 - q \<notin> set (consumed ?ms)"
    using planNodes_mirrored [OF l2 la order.refl order.refl T(2) sk length_replicate dis pr, of 0] by auto
  let ?xs = "rev (streams ?g)" and ?f = "\<lambda>x. data_bytes (the (stream x))"
  have bufs: "tl buffs = map ?f (filter toStore ?xs)" "tl (storedBuffs gip) = map (\<lambda>x. word_of_nat (length (?f x))) (filter toStore ?xs)"
    by (simp_all add: ff(7,8) RTGM_listBuffersToStore_def)
  have "list_all2 (\<lambda>info x. producerNodeIdx info = None \<longleftrightarrow> toStore x) infos ?xs"
    using pl(2,4) stored_mirrored(1) [OF s] so(1) by (simp add: list_all2_conv_all_nth length_consumed_rev)
  moreover have "length (?f x) < 2 ^ 64" if x: "x \<in> set ?xs" "toStore x" for x
  proof -
    obtain q where q: "q < ?T" "x = ?xs ! q" using x(1) so(1) by (metis in_set_conv_nth length_rev)
    then have "serial (?f x) = vals ! (?T - 1 - q)" using stored_mirrored(2) [OF s q(1)] x(2) by simp
    moreover have "wf_data (vals ! (?T - 1 - q))" using so(3) q(1) by (simp add: list_all_length)
    ultimately show ?thesis by (metis wf_serial)
  qed
  moreover have th: "totalTHSize (dfh d) = length (hd buffs)"
  proof -
    have "unat (word_of_nat (len (nodeHeaderSegment nd)) :: size_t) = length (hdr (stagingHeaderStream cctx) nd)"
      if "nd \<in> set ?ms" for nd
    proof -
      have "node_ok ectx v vals (stagingHeaderStream cctx) nd" using so(5) that by (simp add: list_all_iff)
      then have "length (hdr (stagingHeaderStream cctx) nd) = len (nodeHeaderSegment nd)" by (rule node_okD) simp
      then show ?thesis using node_bounds(4) [OF s, of nd] that by (simp add: unat_of_nat)
    qed
    then show ?thesis using h(1) unfolding describes_def ff(2,7) list.sel length_concat map_map comp_def
      by (metis (no_types, lifting) map_cong)
  qed
  moreover have cb: "concat buffs = hd buffs @ concat (map ?f (filter toStore ?xs))" using bufs(1) by (simp add: ff(7))
  ultimately have ps: "placeStored src infos (tl (storedBuffs gip)) (start + totalTHSize (dfh d))
      = Inr (map2 (\<lambda>info x. if toStore x then info\<lparr>di_data := Some (serial (?f x))\<rparr> else info) infos ?xs, start + length (concat buffs))"
    using placeStored_mirrored [of toStore infos ?xs ?f "start + length (hd buffs)" src] src(1)
    unfolding bufs(2) th by (simp add: drop_drop [symmetric] add.commute [of start] cb del: drop_drop)
  let ?infos = "map2 (\<lambda>info x. if toStore x then info\<lparr>di_data := Some (serial (?f x))\<rparr> else info) infos ?xs"
  have "avail ?T vals (rt_nodes ?g) ?T ?infos"
    unfolding avail_def
  proof (intro conjI allI impI)
    show "length ?infos = ?T" using pl(2) so(1) by simp
    fix j assume j: "j < ?T"
    let ?q = "?T - 1 - j"
    have q: "?q < ?T" "?T - 1 - ?q = j" using j by simp_all
    have "di_data (infos ! ?q) = None" using arg_cong [OF pl(3), of "\<lambda>l. l ! ?q"] pl(2) q(1) by simp
    then show "di_data (?infos ! ?q) = (if j < ?T \<and> j \<notin> set (consumed (rt_nodes ?g)) then Some (vals ! j) else None)"
      using stored_mirrored [OF s q(1)] j q pl(2) so(1) by simp
  qed
  moreover have "fillStoredStreams d src start = Inr (d\<lparr>dataInfo := ?infos, nodeInputs := map (reads ?T) ?ms,
      thstream := hd buffs, streamEndPos := start + length (concat buffs)\<rparr>, length (concat buffs))"
  proof -
    have "?T = length (storedStreamSizes (dfh d)) + length (dfh_regenDistances (dfh d))"
      using finalGraph_total [OF s f] h(1) by (simp add: describes_def)
    moreover have "length src = start + length (concat buffs) + length rest"
      using arg_cong [OF src(1), of length] src(2) by simp
    moreover have "take (length (hd buffs)) (drop start src) = hd buffs" unfolding src(1) cb by simp
    moreover have "dfh_formatVersion (dfh d) = v" "storedStreamSizes (dfh d) = tl (storedBuffs gip)"
      using h(1) by (simp_all add: describes_def)
    moreover have "?T \<noteq> 0" using laid_le [OF so(4)] inp by (cases inputs) auto
    ultimately show ?thesis using pl(1) ps T(1) th h(2) cb unfolding fillStoredStreams_def Let_def
      by simp
  qed
  ultimately show ?thesis by blast
qed

lemma graph_roundtrip:
  assumes s: "sound ectx v inputs cctx {} vals" and f: "CCTX_getFinalGraph cctx = Inr (gip, buffs)"
    and dec: "\<forall>nd \<in> set (rt_nodes (rtgraph cctx)). decodable ectx dctx (dtm d) v (cnode nd)"
    and dict: "\<forall>nd \<in> set (rt_nodes (rtgraph cctx)). dict_ok fp (dctx_bundle d) (maybeDictIndex (cnode nd))"
    and h: "describes fp v gip (dfh d)" "nbOutputs d = length inputs" and src: "drop start src = concat buffs @ rest" "start \<le> length src"
    and inp: "inputs \<noteq> []"
  shows "\<exists>d1 d2. fillStoredStreams d src start = Inr (d1, length (concat buffs))
    \<and> runDecoders dctx d1 = Inr d2 \<and> chunkOutputs d2 = Inr inputs \<and> dfh d1 = dfh d \<and> dfh d2 = dfh d
    \<and> dtm d2 = dtm d \<and> nbOutputs d2 = nbOutputs d \<and> dctx_bundle d2 = dctx_bundle d"
proof -
  note so = soundD [OF s] and ff = finalGraph_fields [OF f soundD(13) [OF s]]
  let ?g = "rtgraph cctx" and ?T = "length vals"
  have T: "?T \<le> 110000" using ff(9) so(1,14) stream_limit(1) [of v] by simp
  obtain infos e where fl: "fillStoredStreams d src start = Inr (d\<lparr>dataInfo := infos,
      nodeInputs := map (reads ?T) (rev (rt_nodes ?g)), thstream := hd buffs, streamEndPos := e\<rparr>, length (concat buffs))"
    and av: "avail ?T vals (rt_nodes ?g) ?T infos"
    using fillStoredStreams_mirrored [OF s f dec dict h src inp] by blast
  let ?d1 = "d\<lparr>dataInfo := infos, nodeInputs := map (reads ?T) (rev (rt_nodes ?g)), thstream := hd buffs, streamEndPos := e\<rparr>"
  have N: "length (nodes (dfh d)) = length (rt_nodes ?g)" using h(1) by (simp add: describes_def ff(1))
  have m: "\<forall>t < length (rt_nodes ?g). mirrors (stagingHeaderStream cctx) (thstream ?d1) (rev (rt_nodes ?g) ! t) (nodes (dfh ?d1) ! t)
      \<and> nodeInputs ?d1 ! t = reads ?T (rev (rt_nodes ?g) ! t)"
    using mirrored_nodes [OF s f dict] h(1) by (simp add: describes_def ff(1))
  have n: "\<forall>nd \<in> set (rt_nodes ?g). node_ok ectx v vals (stagingHeaderStream cctx) nd \<and> decodable ectx dctx (dtm ?d1) v (cnode nd)
      \<and> dict_ok fp (dctx_bundle ?d1) (maybeDictIndex (cnode nd))"
    using so(5) dec dict by (simp add: list_all_iff)
  have v: "dfh_formatVersion (dfh ?d1) = v" using h(1) by (simp add: describes_def)
  have av1: "avail ?T vals (rt_nodes ?g) ?T (dataInfo ?d1)" using av by simp
  obtain infos2 where r: "runStages dctx ?d1 [length (rt_nodes ?g) - length (rt_nodes ?g)..<length (rt_nodes ?g)]
      = Inr (?d1\<lparr>dataInfo := infos2\<rparr>)" "avail ?T vals [] (length inputs) infos2"
    using runStages_mirrored [OF append_Nil2 [symmetric] so(4) av1 order.refl T so(6) refl so(3) n m v] by blast
  have I: "length inputs \<le> ?T" using laid_le [OF so(4)] .
  have out: "di_data (infos2 ! (?T - n - 1)) = Some (inputs ! n)" if "n < length inputs" for n
  proof -
    have "di_data (infos2 ! (?T - 1 - n)) = Some (vals ! n)" using r(2) that I by (simp add: avail_def)
    moreover have "vals ! n = inputs ! n" using so(2) that by (metis nth_take)
    ultimately show ?thesis by (simp add: diff_commute)
  qed
  have "map (\<lambda>n. the (di_data (infos2 ! (?T - n - 1)))) [0..<length inputs] = inputs"
    using out by (intro nth_equalityI) simp_all
  then have "chunkOutputs (?d1\<lparr>dataInfo := infos2\<rparr>) = Inr inputs"
    using r(2) h(2) I out by (auto simp: chunkOutputs_def Let_def avail_def list_ex_iff)
  moreover have "runDecoders dctx ?d1 = Inr (?d1\<lparr>dataInfo := infos2\<rparr>)" using r(1) N by (simp add: runDecoders_def)
  ultimately show ?thesis using fl by (intro exI [of _ ?d1] exI [of _ "?d1\<lparr>dataInfo := infos2\<rparr>"]) simp
qed

end
