(* ===== verification/Codec_Conversion.thy ===== *)
theory Codec_Conversion
  imports NumOps Wire_Format Codec_Stream
begin

text \<open>
  The conversion codecs (\<^verbatim>\<open>codecs/conversion\<close>), on a little-endian host: they give a stream another type and
  keep what is needed to restore it in the codec header. An output that refers to the input's memory
  has the same content as a copy; \<open>aligned\<close> tells whether the input's memory is aligned for the
  numeric width, which decides between the two.
\<close>

section \<open>Kernels\<close>

definition NUMOP_byteswap :: "byte list \<Rightarrow> nat \<Rightarrow> nat \<Rightarrow> byte list" where
  "NUMOP_byteswap src nbElts w =
     (if w = 1 then take nbElts src
      else if w = 2 then write_elts 2 (map bswap (take nbElts (read_elts 2 src :: u16 list)))
      else if w = 4 then write_elts 4 (map bswap (take nbElts (read_elts 4 src :: u32 list)))
      else write_elts 8 (map bswap (take nbElts (read_elts 8 src :: u64 list))))"

definition NUMOP_findMaxArr32 :: "u32 list \<Rightarrow> u32" where
  "NUMOP_findMaxArr32 array = foldl (\<lambda>m x. if m < x then x else m) 0 array"

definition NUMOP_numericWidthForArray32 :: "u32 list \<Rightarrow> nat" where
  "NUMOP_numericWidthForArray32 array = NUMOP_numericWidthForValue (ucast (NUMOP_findMaxArr32 array))"

abbreviation tokens :: "nat \<Rightarrow> byte list \<Rightarrow> ZL_Data" where
  "tokens w bs \<equiv> \<lparr>data_type = ZL_Type_struct, eltWidth = w, data_bytes = bs, stringLens = []\<rparr>"

abbreviation strings :: "u32 list \<Rightarrow> byte list \<Rightarrow> ZL_Data" where
  "strings ls bs \<equiv> \<lparr>data_type = ZL_Type_string, eltWidth = 1, data_bytes = bs, stringLens = ls\<rparr>"

section \<open>Encoders\<close>

text \<open>
  A copy of an empty input is committed even when the output could not be created: there is no
  defined behaviour then.
\<close>

definition convertToNumWithOptionalSwap ::
  "codec_ctx \<Rightarrow> bool \<Rightarrow> ZL_Data \<Rightarrow> nat \<Rightarrow> bool \<Rightarrow> (ZL_Data list \<times> byte list) ZL_Result option" where
  "convertToNumWithOptionalSwap ctx aligned d w needsSwap =
     (let contentSize = length (data_bytes d); nbElts = contentSize div w in
      if \<not> (w = 1 \<or> w = 2 \<or> w = 4 \<or> w = 8) then Some (Inl ZL_ErrorCode_streamParameter_invalid)
      else if contentSize mod w \<noteq> 0 then Some (Inl ZL_ErrorCode_streamParameter_invalid)
      else if needsSwap then
        Some (res_bind (createTypedStream ctx nbElts w) (\<lambda>_.
          Inr ([numeric w (NUMOP_byteswap (data_bytes d) nbElts w)], [])))
      else if aligned then Some (Inr ([numeric w (data_bytes d)], []))
      else case createTypedStream ctx nbElts w of
          Inl e \<Rightarrow> if 0 < nbElts then Some (Inl e) else None
        | Inr _ \<Rightarrow> Some (Inr ([numeric w (data_bytes d)], [])))"

definition EI_convert_serial_to_num8 where
  "EI_convert_serial_to_num8 ctx aligned d = convertToNumWithOptionalSwap ctx aligned d 1 False"
definition EI_convert_serial_to_num_le16 where
  "EI_convert_serial_to_num_le16 ctx aligned d = convertToNumWithOptionalSwap ctx aligned d 2 False"
definition EI_convert_serial_to_num_le32 where
  "EI_convert_serial_to_num_le32 ctx aligned d = convertToNumWithOptionalSwap ctx aligned d 4 False"
definition EI_convert_serial_to_num_le64 where
  "EI_convert_serial_to_num_le64 ctx aligned d = convertToNumWithOptionalSwap ctx aligned d 8 False"
definition EI_convert_serial_to_num_be16 where
  "EI_convert_serial_to_num_be16 ctx aligned d = convertToNumWithOptionalSwap ctx aligned d 2 True"
definition EI_convert_serial_to_num_be32 where
  "EI_convert_serial_to_num_be32 ctx aligned d = convertToNumWithOptionalSwap ctx aligned d 4 True"
definition EI_convert_serial_to_num_be64 where
  "EI_convert_serial_to_num_be64 ctx aligned d = convertToNumWithOptionalSwap ctx aligned d 8 True"
definition EI_convert_struct_to_num_le where
  "EI_convert_struct_to_num_le ctx aligned d = convertToNumWithOptionalSwap ctx aligned d (eltWidth d) False"
definition EI_convert_struct_to_num_be where
  "EI_convert_struct_to_num_be ctx aligned d = convertToNumWithOptionalSwap ctx aligned d (eltWidth d) True"

text \<open>The token size is a local parameter, if set.\<close>

definition EI_convert_serial_to_struct :: "codec_ctx \<Rightarrow> int option \<Rightarrow> ZL_Data \<Rightarrow> (ZL_Data list \<times> byte list) ZL_Result" where
  "EI_convert_serial_to_struct ctx tokenSize d =
     (case tokenSize of None \<Rightarrow> Inl ZL_ErrorCode_nodeParameter_invalid
      | Some v \<Rightarrow>
        if v \<le> 0 then Inl ZL_ErrorCode_nodeParameter_invalidValue
        else if length (data_bytes d) mod nat v \<noteq> 0 then Inl ZL_ErrorCode_streamParameter_invalid
        else Inr ([tokens (nat v) (data_bytes d)], []))"

definition EI_convert_num_to_struct_le :: "codec_ctx \<Rightarrow> unit \<Rightarrow> ZL_Data \<Rightarrow> (ZL_Data list \<times> byte list) ZL_Result" where
  "EI_convert_num_to_struct_le ctx p d = Inr ([tokens (eltWidth d) (data_bytes d)], [])"

definition EI_convert_num_to_serial_le :: "codec_ctx \<Rightarrow> unit \<Rightarrow> ZL_Data \<Rightarrow> (ZL_Data list \<times> byte list) ZL_Result" where
  "EI_convert_num_to_serial_le ctx p d =
     Inr ([serial (data_bytes d)], [word_of_nat (ZL_nextPow2 (word_of_nat (eltWidth d)))])"

definition EI_convert_struct_to_serial :: "codec_ctx \<Rightarrow> unit \<Rightarrow> ZL_Data \<Rightarrow> (ZL_Data list \<times> byte list) ZL_Result" where
  "EI_convert_struct_to_serial ctx p d = Inr ([serial (data_bytes d)], ZL_varintEncode (word_of_nat (eltWidth d)))"

definition EI_separate_VSF_components :: "codec_ctx \<Rightarrow> unit \<Rightarrow> ZL_Data \<Rightarrow> (ZL_Data list \<times> byte list) ZL_Result" where
  "EI_separate_VSF_components ctx p d =
     (let nbFields = numElts d; numWidth = NUMOP_numericWidthForArray32 (stringLens d) in
      res_bind (createTypedStream ctx nbFields numWidth) (\<lambda>_.
      Inr ([serial (data_bytes d), numeric numWidth (NUMOP_writeNumerics_fromU32 numWidth (stringLens d))], [])))"

text \<open>
  The string lengths come from a parameter or from a parser of the user: a count, and an array unless the
  pointer is null.
\<close>

definition EI_setStringLens ::
  "codec_ctx \<Rightarrow> nat \<times> u32 list option \<Rightarrow> ZL_Data \<Rightarrow> (ZL_Data list \<times> byte list) ZL_Result" where
  "EI_setStringLens ctx sfsi d =
     (let (nbStrings, lens) = sfsi; inputSize = numElts d in
      if nbStrings \<noteq> 0 \<and> lens = None then Inl ZL_ErrorCode_nodeParameter_invalid
      else let lens = (case lens of None \<Rightarrow> [] | Some l \<Rightarrow> take nbStrings l) in
      if NUMOP_sumArray32 lens \<noteq> word_of_nat inputSize then Inl ZL_ErrorCode_nodeParameter_invalidValue
      else if \<not> ctx_alloc ctx (4 * nbStrings) then Inl ZL_ErrorCode_allocation
      else Inr ([strings lens (data_bytes d)], []))"

section \<open>Decoders\<close>

definition convertFromNumWithOptionalSwap ::
  "codec_ctx \<Rightarrow> ZL_Data list \<Rightarrow> ZL_Type \<Rightarrow> bool \<Rightarrow> ZL_Data ZL_Result" where
  "convertFromNumWithOptionalSwap ctx ins toType needsSwap =
     (let i = ins ! 0; inNumElts = numElts i; inEltWidth = eltWidth i; needsSwap = needsSwap \<and> 1 < inEltWidth;
          (w, n) = (if toType = ZL_Type_serial then (1, length (data_bytes i)) else (inEltWidth, inNumElts)) in
      if needsSwap then
        res_bind (createTypedStream ctx n w) (\<lambda>_.
        Inr \<lparr>data_type = toType, eltWidth = w, data_bytes = NUMOP_byteswap (data_bytes i) inNumElts inEltWidth, stringLens = []\<rparr>)
      else Inr \<lparr>data_type = toType, eltWidth = w, data_bytes = take (n * w) (data_bytes i), stringLens = []\<rparr>)"

definition DI_revert_serial_to_num_le :: "codec_ctx \<Rightarrow> byte list \<Rightarrow> ZL_Data list \<Rightarrow> ZL_Data ZL_Result" where
  "DI_revert_serial_to_num_le ctx header ins = convertFromNumWithOptionalSwap ctx ins ZL_Type_serial False"
definition DI_revert_serial_to_num_be :: "codec_ctx \<Rightarrow> byte list \<Rightarrow> ZL_Data list \<Rightarrow> ZL_Data ZL_Result" where
  "DI_revert_serial_to_num_be ctx header ins = convertFromNumWithOptionalSwap ctx ins ZL_Type_serial True"
definition DI_revert_struct_to_num_le :: "codec_ctx \<Rightarrow> byte list \<Rightarrow> ZL_Data list \<Rightarrow> ZL_Data ZL_Result" where
  "DI_revert_struct_to_num_le ctx header ins = convertFromNumWithOptionalSwap ctx ins ZL_Type_struct False"
definition DI_revert_struct_to_num_be :: "codec_ctx \<Rightarrow> byte list \<Rightarrow> ZL_Data list \<Rightarrow> ZL_Data ZL_Result" where
  "DI_revert_struct_to_num_be ctx header ins = convertFromNumWithOptionalSwap ctx ins ZL_Type_struct True"

definition DI_revert_num_to_serial_le :: "bool \<Rightarrow> codec_ctx \<Rightarrow> byte list \<Rightarrow> ZL_Data list \<Rightarrow> ZL_Data ZL_Result" where
  "DI_revert_num_to_serial_le aligned ctx header ins =
     (let i = ins ! 0; nbBytes = length (data_bytes i) in
      if length header \<noteq> 1 then Inl ZL_ErrorCode_header_unknown
      else if 3 < header ! 0 then Inl ZL_ErrorCode_header_unknown
      else let intSize = 2 ^ unat (header ! 0) in
      if nbBytes mod intSize \<noteq> 0 then Inl ZL_ErrorCode_corruption
      else res_bind (if aligned then Inr () else createTypedStream ctx (nbBytes div intSize) intSize) (\<lambda>_.
      Inr (numeric intSize (data_bytes i))))"

definition DI_revert_serial_to_struct :: "codec_ctx \<Rightarrow> byte list \<Rightarrow> ZL_Data list \<Rightarrow> ZL_Data ZL_Result" where
  "DI_revert_serial_to_struct ctx header ins = Inr (serial (data_bytes (ins ! 0)))"

definition DI_revert_struct_to_serial :: "codec_ctx \<Rightarrow> byte list \<Rightarrow> ZL_Data list \<Rightarrow> ZL_Data ZL_Result" where
  "DI_revert_struct_to_serial ctx header ins =
     (case ZL_varintDecode header of Inl _ \<Rightarrow> Inl ZL_ErrorCode_srcSize_tooSmall
      | Inr (eltSize, rest) \<Rightarrow>
        if eltSize = 0 then Inl ZL_ErrorCode_header_unknown
        else if rest \<noteq> [] then Inl ZL_ErrorCode_header_unknown
        else if length (data_bytes (ins ! 0)) mod unat eltSize \<noteq> 0 then Inl ZL_ErrorCode_corruption
        else Inr (tokens (unat eltSize) (data_bytes (ins ! 0))))"

definition DI_revert_num_to_struct_le :: "bool \<Rightarrow> codec_ctx \<Rightarrow> byte list \<Rightarrow> ZL_Data list \<Rightarrow> ZL_Data ZL_Result" where
  "DI_revert_num_to_struct_le aligned ctx header ins =
     (let i = ins ! 0; w = eltWidth i in
      if \<not> (w = 1 \<or> w = 2 \<or> w = 4 \<or> w = 8) then Inl ZL_ErrorCode_streamParameter_invalid
      else res_bind (if aligned then Inr () else createTypedStream ctx (numElts i) w) (\<lambda>_.
      Inr (numeric w (data_bytes i))))"

definition DI_revert_VSF_separation :: "codec_ctx \<Rightarrow> byte list \<Rightarrow> ZL_Data list \<Rightarrow> ZL_Data ZL_Result" where
  "DI_revert_VSF_separation ctx header ins =
     (let concatFields = ins ! 0; fieldSizes = ins ! 1; contentSize = length (data_bytes concatFields);
          nbFields = numElts fieldSizes in
      if \<not> ctx_alloc ctx (4 * nbFields) then Inl ZL_ErrorCode_allocation
      else
      res_bind (NUMOP_write32_fromNumerics nbFields (data_bytes fieldSizes) (eltWidth fieldSizes)) (\<lambda>arr32.
      if NUMOP_sumArray32 arr32 \<noteq> word_of_nat contentSize then Inl ZL_ErrorCode_corruption
      else Inr (strings arr32 (data_bytes concatFields))))"

definition DI_extract_concatenatedFields :: "codec_ctx \<Rightarrow> byte list \<Rightarrow> ZL_Data list \<Rightarrow> ZL_Data ZL_Result" where
  "DI_extract_concatenatedFields ctx header ins = Inr (serial (data_bytes (ins ! 0)))"

section \<open>Facts about the kernels\<close>

lemma legal_pos: "ZL_isLegalIntegerWidth w \<Longrightarrow> 0 < w"
  by (auto simp: ZL_isLegalIntegerWidth_def)

lemma sum_unat_small:
  assumes "length (ls :: u32 list) \<le> 2 ^ 32"
  shows "sum_list (map unat ls) < 2 ^ 64"
proof -
  have "sum_list (map unat ls) \<le> length ls * 4294967295"
  proof (induction ls)
    case (Cons x xs)
    then show ?case using unat_lt2p32 [of x] by (simp del: unat_lt2p32)
  qed simp
  also have "\<dots> \<le> 2 ^ 32 * 4294967295" using assms by (rule mult_right_mono) simp
  finally show ?thesis by simp
qed

lemma bswap_bswap:
  assumes "LENGTH('a::len) = 8 * n"
  shows "bswap (bswap (w :: 'a word)) = w"
proof (rule bit_word_eqI)
  fix k assume k: "k < LENGTH('a)"
  let ?j = "8 * (n - 1 - k div 8) + k mod 8"
  have d: "k div 8 < n" "k mod 8 < 8" using k assms by auto
  then have j: "?j < LENGTH('a)" "?j div 8 = n - 1 - k div 8" "?j mod 8 = k mod 8"
    using assms by (auto simp: div_mult_self4)
  have "bit (bswap (bswap w)) k = bit w (8 * (n - 1 - ?j div 8) + ?j mod 8)"
    using bit_bswap [OF assms k] bit_bswap [OF assms j(1)] by simp
  also have "8 * (n - 1 - ?j div 8) + ?j mod 8 = k" unfolding j(2,3) using d(1) by simp
  finally show "bit (bswap (bswap w)) k = bit w k" .
qed

lemma byteswap_kernel:
  assumes "ZL_isLegalIntegerWidth w" "w dvd length bs"
  shows "NUMOP_byteswap (NUMOP_byteswap bs (length bs div w) w) (length bs div w) w = bs"
    "length (NUMOP_byteswap bs (length bs div w) w) = length bs"
proof -
  have b: "bswap (bswap x) = x" "bswap (bswap y) = y" "bswap (bswap z) = z" for x :: u16 and y :: u32 and z :: u64
    by (rule bswap_bswap [where n = 2], simp) (rule bswap_bswap [where n = 4], simp, rule bswap_bswap [where n = 8], simp)
  show "NUMOP_byteswap (NUMOP_byteswap bs (length bs div w) w) (length bs div w) w = bs"
    "length (NUMOP_byteswap bs (length bs div w) w) = length bs"
    using assms by (auto simp: ZL_isLegalIntegerWidth_def NUMOP_byteswap_def read_elts_write_elts write_elts_read_elts comp_def b)
qed

lemma legal_iff: "(w = 1 \<or> w = 2 \<or> w = 4 \<or> w = 8) \<longleftrightarrow> ZL_isLegalIntegerWidth w"
  by (auto simp: ZL_isLegalIntegerWidth_def)

lemma convertToNum_Inr:
  assumes "convertToNumWithOptionalSwap ctx aligned d w needsSwap = Some (Inr (outs, hdr))"
  shows "ZL_isLegalIntegerWidth w" "w dvd length (data_bytes d)" "hdr = []"
    "outs = [numeric w (if needsSwap then NUMOP_byteswap (data_bytes d) (length (data_bytes d) div w) w else data_bytes d)]"
  using assms unfolding convertToNumWithOptionalSwap_def Let_def legal_iff
  by (auto split: if_splits sum.splits)

text \<open>Whatever the width, the order and the alignment, the decoder restores the serial or struct input.\<close>

lemma convert_num_roundtrip:
  assumes "wf_data d" "data_type d = ZL_Type_serial \<or> data_type d = ZL_Type_struct \<and> w = eltWidth d"
    "convertToNumWithOptionalSwap cctx aligned d w swap = Some (Inr (outs, hdr))" "\<And>n. ctx_alloc dctx n"
  shows "convertFromNumWithOptionalSwap dctx outs (data_type d) swap = Inr d" "list_all wf_data outs"
proof -
  note c = convertToNum_Inr [OF assms(3)]
  obtain bs ew where d: "d = \<lparr>data_type = data_type d, eltWidth = ew, data_bytes = bs, stringLens = []\<rparr>"
      "length bs < 2 ^ 64" "data_type d = ZL_Type_serial \<Longrightarrow> ew = 1" "data_type d = ZL_Type_struct \<Longrightarrow> ew = w"
    using assms(1,2) by (cases d) (auto simp: wf_data_def STREAM_validateTypeWidth_def split: if_splits)
  have bs: "data_bytes d = bs" by (subst d(1)) simp
  have w0: "0 < w" using c(1) by (auto simp: ZL_isLegalIntegerWidth_def)
  note k = byteswap_kernel [OF c(1) c(2), unfolded bs]
  have w1: "NUMOP_byteswap bs (length bs) (Suc 0) = bs" by (simp add: NUMOP_byteswap_def)
  have m: "length bs div w * w = length bs" using c(2) bs by simp
  show "list_all wf_data outs" using c d(2) k(2) by (simp add: wf_numeric bs)
  show "convertFromNumWithOptionalSwap dctx outs (data_type d) swap = Inr d"
    using assms(2,4) c(2) d k m w0 w1 unfolding c(4) bs
    by (cases "w = 1") (auto simp: convertFromNumWithOptionalSwap_def Let_def)
qed

lemma findMaxArr32_upper: "x \<in> set xs \<Longrightarrow> x \<le> NUMOP_findMaxArr32 xs"
proof -
  have "m \<le> foldl (\<lambda>m x. if m < x then x else m) m xs
      \<and> (\<forall>x \<in> set xs. x \<le> foldl (\<lambda>m x. if m < x then x else m) m xs)" for m :: u32
  proof (induction xs arbitrary: m)
    case (Cons y ys)
    from Cons [of "if m < y then y else m"] show ?case
      by (auto split: if_splits intro: order.trans)
  qed simp
  then show "x \<in> set xs \<Longrightarrow> x \<le> NUMOP_findMaxArr32 xs" by (simp add: NUMOP_findMaxArr32_def)
qed

lemma unat_ucast_u32_u64: "unat (ucast (v :: u32) :: u64) = unat v"
  using unat_lt2p32 [of v] by (simp add: unsigned_ucast_eq take_bit_nat_eq_self del: unat_lt2p32)

lemma unat_ucast_mod: "unat (ucast (v :: 'a::len word) :: 'b::len word) = unat v mod 2 ^ LENGTH('b)"
  by (simp add: unsigned_ucast_eq unsigned_take_bit_eq take_bit_eq_mod [where 'a = nat])

lemma ucast_narrow:
  "unat (v :: u32) < 256 \<Longrightarrow> ucast (ucast (ucast v :: u64) :: u8) = v"
  "unat v < 65536 \<Longrightarrow> ucast (ucast (ucast v :: u64) :: u16) = v"
  "ucast (ucast v :: u64) = v"
  using less_trans [OF unat_lt2p32 [of v], of 18446744073709551616] by (simp_all add: word_unat_eq_iff unat_ucast_mod)

lemma string_lens_roundtrip:
  fixes lens :: "u32 list"
  defines "w \<equiv> NUMOP_numericWidthForArray32 lens"
  shows "NUMOP_write32_fromNumerics (length lens) (NUMOP_writeNumerics_fromU32 w lens) w = Inr lens"
    "ZL_isLegalIntegerWidth w" "length (NUMOP_writeNumerics_fromU32 w lens) = length lens * w" "w \<le> 4"
proof -
  let ?m = "NUMOP_findMaxArr32 lens"
  have u: "unat (ucast ?m :: u64) = unat ?m" by (rule unat_ucast_u32_u64)
  have le: "unat x \<le> unat ?m" if "x \<in> set lens" for x
    using findMaxArr32_upper [OF that] by (simp add: word_le_nat_alt)
  consider "w = 1" "unat ?m < 256" | "w = 2" "unat ?m < 65536" | "w = 4"
    using unat_lt2p32 [of ?m] unfolding w_def NUMOP_numericWidthForArray32_def NUMOP_numericWidthForValue_def word_less_nat_alt word_le_nat_alt u
    by (cases "unat ?m < 256"; cases "unat ?m < 65536") auto
  then have "ZL_isLegalIntegerWidth w \<and> w \<le> 4
    \<and> NUMOP_write32_fromNumerics (length lens) (NUMOP_writeNumerics_fromU32 w lens) w = Inr lens
    \<and> length (NUMOP_writeNumerics_fromU32 w lens) = length lens * w"
  proof cases
    case 1
    have e: "NUMOP_writeNumerics_fromU32 w lens = write_elts 1 (map (\<lambda>v. ucast (ucast v :: u64) :: u8) lens)"
      by (simp add: 1(1) NUMOP_writeNumerics_fromU32_def write_elts_def ZL_writeN_def comp_def)
    have "map (\<lambda>v. ucast (ucast (ucast v :: u64) :: u8)) lens = lens"
      by (intro map_idI ucast_narrow(1)) (use le 1(2) le_less_trans in blast)
    then show ?thesis
      unfolding e by (simp add: 1(1) NUMOP_write32_fromNumerics_def read_elts_write_elts comp_def ZL_isLegalIntegerWidth_def del: One_nat_def)
  next
    case 2
    have e: "NUMOP_writeNumerics_fromU32 w lens = write_elts 2 (map (\<lambda>v. ucast (ucast v :: u64) :: u16) lens)"
      by (simp add: 2(1) NUMOP_writeNumerics_fromU32_def write_elts_def ZL_writeN_def comp_def)
    have "map (\<lambda>v. ucast (ucast (ucast v :: u64) :: u16)) lens = lens"
      by (intro map_idI ucast_narrow(2)) (use le 2(2) le_less_trans in blast)
    then show ?thesis
      unfolding e by (simp add: 2(1) NUMOP_write32_fromNumerics_def read_elts_write_elts comp_def ZL_isLegalIntegerWidth_def)
  next
    case 3
    have e: "NUMOP_writeNumerics_fromU32 w lens = write_elts 4 lens"
      by (simp add: 3 NUMOP_writeNumerics_fromU32_def write_elts_def ZL_writeN_def ucast_narrow(3))
    show ?thesis
      unfolding e by (simp add: 3 NUMOP_write32_fromNumerics_def read_elts_write_elts ZL_isLegalIntegerWidth_def)
  qed
  then show "NUMOP_write32_fromNumerics (length lens) (NUMOP_writeNumerics_fromU32 w lens) w = Inr lens"
    "ZL_isLegalIntegerWidth w" "length (NUMOP_writeNumerics_fromU32 w lens) = length lens * w" "w \<le> 4" by simp_all
qed

section \<open>Contracts\<close>

definition is_a :: "ZL_Type \<Rightarrow> ZL_Data \<Rightarrow> bool" where
  "is_a t d \<longleftrightarrow> data_type d = t \<and> wf_data d"

lemma is_aE:
  assumes "is_a t d"
  obtains (serial) bs where "t = ZL_Type_serial" "d = serial bs" "length bs < 2 ^ 64"
  | (struct) w bs where "t = ZL_Type_struct" "d = tokens w bs" "0 < w" "w < 2 ^ 64" "w dvd length bs" "length bs < 2 ^ 64"
  | (numeric) w bs where "t = ZL_Type_numeric" "d = numeric w bs" "ZL_isLegalIntegerWidth w" "w dvd length bs" "length bs < 2 ^ 64"
  | (string) ls bs where "t = ZL_Type_string" "d = strings ls bs" "sum_list (map unat ls) = length bs" "length bs < 2 ^ 64"
  using assms by (cases d; cases "data_type d")
    (auto simp: is_a_def wf_data_def STREAM_validateTypeWidth_def ZL_isLegalIntegerWidth_def split: if_splits)

lemma convert_num_is_a:
  assumes "is_a t d" "convertToNumWithOptionalSwap cctx aligned d w swap = Some (Inr (outs, hdr))"
    "t = ZL_Type_serial \<or> t = ZL_Type_struct \<and> w = eltWidth d" "\<And>n. ctx_alloc dctx n"
  shows "convertFromNumWithOptionalSwap dctx outs t swap = Inr d" "list_all wf_data outs"
  using convert_num_roundtrip [OF _ _ assms(2,4)] assms(1,3) by (auto simp: is_a_def)

lemmas wf_serial_Suc [simp] = wf_serial [unfolded One_nat_def]

lemma wf_tokens: "wf_data (tokens w bs) \<longleftrightarrow> 0 < w \<and> w < 2 ^ 64 \<and> w dvd length bs \<and> length bs < 2 ^ 64"
  by (auto simp: wf_data_def STREAM_validateTypeWidth_def)

lemma legal_nextPow2:
  assumes "ZL_isLegalIntegerWidth w"
  shows "ZL_nextPow2 (word_of_nat w) \<le> 3" "2 ^ ZL_nextPow2 (word_of_nat w) = w"
  using assms by (elim legal_widthE; simp; code_simp)+

lemma num_to_serial_roundtrip:
  assumes "is_a ZL_Type_numeric d" "EI_convert_num_to_serial_le cctx p d = Inr (outs, hdr)" "\<And>n. ctx_alloc dctx n"
  shows "DI_revert_num_to_serial_le aligned dctx hdr outs = Inr d" "list_all wf_data outs"
proof -
  obtain w bs where d: "d = numeric w bs" "ZL_isLegalIntegerWidth w" "w dvd length bs" "length bs < 2 ^ 64"
    using assms(1) by (cases rule: is_aE) auto
  let ?p = "ZL_nextPow2 (word_of_nat w)"
  have p: "?p \<le> 3" "2 ^ ?p = w" using legal_nextPow2 [OF d(2)] by simp_all
  have u: "unat (word_of_nat ?p :: u8) = ?p" using p(1) by (simp add: unat_of_nat)
  have o: "outs = [serial bs]" "hdr = [word_of_nat ?p]" using assms(2) d(1) by (simp_all add: EI_convert_num_to_serial_le_def)
  have "\<not> 3 < (word_of_nat ?p :: u8)" using p(1) u by (simp add: word_less_nat_alt)
  then show "DI_revert_num_to_serial_le aligned dctx hdr outs = Inr d"
    using d p(2) assms(3) u by (auto simp: o DI_revert_num_to_serial_le_def Let_def dvd_eq_mod_eq_0 legal_pos)
  show "list_all wf_data outs" using d by (simp add: o)
qed

lemma struct_to_serial_roundtrip:
  assumes "is_a ZL_Type_struct d" "EI_convert_struct_to_serial cctx p d = Inr (outs, hdr)"
  shows "DI_revert_struct_to_serial dctx hdr outs = Inr d" "list_all wf_data outs"
proof -
  obtain w bs where d: "d = tokens w bs" "0 < w" "w < 2 ^ 64" "w dvd length bs" "length bs < 2 ^ 64"
    using assms(1) by (cases rule: is_aE) auto
  have u: "unat (word_of_nat w :: u64) = w" using d(3) by (simp add: unat_of_nat)
  have o: "outs = [serial bs]" "hdr = ZL_varintEncode (word_of_nat w)"
    using assms(2) d(1) by (simp_all add: EI_convert_struct_to_serial_def)
  have v: "ZL_varintDecode hdr = Inr (word_of_nat w, [])" using ZL_varintDecode_encode [of _ "[]"] o(2) by simp
  have "(word_of_nat w :: u64) \<noteq> 0" using u d(2) by (metis unat_0 less_numeral_extra(3))
  then show "DI_revert_struct_to_serial dctx hdr outs = Inr d"
    using d u by (simp add: o(1) DI_revert_struct_to_serial_def v dvd_eq_mod_eq_0)
  show "list_all wf_data outs" using d by (simp add: o)
qed

lemma num_to_struct_roundtrip:
  assumes "is_a ZL_Type_numeric d" "EI_convert_num_to_struct_le cctx p d = Inr (outs, hdr)" "\<And>n. ctx_alloc dctx n"
  shows "DI_revert_num_to_struct_le aligned dctx hdr outs = Inr d" "list_all wf_data outs"
proof -
  obtain w bs where d: "d = numeric w bs" "ZL_isLegalIntegerWidth w" "w dvd length bs" "length bs < 2 ^ 64"
    using assms(1) by (cases rule: is_aE) auto
  have o: "outs = [tokens w bs]" using assms(2) d(1) by (simp add: EI_convert_num_to_struct_le_def)
  show "DI_revert_num_to_struct_le aligned dctx hdr outs = Inr d"
    using d assms(3) unfolding DI_revert_num_to_struct_le_def Let_def legal_iff o by (auto simp: numElts_def legal_pos)
  show "list_all wf_data outs" using d legal_pos [of w] by (auto simp: o wf_tokens ZL_isLegalIntegerWidth_def)
qed

lemma serial_to_struct_roundtrip:
  assumes "is_a ZL_Type_serial d" "EI_convert_serial_to_struct cctx p d = Inr (outs, hdr)"
    "\<And>v. p = Some v \<Longrightarrow> v < 2 ^ 31"
  shows "DI_revert_serial_to_struct dctx hdr outs = Inr d" "list_all wf_data outs"
proof -
  obtain bs where d: "d = serial bs" "length bs < 2 ^ 64" using assms(1) by (cases rule: is_aE) auto
  obtain v where v: "p = Some v" "0 < v" "nat v dvd length bs" "outs = [tokens (nat v) bs]"
    using assms(2) d(1) by (auto simp: EI_convert_serial_to_struct_def dvd_eq_mod_eq_0 split: option.splits if_splits)
  show "DI_revert_serial_to_struct dctx hdr outs = Inr d" by (simp add: DI_revert_serial_to_struct_def v d)
  show "list_all wf_data outs" using v d assms(3) [OF v(1)] by (simp add: wf_tokens nat_less_iff)
qed

lemma sumArray32_word: "NUMOP_sumArray32 ls = word_of_nat (sum_list (map unat ls))"
proof -
  have "foldl (\<lambda>total x. total + ucast x) a ls = a + word_of_nat (sum_list (map unat ls))" for a :: u64
    by (induction ls arbitrary: a) (simp_all add: add.assoc)
  then show ?thesis by (simp add: NUMOP_sumArray32_def)
qed

lemma VSF_roundtrip:
  assumes "is_a ZL_Type_string d" "EI_separate_VSF_components cctx p d = Inr (outs, hdr)" "\<And>n. ctx_alloc dctx n"
  shows "DI_revert_VSF_separation dctx hdr outs = Inr d" "list_all wf_data outs"
proof -
  obtain ls bs where d: "d = strings ls bs" "sum_list (map unat ls) = length bs" "length bs < 2 ^ 64"
    using assms(1) by (cases rule: is_aE) auto
  let ?w = "NUMOP_numericWidthForArray32 ls"
  note l = string_lens_roundtrip [of ls]
  have o: "outs = [serial bs, numeric ?w (NUMOP_writeNumerics_fromU32 ?w ls)]" "length ls * ?w < 2 ^ 64"
    using assms(2) d(1) by (auto simp: EI_separate_VSF_components_def Let_def numElts_def createTypedStream_def split: if_splits)
  show "list_all wf_data outs" using o d l by (simp add: wf_numeric)
  have n: "numElts (numeric ?w (NUMOP_writeNumerics_fromU32 ?w ls)) = length ls" using l(3) legal_pos [OF l(2)] by simp
  show "DI_revert_VSF_separation dctx hdr outs = Inr d"
    using assms(3) d l(1) n by (simp add: o(1) DI_revert_VSF_separation_def Let_def sumArray32_word)
qed

lemma setStringLens_roundtrip:
  assumes "is_a ZL_Type_serial d" "EI_setStringLens cctx p d = Inr (outs, hdr)"
  shows "DI_extract_concatenatedFields dctx hdr outs = Inr d" "fst p \<le> 2 ^ 32 \<Longrightarrow> list_all wf_data outs"
proof -
  obtain bs where d: "d = serial bs" "length bs < 2 ^ 64" using assms(1) by (cases rule: is_aE) auto
  obtain n l where p: "p = (n, l)" by fastforce
  let ?ls = "case l of None \<Rightarrow> [] | Some l \<Rightarrow> take n l"
  have o: "outs = [strings ?ls bs]" "NUMOP_sumArray32 ?ls = word_of_nat (length bs)"
    using assms(2) d(1) by (auto simp: p EI_setStringLens_def Let_def numElts_def split: if_splits option.splits)
  show "DI_extract_concatenatedFields dctx hdr outs = Inr d" using o d by (simp add: DI_extract_concatenatedFields_def)
  assume "fst p \<le> 2 ^ 32"
  then have "length ?ls \<le> 2 ^ 32" using p by (auto split: option.split)
  then have "sum_list (map unat ?ls) < 2 ^ 64" by (rule sum_unat_small)
  moreover have "unat (word_of_nat (sum_list (map unat ?ls)) :: u64) = unat (word_of_nat (length bs) :: u64)"
    using o(2) by (simp add: sumArray32_word)
  ultimately have "sum_list (map unat ?ls) = length bs" using d(2) by (simp add: unat_of_nat)
  then show "list_all wf_data outs" using o d by (simp add: wf_data_def STREAM_validateTypeWidth_def)
qed

text \<open>Every conversion keeps the contract of a codec.\<close>

interpretation conv_serial_to_num: lossless_codec "\<lambda>ctx aligned d. convertToNumWithOptionalSwap ctx aligned d w swap"
  "\<lambda>ctx header ins. Some (convertFromNumWithOptionalSwap ctx ins ZL_Type_serial swap)" "is_a ZL_Type_serial" for w swap
  by unfold_locales (auto intro: convert_num_is_a(1) convert_num_is_a(2) [where dctx = "big_ctx 0"])

interpretation conv_struct_to_num: lossless_codec "\<lambda>ctx aligned d. convertToNumWithOptionalSwap ctx aligned d (eltWidth d) swap"
  "\<lambda>ctx header ins. Some (convertFromNumWithOptionalSwap ctx ins ZL_Type_struct swap)" "is_a ZL_Type_struct" for swap
  by unfold_locales (auto intro: convert_num_is_a(1) convert_num_is_a(2) [where dctx = "big_ctx 0"])

interpretation conv_num_to_serial: lossless_codec "\<lambda>ctx p d. Some (EI_convert_num_to_serial_le ctx p d)"
  "\<lambda>ctx header ins. Some (DI_revert_num_to_serial_le aligned ctx header ins)" "is_a ZL_Type_numeric" for aligned
  by unfold_locales (auto intro: num_to_serial_roundtrip(1) num_to_serial_roundtrip(2) [where dctx = "big_ctx 0"])

interpretation conv_struct_to_serial: lossless_codec "\<lambda>ctx p d. Some (EI_convert_struct_to_serial ctx p d)"
  "\<lambda>ctx header ins. Some (DI_revert_struct_to_serial ctx header ins)" "is_a ZL_Type_struct"
  by unfold_locales (auto intro: struct_to_serial_roundtrip(1) struct_to_serial_roundtrip(2))

interpretation conv_num_to_struct: lossless_codec "\<lambda>ctx p d. Some (EI_convert_num_to_struct_le ctx p d)"
  "\<lambda>ctx header ins. Some (DI_revert_num_to_struct_le aligned ctx header ins)" "is_a ZL_Type_numeric" for aligned
  by unfold_locales (auto intro: num_to_struct_roundtrip(1) num_to_struct_roundtrip(2) [where dctx = "big_ctx 0"])

interpretation separate_VSF: lossless_codec "\<lambda>ctx p d. Some (EI_separate_VSF_components ctx p d)"
  "\<lambda>ctx header ins. Some (DI_revert_VSF_separation ctx header ins)" "is_a ZL_Type_string"
  by unfold_locales (auto intro: VSF_roundtrip(1) VSF_roundtrip(2) [where dctx = "big_ctx 0"])

end
