(* ===== verification/Codec_DivideBy.thy ===== *)
theory Codec_DivideBy
  imports Codec_Conversion Codec_Sentinel
begin

text \<open>
  The divide-by codec (\<^verbatim>\<open>codecs/divide_by\<close>): numbers that share a divisor are sent as quotients. A quotient is
  computed by a multiplication with the inverse of the odd part of the divisor and a shift; the divisor
  is a parameter or the greatest common divisor of the elements. The varint of the header is written by the portable
  branch of \<^verbatim>\<open>ZL_varintEncode64Fast\<close>.
\<close>

section \<open>Arithmetic\<close>

text \<open>The number of trailing zeros, the loop of \<^verbatim>\<open>ZL_ctz32_fallback\<close> and \<^verbatim>\<open>ZL_ctz64_fallback\<close>.\<close>

definition ZL_ctz :: "'a::len word \<Rightarrow> nat" where
  "ZL_ctz x = length (takeWhile (\<lambda>b. \<not> bit x b) [0..<LENGTH('a)])"

text \<open>The loop of the extended Euclidean algorithm; the variables are exchanged by three XORs.\<close>

lemma xor_swap:
  fixes x y :: "'a::len word"
  shows "(x XOR (y XOR x)) = y" "((y XOR x) XOR y) = x"
  by (simp_all add: bit_eq_iff bit_simps) blast+

function inverse_loop :: "'a::len word \<Rightarrow> 'a word \<Rightarrow> 'a word \<Rightarrow> 'a word \<Rightarrow> 'a word \<Rightarrow> 'a word \<times> 'a word" where
  "inverse_loop x y sb ts0 tl0 =
     (if x = 0 then (sb, ts0)
      else let q = y div x; y = y - x * q;
             y = y XOR x; x = x XOR y; y = y XOR x;
             ts0 = ts0 + tl0 * q;
             tl0 = tl0 XOR ts0; ts0 = ts0 XOR tl0; tl0 = tl0 XOR ts0
           in inverse_loop x y (sb XOR 1) ts0 tl0)"
  by pat_completeness auto
termination
proof (relation "measure (\<lambda>(x, y, sb, ts0, tl0). unat x)", goal_cases)
  case (2 x y sb ts0 tl0 q y1 y2 x2 y3 ts1 tl1 ts2 tl2)
  have "x2 = y - x * (y div x)" using 2 by (simp add: xor_swap)
  also have "\<dots> = y mod x" by (simp add: minus_mult_div_eq_mod)
  finally show ?case using 2(1) by (simp add: unat_mod unat_gt_0)
qed simp

declare inverse_loop.simps [simp del]

lemma ctz:
  fixes x :: "'a::len word"
  assumes "x \<noteq> 0"
  shows "ZL_ctz x < LENGTH('a)" "bit x (ZL_ctz x)" "\<And>k. k < ZL_ctz x \<Longrightarrow> \<not> bit x k"
proof -
  let ?P = "\<lambda>b. \<not> bit x b" and ?xs = "[0..<LENGTH('a)]"
  obtain k where k: "bit x k" using assms by (auto simp: bit_eq_iff)
  then have "k < LENGTH('a)" by (rule bit_imp_le_length)
  then have "k \<in> set ?xs" by simp
  then have "length (takeWhile ?P ?xs) < length ?xs"
    using k by (metis length_takeWhile_le le_neq_implies_less set_takeWhileD takeWhile_eq_take take_all_iff)
  then show l: "ZL_ctz x < LENGTH('a)" by (simp add: ZL_ctz_def)
  then have "\<not> ?P (?xs ! length (takeWhile ?P ?xs))" by (intro nth_length_takeWhile) (simp add: ZL_ctz_def)
  then show "bit x (ZL_ctz x)" using l by (simp add: ZL_ctz_def)
  show "\<not> bit x k" if "k < ZL_ctz x" for k
  proof -
    have "takeWhile ?P ?xs ! k = k" using that l by (subst takeWhile_nth) (auto simp: ZL_ctz_def)
    moreover have "takeWhile ?P ?xs ! k \<in> set (takeWhile ?P ?xs)" using that by (simp add: ZL_ctz_def)
    ultimately show ?thesis using set_takeWhileD by fastforce
  qed
qed

lemma unat_drop_bit_div: "unat (drop_bit n x) = unat x div 2 ^ n" for x :: "'a::len word"
proof -
  have "unat (drop_bit n x) = drop_bit n (unat x)" by (simp only: unsigned_drop_bit_eq) (simp add: take_bit_nat_eq_self unsigned_less)
  then show ?thesis by (simp only: drop_bit_eq_div)
qed

lemma odd_part:
  fixes x :: "'a::len word"
  assumes "x \<noteq> 0"
  shows "odd (unat (drop_bit (ZL_ctz x) x))" "unat x = 2 ^ ZL_ctz x * unat (drop_bit (ZL_ctz x) x)"
proof -
  note c = ctz [OF assms]
  have "bit (drop_bit (ZL_ctz x) x) 0" using c(2) by (simp add: bit_drop_bit_eq)
  then have "bit (unat (drop_bit (ZL_ctz x) x)) 0" by (simp only: bit_unsigned_iff) simp
  then show "odd (unat (drop_bit (ZL_ctz x) x))" by (simp add: bit_0)
  have "take_bit (ZL_ctz x) x = 0" using c(3) by (intro bit_word_eqI) (simp add: bit_take_bit_iff)
  then have "2 ^ ZL_ctz x dvd unat x"
    by (metis take_bit_eq_0_iff unsigned_0 unsigned_take_bit_eq)
  then show "unat x = 2 ^ ZL_ctz x * unat (drop_bit (ZL_ctz x) x)"
    by (simp add: unat_drop_bit_div)
qed


text \<open>\<open>smax\<close> is \<^verbatim>\<open>CHAR_MAX\<close>, \<^verbatim>\<open>INT_MAX\<close> or \<^verbatim>\<open>LLONG_MAX\<close>; the three functions differ in the type only.\<close>

definition multiplicativeInverse :: "'a::len word \<Rightarrow> 'a word \<Rightarrow> nat \<times> 'a word" where
  "multiplicativeInverse smax divisor =
     (let shift = ZL_ctz divisor; divisor = drop_bit shift divisor in
      if divisor = 1 then (shift, 1)
      else let q = - 1 div divisor; x = - 1 - divisor * q + 1; (sb, ts0) = inverse_loop x divisor 1 1 q in
      (shift, if sb = 0 then 0 - ts0 + smax + 1 + smax + 1 else ts0))"

definition ZL_getMultiplicativeInverse8 :: "u8 \<Rightarrow> nat \<times> u8" where
  "ZL_getMultiplicativeInverse8 divisor = multiplicativeInverse 0x7f divisor"

definition ZL_getMultiplicativeInverse32 :: "u32 \<Rightarrow> nat \<times> u32" where
  "ZL_getMultiplicativeInverse32 divisor = multiplicativeInverse 0x7fffffff divisor"

definition ZL_getMultiplicativeInverse64 :: "u64 \<Rightarrow> nat \<times> u64" where
  "ZL_getMultiplicativeInverse64 divisor = multiplicativeInverse 0x7fffffffffffffff divisor"

text \<open>
  The coefficients are kept without their signs, which alternate: \<open>sb\<close> tells the sign of \<open>ts0\<close>. The equations
  hold in the ring of words, so no coefficient can be too large.
\<close>

definition sign_of :: "'a::len word \<Rightarrow> 'a word" where
  "sign_of sb = (if sb = 0 then - 1 else 1)"

lemma inverse_loop_correct:
  fixes d :: "'a::len word"
  assumes "y = sign_of sb * ts0 * d" "x = - sign_of sb * tl0 * d" "coprime (unat x) (unat y)" "sb = 0 \<or> sb = 1"
    "inverse_loop x y sb ts0 tl0 = (sb', ts')"
  shows "(sb' = 0 \<or> sb' = 1) \<and> sign_of sb' * ts' * d = 1"
  using assms
proof (induction x y sb ts0 tl0 rule: inverse_loop.induct)
  case (1 x y sb ts0 tl0)
  show ?case
  proof (cases "x = 0")
    case True
    then have "unat y = 1" using 1(4) by simp
    then have "y = 1" by (metis unat_1 unsigned_word_eqI)
    then show ?thesis using True 1(2,5,6) by (auto simp: inverse_loop.simps [of 0])
  next
    case False
    define q where "q = y div x"
    have m: "y - x * q = y mod x" by (simp add: q_def minus_mult_div_eq_mod)
    have r: "inverse_loop (y - x * q) x (sb XOR 1) tl0 (ts0 + tl0 * q) = (sb', ts')"
      using 1(6) False by (subst (asm) inverse_loop.simps) (simp add: xor_swap q_def Let_def)
    have s: "sign_of (sb XOR 1) = - sign_of sb" "sb XOR 1 = 0 \<or> sb XOR 1 = 1" using 1(5) by (auto simp: sign_of_def)
    have c: "coprime (unat (y - x * q)) (unat x)"
      using 1(4) False by (simp add: m unat_mod coprime_mod_left_iff unat_eq_0 coprime_commute)
    have e: "x = sign_of (sb XOR 1) * tl0 * d" "y - x * q = - sign_of (sb XOR 1) * (ts0 + tl0 * q) * d"
      using 1(2,3) by (simp_all add: s algebra_simps)
    show ?thesis
      using 1(1) [OF False q_def refl refl refl refl refl refl refl refl] e c s(2) r by (simp add: xor_swap m flip: q_def)
  qed
qed

lemma inverse_correct:
  fixes d :: "'a::len word"
  assumes d: "d \<noteq> 0" and r: "multiplicativeInverse smax d = (s, inv0)" and smax: "2 * (smax + 1) = (0 :: 'a word)"
  shows "s = ZL_ctz d \<and> drop_bit s d * inv0 = 1"
proof -
  let ?o = "drop_bit (ZL_ctz d) d"
  have o: "odd (unat ?o)" by (rule odd_part(1) [OF d])
  then have o0: "?o \<noteq> 0" by (metis even_zero unsigned_0)
  show ?thesis
  proof (cases "?o = 1")
    case False
    define q where "q = - 1 div ?o"
    define x where "x = - 1 - ?o * q + 1"
    obtain sb ts' where l: "inverse_loop x ?o 1 1 q = (sb, ts')" by force
    have x: "x = - ?o * q" by (simp add: x_def)
    have xm: "x = - 1 mod ?o + 1" by (simp add: x_def q_def flip: minus_mult_div_eq_mod)
    have "unat (- 1 mod ?o) < unat ?o" using o0 by (simp add: unat_mod unat_gt_0)
    then have "unat (- 1 mod ?o) + 1 < 2 ^ LENGTH('a)" using unsigned_less [of ?o, where ?'a = nat] by linarith
    then have "unat (- 1 mod ?o) + unat (1 :: 'a word) < 2 ^ LENGTH('a)" by simp
    then have "unat x = unat (- 1 mod ?o) + 1" unfolding xm by (subst (asm) unat_add_lem) simp
    then have ux: "unat x = (2 ^ LENGTH('a) - 1) mod unat ?o + 1"
      by (simp add: unat_mod unsigned_minus_1_eq_mask mask_eq_exp_minus_1)
    have "((2 ^ LENGTH('a) - 1) mod unat ?o + 1) mod unat ?o = 2 ^ LENGTH('a) mod unat ?o" by (simp add: mod_simps)
    moreover have "coprime (2 ^ LENGTH('a)) (unat ?o)" using o by simp
    ultimately have c: "coprime (unat x) (unat ?o)" using o0 by (metis coprime_mod_left_iff unat_eq_0 ux)
    have "(sb = 0 \<or> sb = 1) \<and> sign_of sb * ts' * ?o = 1"
      by (rule inverse_loop_correct [OF _ _ c _ l]) (simp_all add: sign_of_def x)
    moreover have n: "0 - ts' + smax + 1 + smax + 1 = - ts'" using smax by (simp add: algebra_simps)
    moreover have "(s, inv0) = (ZL_ctz d, if sb = 0 then - ts' else ts')"
      using r False l unfolding multiplicativeInverse_def Let_def q_def x_def by (simp only: prod.case n if_False)
    ultimately show ?thesis by (auto simp: sign_of_def mult.commute)
  qed (use r in \<open>auto simp: multiplicativeInverse_def Let_def\<close>)
qed


section \<open>The greatest common divisor\<close>

text \<open>The binary algorithm on odd numbers. On others the loop need not end; \<open>gcd_loop\<close> is \<^const>\<open>None\<close> then.\<close>

partial_function (option) gcd_loop :: "u64 \<Rightarrow> u64 \<Rightarrow> u64 option" where
  "gcd_loop a b =
     (if a = b then Some a
      else if a < b then let t = b - a in gcd_loop a (drop_bit (ZL_ctz t) t)
      else let t = a - b in gcd_loop b (drop_bit (ZL_ctz t) t))"

declare gcd_loop.simps [code]

definition ZL_gcdImpl :: "u64 \<Rightarrow> u64 \<Rightarrow> u64 option" where
  "ZL_gcdImpl a0 b0 =
     (let (a, b) = (if a0 < b0 then (b0, a0) else (a0, b0)) in
      if b = 0 then Some a
      else let a = a mod b in
      if a = 0 then Some b
      else let az = ZL_ctz a; bz = ZL_ctz b; shift = (if az < bz then az else bz) in
      map_option (push_bit shift) (gcd_loop (drop_bit az a) (drop_bit bz b)))"

lemma gcd_odd_diff:
  fixes a b t :: nat
  assumes "odd a" "t = 2 ^ k * c" "t + a = b"
  shows "gcd a c = gcd a b"
proof -
  have "gcd a c = gcd a (2 ^ k * c)" using assms(1) by (simp add: gcd_mult_right_left_cancel coprime_commute)
  also have "\<dots> = gcd a b" using assms(2,3) by (metis gcd_add2 add.commute)
  finally show ?thesis .
qed

lemma gcd_loop_correct:
  "odd (unat a) \<Longrightarrow> odd (unat b) \<Longrightarrow> \<exists>g. gcd_loop a b = Some g \<and> unat g = gcd (unat a) (unat b)"
proof (induction "unat a + unat b" arbitrary: a b rule: less_induct)
  case less
  have step: "\<exists>g. gcd_loop x (drop_bit (ZL_ctz (y - x)) (y - x)) = Some g \<and> unat g = gcd (unat x) (unat y)"
    if xy: "x < y" "unat x + unat y = unat a + unat b" "odd (unat x)" for x y
  proof -
    let ?t = "y - x"
    have t: "unat ?t = unat y - unat x" "?t \<noteq> 0" using xy(1) by (simp_all add: unat_sub order_less_imp_le)
    note o = odd_part [OF t(2)]
    have c: "unat (drop_bit (ZL_ctz ?t) ?t) \<le> unat ?t" by (simp add: unat_drop_bit_div)
    have "0 < unat x" using xy(3) by (cases "unat x") auto
    then have "unat x + unat (drop_bit (ZL_ctz ?t) ?t) < unat a + unat b"
      using c t(1) xy(1,2) by (simp add: word_less_nat_alt)
    from less.hyps [OF this xy(3) o(1)] obtain g where
      "gcd_loop x (drop_bit (ZL_ctz ?t) ?t) = Some g" "unat g = gcd (unat x) (unat (drop_bit (ZL_ctz ?t) ?t))" by blast
    moreover have "gcd (unat x) (unat (drop_bit (ZL_ctz ?t) ?t)) = gcd (unat x) (unat y)"
      by (rule gcd_odd_diff [OF xy(3) o(2)]) (use t(1) xy(1) in \<open>simp add: word_less_nat_alt\<close>)
    ultimately show ?thesis by simp
  qed
  show ?case
  proof (cases a b rule: linorder_cases)
    case less
    then show ?thesis using step [of a b] \<open>odd (unat a)\<close> by (subst gcd_loop.simps) (simp add: Let_def)
  next
    case equal
    then show ?thesis by (subst gcd_loop.simps) simp
  next
    case greater
    then show ?thesis using step [of b a] \<open>odd (unat b)\<close> by (subst gcd_loop.simps) (auto simp: Let_def gcd.commute add.commute)
  qed
qed

lemma gcd_pow2_odd:
  fixes a b :: nat
  assumes "odd a" "odd b"
  shows "gcd (2 ^ m * a) (2 ^ n * b) = 2 ^ min m n * gcd a b"
proof -
  have k: "gcd (2 ^ m * a) (2 ^ n * b) = 2 ^ m * gcd a b" if "m \<le> n" "odd a" "odd b" for m n and a b :: nat
  proof -
    have "2 ^ n * b = 2 ^ m * (2 ^ (n - m) * b)" using that(1) by (simp flip: power_add mult.assoc)
    then have "gcd (2 ^ m * a) (2 ^ n * b) = 2 ^ m * gcd a (2 ^ (n - m) * b)" by (simp only: gcd_mult_distrib_nat)
    moreover have "gcd a (2 ^ (n - m) * b) = gcd a b" using that(2) by (simp add: gcd_mult_right_left_cancel coprime_commute)
    ultimately show ?thesis by simp
  qed
  show ?thesis using assms k [of m n a b] k [of n m b a]
    by (cases "m \<le> n") (simp_all add: min_def gcd.commute [of "2 ^ n * b"] gcd.commute [of b])
qed

lemma ZL_gcdImpl_correct: "\<exists>g. ZL_gcdImpl a0 b0 = Some g \<and> unat g = gcd (unat a0) (unat b0)"
proof -
  define a where "a = (if a0 < b0 then b0 else a0)"
  define b where "b = (if a0 < b0 then a0 else b0)"
  have ab: "gcd (unat a0) (unat b0) = gcd (unat (a mod b)) (unat b)"
    by (simp add: a_def b_def unat_mod gcd.commute flip: gcd_red_nat)
  have p: "(if a0 < b0 then (b0, a0) else (a0, b0)) = (a, b)" by (simp add: a_def b_def)
  have min_less: "min m n = (if m < n then m else n)" for m n :: nat by (simp add: min_def)
  have e: "ZL_gcdImpl a0 b0 = (if b = 0 then Some a else if a mod b = 0 then Some b
      else map_option (push_bit (min (ZL_ctz (a mod b)) (ZL_ctz b))) (gcd_loop (drop_bit (ZL_ctz (a mod b)) (a mod b)) (drop_bit (ZL_ctz b) b)))"
    unfolding ZL_gcdImpl_def p Let_def prod.case min_less by (rule refl)
  consider "b = 0" | "b \<noteq> 0" "a mod b = 0" | "b \<noteq> 0" "a mod b \<noteq> 0" by blast
  then show ?thesis
  proof cases
    case 3
    note o = odd_part [OF 3(1)] odd_part [OF 3(2)]
    obtain g where g: "gcd_loop (drop_bit (ZL_ctz (a mod b)) (a mod b)) (drop_bit (ZL_ctz b) b) = Some g"
        "unat g = gcd (unat (drop_bit (ZL_ctz (a mod b)) (a mod b))) (unat (drop_bit (ZL_ctz b) b))"
      using gcd_loop_correct [OF o(3,1)] by blast
    let ?s = "min (ZL_ctz (a mod b)) (ZL_ctz b)"
    have m: "gcd (unat (a mod b)) (unat b) = 2 ^ ?s * unat g"
      using gcd_pow2_odd [OF o(3,1)] o(2,4) g(2) by metis
    have "gcd (unat (a mod b)) (unat b) \<le> unat b" using 3(1) by (simp add: unat_gt_0)
    also have "unat b < 2 ^ LENGTH(64)" by (rule unsigned_less)
    finally have "2 ^ ?s * unat g < 2 ^ LENGTH(64)" unfolding m .
    then have "unat (push_bit ?s g) = 2 ^ ?s * unat g"
      by (simp only: unsigned_push_bit_eq push_bit_nat_eq mult.commute) (simp add: push_bit_eq_mult take_bit_nat_eq_self mult.commute)
    then show ?thesis using 3 g(1) ab m by (simp add: e)
  qed (simp_all add: e ab)
qed


section \<open>Kernels\<close>

text \<open>
  The quotient of an element, from the shift and the inverse. The products of 8- and 16-bit elements
  are computed in 32 bits.
\<close>

definition quotient8 :: "nat \<times> u8 \<Rightarrow> u8 \<Rightarrow> u8" where
  "quotient8 si val = ucast (drop_bit (fst si) (ucast val * ucast (snd si) :: u32))"

definition quotient16 :: "nat \<times> u32 \<Rightarrow> u16 \<Rightarrow> u16" where
  "quotient16 si val = ucast (drop_bit (fst si) (ucast val * snd si :: u32))"

definition quotient32 :: "nat \<times> u32 \<Rightarrow> u32 \<Rightarrow> u32" where
  "quotient32 si val = drop_bit (fst si) (val * snd si)"

definition quotient64 :: "nat \<times> u64 \<Rightarrow> u64 \<Rightarrow> u64" where
  "quotient64 si val = drop_bit (fst si) (val * snd si)"

definition ZL_firstIndexNotDivisibleBy8 :: "u8 list \<Rightarrow> u64 \<Rightarrow> nat" where
  "ZL_firstIndexNotDivisibleBy8 src divisor =
     (let overflow = ucast (0xff div divisor) :: u8; si = ZL_getMultiplicativeInverse8 (ucast divisor) in
      length (takeWhile (\<lambda>val. let dv = quotient8 si val; dup = dv * ucast divisor in \<not> (dup \<noteq> val \<or> overflow < dv)) src))"

definition ZL_firstIndexNotDivisibleBy16 :: "u16 list \<Rightarrow> u64 \<Rightarrow> nat" where
  "ZL_firstIndexNotDivisibleBy16 src divisor =
     (let overflow = ucast (0xffff div divisor) :: u16; si = ZL_getMultiplicativeInverse32 (ucast divisor) in
      length (takeWhile (\<lambda>val. let dv = ucast (quotient16 si val) :: u32; dup = ucast (dv * ucast divisor) in
        \<not> (dup \<noteq> val \<or> ucast overflow < dv)) src))"

definition ZL_firstIndexNotDivisibleBy32 :: "u32 list \<Rightarrow> u64 \<Rightarrow> nat" where
  "ZL_firstIndexNotDivisibleBy32 src divisor =
     (let overflow = ucast (0xffffffff div divisor) :: u32; si = ZL_getMultiplicativeInverse32 (ucast divisor) in
      length (takeWhile (\<lambda>val. let dv = quotient32 si val; dup = dv * ucast divisor in \<not> (dup \<noteq> val \<or> overflow < dv)) src))"

definition ZL_firstIndexNotDivisibleBy64 :: "u64 list \<Rightarrow> u64 \<Rightarrow> nat" where
  "ZL_firstIndexNotDivisibleBy64 src divisor =
     (let overflow = - 1 div divisor; si = ZL_getMultiplicativeInverse64 divisor in
      length (takeWhile (\<lambda>val. let dv = quotient64 si val; dup = dv * divisor in \<not> (dup \<noteq> val \<or> overflow < dv)) src))"

text \<open>The loop of \<^verbatim>\<open>ZL_gcdVec\<close>, which is the same at each width.\<close>

function gcdVec_loop :: "('a::len word list \<Rightarrow> u64 \<Rightarrow> nat) \<Rightarrow> 'a word list \<Rightarrow> u64 \<Rightarrow> u64 option" where
  "gcdVec_loop first xs g =
     (let i = first xs g in
      if length xs \<le> i then Some g
      else case ZL_gcdImpl (ucast (xs ! i)) g of None \<Rightarrow> None | Some g \<Rightarrow> gcdVec_loop first (drop (i + 1) xs) g)"
  by pat_completeness auto
termination by (relation "measure (\<lambda>(_, xs, _). length xs)") auto

declare gcdVec_loop.simps [simp del]

definition gcdVec_array :: "('a::len word list \<Rightarrow> u64 \<Rightarrow> nat) \<Rightarrow> 'a word list \<Rightarrow> u64 option" where
  "gcdVec_array first xs =
     (case dropWhile (\<lambda>x. x = 0) xs of [] \<Rightarrow> Some 1 | x # rest \<Rightarrow> gcdVec_loop first rest (ucast x))"

definition ZL_gcdVec :: "byte list \<Rightarrow> nat \<Rightarrow> nat \<Rightarrow> u64 option" where
  "ZL_gcdVec src inputLength intWidth =
     (if inputLength \<le> 1 then Some 1
      else if intWidth = 1 then gcdVec_array ZL_firstIndexNotDivisibleBy8 (take inputLength (read_elts 1 src))
      else if intWidth = 2 then gcdVec_array ZL_firstIndexNotDivisibleBy16 (take inputLength (read_elts 2 src))
      else if intWidth = 4 then gcdVec_array ZL_firstIndexNotDivisibleBy32 (take inputLength (read_elts 4 src))
      else if intWidth = 8 then gcdVec_array ZL_firstIndexNotDivisibleBy64 (take inputLength (read_elts 8 src))
      else Some 0)"

definition ZS_divideByEncode8 :: "u8 list \<Rightarrow> u8 \<Rightarrow> u8 list" where
  "ZS_divideByEncode8 src divisor = map (quotient8 (ZL_getMultiplicativeInverse8 divisor)) src"

definition ZS_divideByEncode16 :: "u16 list \<Rightarrow> u16 \<Rightarrow> u16 list" where
  "ZS_divideByEncode16 src divisor = map (quotient16 (ZL_getMultiplicativeInverse32 (ucast divisor))) src"

definition ZS_divideByEncode32 :: "u32 list \<Rightarrow> u32 \<Rightarrow> u32 list" where
  "ZS_divideByEncode32 src divisor = map (quotient32 (ZL_getMultiplicativeInverse32 divisor)) src"

definition ZS_divideByEncode64 :: "u64 list \<Rightarrow> u64 \<Rightarrow> u64 list" where
  "ZS_divideByEncode64 src divisor = map (quotient64 (ZL_getMultiplicativeInverse64 divisor)) src"

definition ZS_divideByEncode :: "byte list \<Rightarrow> nat \<Rightarrow> u64 \<Rightarrow> nat \<Rightarrow> byte list" where
  "ZS_divideByEncode src inputLength divisor nbBytes =
     (if nbBytes = 1 then write_elts 1 (ZS_divideByEncode8 (take inputLength (read_elts 1 src)) (ucast divisor))
      else if nbBytes = 2 then write_elts 2 (ZS_divideByEncode16 (take inputLength (read_elts 2 src)) (ucast divisor))
      else if nbBytes = 4 then write_elts 4 (ZS_divideByEncode32 (take inputLength (read_elts 4 src)) (ucast divisor))
      else if nbBytes = 8 then write_elts 8 (ZS_divideByEncode64 (take inputLength (read_elts 8 src)) divisor)
      else [])"

text \<open>The products of the 8- and 16-bit decoders fit their results, as the binding has checked.\<close>

definition ZS_divideByDecode8 :: "u8 list \<Rightarrow> u8 \<Rightarrow> u8 list" where
  "ZS_divideByDecode8 src multiplier = map (\<lambda>q. q * multiplier) src"

definition ZS_divideByDecode16 :: "u16 list \<Rightarrow> u16 \<Rightarrow> u16 list" where
  "ZS_divideByDecode16 src multiplier = map (\<lambda>q. q * multiplier) src"

definition ZS_divideByDecode32 :: "u32 list \<Rightarrow> u32 \<Rightarrow> u32 list" where
  "ZS_divideByDecode32 src multiplier = map (\<lambda>q. q * multiplier) src"

definition ZS_divideByDecode64 :: "u64 list \<Rightarrow> u64 \<Rightarrow> u64 list" where
  "ZS_divideByDecode64 src multiplier = map (\<lambda>q. q * multiplier) src"

definition ZS_divideByDecode :: "byte list \<Rightarrow> nat \<Rightarrow> u64 \<Rightarrow> nat \<Rightarrow> byte list" where
  "ZS_divideByDecode src inputLength multiplier nbBytes =
     (if nbBytes = 1 then write_elts 1 (ZS_divideByDecode8 (take inputLength (read_elts 1 src)) (ucast multiplier))
      else if nbBytes = 2 then write_elts 2 (ZS_divideByDecode16 (take inputLength (read_elts 2 src)) (ucast multiplier))
      else if nbBytes = 4 then write_elts 4 (ZS_divideByDecode32 (take inputLength (read_elts 4 src)) (ucast multiplier))
      else if nbBytes = 8 then write_elts 8 (ZS_divideByDecode64 (take inputLength (read_elts 8 src)) multiplier)
      else [])"

definition NUMOP_findMaxU8 :: "u8 list \<Rightarrow> u8" where
  "NUMOP_findMaxU8 array = foldl (\<lambda>m x. if m < x then x else m) 0 array"

definition NUMOP_findMaxU16 :: "u16 list \<Rightarrow> u16" where
  "NUMOP_findMaxU16 array = foldl (\<lambda>m x. if m < x then x else m) 0 array"

definition NUMOP_findMaxU64 :: "u64 list \<Rightarrow> u64" where
  "NUMOP_findMaxU64 array = foldl (\<lambda>m x. if m < x then x else m) 0 array"

section \<open>Bindings\<close>

definition getDivisor :: "nat \<Rightarrow> nat \<Rightarrow> u64 \<Rightarrow> byte list \<Rightarrow> u64 ZL_Result option" where
  "getDivisor intWidth nbInts divisor src =
     (if divisor = 0 then map_option Inr (ZL_gcdVec src nbInts intWidth)
      else if intWidth = 1 \<and> (0xff < divisor \<or> ZL_firstIndexNotDivisibleBy8 (take nbInts (read_elts 1 src)) divisor \<noteq> nbInts)
        then Some (Inl ZL_ErrorCode_node_invalid_input)
      else if intWidth = 2 \<and> (0xffff < divisor \<or> ZL_firstIndexNotDivisibleBy16 (take nbInts (read_elts 2 src)) divisor \<noteq> nbInts)
        then Some (Inl ZL_ErrorCode_node_invalid_input)
      else if intWidth = 4 \<and> (0xffffffff < divisor \<or> ZL_firstIndexNotDivisibleBy32 (take nbInts (read_elts 4 src)) divisor \<noteq> nbInts)
        then Some (Inl ZL_ErrorCode_node_invalid_input)
      else if intWidth = 8 \<and> ZL_firstIndexNotDivisibleBy64 (take nbInts (read_elts 8 src)) divisor \<noteq> nbInts
        then Some (Inl ZL_ErrorCode_node_invalid_input)
      else Some (Inr divisor))"

text \<open>The divisor is a parameter of 8 bytes; without it, or when it is 0, the greatest common divisor is taken.\<close>

definition EI_divide_by_int :: "codec_ctx \<Rightarrow> byte list option \<Rightarrow> ZL_Data \<Rightarrow> (ZL_Data list \<times> byte list) ZL_Result option" where
  "EI_divide_by_int ctx div_param d =
     (let intWidth = eltWidth d; nbInts = numElts d in
      case createTypedStream ctx nbInts intWidth of Inl e \<Rightarrow> Some (Inl e) | Inr _ \<Rightarrow>
      case (case div_param of None \<Rightarrow> Inr 0
        | Some p \<Rightarrow> if length p \<noteq> 8 then Inl ZL_ErrorCode_graphParameter_invalid else Inr (read_le p)) of Inl e \<Rightarrow> Some (Inl e)
      | Inr divParam \<Rightarrow>
      case getDivisor intWidth nbInts divParam (data_bytes d) of None \<Rightarrow> None
      | Some (Inl e) \<Rightarrow> Some (Inl e)
      | Some (Inr divisorValue) \<Rightarrow>
        Some (Inr ([numeric intWidth (ZS_divideByEncode (data_bytes d) nbInts divisorValue intWidth)], ZL_varintEncode divisorValue)))"

definition DI_divide_by_int :: "codec_ctx \<Rightarrow> byte list \<Rightarrow> ZL_Data list \<Rightarrow> ZL_Data ZL_Result" where
  "DI_divide_by_int ctx header ins =
     (let d = ins ! 0; intWidth = eltWidth d; nbElts = numElts d; quotients = data_bytes d in
      if header = [] then Inl ZL_ErrorCode_corruption
      else
      res_bind (createTypedStream ctx nbElts intWidth) (\<lambda>_.
      res_bind (ZL_varintDecode header) (\<lambda>(divisor, _).
      if divisor = 0 then Inl ZL_ErrorCode_node_invalid_input
      else if intWidth = 1 \<and> (0xff < divisor \<or> 0xff div divisor < ucast (NUMOP_findMaxU8 (take nbElts (read_elts 1 quotients))))
        then Inl ZL_ErrorCode_node_invalid_input
      else if intWidth = 2 \<and> (0xffff < divisor \<or> 0xffff div divisor < ucast (NUMOP_findMaxU16 (take nbElts (read_elts 2 quotients))))
        then Inl ZL_ErrorCode_node_invalid_input
      else if intWidth = 4 \<and> (0xffffffff < divisor \<or> 0xffffffff div divisor < ucast (NUMOP_findMaxArr32 (take nbElts (read_elts 4 quotients))))
        then Inl ZL_ErrorCode_node_invalid_input
      else if intWidth = 8 \<and> - 1 div divisor < NUMOP_findMaxU64 (take nbElts (read_elts 8 quotients))
        then Inl ZL_ErrorCode_node_invalid_input
      else Inr (numeric intWidth (ZS_divideByDecode quotients nbElts divisor intWidth)))))"


section \<open>Exact quotients\<close>

lemma quotient_word:
  fixes d v :: "'a::len word"
  assumes "d \<noteq> 0" "s = ZL_ctz d \<and> drop_bit s d * i = 1" "unat d dvd unat v"
  shows "unat (drop_bit s (v * i)) = unat v div unat d"
proof -
  let ?o = "drop_bit s d"
  obtain k where k: "unat v = unat d * k" using assms(3) by (elim dvdE)
  have d: "unat d = 2 ^ s * unat ?o" using odd_part(2) [OF assms(1)] assms(2) by blast
  moreover have d0: "0 < unat d" using assms(1) by (simp add: unat_gt_0)
  ultimately have o: "0 < unat ?o" by (metis mult_0_right neq0_conv)
  have "v = word_of_nat (unat v)" by simp
  also have "\<dots> = word_of_nat (2 ^ s * k) * ?o" by (simp add: k d)
  finally have "v * i = word_of_nat (2 ^ s * k) * (?o * i)" by (simp only: mult.assoc)
  moreover have "?o * i = 1" using assms(2) by blast
  ultimately have e: "v * i = word_of_nat (2 ^ s * k)" by (simp only: mult_1_right)
  have "2 ^ s * k \<le> unat v" using o by (simp add: k d)
  also have "\<dots> < 2 ^ LENGTH('a)" by (rule unsigned_less)
  finally have "unat (v * i) = 2 ^ s * k" unfolding e by (simp only: unsigned_of_nat take_bit_nat_eq_self of_nat_id)
  then show ?thesis using d0 by (simp add: unat_drop_bit_div k)
qed

lemma inverse8: "d \<noteq> 0 \<Longrightarrow> fst (ZL_getMultiplicativeInverse8 d) = ZL_ctz d \<and> drop_bit (fst (ZL_getMultiplicativeInverse8 d)) d * snd (ZL_getMultiplicativeInverse8 d) = 1"
  unfolding ZL_getMultiplicativeInverse8_def by (rule inverse_correct, assumption, simp, code_simp)
lemma inverse32: "d \<noteq> 0 \<Longrightarrow> fst (ZL_getMultiplicativeInverse32 d) = ZL_ctz d \<and> drop_bit (fst (ZL_getMultiplicativeInverse32 d)) d * snd (ZL_getMultiplicativeInverse32 d) = 1"
  unfolding ZL_getMultiplicativeInverse32_def by (rule inverse_correct, assumption, simp, code_simp)
lemma inverse64: "d \<noteq> 0 \<Longrightarrow> fst (ZL_getMultiplicativeInverse64 d) = ZL_ctz d \<and> drop_bit (fst (ZL_getMultiplicativeInverse64 d)) d * snd (ZL_getMultiplicativeInverse64 d) = 1"
  unfolding ZL_getMultiplicativeInverse64_def by (rule inverse_correct, assumption, simp, code_simp)

lemma unat_ucast_up: "LENGTH('a) \<le> LENGTH('b) \<Longrightarrow> unat (ucast (x :: 'a::len word) :: 'b::len word) = unat x"
  by (simp add: unsigned_ucast_eq take_bit_nat_eq_self less_le_trans [OF unsigned_less])

lemma unat_ucast_narrow: "unat x < 2 ^ LENGTH('b) \<Longrightarrow> unat (ucast (x :: 'a::len word) :: 'b::len word) = unat x"
  by (simp add: unsigned_ucast_eq take_bit_nat_eq_self)

lemma quotient8:
  assumes "d \<noteq> 0" "unat d dvd unat v"
  shows "unat (quotient8 (ZL_getMultiplicativeInverse8 d) v) = unat v div unat d"
proof -
  obtain s i where si: "ZL_getMultiplicativeInverse8 d = (s, i)" by force
  have i: "s = ZL_ctz d" "drop_bit s d * i = 1" using inverse8 [OF assms(1)] unfolding si fst_conv snd_conv by blast+
  let ?o = "drop_bit s d"
  obtain k where k: "unat v = unat d * k" using assms(2) by (elim dvdE)
  have d: "unat d = 2 ^ s * unat ?o" "0 < unat d" using odd_part(2) [OF assms(1)] i(1) assms(1) unat_gt_0 by blast+
  have "k \<le> unat v" using d(2) by (simp add: k)
  then have k8: "k < 256" using unsigned_less [of v, where ?'a = nat] by simp
  have "unat (?o * i) = 1" using i(2) by simp
  then have oi: "unat ?o * unat i mod 256 = 1" by (simp add: unat_word_ariths)
  have "unat v * unat i < 256 * 256" using unsigned_less [of v, where ?'a = nat] unsigned_less [of i, where ?'a = nat]
    by (intro mult_strict_mono) simp_all
  then have p: "unat (ucast v * ucast i :: u32) = unat v * unat i"
    by (simp add: unat_word_ariths unat_ucast_up)
  have "unat (quotient8 (s, i) v) = unat v * unat i div 2 ^ s mod 256"
    by (simp add: quotient8_def unsigned_ucast_eq unat_drop_bit_div p take_bit_eq_mod)
  also have "unat v * unat i div 2 ^ s = k * (unat ?o * unat i)"
  proof -
    have e: "unat v * unat i = 2 ^ s * (k * (unat ?o * unat i))" by (simp add: k d(1))
    show ?thesis unfolding e by (rule nonzero_mult_div_cancel_left) simp
  qed
  also have "k * (unat ?o * unat i) mod 256 = k" using oi k8 by (simp add: mod_mult_right_eq [symmetric, of _ "unat ?o * unat i"])
  finally show ?thesis using d(2) by (simp add: si k)
qed

lemma quotient16:
  assumes "d \<noteq> 0" "unat d dvd unat v"
  shows "unat (quotient16 (ZL_getMultiplicativeInverse32 d) v) = unat v div unat d"
proof -
  have "unat (drop_bit (fst (ZL_getMultiplicativeInverse32 d)) (ucast v * snd (ZL_getMultiplicativeInverse32 d))) = unat v div unat d"
    using quotient_word [OF assms(1) inverse32 [OF assms(1)], of "ucast v"] assms(2) by (simp add: unat_ucast_up)
  moreover have "unat v div unat d < 2 ^ LENGTH(16)" by (rule le_less_trans [OF div_le_dividend unsigned_less])
  ultimately show ?thesis unfolding quotient16_def by (subst unat_ucast_narrow) simp_all
qed

lemma quotient32: "d \<noteq> 0 \<Longrightarrow> unat d dvd unat v \<Longrightarrow> unat (quotient32 (ZL_getMultiplicativeInverse32 d) v) = unat v div unat d"
  unfolding quotient32_def by (rule quotient_word [OF _ inverse32])

lemma quotient64: "d \<noteq> 0 \<Longrightarrow> unat d dvd unat v \<Longrightarrow> unat (quotient64 (ZL_getMultiplicativeInverse64 d) v) = unat v div unat d"
  unfolding quotient64_def by (rule quotient_word [OF _ inverse64])


section \<open>One width\<close>

lemma Gcd_union_nat: "Gcd (A \<union> B) = gcd (Gcd A) (Gcd B)" for A B :: "nat set"
proof (rule dvd_antisym)
  show "Gcd (A \<union> B) dvd gcd (Gcd A) (Gcd B)" by (simp add: Gcd_greatest)
  show "gcd (Gcd A) (Gcd B) dvd Gcd (A \<union> B)" by (rule Gcd_greatest) (auto intro: dvd_trans [OF gcd_dvd1] dvd_trans [OF gcd_dvd2])
qed

text \<open>
  What the four widths have in common: \<open>quot g x\<close> is the quotient of an element, exact when there is no remainder, and
  \<open>first\<close> finds the first element with a remainder.
\<close>

locale divider =
  fixes quot :: "u64 \<Rightarrow> 'a::len word \<Rightarrow> 'a word" and first :: "'a word list \<Rightarrow> u64 \<Rightarrow> nat"
  assumes quot_exact: "g \<noteq> 0 \<Longrightarrow> unat g < 2 ^ LENGTH('a) \<Longrightarrow> unat g dvd unat x \<Longrightarrow> unat (quot g x) = unat x div unat g"
    and first_exact: "g \<noteq> 0 \<Longrightarrow> unat g < 2 ^ LENGTH('a) \<Longrightarrow> first xs g = length (takeWhile (\<lambda>x. unat g dvd unat x) xs)"
    and narrow: "LENGTH('a) \<le> 64"
begin

lemma first_all: "g \<noteq> 0 \<Longrightarrow> unat g < 2 ^ LENGTH('a) \<Longrightarrow> first xs g = length xs \<longleftrightarrow> (\<forall>x \<in> set xs. unat g dvd unat x)"
proof -
  have "length (takeWhile P xs) = length xs \<longleftrightarrow> (\<forall>x \<in> set xs. P x)" for P and xs :: "'a word list" by (induction xs) auto
  then show "g \<noteq> 0 \<Longrightarrow> unat g < 2 ^ LENGTH('a) \<Longrightarrow> first xs g = length xs \<longleftrightarrow> (\<forall>x \<in> set xs. unat g dvd unat x)"
    by (simp add: first_exact)
qed

lemma gcdVec_loop_correct:
  "g \<noteq> 0 \<Longrightarrow> unat g < 2 ^ LENGTH('a) \<Longrightarrow>
    \<exists>g'. gcdVec_loop first xs g = Some g' \<and> unat g' = gcd (unat g) (Gcd (unat ` set xs))"
proof (induction "length xs" arbitrary: xs g rule: less_induct)
  case less
  let ?P = "\<lambda>x. unat g dvd unat x"
  define i where "i = first xs g"
  have i: "i = length (takeWhile ?P xs)" by (simp add: i_def first_exact [OF less.prems])
  have step: "gcdVec_loop first xs g = (if length xs \<le> i then Some g
      else case ZL_gcdImpl (ucast (xs ! i)) g of None \<Rightarrow> None | Some g \<Rightarrow> gcdVec_loop first (drop (i + 1) xs) g)"
    by (subst gcdVec_loop.simps) (simp only: Let_def i_def)
  show ?case
  proof (cases "length xs \<le> i")
    case True
    then have "\<forall>x \<in> set xs. ?P x" using first_all [OF less.prems, of xs] length_takeWhile_le [of ?P xs] by (simp add: i_def [symmetric] i)
    then have "unat g dvd Gcd (unat ` set xs)" by (auto intro: Gcd_greatest)
    then show ?thesis using True by (simp add: step gcd_proj1_iff)
  next
    case False
    then have x: "xs = takeWhile ?P xs @ xs ! i # drop (i + 1) xs"
      using i by (metis Suc_eq_plus1 id_take_nth_drop not_le takeWhile_eq_take)
    obtain g1 where g1: "ZL_gcdImpl (ucast (xs ! i)) g = Some g1" "unat g1 = gcd (unat (xs ! i)) (unat g)"
      using ZL_gcdImpl_correct [of "ucast (xs ! i)" g] narrow by (auto simp: unat_ucast_up)
    have g0: "0 < unat g" using less.prems(1) by (simp add: unat_gt_0)
    then have "g1 \<noteq> 0" using g1(2) by (metis gcd_eq_0_iff neq0_conv unsigned_0)
    moreover have "unat g1 \<le> unat g" using g1(2) g0 by simp
    then have "unat g1 < 2 ^ LENGTH('a)" using less.prems(2) by simp
    moreover have "length (drop (i + 1) xs) < length xs" using False by simp
    ultimately obtain g' where g': "gcdVec_loop first (drop (i + 1) xs) g1 = Some g'"
        "unat g' = gcd (unat g1) (Gcd (unat ` set (drop (i + 1) xs)))"
      using less.hyps by blast
    have "unat g dvd Gcd (unat ` set (takeWhile ?P xs))" by (auto intro!: Gcd_greatest dest: set_takeWhileD)
    then have "gcd (unat g) (Gcd (unat ` set (takeWhile ?P xs))) = unat g" by (simp add: gcd_proj1_iff)
    moreover have "unat ` set xs = unat ` set (takeWhile ?P xs) \<union> insert (unat (xs ! i)) (unat ` set (drop (i + 1) xs))"
      by (subst x) (simp only: set_append image_Un list.set image_insert)
    ultimately have "gcd (unat g) (Gcd (unat ` set xs)) = gcd (unat g) (gcd (unat (xs ! i)) (Gcd (unat ` set (drop (i + 1) xs))))"
      by (simp only: Gcd_union_nat Gcd_insert gcd.assoc [symmetric])
    then show ?thesis using False g1 g' by (simp only: step g1(1) if_False option.case) (simp add: ac_simps)
  qed
qed

lemma gcdVec_array_correct:
  "\<exists>g. gcdVec_array first xs = Some g \<and> unat g = (if \<forall>x \<in> set xs. x = 0 then 1 else Gcd (unat ` set xs))"
proof (cases "dropWhile (\<lambda>x. x = 0) xs")
  case Nil
  moreover from this have "\<forall>x \<in> set xs. x = 0" by (simp add: dropWhile_eq_Nil_conv)
  ultimately show ?thesis by (simp add: gcdVec_array_def del: dropWhile_eq_Nil_conv)
next
  case (Cons x rest)
  have xs: "xs = takeWhile (\<lambda>x. x = 0) xs @ x # rest" by (metis Cons takeWhile_dropWhile_id)
  have x: "x \<noteq> 0" using Cons by (auto simp: dropWhile_eq_Cons_conv)
  have ux: "unat (ucast x :: u64) = unat x" using narrow by (intro unat_ucast_up) simp
  have "(ucast x :: u64) \<noteq> 0" using x ux by (metis unat_eq_0)
  moreover have "unat (ucast x :: u64) < 2 ^ LENGTH('a)" unfolding ux by (rule unsigned_less)
  ultimately obtain g where g: "gcdVec_loop first rest (ucast x) = Some g" "unat g = gcd (unat x) (Gcd (unat ` set rest))"
    using gcdVec_loop_correct unfolding ux [symmetric] by blast
  have z: "Gcd (unat ` set (takeWhile (\<lambda>x. x = 0) xs)) = 0" by (auto simp: Gcd_0_iff dest: set_takeWhileD)
  have "unat ` set xs = unat ` set (takeWhile (\<lambda>x. x = 0) xs) \<union> insert (unat x) (unat ` set rest)"
    by (subst xs) (simp only: set_append image_Un list.set image_insert)
  then have "Gcd (unat ` set xs) = gcd (unat x) (Gcd (unat ` set rest))" by (simp only: Gcd_union_nat Gcd_insert z gcd_0_left_nat)
  moreover have "x \<in> set xs" by (subst xs) simp
  ultimately show ?thesis using g Cons x by (auto simp: gcdVec_array_def)
qed

lemma gcdVec_array_divides:
  "\<exists>g. gcdVec_array first xs = Some g \<and> g \<noteq> 0 \<and> unat g < 2 ^ LENGTH('a) \<and> (\<forall>x \<in> set xs. unat g dvd unat x)"
proof -
  obtain g where g: "gcdVec_array first xs = Some g" "unat g = (if \<forall>x \<in> set xs. x = 0 then 1 else Gcd (unat ` set xs))"
    using gcdVec_array_correct by blast
  show ?thesis
  proof (cases "\<forall>x \<in> set xs. x = 0")
    case True
    then have "unat g = 1" using g(2) by simp
    moreover from this have "g \<noteq> 0" by (metis unsigned_0 zero_neq_one)
    moreover have "1 < (2 :: nat) ^ LENGTH('a)" by (rule one_less_power) simp_all
    ultimately show ?thesis using g(1) by auto
  next
    case False
    then obtain x where x: "x \<in> set xs" "x \<noteq> 0" by blast
    have d: "unat g dvd unat x" if "x \<in> set xs" for x using False g(2) that by (auto intro: Gcd_dvd)
    have "unat g \<le> unat x" using d [OF x(1)] x(2) by (intro dvd_imp_le) (simp_all add: unat_gt_0)
    also have "\<dots> < 2 ^ LENGTH('a)" by (rule unsigned_less)
    finally have "unat g < 2 ^ LENGTH('a)" .
    moreover have "g \<noteq> 0" using d [OF x(1)] x(2) by (metis dvd_0_left unat_eq_0)
    ultimately show ?thesis using g(1) d by blast
  qed
qed

lemma quotients_restore:
  assumes "g \<noteq> 0" "unat g < 2 ^ LENGTH('a)" "\<forall>x \<in> set xs. unat g dvd unat x"
  shows "map (\<lambda>q. q * ucast g) (map (quot g) xs) = xs" "\<forall>q \<in> set (map (quot g) xs). unat q \<le> (2 ^ LENGTH('a) - 1) div unat g"
proof -
  have "quot g x * ucast g = x" if "x \<in> set xs" for x
  proof -
    have "unat (quot g x) * unat (ucast g :: 'a word) = unat x"
      using assms that by (simp add: quot_exact unat_ucast_narrow)
    then have "word_of_nat (unat (quot g x) * unat (ucast g :: 'a word)) = (word_of_nat (unat x) :: 'a word)" by (rule arg_cong)
    then show ?thesis by simp
  qed
  then show "map (\<lambda>q. q * ucast g) (map (quot g) xs) = xs" by (simp add: map_idI)
  have "unat x \<le> 2 ^ LENGTH('a) - 1" for x :: "'a word" using unsigned_less [of x, where ?'a = nat] by linarith
  then show "\<forall>q \<in> set (map (quot g) xs). unat q \<le> (2 ^ LENGTH('a) - 1) div unat g"
    using assms by (auto simp: quot_exact intro: div_le_mono)
qed

lemma divisor_fits:
  assumes "p = 0 \<Longrightarrow> (if n \<le> 1 then Some 1 else gcdVec_array first xs) = Some g"
    "p \<noteq> 0 \<Longrightarrow> g = p \<and> unat p < 2 ^ LENGTH('a) \<and> first xs p = n" "length xs = n"
  shows "g \<noteq> 0 \<and> unat g < 2 ^ LENGTH('a) \<and> (\<forall>x \<in> set xs. unat g dvd unat x)"
proof (cases "p = 0")
  case True
  have "1 < (2 :: nat) ^ LENGTH('a)" by (rule one_less_power) simp_all
  then show ?thesis using assms(1) [OF True] gcdVec_array_divides [of xs] by (auto split: if_splits)
next
  case False
  then show ?thesis using assms(2,3) first_all [of p xs] by auto
qed

lemma bytes_restore:
  assumes g: "g \<noteq> 0" "unat g < 2 ^ LENGTH('a)" "\<forall>x \<in> set (take n (read_elts w src)) . unat g dvd unat (x :: 'a word)"
    and w: "LENGTH('a) = 8 * w" "0 < w" "n * w = length src"
  defines "qs \<equiv> write_elts w (map (quot g) (take n (read_elts w src)))"
  shows "write_elts w (map (\<lambda>q. q * ucast g) (take n (read_elts w qs :: 'a word list))) = src" "length qs = length src"
    "\<forall>q \<in> set (take n (read_elts w qs)) . unat (q :: 'a word) \<le> (2 ^ LENGTH('a) - 1) div unat g"
proof -
  have l: "length (read_elts w src :: 'a word list) = n" using w(2,3) by (metis length_read_elts nonzero_mult_div_cancel_right neq0_conv)
  then show "length qs = length src" using w(3) by (simp add: qs_def mult.commute)
  have d: "w dvd length src" using w(3) by (metis dvd_triv_right)
  have r: "take n (read_elts w qs :: 'a word list) = map (quot g) (read_elts w src)"
    using w(1,2) l by (simp add: qs_def read_elts_write_elts)
  have t: "take n (read_elts w src :: 'a word list) = read_elts w src" using l by simp
  note q = quotients_restore [OF g(1,2), of "read_elts w src", OF g(3) [unfolded t]]
  show "write_elts w (map (\<lambda>q. q * ucast g) (take n (read_elts w qs :: 'a word list))) = src"
    unfolding r q(1) using w(1,2) d by (intro write_elts_read_elts) simp_all
  show "\<forall>q \<in> set (take n (read_elts w qs)) . unat (q :: 'a word) \<le> (2 ^ LENGTH('a) - 1) div unat g"
    unfolding r by (rule q(2))
qed

end


text \<open>The test of an element: the product of the quotient gives it back, without overflow.\<close>

lemma divisible_word:
  fixes d v q ov :: "'a::len word"
  assumes d: "d \<noteq> 0" and ov: "unat ov = (2 ^ LENGTH('a) - 1) div unat d" and q: "unat d dvd unat v \<Longrightarrow> unat q = unat v div unat d"
  shows "\<not> (q * d \<noteq> v \<or> ov < q) \<longleftrightarrow> unat d dvd unat v"
proof
  assume a: "\<not> (q * d \<noteq> v \<or> ov < q)"
  then have "unat q \<le> (2 ^ LENGTH('a) - 1) div unat d" by (simp add: word_less_nat_alt ov)
  then have "unat q * unat d \<le> (2 ^ LENGTH('a) - 1) div unat d * unat d" by (rule mult_le_mono1)
  also have "\<dots> \<le> 2 ^ LENGTH('a) - 1" by (rule div_times_less_eq_dividend)
  finally have "unat q * unat d < 2 ^ LENGTH('a)" using zero_less_power [of "2 :: nat" "LENGTH('a)"] by linarith
  then have "unat (q * d) = unat q * unat d" by (rule iffD1 [OF unat_mult_lem])
  then show "unat d dvd unat v" using a by auto
next
  assume a: "unat d dvd unat v"
  then have m: "unat q * unat d = unat v" using q by simp
  then have "unat (q * d) = unat v" using unat_mult_lem [of q d] by simp
  then have "q * d = v" by (rule unsigned_word_eqI)
  moreover have "unat v \<le> 2 ^ LENGTH('a) - 1" using unsigned_less [of v, where ?'a = nat] by linarith
  then have "unat q \<le> unat ov" using q [OF a] by (simp add: ov div_le_mono)
  ultimately show "\<not> (q * d \<noteq> v \<or> ov < q)" by (simp add: word_less_nat_alt)
qed

text \<open>A divisor in range, at the width of the elements.\<close>

lemma narrow_divisor:
  assumes "g \<noteq> 0" "unat (g :: u64) < 2 ^ LENGTH('a)" "unat m = 2 ^ LENGTH('a) - 1"
  shows "unat (ucast g :: 'a::len word) = unat g" "(ucast g :: 'a word) \<noteq> 0"
    "unat (ucast (m div g) :: 'a word) = (2 ^ LENGTH('a) - 1) div unat (ucast g :: 'a word)"
proof -
  show g: "unat (ucast g :: 'a word) = unat g" using assms(2) by (rule unat_ucast_narrow)
  then show "(ucast g :: 'a word) \<noteq> 0" using assms(1) by (metis unat_eq_0)
  have "unat (m div g) = (2 ^ LENGTH('a) - 1) div unat g" by (simp add: unat_div assms(3))
  moreover have "(2 ^ LENGTH('a) - 1) div unat g < 2 ^ LENGTH('a)"
    by (rule le_less_trans [OF div_le_dividend]) simp
  ultimately show "unat (ucast (m div g) :: 'a word) = (2 ^ LENGTH('a) - 1) div unat (ucast g :: 'a word)"
    unfolding g by (subst unat_ucast_narrow) simp_all
qed

interpretation div8: divider "\<lambda>g. quotient8 (ZL_getMultiplicativeInverse8 (ucast g))" ZL_firstIndexNotDivisibleBy8
proof
  fix g :: u64 and x :: u8 and xs
  assume g: "g \<noteq> 0" "unat g < 2 ^ LENGTH(8)"
  note n = narrow_divisor [OF g, where m = "0xff", simplified]
  show "unat g dvd unat x \<Longrightarrow> unat (quotient8 (ZL_getMultiplicativeInverse8 (ucast g)) x) = unat x div unat g"
    using quotient8 [OF n(2), of x] by (simp add: n(1))
  show "ZL_firstIndexNotDivisibleBy8 xs g = length (takeWhile (\<lambda>x. unat g dvd unat x) xs)"
    using divisible_word [OF n(2), of "ucast (0xff div g)"] quotient8 [OF n(2)]
    by (simp add: ZL_firstIndexNotDivisibleBy8_def Let_def n)
qed simp

interpretation div16: divider "\<lambda>g. quotient16 (ZL_getMultiplicativeInverse32 (ucast (ucast g :: u16)))" ZL_firstIndexNotDivisibleBy16
proof
  fix g :: u64 and x :: u16 and xs
  assume g: "g \<noteq> 0" "unat g < 2 ^ LENGTH(16)"
  note n = narrow_divisor [OF g, where m = "0xffff", simplified]
  have u: "ucast g = (ucast (ucast g :: u16) :: u32)" using g(2) by (simp add: word_unat_eq_iff unat_ucast_up n(1) unat_ucast_narrow)
  have u0: "(ucast (ucast g :: u16) :: u32) \<noteq> 0" using n(2) by (simp add: word_unat_eq_iff unat_ucast_up)
  have q: "unat (quotient16 (ZL_getMultiplicativeInverse32 (ucast g)) x) = unat x div unat g" if "unat g dvd unat x" for x
    using quotient16 [OF u0, of x] that by (simp add: n(1) unat_ucast_up u)
  then show "unat g dvd unat x \<Longrightarrow> unat (quotient16 (ZL_getMultiplicativeInverse32 (ucast (ucast g :: u16))) x) = unat x div unat g"
    unfolding u by simp
  have m: "ucast (ucast q * ucast g :: u32) = q * (ucast g :: u16)" for q :: u16
    unfolding u using unsigned_less [of q, where ?'a = nat] by (simp add: word_unat_eq_iff unsigned_ucast_eq unat_word_ariths unat_ucast_up take_bit_eq_mod mod_mod_cancel)
  have l: "(ucast a :: u32) < ucast b \<longleftrightarrow> a < b" for a b :: u16 by (simp add: word_less_nat_alt unat_ucast_up)
  show "ZL_firstIndexNotDivisibleBy16 xs g = length (takeWhile (\<lambda>x. unat g dvd unat x) xs)"
    using divisible_word [OF n(2), of "ucast (0xffff div g)"] q
    by (simp add: ZL_firstIndexNotDivisibleBy16_def Let_def n m l)
qed simp

interpretation div32: divider "\<lambda>g. quotient32 (ZL_getMultiplicativeInverse32 (ucast g))" ZL_firstIndexNotDivisibleBy32
proof
  fix g :: u64 and x :: u32 and xs
  assume g: "g \<noteq> 0" "unat g < 2 ^ LENGTH(32)"
  note n = narrow_divisor [OF g, where m = "0xffffffff", simplified]
  show "unat g dvd unat x \<Longrightarrow> unat (quotient32 (ZL_getMultiplicativeInverse32 (ucast g)) x) = unat x div unat g"
    using quotient32 [OF n(2), of x] by (simp add: n(1))
  show "ZL_firstIndexNotDivisibleBy32 xs g = length (takeWhile (\<lambda>x. unat g dvd unat x) xs)"
    using divisible_word [OF n(2), of "ucast (0xffffffff div g)"] quotient32 [OF n(2)]
    by (simp add: ZL_firstIndexNotDivisibleBy32_def Let_def n)
qed simp

interpretation div64: divider "\<lambda>g. quotient64 (ZL_getMultiplicativeInverse64 g)" ZL_firstIndexNotDivisibleBy64
proof
  fix g :: u64 and x :: u64 and xs
  assume g: "g \<noteq> 0"
  have ov: "unat (- 1 div g) = (2 ^ LENGTH(64) - 1) div unat g"
    by (simp add: unat_div unsigned_minus_1_eq_mask mask_eq_exp_minus_1)
  show "unat g dvd unat x \<Longrightarrow> unat (quotient64 (ZL_getMultiplicativeInverse64 g) x) = unat x div unat g"
    using quotient64 [OF g, of x] by simp
  show "ZL_firstIndexNotDivisibleBy64 xs g = length (takeWhile (\<lambda>x. unat g dvd unat x) xs)"
    using divisible_word [OF g ov] quotient64 [OF g]
    by (simp add: ZL_firstIndexNotDivisibleBy64_def Let_def)
qed simp


section \<open>The codec\<close>

text \<open>The test of the decoder passes: no quotient overflows.\<close>

lemma max_fits:
  fixes xs :: "'a::len word list" and m g :: u64
  assumes b: "\<forall>q \<in> set xs. unat q \<le> (2 ^ LENGTH('a) - 1) div unat g" and m: "unat m = 2 ^ LENGTH('a) - 1" and l: "LENGTH('a) \<le> 64"
  shows "\<not> m div g < ucast (foldl (\<lambda>m x. if m < x then x else m) 0 xs)"
proof -
  have "unat (foldl (\<lambda>m x. if m < x then x else m) a xs) \<le> (2 ^ LENGTH('a) - 1) div unat g"
    if "unat a \<le> (2 ^ LENGTH('a) - 1) div unat g" for a :: "'a word"
    using that b by (induction xs arbitrary: a) auto
  from this [of 0] show ?thesis using l by (simp add: word_less_nat_alt unat_div m unat_ucast_up not_less)
qed

lemmas findMax_defs = NUMOP_findMaxU8_def NUMOP_findMaxU16_def NUMOP_findMaxArr32_def NUMOP_findMaxU64_def
lemmas divideBy_defs = ZS_divideByEncode_def ZS_divideByDecode_def ZS_divideByEncode8_def ZS_divideByDecode8_def
  ZS_divideByEncode16_def ZS_divideByDecode16_def ZS_divideByEncode32_def ZS_divideByDecode32_def
  ZS_divideByEncode64_def ZS_divideByDecode64_def

text \<open>The decoder's checks and result on the encoder's quotients.\<close>

lemma divide_by_kernels:
  assumes w: "ZL_isLegalIntegerWidth w" "w dvd length bs" and n: "n = length bs div w"
    and g: "getDivisor w n p bs = Some (Inr g)"
  defines "qs \<equiv> ZS_divideByEncode bs n g w"
  shows "g \<noteq> 0 \<and> length qs = length bs \<and> ZS_divideByDecode qs n g w = bs
    \<and> (w = 1 \<longrightarrow> \<not> (0xff < g \<or> 0xff div g < ucast (NUMOP_findMaxU8 (take n (read_elts 1 qs)))))
    \<and> (w = 2 \<longrightarrow> \<not> (0xffff < g \<or> 0xffff div g < ucast (NUMOP_findMaxU16 (take n (read_elts 2 qs)))))
    \<and> (w = 4 \<longrightarrow> \<not> (0xffffffff < g \<or> 0xffffffff div g < ucast (NUMOP_findMaxArr32 (take n (read_elts 4 qs)))))
    \<and> (w = 8 \<longrightarrow> \<not> - 1 div g < NUMOP_findMaxU64 (take n (read_elts 8 qs)))"
  using w(1)
proof (cases rule: legal_widthE)
  case 1
  have m: "n * 1 = length bs" using w(2) n 1 by simp
  have "g \<noteq> 0 \<and> unat g < 2 ^ LENGTH(8) \<and> (\<forall>x \<in> set (take n (read_elts 1 bs :: u8 list)). unat g dvd unat x)"
    by (rule div8.divisor_fits [of p n]) (use g 1 m in \<open>auto simp: getDivisor_def ZL_gcdVec_def word_less_nat_alt split: if_splits\<close>)
  then have f: "g \<noteq> 0" "unat g < 2 ^ LENGTH(8)" "\<forall>x \<in> set (take n (read_elts 1 bs :: u8 list)). unat g dvd unat x" by blast+
  note r = div8.bytes_restore [OF f _ _ m]
  show ?thesis using 1 f(1,2) r max_fits [OF r(3), of "0xff"] by (simp add: qs_def divideBy_defs findMax_defs word_less_nat_alt)
next
  case 2
  have m: "n * 2 = length bs" using w(2) n 2 by simp
  have "g \<noteq> 0 \<and> unat g < 2 ^ LENGTH(16) \<and> (\<forall>x \<in> set (take n (read_elts 2 bs :: u16 list)). unat g dvd unat x)"
    by (rule div16.divisor_fits [of p n]) (use g 2 m in \<open>auto simp: getDivisor_def ZL_gcdVec_def word_less_nat_alt split: if_splits\<close>)
  then have f: "g \<noteq> 0" "unat g < 2 ^ LENGTH(16)" "\<forall>x \<in> set (take n (read_elts 2 bs :: u16 list)). unat g dvd unat x" by blast+
  note r = div16.bytes_restore [OF f _ _ m]
  show ?thesis using 2 f(1,2) r max_fits [OF r(3), of "0xffff"] by (simp add: qs_def divideBy_defs findMax_defs word_less_nat_alt)
next
  case 3
  have m: "n * 4 = length bs" using w(2) n 3 by simp
  have "g \<noteq> 0 \<and> unat g < 2 ^ LENGTH(32) \<and> (\<forall>x \<in> set (take n (read_elts 4 bs :: u32 list)). unat g dvd unat x)"
    by (rule div32.divisor_fits [of p n]) (use g 3 m in \<open>auto simp: getDivisor_def ZL_gcdVec_def word_less_nat_alt split: if_splits\<close>)
  then have f: "g \<noteq> 0" "unat g < 2 ^ LENGTH(32)" "\<forall>x \<in> set (take n (read_elts 4 bs :: u32 list)). unat g dvd unat x" by blast+
  note r = div32.bytes_restore [OF f _ _ m]
  show ?thesis using 3 f(1,2) r max_fits [OF r(3), of "0xffffffff"] by (simp add: qs_def divideBy_defs findMax_defs word_less_nat_alt)
next
  case 4
  have m: "n * 8 = length bs" using w(2) n 4 by simp
  have "g \<noteq> 0 \<and> unat g < 2 ^ LENGTH(64) \<and> (\<forall>x \<in> set (take n (read_elts 8 bs :: u64 list)). unat g dvd unat x)"
    by (rule div64.divisor_fits [of p n]) (use g 4 m in \<open>auto simp: getDivisor_def ZL_gcdVec_def split: if_splits\<close>)
  then have f: "g \<noteq> 0" "unat g < 2 ^ LENGTH(64)" "\<forall>x \<in> set (take n (read_elts 8 bs :: u64 list)). unat g dvd unat x" by blast+
  note r = div64.bytes_restore [OF f _ _ m]
  have "unat (- 1 :: u64) = 2 ^ LENGTH(64) - 1" by (simp add: unsigned_minus_1_eq_mask mask_eq_exp_minus_1)
  from max_fits [OF r(3) this] show ?thesis using 4 f(1,2) r n w(2) by (simp add: qs_def divideBy_defs findMax_defs)
qed

text \<open>A divisor is always found, or the parameter is refused: no loop runs on.\<close>

lemma gcdVec_exact_width:
  assumes w: "ZL_isLegalIntegerWidth w" "n = length src div w"
  shows "\<exists>g. ZL_gcdVec src n w = Some g
    \<and> unat g = (if n \<le> 1 \<or> (\<forall>x \<in> set (elts w src). x = 0) then 1 else Gcd (unat ` set (elts w src)))"
proof -
  have k: "\<exists>g. gcdVec_array first (take n (read_elts w src)) = Some g
      \<and> unat g = (if \<forall>x \<in> set (elts w src). x = 0 then 1 else Gcd (unat ` set (elts w src)))"
    if "8 * w = LENGTH('a)" "LENGTH('a) \<le> 64" "\<And>xs. \<exists>g. gcdVec_array first xs = Some g
      \<and> unat g = (if \<forall>x \<in> set xs. x = 0 then 1 else Gcd (unat ` set xs))" for first :: "'a::len word list \<Rightarrow> u64 \<Rightarrow> nat"
  proof -
    have "0 < w" using w(1) by (auto simp: ZL_isLegalIntegerWidth_def)
    then have t: "take n (read_elts w src :: 'a word list) = read_elts w src" using w(2) by simp
    have e: "elts w src = map ucast (read_elts w src :: 'a word list)" using that(1,2) by (intro read_elts_ucast) simp_all
    have z: "(ucast x :: u64) = 0 \<longleftrightarrow> x = 0" for x :: "'a word" using that(2) by (simp add: word_unat_eq_iff unat_ucast_up)
    have i: "unat ` set (elts w src) = unat ` set (read_elts w src :: 'a word list)"
      unfolding e using that(2) by (simp add: image_image unat_ucast_up)
    show ?thesis using that(3) [of "read_elts w src"] unfolding t i unfolding e by (simp add: z)
  qed
  show ?thesis using w(1)
  proof (cases rule: legal_widthE)
    case 1
    show ?thesis using k [OF _ _ div8.gcdVec_array_correct] unfolding ZL_gcdVec_def 1 by (auto simp del: One_nat_def)
  next
    case 2
    show ?thesis using k [OF _ _ div16.gcdVec_array_correct] unfolding ZL_gcdVec_def 2 by (auto simp del: One_nat_def)
  next
    case 3
    show ?thesis using k [OF _ _ div32.gcdVec_array_correct] unfolding ZL_gcdVec_def 3 by (auto simp del: One_nat_def)
  next
    case 4
    show ?thesis using k [OF _ _ div64.gcdVec_array_correct] unfolding ZL_gcdVec_def 4 by (auto simp del: One_nat_def)
  qed
qed

lemma EI_divide_by_returns:
  assumes "is_numeric d"
  shows "EI_divide_by_int ctx p d \<noteq> None"
proof -
  obtain w bs where d: "d = numeric w bs" and w: "ZL_isLegalIntegerWidth w" using assms by (elim is_numericE)
  have g: "getDivisor w (length bs div w) g bs \<noteq> None" for g
    using gcdVec_exact_width [OF w refl, of bs] by (auto simp: getDivisor_def)
  show ?thesis by (auto simp: d EI_divide_by_int_def Let_def g split: option.splits sum.splits)
qed

lemma divide_by_roundtrip:
  assumes "is_numeric d" "EI_divide_by_int cctx p d = Some (Inr (outs, hdr))"
  shows "list_all wf_data outs"
    and "(\<And>n. ctx_alloc dctx n) \<Longrightarrow> DI_divide_by_int dctx hdr outs = Inr d"
proof -
  obtain w bs where d: "d = numeric w bs" and w: "ZL_isLegalIntegerWidth w" "0 < w"
    and l: "w dvd length bs" "length bs < 2 ^ 64"
    using assms(1) by (elim is_numericE)
  let ?n = "length bs div w"
  obtain q g where g: "getDivisor w ?n q bs = Some (Inr g)" and o: "outs = [numeric w (ZS_divideByEncode bs ?n g w)]" "hdr = ZL_varintEncode g"
    using assms(2) by (auto simp: d EI_divide_by_int_def Let_def split: option.splits sum.splits)
  note K = divide_by_kernels [OF w(1) l(1) refl g]
  have v: "ZL_varintDecode (ZL_varintEncode g) = Inr (g, [])" using ZL_varintDecode_encode [of g "[]"] by simp
  show "list_all wf_data outs" using w l K by (simp add: o wf_numeric)
  show "DI_divide_by_int dctx hdr outs = Inr d" if "\<And>n. ctx_alloc dctx n"
    using K that w l by (simp add: o d DI_divide_by_int_def Let_def v ZL_varintEncode_nonempty)
qed

interpretation divide_by: lossless_codec EI_divide_by_int "\<lambda>ctx header ins. Some (DI_divide_by_int ctx header ins)" is_numeric
  by unfold_locales (auto intro: divide_by_roundtrip)

text \<open>
  C39: The divide-by codec is lossless at every width, with a given divisor and with the greatest common divisor: what the
  multiplication with an inverse and the shift compute is the quotient, and the decoder's overflow
  checks pass on it. The encoder always comes to an end.
\<close>

theorem divide_by_lossless:
  assumes "is_numeric d"
  shows "\<exists>r. EI_divide_by_int cctx p d = Some r
    \<and> (\<forall>outs hdr dctx. r = Inr (outs, hdr) \<longrightarrow> formatVersion dctx = formatVersion cctx \<longrightarrow> (\<forall>n. ctx_alloc dctx n)
        \<longrightarrow> DI_divide_by_int dctx hdr outs = Inr d)"
  using EI_divide_by_returns [OF assms, of cctx p] divide_by.lossless [OF assms] by (cases "EI_divide_by_int cctx p d") auto



theorem divide_by_lossless_witness:
  "DI_divide_by_int (big_ctx 16) [3] [numeric 1 [2, 3, 0]] = Inr (numeric 1 [6, 9, 0])"
proof -
  have "getDivisor 1 3 0 [6, 9, 0] = Some (Inr 3)" "ZS_divideByEncode [6, 9, 0] 3 3 1 = [2, 3, 0]" "ZL_varintEncode 3 = [3]" by code_simp+
  then have e: "EI_divide_by_int (big_ctx 16) None (numeric 1 [6, 9, 0]) = Some (Inr ([numeric 1 [2, 3, 0]], [3]))"
    by (simp add: EI_divide_by_int_def createTypedStream_def numeral_3_eq_3 del: ZL_varintEncode_small)
  have "is_numeric (numeric 1 [6, 9, 0])" by (simp add: is_numeric_numeric ZL_isLegalIntegerWidth_def)
  from divide_by_lossless [OF this, of "big_ctx 16" None] show ?thesis unfolding e by (auto dest: spec [of _ "big_ctx 16"])
qed

end
