(* ===== verification/Registry.thy ===== *)
theory Registry
  imports Engine_Roundtrip Codec_Conversion Codec_Constant Codec_Delta Codec_Dispatch Codec_DivideBy Codec_RangePack
    Codec_Sentinel Codec_SparseNum Codec_Zigzag
begin

text \<open>
  The tables of standard codecs (\<^verbatim>\<open>codecs/encoder_registry.c\<close>, \<^verbatim>\<open>codecs/decoder_registry.c\<close>), for the codecs
  of this development: how the bindings become nodes of the compression engine and decoders of the
  decompression engine, and that each node can be decoded.
\<close>

section \<open>Registration\<close>

text \<open>
  An output after the singletons belongs to the variable outcome. Where the behaviour of a binding is not
  defined, a node reports a failure of its execution.
\<close>

definition REGISTER_TRANSFORM ::
  "u32 \<Rightarrow> nat \<Rightarrow> ZL_Type \<Rightarrow> ZL_Type list \<Rightarrow> ZL_Type list
    \<Rightarrow> (codec_ctx \<Rightarrow> ZL_Data \<Rightarrow> (ZL_Data list \<times> byte list) ZL_Result option) \<Rightarrow> CNode" where
  "REGISTER_TRANSFORM strid minVersion inType sos vos f =
     \<lparr>cn_trInfo = \<lparr>trt = trt_standard, trid = strid\<rparr>, inputTypes = [inType], lastInputIsVariable = False,
      soTypes = sos, voTypes = vos, minFormatVersion = minVersion, maxFormatVersion = ZL_MAX_FORMAT_VERSION,
      maybeDictIndex = ZL_DICT_INDEX_NONE,
      transform_f = (\<lambda>ctx ins. case f ctx (ins ! 0) of None \<Rightarrow> Inl ZL_ErrorCode_transform_executionFailure
        | Some r \<Rightarrow> res_bind r (\<lambda>(outs, header). Inr (enumerate 0 (take (length sos) outs)
            @ map (Pair (length sos)) (drop (length sos) outs), Some header)))\<rparr>"

definition REGISTER_TTRANSFORM_G ::
  "nat \<Rightarrow> ZL_Type \<Rightarrow> ZL_Type list \<Rightarrow> ZL_Type list
    \<Rightarrow> (codec_ctx \<Rightarrow> byte list \<Rightarrow> ZL_Data list \<Rightarrow> ZL_Data ZL_Result option) \<Rightarrow> StandardDTransform" where
  "REGISTER_TTRANSFORM_G minVersion inType sos vos f =
     \<lparr>sdt_minFormatVersion = minVersion, sdt_maxFormatVersion = ZL_MAX_FORMAT_VERSION,
      dtr = \<lparr>dt_inputTypes = [inType], dt_lastInputIsVariable = False, dt_soTypes = sos, dt_voTypes = vos,
        transformFn = (\<lambda>ctx dict header ins n. case f ctx header ins of None \<Rightarrow> Inl ZL_ErrorCode_transform_executionFailure
          | Some r \<Rightarrow> res_bind r (\<lambda>d. Inr [(0, d)]))\<rparr>\<rparr>"

section \<open>Registered codecs\<close>

text \<open>A lossless codec with typed ports: its input port carries one type, and its outputs have the types of theirs.\<close>

locale typed_codec = lossless_codec enc dec accepts
  for enc :: "codec_ctx \<Rightarrow> 'p \<Rightarrow> ZL_Data \<Rightarrow> (ZL_Data list \<times> byte list) ZL_Result option"
    and dec :: "codec_ctx \<Rightarrow> byte list \<Rightarrow> ZL_Data list \<Rightarrow> ZL_Data ZL_Result option" and accepts +
  fixes inType :: ZL_Type and sos vos :: "ZL_Type list"
  assumes port: "wf_data d \<Longrightarrow> data_type d = inType \<Longrightarrow> accepts d"
    and one_vo: "length vos \<le> 1"
    and out_types: "accepts d \<Longrightarrow> enc cctx p d = Some (Inr (outs, hb))
      \<Longrightarrow> \<exists>k. map data_type outs = sos @ concat (replicate k vos)"
begin

lemma slots_registered:
  assumes "map data_type outs = sos @ concat (replicate k vos)"
  shows "slots (REGISTER_TRANSFORM strid minVersion inType sos vos f)
      (enumerate 0 (take (length sos) outs) @ map (Pair (length sos)) (drop (length sos) outs)) = outs"
    "\<forall>y \<in> set (enumerate 0 (take (length sos) outs) @ map (Pair (length sos)) (drop (length sos) outs)).
      fst y < length sos + length vos"
proof -
  let ?n = "length sos" and ?cn = "REGISTER_TRANSFORM strid minVersion inType sos vos f"
  obtain ss vs where o: "outs = ss @ vs" "map data_type ss = sos" "map data_type vs = concat (replicate k vos)"
    using assms by (metis map_eq_append_conv)
  have n: "length ss = ?n" using o(2) by auto
  have cn: "CNODE_getNbOut1s ?cn = ?n" by (simp add: CNODE_getNbOut1s_def REGISTER_TRANSFORM_def)
  have vt: "voTypes ?cn = vos" by (simp add: REGISTER_TRANSFORM_def)
  have ty: "CNODE_getOutStreamType ?cn q = sos ! q" if "q < ?n" for q
    using that by (simp add: CNODE_getOutStreamType_def CNODE_isVO_def cn) (simp add: REGISTER_TRANSFORM_def)
  have vo: "CNODE_getOutStreamType ?cn ?n = hd vos" if "vos \<noteq> []"
    using that vt by (simp add: CNODE_getOutStreamType_def CNODE_isVO_def cn hd_conv_nth)
  have same: "d\<lparr>data_type := data_type d\<rparr> = d" for d :: ZL_Data by simp
  have "map (\<lambda>q. typed ?cn q (the (map_of (enumerate 0 ss @ map (Pair ?n) vs) q))) [0..<?n] = ss"
  proof (rule nth_equalityI)
    fix q assume "q < length (map (\<lambda>q. typed ?cn q (the (map_of (enumerate 0 ss @ map (Pair ?n) vs) q))) [0..<?n])"
    then have q: "q < length ss" using n by simp
    have "map_of (enumerate 0 ss) q = Some (ss ! q)"
      by (rule map_of_is_SomeI) (use q in \<open>auto simp: in_set_enumerate_eq\<close>)
    then show "map (\<lambda>q. typed ?cn q (the (map_of (enumerate 0 ss @ map (Pair ?n) vs) q))) [0..<?n] ! q = ss ! q"
      using q n o(2) ty by (simp add: typed_def map_add_def) (metis nth_map same)
  qed (simp add: n)
  moreover have "map (\<lambda>y. typed ?cn (fst y) (snd y)) (VO_outs ?cn (enumerate 0 ss @ map (Pair ?n) vs)) = vs"
  proof -
    have "VO_outs ?cn (enumerate 0 ss) = []" by (auto simp: filter_empty_conv in_set_enumerate_eq CNODE_isVO_def cn n)
    moreover have "typed ?cn ?n v = v" if "v \<in> set vs" for v
    proof -
      have "data_type v \<in> set (concat (replicate k vos))" using that o(3) by (metis image_eqI list.set_map)
      then have "vos = [data_type v]" using one_vo by (cases vos) (auto split: if_splits)
      then have "CNODE_getOutStreamType ?cn ?n = data_type v" using vo by (metis list.sel(1) list.distinct(1))
      then show ?thesis by (simp add: typed_def)
    qed
    ultimately show ?thesis by (simp add: CNODE_isVO_def cn comp_def map_idI)
  qed
  ultimately show "slots ?cn (enumerate 0 (take ?n outs) @ map (Pair ?n) (drop ?n outs)) = outs"
    by (simp add: slots_def cn o(1) n)
  show "\<forall>y \<in> set (enumerate 0 (take ?n outs) @ map (Pair ?n) (drop ?n outs)). fst y < ?n + length vos"
    using o n by (cases "vos = []") (auto simp: in_set_enumerate_eq)
qed

lemma registered_outputs:
  assumes wf: "list_all wf_data ins" and ran: "codec_ran ectx v (REGISTER_TRANSFORM strid minVersion inType sos vos (\<lambda>ctx. enc ctx p)) ins outs h"
  shows "\<exists>d os hb k. ins = [d] \<and> accepts d \<and> enc ectx p d = Some (Inr (os, hb)) \<and> h = Some hb
    \<and> outs = enumerate 0 (take (length sos) os) @ map (Pair (length sos)) (drop (length sos) os)
    \<and> map data_type os = sos @ concat (replicate k vos)
    \<and> slots (REGISTER_TRANSFORM strid minVersion inType sos vos (\<lambda>ctx. enc ctx p)) outs = os"
proof -
  let ?cn = "REGISTER_TRANSFORM strid minVersion inType sos vos (\<lambda>ctx. enc ctx p)"
  have r: "transform_f ?cn ectx ins = Inr (outs, h)" "CNODE_isNbInputsCompatible ?cn (length ins)"
      "\<forall>n < length ins. data_type (ins ! n) = CNODE_getInputType ?cn n"
    using ran by (simp_all add: codec_ran_def)
  obtain d where ins: "ins = [d]"
    using r(2) by (auto simp: REGISTER_TRANSFORM_def CNODE_isNbInputsCompatible_def CNODE_getNbInputPorts_def length_Suc_conv)
  have acc: "accepts d"
    using r(3) wf by (intro port) (simp_all add: ins REGISTER_TRANSFORM_def CNODE_getInputType_def CNODE_getNbInputPorts_def)
  obtain os hb where e: "enc ectx p d = Some (Inr (os, hb))" "h = Some hb"
      "outs = enumerate 0 (take (length sos) os) @ map (Pair (length sos)) (drop (length sos) os)"
    using r(1) unfolding ins by (auto simp: REGISTER_TRANSFORM_def split: option.splits sum.splits)
  obtain k where k: "map data_type os = sos @ concat (replicate k vos)" using out_types [OF acc e(1)] by blast
  show ?thesis using ins acc e k slots_registered(1) [OF k] by blast
qed

lemma registered_decodable:
  assumes tm: "DTM_getTransform tm \<lparr>trt = trt_standard, trid = strid\<rparr> v = Inr (dtr (REGISTER_TTRANSFORM_G minVersion inType sos vos dec))"
    and fv: "formatVersion dctx = formatVersion ectx" and mem: "\<And>n. ctx_alloc dctx n"
  shows "decodable ectx dctx tm v (REGISTER_TRANSFORM strid minVersion inType sos vos (\<lambda>ctx. enc ctx p))"
proof -
  let ?cn = "REGISTER_TRANSFORM strid minVersion inType sos vos (\<lambda>ctx. enc ctx p)"
  let ?dt = "dtr (REGISTER_TTRANSFORM_G minVersion inType sos vos dec)"
  have "(\<forall>y \<in> set outs. fst y < CNODE_getNbOutcomes ?cn)
      \<and> (\<exists>rs. transformFn ?dt dctx (maybeDictIndex ?cn) (header_of h) (slots ?cn outs) (length ins) = Inr rs
         \<and> distinct (map fst rs) \<and> set rs = set (enumerate 0 ins))"
    if wf: "list_all wf_data ins" and ran: "codec_ran ectx v ?cn ins outs h" for ins outs h
  proof -
    obtain d os hb k where ins: "ins = [d]" and acc: "accepts d" and e: "enc ectx p d = Some (Inr (os, hb))" "h = Some hb"
        "outs = enumerate 0 (take (length sos) os) @ map (Pair (length sos)) (drop (length sos) os)"
        and k: "map data_type os = sos @ concat (replicate k vos)"
      using registered_outputs [OF wf ran] by blast
    have "dec dctx hb os = Some (Inr d)" by (rule lossless [OF acc e(1) fv mem])
    then have "transformFn ?dt dctx (maybeDictIndex ?cn) (header_of h) (slots ?cn outs) (length ins) = Inr [(0, d)]"
      unfolding e(3) slots_registered(1) [OF k] e(2) by (simp add: REGISTER_TTRANSFORM_G_def header_of_def)
    moreover have "\<forall>y \<in> set outs. fst y < CNODE_getNbOutcomes ?cn"
      using slots_registered(2) [OF k] e(3) by (simp add: CNODE_getNbOutcomes_def CNODE_getNbOut1s_def REGISTER_TRANSFORM_def)
    ultimately show ?thesis by (auto simp: ins)
  qed
  then show ?thesis using tm unfolding decodable_def
    by (intro exI [of _ ?dt]) (simp add: REGISTER_TRANSFORM_def REGISTER_TTRANSFORM_G_def)
qed

end

section \<open>The codecs of this development\<close>

text \<open>
  What a decoder's choice of instructions depends on: vector units, the alignment of its input, and the
  content of fresh memory.
\<close>

record machine =
  has_simd :: bool
  has_avx2 :: bool
  input_aligned :: bool
  fresh_byte :: "nat \<Rightarrow> nat \<Rightarrow> byte"

text \<open>The nodes, with their local parameters and the alignment of their input where the binding looks at it.\<close>

datatype standard_node =
    ZL_StandardNodeID_delta_int
  | ZL_StandardNodeID_zigzag
  | ZL_StandardNodeID_dispatchN_byTag dispatch_params
  | ZL_StandardNodeID_convert_serial_to_struct "32 word option"
  | ZL_StandardNodeID_convert_serial_to_struct2
  | ZL_StandardNodeID_convert_serial_to_struct4
  | ZL_StandardNodeID_convert_serial_to_struct8
  | ZL_StandardNodeID_convert_struct_to_serial
  | ZL_StandardNodeID_convert_struct_to_num_le bool
  | ZL_StandardNodeID_convert_struct_to_num_be bool
  | ZL_StandardNodeID_convert_num_to_struct_le
  | ZL_StandardNodeID_convert_serial_to_num8 bool
  | ZL_StandardNodeID_convert_serial_to_num_le16 bool
  | ZL_StandardNodeID_convert_serial_to_num_le32 bool
  | ZL_StandardNodeID_convert_serial_to_num_le64 bool
  | ZL_StandardNodeID_convert_serial_to_num_be16 bool
  | ZL_StandardNodeID_convert_serial_to_num_be32 bool
  | ZL_StandardNodeID_convert_serial_to_num_be64 bool
  | ZL_StandardNodeID_convert_num_to_serial_le
  | ZL_StandardNodeID_separate_string_components
  | ZL_StandardNodeID_range_pack "byte list option"
  | ZL_StandardNodeID_divide_by "byte list option"
  | ZL_StandardNodeID_sentinel_byte
  | ZL_StandardNodeID_sentinel_num sentinel_params
  | ZL_PrivateStandardNodeID_constant_serial
  | ZL_PrivateStandardNodeID_constant_fixed

fun ER_standardNodes :: "standard_node \<Rightarrow> CNode" where
  "ER_standardNodes ZL_StandardNodeID_delta_int =
     REGISTER_TRANSFORM 1 3 ZL_Type_numeric [ZL_Type_numeric] [] (\<lambda>ctx d. Some (EI_delta_int ctx () d))"
| "ER_standardNodes ZL_StandardNodeID_zigzag =
     REGISTER_TRANSFORM 3 3 ZL_Type_numeric [ZL_Type_numeric] [] (\<lambda>ctx d. Some (EI_zigzag_num ctx () d))"
| "ER_standardNodes (ZL_StandardNodeID_dispatchN_byTag p) =
     REGISTER_TRANSFORM 42 9 ZL_Type_serial [ZL_Type_numeric, ZL_Type_numeric] [ZL_Type_serial] (\<lambda>ctx. EI_dispatchN_byTag ctx p)"
| "ER_standardNodes (ZL_StandardNodeID_convert_serial_to_struct p) =
     REGISTER_TRANSFORM 5 3 ZL_Type_serial [ZL_Type_struct] [] (\<lambda>ctx d. Some (EI_convert_serial_to_struct ctx (map_option sint p) d))"
| "ER_standardNodes ZL_StandardNodeID_convert_serial_to_struct2 =
     REGISTER_TRANSFORM 5 3 ZL_Type_serial [ZL_Type_struct] [] (\<lambda>ctx d. Some (EI_convert_serial_to_struct ctx (Some 2) d))"
| "ER_standardNodes ZL_StandardNodeID_convert_serial_to_struct4 =
     REGISTER_TRANSFORM 5 3 ZL_Type_serial [ZL_Type_struct] [] (\<lambda>ctx d. Some (EI_convert_serial_to_struct ctx (Some 4) d))"
| "ER_standardNodes ZL_StandardNodeID_convert_serial_to_struct8 =
     REGISTER_TRANSFORM 5 3 ZL_Type_serial [ZL_Type_struct] [] (\<lambda>ctx d. Some (EI_convert_serial_to_struct ctx (Some 8) d))"
| "ER_standardNodes ZL_StandardNodeID_convert_struct_to_serial =
     REGISTER_TRANSFORM 6 3 ZL_Type_struct [ZL_Type_serial] [] (\<lambda>ctx d. Some (EI_convert_struct_to_serial ctx () d))"
| "ER_standardNodes (ZL_StandardNodeID_convert_struct_to_num_le a) =
     REGISTER_TRANSFORM 7 3 ZL_Type_struct [ZL_Type_numeric] [] (\<lambda>ctx. EI_convert_struct_to_num_le ctx a)"
| "ER_standardNodes (ZL_StandardNodeID_convert_struct_to_num_be a) =
     REGISTER_TRANSFORM 13 21 ZL_Type_struct [ZL_Type_numeric] [] (\<lambda>ctx. EI_convert_struct_to_num_be ctx a)"
| "ER_standardNodes ZL_StandardNodeID_convert_num_to_struct_le =
     REGISTER_TRANSFORM 8 3 ZL_Type_numeric [ZL_Type_struct] [] (\<lambda>ctx d. Some (EI_convert_num_to_struct_le ctx () d))"
| "ER_standardNodes (ZL_StandardNodeID_convert_serial_to_num8 a) =
     REGISTER_TRANSFORM 9 3 ZL_Type_serial [ZL_Type_numeric] [] (\<lambda>ctx. EI_convert_serial_to_num8 ctx a)"
| "ER_standardNodes (ZL_StandardNodeID_convert_serial_to_num_le16 a) =
     REGISTER_TRANSFORM 9 3 ZL_Type_serial [ZL_Type_numeric] [] (\<lambda>ctx. EI_convert_serial_to_num_le16 ctx a)"
| "ER_standardNodes (ZL_StandardNodeID_convert_serial_to_num_le32 a) =
     REGISTER_TRANSFORM 9 3 ZL_Type_serial [ZL_Type_numeric] [] (\<lambda>ctx. EI_convert_serial_to_num_le32 ctx a)"
| "ER_standardNodes (ZL_StandardNodeID_convert_serial_to_num_le64 a) =
     REGISTER_TRANSFORM 9 3 ZL_Type_serial [ZL_Type_numeric] [] (\<lambda>ctx. EI_convert_serial_to_num_le64 ctx a)"
| "ER_standardNodes (ZL_StandardNodeID_convert_serial_to_num_be16 a) =
     REGISTER_TRANSFORM 14 21 ZL_Type_serial [ZL_Type_numeric] [] (\<lambda>ctx. EI_convert_serial_to_num_be16 ctx a)"
| "ER_standardNodes (ZL_StandardNodeID_convert_serial_to_num_be32 a) =
     REGISTER_TRANSFORM 14 21 ZL_Type_serial [ZL_Type_numeric] [] (\<lambda>ctx. EI_convert_serial_to_num_be32 ctx a)"
| "ER_standardNodes (ZL_StandardNodeID_convert_serial_to_num_be64 a) =
     REGISTER_TRANSFORM 14 21 ZL_Type_serial [ZL_Type_numeric] [] (\<lambda>ctx. EI_convert_serial_to_num_be64 ctx a)"
| "ER_standardNodes ZL_StandardNodeID_convert_num_to_serial_le =
     REGISTER_TRANSFORM 10 3 ZL_Type_numeric [ZL_Type_serial] [] (\<lambda>ctx d. Some (EI_convert_num_to_serial_le ctx () d))"
| "ER_standardNodes ZL_StandardNodeID_separate_string_components =
     REGISTER_TRANSFORM 12 10 ZL_Type_string [ZL_Type_serial, ZL_Type_numeric] [] (\<lambda>ctx d. Some (EI_separate_VSF_components ctx () d))"
| "ER_standardNodes (ZL_StandardNodeID_range_pack p) =
     REGISTER_TRANSFORM 35 8 ZL_Type_numeric [ZL_Type_numeric] [] (\<lambda>ctx. EI_rangePack ctx p)"
| "ER_standardNodes (ZL_StandardNodeID_divide_by p) =
     REGISTER_TRANSFORM 53 16 ZL_Type_numeric [ZL_Type_numeric] [] (\<lambda>ctx. EI_divide_by_int ctx p)"
| "ER_standardNodes ZL_StandardNodeID_sentinel_byte =
     REGISTER_TRANSFORM 18 24 ZL_Type_numeric [ZL_Type_numeric, ZL_Type_numeric] [] (\<lambda>ctx d. Some (EI_sentinel_byte ctx () d))"
| "ER_standardNodes (ZL_StandardNodeID_sentinel_num p) =
     REGISTER_TRANSFORM 18 24 ZL_Type_numeric [ZL_Type_numeric, ZL_Type_numeric] [] (\<lambda>ctx d. Some (EI_sentinel ctx p d))"
| "ER_standardNodes ZL_PrivateStandardNodeID_constant_serial =
     REGISTER_TRANSFORM 44 11 ZL_Type_serial [ZL_Type_serial] [] (\<lambda>ctx d. Some (EI_constant_typed ctx () d))"
| "ER_standardNodes ZL_PrivateStandardNodeID_constant_fixed =
     REGISTER_TRANSFORM 45 11 ZL_Type_struct [ZL_Type_struct] [] (\<lambda>ctx d. Some (EI_constant_typed ctx () d))"

text \<open>The table of decoders, with the entries of the other codecs as a parameter.\<close>

definition SDecoders :: "machine \<Rightarrow> (u32 \<Rightarrow> StandardDTransform) \<Rightarrow> u32 \<Rightarrow> StandardDTransform" where
  "SDecoders m others i = (case map_of [
     (1, REGISTER_TTRANSFORM_G 3 ZL_Type_numeric [ZL_Type_numeric] [] (\<lambda>ctx h ins. Some (DI_delta_int (has_simd m) ctx h ins))),
     (3, REGISTER_TTRANSFORM_G 3 ZL_Type_numeric [ZL_Type_numeric] [] (\<lambda>ctx h ins. Some (DI_zigzag_num ctx h ins))),
     (5, REGISTER_TTRANSFORM_G 3 ZL_Type_serial [ZL_Type_struct] [] (\<lambda>ctx h ins. Some (DI_revert_serial_to_struct ctx h ins))),
     (6, REGISTER_TTRANSFORM_G 3 ZL_Type_struct [ZL_Type_serial] [] (\<lambda>ctx h ins. Some (DI_revert_struct_to_serial ctx h ins))),
     (7, REGISTER_TTRANSFORM_G 3 ZL_Type_struct [ZL_Type_numeric] [] (\<lambda>ctx h ins. Some (DI_revert_struct_to_num_le ctx h ins))),
     (8, REGISTER_TTRANSFORM_G 3 ZL_Type_numeric [ZL_Type_struct] [] (\<lambda>ctx h ins. Some (DI_revert_num_to_struct_le (input_aligned m) ctx h ins))),
     (9, REGISTER_TTRANSFORM_G 3 ZL_Type_serial [ZL_Type_numeric] [] (\<lambda>ctx h ins. Some (DI_revert_serial_to_num_le ctx h ins))),
     (10, REGISTER_TTRANSFORM_G 3 ZL_Type_numeric [ZL_Type_serial] [] (\<lambda>ctx h ins. Some (DI_revert_num_to_serial_le (input_aligned m) ctx h ins))),
     (12, REGISTER_TTRANSFORM_G 10 ZL_Type_string [ZL_Type_serial, ZL_Type_numeric] [] (\<lambda>ctx h ins. Some (DI_revert_VSF_separation ctx h ins))),
     (13, REGISTER_TTRANSFORM_G 21 ZL_Type_struct [ZL_Type_numeric] [] (\<lambda>ctx h ins. Some (DI_revert_struct_to_num_be ctx h ins))),
     (14, REGISTER_TTRANSFORM_G 21 ZL_Type_serial [ZL_Type_numeric] [] (\<lambda>ctx h ins. Some (DI_revert_serial_to_num_be ctx h ins))),
     (18, REGISTER_TTRANSFORM_G 24 ZL_Type_numeric [ZL_Type_numeric, ZL_Type_numeric] [] (\<lambda>ctx h ins. Some (DI_sentinel ctx h ins))),
     (35, REGISTER_TTRANSFORM_G 8 ZL_Type_numeric [ZL_Type_numeric] [] DI_rangePack),
     (42, REGISTER_TTRANSFORM_G 9 ZL_Type_serial [ZL_Type_numeric, ZL_Type_numeric] [ZL_Type_serial] DI_dispatchN_byTag),
     (44, REGISTER_TTRANSFORM_G 11 ZL_Type_serial [ZL_Type_serial] [] (DI_constant_typed (has_avx2 m) (\<lambda>n. map (fresh_byte m n) [0..<n]))),
     (45, REGISTER_TTRANSFORM_G 11 ZL_Type_struct [ZL_Type_struct] [] (DI_constant_typed (has_avx2 m) (\<lambda>n. map (fresh_byte m n) [0..<n]))),
     (53, REGISTER_TTRANSFORM_G 16 ZL_Type_numeric [ZL_Type_numeric] [] (\<lambda>ctx h ins. Some (DI_divide_by_int ctx h ins)))] i
     of Some d \<Rightarrow> d | None \<Rightarrow> others i)"

text \<open>Every codec keeps the contract, with the types of its ports.\<close>

interpretation delta_node: typed_codec "\<lambda>ctx p d. Some (EI_delta_int ctx p d)" "\<lambda>ctx h ins. Some (DI_delta_int simd ctx h ins)"
  is_numeric ZL_Type_numeric "[ZL_Type_numeric]" "[]" for simd
  by unfold_locales (auto simp: is_numeric_def EI_delta_int_def Let_def split: if_splits prod.splits)

interpretation zigzag_node: typed_codec "\<lambda>ctx p d. Some (EI_zigzag_num ctx p d)" "\<lambda>ctx h ins. Some (DI_zigzag_num ctx h ins)"
  is_numeric ZL_Type_numeric "[ZL_Type_numeric]" "[]"
  by unfold_locales (auto simp: is_numeric_def EI_zigzag_num_def Let_def)

interpretation dispatch_node: typed_codec EI_dispatchN_byTag DI_dispatchN_byTag is_serial
  ZL_Type_serial "[ZL_Type_numeric, ZL_Type_numeric]" "[ZL_Type_serial]"
proof unfold_locales
  fix d p cctx outs hb
  assume "EI_dispatchN_byTag cctx p d = Some (Inr (outs, hb))"
  then obtain a b c e bufs where "outs = numeric a b # numeric c e # map serial bufs"
    by (auto simp: EI_dispatchN_byTag_def Let_def split: sum.splits if_splits)
  then have "map data_type outs = [ZL_Type_numeric, ZL_Type_numeric] @ concat (replicate (length bufs) [ZL_Type_serial])"
    by (induction bufs arbitrary: outs) auto
  then show "\<exists>k. map data_type outs = [ZL_Type_numeric, ZL_Type_numeric] @ concat (replicate k [ZL_Type_serial])" ..
qed (auto simp: is_serial_def)

interpretation struct2_node: typed_codec "\<lambda>ctx p d. Some (EI_convert_serial_to_struct ctx (map_option (sint :: 32 word \<Rightarrow> int) p) d)"
  "\<lambda>ctx h ins. Some (DI_revert_serial_to_struct ctx h ins)" "is_a ZL_Type_serial" ZL_Type_serial "[ZL_Type_struct]" "[]"
proof unfold_locales
  have b: "sint (x :: 32 word) < 2 ^ 31" for x using sint_lt [of x] by simp
  show "Some (DI_revert_serial_to_struct dctx hb outs) = Some (Inr d)"
    if "is_a ZL_Type_serial d" "Some (EI_convert_serial_to_struct cctx (map_option (sint :: 32 word \<Rightarrow> int) p) d) = Some (Inr (outs, hb))"
    for d cctx p outs hb dctx using serial_to_struct_roundtrip(1) [OF that(1)] that(2) b by fastforce
  show "list_all wf_data outs"
    if "is_a ZL_Type_serial d" "Some (EI_convert_serial_to_struct cctx (map_option (sint :: 32 word \<Rightarrow> int) p) d) = Some (Inr (outs, hb))"
    for d cctx p outs hb using serial_to_struct_roundtrip(2) [OF that(1)] that(2) b by fastforce
qed (auto simp: is_a_def EI_convert_serial_to_struct_def split: option.splits if_splits)

interpretation serial_num_node: typed_codec "\<lambda>ctx a d. convertToNumWithOptionalSwap ctx a d w swap"
  "\<lambda>ctx h ins. Some (convertFromNumWithOptionalSwap ctx ins ZL_Type_serial swap)" "is_a ZL_Type_serial"
  ZL_Type_serial "[ZL_Type_numeric]" "[]" for w swap
  by unfold_locales (auto simp: is_a_def dest: convertToNum_Inr(4))

interpretation struct_num_node: typed_codec "\<lambda>ctx a d. convertToNumWithOptionalSwap ctx a d (eltWidth d) swap"
  "\<lambda>ctx h ins. Some (convertFromNumWithOptionalSwap ctx ins ZL_Type_struct swap)" "is_a ZL_Type_struct"
  ZL_Type_struct "[ZL_Type_numeric]" "[]" for swap
  by unfold_locales (auto simp: is_a_def dest: convertToNum_Inr(4))

interpretation num_serial_node: typed_codec "\<lambda>ctx p d. Some (EI_convert_num_to_serial_le ctx p d)"
  "\<lambda>ctx h ins. Some (DI_revert_num_to_serial_le a ctx h ins)" "is_a ZL_Type_numeric" ZL_Type_numeric "[ZL_Type_serial]" "[]" for a
  by unfold_locales (auto simp: is_a_def EI_convert_num_to_serial_le_def)

interpretation struct_serial_node: typed_codec "\<lambda>ctx p d. Some (EI_convert_struct_to_serial ctx p d)"
  "\<lambda>ctx h ins. Some (DI_revert_struct_to_serial ctx h ins)" "is_a ZL_Type_struct" ZL_Type_struct "[ZL_Type_serial]" "[]"
  by unfold_locales (auto simp: is_a_def EI_convert_struct_to_serial_def)

interpretation num_struct_node: typed_codec "\<lambda>ctx p d. Some (EI_convert_num_to_struct_le ctx p d)"
  "\<lambda>ctx h ins. Some (DI_revert_num_to_struct_le a ctx h ins)" "is_a ZL_Type_numeric" ZL_Type_numeric "[ZL_Type_struct]" "[]" for a
  by unfold_locales (auto simp: is_a_def EI_convert_num_to_struct_le_def)

interpretation separate_node: typed_codec "\<lambda>ctx p d. Some (EI_separate_VSF_components ctx p d)"
  "\<lambda>ctx h ins. Some (DI_revert_VSF_separation ctx h ins)" "is_a ZL_Type_string" ZL_Type_string "[ZL_Type_serial, ZL_Type_numeric]" "[]"
  by unfold_locales (auto simp: is_a_def EI_separate_VSF_components_def Let_def)

interpretation range_pack_node: typed_codec EI_rangePack DI_rangePack is_numeric ZL_Type_numeric "[ZL_Type_numeric]" "[]"
  by unfold_locales (auto simp: is_numeric_def EI_rangePack_def Let_def split: prod.splits sum.splits)

interpretation divide_by_node: typed_codec EI_divide_by_int "\<lambda>ctx h ins. Some (DI_divide_by_int ctx h ins)"
  is_numeric ZL_Type_numeric "[ZL_Type_numeric]" "[]"
  by unfold_locales (auto simp: is_numeric_def EI_divide_by_int_def Let_def split: option.splits sum.splits)

interpretation sentinel_byte_node: typed_codec "\<lambda>ctx p d. Some (EI_sentinel_byte ctx p d)" "\<lambda>ctx h ins. Some (DI_sentinel ctx h ins)"
  is_numeric ZL_Type_numeric "[ZL_Type_numeric, ZL_Type_numeric]" "[]"
  by unfold_locales (auto simp: is_numeric_def EI_sentinel_byte_def Let_def split: if_splits prod.splits)

interpretation sentinel_node: typed_codec "\<lambda>ctx p d. Some (EI_sentinel ctx p d)" "\<lambda>ctx h ins. Some (DI_sentinel ctx h ins)"
  is_numeric ZL_Type_numeric "[ZL_Type_numeric, ZL_Type_numeric]" "[]"
proof unfold_locales
  fix d cctx p outs hb
  assume "Some (EI_sentinel cctx p d) = Some (Inr (outs, hb))"
  then obtain ix s where "(case ZL_sentinelEncode (data_bytes d) (numElts d) (eltWidth d) ix s of
      Inl rc \<Rightarrow> Inl ZL_ErrorCode_GENERIC
    | Inr (values, exceptions) \<Rightarrow> Inr ([numeric (eltWidth d) values, numeric (eltWidth d) exceptions], sendSentinelHeader s (eltWidth d)))
      = Inr (outs, hb)"
    by (auto simp: EI_sentinel_def Let_def split: option.split_asm)
  then have "map data_type outs = [ZL_Type_numeric, ZL_Type_numeric]" by (auto split: sum.split_asm)
  then show "\<exists>k. map data_type outs = [ZL_Type_numeric, ZL_Type_numeric] @ concat (replicate k [])" by simp
qed (auto simp: is_numeric_def)

lemma constant_is_a:
  assumes "t = ZL_Type_serial \<or> t = ZL_Type_struct" "is_a t d" "EI_constant_typed cctx p d = Inr (outs, hb)"
  shows "list_all wf_data outs" "(\<And>n. ctx_alloc dctx n) \<Longrightarrow> DI_constant_typed avx2 (\<lambda>n. map (f n) [0..<n]) dctx hb outs = Some (Inr d)"
proof -
  have "is_fixed d" using assms(1,2) by (auto simp: is_a_def is_fixed_def)
  note c = constant_roundtrip [OF this assms(3)]
  show "list_all wf_data outs" by (rule c(1))
  show "DI_constant_typed avx2 (\<lambda>n. map (f n) [0..<n]) dctx hb outs = Some (Inr d)" if "\<And>n. ctx_alloc dctx n"
    by (rule c(2)) (use that in \<open>simp_all add: fresh_memory_def\<close>)
qed

lemma constant_types: "EI_constant_typed cctx p d = Inr (outs, hb) \<Longrightarrow> map data_type outs = [data_type d]"
  by (auto simp: EI_constant_typed_def Let_def split: if_splits)

lemma constant_typed_codec:
  assumes "t = ZL_Type_serial \<or> t = ZL_Type_struct"
  shows "typed_codec (\<lambda>ctx p d. Some (EI_constant_typed ctx p d)) (DI_constant_typed avx2 (\<lambda>n. map (f n) [0..<n])) (is_a t) t [t] []"
proof unfold_locales
  show "DI_constant_typed avx2 (\<lambda>n. map (f n) [0..<n]) dctx hb outs = Some (Inr d)"
    if "is_a t d" "Some (EI_constant_typed cctx p d) = Some (Inr (outs, hb))" "\<And>n. ctx_alloc dctx n"
    for d cctx and p :: unit and outs hb dctx
    using constant_is_a(2) [OF assms that(1)] that(2,3) by simp
  show "list_all wf_data outs" if "is_a t d" "Some (EI_constant_typed cctx p d) = Some (Inr (outs, hb))"
    for d cctx and p :: unit and outs hb using constant_is_a(1) [OF assms that(1)] that(2) by simp
qed (auto simp: is_a_def dest!: constant_types)

interpretation constant_serial_node: typed_codec "\<lambda>ctx p d. Some (EI_constant_typed ctx p d)"
  "DI_constant_typed avx2 (\<lambda>n. map (f n) [0..<n])" "is_a ZL_Type_serial" ZL_Type_serial "[ZL_Type_serial]" "[]" for avx2 f
  by (rule constant_typed_codec) simp

interpretation constant_fixed_node: typed_codec "\<lambda>ctx p d. Some (EI_constant_typed ctx p d)"
  "DI_constant_typed avx2 (\<lambda>n. map (f n) [0..<n])" "is_a ZL_Type_struct" ZL_Type_struct "[ZL_Type_struct]" "[]" for avx2 f
  by (rule constant_typed_codec) simp

section \<open>Every standard node can be decoded\<close>

lemma SDecoders_entries:
  "SDecoders m others 1 = REGISTER_TTRANSFORM_G 3 ZL_Type_numeric [ZL_Type_numeric] [] (\<lambda>ctx h ins. Some (DI_delta_int (has_simd m) ctx h ins))"
  "SDecoders m others 3 = REGISTER_TTRANSFORM_G 3 ZL_Type_numeric [ZL_Type_numeric] [] (\<lambda>ctx h ins. Some (DI_zigzag_num ctx h ins))"
  "SDecoders m others 5 = REGISTER_TTRANSFORM_G 3 ZL_Type_serial [ZL_Type_struct] [] (\<lambda>ctx h ins. Some (DI_revert_serial_to_struct ctx h ins))"
  "SDecoders m others 6 = REGISTER_TTRANSFORM_G 3 ZL_Type_struct [ZL_Type_serial] [] (\<lambda>ctx h ins. Some (DI_revert_struct_to_serial ctx h ins))"
  "SDecoders m others 7 = REGISTER_TTRANSFORM_G 3 ZL_Type_struct [ZL_Type_numeric] [] (\<lambda>ctx h ins. Some (DI_revert_struct_to_num_le ctx h ins))"
  "SDecoders m others 8 = REGISTER_TTRANSFORM_G 3 ZL_Type_numeric [ZL_Type_struct] [] (\<lambda>ctx h ins. Some (DI_revert_num_to_struct_le (input_aligned m) ctx h ins))"
  "SDecoders m others 9 = REGISTER_TTRANSFORM_G 3 ZL_Type_serial [ZL_Type_numeric] [] (\<lambda>ctx h ins. Some (DI_revert_serial_to_num_le ctx h ins))"
  "SDecoders m others 10 = REGISTER_TTRANSFORM_G 3 ZL_Type_numeric [ZL_Type_serial] [] (\<lambda>ctx h ins. Some (DI_revert_num_to_serial_le (input_aligned m) ctx h ins))"
  "SDecoders m others 12 = REGISTER_TTRANSFORM_G 10 ZL_Type_string [ZL_Type_serial, ZL_Type_numeric] [] (\<lambda>ctx h ins. Some (DI_revert_VSF_separation ctx h ins))"
  "SDecoders m others 13 = REGISTER_TTRANSFORM_G 21 ZL_Type_struct [ZL_Type_numeric] [] (\<lambda>ctx h ins. Some (DI_revert_struct_to_num_be ctx h ins))"
  "SDecoders m others 14 = REGISTER_TTRANSFORM_G 21 ZL_Type_serial [ZL_Type_numeric] [] (\<lambda>ctx h ins. Some (DI_revert_serial_to_num_be ctx h ins))"
  "SDecoders m others 18 = REGISTER_TTRANSFORM_G 24 ZL_Type_numeric [ZL_Type_numeric, ZL_Type_numeric] [] (\<lambda>ctx h ins. Some (DI_sentinel ctx h ins))"
  "SDecoders m others 35 = REGISTER_TTRANSFORM_G 8 ZL_Type_numeric [ZL_Type_numeric] [] DI_rangePack"
  "SDecoders m others 42 = REGISTER_TTRANSFORM_G 9 ZL_Type_serial [ZL_Type_numeric, ZL_Type_numeric] [ZL_Type_serial] DI_dispatchN_byTag"
  "SDecoders m others 44 = REGISTER_TTRANSFORM_G 11 ZL_Type_serial [ZL_Type_serial] [] (DI_constant_typed (has_avx2 m) (\<lambda>n. map (fresh_byte m n) [0..<n]))"
  "SDecoders m others 45 = REGISTER_TTRANSFORM_G 11 ZL_Type_struct [ZL_Type_struct] [] (DI_constant_typed (has_avx2 m) (\<lambda>n. map (fresh_byte m n) [0..<n]))"
  "SDecoders m others 53 = REGISTER_TTRANSFORM_G 16 ZL_Type_numeric [ZL_Type_numeric] [] (\<lambda>ctx h ins. Some (DI_divide_by_int ctx h ins))"
  by (simp_all add: SDecoders_def)

lemma conversion_bindings:
  "EI_convert_serial_to_num8 ctx a = (\<lambda>d. convertToNumWithOptionalSwap ctx a d 1 False)"
  "EI_convert_serial_to_num_le16 ctx a = (\<lambda>d. convertToNumWithOptionalSwap ctx a d 2 False)"
  "EI_convert_serial_to_num_le32 ctx a = (\<lambda>d. convertToNumWithOptionalSwap ctx a d 4 False)"
  "EI_convert_serial_to_num_le64 ctx a = (\<lambda>d. convertToNumWithOptionalSwap ctx a d 8 False)"
  "EI_convert_serial_to_num_be16 ctx a = (\<lambda>d. convertToNumWithOptionalSwap ctx a d 2 True)"
  "EI_convert_serial_to_num_be32 ctx a = (\<lambda>d. convertToNumWithOptionalSwap ctx a d 4 True)"
  "EI_convert_serial_to_num_be64 ctx a = (\<lambda>d. convertToNumWithOptionalSwap ctx a d 8 True)"
  "EI_convert_struct_to_num_le ctx a = (\<lambda>d. convertToNumWithOptionalSwap ctx a d (eltWidth d) False)"
  "EI_convert_struct_to_num_be ctx a = (\<lambda>d. convertToNumWithOptionalSwap ctx a d (eltWidth d) True)"
  by (rule ext, simp add: EI_convert_serial_to_num8_def EI_convert_serial_to_num_le16_def EI_convert_serial_to_num_le32_def
    EI_convert_serial_to_num_le64_def EI_convert_serial_to_num_be16_def EI_convert_serial_to_num_be32_def
    EI_convert_serial_to_num_be64_def EI_convert_struct_to_num_le_def EI_convert_struct_to_num_be_def)+

lemma revert_entries:
  "SDecoders m others 7 = REGISTER_TTRANSFORM_G 3 ZL_Type_struct [ZL_Type_numeric] []
    (\<lambda>ctx h ins. Some (convertFromNumWithOptionalSwap ctx ins ZL_Type_struct False))"
  "SDecoders m others 9 = REGISTER_TTRANSFORM_G 3 ZL_Type_serial [ZL_Type_numeric] []
    (\<lambda>ctx h ins. Some (convertFromNumWithOptionalSwap ctx ins ZL_Type_serial False))"
  "SDecoders m others 13 = REGISTER_TTRANSFORM_G 21 ZL_Type_struct [ZL_Type_numeric] []
    (\<lambda>ctx h ins. Some (convertFromNumWithOptionalSwap ctx ins ZL_Type_struct True))"
  "SDecoders m others 14 = REGISTER_TTRANSFORM_G 21 ZL_Type_serial [ZL_Type_numeric] []
    (\<lambda>ctx h ins. Some (convertFromNumWithOptionalSwap ctx ins ZL_Type_serial True))"
  by (simp_all add: SDecoders_entries DI_revert_struct_to_num_le_def DI_revert_serial_to_num_le_def
    DI_revert_struct_to_num_be_def DI_revert_serial_to_num_be_def)

lemma SDecoders_registered:
  assumes "SDecoders m others i = REGISTER_TTRANSFORM_G minVersion inType sos vos f" "i < 128" "minVersion \<le> v" "v \<le> 27"
    "SDecoders_array tm = SDecoders m others"
  shows "DTM_getTransform tm \<lparr>trt = trt_standard, trid = i\<rparr> v = Inr (dtr (REGISTER_TTRANSFORM_G minVersion inType sos vos f))"
  using assms by (simp add: DTM_getTransform_def DTM_getStandardTransform_def REGISTER_TTRANSFORM_G_def not_le)

lemmas decodable_nodes = struct2_node.registered_decodable delta_node.registered_decodable zigzag_node.registered_decodable dispatch_node.registered_decodable
  serial_num_node.registered_decodable struct_num_node.registered_decodable num_serial_node.registered_decodable
  struct_serial_node.registered_decodable num_struct_node.registered_decodable separate_node.registered_decodable
  range_pack_node.registered_decodable divide_by_node.registered_decodable sentinel_byte_node.registered_decodable sentinel_node.registered_decodable
  constant_serial_node.registered_decodable constant_fixed_node.registered_decodable

lemma serial_to_struct_fixed:
  "(\<lambda>ctx d. Some (EI_convert_serial_to_struct ctx (Some 2) d)) = (\<lambda>ctx d. Some (EI_convert_serial_to_struct ctx (map_option sint (Some (2 :: 32 word))) d))"
  "(\<lambda>ctx d. Some (EI_convert_serial_to_struct ctx (Some 4) d)) = (\<lambda>ctx d. Some (EI_convert_serial_to_struct ctx (map_option sint (Some (4 :: 32 word))) d))"
  "(\<lambda>ctx d. Some (EI_convert_serial_to_struct ctx (Some 8) d)) = (\<lambda>ctx d. Some (EI_convert_serial_to_struct ctx (map_option sint (Some (8 :: 32 word))) d))"
  by simp_all

lemma standard_nodes_decodable:
  assumes tm: "SDecoders_array tm = SDecoders m others" and v: "minFormatVersion (ER_standardNodes n) \<le> v" "v \<le> 27"
    and ctx: "formatVersion dctx = formatVersion ectx" "\<And>n. ctx_alloc dctx n"
  shows "decodable ectx dctx tm v (ER_standardNodes n)"
proof -
  have mv: "minFormatVersion (REGISTER_TRANSFORM i k t so vo f) = k" for i k t so vo f by (simp add: REGISTER_TRANSFORM_def)
  note r = decodable_nodes [OF _ ctx] and e = SDecoders_registered [OF _ _ _ v(2) tm]
  show ?thesis using v(1)
    by (cases n; simp only: ER_standardNodes.simps mv conversion_bindings serial_to_struct_fixed)
      (rule r, rule e, rule SDecoders_entries revert_entries, simp, simp)+
qed

end
