(* ===== verification/Engine_Graph.thy ===== *)
theory Engine_Graph
  imports Registry
begin

text \<open>
  Running graphs (\<^verbatim>\<open>compress/cctx.c\<close>, \<^verbatim>\<open>compress/dyngraph_interface.c\<close>, \<^verbatim>\<open>compress/graph_registry.c\<close>): a graph
  function runs nodes on its edges and gives the others a destination; the engine then runs the
  destinations, depth first, converting the type of an input where the destination needs it.
  Permissive compression, which replaces a graph that failed, is off.
\<close>

section \<open>Graphs\<close>

text \<open>
  A graph function by what it does, one call after the other: \<open>run_node\<close> on edges, whose continuation gets
  the new edges with their content, \<open>set_destination\<close> of edges, or \<open>return_report\<close>. Edges are positions in
  \<^verbatim>\<open>streamCtxs\<close>, the inputs first. A function returns the error of a call that failed.
\<close>

datatype graph_id =
    ZL_GRAPH_SERIAL_STORE
  | ZL_GRAPH_STORE1
  | ZL_GRAPH_STRING_STORE
  | ZL_GRAPH_STORE
  | custom_graph nat

datatype graph_fn =
    run_node "nat list" CNode "(nat \<times> ZL_Data) list \<Rightarrow> graph_fn"
  | set_destination "nat list" graph_id graph_fn
  | return_report "unit ZL_Result"

text \<open>The ports of a graph: the types each accepts, and whether the last may be used many times.\<close>

datatype graph_desc =
    gt_store
  | gt_miGraph "ZL_Type list list" bool "ZL_Data list \<Rightarrow> graph_fn"

primrec inputTypeMasks :: "graph_desc \<Rightarrow> ZL_Type list list" where
  "inputTypeMasks gt_store = [[ZL_Type_serial]]"
| "inputTypeMasks (gt_miGraph masks var f) = masks"

primrec gd_lastInputIsVariable :: "graph_desc \<Rightarrow> bool" where
  "gd_lastInputIsVariable gt_store = False"
| "gd_lastInputIsVariable (gt_miGraph masks var f) = var"

section \<open>Standard graphs\<close>

definition GR_staticGraphWrapper :: "CNode \<Rightarrow> graph_id list \<Rightarrow> ZL_Data list \<Rightarrow> graph_fn" where
  "GR_staticGraphWrapper headNode gidl ins =
     run_node [0..<length ins] headNode (\<lambda>outs.
       foldr (\<lambda>n rest. set_destination [fst (outs ! n)] (gidl ! n) rest) [0..<length outs] (return_report (Inr ())))"

definition GR_selectorWrapper :: "(ZL_Data \<Rightarrow> graph_id) \<Rightarrow> ZL_Data list \<Rightarrow> graph_fn" where
  "GR_selectorWrapper selector_f ins =
     set_destination [0..<length ins] (selector_f (ins ! 0)) (return_report (Inr ()))"

definition MultiInputGraph_store :: "ZL_Data list \<Rightarrow> graph_fn" where
  "MultiInputGraph_store ins =
     foldr (\<lambda>n rest. set_destination [n] ZL_GRAPH_STORE1 rest) [0..<length ins] (return_report (Inr ()))"

definition SI_selector_store :: "ZL_Data \<Rightarrow> graph_id" where
  "SI_selector_store inputStream =
     (if data_type inputStream = ZL_Type_string then ZL_GRAPH_STRING_STORE else ZL_GRAPH_SERIAL_STORE)"

abbreviation (input) ZL_Type_any :: "ZL_Type list" where
  "ZL_Type_any \<equiv> [ZL_Type_serial, ZL_Type_struct, ZL_Type_numeric, ZL_Type_string]"

text \<open>The four graphs that store, and those of the compressor.\<close>

fun GR_standardGraphs :: "(nat \<Rightarrow> graph_desc option) \<Rightarrow> graph_id \<Rightarrow> graph_desc option" where
  "GR_standardGraphs cgraph ZL_GRAPH_SERIAL_STORE = Some gt_store"
| "GR_standardGraphs cgraph ZL_GRAPH_STORE = Some (gt_miGraph [ZL_Type_any] True MultiInputGraph_store)"
| "GR_standardGraphs cgraph ZL_GRAPH_STORE1 = Some (gt_miGraph [ZL_Type_any] False (GR_selectorWrapper SI_selector_store))"
| "GR_standardGraphs cgraph ZL_GRAPH_STRING_STORE =
     Some (gt_miGraph [[ZL_Type_string]] False (GR_staticGraphWrapper (ER_standardNodes ZL_StandardNodeID_separate_string_components)
       [ZL_GRAPH_SERIAL_STORE, ZL_GRAPH_SERIAL_STORE]))"
| "GR_standardGraphs cgraph (custom_graph gid) = cgraph gid"

section \<open>The context of a graph function\<close>

datatype DestSet = sds_unassigned | sds_destSet_trigger | sds_destSet_follow | sds_processed

record DG_StreamCtx =
  rtsid :: nat
  dest_set :: DestSet
  successionPos :: nat

record DestGraphDesc =
  destGid :: graph_id
  dest_rtsids :: "nat list"

record GCtx =
  streamCtxs :: "DG_StreamCtx list"
  dstGraphDescs :: "DestGraphDesc list"

definition SCTX_initInput :: "GCtx \<Rightarrow> nat \<Rightarrow> GCtx" where
  "SCTX_initInput g irtsid =
     g\<lparr>streamCtxs := streamCtxs g @ [\<lparr>rtsid = irtsid, dest_set = sds_unassigned, successionPos = 0\<rparr>]\<rparr>"

text \<open>An edge the function was not given cannot occur: it would be no valid pointer.\<close>

definition ZL_Edge_runMultiInputNode ::
  "codec_ctx \<Rightarrow> ZL_CCtx \<Rightarrow> GCtx \<Rightarrow> nat list \<Rightarrow> CNode \<Rightarrow> ((nat \<times> ZL_Data) list \<times> ZL_CCtx \<times> GCtx) ZL_Result" where
  "ZL_Edge_runMultiInputNode ctx cctx g edges cn =
     (if list_ex (\<lambda>e. length (streamCtxs g) \<le> e) edges \<or> edges = [] then Inl ZL_ErrorCode_logicError
      else if list_ex (\<lambda>e. dest_set (streamCtxs g ! e) \<noteq> sds_unassigned) edges then Inl ZL_ErrorCode_successor_alreadySet
      else
      res_bind (CCTX_runCNode_wParams ctx cctx cn (map (\<lambda>e. rtsid (streamCtxs g ! e)) edges)) (\<lambda>(rtnid, cctx).
      let g = foldl (\<lambda>g e. g\<lparr>streamCtxs := (streamCtxs g)[e := (streamCtxs g ! e)\<lparr>dest_set := sds_processed\<rparr>]\<rparr>) g edges;
          nbOuts = RTGM_getNbOutStreams (rtgraph cctx) rtnid;
          oldNbStreams = length (streamCtxs g);
          rtosids = map (RTGM_getOutStreamID (rtgraph cctx) rtnid) [0..<nbOuts] in
      Inr (map (\<lambda>n. (oldNbStreams + n, the (RTGM_getRStream (rtgraph cctx) (rtosids ! n)))) [0..<nbOuts], cctx,
        g\<lparr>streamCtxs := streamCtxs g @ map (\<lambda>i. \<lparr>rtsid = i, dest_set = sds_unassigned, successionPos = 0\<rparr>) rtosids\<rparr>)))"

primrec assignEdges :: "GCtx \<Rightarrow> bool \<Rightarrow> nat list \<Rightarrow> GCtx ZL_Result" where
  "assignEdges g first [] = Inr g"
| "assignEdges g first (e # es) =
     (if length (streamCtxs g) \<le> e then Inl ZL_ErrorCode_logicError
      else if dest_set (streamCtxs g ! e) \<noteq> sds_unassigned then Inl ZL_ErrorCode_successor_alreadySet
      else assignEdges (g\<lparr>streamCtxs := (streamCtxs g)[e := (streamCtxs g ! e)\<lparr>
        dest_set := (if first then sds_destSet_trigger else sds_destSet_follow),
        successionPos := length (dstGraphDescs g)\<rparr>]\<rparr>) False es)"

definition ZL_Edge_setParameterizedDestination ::
  "(graph_id \<Rightarrow> graph_desc option) \<Rightarrow> GCtx \<Rightarrow> nat list \<Rightarrow> graph_id \<Rightarrow> GCtx ZL_Result" where
  "ZL_Edge_setParameterizedDestination graphs g edges gid =
     (if edges = [] then Inl ZL_ErrorCode_successor_invalidNumInputs
      else case graphs gid of None \<Rightarrow> Inl ZL_ErrorCode_graph_invalid
      | Some fgd \<Rightarrow>
        let numInputs = length (inputTypeMasks fgd) in
        if (if gd_lastInputIsVariable fgd then length edges < numInputs - 1 else length edges \<noteq> numInputs)
          then Inl ZL_ErrorCode_successor_invalidNumInputs
        else
        let ids = map (\<lambda>e. rtsid (streamCtxs g ! e)) edges in
        res_bind (assignEdges g True edges) (\<lambda>g.
        Inr (g\<lparr>dstGraphDescs := dstGraphDescs g @ [\<lparr>destGid = gid, dest_rtsids = ids\<rparr>]\<rparr>)))"

text \<open>\<^verbatim>\<open>GCTX_runMultiInputGraph\<close>: the calls of the graph function, in order.\<close>

primrec GCTX_runMultiInputGraph ::
  "codec_ctx \<Rightarrow> (graph_id \<Rightarrow> graph_desc option) \<Rightarrow> graph_fn \<Rightarrow> ZL_CCtx \<Rightarrow> GCtx \<Rightarrow> (ZL_CCtx \<times> GCtx) ZL_Result" where
  "GCTX_runMultiInputGraph ctx graphs (run_node edges cn k) = (\<lambda>cctx g.
     case ZL_Edge_runMultiInputNode ctx cctx g edges cn of Inl e \<Rightarrow> Inl e
     | Inr (outs, cctx, g) \<Rightarrow> GCTX_runMultiInputGraph ctx graphs (k outs) cctx g)"
| "GCTX_runMultiInputGraph ctx graphs (set_destination edges gid k) = (\<lambda>cctx g.
     case ZL_Edge_setParameterizedDestination graphs g edges gid of Inl e \<Rightarrow> Inl e
     | Inr g \<Rightarrow> GCTX_runMultiInputGraph ctx graphs k cctx g)"
| "GCTX_runMultiInputGraph ctx graphs (return_report r) = (\<lambda>cctx g. case r of Inl e \<Rightarrow> Inl e | Inr _ \<Rightarrow> Inr (cctx, g))"

section \<open>Running a graph\<close>

definition ICONV_implicitConversionNodeID :: "ZL_Type \<Rightarrow> ZL_Type list \<Rightarrow> standard_node option" where
  "ICONV_implicitConversionNodeID srcType dstType =
     (if srcType = ZL_Type_numeric \<and> ZL_Type_struct \<in> set dstType then Some ZL_StandardNodeID_convert_num_to_struct_le
      else if srcType = ZL_Type_struct \<and> ZL_Type_serial \<in> set dstType then Some ZL_StandardNodeID_convert_struct_to_serial
      else if srcType = ZL_Type_numeric \<and> ZL_Type_serial \<in> set dstType then Some ZL_StandardNodeID_convert_num_to_serial_le
      else None)"

definition CCTX_convertInputs_internal ::
  "codec_ctx \<Rightarrow> ZL_CCtx \<Rightarrow> nat \<Rightarrow> ZL_Type \<Rightarrow> ZL_Type list \<Rightarrow> (nat \<times> ZL_CCtx) ZL_Result" where
  "CCTX_convertInputs_internal ctx cctx i inType portTypeMask =
     (case ICONV_implicitConversionNodeID inType portTypeMask of None \<Rightarrow> Inl ZL_ErrorCode_inputType_unsupported
      | Some conversion \<Rightarrow>
        res_bind (CCTX_runCNode_wParams ctx cctx (ER_standardNodes conversion) [i]) (\<lambda>(rtnid, cctx).
        Inr (RTGM_getOutStreamID (rtgraph cctx) rtnid 0, cctx)))"

abbreviation (input) stream_type :: "ZL_CCtx \<Rightarrow> nat \<Rightarrow> ZL_Type" where
  "stream_type cctx i \<equiv> data_type (the (RTGM_getRStream (rtgraph cctx) i))"

primrec CCTX_convertInputs ::
  "codec_ctx \<Rightarrow> ZL_Type list list \<Rightarrow> nat \<Rightarrow> nat list \<Rightarrow> ZL_CCtx \<Rightarrow> (nat list \<times> ZL_CCtx) ZL_Result" where
  "CCTX_convertInputs ctx masks n [] cctx = Inr ([], cctx)"
| "CCTX_convertInputs ctx masks n (i # is) cctx =
     (let inType = stream_type cctx i; nbPorts = length masks;
          mask = masks ! (if nbPorts - 1 \<le> n then nbPorts - 1 else n) in
      res_bind (if inType \<in> set mask then Inr (i, cctx) else CCTX_convertInputs_internal ctx cctx i inType mask) (\<lambda>(j, cctx).
      res_bind (CCTX_convertInputs ctx masks (n + 1) is cctx) (\<lambda>(js, cctx). Inr (j # js, cctx))))"

definition GCTX_checkSuccessors :: "GCtx \<Rightarrow> unit ZL_Result" where
  "GCTX_checkSuccessors g =
     (if list_ex (\<lambda>s. dest_set s = sds_unassigned) (streamCtxs g) then Inl ZL_ErrorCode_successor_invalid else Inr ())"

definition GCTX_getSuccessors :: "GCtx \<Rightarrow> (graph_id \<times> nat list) list" where
  "GCTX_getSuccessors g =
     map (\<lambda>s. let sd = dstGraphDescs g ! successionPos s in (destGid sd, dest_rtsids sd))
       (filter (\<lambda>s. dest_set s = sds_destSet_trigger) (streamCtxs g))"

text \<open>\<open>run\<close> is \<^verbatim>\<open>CCTX_runSuccessor\<close> one level deeper.\<close>

primrec CCTX_runSuccessors ::
  "(graph_id \<Rightarrow> nat list \<Rightarrow> ZL_CCtx \<Rightarrow> ZL_CCtx ZL_Result) \<Rightarrow> (graph_id \<times> nat list) list \<Rightarrow> ZL_CCtx \<Rightarrow> ZL_CCtx ZL_Result" where
  "CCTX_runSuccessors run [] cctx = Inr cctx"
| "CCTX_runSuccessors run (s # ss) cctx =
     res_bind (run (fst s) (snd s) cctx) (\<lambda>cctx. CCTX_runSuccessors run ss cctx)"

definition CCTX_runGraphDesc where
  "CCTX_runGraphDesc ctx graphs run graph_f ids cctx =
     (let g = foldl SCTX_initInput \<lparr>streamCtxs = [], dstGraphDescs = []\<rparr> ids;
          inputs = map (\<lambda>i. the (RTGM_getRStream (rtgraph cctx) i)) ids in
      res_bind (GCTX_runMultiInputGraph ctx graphs (graph_f inputs) cctx g) (\<lambda>(cctx, g).
      res_bind (GCTX_checkSuccessors g) (\<lambda>_.
      CCTX_runSuccessors run (GCTX_getSuccessors g) cctx)))"

definition CCTX_runSupervisedGraphID where
  "CCTX_runSupervisedGraphID ctx graphs run graphid ids cctx =
     (case graphs graphid of None \<Rightarrow> Inl ZL_ErrorCode_graph_invalid
      | Some dstGd \<Rightarrow>
        let masks = inputTypeMasks dstGd; nbPorts = length masks;
            needConversion = list_ex (\<lambda>n. stream_type cctx (ids ! n) \<notin> set (masks ! (if nbPorts \<le> n then nbPorts - 1 else n)))
              [0..<length ids] in
        res_bind (if needConversion then CCTX_convertInputs ctx masks 0 ids cctx else Inr (ids, cctx)) (\<lambda>(ids, cctx).
        case dstGd of gt_store \<Rightarrow> Inr (CCTX_storeStream cctx (ids ! 0))
        | gt_miGraph _ _ graph_f \<Rightarrow> CCTX_runGraphDesc ctx graphs run graph_f ids cctx))"

record GCParams =
  minStreamSize :: int
  segmented :: bool

text \<open>
  \<open>segmented\<close> tells that the chunk is one of a segmenter (\<^verbatim>\<open>numSegments\<close> or \<^verbatim>\<open>segmenterDepth\<close> is not 0). The
  depth is \<^verbatim>\<open>ZL_MAX_GRAPH_DEPTH\<close> minus the first argument, so the recursion ends where the code reports
  that the graph is too deep. A segmenter runs before the first chunk and is no graph here.
\<close>

abbreviation (input) ZL_MAX_GRAPH_DEPTH :: nat where "ZL_MAX_GRAPH_DEPTH \<equiv> 1024"

definition CCTX_runSuccessor_internal where
  "CCTX_runSuccessor_internal ctx graphs params run graphid ids cctx =
     (let d = the (RTGM_getRStream (rtgraph cctx) (ids ! 0)) in
      if graphid \<noteq> ZL_GRAPH_SERIAL_STORE \<and> length ids = 1 \<and> data_type d \<noteq> ZL_Type_string
        \<and> min (int (length (data_bytes d))) 2147483647 < minStreamSize params
      then CCTX_runSupervisedGraphID ctx graphs run ZL_GRAPH_STORE1 ids cctx
      else CCTX_runSupervisedGraphID ctx graphs run graphid ids cctx)"

fun CCTX_runSuccessor ::
  "codec_ctx \<Rightarrow> (graph_id \<Rightarrow> graph_desc option) \<Rightarrow> GCParams \<Rightarrow> nat \<Rightarrow> graph_id \<Rightarrow> nat list \<Rightarrow> ZL_CCtx \<Rightarrow> ZL_CCtx ZL_Result" where
  "CCTX_runSuccessor ctx graphs params 0 graphid ids cctx = Inl ZL_ErrorCode_temporaryLibraryLimitation"
| "CCTX_runSuccessor ctx graphs params (Suc levels) graphid ids cctx =
     (let depth = word_of_nat (ZL_MAX_GRAPH_DEPTH - Suc levels);
          isSegmentable = (ids ! 0 = 0 \<and> length ids = cc_nbInputs cctx \<and> \<not> segmented params \<and> RTGM_getNbNodes (rtgraph cctx) = 0);
          cctx = cctx\<lparr>rtgraph := foldl (\<lambda>g i. RTGM_guardRTStream g i depth) (rtgraph cctx) ids\<rparr> in
      res_bind (CCTX_runSuccessor_internal ctx graphs params (CCTX_runSuccessor ctx graphs params levels) graphid ids cctx) (\<lambda>cctx.
      Inr (if isSegmentable then cctx
           else cctx\<lparr>rtgraph := foldl (\<lambda>g i. RTGM_clearRTStream g i depth) (rtgraph cctx) ids\<rparr>)))"

text \<open>One chunk: the inputs become streams and the starting graph runs at depth 1.\<close>

definition runChunk :: "codec_ctx \<Rightarrow> (graph_id \<Rightarrow> graph_desc option) \<Rightarrow> GCParams \<Rightarrow> graph_id \<Rightarrow> ZL_Data list \<Rightarrow> ZL_CCtx ZL_Result" where
  "runChunk ctx graphs params startGraph inputs =
     res_bind (startChunk (formatVersion ctx) inputs) (\<lambda>cctx.
     CCTX_runSuccessor ctx graphs params (ZL_MAX_GRAPH_DEPTH - 1) startGraph [0..<length inputs] cctx)"

definition CCTX_replaceChunkWithStore :: "codec_ctx \<Rightarrow> (graph_id \<Rightarrow> graph_desc option) \<Rightarrow> GCParams \<Rightarrow> ZL_CCtx \<Rightarrow> ZL_Data list \<Rightarrow> ZL_CCtx ZL_Result" where
  "CCTX_replaceChunkWithStore ctx graphs params cctx inputs =
     (let g = RTGM_clearRTStreamsFrom (RTGM_clearNodesFrom (rtgraph cctx) 0) 0 in
      res_bind (mapInputs (cctx\<lparr>rtgraph := g, stagingHeaderStream := [], sentHeaderStream := []\<rparr>) inputs) (\<lambda>cctx.
      CCTX_runSupervisedGraphID ctx graphs (CCTX_runSuccessor ctx graphs params (ZL_MAX_GRAPH_DEPTH - 2)) ZL_GRAPH_STORE
        [0..<length inputs] cctx))"

end
