(* ===== verification/Engine_Run.thy ===== *)
theory Engine_Run
  imports Engine_Graph "HOL-Library.Multiset"
begin

text \<open>
  Whatever graph the compressor starts with, running it is a session that leaves no stream behind.
\<close>

section \<open>Sessions\<close>

lemma runCNode_id:
  assumes "CCTX_runCNode_wParams ctx cctx cn ids = Inr (rtnid, cctx')"
  shows "rtnid = length (rt_nodes (rtgraph cctx))"
  using assms by (auto simp: CCTX_runCNode_wParams_def RTGM_createNode_def Let_def split: if_splits)

text \<open>A session on well-formed inputs that has at least \<open>n\<close> streams.\<close>

definition reached :: "codec_ctx \<Rightarrow> nat \<Rightarrow> ZL_Data list \<Rightarrow> nat \<Rightarrow> ZL_CCtx \<Rightarrow> nat set \<Rightarrow> bool" where
  "reached ctx v inputs n cctx owned \<longleftrightarrow>
     session ctx v inputs cctx owned \<and> list_all wf_data inputs \<and> n \<le> length (streams (rtgraph cctx))"

lemma owned_stream:
  assumes "reached ctx v inputs n cctx owned" "i \<in> owned"
  obtains d where "RTGM_getRStream (rtgraph cctx) i = Some d" "wf_data d" "i < length (streams (rtgraph cctx))"
proof -
  obtain vals where s: "sound ctx v inputs cctx owned vals"
    using assms(1) session_invariant unfolding reached_def by blast
  note d = soundD [OF s]
  have i: "i < length vals" using d(9) [symmetric] assms(2) by auto
  show ?thesis
    by (rule that [of "vals ! i"]) (use d(1,3,10) i assms(2) in \<open>auto simp: RTGM_getRStream_def list_all_length\<close>)
qed

lemma node_reached:
  assumes s: "reached ctx v inputs n cctx owned" and ids: "set ids \<subseteq> owned" "distinct ids" "ids \<noteq> []"
    and run: "CCTX_runCNode_wParams ctx cctx cn ids = Inr (rtnid, cctx')"
  defines "outs \<equiv> map (RTGM_getOutStreamID (rtgraph cctx') rtnid) [0..<RTGM_getNbOutStreams (rtgraph cctx') rtnid]"
  shows "reached ctx v inputs n cctx' (owned - set ids \<union> set outs)" "distinct outs" "set outs \<inter> owned = {}"
    "\<exists>os h. codec_ran ctx v cn (map (\<lambda>i. the (RTGM_getRStream (rtgraph cctx) i)) ids) os h
      \<and> map (\<lambda>i. the (RTGM_getRStream (rtgraph cctx') i)) outs = slots cn os"
proof -
  have ss: "session ctx v inputs cctx owned" "list_all wf_data inputs" using s by (simp_all add: reached_def)
  obtain vals where so: "sound ctx v inputs cctx owned vals" using session_invariant [OF ss] by blast
  let ?g = "rtgraph cctx" and ?g' = "rtgraph cctx'" and ?T = "length (streams (rtgraph cctx))"
  have ow: "\<forall>i \<in> owned. i < ?T" using soundD(1) [OF so] soundD(9) [OF so, symmetric] by auto
  obtain os h where e: "codec_ran ctx (cc_version cctx) cn (map (\<lambda>i. the (stream (streams ?g ! i))) ids) os h"
      "rt_nodes ?g' = rt_nodes ?g @ [node_of cn ids ?T (length (slots cn os)) (stagingHeaderStream cctx) h]"
      "length (streams ?g') = ?T + length (slots cn os)"
      "\<forall>q < length (slots cn os). \<not> toStore (streams ?g' ! (?T + q))
        \<and> (?T + q \<notin> set ids \<longrightarrow> stream (streams ?g' ! (?T + q)) = Some (slots cn os ! q))"
    using runCNode_effect [OF run] by (elim exE conjE) (rule that; assumption)
  have o: "outs = map ((+) ?T) [0..<length (slots cn os)]"
    using e(2) by (simp add: outs_def RTGM_getOutStreamID_def RTGM_getNbOutStreams_def runCNode_id [OF run] node_of_def)
  have so2: "set outs = {?T..<length (streams ?g')}"
    by (simp add: o e(3) add.commute)
  show "reached ctx v inputs n cctx' (owned - set ids \<union> set outs)"
    unfolding reached_def so2 using session.node [OF ss(1) ids run] s e(3) by (simp add: reached_def)
  show "distinct outs" by (simp add: o distinct_map)
  show "set outs \<inter> owned = {}" using ow so2 by auto
  have "\<forall>q < length (slots cn os). stream (streams ?g' ! (?T + q)) = Some (slots cn os ! q)"
    using e(4) ow ids(1) by fastforce
  then have "map (\<lambda>i. the (RTGM_getRStream ?g' i)) outs = slots cn os"
    by (intro nth_equalityI) (simp_all add: o RTGM_getRStream_def)
  then show "\<exists>os h. codec_ran ctx v cn (map (\<lambda>i. the (RTGM_getRStream ?g i)) ids) os h
      \<and> map (\<lambda>i. the (RTGM_getRStream ?g' i)) outs = slots cn os"
    using e(1) soundD(14) [OF so] by (auto simp: RTGM_getRStream_def)
qed

lemma node_keeps:
  assumes s: "reached ctx v inputs n cctx owned" and ids: "set ids \<subseteq> owned"
    and run: "CCTX_runCNode_wParams ctx cctx cn ids = Inr (rtnid, cctx')" and K: "K = owned - set ids"
  shows "\<forall>k \<in> K. RTGM_getRStream (rtgraph cctx') k = RTGM_getRStream (rtgraph cctx) k"
proof
  fix k assume k: "k \<in> K"
  obtain d where "k < length (streams (rtgraph cctx))" using owned_stream [OF s, of k] k K by blast
  moreover obtain os h where "\<forall>j < length (streams (rtgraph cctx)). toStore (streams (rtgraph cctx') ! j) = toStore (streams (rtgraph cctx) ! j)
        \<and> (j \<notin> set ids \<or> toStore (streams (rtgraph cctx) ! j) \<longrightarrow> stream (streams (rtgraph cctx') ! j) = stream (streams (rtgraph cctx) ! j))"
    using runCNode_effect [OF run] by (elim exE conjE) (rule that; assumption)
  ultimately show "RTGM_getRStream (rtgraph cctx') k = RTGM_getRStream (rtgraph cctx) k"
    using k K by (simp add: RTGM_getRStream_def)
qed

lemma guard_reached:
  assumes "reached ctx v inputs n cctx owned" "set ids \<subseteq> owned"
  shows "reached ctx v inputs n (cctx\<lparr>rtgraph := foldl (\<lambda>g i. RTGM_guardRTStream g i rank) (rtgraph cctx) ids\<rparr>) owned"
  using assms
proof (induction ids arbitrary: cctx)
  case (Cons i ids)
  let ?c = "cctx\<lparr>rtgraph := RTGM_guardRTStream (rtgraph cctx) i rank\<rparr>"
  have "reached ctx v inputs n ?c owned"
    using Cons.prems session.guard [of ctx v inputs cctx owned i rank] by (auto simp: reached_def RTGM_guardRTStream_def)
  from Cons.IH [OF this] Cons.prems(2) show ?case by simp
qed simp

lemma clear_reached:
  assumes "reached ctx v inputs n cctx owned" "set ids \<inter> owned = {}" "\<forall>i \<in> set ids. i < n"
  shows "reached ctx v inputs n (cctx\<lparr>rtgraph := foldl (\<lambda>g i. RTGM_clearRTStream g i rank) (rtgraph cctx) ids\<rparr>) owned"
  using assms
proof (induction ids arbitrary: cctx)
  case (Cons i ids)
  let ?c = "cctx\<lparr>rtgraph := RTGM_clearRTStream (rtgraph cctx) i rank\<rparr>"
  have "length (streams (RTGM_clearRTStream (rtgraph cctx) i rank)) = length (streams (rtgraph cctx))"
    by (simp add: RTGM_clearRTStream_def Let_def)
  then have "reached ctx v inputs n ?c owned"
    using Cons.prems session.clear [of ctx v inputs cctx owned i rank] by (auto simp: reached_def)
  from Cons.IH [OF this] Cons.prems(2,3) show ?case by simp
qed simp

section \<open>Conversions\<close>

text \<open>An implicit conversion has one output, of a type the port accepts.\<close>

lemma conversion_outputs:
  assumes "ICONV_implicitConversionNodeID t pmask = Some nd" "list_all wf_data ins" "codec_ran ctx v (ER_standardNodes nd) ins os h"
  shows "\<exists>d. slots (ER_standardNodes nd) os = [d] \<and> data_type d \<in> set pmask"
proof -
  consider "nd = ZL_StandardNodeID_convert_num_to_struct_le" "ZL_Type_struct \<in> set pmask"
    | "nd = ZL_StandardNodeID_convert_struct_to_serial" "ZL_Type_serial \<in> set pmask"
    | "nd = ZL_StandardNodeID_convert_num_to_serial_le" "ZL_Type_serial \<in> set pmask"
    using assms(1) by (auto simp: ICONV_implicitConversionNodeID_def split: if_splits)
  then have "\<exists>t. map data_type (slots (ER_standardNodes nd) os) = [t] \<and> t \<in> set pmask"
  proof cases
    case 1
    with num_struct_node.registered_outputs [of ins ctx v 8 3 "()" os h] assms(2,3) show ?thesis by auto
  next
    case 2
    with struct_serial_node.registered_outputs [of ins ctx v 6 3 "()" os h] assms(2,3) show ?thesis by auto
  next
    case 3
    with num_serial_node.registered_outputs [of ins ctx v 10 3 "()" os h] assms(2,3) show ?thesis by auto
  qed
  then show ?thesis by auto
qed

lemma convert_one:
  assumes s: "reached ctx v inputs n cctx owned" and i: "i \<in> owned"
    and c: "CCTX_convertInputs_internal ctx cctx i t pmask = Inr (j, cctx')"
  shows "reached ctx v inputs n cctx' (owned - {i} \<union> {j})" "j \<notin> owned" "stream_type cctx' j \<in> set pmask"
    "\<forall>k \<in> owned - {i}. RTGM_getRStream (rtgraph cctx') k = RTGM_getRStream (rtgraph cctx) k"
proof -
  obtain nd rtnid where nd: "ICONV_implicitConversionNodeID t pmask = Some nd"
      "CCTX_runCNode_wParams ctx cctx (ER_standardNodes nd) [i] = Inr (rtnid, cctx')"
      "j = RTGM_getOutStreamID (rtgraph cctx') rtnid 0"
    using c by (auto simp: CCTX_convertInputs_internal_def split: option.splits)
  let ?outs = "map (RTGM_getOutStreamID (rtgraph cctx') rtnid) [0..<RTGM_getNbOutStreams (rtgraph cctx') rtnid]"
  have m: "set [i] \<subseteq> owned" "distinct [i]" "[i] \<noteq> []" using i by simp_all
  note nr = node_reached [OF s m nd(2)]
  obtain os h where os: "codec_ran ctx v (ER_standardNodes nd) (map (\<lambda>i. the (RTGM_getRStream (rtgraph cctx) i)) [i]) os h"
      "map (\<lambda>i. the (RTGM_getRStream (rtgraph cctx') i)) ?outs = slots (ER_standardNodes nd) os"
    using nr(4) by blast
  have "list_all wf_data (map (\<lambda>i. the (RTGM_getRStream (rtgraph cctx) i)) [i])"
    using owned_stream [OF s i] by fastforce
  from conversion_outputs [OF nd(1) this os(1)] obtain d
    where d: "slots (ER_standardNodes nd) os = [d]" "data_type d \<in> set pmask" by blast
  have o: "?outs = [j]" using arg_cong [OF os(2), of length] d(1) nd(3) by (simp add: numeral_eq_Suc)
  show "reached ctx v inputs n cctx' (owned - {i} \<union> {j})" "j \<notin> owned" using nr(1,3) o by simp_all
  show "stream_type cctx' j \<in> set pmask" using os(2) d o by simp
  show "\<forall>k \<in> owned - {i}. RTGM_getRStream (rtgraph cctx') k = RTGM_getRStream (rtgraph cctx) k"
    by (rule node_keeps [OF s m(1) nd(2)]) simp
qed

lemma convert_step:
  assumes s: "reached ctx v inputs n cctx owned" and i: "i \<in> owned"
    and c: "(if stream_type cctx i \<in> set pmask then Inr (i, cctx) else CCTX_convertInputs_internal ctx cctx i (stream_type cctx i) pmask) = Inr (j, c)"
  shows "reached ctx v inputs n c (owned - {i} \<union> {j})" "j = i \<or> j \<notin> owned" "stream_type c j \<in> set pmask"
    "\<forall>k \<in> owned - {i}. RTGM_getRStream (rtgraph c) k = RTGM_getRStream (rtgraph cctx) k"
proof -
  have "reached ctx v inputs n c (owned - {i} \<union> {j}) \<and> (j = i \<or> j \<notin> owned) \<and> stream_type c j \<in> set pmask
    \<and> (\<forall>k \<in> owned - {i}. RTGM_getRStream (rtgraph c) k = RTGM_getRStream (rtgraph cctx) k)"
  proof (cases "stream_type cctx i \<in> set pmask")
    case True
    then have "j = i" "c = cctx" using c by simp_all
    then show ?thesis using True s i by (simp add: insert_absorb)
  next
    case False
    then have "CCTX_convertInputs_internal ctx cctx i (stream_type cctx i) pmask = Inr (j, c)" using c by simp
    from convert_one [OF s i this] show ?thesis by blast
  qed
  then show "reached ctx v inputs n c (owned - {i} \<union> {j})" "j = i \<or> j \<notin> owned" "stream_type c j \<in> set pmask"
    "\<forall>k \<in> owned - {i}. RTGM_getRStream (rtgraph c) k = RTGM_getRStream (rtgraph cctx) k" by blast+
qed

lemma convert_inputs:
  assumes "reached ctx v inputs n cctx owned" "set ids \<subseteq> owned" "distinct ids"
    "CCTX_convertInputs ctx masks m ids cctx = Inr (js, cctx')"
  shows "reached ctx v inputs n cctx' (owned - set ids \<union> set js) \<and> distinct js \<and> length js = length ids
    \<and> set js \<inter> (owned - set ids) = {}
    \<and> (\<forall>k \<in> owned - set ids. RTGM_getRStream (rtgraph cctx') k = RTGM_getRStream (rtgraph cctx) k)
    \<and> (length masks = 1 \<longrightarrow> (\<forall>j \<in> set js. stream_type cctx' j \<in> set (masks ! 0)))"
  using assms
proof (induction ids arbitrary: cctx owned m js)
  case (Cons i ids)
  let ?mask = "masks ! (if length masks - 1 \<le> m then length masks - 1 else m)"
  obtain j c js' where c: "(if stream_type cctx i \<in> set ?mask then Inr (i, cctx) else CCTX_convertInputs_internal ctx cctx i (stream_type cctx i) ?mask) = Inr (j, c)"
      "CCTX_convertInputs ctx masks (m + 1) ids c = Inr (js', cctx')" "js = j # js'"
    using Cons.prems(4) unfolding CCTX_convertInputs.simps Let_def
    by (simp only: res_bind_eq_Inr split_paired_Ex prod.case sum.inject prod.inject) blast
  have i: "i \<in> owned" "i \<notin> set ids" "set ids \<subseteq> owned" "distinct ids" using Cons.prems(2,3) by auto
  have one: "reached ctx v inputs n c (owned - {i} \<union> {j})" "j = i \<or> j \<notin> owned" "stream_type c j \<in> set ?mask"
    "\<forall>k \<in> owned - {i}. RTGM_getRStream (rtgraph c) k = RTGM_getRStream (rtgraph cctx) k"
    by (rule convert_step [OF Cons.prems(1) i(1) c(1)])+
  have sub: "set ids \<subseteq> owned - {i} \<union> {j}" using i by blast
  note IH = Cons.IH [OF one(1) sub i(4) c(2)]
  have j: "j \<notin> set ids" using one(2) i(2,3) by blast
  have eq: "owned - {i} \<union> {j} - set ids = owned - set (i # ids) \<union> {j}" using j by auto
  have "RTGM_getRStream (rtgraph cctx') j = RTGM_getRStream (rtgraph c) j" using IH unfolding eq by blast
  moreover have "set js' \<inter> (owned - set (i # ids) \<union> {j}) = {}" using IH unfolding eq by blast
  moreover have "length masks = 1 \<Longrightarrow> ?mask = masks ! 0" by simp
  moreover have "owned - set (i # ids) \<union> {j} \<union> set js' = owned - set (i # ids) \<union> set js" using c(3) by auto
  moreover have "j \<notin> owned - set (i # ids)" using one(2) by auto
  moreover have "\<forall>k \<in> owned - set (i # ids). RTGM_getRStream (rtgraph cctx') k = RTGM_getRStream (rtgraph cctx) k"
    using IH one(4) unfolding eq by auto
  ultimately show ?case using IH one(3) unfolding eq c(3) by auto
qed auto

section \<open>Graph functions\<close>

text \<open>A graph function that never passes one edge twice to a node.\<close>

primrec no_repeats :: "graph_fn \<Rightarrow> bool" where
  "no_repeats (run_node edges cn k) \<longleftrightarrow> distinct edges \<and> (\<forall>outs. no_repeats (k outs))"
| "no_repeats (set_destination edges gid k) \<longleftrightarrow> no_repeats k"
| "no_repeats (return_report r) \<longleftrightarrow> True"

definition nbInputs_ok :: "(graph_id \<Rightarrow> graph_desc option) \<Rightarrow> graph_id \<Rightarrow> nat \<Rightarrow> bool" where
  "nbInputs_ok graphs gid n \<longleftrightarrow> (\<exists>gd. graphs gid = Some gd \<and>
     (if gd_lastInputIsVariable gd then length (inputTypeMasks gd) - 1 \<le> n else n = length (inputTypeMasks gd)))"

text \<open>
  The edges of a running graph function: those not yet processed are owned streams, no stream is on two
  edges, and the destinations so far take the assigned edges, each once, each triggered by one edge.
\<close>

definition at :: "GCtx \<Rightarrow> (DestSet \<Rightarrow> bool) \<Rightarrow> nat set" where
  "at g P = {e. e < length (streamCtxs g) \<and> P (dest_set (streamCtxs g ! e))}"

definition on_edges :: "GCtx \<Rightarrow> (DestSet \<Rightarrow> bool) \<Rightarrow> nat set" where
  "on_edges g P = (\<lambda>e. rtsid (streamCtxs g ! e)) ` at g P"

abbreviation assigned :: "DestSet \<Rightarrow> bool" where
  "assigned d \<equiv> d = sds_destSet_trigger \<or> d = sds_destSet_follow"

definition edges_ok :: "(graph_id \<Rightarrow> graph_desc option) \<Rightarrow> nat set \<Rightarrow> GCtx \<Rightarrow> bool" where
  "edges_ok graphs others g \<longleftrightarrow>
     inj_on (\<lambda>e. rtsid (streamCtxs g ! e)) (at g (\<lambda>d. d \<noteq> sds_processed)) \<and> on_edges g (\<lambda>d. d \<noteq> sds_processed) \<inter> others = {}
     \<and> distinct (concat (map dest_rtsids (dstGraphDescs g)))
     \<and> set (concat (map dest_rtsids (dstGraphDescs g))) = on_edges g assigned
     \<and> (\<forall>sd \<in> set (dstGraphDescs g). dest_rtsids sd \<noteq> [] \<and> nbInputs_ok graphs (destGid sd) (length (dest_rtsids sd)))
     \<and> bij_betw (\<lambda>e. successionPos (streamCtxs g ! e)) (at g (\<lambda>d. d = sds_destSet_trigger)) {..<length (dstGraphDescs g)}"

lemma edges_okD:
  assumes "edges_ok graphs others g"
  shows "inj_on (\<lambda>e. rtsid (streamCtxs g ! e)) (at g (\<lambda>d. d \<noteq> sds_processed))" "on_edges g (\<lambda>d. d \<noteq> sds_processed) \<inter> others = {}"
    "distinct (concat (map dest_rtsids (dstGraphDescs g)))"
    "set (concat (map dest_rtsids (dstGraphDescs g))) = on_edges g assigned"
    "\<And>sd. sd \<in> set (dstGraphDescs g) \<Longrightarrow> dest_rtsids sd \<noteq> [] \<and> nbInputs_ok graphs (destGid sd) (length (dest_rtsids sd))"
    "bij_betw (\<lambda>e. successionPos (streamCtxs g ! e)) (at g (\<lambda>d. d = sds_destSet_trigger)) {..<length (dstGraphDescs g)}"
  using assms unfolding edges_ok_def by blast+

lemma initInputs:
  "foldl SCTX_initInput g ids = g\<lparr>streamCtxs := streamCtxs g @ map (\<lambda>i. \<lparr>rtsid = i, dest_set = sds_unassigned, successionPos = 0\<rparr>) ids\<rparr>"
  by (induction ids arbitrary: g) (simp_all add: SCTX_initInput_def)

lemma edges_ok_init:
  assumes "distinct ids" "set ids \<inter> others = {}"
  defines "g \<equiv> foldl SCTX_initInput \<lparr>streamCtxs = [], dstGraphDescs = []\<rparr> ids"
  shows "edges_ok graphs others g" "on_edges g (\<lambda>d. d \<noteq> sds_processed) = set ids"
proof -
  have g: "g = \<lparr>streamCtxs = map (\<lambda>i. \<lparr>rtsid = i, dest_set = sds_unassigned, successionPos = 0\<rparr>) ids, dstGraphDescs = []\<rparr>"
    by (simp add: g_def initInputs)
  have a: "at g P = (if P sds_unassigned then {..<length ids} else {})" for P by (auto simp: at_def g)
  show o: "on_edges g (\<lambda>d. d \<noteq> sds_processed) = set ids"
    by (simp add: on_edges_def a) (auto simp: g set_conv_nth image_iff)
  have "inj_on (\<lambda>e. rtsid (streamCtxs g ! e)) {..<length ids}" using assms(1) by (auto simp: inj_on_def g nth_eq_iff_index_eq)
  moreover have "on_edges g assigned = {}" "at g (\<lambda>d. d = sds_destSet_trigger) = {}" by (simp_all add: on_edges_def a)
  moreover have "dstGraphDescs g = []" by (simp add: g)
  ultimately show "edges_ok graphs others g" unfolding edges_ok_def o using assms(2) by (simp add: a bij_betw_def)
qed

text \<open>The nodes a graph function runs.\<close>

lemma processed_edges:
  assumes "\<forall>e \<in> set edges. e < length (streamCtxs g)"
  defines "g' \<equiv> foldl (\<lambda>g e. g\<lparr>streamCtxs := (streamCtxs g)[e := (streamCtxs g ! e)\<lparr>dest_set := sds_processed\<rparr>]\<rparr>) g edges"
  shows "length (streamCtxs g') = length (streamCtxs g)" "dstGraphDescs g' = dstGraphDescs g"
    "\<And>e. e < length (streamCtxs g) \<Longrightarrow> streamCtxs g' ! e =
      (if e \<in> set edges then (streamCtxs g ! e)\<lparr>dest_set := sds_processed\<rparr> else streamCtxs g ! e)"
proof -
  have "length (streamCtxs g') = length (streamCtxs g) \<and> dstGraphDescs g' = dstGraphDescs g
    \<and> (\<forall>e < length (streamCtxs g). streamCtxs g' ! e =
        (if e \<in> set edges then (streamCtxs g ! e)\<lparr>dest_set := sds_processed\<rparr> else streamCtxs g ! e))"
    unfolding g'_def using assms(1) by (induction edges arbitrary: g) (auto simp: nth_list_update)
  then show "length (streamCtxs g') = length (streamCtxs g)" "dstGraphDescs g' = dstGraphDescs g"
    "\<And>e. e < length (streamCtxs g) \<Longrightarrow> streamCtxs g' ! e =
      (if e \<in> set edges then (streamCtxs g ! e)\<lparr>dest_set := sds_processed\<rparr> else streamCtxs g ! e)" by simp_all
qed

lemma run_node_edges:
  assumes ok: "edges_ok graphs others g" and es: "\<forall>e \<in> set edges. e < length (streamCtxs g) \<and> dest_set (streamCtxs g ! e) = sds_unassigned"
    and new: "distinct rtosids" "set rtosids \<inter> (others \<union> on_edges g (\<lambda>d. d \<noteq> sds_processed)) = {}"
  defines "g1 \<equiv> foldl (\<lambda>g e. g\<lparr>streamCtxs := (streamCtxs g)[e := (streamCtxs g ! e)\<lparr>dest_set := sds_processed\<rparr>]\<rparr>) g edges"
    and "ids \<equiv> map (\<lambda>e. rtsid (streamCtxs g ! e)) edges"
  defines "g' \<equiv> g1\<lparr>streamCtxs := streamCtxs g1 @ map (\<lambda>i. \<lparr>rtsid = i, dest_set = sds_unassigned, successionPos = 0\<rparr>) rtosids\<rparr>"
  shows "edges_ok graphs others g'" "on_edges g' (\<lambda>d. d \<noteq> sds_processed) = on_edges g (\<lambda>d. d \<noteq> sds_processed) - set ids \<union> set rtosids"
proof -
  let ?N = "length (streamCtxs g)" and ?K = "length rtosids" and ?op = "\<lambda>d. d \<noteq> sds_processed"
  note p = processed_edges [of edges g, folded g1_def] and k = edges_okD [OF ok]
  have lt: "\<forall>e \<in> set edges. e < ?N" using es by blast
  note p = p [OF lt]
  have old: "streamCtxs g' ! e = (if e \<in> set edges then (streamCtxs g ! e)\<lparr>dest_set := sds_processed\<rparr> else streamCtxs g ! e)" if "e < ?N" for e
    using that p by (simp add: g'_def nth_append)
  have nw: "streamCtxs g' ! (?N + q) = \<lparr>rtsid = rtosids ! q, dest_set = sds_unassigned, successionPos = 0\<rparr>" if "q < ?K" for q
    using that p(1) by (simp add: g'_def nth_append)
  have len: "length (streamCtxs g') = ?N + ?K" using p(1) by (simp add: g'_def)
  have rt: "rtsid (streamCtxs g' ! e) = rtsid (streamCtxs g ! e)" "successionPos (streamCtxs g' ! e) = successionPos (streamCtxs g ! e)"
    if "e < ?N" for e using old [OF that] by simp_all
  have ed: "set edges \<subseteq> at g ?op" using es by (auto simp: at_def)
  have at_op: "at g' ?op = at g ?op - set edges \<union> (+) ?N ` {..<?K}" (is "?L = ?R")
  proof (rule set_eqI)
    fix e
    show "e \<in> ?L \<longleftrightarrow> e \<in> ?R"
    proof (cases "e < ?N")
      case True then show ?thesis by (auto simp: at_def len old)
    next
      case False
      then obtain q where "e = ?N + q" using le_Suc_ex not_less by blast
      then show ?thesis using nw by (auto simp: at_def len)
    qed
  qed
  have at_as: "at g' P = at g P" if "\<not> P sds_processed" "\<not> P sds_unassigned" for P
  proof (rule set_eqI)
    fix e
    show "e \<in> at g' P \<longleftrightarrow> e \<in> at g P"
    proof (cases "e < ?N")
      case True then show ?thesis using that es by (auto simp: at_def len old)
    next
      case False
      then obtain q where "e = ?N + q" using le_Suc_ex not_less by blast
      then show ?thesis using nw that by (auto simp: at_def len)
    qed
  qed
  have in_new: "(\<lambda>e. rtsid (streamCtxs g' ! e)) ` (+) ?N ` {..<?K} = set rtosids"
    using nw by (auto simp: image_iff set_conv_nth)
  have in_old: "(\<lambda>e. rtsid (streamCtxs g' ! e)) ` X = (\<lambda>e. rtsid (streamCtxs g ! e)) ` X" if "X \<subseteq> {..<?N}" for X
    by (rule image_cong) (use rt that in auto)
  have sub: "at g P \<subseteq> {..<?N}" for P by (auto simp: at_def)
  have op: "on_edges g' ?op = on_edges g ?op - set ids \<union> set rtosids"
    unfolding on_edges_def at_op image_Un in_new
    using in_old [of "at g ?op - set edges"] sub inj_on_image_set_diff [OF k(1), of "at g ?op" "set edges"] ed
    by (auto simp: ids_def)
  then show "on_edges g' ?op = on_edges g ?op - set ids \<union> set rtosids" .
  have "inj_on (\<lambda>e. rtsid (streamCtxs g' ! e)) (at g' ?op)"
    unfolding at_op inj_on_Un
  proof (intro conjI)
    show "inj_on (\<lambda>e. rtsid (streamCtxs g' ! e)) (at g ?op - set edges)"
      using inj_on_subset [OF k(1), of "at g ?op - set edges"] sub rt by (auto simp: inj_on_def at_def)
    show "inj_on (\<lambda>e. rtsid (streamCtxs g' ! e)) ((+) ?N ` {..<?K})"
      using new(1) nw by (auto simp: inj_on_def nth_eq_iff_index_eq)
    have "(\<lambda>e. rtsid (streamCtxs g' ! e)) ` (at g ?op - set edges) \<subseteq> on_edges g ?op"
      using in_old [of "at g ?op - set edges"] sub by (auto simp: on_edges_def)
    then show "(\<lambda>e. rtsid (streamCtxs g' ! e)) ` (at g ?op - set edges - (+) ?N ` {..<?K})
      \<inter> (\<lambda>e. rtsid (streamCtxs g' ! e)) ` ((+) ?N ` {..<?K} - (at g ?op - set edges)) = {}"
      using new(2) in_new by blast
  qed
  moreover have "on_edges g' assigned = on_edges g assigned"
    unfolding on_edges_def using at_as [of assigned] in_old [OF sub] by simp
  moreover have "bij_betw (\<lambda>e. successionPos (streamCtxs g' ! e)) (at g' (\<lambda>d. d = sds_destSet_trigger)) {..<length (dstGraphDescs g)}"
    using k(6) at_as [of "\<lambda>d. d = sds_destSet_trigger"] rt(2) by (subst bij_betw_cong [of _ _ "\<lambda>e. successionPos (streamCtxs g ! e)"]) (auto simp: at_def)
  moreover have "dstGraphDescs g' = dstGraphDescs g" using p(2) by (simp add: g'_def)
  ultimately show "edges_ok graphs others g'"
    unfolding edges_ok_def op using k(2-5) new(2) by auto
qed

text \<open>The destinations it sets.\<close>

lemma assignEdges_effect:
  assumes "assignEdges g first es = Inr g'"
  shows "distinct es \<and> (\<forall>e \<in> set es. e < length (streamCtxs g) \<and> dest_set (streamCtxs g ! e) = sds_unassigned)
    \<and> length (streamCtxs g') = length (streamCtxs g) \<and> dstGraphDescs g' = dstGraphDescs g
    \<and> (\<forall>e < length (streamCtxs g). streamCtxs g' ! e = (if e \<in> set es then (streamCtxs g ! e)\<lparr>
          dest_set := (if first \<and> e = hd es then sds_destSet_trigger else sds_destSet_follow),
          successionPos := length (dstGraphDescs g)\<rparr> else streamCtxs g ! e))"
  using assms
proof (induction es arbitrary: g first)
  case (Cons e es)
  let ?g = "g\<lparr>streamCtxs := (streamCtxs g)[e := (streamCtxs g ! e)\<lparr>
        dest_set := (if first then sds_destSet_trigger else sds_destSet_follow), successionPos := length (dstGraphDescs g)\<rparr>]\<rparr>"
  have e: "e < length (streamCtxs g)" "dest_set (streamCtxs g ! e) = sds_unassigned" "assignEdges ?g False es = Inr g'"
    using Cons.prems by (auto split: if_splits)
  note IH = Cons.IH [OF e(3)]
  have ne: "e \<notin> set es" using IH e(1) by (auto split: if_splits)
  have "\<forall>x \<in> set es. x < length (streamCtxs g) \<and> dest_set (streamCtxs g ! x) = sds_unassigned"
  proof
    fix x assume x: "x \<in> set es"
    with ne have "e \<noteq> x" by blast
    with IH [THEN conjunct2, THEN conjunct1, rule_format, OF x]
    show "x < length (streamCtxs g) \<and> dest_set (streamCtxs g ! x) = sds_unassigned" by simp
  qed
  moreover have "streamCtxs g' ! x = (if x \<in> set (e # es) then (streamCtxs g ! x)\<lparr>
          dest_set := (if first \<and> x = hd (e # es) then sds_destSet_trigger else sds_destSet_follow),
          successionPos := length (dstGraphDescs g)\<rparr> else streamCtxs g ! x)" if "x < length (streamCtxs g)" for x
    using IH [THEN conjunct2, THEN conjunct2, THEN conjunct2, THEN conjunct2, rule_format, of x] ne that
    by (cases "x = e") auto
  ultimately show ?case using IH ne e(1,2) by simp
qed simp

lemma set_destination_edges:
  assumes ok: "edges_ok graphs others g" and d: "ZL_Edge_setParameterizedDestination graphs g es gid = Inr g'"
  shows "edges_ok graphs others g'" "on_edges g' (\<lambda>d. d \<noteq> sds_processed) = on_edges g (\<lambda>d. d \<noteq> sds_processed)"
proof -
  let ?ids = "map (\<lambda>e. rtsid (streamCtxs g ! e)) es" and ?op = "\<lambda>d. d \<noteq> sds_processed" and ?N = "length (streamCtxs g)"
    and ?tr = "\<lambda>d. d = sds_destSet_trigger" and ?D = "length (dstGraphDescs g)"
  obtain g1 where g1: "es \<noteq> []" "nbInputs_ok graphs gid (length es)" "assignEdges g True es = Inr g1"
      "g' = g1\<lparr>dstGraphDescs := dstGraphDescs g1 @ [\<lparr>destGid = gid, dest_rtsids = ?ids\<rparr>]\<rparr>"
    using d by (auto simp: ZL_Edge_setParameterizedDestination_def nbInputs_ok_def Let_def split: if_splits option.splits)
  note k = edges_okD [OF ok] and e = assignEdges_effect [OF g1(3)]
  have len: "length (streamCtxs g') = ?N" "dstGraphDescs g' = dstGraphDescs g @ [\<lparr>destGid = gid, dest_rtsids = ?ids\<rparr>]"
    using e g1(4) by simp_all
  have nt: "streamCtxs g' ! x = (if x \<in> set es then (streamCtxs g ! x)\<lparr>dest_set := (if x = hd es then sds_destSet_trigger else sds_destSet_follow),
      successionPos := ?D\<rparr> else streamCtxs g ! x)" if "x < ?N" for x using e g1(4) that by simp
  have rt: "rtsid (streamCtxs g' ! x) = rtsid (streamCtxs g ! x)" if "x < ?N" for x using nt [OF that] by simp
  have es: "set es \<subseteq> at g ?op" "set es \<inter> at g assigned = {}" "set es \<subseteq> {..<?N}" using e by (auto simp: at_def)
  have hd: "hd es \<in> set es" using g1(1) by simp
  have ats: "at g' ?op = at g ?op" "at g' assigned = at g assigned \<union> set es" "at g' ?tr = insert (hd es) (at g ?tr)"
  proof -
    have m: "x \<in> at g' P \<longleftrightarrow> (if x \<in> set es then P (if x = hd es then sds_destSet_trigger else sds_destSet_follow) else x \<in> at g P)" for x P
      using nt [of x] es(3) by (cases "x < ?N") (auto simp: at_def len)
    have u: "x \<in> at g P \<longleftrightarrow> P sds_unassigned" if "x \<in> set es" for x P using e that by (auto simp: at_def)
    show "at g' ?op = at g ?op" by (rule set_eqI) (simp add: m u)
    show "at g' assigned = at g assigned \<union> set es" by (rule set_eqI) (simp add: m u)
    show "at g' ?tr = insert (hd es) (at g ?tr)" by (rule set_eqI) (use hd in \<open>simp add: m u\<close>)
  qed
  have sub: "at g P \<subseteq> {..<?N}" for P by (auto simp: at_def)
  have im: "(\<lambda>e. rtsid (streamCtxs g' ! e)) ` X = (\<lambda>e. rtsid (streamCtxs g ! e)) ` X" if "X \<subseteq> {..<?N}" for X
    by (rule image_cong) (use rt that in auto)
  show op: "on_edges g' ?op = on_edges g ?op" unfolding on_edges_def ats im [OF sub] ..
  have as: "on_edges g' assigned = on_edges g assigned \<union> set ?ids"
    using im [of "at g assigned \<union> set es"] es(3) sub unfolding on_edges_def ats by (simp add: image_Un)
  have as_op: "at g assigned \<subseteq> at g ?op" by (auto simp: at_def)
  have dis: "set ?ids \<inter> on_edges g assigned = {}"
    using inj_on_image_Int [OF k(1) es(1) as_op] es(2) by (simp add: on_edges_def)
  have "inj_on (\<lambda>e. rtsid (streamCtxs g' ! e)) (at g' ?op)"
    unfolding ats using k(1) rt by (auto simp: inj_on_def at_def)
  moreover have "distinct ?ids" using e inj_on_subset [OF k(1) es(1)] by (simp add: distinct_map)
  moreover have "bij_betw (\<lambda>e. successionPos (streamCtxs g' ! e)) (at g' ?tr) {..<Suc ?D}"
  proof -
    have "hd es \<notin> at g ?tr" using es(2) hd by (auto simp: at_def)
    moreover have "successionPos (streamCtxs g' ! hd es) = ?D" using nt [of "hd es"] hd es(3) by auto
    moreover have "bij_betw (\<lambda>e. successionPos (streamCtxs g' ! e)) (at g ?tr) {..<?D}"
      by (subst bij_betw_cong [of _ _ "\<lambda>e. successionPos (streamCtxs g ! e)"]) (use k(6) nt es(2) in \<open>auto simp: at_def\<close>)
    ultimately show ?thesis
      using notIn_Un_bij_betw [of "hd es" "at g ?tr" "\<lambda>e. successionPos (streamCtxs g' ! e)" "{..<?D}"] by (simp add: ats lessThan_Suc)
  qed
  ultimately show "edges_ok graphs others g'"
    unfolding edges_ok_def op as len using k(2-5) g1(1,2) dis by auto
qed

section \<open>Running a graph\<close>

lemma graph_fn_reached:
  assumes "reached ctx v inputs n cctx (others \<union> on_edges g (\<lambda>d. d \<noteq> sds_processed))" "edges_ok graphs others g" "no_repeats p"
    "GCTX_runMultiInputGraph ctx graphs p cctx g = Inr (cctx', g')"
  shows "reached ctx v inputs n cctx' (others \<union> on_edges g' (\<lambda>d. d \<noteq> sds_processed)) \<and> edges_ok graphs others g'"
  using assms
proof (induction p arbitrary: cctx g)
  case (run_node edges cn k)
  let ?op = "\<lambda>d. d \<noteq> sds_processed"
  obtain outs c g1 where r: "ZL_Edge_runMultiInputNode ctx cctx g edges cn = Inr (outs, c, g1)"
      "GCTX_runMultiInputGraph ctx graphs (k outs) c g1 = Inr (cctx', g')"
    using run_node.prems(4) by (auto split: sum.splits)
  have e: "edges \<noteq> []" "\<forall>e \<in> set edges. e < length (streamCtxs g) \<and> dest_set (streamCtxs g ! e) = sds_unassigned"
    using r(1) by (auto simp: ZL_Edge_runMultiInputNode_def list_ex_iff split: if_splits)
  let ?ids = "map (\<lambda>e. rtsid (streamCtxs g ! e)) edges"
  obtain rtnid where c: "CCTX_runCNode_wParams ctx cctx cn ?ids = Inr (rtnid, c)"
    using r(1) by (auto simp: ZL_Edge_runMultiInputNode_def Let_def split: if_splits)
  let ?rt = "map (RTGM_getOutStreamID (rtgraph c) rtnid) [0..<RTGM_getNbOutStreams (rtgraph c) rtnid]"
  let ?g = "foldl (\<lambda>g e. g\<lparr>streamCtxs := (streamCtxs g)[e := (streamCtxs g ! e)\<lparr>dest_set := sds_processed\<rparr>]\<rparr>) g edges"
  have g1: "g1 = ?g\<lparr>streamCtxs := streamCtxs ?g @ map (\<lambda>i. \<lparr>rtsid = i, dest_set = sds_unassigned, successionPos = 0\<rparr>) ?rt\<rparr>"
    using r(1) c by (auto simp: ZL_Edge_runMultiInputNode_def Let_def split: if_splits)
  have ed: "set edges \<subseteq> at g ?op" using e(2) by (auto simp: at_def)
  have ids: "set ?ids \<subseteq> others \<union> on_edges g ?op" "distinct ?ids" "?ids \<noteq> []"
    using ed e(1) run_node.prems(3) inj_on_subset [OF edges_okD(1) [OF run_node.prems(2)] ed]
    by (auto simp: on_edges_def distinct_map)
  note nr = node_reached [OF run_node.prems(1) ids c]
  have new: "set ?rt \<inter> (others \<union> on_edges g ?op) = {}" by (rule nr(3))
  note en = run_node_edges [OF run_node.prems(2) e(2) nr(2) new, folded g1]
  have "set ?ids \<inter> others = {}" using ed edges_okD(2) [OF run_node.prems(2)] by (auto simp: on_edges_def)
  then have "others \<union> on_edges g ?op - set ?ids \<union> set ?rt = others \<union> on_edges g1 ?op" unfolding en(2) by blast
  then have "reached ctx v inputs n c (others \<union> on_edges g1 ?op)" using nr(1) by simp
  from run_node.IH [OF _ this en(1) _ r(2)] run_node.prems(3) show ?case by simp
next
  case (set_destination es gid p)
  obtain g1 where g1: "ZL_Edge_setParameterizedDestination graphs g es gid = Inr g1" "GCTX_runMultiInputGraph ctx graphs p cctx g1 = Inr (cctx', g')"
    using set_destination.prems(4) by (auto split: sum.splits)
  note sd = set_destination_edges [OF set_destination.prems(2) g1(1)]
  show ?case
    by (rule set_destination.IH [OF _ sd(1) _ g1(2)]) (use set_destination.prems(1,3) sd(2) in simp_all)
next
  case (return_report r)
  then show ?case by (auto split: sum.splits)
qed

text \<open>\<open>run\<close> takes the streams it is given and leaves the others alone.\<close>

definition takes :: "codec_ctx \<Rightarrow> nat \<Rightarrow> ZL_Data list \<Rightarrow> (graph_id \<Rightarrow> graph_desc option)
    \<Rightarrow> (graph_id \<Rightarrow> nat list \<Rightarrow> ZL_CCtx \<Rightarrow> ZL_CCtx ZL_Result) \<Rightarrow> bool" where
  "takes ctx v inputs graphs run \<longleftrightarrow> (\<forall>n gid ids c c' owned. reached ctx v inputs n c owned \<longrightarrow> set ids \<subseteq> owned \<longrightarrow> distinct ids
     \<longrightarrow> ids \<noteq> [] \<longrightarrow> nbInputs_ok graphs gid (length ids) \<longrightarrow> run gid ids c = Inr c' \<longrightarrow> reached ctx v inputs n c' (owned - set ids))"

lemma successors_reached:
  assumes "takes ctx v inputs graphs run" "reached ctx v inputs n c owned" "distinct (concat (map snd ss))"
    "set (concat (map snd ss)) \<subseteq> owned" "\<forall>s \<in> set ss. snd s \<noteq> [] \<and> nbInputs_ok graphs (fst s) (length (snd s))"
    "CCTX_runSuccessors run ss c = Inr c'"
  shows "reached ctx v inputs n c' (owned - set (concat (map snd ss)))"
  using assms(2-)
proof (induction ss arbitrary: c owned)
  case (Cons s ss)
  obtain c1 where c1: "run (fst s) (snd s) c = Inr c1" "CCTX_runSuccessors run ss c1 = Inr c'" using Cons.prems(5) by auto
  have "reached ctx v inputs n c1 (owned - set (snd s))"
    using assms(1) [unfolded takes_def, rule_format, OF Cons.prems(1) _ _ _ _ c1(1)] Cons.prems(2-4) by simp
  moreover have "set (concat (map snd ss)) \<subseteq> owned - set (snd s)" using Cons.prems(2,3) by auto
  ultimately have "reached ctx v inputs n c' (owned - set (snd s) - set (concat (map snd ss)))"
    using Cons.IH [OF _ _ _ _ c1(2)] Cons.prems(2,4) by simp
  then show ?case by (simp add: Diff_eq Int_assoc Un_commute)
qed simp

lemma distinct_filter_map:
  assumes "inj_on (\<lambda>e. f (xs ! e)) {e. e < length xs \<and> P (xs ! e)}"
  shows "distinct (map f (filter P xs))" "set (map f (filter P xs)) = (\<lambda>e. f (xs ! e)) ` {e. e < length xs \<and> P (xs ! e)}"
proof -
  have "map f (filter P xs) = map (\<lambda>e. f (xs ! e)) (filter (\<lambda>e. P (xs ! e)) [0..<length xs])"
    by (subst (1) map_nth [of xs, symmetric]) (simp add: filter_map comp_def del: map_nth)
  then show "distinct (map f (filter P xs))" "set (map f (filter P xs)) = (\<lambda>e. f (xs ! e)) ` {e. e < length xs \<and> P (xs ! e)}"
    using assms by (auto simp: distinct_map inj_on_def)
qed

lemma getSuccessors_ok:
  assumes ok: "edges_ok graphs others g" and chk: "GCTX_checkSuccessors g = Inr ()"
  defines "ss \<equiv> GCTX_getSuccessors g"
  shows "distinct (concat (map snd ss))" "set (concat (map snd ss)) = on_edges g (\<lambda>d. d \<noteq> sds_processed)"
    "\<forall>s \<in> set ss. snd s \<noteq> [] \<and> nbInputs_ok graphs (fst s) (length (snd s))"
proof -
  note k = edges_okD [OF ok]
  let ?ps = "map successionPos (filter (\<lambda>s. dest_set s = sds_destSet_trigger) (streamCtxs g))" and ?ds = "dstGraphDescs g"
  have b: "inj_on (\<lambda>e. successionPos (streamCtxs g ! e)) {e. e < length (streamCtxs g) \<and> dest_set (streamCtxs g ! e) = sds_destSet_trigger}"
    "(\<lambda>e. successionPos (streamCtxs g ! e)) ` {e. e < length (streamCtxs g) \<and> dest_set (streamCtxs g ! e) = sds_destSet_trigger} = {..<length ?ds}"
    using k(6) by (simp_all add: bij_betw_def at_def)
  have ps: "distinct ?ps" "set ?ps = {..<length ?ds}" using distinct_filter_map [OF b(1)] b(2) by simp_all
  have perm: "mset ?ps = mset [0..<length ?ds]"
    using ps by (intro set_eq_iff_mset_eq_distinct [THEN iffD1]) auto
  have ss: "ss = map (\<lambda>p. (destGid (?ds ! p), dest_rtsids (?ds ! p))) ?ps"
    by (simp add: ss_def GCTX_getSuccessors_def Let_def comp_def)
  have "mset (map snd ss) = mset (map (\<lambda>p. dest_rtsids (?ds ! p)) [0..<length ?ds])"
    using arg_cong [OF perm, of "image_mset (\<lambda>p. dest_rtsids (?ds ! p))"] by (simp add: ss comp_def image_mset.compositionality)
  also have "map (\<lambda>p. dest_rtsids (?ds ! p)) [0..<length ?ds] = map dest_rtsids ?ds"
    by (rule nth_equalityI) simp_all
  finally have "image_mset mset (mset (map snd ss)) = image_mset mset (mset (map dest_rtsids ?ds))" by simp
  then have m: "mset (concat (map snd ss)) = mset (concat (map dest_rtsids ?ds))"
    by (simp only: mset_concat mset_map [symmetric]) (metis sum_mset_sum_list)
  show "distinct (concat (map snd ss))" using k(3) mset_eq_imp_distinct_iff [OF m] by blast
  have un: "dest_set (streamCtxs g ! e) \<noteq> sds_unassigned" if "e < length (streamCtxs g)" for e
    using chk that by (simp add: GCTX_checkSuccessors_def list_ex_length split: if_splits)
  have "at g (\<lambda>d. d \<noteq> sds_processed) = at g assigned"
  proof (rule set_eqI)
    fix e
    show "e \<in> at g (\<lambda>d. d \<noteq> sds_processed) \<longleftrightarrow> e \<in> at g assigned"
      using un [of e] by (cases "dest_set (streamCtxs g ! e)") (auto simp: at_def)
  qed
  then have "on_edges g (\<lambda>d. d \<noteq> sds_processed) = on_edges g assigned" by (simp add: on_edges_def)
  then show "set (concat (map snd ss)) = on_edges g (\<lambda>d. d \<noteq> sds_processed)" using k(4) mset_eq_setD [OF m] by simp
  show "\<forall>s \<in> set ss. snd s \<noteq> [] \<and> nbInputs_ok graphs (fst s) (length (snd s))"
  proof
    fix s assume "s \<in> set ss"
    then obtain p where "p \<in> set ?ps" "s = (destGid (?ds ! p), dest_rtsids (?ds ! p))" unfolding ss by force
    then show "snd s \<noteq> [] \<and> nbInputs_ok graphs (fst s) (length (snd s))" using k(5) [of "?ds ! p"] ps(2) by simp
  qed
qed

definition graphs_ok :: "(graph_id \<Rightarrow> graph_desc option) \<Rightarrow> bool" where
  "graphs_ok graphs \<longleftrightarrow> (\<forall>gid masks var f ins. graphs gid = Some (gt_miGraph masks var f) \<longrightarrow> no_repeats (f ins))
     \<and> nbInputs_ok graphs ZL_GRAPH_STORE1 1"

lemma graphDesc_reached:
  assumes tk: "takes ctx v inputs graphs run" and s: "reached ctx v inputs n c owned"
    and ids: "set ids \<subseteq> owned" "distinct ids" and rep: "\<And>ins. no_repeats (f ins)"
    and r: "CCTX_runGraphDesc ctx graphs run f ids c = Inr c'"
  shows "reached ctx v inputs n c' (owned - set ids)"
proof -
  let ?op = "\<lambda>d. d \<noteq> sds_processed" and ?others = "owned - set ids"
  let ?g = "foldl SCTX_initInput \<lparr>streamCtxs = [], dstGraphDescs = []\<rparr> ids"
  obtain c1 g1 where g1: "GCTX_runMultiInputGraph ctx graphs (f (map (\<lambda>i. the (RTGM_getRStream (rtgraph c) i)) ids)) c ?g = Inr (c1, g1)"
      "GCTX_checkSuccessors g1 = Inr ()" "CCTX_runSuccessors run (GCTX_getSuccessors g1) c1 = Inr c'"
    using r by (auto simp: CCTX_runGraphDesc_def Let_def)
  have i: "edges_ok graphs ?others ?g" "on_edges ?g ?op = set ids"
    using edges_ok_init [OF ids(2), of ?others] by auto
  have "?others \<union> on_edges ?g ?op = owned" using ids(1) i(2) by blast
  then have s1: "reached ctx v inputs n c (?others \<union> on_edges ?g ?op)" using s by simp
  note gf = graph_fn_reached [OF s1 i(1) rep g1(1)]
  note ss = getSuccessors_ok [OF conjunct2 [OF gf] g1(2)]
  have "set (concat (map snd (GCTX_getSuccessors g1))) \<subseteq> ?others \<union> on_edges g1 ?op" using ss(2) by blast
  from successors_reached [OF tk conjunct1 [OF gf] ss(1) this ss(3) g1(3)]
  have "reached ctx v inputs n c' (?others \<union> on_edges g1 ?op - on_edges g1 ?op)" unfolding ss(2) .
  moreover have "?others \<union> on_edges g1 ?op - on_edges g1 ?op = ?others" using edges_okD(2) [OF conjunct2 [OF gf]] by blast
  ultimately show ?thesis by simp
qed

lemma supervised_reached:
  assumes tk: "takes ctx v inputs graphs run" and ok: "graphs_ok graphs" and s: "reached ctx v inputs n c owned"
    and ids: "set ids \<subseteq> owned" "distinct ids" "ids \<noteq> []" "nbInputs_ok graphs gid (length ids)"
    and r: "CCTX_runSupervisedGraphID ctx graphs run gid ids c = Inr c'"
  shows "reached ctx v inputs n c' (owned - set ids)"
proof -
  obtain gd where gd: "graphs gid = Some gd" using ids(4) by (auto simp: nbInputs_ok_def)
  let ?masks = "inputTypeMasks gd"
  let ?need = "list_ex (\<lambda>m. stream_type c (ids ! m) \<notin> set (?masks ! (if length ?masks \<le> m then length ?masks - 1 else m))) [0..<length ids]"
  obtain js c1 where j: "(if ?need then CCTX_convertInputs ctx ?masks 0 ids c else Inr (ids, c)) = Inr (js, c1)"
      "(case gd of gt_store \<Rightarrow> Inr (CCTX_storeStream c1 (js ! 0))
        | gt_miGraph _ _ graph_f \<Rightarrow> CCTX_runGraphDesc ctx graphs run graph_f js c1) = Inr c'"
    using r gd unfolding CCTX_runSupervisedGraphID_def Let_def
    by (simp only: option.case res_bind_eq_Inr split_paired_Ex prod.case) blast
  have c1: "reached ctx v inputs n c1 (owned - set ids \<union> set js) \<and> distinct js \<and> length js = length ids
      \<and> set js \<inter> (owned - set ids) = {} \<and> (length ?masks = 1 \<and> length ids = 1 \<longrightarrow> (\<forall>j \<in> set js. stream_type c1 j \<in> set (?masks ! 0)))"
  proof (cases ?need)
    case True
    then show ?thesis using convert_inputs [OF s ids(1,2), of ?masks 0 js c1] j(1) by simp
  next
    case False
    moreover from this have "js = ids" "c1 = c" using j(1) by auto
    moreover have "owned - set ids \<union> set ids = owned" using ids(1) by blast
    ultimately show ?thesis using s ids(2) by (auto simp: list_ex_length length_Suc_conv)
  qed
  have o: "owned - set ids \<union> set js - set js = owned - set ids" using c1 by blast
  show ?thesis
  proof (cases gd)
    case gt_store
    then obtain j where js: "js = [j]" using ids(4) gd c1 by (auto simp: nbInputs_ok_def length_Suc_conv)
    have ty: "stream_type c1 j = ZL_Type_serial" using c1 gt_store js by simp
    obtain d where "RTGM_getRStream (rtgraph c1) j = Some d" 
      by (rule owned_stream [OF conjunct1 [OF c1], of j]) (use js in auto)
    then have "session ctx v inputs (CCTX_storeStream c1 j) (owned - set ids \<union> set js - {j})"
      using c1 ty js by (intro session.store) (auto simp: reached_def)
    moreover have "c' = CCTX_storeStream c1 j" using j(2) gt_store js by simp
    ultimately show ?thesis using c1 o js by (simp add: reached_def CCTX_storeStream_def RTGM_storeStream_def)
  next
    case (gt_miGraph masks var f)
    then have "CCTX_runGraphDesc ctx graphs run f js c1 = Inr c'" using j(2) by simp
    moreover have "no_repeats (f ins)" for ins using ok gd gt_miGraph by (auto simp: graphs_ok_def)
    ultimately have "reached ctx v inputs n c' (owned - set ids \<union> set js - set js)"
      using graphDesc_reached [OF tk conjunct1 [OF c1], of js f c'] c1 by blast
    then show ?thesis unfolding o .
  qed
qed

lemma runSuccessor_takes:
  assumes ok: "graphs_ok graphs"
  shows "takes ctx v inputs graphs (CCTX_runSuccessor ctx graphs params levels)"
proof (induction levels)
  case (Suc levels)
  show ?case unfolding takes_def
  proof (intro allI impI)
    fix n gid ids c c' owned
    assume s: "reached ctx v inputs n c owned" and ids: "set ids \<subseteq> owned" "distinct ids" "ids \<noteq> []" "nbInputs_ok graphs gid (length ids)"
      and r: "CCTX_runSuccessor ctx graphs params (Suc levels) gid ids c = Inr c'"
    let ?rank = "word_of_nat (ZL_MAX_GRAPH_DEPTH - Suc levels) :: u32"
    let ?c1 = "c\<lparr>rtgraph := foldl (\<lambda>g i. RTGM_guardRTStream g i ?rank) (rtgraph c) ids\<rparr>" and ?N = "length (streams (rtgraph c))"
    have sN: "reached ctx v inputs ?N c owned" "n \<le> ?N" using s by (simp_all add: reached_def)
    have lt: "\<forall>i \<in> set ids. i < ?N" using owned_stream [OF s] ids(1) by blast
    have g: "reached ctx v inputs ?N ?c1 owned" by (rule guard_reached [OF sN(1) ids(1)])
    obtain c2 where c2: "CCTX_runSuccessor_internal ctx graphs params (CCTX_runSuccessor ctx graphs params levels) gid ids ?c1 = Inr c2"
        "c' = c2 \<or> c' = c2\<lparr>rtgraph := foldl (\<lambda>g i. RTGM_clearRTStream g i ?rank) (rtgraph c2) ids\<rparr>"
      using r by (auto simp: Let_def)
    have "\<exists>gid'. nbInputs_ok graphs gid' (length ids) \<and> CCTX_runSupervisedGraphID ctx graphs (CCTX_runSuccessor ctx graphs params levels) gid' ids ?c1 = Inr c2"
      using c2(1) ids(4) ok by (auto simp: CCTX_runSuccessor_internal_def graphs_ok_def Let_def split: if_splits)
    then have s2: "reached ctx v inputs ?N c2 (owned - set ids)" using supervised_reached [OF Suc ok g ids(1-3)] by blast
    have "reached ctx v inputs ?N c' (owned - set ids)"
      using c2(2) s2 clear_reached [OF s2, of ids] lt by auto
    then show "reached ctx v inputs n c' (owned - set ids)" using sN(2) by (simp add: reached_def)
  qed
qed (simp add: takes_def)

section \<open>The graph of a chunk\<close>

definition graph_fns_ok :: "(nat \<Rightarrow> graph_desc option) \<Rightarrow> bool" where
  "graph_fns_ok cgraph \<longleftrightarrow> (\<forall>gid masks var f ins. cgraph gid = Some (gt_miGraph masks var f) \<longrightarrow> no_repeats (f ins))"

lemma graphs_ok_standard:
  assumes "graph_fns_ok cgraph"
  shows "graphs_ok (GR_standardGraphs cgraph)"
proof -
  have d: "no_repeats (foldr (\<lambda>n rest. set_destination (f n) (h n) rest) ns (return_report r))" for f h ns r
    by (induction ns) simp_all
  have "no_repeats (f ins)" if "GR_standardGraphs cgraph gid = Some (gt_miGraph masks var f)" for gid masks var f ins
    using that assms by (cases gid) (auto simp: graph_fns_ok_def GR_selectorWrapper_def GR_staticGraphWrapper_def MultiInputGraph_store_def d)
  then show ?thesis by (simp add: graphs_ok_def nbInputs_ok_def)
qed

lemma runChunk_session:
  assumes ok: "graphs_ok graphs" and wf: "list_all wf_data inputs" and nb: "nbInputs_ok graphs startGraph (length inputs)"
    and r: "runChunk ctx graphs params startGraph inputs = Inr cctx"
  shows "session ctx (formatVersion ctx) inputs cctx {}"
proof -
  obtain c where c: "inputs \<noteq> []" "mapInputs \<lparr>rtgraph = RTGM_init, stagingHeaderStream = [], sentHeaderStream = [],
        cc_version = formatVersion ctx, cc_nbInputs = length inputs\<rparr> inputs = Inr c"
      "CCTX_runSuccessor ctx graphs params 1023 startGraph [0..<length inputs] c = Inr cctx"
    using r by (auto simp: runChunk_def startChunk_def split: if_splits)
  have "session ctx (formatVersion ctx) inputs c {..<length inputs}"
    by (rule session.start [OF _ c(1,2)]) (simp add: cleanChunk_def RTGM_init_def)
  then have s: "reached ctx (formatVersion ctx) inputs 0 c {..<length inputs}" using wf by (simp add: reached_def)
  have "reached ctx (formatVersion ctx) inputs 0 cctx ({..<length inputs} - set [0..<length inputs])"
    by (rule runSuccessor_takes [OF ok, unfolded takes_def, rule_format, OF s _ _ _ _ c(3)]) (use c(1) nb in auto)
  then show ?thesis by (simp add: reached_def atLeast0LessThan)
qed

lemma storeChunk_session:
  assumes ok: "graphs_ok graphs" and wf: "list_all wf_data inputs" and nb: "nbInputs_ok graphs ZL_GRAPH_STORE (length inputs)"
    and cc: "cc_version c0 = v" "cc_nbInputs c0 = length inputs" and inp: "inputs \<noteq> []"
    and r: "CCTX_replaceChunkWithStore ctx graphs params c0 inputs = Inr cctx"
  shows "session ctx v inputs cctx {}"
proof -
  let ?g = "RTGM_clearRTStreamsFrom (RTGM_clearNodesFrom (rtgraph c0) 0) 0"
  obtain c where c: "mapInputs (c0\<lparr>rtgraph := ?g, stagingHeaderStream := [], sentHeaderStream := []\<rparr>) inputs = Inr c"
      "CCTX_runSupervisedGraphID ctx graphs (CCTX_runSuccessor ctx graphs params 1022) ZL_GRAPH_STORE [0..<length inputs] c = Inr cctx"
    using r by (auto simp: CCTX_replaceChunkWithStore_def)
  have "session ctx v inputs c {..<length inputs}"
    by (rule session.start [OF _ inp c(1)]) (use cc in \<open>simp add: cleanChunk_def RTGM_clearRTStreamsFrom_def RTGM_clearNodesFrom_def\<close>)
  then have s: "reached ctx v inputs 0 c {..<length inputs}" using wf by (simp add: reached_def)
  have "reached ctx v inputs 0 cctx ({..<length inputs} - set [0..<length inputs])"
    by (rule supervised_reached [OF runSuccessor_takes [OF ok] ok s _ _ _ _ c(2)]) (use inp nb in auto)
  then show ?thesis by (simp add: reached_def atLeast0LessThan)
qed

end
