(* ===== verification/Output_Stream.thy ===== *)
theory Output_Stream
  imports Engine_Run
begin

text \<open>
  The writable streams of \<^verbatim>\<open>common/stream.c\<close>, as the decompressor uses them for its outputs: a buffer is
  reserved, gets its type when the first chunk tells the element width, and grows by one commit per
  chunk. Hashing looks at the last commit only.
\<close>

section \<open>State\<close>

text \<open>
  \<open>buffer\<close> and \<open>s_stringLens\<close> are the parts of the two arrays in use, so \<^verbatim>\<open>bufferUsed\<close> is the length of
  \<open>buffer\<close>. \<open>hasBuffer\<close> and \<open>hasStringLens\<close> tell that the arrays are there, and no type is \<^const>\<open>None\<close>.
  \<open>bufferAddr\<close> is the address of the buffer modulo 16; the allocator gives aligned memory.
\<close>

record Stream =
  hasBuffer :: bool
  bufferAddr :: nat
  s_type :: "ZL_Type option"
  s_eltWidth :: nat
  eltsCapacity :: nat
  eltCount :: nat
  bufferCapacity :: nat
  buffer :: "byte list"
  hasStringLens :: bool
  s_stringLens :: "u32 list"
  writeCommitted :: bool
  lastCommmited :: nat

definition STREAM_create :: Stream where
  "STREAM_create = \<lparr>hasBuffer = False, bufferAddr = 0, s_type = None, s_eltWidth = 0, eltsCapacity = 0, eltCount = 0, bufferCapacity = 0,
     buffer = [], hasStringLens = False, s_stringLens = [], writeCommitted = False, lastCommmited = 0\<rparr>"

section \<open>Reserving\<close>

definition STREAM_typeAttachedBuffer :: "Stream \<Rightarrow> ZL_Type \<Rightarrow> nat \<Rightarrow> nat \<Rightarrow> Stream ZL_Result" where
  "STREAM_typeAttachedBuffer s type width eltCapacity =
     (if s_type s \<noteq> None then
        if s_type s \<noteq> Some type then Inl ZL_ErrorCode_corruption
        else if s_eltWidth s \<noteq> width then Inl ZL_ErrorCode_corruption
        else if bufferCapacity s < unat (word_of_nat eltCapacity * word_of_nat width :: size_t) then Inl ZL_ErrorCode_corruption
        else Inr s
      else
      res_bind (STREAM_validateTypeWidth type width) (\<lambda>_.
      if bufferCapacity s div width < eltCapacity then Inl ZL_ErrorCode_streamCapacity_tooSmall
      else Inr (s\<lparr>s_type := Some type, s_eltWidth := width, eltsCapacity := bufferCapacity s div width\<rparr>)))"

definition STREAM_reserveRawBuffer :: "(nat \<Rightarrow> bool) \<Rightarrow> Stream \<Rightarrow> nat \<Rightarrow> Stream ZL_Result" where
  "STREAM_reserveRawBuffer alloc s byteCapacity =
     (if \<not> alloc byteCapacity then Inl ZL_ErrorCode_allocation
      else Inr (s\<lparr>hasBuffer := True, bufferAddr := 0, bufferCapacity := byteCapacity\<rparr>))"

text \<open>A buffer of the caller, at any address.\<close>

definition STREAM_attachWritableBuffer :: "Stream \<Rightarrow> nat \<Rightarrow> ZL_Type \<Rightarrow> nat \<Rightarrow> nat \<Rightarrow> Stream ZL_Result" where
  "STREAM_attachWritableBuffer s addr type width n =
     STREAM_typeAttachedBuffer (s\<lparr>hasBuffer := True, bufferAddr := addr,
       bufferCapacity := unat (word_of_nat n * word_of_nat width :: size_t)\<rparr>) type width n"

definition STREAM_reserve :: "(nat \<Rightarrow> bool) \<Rightarrow> Stream \<Rightarrow> ZL_Type \<Rightarrow> nat \<Rightarrow> nat \<Rightarrow> Stream ZL_Result" where
  "STREAM_reserve alloc s type width n =
     (if 2 ^ 64 \<le> n * width then Inl ZL_ErrorCode_allocation
      else res_bind (STREAM_reserveRawBuffer alloc s (n * width)) (\<lambda>s. STREAM_typeAttachedBuffer s type width n))"

definition STREAM_reserveStringLens :: "(nat \<Rightarrow> bool) \<Rightarrow> Stream \<Rightarrow> nat \<Rightarrow> Stream option" where
  "STREAM_reserveStringLens alloc s nbStrings =
     (if s_type s \<noteq> Some ZL_Type_string \<or> hasStringLens s \<or> writeCommitted s then None
      else if 2 ^ 64 \<le> nbStrings * 4 then None
      else if \<not> alloc (nbStrings * 4) then None
      else Some (s\<lparr>hasStringLens := True, eltsCapacity := nbStrings\<rparr>))"

definition STREAM_reserveStrings :: "(nat \<Rightarrow> bool) \<Rightarrow> Stream \<Rightarrow> nat \<Rightarrow> nat \<Rightarrow> Stream ZL_Result" where
  "STREAM_reserveStrings alloc s numStrings capacity =
     res_bind (STREAM_reserveRawBuffer alloc s capacity) (\<lambda>s.
     let s = s\<lparr>s_type := Some ZL_Type_string\<rparr> in
     case STREAM_reserveStringLens alloc s numStrings of
       None \<Rightarrow> if numStrings = 0 then Inr (s\<lparr>eltsCapacity := 0\<rparr>) else Inl ZL_ErrorCode_allocation
     | Some s \<Rightarrow> Inr s)"

section \<open>Committing\<close>

abbreviation (input) STREAM_eltCapacity :: "Stream \<Rightarrow> nat" where "STREAM_eltCapacity s \<equiv> eltsCapacity s - eltCount s"
abbreviation (input) STREAM_byteCapacity :: "Stream \<Rightarrow> nat" where "STREAM_byteCapacity s \<equiv> bufferCapacity s - length (buffer s)"

text \<open>\<open>written\<close> and \<open>lens\<close> are what the caller has put behind the parts in use.\<close>

definition STREAM_commitStrings :: "Stream \<Rightarrow> byte list \<Rightarrow> u32 list \<Rightarrow> nat \<Rightarrow> Stream ZL_Result" where
  "STREAM_commitStrings s written lens numStrings =
     (let totalStringsSize = sum_list (map unat (take numStrings lens)) in
      if eltsCapacity s < numStrings then Inl ZL_ErrorCode_streamCapacity_tooSmall
      else if bufferCapacity s < totalStringsSize then Inl ZL_ErrorCode_streamCapacity_tooSmall
      else Inr (s\<lparr>eltCount := eltCount s + numStrings, lastCommmited := numStrings,
        buffer := buffer s @ take totalStringsSize written, s_stringLens := s_stringLens s @ take numStrings lens,
        writeCommitted := True\<rparr>))"

definition STREAM_commit :: "Stream \<Rightarrow> byte list \<Rightarrow> u32 list \<Rightarrow> nat \<Rightarrow> Stream ZL_Result" where
  "STREAM_commit s written lens n =
     (if eltsCapacity s < eltCount s + n then Inl ZL_ErrorCode_stream_wrongInit
      else if s_type s = Some ZL_Type_string then STREAM_commitStrings s written lens n
      else Inr (s\<lparr>eltCount := eltCount s + n, lastCommmited := n,
        buffer := buffer s @ take (n * s_eltWidth s) written, writeCommitted := True\<rparr>))"

section \<open>Appending\<close>

definition STREAM_addElts :: "Stream \<Rightarrow> byte list \<Rightarrow> nat \<Rightarrow> nat \<Rightarrow> Stream ZL_Result" where
  "STREAM_addElts dst eltBuffer n width =
     (if s_eltWidth dst \<noteq> width then Inl ZL_ErrorCode_parameter_invalid
      else if STREAM_eltCapacity dst < n then Inl ZL_ErrorCode_dstCapacity_tooSmall
      else STREAM_commit dst (take (n * width) eltBuffer) [] n)"

definition STREAM_appendStrings :: "Stream \<Rightarrow> ZL_Data \<Rightarrow> Stream ZL_Result" where
  "STREAM_appendStrings dst src =
     (if STREAM_eltCapacity dst < numElts src then Inl ZL_ErrorCode_dstCapacity_tooSmall
      else if STREAM_byteCapacity dst < length (data_bytes src) then Inl ZL_ErrorCode_dstCapacity_tooSmall
      else STREAM_commit dst (data_bytes src) (stringLens src) (numElts src))"

definition STREAM_append :: "Stream \<Rightarrow> ZL_Data \<Rightarrow> Stream ZL_Result" where
  "STREAM_append dst src =
     (if s_type dst \<noteq> Some (data_type src) then Inl ZL_ErrorCode_parameter_invalid
      else if s_type dst = Some ZL_Type_string then STREAM_appendStrings dst src
      else STREAM_addElts dst (data_bytes src) (numElts src) (eltWidth src))"

definition STREAM_copyStringStream :: "(nat \<Rightarrow> bool) \<Rightarrow> Stream \<Rightarrow> ZL_Data \<Rightarrow> Stream ZL_Result" where
  "STREAM_copyStringStream alloc dst src =
     res_bind (STREAM_reserve alloc dst ZL_Type_string 1 (length (data_bytes src))) (\<lambda>dst.
     case STREAM_reserveStringLens alloc dst (numElts src) of None \<Rightarrow> Inl ZL_ErrorCode_allocation
     | Some dst \<Rightarrow> STREAM_commit dst (data_bytes src) (stringLens src) (numElts src))"

section \<open>The last commit\<close>

definition STREAM_lastCommittedStringLens :: "Stream \<Rightarrow> byte list" where
  "STREAM_lastCommittedStringLens s =
     (if hasStringLens s then write_elts 4 (drop (eltCount s - lastCommmited s) (s_stringLens s)) else [])"

definition STREAM_lastCommittedStringContent :: "Stream \<Rightarrow> byte list" where
  "STREAM_lastCommittedStringContent s =
     (let total = sum_list (map unat (drop (eltCount s - lastCommmited s) (s_stringLens s))) in
      drop (length (buffer s) - total) (buffer s))"

definition STREAM_lastCommittedBufferContent :: "Stream \<Rightarrow> byte list" where
  "STREAM_lastCommittedBufferContent s =
     (if lastCommmited s = eltCount s then buffer s
      else if s_type s = Some ZL_Type_string then STREAM_lastCommittedStringContent s
      else take (lastCommmited s * s_eltWidth s) (drop ((eltCount s - lastCommmited s) * s_eltWidth s) (buffer s)))"

text \<open>What the hash of a stream covers; the platform is little-endian.\<close>

definition hashed_content :: "nat \<Rightarrow> Stream \<Rightarrow> byte list" where
  "hashed_content v s = STREAM_lastCommittedBufferContent s
     @ (if s_type s = Some ZL_Type_string \<and> 15 \<le> v then STREAM_lastCommittedStringLens s else [])"

definition STREAM_hashLastCommit_xxh3low32 :: "(byte list \<Rightarrow> u64) \<Rightarrow> Stream list \<Rightarrow> nat \<Rightarrow> u32 ZL_Result" where
  "STREAM_hashLastCommit_xxh3low32 xxh ss v =
     (if list_ex (\<lambda>s. \<not> writeCommitted s) ss then Inl ZL_ErrorCode_GENERIC
      else Inr (ucast (xxh (concat (map (hashed_content v) ss)))))"

section \<open>References\<close>

text \<open>An input of a compression refers to the caller's array, committed in one piece.\<close>

definition STREAM_ref :: "ZL_Data \<Rightarrow> Stream" where
  "STREAM_ref d = STREAM_create\<lparr>hasBuffer := True, s_type := Some (data_type d), s_eltWidth := eltWidth d,
     eltCount := numElts d, bufferCapacity := length (data_bytes d), buffer := data_bytes d,
     hasStringLens := data_type d = ZL_Type_string, s_stringLens := stringLens d,
     eltsCapacity := (if data_type d = ZL_Type_string then numElts d else 0), writeCommitted := True, lastCommmited := numElts d\<rparr>"

section \<open>Adding a piece\<close>

text \<open>The content of a stream after several commits.\<close>

definition data_append :: "ZL_Data \<Rightarrow> ZL_Data \<Rightarrow> ZL_Data" where
  "data_append a b = a\<lparr>data_bytes := data_bytes a @ data_bytes b, stringLens := stringLens a @ stringLens b\<rparr>"

definition empty_data :: "ZL_Type \<Rightarrow> nat \<Rightarrow> ZL_Data" where
  "empty_data ty w = \<lparr>data_type = ty, eltWidth = w, data_bytes = [], stringLens = []\<rparr>"

lemma data_append_simps [simp]:
  "data_type (data_append a b) = data_type a" "eltWidth (data_append a b) = eltWidth a"
  "data_bytes (data_append a b) = data_bytes a @ data_bytes b" "stringLens (data_append a b) = stringLens a @ stringLens b"
  by (simp_all add: data_append_def)

lemma wf_widthD: "wf_data d \<Longrightarrow> 0 < eltWidth d" "wf_data d \<Longrightarrow> eltWidth d dvd length (data_bytes d)"
  by (cases "data_type d"; auto simp: wf_data_def STREAM_validateTypeWidth_def split: if_splits)+

lemma wf_data_append:
  assumes "wf_data a" "wf_data b" "data_type a = data_type b" "eltWidth a = eltWidth b" "length (data_bytes a) + length (data_bytes b) < 2 ^ 64"
  shows "wf_data (data_append a b)" "numElts (data_append a b) = numElts a + numElts b"
  using assms wf_widthD(2) [of a] wf_widthD(2) [of b] by (auto simp: wf_data_def numElts_def split: if_splits)

text \<open>
  \<open>s\<close> has room for \<open>cap\<close> bytes and, of strings, for \<open>ns\<close> of them, and holds the data \<open>acc\<close>. Before the first
  piece it may still be without a type.
\<close>

definition filled :: "nat \<Rightarrow> nat \<Rightarrow> ZL_Data \<Rightarrow> Stream \<Rightarrow> bool" where
  "filled cap ns acc s \<longleftrightarrow> hasBuffer s \<and> bufferAddr s = 0 \<and> bufferCapacity s = cap \<and> buffer s = data_bytes acc
     \<and> s_stringLens s = stringLens acc \<and> eltCount s = numElts acc
     \<and> (if data_type acc = ZL_Type_string then s_type s = Some ZL_Type_string \<and> hasStringLens s \<and> eltsCapacity s = ns
        else s_type s = None \<and> data_bytes acc = []
          \<or> s_type s = Some (data_type acc) \<and> s_eltWidth s = eltWidth acc \<and> eltsCapacity s = cap div eltWidth acc)"

lemma numElts_bytes: "wf_data d \<Longrightarrow> data_type d \<noteq> ZL_Type_string \<Longrightarrow> numElts d * eltWidth d = length (data_bytes d)"
  using wf_widthD(2) [of d] by (simp add: numElts_def)

lemma typeAttached_filled:
  assumes "filled cap ns acc s" "wf_data acc" "wf_data d" "data_type d = data_type acc" "eltWidth d = eltWidth acc"
    "data_type d \<noteq> ZL_Type_string" "length (data_bytes acc) + length (data_bytes d) \<le> cap"
  shows "\<exists>s'. STREAM_typeAttachedBuffer s (data_type d) (eltWidth d) (numElts d) = Inr s' \<and> filled cap ns acc s'
    \<and> s_type s' = Some (data_type d) \<and> s_eltWidth s' = eltWidth d \<and> eltsCapacity s' = cap div eltWidth d"
proof -
  have n: "numElts d * eltWidth d = length (data_bytes d)" "length (data_bytes d) < 2 ^ 64" "STREAM_validateTypeWidth (data_type d) (eltWidth d) = Inr ()"
    using numElts_bytes [OF assms(3,6)] assms(3) by (simp_all add: wf_data_def)
  have "unat (word_of_nat (numElts d) * word_of_nat (eltWidth d) :: size_t) = length (data_bytes d)"
    using n(1,2) by (simp add: of_nat_mult [symmetric] unat_of_nat del: of_nat_mult)
  moreover have "numElts d \<le> cap div eltWidth d"
    using n(1) assms(7) wf_widthD(1) [OF assms(3)] by (simp add: less_eq_div_iff_mult_less_eq)
  ultimately show ?thesis using assms n(3) by (auto simp: filled_def STREAM_typeAttachedBuffer_def)
qed

lemma STREAM_append_filled:
  assumes "filled cap ns acc s" "wf_data acc" "wf_data d" "data_type d = data_type acc" "eltWidth d = eltWidth acc"
    "s_type s = Some (data_type d)" "length (data_bytes acc) + length (data_bytes d) \<le> cap" "cap < 2 ^ 64"
    "data_type d = ZL_Type_string \<Longrightarrow> numElts acc + numElts d \<le> ns"
  shows "\<exists>s'. STREAM_append s d = Inr s' \<and> filled cap ns (data_append acc d) s' \<and> writeCommitted s'
    \<and> s_type s' = Some (data_type d) \<and> s_eltWidth s' = s_eltWidth s \<and> hasStringLens s' = hasStringLens s
    \<and> lastCommmited s' = numElts d"
proof (cases "data_type d = ZL_Type_string")
  case True
  have l: "sum_list (map unat (stringLens d)) = length (data_bytes d)" "numElts d = length (stringLens d)"
    using assms(3) True by (simp_all add: wf_data_def numElts_def)
  have "\<not> cap - length (data_bytes acc) < length (data_bytes d)" "\<not> ns - numElts acc < numElts d" using assms(7,9) True by simp_all
  then show ?thesis using assms True
    by (simp add: STREAM_append_def STREAM_appendStrings_def STREAM_commit_def STREAM_commitStrings_def filled_def l
        numElts_def [of acc] numElts_def [of "data_append acc d"])
next
  case False
  have na: "numElts acc * eltWidth d = length (data_bytes acc)" using numElts_bytes [OF assms(2)] assms(4,5) False by simp
  have nd: "numElts d * eltWidth d = length (data_bytes d)" using numElts_bytes [OF assms(3) False] .
  have "(numElts acc + numElts d) * eltWidth d \<le> cap" using assms(7) na nd by (simp add: add_mult_distrib)
  then have "numElts acc + numElts d \<le> cap div eltWidth d" using wf_widthD(1) [OF assms(3)] by (simp add: less_eq_div_iff_mult_less_eq)
  moreover have "numElts (data_append acc d) = numElts acc + numElts d"
    using wf_data_append(2) [OF assms(2,3)] assms(4,5,7,8) by simp
  moreover have "stringLens d = []" using assms(3) False by (simp add: wf_data_def)
  ultimately show ?thesis using assms False nd
    by (simp add: STREAM_append_def STREAM_addElts_def STREAM_commit_def filled_def)
qed

lemma take_drop_append: "take n (drop (length xs) (xs @ ys)) = take n ys" by simp

lemma hashed_filled:
  assumes "filled cap ns (data_append acc d) s" "wf_data acc" "wf_data d" "data_type d = data_type acc" "eltWidth d = eltWidth acc"
    "s_type s = Some (data_type d)" "lastCommmited s = numElts d" "data_type d \<noteq> ZL_Type_string \<Longrightarrow> s_eltWidth s = eltWidth d"
    "length (data_bytes acc) + length (data_bytes d) < 2 ^ 64"
  shows "hashed_content v s = hashed_content v (STREAM_ref d)"
proof -
  have n: "numElts (data_append acc d) = numElts acc + numElts d" using wf_data_append(2) [OF assms(2,3)] assms(4,5,9) by simp
  have e: "eltCount s - lastCommmited s = numElts acc" "eltCount s = numElts acc + numElts d"
    using assms(1,7) n by (simp_all add: filled_def)
  have b: "buffer s = data_bytes acc @ data_bytes d" "s_stringLens s = stringLens acc @ stringLens d"
    using assms(1) by (simp_all add: filled_def)
  show ?thesis
  proof (cases "data_type d = ZL_Type_string")
    case True
    have l: "sum_list (map unat (stringLens d)) = length (data_bytes d)" "numElts acc = length (stringLens acc)"
        "numElts acc = 0 \<Longrightarrow> data_bytes acc = []"
      using assms(2,3,4) True by (auto simp: wf_data_def numElts_def)
    have "hasStringLens s" using assms(1,4) True by (simp add: filled_def)
    then show ?thesis using True assms(6,7) l e
      by (auto simp: hashed_content_def STREAM_lastCommittedBufferContent_def STREAM_lastCommittedStringContent_def
          STREAM_lastCommittedStringLens_def STREAM_ref_def b Let_def)
  next
    case False
    have l: "numElts acc * eltWidth d = length (data_bytes acc)" "numElts d * eltWidth d = length (data_bytes d)"
      using numElts_bytes [OF assms(2)] numElts_bytes [OF assms(3) False] assms(4,5) False by simp_all
    then have z: "numElts acc = 0 \<Longrightarrow> data_bytes acc = []" by auto
    have "hashed_content v s = data_bytes d"
      using False assms(6,7,8) l z e
      by (auto simp: hashed_content_def STREAM_lastCommittedBufferContent_def b)
    then show ?thesis using False by (simp add: hashed_content_def STREAM_ref_def STREAM_lastCommittedBufferContent_def STREAM_create_def)
  qed
qed

end
