(* ===== verification/Engine_Nodes.thy ===== *)
theory Engine_Nodes
  imports Engine_Run
begin

text \<open>
  Which nodes a run can create: those the graph functions name and the standard ones the engine inserts,
  all within the format version. With it a property of the nodes of a compressor becomes a property of every
  runtime graph it makes.
\<close>

definition nodes_in :: "(CNode \<Rightarrow> bool) \<Rightarrow> nat \<Rightarrow> nat \<Rightarrow> ZL_CCtx \<Rightarrow> bool" where
  "nodes_in P v k cctx \<longleftrightarrow> cc_version cctx = v \<and> cc_nbInputs cctx = k \<and> (\<forall>nd \<in> set (rt_nodes (rtgraph cctx)).
     P (cnode nd) \<and> minFormatVersion (cnode nd) \<le> v \<and> v \<le> maxFormatVersion (cnode nd))"

primrec all_nodes :: "(CNode \<Rightarrow> bool) \<Rightarrow> graph_fn \<Rightarrow> bool" where
  "all_nodes P (run_node edges cn k) \<longleftrightarrow> P cn \<and> (\<forall>outs. all_nodes P (k outs))"
| "all_nodes P (set_destination edges gid k) \<longleftrightarrow> all_nodes P k"
| "all_nodes P (return_report r) \<longleftrightarrow> True"

definition graph_nodes :: "(CNode \<Rightarrow> bool) \<Rightarrow> (graph_id \<Rightarrow> graph_desc option) \<Rightarrow> bool" where
  "graph_nodes P graphs \<longleftrightarrow> (\<forall>n. P (ER_standardNodes n))
     \<and> (\<forall>gid masks var f ins. graphs gid = Some (gt_miGraph masks var f) \<longrightarrow> all_nodes P (f ins))"

lemma runCNode_nodes:
  assumes "CCTX_runCNode_wParams ctx cctx cn ids = Inr (r, cctx')" "P cn" "nodes_in P v k cctx"
  shows "nodes_in P v k cctx'"
proof -
  obtain outs h where "codec_ran ctx (cc_version cctx) cn (map (\<lambda>i. the (stream (streams (rtgraph cctx) ! i))) ids) outs h"
      "rt_nodes (rtgraph cctx') = rt_nodes (rtgraph cctx)
        @ [node_of cn ids (length (streams (rtgraph cctx))) (length (slots cn outs)) (stagingHeaderStream cctx) h]"
      "cc_version cctx' = cc_version cctx" "cc_nbInputs cctx' = cc_nbInputs cctx"
    using runCNode_effect [OF assms(1)] by (elim exE conjE) (rule that; assumption)
  moreover have "minFormatVersion cn \<le> cc_version cctx" "cc_version cctx \<le> maxFormatVersion cn"
    using assms(1) by (auto simp: CCTX_runCNode_wParams_def Let_def split: if_splits)
  ultimately show ?thesis using assms(2,3) by (auto simp: nodes_in_def)
qed

lemma convertInputs_nodes:
  assumes "CCTX_convertInputs ctx masks n ids cctx = Inr (js, cctx')" "\<And>n. P (ER_standardNodes n)" "nodes_in P v k cctx"
  shows "nodes_in P v k cctx'"
  using assms(1,3)
proof (induction ids arbitrary: n cctx js)
  case (Cons i ids)
  obtain j c js' where c: "c = cctx \<or> (\<exists>conv r. CCTX_runCNode_wParams ctx cctx (ER_standardNodes conv) [i] = Inr (r, c))"
      and r: "CCTX_convertInputs ctx masks (n + 1) ids c = Inr (js', cctx')"
    using Cons.prems(1) by (auto simp: CCTX_convertInputs_internal_def Let_def split: if_splits option.splits)
  have "nodes_in P v k c" using c Cons.prems(2) runCNode_nodes [where P = P, OF _ assms(2)] by blast
  then show ?case using Cons.IH r by blast
qed simp

lemma runMultiInputGraph_nodes:
  assumes "GCTX_runMultiInputGraph ctx graphs f cctx g = Inr (cctx', g')" "all_nodes P f" "nodes_in P v k cctx"
  shows "nodes_in P v k cctx'"
  using assms
proof (induction f arbitrary: cctx g)
  case (run_node edges cn kf)
  obtain outs c g1 where c: "ZL_Edge_runMultiInputNode ctx cctx g edges cn = Inr (outs, c, g1)"
      "GCTX_runMultiInputGraph ctx graphs (kf outs) c g1 = Inr (cctx', g')"
    using run_node.prems(1) by (auto split: sum.splits)
  obtain r where "CCTX_runCNode_wParams ctx cctx cn (map (\<lambda>e. rtsid (streamCtxs g ! e)) edges) = Inr (r, c)"
    using c(1) by (auto simp: ZL_Edge_runMultiInputNode_def Let_def split: if_splits)
  then have "nodes_in P v k c" by (rule runCNode_nodes) (use run_node.prems(2,3) in simp_all)
  then show ?case using run_node.IH [OF _ c(2)] run_node.prems(2) by simp
next
  case (set_destination edges gid kf)
  then show ?case by (auto split: sum.splits)
qed (auto split: sum.splits)

lemma runSuccessors_nodes:
  assumes "CCTX_runSuccessors run ss cctx = Inr cctx'" "nodes_in P v k cctx"
    "\<And>gid ids c c'. run gid ids c = Inr c' \<Longrightarrow> nodes_in P v k c \<Longrightarrow> nodes_in P v k c'"
  shows "nodes_in P v k cctx'"
  using assms(1,2) by (induction ss arbitrary: cctx) (auto dest: assms(3))

lemma supervised_nodes:
  assumes "CCTX_runSupervisedGraphID ctx graphs run gid ids cctx = Inr cctx'" "graph_nodes P graphs" "nodes_in P v k cctx"
    and run: "\<And>gid ids c c'. run gid ids c = Inr c' \<Longrightarrow> nodes_in P v k c \<Longrightarrow> nodes_in P v k c'"
  shows "nodes_in P v k cctx'"
proof -
  have std: "\<And>n. P (ER_standardNodes n)" using assms(2) by (simp add: graph_nodes_def)
  obtain gd js c where gd: "graphs gid = Some gd" and c: "c = cctx \<or> CCTX_convertInputs ctx (inputTypeMasks gd) 0 ids cctx = Inr (js, c)"
      and r: "(case gd of gt_store \<Rightarrow> Inr (CCTX_storeStream c (js ! 0))
        | gt_miGraph _ _ graph_f \<Rightarrow> CCTX_runGraphDesc ctx graphs run graph_f js c) = Inr cctx'"
    using assms(1) by (auto simp: CCTX_runSupervisedGraphID_def Let_def split: option.splits if_splits)
  have n: "nodes_in P v k c" using c assms(3) convertInputs_nodes [where P = P, OF _ std] by blast
  show ?thesis
  proof (cases gd)
    case gt_store
    then show ?thesis using n r by (auto simp: CCTX_storeStream_def RTGM_storeStream_def nodes_in_def)
  next
    case (gt_miGraph masks var f)
    obtain c1 g1 where g1: "GCTX_runMultiInputGraph ctx graphs (f (map (\<lambda>i. the (RTGM_getRStream (rtgraph c) i)) js)) c
          (foldl SCTX_initInput \<lparr>streamCtxs = [], dstGraphDescs = []\<rparr> js) = Inr (c1, g1)"
        "CCTX_runSuccessors run (GCTX_getSuccessors g1) c1 = Inr cctx'"
      using r gt_miGraph by (auto simp: CCTX_runGraphDesc_def Let_def)
    have "all_nodes P (f ins)" for ins using assms(2) gd gt_miGraph by (simp add: graph_nodes_def)
    then have "nodes_in P v k c1" using runMultiInputGraph_nodes [OF g1(1) _ n] by blast
    then show ?thesis using runSuccessors_nodes [OF g1(2)] run by blast
  qed
qed

lemma foldl_nodes:
  assumes "\<And>g i. rt_nodes (f g i) = rt_nodes g"
  shows "rt_nodes (foldl f g is) = rt_nodes g"
  using assms by (induction "is" arbitrary: g) simp_all

lemma foldl_guard_nodes [simp]: "rt_nodes (foldl (\<lambda>g i. RTGM_guardRTStream g i rank) g is) = rt_nodes g"
  by (rule foldl_nodes) simp

lemma foldl_clear_nodes [simp]: "rt_nodes (foldl (\<lambda>g i. RTGM_clearRTStream g i rank) g is) = rt_nodes g"
  by (rule foldl_nodes) (simp add: RTGM_clearRTStream_def Let_def)

lemma nodes_in_same [simp]:
  "rt_nodes g = rt_nodes (rtgraph c) \<Longrightarrow> nodes_in P v k (c\<lparr>rtgraph := g\<rparr>) = nodes_in P v k c"
  by (simp add: nodes_in_def)

lemma runSuccessor_nodes:
  assumes "graph_nodes P graphs"
  shows "CCTX_runSuccessor ctx graphs params levels gid ids c = Inr c' \<Longrightarrow> nodes_in P v k c \<Longrightarrow> nodes_in P v k c'"
proof (induction levels arbitrary: gid ids c c')
  case (Suc levels)
  let ?rank = "word_of_nat (ZL_MAX_GRAPH_DEPTH - Suc levels) :: u32"
  let ?c1 = "c\<lparr>rtgraph := foldl (\<lambda>g i. RTGM_guardRTStream g i ?rank) (rtgraph c) ids\<rparr>"
  obtain gid' c2 where c2: "CCTX_runSupervisedGraphID ctx graphs (CCTX_runSuccessor ctx graphs params levels) gid' ids ?c1 = Inr c2"
      "c' = c2 \<or> c' = c2\<lparr>rtgraph := foldl (\<lambda>g i. RTGM_clearRTStream g i ?rank) (rtgraph c2) ids\<rparr>"
    using Suc.prems(1) by (auto simp: CCTX_runSuccessor_internal_def Let_def split: if_splits)
  have "nodes_in P v k ?c1" using Suc.prems(2) by simp
  then have "nodes_in P v k c2" using supervised_nodes [OF c2(1) assms] Suc.IH by blast
  then show ?case using c2(2) by auto
qed simp

lemma graph_nodes_standard:
  assumes "\<And>n. P (ER_standardNodes n)" "\<And>gid masks var f ins. cgraph gid = Some (gt_miGraph masks var f) \<Longrightarrow> all_nodes P (f ins)"
  shows "graph_nodes P (GR_standardGraphs cgraph)"
proof -
  have d: "all_nodes P (foldr (\<lambda>n rest. set_destination (f n) (h n) rest) ns (return_report r))" for f h ns r
    by (induction ns) simp_all
  have "all_nodes P (f ins)" if "GR_standardGraphs cgraph gid = Some (gt_miGraph masks var f)" for gid masks var f ins
    using that assms by (cases gid) (auto simp: assms(1) GR_selectorWrapper_def GR_staticGraphWrapper_def MultiInputGraph_store_def d simp del: ER_standardNodes.simps)
  then show ?thesis using assms(1) by (simp add: graph_nodes_def)
qed

lemma mapInputs_nodes:
  assumes "mapInputs c ds = Inr c'"
  shows "rt_nodes (rtgraph c') = rt_nodes (rtgraph c)" "cc_version c' = cc_version c" "cc_nbInputs c' = cc_nbInputs c"
  using assms by (induction ds arbitrary: c) (auto simp: RTGM_refInput_def split: if_splits)

lemma storeChunk_nodes:
  assumes "CCTX_replaceChunkWithStore ctx graphs params c inputs = Inr c'" "graph_nodes P graphs" "cc_version c = v" "cc_nbInputs c = k"
  shows "nodes_in P v k c'"
proof -
  let ?g = "RTGM_clearRTStreamsFrom (RTGM_clearNodesFrom (rtgraph c) 0) 0"
  obtain c1 where c1: "mapInputs (c\<lparr>rtgraph := ?g, stagingHeaderStream := [], sentHeaderStream := []\<rparr>) inputs = Inr c1"
      "CCTX_runSupervisedGraphID ctx graphs (CCTX_runSuccessor ctx graphs params 1022) ZL_GRAPH_STORE [0..<length inputs] c1 = Inr c'"
    using assms(1) by (auto simp: CCTX_replaceChunkWithStore_def)
  have "nodes_in P v k c1" using mapInputs_nodes [OF c1(1)] assms(3,4)
    by (simp add: nodes_in_def RTGM_clearRTStreamsFrom_def RTGM_clearNodesFrom_def)
  then show ?thesis using supervised_nodes [OF c1(2) assms(2)] runSuccessor_nodes [OF assms(2)] by blast
qed

end
