(* ===== verification/Engine_Chunk.thy ===== *)
theory Engine_Chunk
  imports Output_Stream Engine_Nodes
begin

text \<open>
  One chunk of a frame: how the compressor writes a finished graph behind what the frame already has
  (\<^verbatim>\<open>CCTX_flushChunk\<close> in \<^verbatim>\<open>compress/cctx.c\<close>), and how the decompressor reads it, runs the decoders and adds
  the result to the outputs (\<^verbatim>\<open>decompress/decompress2.c\<close>). \<open>xxh\<close> is \<^verbatim>\<open>XXH3_64bits\<close>.
\<close>

section \<open>Writing a chunk\<close>

text \<open>The parameters of the compression that matter here, and the dictionaries of the compressor.\<close>

record CParams =
  gcparams :: GCParams
  contentChecksum :: bool
  compressedChecksum :: bool
  storeOnExpansion :: bool
  dictBundleID :: "byte list option"
  headerComment :: "byte list"

definition chunk_props :: "nat \<Rightarrow> CParams \<Rightarrow> ZL_FrameProperties" where
  "chunk_props v cp = \<lparr>hasContentChecksum = contentChecksum cp, hasCompressedChecksum = compressedChecksum cp,
     hasComment = False, hasBundleID = (ZL_MATERIALIZED_DICT_VERSION_MIN \<le> v \<and> dictBundleID cp \<noteq> None)\<rparr>"

definition CCTX_writeChunkHeader :: "(nat \<Rightarrow> bool) \<Rightarrow> nat \<Rightarrow> CParams \<Rightarrow> GraphInfo \<Rightarrow> nat \<Rightarrow> byte list ZL_Result" where
  "CCTX_writeChunkHeader alloc v cp gip dstCapacity = EFH_writeChunkHeader alloc v (chunk_props v cp) gip dstCapacity"

text \<open>What is left of the destination, as the code computes it.\<close>

abbreviation (input) room :: "nat \<Rightarrow> byte list \<Rightarrow> size_t" where
  "room capacity frame \<equiv> word_of_nat capacity - word_of_nat (length frame)"

primrec appendBuffers :: "nat \<Rightarrow> byte list \<Rightarrow> byte list list \<Rightarrow> byte list ZL_Result" where
  "appendBuffers capacity frame [] = Inr frame"
| "appendBuffers capacity frame (b # bs) =
     (if room capacity frame < word_of_nat (length b) then Inl ZL_ErrorCode_dstCapacity_tooSmall
      else appendBuffers capacity (frame @ b) bs)"

definition totalInputSize :: "ZL_Data list \<Rightarrow> nat" where
  "totalInputSize inputs =
     sum_list (map (\<lambda>d. length (data_bytes d) + (if data_type d = ZL_Type_string then numElts d * 4 else 0)) inputs)"

text \<open>The header of the chunk and the buffers behind it; a chunk that does not shrink is stored instead.\<close>

definition chunkContent ::
  "(nat \<Rightarrow> bool) \<Rightarrow> codec_ctx \<Rightarrow> (graph_id \<Rightarrow> graph_desc option) \<Rightarrow> CParams \<Rightarrow> nat \<Rightarrow> ZL_CCtx \<Rightarrow> ZL_Data list
    \<Rightarrow> (byte list \<times> byte list list) ZL_Result" where
  "chunkContent alloc ctx graphs cp capacity cctx inputs =
     (let v = cc_version cctx in
      res_bind (CCTX_getFinalGraph cctx) (\<lambda>(gip, buffs).
      let canStore = (trInfo gip \<noteq> [] \<and> storeOnExpansion cp) in
      res_bind (case CCTX_writeChunkHeader alloc v cp gip capacity of
          Inl e \<Rightarrow> if canStore then Inr None else Inl e
        | Inr header \<Rightarrow>
          if canStore \<and> (word_of_nat (totalInputSize inputs) :: size_t) \<le> word_of_nat (length header + length (concat buffs))
          then Inr None else Inr (Some header)) (\<lambda>written.
      case written of Some header \<Rightarrow> Inr (header, buffs)
      | None \<Rightarrow>
        res_bind (CCTX_replaceChunkWithStore ctx graphs (gcparams cp) cctx inputs) (\<lambda>cctx.
        res_bind (CCTX_getFinalGraph cctx) (\<lambda>(gip, buffs).
        res_bind (CCTX_writeChunkHeader alloc v cp gip capacity) (\<lambda>header. Inr (header, buffs)))))))"

definition appendContentChecksum ::
  "(byte list \<Rightarrow> u64) \<Rightarrow> nat \<Rightarrow> CParams \<Rightarrow> nat \<Rightarrow> ZL_Data list \<Rightarrow> byte list \<Rightarrow> byte list ZL_Result" where
  "appendContentChecksum xxh v cp capacity inputs frame =
     (if \<not> contentChecksum cp then Inr frame
      else if room capacity frame < 4 then Inl ZL_ErrorCode_dstCapacity_tooSmall
      else res_bind (STREAM_hashLastCommit_xxh3low32 xxh (map STREAM_ref inputs) v) (\<lambda>hash. Inr (frame @ write_le 4 hash)))"

definition appendCompressedChecksum ::
  "(byte list \<Rightarrow> u64) \<Rightarrow> nat \<Rightarrow> CParams \<Rightarrow> nat \<Rightarrow> nat \<Rightarrow> byte list \<Rightarrow> byte list ZL_Result" where
  "appendCompressedChecksum xxh v cp capacity startFrameSize frame =
     (if \<not> compressedChecksum cp then Inr frame
      else if room capacity frame < 4 then Inl ZL_ErrorCode_dstCapacity_tooSmall
      else let startHash = (if v < CHUNK_VERSION_MIN then 0 else startFrameSize) in
      Inr (frame @ write_le 4 (ucast (xxh (drop startHash frame)) :: u32)))"

text \<open>The frame with the chunk at its end.\<close>

definition CCTX_flushChunk ::
  "(byte list \<Rightarrow> u64) \<Rightarrow> (nat \<Rightarrow> bool) \<Rightarrow> codec_ctx \<Rightarrow> (graph_id \<Rightarrow> graph_desc option) \<Rightarrow> CParams \<Rightarrow> nat \<Rightarrow> ZL_CCtx
    \<Rightarrow> ZL_Data list \<Rightarrow> byte list \<Rightarrow> byte list ZL_Result" where
  "CCTX_flushChunk xxh alloc ctx graphs cp capacity cctx inputs frame =
     (let v = cc_version cctx in
      res_bind (chunkContent alloc ctx graphs cp (capacity - length frame) cctx inputs) (\<lambda>(header, buffs).
      res_bind (appendBuffers capacity (frame @ header) buffs) (\<lambda>out.
      res_bind (appendContentChecksum xxh v cp capacity inputs out) (\<lambda>out.
      appendCompressedChecksum xxh v cp capacity (length frame) out))))"

section \<open>Reading a chunk\<close>

record DParams =
  checkCompressedChecksum :: bool
  checkContentChecksum :: bool

text \<open>The properties of the frame; a decompression has decoded the frame header before.\<close>

abbreviation (input) frame_props :: "ZL_DCtx \<Rightarrow> ZL_FrameProperties" where
  "frame_props dctx \<equiv> properties (the (frameinfo (dfh dctx)))"

definition readContentHash :: "ZL_DCtx \<Rightarrow> byte list \<Rightarrow> nat \<Rightarrow> (u32 \<times> nat) ZL_Result" where
  "readContentHash dctx frame consumedSize =
     (if \<not> hasContentChecksum (frame_props dctx) then Inr (0, consumedSize)
      else if length frame < consumedSize + 4 then Inl ZL_ErrorCode_srcSize_tooSmall
      else Inr (read_le (take 4 (drop consumedSize frame)), consumedSize + 4))"

definition verifyCompressedHash ::
  "(byte list \<Rightarrow> u64) \<Rightarrow> DParams \<Rightarrow> ZL_DCtx \<Rightarrow> byte list \<Rightarrow> nat \<Rightarrow> nat \<Rightarrow> nat ZL_Result" where
  "verifyCompressedHash xxh dp dctx frame alreadyConsumed consumedSize =
     (if \<not> hasCompressedChecksum (frame_props dctx) then Inr consumedSize
      else if length frame < consumedSize + 4 then Inl ZL_ErrorCode_srcSize_tooSmall
      else if checkCompressedChecksum dp
        \<and> (let startHash = (if dfh_formatVersion (dfh dctx) < CHUNK_VERSION_MIN then 0 else alreadyConsumed) in
           (ucast (xxh (take (consumedSize - startHash) (drop startHash frame))) :: u32) \<noteq> read_le (take 4 (drop consumedSize frame)))
      then Inl ZL_ErrorCode_compressedChecksumWrong
      else Inr (consumedSize + 4))"

definition cleanChunkBuffers :: "ZL_DCtx \<Rightarrow> ZL_DCtx" where
  "cleanChunkBuffers dctx = dctx\<lparr>dataInfo := []\<rparr>"

definition setupChunkDecode ::
  "(byte list \<Rightarrow> u64) \<Rightarrow> (nat \<Rightarrow> bool) \<Rightarrow> DParams \<Rightarrow> ZL_DCtx \<Rightarrow> byte list \<Rightarrow> nat \<Rightarrow> (ZL_DCtx \<times> u32 \<times> nat) ZL_Result" where
  "setupChunkDecode xxh alloc dp dctx frame alreadyConsumed =
     (let dctx = cleanChunkBuffers dctx in
      res_bind (decodeChunkHeader_internal alloc (dfh dctx) (drop alreadyConsumed frame)) (\<lambda>(h, chunkHeaderSize).
      let consumedSize = alreadyConsumed + chunkHeaderSize in
      res_bind (fillStoredStreams (dctx\<lparr>dfh := h\<rparr>) frame consumedSize) (\<lambda>(dctx, chunkStreamsSize).
      let consumedSize = consumedSize + chunkStreamsSize in
      res_bind (readContentHash dctx frame consumedSize) (\<lambda>(expectedContentHash, consumedSize).
      res_bind (verifyCompressedHash xxh dp dctx frame alreadyConsumed consumedSize) (\<lambda>consumedSize.
      Inr (dctx, expectedContentHash, consumedSize - alreadyConsumed))))))"

text \<open>One output of the chunk behind what the output already has.\<close>

definition addChunkOutput :: "(nat \<Rightarrow> bool) \<Rightarrow> ZL_DCtx \<Rightarrow> nat \<Rightarrow> Stream \<Rightarrow> Stream ZL_Result" where
  "addChunkOutput alloc dctx outputN output =
     (case di_data (dataInfo dctx ! (length (dataInfo dctx) - outputN - 1)) of None \<Rightarrow> Inl ZL_ErrorCode_graph_invalid
      | Some chunkOutput \<Rightarrow>
        let type = data_type chunkOutput; width = eltWidth chunkOutput in
        res_bind (ZL_FrameInfo_getOutputType (the (frameinfo (dfh dctx))) (int outputN)) (\<lambda>expectedType.
        if Some type \<noteq> expectedType then Inl ZL_ErrorCode_corruption
        else if \<not> hasBuffer output then STREAM_copyStringStream alloc output chunkOutput
        else if STREAM_byteCapacity output < length (data_bytes chunkOutput) then Inl ZL_ErrorCode_dstCapacity_tooSmall
        else if type = ZL_Type_numeric \<and> (bufferAddr output + length (buffer output)) mod width \<noteq> 0
          then Inl ZL_ErrorCode_userBuffer_alignmentIncorrect
        else
        res_bind (if type = ZL_Type_string then Inr output
          else STREAM_typeAttachedBuffer output type width (numElts chunkOutput)) (\<lambda>output.
        STREAM_append output chunkOutput)))"

text \<open>A loop over the outputs, from number \<open>n\<close> on.\<close>

primrec each_output :: "(nat \<Rightarrow> Stream \<Rightarrow> Stream ZL_Result) \<Rightarrow> nat \<Rightarrow> Stream list \<Rightarrow> Stream list ZL_Result" where
  "each_output f n [] = Inr []"
| "each_output f n (s # ss) = res_bind (f n s) (\<lambda>s. res_bind (each_output f (n + 1) ss) (\<lambda>ss. Inr (s # ss)))"

definition addChunksIntoFinalStreams :: "(nat \<Rightarrow> bool) \<Rightarrow> ZL_DCtx \<Rightarrow> Stream list \<Rightarrow> Stream list ZL_Result" where
  "addChunksIntoFinalStreams alloc dctx outputs =
     (if length (dataInfo dctx) < nbOutputs dctx then Inl ZL_ErrorCode_outputs_tooNumerous
      else each_output (addChunkOutput alloc dctx) 0 outputs)"

text \<open>The context, the outputs with the chunk added, and the size of the chunk.\<close>

definition ZL_DCtx_decompressChunk ::
  "(byte list \<Rightarrow> u64) \<Rightarrow> (nat \<Rightarrow> bool) \<Rightarrow> codec_ctx \<Rightarrow> DParams \<Rightarrow> ZL_DCtx \<Rightarrow> Stream list \<Rightarrow> byte list \<Rightarrow> nat
    \<Rightarrow> (ZL_DCtx \<times> Stream list \<times> nat) ZL_Result" where
  "ZL_DCtx_decompressChunk xxh alloc ctx dp dctx outputs frame alreadyConsumed =
     res_bind (setupChunkDecode xxh alloc dp dctx frame alreadyConsumed) (\<lambda>(dctx, expectedContentHash, chunkSize).
     res_bind (runDecoders ctx dctx) (\<lambda>dctx.
     res_bind (addChunksIntoFinalStreams alloc dctx outputs) (\<lambda>outputs.
     res_bind (if hasContentChecksum (frame_props dctx) \<and> checkContentChecksum dp
       then res_bind (STREAM_hashLastCommit_xxh3low32 xxh outputs (dfh_formatVersion (dfh dctx))) (\<lambda>actual.
         if actual \<noteq> expectedContentHash then Inl ZL_ErrorCode_contentChecksumWrong else Inr ())
       else Inr ()) (\<lambda>_.
     Inr (dctx, outputs, chunkSize)))))"

section \<open>What a chunk holds\<close>

lemma appendBuffers_Inr: "appendBuffers capacity frame bs = Inr out \<Longrightarrow> out = frame @ concat bs"
  by (induction bs arbitrary: frame) (fastforce split: if_splits)+

definition content_hash :: "(byte list \<Rightarrow> u64) \<Rightarrow> nat \<Rightarrow> ZL_Data list \<Rightarrow> u32" where
  "content_hash xxh v inputs = ucast (xxh (concat (map (hashed_content v \<circ> STREAM_ref) inputs)))"

definition content_footer :: "(byte list \<Rightarrow> u64) \<Rightarrow> nat \<Rightarrow> CParams \<Rightarrow> ZL_Data list \<Rightarrow> byte list" where
  "content_footer xxh v cp inputs = (if contentChecksum cp then write_le 4 (content_hash xxh v inputs) else [])"

definition compressed_footer :: "(byte list \<Rightarrow> u64) \<Rightarrow> nat \<Rightarrow> CParams \<Rightarrow> nat \<Rightarrow> byte list \<Rightarrow> byte list" where
  "compressed_footer xxh v cp start frame = (if compressedChecksum cp
     then write_le 4 (ucast (xxh (drop (if v < CHUNK_VERSION_MIN then 0 else start) frame)) :: u32) else [])"

lemma ref_committed: "list_ex (\<lambda>s. \<not> writeCommitted s) (map STREAM_ref ds) = False"
  by (induction ds) (simp_all add: STREAM_ref_def)

lemma footers:
  "appendContentChecksum xxh v cp capacity inputs frame = Inr out \<Longrightarrow> out = frame @ content_footer xxh v cp inputs"
  "appendCompressedChecksum xxh v cp capacity start frame = Inr out \<Longrightarrow> out = frame @ compressed_footer xxh v cp start frame"
  by (auto simp: appendContentChecksum_def content_footer_def content_hash_def STREAM_hashLastCommit_xxh3low32_def ref_committed
      appendCompressedChecksum_def compressed_footer_def Let_def split: if_splits)

lemma chunkContent_graph:
  assumes s: "session ctx v inputs cctx {}" and wf: "list_all wf_data inputs" "inputs \<noteq> []" and v: "cc_version cctx = v"
    and ok: "graphs_ok graphs" "nbInputs_ok graphs ZL_GRAPH_STORE (length inputs)" "graph_nodes P graphs"
    and nodes: "nodes_in P v (length inputs) cctx"
    and r: "chunkContent alloc ctx graphs cp capacity cctx inputs = Inr (header, buffs)"
  shows "\<exists>c gip. session ctx v inputs c {} \<and> nodes_in P v (length inputs) c \<and> CCTX_getFinalGraph c = Inr (gip, buffs)
    \<and> EFH_writeChunkHeader alloc v (chunk_props v cp) gip capacity = Inr header"
proof -
  obtain gip0 buffs0 where g: "CCTX_getFinalGraph cctx = Inr (gip0, buffs0)"
    using r by (auto simp: chunkContent_def Let_def)
  consider "CCTX_writeChunkHeader alloc v cp gip0 capacity = Inr header" "buffs0 = buffs"
    | c gip where "CCTX_replaceChunkWithStore ctx graphs (gcparams cp) cctx inputs = Inr c" "CCTX_getFinalGraph c = Inr (gip, buffs)"
        "CCTX_writeChunkHeader alloc v cp gip capacity = Inr header"
    using r g v by (auto simp: chunkContent_def Let_def split: sum.splits if_splits option.splits)
  then show ?thesis
  proof cases
    case 1
    then show ?thesis using s g nodes by (auto simp: CCTX_writeChunkHeader_def)
  next
    case (2 c gip)
    have k: "cc_nbInputs cctx = length inputs" using nodes by (simp add: nodes_in_def)
    have "session ctx v inputs c {}" by (rule storeChunk_session [OF ok(1) wf(1) ok(2) v k wf(2) 2(1)])
    then show ?thesis using 2 storeChunk_nodes [OF 2(1) ok(3) v k] by (auto simp: CCTX_writeChunkHeader_def)
  qed
qed

lemma flushChunk_parts:
  assumes "CCTX_flushChunk xxh alloc ctx graphs cp capacity cctx inputs frame = Inr out"
  obtains header buffs where "chunkContent alloc ctx graphs cp (capacity - length frame) cctx inputs = Inr (header, buffs)"
    "out = frame @ header @ concat buffs @ content_footer xxh (cc_version cctx) cp inputs
      @ compressed_footer xxh (cc_version cctx) cp (length frame)
        (frame @ header @ concat buffs @ content_footer xxh (cc_version cctx) cp inputs)"
proof -
  obtain header buffs o1 o2 where c: "chunkContent alloc ctx graphs cp (capacity - length frame) cctx inputs = Inr (header, buffs)"
      and o: "appendBuffers capacity (frame @ header) buffs = Inr o1"
        "appendContentChecksum xxh (cc_version cctx) cp capacity inputs o1 = Inr o2"
        "appendCompressedChecksum xxh (cc_version cctx) cp capacity (length frame) o2 = Inr out"
    using assms by (auto simp: CCTX_flushChunk_def Let_def)
  show ?thesis by (rule that [OF c]) (use appendBuffers_Inr [OF o(1)] footers(1) [OF o(2)] footers(2) [OF o(3)] in simp)
qed

section \<open>The round trip of a chunk\<close>

text \<open>
  What the decoder needs of a node that can run under version \<open>v\<close>: it has the matching codec, a standard
  identifier fits the header, and the node's dictionary is at hand.
\<close>

definition node_decodes ::
  "codec_ctx \<Rightarrow> codec_ctx \<Rightarrow> DTransforms_manager \<Rightarrow> nat \<Rightarrow> ZL_FrameProperties \<Rightarrow> bool list option \<Rightarrow> CNode \<Rightarrow> bool" where
  "node_decodes ectx dctx tm v fp dicts cn \<longleftrightarrow> (minFormatVersion cn \<le> v \<longrightarrow> v \<le> maxFormatVersion cn \<longrightarrow>
     decodable ectx dctx tm v cn \<and> dict_ok fp dicts (maybeDictIndex cn)
     \<and> (trt (cn_trInfo cn) = trt_standard \<longrightarrow> unat (trid (cn_trInfo cn)) < 2 ^ ZL_StandardTransformID_numBits v))"

text \<open>The frame header of the decoder announces what the compressor writes.\<close>

definition announces :: "nat \<Rightarrow> CParams \<Rightarrow> ZL_Type list \<Rightarrow> DFH_Struct \<Rightarrow> bool" where
  "announces v cp types h \<longleftrightarrow> dfh_formatVersion h = v \<and> (\<exists>fi. frameinfo h = Some fi \<and> fi_types fi = types
     \<and> (CHUNK_VERSION_MIN \<le> v \<longrightarrow> hasContentChecksum (properties fi) = contentChecksum cp
        \<and> hasCompressedChecksum (properties fi) = compressedChecksum cp)
     \<and> (ZL_MATERIALIZED_DICT_VERSION_MIN \<le> v \<longrightarrow> hasBundleID (properties fi) = hasBundleID (chunk_props v cp)))"

lemma announces_decoded:
  fixes gip :: GraphInfo
  assumes "announces v cp types h"
  defines "h' \<equiv> decoded_chunk v (chunk_props v cp) gip h"
  shows "announces v cp types h'" "describes (chunk_props v cp) v gip h'"
    "hasContentChecksum (properties (the (frameinfo h'))) = contentChecksum cp"
    "hasCompressedChecksum (properties (the (frameinfo h'))) = compressedChecksum cp"
    "ZL_MATERIALIZED_DICT_VERSION_MIN \<le> v \<longrightarrow> hasBundleDecl h = hasBundleID (chunk_props v cp)"
  using assms by (auto simp: announces_def decoded_chunk_def describes_def chunk_props_def hasBundleDecl_def)

lemma stored_small:
  assumes "length (concat buffs) < n" "b \<in> set (tl buffs)"
  shows "length b < n"
proof -
  have "b \<in> set buffs" using assms(2) by (cases buffs) simp_all
  then show ?thesis using assms(1) member_le_sum_list [of "length b" "map length buffs"] by (auto simp: length_concat)
qed

lemma chunk_decodes:
  assumes s: "session ectx v inputs c {}" and wf: "list_all wf_data inputs" "inputs \<noteq> []"
    and nodes: "nodes_in (node_decodes ectx dctx (dtm d) v (chunk_props v cp) (dctx_bundle d)) v (length inputs) c"
    and f: "CCTX_getFinalGraph c = Inr (gip, buffs)" and w: "EFH_writeChunkHeader alloc v (chunk_props v cp) gip cap = Inr header"
    and h: "announces v cp types (dfh d)" "nbOutputs d = length inputs" and small: "length (concat buffs) < 0xffffffff"
  shows "\<exists>d1 d2. decodeChunkHeader_internal (\<lambda>_. True) (dfh d) (header @ concat buffs @ rest)
      = Inr (decoded_chunk v (chunk_props v cp) gip (dfh d), length header)
    \<and> fillStoredStreams (d\<lparr>dfh := decoded_chunk v (chunk_props v cp) gip (dfh d)\<rparr>) (frame @ header @ concat buffs @ rest)
        (length frame + length header) = Inr (d1, length (concat buffs))
    \<and> runDecoders dctx d1 = Inr d2 \<and> chunkOutputs d2 = Inr inputs
    \<and> dfh d1 = decoded_chunk v (chunk_props v cp) gip (dfh d) \<and> dfh d2 = dfh d1
    \<and> dtm d2 = dtm d \<and> nbOutputs d2 = nbOutputs d \<and> dctx_bundle d2 = dctx_bundle d"
proof -
  obtain vals where so: "sound ectx v inputs c {} vals" using session_invariant [OF s wf(1)] by blast
  note a = announces_decoded [OF h(1)]
  let ?h = "decoded_chunk v (chunk_props v cp) gip (dfh d)"
  have n: "\<forall>nd \<in> set (rt_nodes (rtgraph c)). decodable ectx dctx (dtm d) v (cnode nd)"
      "\<forall>nd \<in> set (rt_nodes (rtgraph c)). dict_ok (chunk_props v cp) (dctx_bundle d) (maybeDictIndex (cnode nd))"
      "\<forall>nd \<in> set (rt_nodes (rtgraph c)). trt (cn_trInfo (cnode nd)) = trt_standard
        \<longrightarrow> unat (trid (cn_trInfo (cnode nd))) < 2 ^ ZL_StandardTransformID_numBits v"
    using nodes by (auto simp: nodes_in_def node_decodes_def)
  have "\<forall>b \<in> set (tl buffs). length b < 0xffffffff" using stored_small [OF small] by blast
  then have g: "graph_ok v gip" by (rule final_graph_ok [OF so f n(3,2)])
  obtain cap' where "writeChunkHeaderV8_internal v (chunk_props v cp) gip cap' = Inr header"
    using EFH_writeChunkHeader_internal [OF w] by blast
  then have dec: "decodeChunkHeader_internal (\<lambda>_. True) (dfh d) (header @ concat buffs @ rest) = Inr (?h, length header)"
    using chunk_header_decodes [OF g _ a(5)] h(1) by (simp add: announces_def)
  have n': "\<forall>nd \<in> set (rt_nodes (rtgraph c)). decodable ectx dctx (dtm (d\<lparr>dfh := ?h\<rparr>)) v (cnode nd)"
      "\<forall>nd \<in> set (rt_nodes (rtgraph c)). dict_ok (chunk_props v cp) (dctx_bundle (d\<lparr>dfh := ?h\<rparr>)) (maybeDictIndex (cnode nd))"
    using n(1,2) by simp_all
  have "drop (length frame + length header) (frame @ header @ concat buffs @ rest) = concat buffs @ rest"
    "length frame + length header \<le> length (frame @ header @ concat buffs @ rest)" by simp_all
  from graph_roundtrip [OF so f n' _ _ this wf(2)] obtain d1 d2 where
    "fillStoredStreams (d\<lparr>dfh := ?h\<rparr>) (frame @ header @ concat buffs @ rest) (length frame + length header) = Inr (d1, length (concat buffs))"
    "runDecoders dctx d1 = Inr d2" "chunkOutputs d2 = Inr inputs" "dfh d1 = ?h" "dfh d2 = ?h"
    "dtm d2 = dtm d" "nbOutputs d2 = nbOutputs d" "dctx_bundle d2 = dctx_bundle d"
    using a(2) h(2) by auto
  then show ?thesis using dec by (intro exI [of _ d1] exI [of _ d2]) simp
qed

text \<open>The checksums of the footers are read back and agree.\<close>

lemma footers_read:
  fixes xxh :: "byte list \<Rightarrow> u64" and inputs :: "ZL_Data list" and frame body :: "byte list"
  assumes props: "hasContentChecksum (properties (the (frameinfo (dfh d1)))) = contentChecksum cp"
    "hasCompressedChecksum (properties (the (frameinfo (dfh d1)))) = compressedChecksum cp" "dfh_formatVersion (dfh d1) = v"
  defines "cf \<equiv> content_footer xxh v cp inputs"
  defines "out \<equiv> frame @ body @ cf @ compressed_footer xxh v cp (length frame) (frame @ body @ cf)"
  shows "readContentHash d1 (out @ rest) (length frame + length body)
      = Inr (if contentChecksum cp then content_hash xxh v inputs else 0, length frame + length body + length cf)"
    "verifyCompressedHash xxh dp d1 (out @ rest) (length frame) (length frame + length body + length cf) = Inr (length out)"
proof -
  have b: "out @ rest = (frame @ body) @ cf @ drop (length frame + length body + length cf) (out @ rest)"
    by (simp add: out_def)
  have "readContentHash d1 ((frame @ body) @ cf @ tail) (length (frame @ body))
      = Inr (if contentChecksum cp then content_hash xxh v inputs else 0, length (frame @ body) + length cf)" for tail
    using props(1) by (simp add: readContentHash_def cf_def content_footer_def mem_simps)
  from this [of "drop (length frame + length body + length cf) (out @ rest)"]
  show "readContentHash d1 (out @ rest) (length frame + length body)
      = Inr (if contentChecksum cp then content_hash xxh v inputs else 0, length frame + length body + length cf)"
    using b by simp
  let ?all = "frame @ body @ cf"
  have "verifyCompressedHash xxh dp d1 (?all @ compressed_footer xxh v cp (length frame) ?all @ rest) (length frame) (length ?all)
      = Inr (length ?all + length (compressed_footer xxh v cp (length frame) ?all))"
    using props(2,3) by (auto simp: verifyCompressedHash_def compressed_footer_def mem_simps Let_def)
  then show "verifyCompressedHash xxh dp d1 (out @ rest) (length frame) (length frame + length body + length cf) = Inr (length out)"
    by (simp add: out_def add.assoc)
qed

lemma setup_decodes:
  fixes xxh :: "byte list \<Rightarrow> u64" and frame :: "byte list"
  assumes s: "session ectx v inputs c {}" and wf: "list_all wf_data inputs" "inputs \<noteq> []"
    and nodes: "nodes_in (node_decodes ectx dctx (dtm d) v (chunk_props v cp) (dctx_bundle d)) v (length inputs) c"
    and f: "CCTX_getFinalGraph c = Inr (gip, buffs)" and w: "EFH_writeChunkHeader alloc v (chunk_props v cp) gip cap = Inr header"
    and h: "announces v cp types (dfh d)" "nbOutputs d = length inputs" and small: "length (concat buffs) < 0xffffffff"
  defines "all \<equiv> frame @ header @ concat buffs @ content_footer xxh v cp inputs"
  defines "out \<equiv> all @ compressed_footer xxh v cp (length frame) all"
  shows "\<exists>d1 d2. setupChunkDecode xxh (\<lambda>_. True) dp d (out @ rest) (length frame)
      = Inr (d1, if contentChecksum cp then content_hash xxh v inputs else 0, length out - length frame)
    \<and> runDecoders dctx d1 = Inr d2 \<and> chunkOutputs d2 = Inr inputs \<and> announces v cp types (dfh d2)
    \<and> dtm d2 = dtm d \<and> nbOutputs d2 = nbOutputs d \<and> dctx_bundle d2 = dctx_bundle d
    \<and> hasContentChecksum (properties (the (frameinfo (dfh d2)))) = contentChecksum cp"
proof -
  let ?d = "cleanChunkBuffers d" and ?cf = "content_footer xxh v cp inputs"
  have c: "dtm ?d = dtm d" "dctx_bundle ?d = dctx_bundle d" "dfh ?d = dfh d" "nbOutputs ?d = nbOutputs d"
    by (simp_all add: cleanChunkBuffers_def)
  let ?rest = "?cf @ compressed_footer xxh v cp (length frame) all @ rest"
  obtain d1 d2 where d: "decodeChunkHeader_internal (\<lambda>_. True) (dfh d) (header @ concat buffs @ ?rest)
        = Inr (decoded_chunk v (chunk_props v cp) gip (dfh d), length header)"
      "fillStoredStreams (?d\<lparr>dfh := decoded_chunk v (chunk_props v cp) gip (dfh d)\<rparr>) (frame @ header @ concat buffs @ ?rest)
        (length frame + length header) = Inr (d1, length (concat buffs))"
      "runDecoders dctx d1 = Inr d2" "chunkOutputs d2 = Inr inputs"
      "dfh d1 = decoded_chunk v (chunk_props v cp) gip (dfh d)" "dfh d2 = dfh d1"
      "dtm d2 = dtm d" "nbOutputs d2 = nbOutputs d" "dctx_bundle d2 = dctx_bundle d"
    using chunk_decodes [of ectx v inputs c dctx ?d cp gip buffs alloc cap header types ?rest frame, unfolded c, OF s wf nodes f w h small]
    by (elim exE conjE) (rule that; assumption)
  note a = announces_decoded(1-4) [where gip = gip, OF h(1)]
  have v1: "dfh_formatVersion (dfh d1) = v" using a(1) unfolding d(5) by (simp add: announces_def)
  have p: "hasContentChecksum (properties (the (frameinfo (dfh d1)))) = contentChecksum cp"
      "hasCompressedChecksum (properties (the (frameinfo (dfh d1)))) = compressedChecksum cp"
    using a(3,4) unfolding d(5) by simp_all
  note fr = footers_read [where frame = frame and body = "header @ concat buffs" and xxh = xxh and inputs = inputs, OF p v1]
  have o: "out @ rest = frame @ header @ concat buffs @ ?rest" by (simp add: out_def all_def)
  have "setupChunkDecode xxh (\<lambda>_. True) dp d (out @ rest) (length frame)
      = Inr (d1, if contentChecksum cp then content_hash xxh v inputs else 0, length out - length frame)"
    using d(1,2) fr unfolding o [symmetric] by (simp add: setupChunkDecode_def Let_def o c all_def out_def add.assoc)
  then show ?thesis using d a c by (intro exI [of _ d1] exI [of _ d2]) simp
qed

section \<open>The outputs after a chunk\<close>

text \<open>
  An output with data \<open>acc\<close> and room for \<open>cap\<close> bytes and \<open>ns\<close> strings, or one without a buffer, as old frames leave
  an output of strings.
\<close>

definition has_room :: "nat \<Rightarrow> nat \<Rightarrow> ZL_Data \<Rightarrow> Stream \<Rightarrow> bool" where
  "has_room cap ns acc s \<longleftrightarrow> (if hasBuffer s then filled cap ns acc s
     else s = STREAM_create \<and> data_type acc = ZL_Type_string \<and> data_bytes acc = [] \<and> stringLens acc = [])"

definition fits :: "nat \<Rightarrow> nat \<Rightarrow> ZL_Data \<Rightarrow> ZL_Data \<Rightarrow> bool" where
  "fits cap ns acc d \<longleftrightarrow> wf_data acc \<and> wf_data d \<and> data_type d = data_type acc \<and> eltWidth d = eltWidth acc
     \<and> length (data_bytes acc) + length (data_bytes d) \<le> cap \<and> cap < 2 ^ 64
     \<and> (data_type d = ZL_Type_string \<longrightarrow> numElts acc + numElts d \<le> ns \<and> ns * 4 < 2 ^ 64)"

text \<open>An output after a chunk brought \<open>d\<close>.\<close>

definition extended :: "nat \<Rightarrow> nat \<Rightarrow> nat \<Rightarrow> ZL_Data \<Rightarrow> ZL_Data \<Rightarrow> Stream \<Rightarrow> Stream \<Rightarrow> bool" where
  "extended v cap ns acc d s s' \<longleftrightarrow> s_type s' = Some (data_type d) \<and> writeCommitted s'
     \<and> (data_type d = ZL_Type_string \<or> s_eltWidth s' = eltWidth d)
     \<and> hashed_content v s' = hashed_content v (STREAM_ref d)
     \<and> (\<exists>cap' ns'. filled cap' ns' (data_append acc d) s' \<and> (hasBuffer s \<longrightarrow> cap' = cap \<and> ns' = ns))"

lemma append_extends:
  assumes "filled cap ns acc s" "fits cap ns acc d" "s_type s = Some (data_type d)" "data_type d \<noteq> ZL_Type_string \<Longrightarrow> s_eltWidth s = eltWidth d"
  shows "\<exists>s'. STREAM_append s d = Inr s' \<and> extended v cap ns acc d s s'"
proof -
  have f: "wf_data acc" "wf_data d" "data_type d = data_type acc" "eltWidth d = eltWidth acc"
      "length (data_bytes acc) + length (data_bytes d) \<le> cap" "cap < 2 ^ 64" "length (data_bytes acc) + length (data_bytes d) < 2 ^ 64"
      "data_type d = ZL_Type_string \<Longrightarrow> numElts acc + numElts d \<le> ns"
    using assms(2) by (simp_all add: fits_def)
  obtain s' where s': "STREAM_append s d = Inr s'" "filled cap ns (data_append acc d) s'" "writeCommitted s'"
      "s_type s' = Some (data_type d)" "s_eltWidth s' = s_eltWidth s" "lastCommmited s' = numElts d"
    using STREAM_append_filled [OF assms(1) f(1-4) assms(3) f(5,6,8)] by blast
  have "hashed_content v s' = hashed_content v (STREAM_ref d)"
    by (rule hashed_filled [OF s'(2) f(1-4) s'(4,6) _ f(7)]) (use assms(4) s'(5) in simp)
  then show ?thesis using s' assms(4) by (auto simp: extended_def)
qed

lemma copy_extends:
  assumes "fits cap ns acc d" "data_type d = ZL_Type_string" "data_bytes acc = []" "stringLens acc = []"
  shows "\<exists>s'. STREAM_copyStringStream (\<lambda>_. True) STREAM_create d = Inr s' \<and> extended v cap ns acc d STREAM_create s'"
proof -
  have f: "wf_data acc" "wf_data d" "data_type acc = ZL_Type_string" "eltWidth d = eltWidth acc" "length (data_bytes d) < 2 ^ 64" "numElts d * 4 < 2 ^ 64"
    using assms(1,2) by (auto simp: fits_def)
  have l: "sum_list (map unat (stringLens d)) = length (data_bytes d)" "numElts d = length (stringLens d)" "STREAM_validateTypeWidth ZL_Type_string 1 = Inr ()"
    using f(2) assms(2) by (simp_all add: wf_data_def numElts_def STREAM_validateTypeWidth_def)
  have r: "unat (word_of_nat (length (data_bytes d)) :: size_t) = length (data_bytes d)" using f(5) by (simp add: unat_of_nat)
  let ?s = "STREAM_create\<lparr>hasBuffer := True, bufferCapacity := length (data_bytes d), s_type := Some ZL_Type_string, s_eltWidth := 1,
      eltsCapacity := numElts d, hasStringLens := True, eltCount := numElts d, lastCommmited := numElts d,
      buffer := data_bytes d, s_stringLens := stringLens d, writeCommitted := True\<rparr>"
  have c: "STREAM_copyStringStream (\<lambda>_. True) STREAM_create d = Inr ?s"
    using f(5,6) l r by (simp add: STREAM_copyStringStream_def STREAM_reserve_def STREAM_reserveRawBuffer_def STREAM_typeAttachedBuffer_def
        STREAM_reserveStringLens_def STREAM_commit_def STREAM_commitStrings_def STREAM_create_def Let_def)
  have fl: "filled (length (data_bytes d)) (numElts d) (data_append acc d) ?s"
    using assms(3,4) f(3) assms(2) by (simp add: filled_def STREAM_create_def numElts_def)
  have "hashed_content v ?s = hashed_content v (STREAM_ref d)"
    by (rule hashed_filled [OF fl f(1,2) _ f(4)]) (use assms(2,3) f(3,5) in simp_all)
  then show ?thesis using c fl assms(2) by (auto simp: extended_def STREAM_create_def)
qed

lemma chunkOutputs_nth:
  assumes "chunkOutputs d2 = Inr inputs" "n < length inputs"
  shows "di_data (dataInfo d2 ! (length (dataInfo d2) - n - 1)) = Some (inputs ! n)" "length inputs = nbOutputs d2"
    "nbOutputs d2 \<le> length (dataInfo d2)"
  using assms by (auto simp: chunkOutputs_def Let_def list_ex_iff split: if_splits)

lemma addChunkOutput_extends:
  assumes "di_data (dataInfo dctx ! (length (dataInfo dctx) - n - 1)) = Some d"
    "ZL_FrameInfo_getOutputType (the (frameinfo (dfh dctx))) (int n) = Inr (Some (data_type d))"
    and r: "has_room cap ns acc s" "fits cap ns acc d"
  shows "\<exists>s'. addChunkOutput (\<lambda>_. True) dctx n s = Inr s' \<and> extended v cap ns acc d s s'"
proof (cases "hasBuffer s")
  case False
  then have "s = STREAM_create" "data_type d = ZL_Type_string" "data_bytes acc = []" "stringLens acc = []"
    using r by (simp_all add: has_room_def fits_def)
  then show ?thesis using copy_extends [OF r(2)] assms(1,2) False by (auto simp: addChunkOutput_def Let_def)
next
  case True
  have f: "filled cap ns acc s" using r(1) True by (simp add: has_room_def)
  have ft: "wf_data acc" "wf_data d" "data_type d = data_type acc" "eltWidth d = eltWidth acc" "length (data_bytes acc) + length (data_bytes d) \<le> cap"
    using r(2) by (simp_all add: fits_def)
  have e: "\<not> STREAM_byteCapacity s < length (data_bytes d)" "(bufferAddr s + length (buffer s)) mod eltWidth d = 0"
    using f ft wf_widthD(2) [OF ft(1)] by (auto simp: filled_def)
  show ?thesis
  proof (cases "data_type d = ZL_Type_string")
    case True
    then have "s_type s = Some (data_type d)" using f ft(3) by (simp add: filled_def)
    then show ?thesis using append_extends [OF f r(2)] True assms(1,2) e \<open>hasBuffer s\<close> by (simp add: addChunkOutput_def Let_def)
  next
    case False
    obtain s1 where s1: "STREAM_typeAttachedBuffer s (data_type d) (eltWidth d) (numElts d) = Inr s1" "filled cap ns acc s1"
        "s_type s1 = Some (data_type d)" "s_eltWidth s1 = eltWidth d"
      using typeAttached_filled [OF f ft(1-4) False ft(5)] by blast
    obtain s' where "STREAM_append s1 d = Inr s'" "extended v cap ns acc d s1 s'" using append_extends [OF s1(2) r(2) s1(3)] s1(4) by blast
    moreover have "hasBuffer s1" using s1(2) by (simp add: filled_def)
    ultimately show ?thesis using s1(1) assms(1,2) e True False by (auto simp: addChunkOutput_def Let_def extended_def)
  qed
qed

lemma each_output_all:
  assumes "\<And>n. n < length ss \<Longrightarrow> \<exists>s'. f (k + n) (ss ! n) = Inr s' \<and> Q n s'"
  shows "\<exists>ss'. each_output f k ss = Inr ss' \<and> length ss' = length ss \<and> (\<forall>n < length ss. Q n (ss' ! n))"
  using assms
proof (induction ss arbitrary: k Q)
  case (Cons s ss)
  obtain s' where s': "f k s = Inr s'" "Q 0 s'" using Cons.prems [of 0] by auto
  have "\<exists>ss'. each_output f (k + 1) ss = Inr ss' \<and> length ss' = length ss \<and> (\<forall>n < length ss. Q (Suc n) (ss' ! n))"
    by (rule Cons.IH) (use Cons.prems [of "Suc _"] in auto)
  then obtain ss' where ss': "each_output f (k + 1) ss = Inr ss'" "length ss' = length ss" "\<forall>n < length ss. Q (Suc n) (ss' ! n)" by blast
  have "Q n ((s' # ss') ! n)" if "n < length (s # ss)" for n using that s'(2) ss'(3) by (cases n) simp_all
  then show ?case using s'(1) ss'(1,2) by (intro exI [of _ "s' # ss'"]) simp
qed simp

lemma hashes_agree:
  assumes "length outs = length inputs" "\<And>n. n < length inputs \<Longrightarrow> hashed_content v (outs ! n) = hashed_content v (STREAM_ref (inputs ! n))"
    "\<And>n. n < length inputs \<Longrightarrow> writeCommitted (outs ! n)"
  shows "STREAM_hashLastCommit_xxh3low32 xxh outs v = Inr (content_hash xxh v inputs)"
proof -
  have "map (hashed_content v) outs = map (hashed_content v \<circ> STREAM_ref) inputs"
    using assms(1,2) by (intro nth_equalityI) simp_all
  moreover have "\<not> list_ex (\<lambda>s. \<not> writeCommitted s) outs" using assms(1,3) by (auto simp: list_ex_length)
  ultimately show ?thesis by (simp add: STREAM_hashLastCommit_xxh3low32_def content_hash_def)
qed

text \<open>
  Whatever chunk the compressor writes behind a frame, the graph as it was run or the stored inputs, the decompressor
  takes exactly its bytes and adds its inputs to the outputs.
\<close>

lemma chunk_roundtrip:
  assumes s: "session ectx v inputs cctx {}" and wf: "list_all wf_data inputs" "inputs \<noteq> []"
    and ok: "graphs_ok graphs" "nbInputs_ok graphs ZL_GRAPH_STORE (length inputs)" "graph_nodes P graphs"
    and nodes: "nodes_in P v (length inputs) cctx"
    and P: "P = node_decodes ectx dctx (dtm d) v (chunk_props v cp) (dctx_bundle d)"
    and fl: "CCTX_flushChunk xxh alloc ectx graphs cp capacity cctx inputs frame = Inr out" and small: "length out < 0xffffffff"
    and h: "announces v cp (map data_type inputs) (dfh d)" "nbOutputs d = length inputs"
    and o: "length outs = length inputs"
      "\<forall>n < length inputs. has_room (caps n) (ns n) (accs n) (outs ! n) \<and> fits (caps n) (ns n) (accs n) (inputs ! n)"
  shows "\<exists>d' outs'. ZL_DCtx_decompressChunk xxh (\<lambda>_. True) dctx dp d outs (out @ rest) (length frame)
      = Inr (d', outs', length out - length frame)
    \<and> announces v cp (map data_type inputs) (dfh d') \<and> dtm d' = dtm d \<and> nbOutputs d' = nbOutputs d \<and> dctx_bundle d' = dctx_bundle d
    \<and> length outs' = length inputs
    \<and> (\<forall>n < length inputs. extended v (caps n) (ns n) (accs n) (inputs ! n) (outs ! n) (outs' ! n))"
proof -
  have cv: "cc_version cctx = v" using nodes by (simp add: nodes_in_def)
  obtain header buffs where c: "chunkContent alloc ectx graphs cp (capacity - length frame) cctx inputs = Inr (header, buffs)"
      and out: "out = frame @ header @ concat buffs @ content_footer xxh v cp inputs
        @ compressed_footer xxh v cp (length frame) (frame @ header @ concat buffs @ content_footer xxh v cp inputs)"
    using flushChunk_parts [OF fl] unfolding cv .
  obtain c gip where g: "session ectx v inputs c {}" "nodes_in P v (length inputs) c" "CCTX_getFinalGraph c = Inr (gip, buffs)"
      "EFH_writeChunkHeader alloc v (chunk_props v cp) gip (capacity - length frame) = Inr header"
    using chunkContent_graph [OF s wf cv ok nodes c] by blast
  have sm: "length (concat buffs) < 0xffffffff" using small unfolding out by simp
  obtain d1 d2 where d: "setupChunkDecode xxh (\<lambda>_. True) dp d (out @ rest) (length frame)
        = Inr (d1, if contentChecksum cp then content_hash xxh v inputs else 0, length out - length frame)"
      "runDecoders dctx d1 = Inr d2" "chunkOutputs d2 = Inr inputs" "announces v cp (map data_type inputs) (dfh d2)"
      "dtm d2 = dtm d" "nbOutputs d2 = nbOutputs d" "dctx_bundle d2 = dctx_bundle d"
      "hasContentChecksum (properties (the (frameinfo (dfh d2)))) = contentChecksum cp"
    using setup_decodes [OF g(1) wf g(2) [unfolded P] g(3,4) h sm, of xxh dp frame rest] unfolding append_assoc out [symmetric] by blast
  have t: "ZL_FrameInfo_getOutputType (the (frameinfo (dfh d2))) (int n) = Inr (Some (data_type (inputs ! n)))" if "n < length inputs" for n
    using d(4) that by (auto simp: announces_def ZL_FrameInfo_getOutputType_def get_output_def)
  obtain outs' where o': "each_output (addChunkOutput (\<lambda>_. True) d2) 0 outs = Inr outs'" "length outs' = length outs"
      "\<forall>n < length outs. extended v (caps n) (ns n) (accs n) (inputs ! n) (outs ! n) (outs' ! n)"
    using each_output_all [of outs "addChunkOutput (\<lambda>_. True) d2" 0 "\<lambda>n. extended v (caps n) (ns n) (accs n) (inputs ! n) (outs ! n)"]
      addChunkOutput_extends [OF chunkOutputs_nth(1) [OF d(3)] t] o by auto
  have "addChunksIntoFinalStreams (\<lambda>_. True) d2 outs = Inr outs'"
    using o'(1) chunkOutputs_nth(3) [OF d(3), of 0] wf(2) by (simp add: addChunksIntoFinalStreams_def)
  moreover have "STREAM_hashLastCommit_xxh3low32 xxh outs' (dfh_formatVersion (dfh d2)) = Inr (content_hash xxh v inputs)"
    using hashes_agree [of outs' inputs v xxh] o' o(1) d(4) by (auto simp: extended_def announces_def)
  ultimately have "ZL_DCtx_decompressChunk xxh (\<lambda>_. True) dctx dp d outs (out @ rest) (length frame) = Inr (d2, outs', length out - length frame)"
    using d(1,2,8) by (simp add: ZL_DCtx_decompressChunk_def)
  then show ?thesis using d(4-7) o' o(1) by (intro exI [of _ d2] exI [of _ outs']) simp
qed

end
