(* ===== verification/Segmenter.thy ===== *)
theory Segmenter
  imports Engine_Chunk
begin

text \<open>
  Cutting the inputs of a frame into chunks (\<^verbatim>\<open>compress/segmenter.c\<close>, \<^verbatim>\<open>compress/segmenters/\<close>, the slices of
  \<^verbatim>\<open>common/stream.c\<close>): a segmenter function calls \<^verbatim>\<open>ZL_Segmenter_processChunk\<close> with a number of elements of each
  input, which runs a graph on these elements and writes the chunk. The segmenter is the starting graph.
\<close>

section \<open>Slices\<close>

definition STREAM_refStreamStringSlice :: "ZL_Data \<Rightarrow> nat \<Rightarrow> nat \<Rightarrow> ZL_Data" where
  "STREAM_refStreamStringSlice src startingEltNum n =
     (let skipped = sum_list (map unat (take startingEltNum (stringLens src)));
          lens = take n (drop startingEltNum (stringLens src)) in
      src\<lparr>data_bytes := take (sum_list (map unat lens)) (drop skipped (data_bytes src)), stringLens := lens\<rparr>)"

text \<open>A slice past the end fails an assertion: \<open>ZL_ErrorCode_logicError\<close> here.\<close>

definition STREAM_refStreamSliceWithoutRefCount :: "ZL_Data \<Rightarrow> nat \<Rightarrow> nat \<Rightarrow> ZL_Data ZL_Result" where
  "STREAM_refStreamSliceWithoutRefCount src startingEltNum n =
     (if numElts src < startingEltNum + n then Inl ZL_ErrorCode_logicError
      else if n = numElts src then Inr src
      else if data_type src = ZL_Type_string then Inr (STREAM_refStreamStringSlice src startingEltNum n)
      else Inr (src\<lparr>data_bytes := take (n * eltWidth src) (drop (startingEltNum * eltWidth src) (data_bytes src))\<rparr>))"

section \<open>The segmenter\<close>

text \<open>
  A segmenter function by its calls; the size of a chunk is the result of the call that wrote it. A function returns
  the error of a call that failed.
\<close>

datatype segmenter_fn =
    process_chunk "nat list" graph_id "nat \<Rightarrow> segmenter_fn"
  | segmenter_return "unit ZL_Result"

record ZL_Segmenter =
  seg_inputs :: "ZL_Data list"
  seg_consumed :: "nat list"
  numChunks :: nat

definition SEGM_init :: "ZL_Data list \<Rightarrow> ZL_Segmenter" where
  "SEGM_init inputs = \<lparr>seg_inputs = inputs, seg_consumed = replicate (length inputs) 0, numChunks = 0\<rparr>"

primrec sliceInputs :: "(ZL_Data \<times> nat \<times> nat) list \<Rightarrow> ZL_Data list ZL_Result" where
  "sliceInputs [] = Inr []"
| "sliceInputs (x # xs) =
     (case x of (input, already, n) \<Rightarrow>
      if numElts input < n then Inl ZL_ErrorCode_parameter_invalid
      else
      res_bind (STREAM_refStreamSliceWithoutRefCount input already n) (\<lambda>d.
      res_bind (sliceInputs xs) (\<lambda>ds. Inr (d # ds))))"

definition CCTX_cleanChunk :: "ZL_CCtx \<Rightarrow> ZL_CCtx" where
  "CCTX_cleanChunk cctx = cctx\<lparr>rtgraph := RTGM_reset (rtgraph cctx), stagingHeaderStream := [], sentHeaderStream := []\<rparr>"

text \<open>The graph of a chunk runs one level below the segmenter.\<close>

definition ZL_Segmenter_processChunk ::
  "(byte list \<Rightarrow> u64) \<Rightarrow> (nat \<Rightarrow> bool) \<Rightarrow> codec_ctx \<Rightarrow> (graph_id \<Rightarrow> graph_desc option) \<Rightarrow> CParams \<Rightarrow> nat
    \<Rightarrow> nat list \<Rightarrow> graph_id \<Rightarrow> ZL_Segmenter \<Rightarrow> ZL_CCtx \<Rightarrow> byte list \<Rightarrow> (ZL_Segmenter \<times> ZL_CCtx \<times> byte list) ZL_Result" where
  "ZL_Segmenter_processChunk xxh alloc ctx graphs cp capacity ns startingGraphID seg cctx frame =
     (if length ns \<noteq> length (seg_inputs seg) then Inl ZL_ErrorCode_graph_invalidNumInputs
      else
      res_bind (sliceInputs (zip (seg_inputs seg) (zip (seg_consumed seg) ns))) (\<lambda>chunkInputs.
      let seg = seg\<lparr>seg_consumed := map2 (+) (seg_consumed seg) ns\<rparr> in
      res_bind (mapInputs (cctx\<lparr>rtgraph := RTGM_reset (rtgraph cctx)\<rparr>) chunkInputs) (\<lambda>cctx.
      res_bind (CCTX_runSuccessor ctx graphs (gcparams cp) (ZL_MAX_GRAPH_DEPTH - 2) startingGraphID [0..<length chunkInputs] cctx) (\<lambda>cctx.
      res_bind (CCTX_flushChunk xxh alloc ctx graphs cp capacity cctx chunkInputs frame) (\<lambda>frame.
      Inr (seg\<lparr>numChunks := numChunks seg + 1\<rparr>, CCTX_cleanChunk cctx, frame))))))"

primrec segfn_calls ::
  "(byte list \<Rightarrow> u64) \<Rightarrow> (nat \<Rightarrow> bool) \<Rightarrow> codec_ctx \<Rightarrow> (graph_id \<Rightarrow> graph_desc option) \<Rightarrow> CParams \<Rightarrow> nat
    \<Rightarrow> segmenter_fn \<Rightarrow> ZL_Segmenter \<Rightarrow> ZL_CCtx \<Rightarrow> byte list \<Rightarrow> (ZL_Segmenter \<times> ZL_CCtx \<times> byte list) ZL_Result" where
  "segfn_calls xxh alloc ctx graphs cp capacity (process_chunk ns gid k) = (\<lambda>seg cctx frame.
     case ZL_Segmenter_processChunk xxh alloc ctx graphs cp capacity ns gid seg cctx frame of Inl e \<Rightarrow> Inl e
     | Inr (seg, cctx, frame') \<Rightarrow> segfn_calls xxh alloc ctx graphs cp capacity (k (length frame' - length frame)) seg cctx frame')"
| "segfn_calls xxh alloc ctx graphs cp capacity (segmenter_return r) = (\<lambda>seg cctx frame.
     case r of Inl e \<Rightarrow> Inl e | Inr _ \<Rightarrow> Inr (seg, cctx, frame))"

definition SEGM_runSegmenter where
  "SEGM_runSegmenter xxh alloc ctx graphs cp capacity segfn seg cctx frame =
     res_bind (segfn_calls xxh alloc ctx graphs cp capacity segfn seg cctx frame) (\<lambda>(seg, cctx, frame).
     if numChunks seg = 0 then Inl ZL_ErrorCode_segmenter_noSegments
     else if list_ex (\<lambda>n. seg_consumed seg ! n < numElts (seg_inputs seg ! n)) [0..<length (seg_inputs seg)]
       then Inl ZL_ErrorCode_segmenter_inputNotConsumed
     else Inr frame)"

text \<open>\<open>cctx\<close> has the inputs as its first streams; the segmenter takes them over and the first chunk starts afresh.\<close>

definition CCTX_runSegmenter where
  "CCTX_runSegmenter xxh alloc ctx graphs cp capacity masks segfn inputs cctx frame =
     (let nbPorts = length masks in
      if list_ex (\<lambda>n. data_type (inputs ! n) \<notin> set (masks ! (if nbPorts \<le> n then nbPorts - 1 else n))) [0..<length inputs]
        then Inl ZL_ErrorCode_temporaryLibraryLimitation
      else SEGM_runSegmenter xxh alloc ctx graphs (cp\<lparr>gcparams := (gcparams cp)\<lparr>segmented := True\<rparr>\<rparr>) capacity (segfn inputs)
        (SEGM_init inputs) (cctx\<lparr>rtgraph := RTGM_reset (rtgraph cctx)\<rparr>) frame)"

section \<open>The standard segmenters\<close>

abbreviation (input) ZL_DEFAULT_SEGMENTER_CHUNK_BYTE_SIZE :: nat where "ZL_DEFAULT_SEGMENTER_CHUNK_BYTE_SIZE \<equiv> 16777216"

text \<open>The loop they share, in elements; \<open>chunkMax\<close> is not 0.\<close>

function segment_calls :: "nat \<Rightarrow> graph_id \<Rightarrow> nat \<Rightarrow> segmenter_fn" where
  "segment_calls chunkMax headGraph remaining =
     (if 0 < chunkMax \<and> chunkMax < remaining then process_chunk [chunkMax] headGraph (\<lambda>_. segment_calls chunkMax headGraph (remaining - chunkMax))
      else process_chunk [remaining] headGraph (\<lambda>_. segmenter_return (Inr ())))"
  by pat_completeness auto
termination by (relation "measure (\<lambda>(_, _, remaining). remaining)") auto

declare segment_calls.simps [simp del]

definition single_chunk :: "graph_id \<Rightarrow> nat \<Rightarrow> segmenter_fn" where
  "single_chunk headGraph remaining = process_chunk [remaining] headGraph (\<lambda>_. segmenter_return (Inr ()))"

text \<open>The parameters are \<^verbatim>\<open>int\<close>s that may be missing, as may the custom graph.\<close>

definition SEGM_serial :: "nat \<Rightarrow> 32 word option \<Rightarrow> graph_id list \<Rightarrow> ZL_Data list \<Rightarrow> segmenter_fn" where
  "SEGM_serial v chunkParam customGraphs inputs =
     (let chunkByteSizeMax = (case chunkParam of None \<Rightarrow> ZL_DEFAULT_SEGMENTER_CHUNK_BYTE_SIZE | Some p \<Rightarrow> nat (sint p));
          totalBytes = length (data_bytes (inputs ! 0)) in
      if (case chunkParam of None \<Rightarrow> False | Some p \<Rightarrow> sint p < 0) then segmenter_return (Inl ZL_ErrorCode_parameter_invalid)
      else if chunkByteSizeMax = 0 then segmenter_return (Inl ZL_ErrorCode_parameter_invalid)
      else case customGraphs of [] \<Rightarrow> segmenter_return (Inl ZL_ErrorCode_parameter_invalid)
      | headGraph # _ \<Rightarrow>
        if v < CHUNK_VERSION_MIN then single_chunk headGraph totalBytes else segment_calls chunkByteSizeMax headGraph totalBytes)"

definition SEGM_numeric :: "nat \<Rightarrow> graph_id \<Rightarrow> ZL_Data list \<Rightarrow> segmenter_fn" where
  "SEGM_numeric v headGraph inputs =
     (let chunkEltSizeMax = ZL_DEFAULT_SEGMENTER_CHUNK_BYTE_SIZE div eltWidth (inputs ! 0); n = numElts (inputs ! 0) in
      if v < CHUNK_VERSION_MIN then single_chunk headGraph n else segment_calls chunkEltSizeMax headGraph n)"

text \<open>Here a negative parameter becomes a size, by sign extension.\<close>

definition SEGM_numFromSerial :: "nat \<Rightarrow> 32 word option \<Rightarrow> 32 word option \<Rightarrow> graph_id list \<Rightarrow> ZL_Data list \<Rightarrow> segmenter_fn" where
  "SEGM_numFromSerial v widthParam chunkParam customGraphs inputs =
     (let width = (case widthParam of None \<Rightarrow> 1 | Some p \<Rightarrow> unat (scast p :: size_t));
          chunkByteSizeMax = (case chunkParam of None \<Rightarrow> ZL_DEFAULT_SEGMENTER_CHUNK_BYTE_SIZE | Some p \<Rightarrow> unat (scast p :: size_t));
          chunkByteSizeAligned = chunkByteSizeMax - chunkByteSizeMax mod width;
          totalBytes = length (data_bytes (inputs ! 0)) in
      if width \<notin> {1, 2, 4, 8} then segmenter_return (Inl ZL_ErrorCode_parameter_invalid)
      else if chunkByteSizeAligned = 0 then segmenter_return (Inl ZL_ErrorCode_parameter_invalid)
      else case customGraphs of [] \<Rightarrow> segmenter_return (Inl ZL_ErrorCode_parameter_invalid)
      | headGraph # _ \<Rightarrow>
        if v < CHUNK_VERSION_MIN then single_chunk headGraph totalBytes else segment_calls chunkByteSizeAligned headGraph totalBytes)"

section \<open>Pieces\<close>

text \<open>The first \<open>k\<close> elements of an input.\<close>

definition prefix_data :: "ZL_Data \<Rightarrow> nat \<Rightarrow> ZL_Data" where
  "prefix_data d k = (if data_type d = ZL_Type_string
     then d\<lparr>data_bytes := take (sum_list (map unat (take k (stringLens d)))) (data_bytes d), stringLens := take k (stringLens d)\<rparr>
     else d\<lparr>data_bytes := take (k * eltWidth d) (data_bytes d)\<rparr>)"

lemma prefix_data_simps [simp]:
  "data_type (prefix_data d k) = data_type d" "eltWidth (prefix_data d k) = eltWidth d"
  by (simp_all add: prefix_data_def)

lemma sum_take_le: "sum_list (take k xs) \<le> sum_list (xs :: nat list)"
  by (metis append_take_drop_id le_add1 sum_list_append)

lemma wf_prefix:
  assumes "wf_data d"
  shows "wf_data (prefix_data d k)" "k \<le> numElts d \<Longrightarrow> numElts (prefix_data d k) = k" "prefix_data d (numElts d) = d"
    "data_bytes (prefix_data d 0) = []" "stringLens (prefix_data d 0) = []"
proof -
  have w: "0 < eltWidth d" "eltWidth d dvd length (data_bytes d)" using wf_widthD [OF assms] by simp_all
  show "wf_data (prefix_data d k)"
  proof (cases "data_type d = ZL_Type_string")
    case True
    have "sum_list (map unat (take k (stringLens d))) \<le> length (data_bytes d)"
      using assms True sum_take_le [of k "map unat (stringLens d)"] by (simp add: wf_data_def take_map)
    then show ?thesis using assms True
      by (simp add: wf_data_def prefix_data_def min_absorb2 STREAM_validateTypeWidth_def split: if_splits)
  next
    case False
    then show ?thesis using assms w by (auto simp: wf_data_def prefix_data_def min_def)
  qed
  show "k \<le> numElts d \<Longrightarrow> numElts (prefix_data d k) = k" "prefix_data d (numElts d) = d"
    "data_bytes (prefix_data d 0) = []" "stringLens (prefix_data d 0) = []"
    using assms w by (auto simp: numElts_def prefix_data_def wf_data_def min_def dvd_div_mult_self)
qed

lemma slice_piece:
  assumes "wf_data d" "STREAM_refStreamSliceWithoutRefCount d k n = Inr p"
  shows "k + n \<le> numElts d" "wf_data p" "data_type p = data_type d" "eltWidth p = eltWidth d" "numElts p = n"
    "data_append (prefix_data d k) p = prefix_data d (k + n)"
proof -
  show kn: "k + n \<le> numElts d" using assms(2) by (simp add: STREAM_refStreamSliceWithoutRefCount_def split: if_splits)
  have w: "0 < eltWidth d" "eltWidth d dvd length (data_bytes d)" using wf_widthD [OF assms(1)] by simp_all
  have "n = numElts d \<and> p = d \<and> k = 0 \<or> data_type d = ZL_Type_string \<and> p = STREAM_refStreamStringSlice d k n
    \<or> data_type d \<noteq> ZL_Type_string \<and> p = d\<lparr>data_bytes := take (n * eltWidth d) (drop (k * eltWidth d) (data_bytes d))\<rparr>"
    using assms(2) kn by (simp add: STREAM_refStreamSliceWithoutRefCount_def eq_commute [of p] split: if_splits)
  then consider "n = numElts d" "p = d" "k = 0" | "data_type d = ZL_Type_string" "p = STREAM_refStreamStringSlice d k n"
    | "data_type d \<noteq> ZL_Type_string" "p = d\<lparr>data_bytes := take (n * eltWidth d) (drop (k * eltWidth d) (data_bytes d))\<rparr>"
    by (elim disjE conjE) (rule that; assumption)+
  note cs = this
  have "data_type p = data_type d \<and> eltWidth p = eltWidth d"
    using cs by cases (simp_all add: STREAM_refStreamStringSlice_def Let_def)
  then show "data_type p = data_type d" "eltWidth p = eltWidth d" by simp_all
  show ap: "data_append (prefix_data d k) p = prefix_data d (k + n)"
    using cs
  proof cases
    case 1
    then show ?thesis using wf_prefix(3-5) [OF assms(1)] by (simp add: data_append_def prefix_data_def)
  next
    case 2
    have "take a xs @ take b (drop a xs) = take (a + b) xs" for a b and xs :: "'x list" by (simp add: take_add)
    then show ?thesis using 2 by (simp add: data_append_def prefix_data_def STREAM_refStreamStringSlice_def Let_def take_add)
  next
    case 3
    then show ?thesis using assms(1) by (simp add: data_append_def prefix_data_def take_add add_mult_distrib wf_data_def)
  qed
  have st: "sum_list (map unat (take k (stringLens d))) + sum_list (map unat (take n (drop k (stringLens d)))) \<le> length (data_bytes d)"
    if "data_type d = ZL_Type_string"
    using sum_take_le [of "k + n" "map unat (stringLens d)"] assms(1) that by (simp add: wf_data_def take_add take_map drop_map)
  have fx: "k * eltWidth d + n * eltWidth d \<le> length (data_bytes d)" if "data_type d \<noteq> ZL_Type_string"
  proof -
    have "(k + n) * eltWidth d \<le> numElts d * eltWidth d" using kn by (rule mult_le_mono1)
    then show ?thesis using numElts_bytes [OF assms(1) that] by (simp add: add_mult_distrib)
  qed
  have "wf_data p \<and> numElts p = n"
    using cs
  proof cases
    case 1
    then show ?thesis using assms(1) by simp
  next
    case 2
    then show ?thesis using assms(1) kn st
      by (simp add: wf_data_def numElts_def STREAM_refStreamStringSlice_def STREAM_validateTypeWidth_def Let_def split: if_splits)
  next
    case 3
    then show ?thesis using assms(1) w fx by (simp add: wf_data_def numElts_def)
  qed
  then show "wf_data p" "numElts p = n" by simp_all
qed

definition pieces :: "ZL_Data list \<Rightarrow> nat list \<Rightarrow> nat list \<Rightarrow> ZL_Data list \<Rightarrow> bool" where
  "pieces inputs ks ns ins \<longleftrightarrow> length ks = length inputs \<and> length ns = length inputs \<and> length ins = length inputs
     \<and> (\<forall>i < length inputs. STREAM_refStreamSliceWithoutRefCount (inputs ! i) (ks ! i) (ns ! i) = Inr (ins ! i))"

lemma sliceInputs_pieces:
  assumes "sliceInputs (zip inputs (zip ks ns)) = Inr ins" "length ks = length inputs" "length ns = length inputs"
  shows "pieces inputs ks ns ins"
  using assms
proof (induction inputs arbitrary: ks ns ins)
  case (Cons d inputs)
  obtain k ks' n ns' where k: "ks = k # ks'" "ns = n # ns'" using Cons.prems(2,3) by (cases ks; cases ns) simp_all
  then obtain p ps where p: "STREAM_refStreamSliceWithoutRefCount d k n = Inr p" "sliceInputs (zip inputs (zip ks' ns')) = Inr ps" "ins = p # ps"
    using Cons.prems(1) by (auto split: if_splits)
  have "pieces inputs ks' ns' ps" using Cons.IH [OF p(2)] Cons.prems(2,3) k by simp
  then show ?case using p k by (auto simp: pieces_def nth_Cons split: nat.split)
qed (simp add: pieces_def)

lemma piecesD:
  assumes "pieces inputs ks ns ins" "list_all wf_data inputs"
  shows "list_all wf_data ins" "map data_type ins = map data_type inputs" "length ins = length inputs"
    "\<And>i. i < length inputs \<Longrightarrow> data_append (prefix_data (inputs ! i) (ks ! i)) (ins ! i) = prefix_data (inputs ! i) (map2 (+) ks ns ! i)
       \<and> eltWidth (ins ! i) = eltWidth (inputs ! i) \<and> data_type (ins ! i) = data_type (inputs ! i) \<and> numElts (ins ! i) = ns ! i
       \<and> ks ! i + ns ! i \<le> numElts (inputs ! i)"
proof -
  have l: "length ins = length inputs" "length ks = length inputs" "length ns = length inputs" using assms(1) by (simp_all add: pieces_def)
  have p: "wf_data (inputs ! i)" "STREAM_refStreamSliceWithoutRefCount (inputs ! i) (ks ! i) (ns ! i) = Inr (ins ! i)" if "i < length inputs" for i
    using assms that by (simp_all add: pieces_def list_all_length)
  note sp = slice_piece [OF p]
  show "length ins = length inputs" by (rule l(1))
  show "list_all wf_data ins" using sp(2) l by (simp add: list_all_length)
  show "map data_type ins = map data_type inputs" using sp(3) l by (intro nth_equalityI) simp_all
  show "data_append (prefix_data (inputs ! i) (ks ! i)) (ins ! i) = prefix_data (inputs ! i) (map2 (+) ks ns ! i)
       \<and> eltWidth (ins ! i) = eltWidth (inputs ! i) \<and> data_type (ins ! i) = data_type (inputs ! i) \<and> numElts (ins ! i) = ns ! i
       \<and> ks ! i + ns ! i \<le> numElts (inputs ! i)" if "i < length inputs" for i
    using sp(1,3-6) [OF that that] l that by simp
qed

section \<open>The chunks of a frame\<close>

text \<open>
  The compressor wrote chunks behind \<open>frame\<close>, one for each element of the list: the runtime graph that was flushed, the inputs
  of the chunk and how many elements they have.
\<close>

fun written :: "(byte list \<Rightarrow> u64) \<Rightarrow> (nat \<Rightarrow> bool) \<Rightarrow> codec_ctx \<Rightarrow> (graph_id \<Rightarrow> graph_desc option) \<Rightarrow> CParams \<Rightarrow> nat \<Rightarrow> (CNode \<Rightarrow> bool)
    \<Rightarrow> ZL_Data list \<Rightarrow> nat list \<Rightarrow> byte list \<Rightarrow> (ZL_CCtx \<times> ZL_Data list \<times> nat list) list \<Rightarrow> nat list \<Rightarrow> byte list \<Rightarrow> bool" where
  "written xxh alloc ctx graphs cp capacity P inputs ks frame [] ks' out \<longleftrightarrow> ks' = ks \<and> out = frame"
| "written xxh alloc ctx graphs cp capacity P inputs ks frame ((c, ins, ns) # xs) ks' out \<longleftrightarrow>
     pieces inputs ks ns ins \<and> session ctx (formatVersion ctx) ins c {} \<and> nodes_in P (formatVersion ctx) (length inputs) c
     \<and> (\<exists>frame'. CCTX_flushChunk xxh alloc ctx graphs cp capacity c ins frame = Inr frame'
       \<and> written xxh alloc ctx graphs cp capacity P inputs (map2 (+) ks ns) frame' xs ks' out)"

text \<open>A chunk run in a context without leftovers.\<close>

lemma chunk_run:
  assumes ok: "graphs_ok graphs" "nbInputs_ok graphs gid (length ins)" "graph_nodes P graphs"
    and wf: "list_all wf_data ins" "ins \<noteq> []" and c: "cleanChunk v (length ins) cctx"
    and r: "mapInputs cctx ins = Inr c1" "CCTX_runSuccessor ctx graphs params levels gid [0..<length ins] c1 = Inr c2"
  shows "session ctx v ins c2 {}" "nodes_in P v (length ins) c2"
proof -
  have s: "reached ctx v ins 0 c1 {..<length ins}"
    using session.start [OF c wf(2) r(1)] wf(1) by (simp add: reached_def)
  have "reached ctx v ins 0 c2 ({..<length ins} - set [0..<length ins])"
    by (rule runSuccessor_takes [OF ok(1), unfolded takes_def, rule_format, OF s _ _ _ _ r(2)]) (use wf(2) ok(2) in auto)
  then show "session ctx v ins c2 {}" by (simp add: reached_def atLeast0LessThan)
  have "nodes_in P v (length ins) c1" using mapInputs_nodes [OF r(1)] c by (simp add: nodes_in_def cleanChunk_def)
  then show "nodes_in P v (length ins) c2" by (rule runSuccessor_nodes [OF ok(3) r(2)])
qed

primrec seg_graphs_ok :: "(graph_id \<Rightarrow> graph_desc option) \<Rightarrow> nat \<Rightarrow> segmenter_fn \<Rightarrow> bool" where
  "seg_graphs_ok graphs n (process_chunk ns gid k) \<longleftrightarrow> nbInputs_ok graphs gid n \<and> (\<forall>r. seg_graphs_ok graphs n (k r))"
| "seg_graphs_ok graphs n (segmenter_return r) \<longleftrightarrow> True"

text \<open>A function that writes one chunk at most.\<close>

primrec one_chunk :: "segmenter_fn \<Rightarrow> bool" where
  "one_chunk (process_chunk ns gid k) \<longleftrightarrow> (\<forall>r. \<exists>x. k r = segmenter_return x)"
| "one_chunk (segmenter_return r) \<longleftrightarrow> True"

definition between_chunks :: "nat \<Rightarrow> nat \<Rightarrow> ZL_CCtx \<Rightarrow> bool" where
  "between_chunks v n cctx \<longleftrightarrow> stagingHeaderStream cctx = [] \<and> sentHeaderStream cctx = [] \<and> cc_version cctx = v \<and> cc_nbInputs cctx = n"

lemma processChunk_written:
  assumes ok: "graphs_ok graphs" "nbInputs_ok graphs gid (length (seg_inputs seg))" "graph_nodes P graphs"
    and wf: "list_all wf_data (seg_inputs seg)" "seg_inputs seg \<noteq> []" "length (seg_consumed seg) = length (seg_inputs seg)"
    and c: "between_chunks (formatVersion ctx) (length (seg_inputs seg)) cctx"
    and r: "ZL_Segmenter_processChunk xxh alloc ctx graphs cp capacity ns gid seg cctx frame = Inr (seg', cctx', frame')"
  shows "\<exists>c2 ins. pieces (seg_inputs seg) (seg_consumed seg) ns ins \<and> session ctx (formatVersion ctx) ins c2 {}
      \<and> nodes_in P (formatVersion ctx) (length (seg_inputs seg)) c2 \<and> CCTX_flushChunk xxh alloc ctx graphs cp capacity c2 ins frame = Inr frame'"
    "between_chunks (formatVersion ctx) (length (seg_inputs seg)) cctx'"
    "seg' = seg\<lparr>seg_consumed := map2 (+) (seg_consumed seg) ns, numChunks := numChunks seg + 1\<rparr>" "length ns = length (seg_inputs seg)"
proof -
  let ?v = "formatVersion ctx" and ?n = "length (seg_inputs seg)" and ?c0 = "cctx\<lparr>rtgraph := RTGM_reset (rtgraph cctx)\<rparr>"
  obtain ins c1 c2 where i: "length ns = ?n" "sliceInputs (zip (seg_inputs seg) (zip (seg_consumed seg) ns)) = Inr ins"
      "mapInputs ?c0 ins = Inr c1" "CCTX_runSuccessor ctx graphs (gcparams cp) 1022 gid [0..<length ins] c1 = Inr c2"
      "CCTX_flushChunk xxh alloc ctx graphs cp capacity c2 ins frame = Inr frame'" "cctx' = CCTX_cleanChunk c2"
      "seg' = seg\<lparr>seg_consumed := map2 (+) (seg_consumed seg) ns, numChunks := numChunks seg + 1\<rparr>"
    using r by (auto simp: ZL_Segmenter_processChunk_def Let_def split: if_splits)
  have p: "pieces (seg_inputs seg) (seg_consumed seg) ns ins" by (rule sliceInputs_pieces [OF i(2) wf(3) i(1)])
  note pd = piecesD(1,3) [OF p wf(1)]
  have "cleanChunk ?v (length ins) ?c0"
    using c pd(2) by (simp add: cleanChunk_def between_chunks_def RTGM_reset_def RTGM_clearRTStreamsFrom_def)
  moreover have "nbInputs_ok graphs gid (length ins)" "ins \<noteq> []" using ok(2) pd(2) wf(2) by auto
  ultimately have s: "session ctx ?v ins c2 {}" "nodes_in P ?v (length ins) c2"
    using chunk_run [OF ok(1) _ ok(3) pd(1) _ _ i(3,4)] by blast+
  show "\<exists>c2 ins. pieces (seg_inputs seg) (seg_consumed seg) ns ins \<and> session ctx ?v ins c2 {}
      \<and> nodes_in P ?v ?n c2 \<and> CCTX_flushChunk xxh alloc ctx graphs cp capacity c2 ins frame = Inr frame'"
    using p s i(5) pd(2) by (intro exI [of _ c2] exI [of _ ins]) simp
  show "between_chunks ?v ?n cctx'" using s(2) pd(2) by (simp add: i(6) between_chunks_def CCTX_cleanChunk_def nodes_in_def)
  show "seg' = seg\<lparr>seg_consumed := map2 (+) (seg_consumed seg) ns, numChunks := numChunks seg + 1\<rparr>" "length ns = ?n" by (rule i(7), rule i(1))
qed

lemma segfn_written:
  assumes ok: "graphs_ok graphs" "graph_nodes P graphs"
    and wf: "list_all wf_data inputs" "inputs \<noteq> []"
  shows "segfn_calls xxh alloc ctx graphs cp capacity fn seg cctx frame = Inr (seg', cctx', out) \<Longrightarrow> seg_graphs_ok graphs (length inputs) fn
    \<Longrightarrow> seg_inputs seg = inputs \<Longrightarrow> length (seg_consumed seg) = length inputs \<Longrightarrow> between_chunks (formatVersion ctx) (length inputs) cctx
    \<Longrightarrow> \<exists>xs. written xxh alloc ctx graphs cp capacity P inputs (seg_consumed seg) frame xs (seg_consumed seg') out
      \<and> numChunks seg' = numChunks seg + length xs \<and> seg_inputs seg' = inputs \<and> (one_chunk fn \<longrightarrow> length xs \<le> 1)"
proof (induction fn arbitrary: seg cctx frame)
  case (process_chunk ns gid k)
  obtain seg1 c1 frame1 where p: "ZL_Segmenter_processChunk xxh alloc ctx graphs cp capacity ns gid seg cctx frame = Inr (seg1, c1, frame1)"
      "segfn_calls xxh alloc ctx graphs cp capacity (k (length frame1 - length frame)) seg1 c1 frame1 = Inr (seg', cctx', out)"
    using process_chunk.prems(1) by (auto split: sum.splits)
  have nb: "nbInputs_ok graphs gid (length (seg_inputs seg))" using process_chunk.prems(2,3) by simp
  note w = processChunk_written [OF ok(1) nb ok(2) _ _ _ _ p(1), unfolded process_chunk.prems(3), OF wf process_chunk.prems(4,5)]
  obtain c2 ins where c2: "pieces inputs (seg_consumed seg) ns ins" "session ctx (formatVersion ctx) ins c2 {}"
      "nodes_in P (formatVersion ctx) (length inputs) c2" "CCTX_flushChunk xxh alloc ctx graphs cp capacity c2 ins frame = Inr frame1"
    using w(1) by blast
  have s1: "seg_inputs seg1 = inputs" "seg_consumed seg1 = map2 (+) (seg_consumed seg) ns" "length (seg_consumed seg1) = length inputs"
      "numChunks seg1 = numChunks seg + 1"
    using w(3,4) process_chunk.prems(3,4) by simp_all
  have "seg_graphs_ok graphs (length inputs) (k (length frame1 - length frame))" using process_chunk.prems(2) by simp
  from process_chunk.IH [OF rangeI p(2) this s1(1,3) w(2)] obtain xs where
    xs: "written xxh alloc ctx graphs cp capacity P inputs (seg_consumed seg1) frame1 xs (seg_consumed seg') out"
      "numChunks seg' = numChunks seg1 + length xs" "seg_inputs seg' = inputs" by blast
  have "written xxh alloc ctx graphs cp capacity P inputs (seg_consumed seg) frame ((c2, ins, ns) # xs) (seg_consumed seg') out"
    using c2 xs(1) s1(2) by auto
  moreover have "length xs = 0" if "one_chunk (process_chunk ns gid k)"
  proof -
    obtain x where "k (length frame1 - length frame) = segmenter_return x" using \<open>one_chunk (process_chunk ns gid k)\<close> by auto
    then have "seg' = seg1" using p(2) by (auto split: sum.splits)
    then show ?thesis using xs(2) by simp
  qed
  ultimately show ?case using xs(2,3) s1(4) by (intro exI [of _ "(c2, ins, ns) # xs"]) auto
next
  case (segmenter_return r)
  then show ?case by (intro exI [of _ "[]"]) (auto split: sum.splits)
qed

end
