(* ===== verification/Engine_Frame.thy ===== *)
theory Engine_Frame
  imports Segmenter Frame_Roundtrip
begin

text \<open>
  Whole frames: the compressor writes the frame header, the chunks and the end marker (\<^verbatim>\<open>compress/compress2.c\<close>,
  \<^verbatim>\<open>CCTX_startCompression\<close>), the decompressor reads them back into its outputs
  (\<^verbatim>\<open>ZL_DCtx_decompressMultiTBuffer\<close>).
\<close>

section \<open>Compression\<close>

datatype starting_graph =
    start_graph graph_id
  | start_segmenter "ZL_Type list list" "ZL_Data list \<Rightarrow> segmenter_fn"

definition frame_description :: "nat \<Rightarrow> CParams \<Rightarrow> ZL_Data list \<Rightarrow> EFH_FrameInfo" where
  "frame_description v cp inputs =
     \<lparr>fprop = \<lparr>hasContentChecksum = contentChecksum cp, hasCompressedChecksum = compressedChecksum cp,
        hasComment = (headerComment cp \<noteq> []), hasBundleID = (ZL_MATERIALIZED_DICT_VERSION_MIN \<le> v \<and> dictBundleID cp \<noteq> None)\<rparr>,
      inputDescs = map (\<lambda>d. \<lparr>in_type = data_type d, byteSize = word_of_nat (length (data_bytes d)), in_numElts = word_of_nat (numElts d)\<rparr>) inputs,
      fh_comment = headerComment cp, bundleID = (case dictBundleID cp of None \<Rightarrow> replicate 32 0 | Some b \<Rightarrow> b)\<rparr>"

definition writeFrameHeader ::
  "(byte list \<Rightarrow> u64) \<Rightarrow> (nat \<Rightarrow> bool) \<Rightarrow> nat \<Rightarrow> CParams \<Rightarrow> nat \<Rightarrow> ZL_Data list \<Rightarrow> byte list ZL_Result" where
  "writeFrameHeader xxh alloc v cp dstCapacity inputs =
     (if ZL_runtimeInputLimit v < length inputs then Inl ZL_ErrorCode_formatVersion_unsupported
      else if \<not> alloc (24 * length inputs) then Inl ZL_ErrorCode_allocation
      else EFH_writeFrameHeader xxh alloc v (frame_description v cp inputs) dstCapacity)"

definition CCTX_startCompression ::
  "(byte list \<Rightarrow> u64) \<Rightarrow> (nat \<Rightarrow> bool) \<Rightarrow> codec_ctx \<Rightarrow> (graph_id \<Rightarrow> graph_desc option) \<Rightarrow> CParams \<Rightarrow> nat
    \<Rightarrow> starting_graph \<Rightarrow> ZL_Data list \<Rightarrow> byte list \<Rightarrow> byte list ZL_Result" where
  "CCTX_startCompression xxh alloc ctx graphs cp dstCapacity start inputs frame =
     res_bind (case start of
         start_graph gid \<Rightarrow>
           res_bind (runChunk ctx graphs (gcparams cp) gid inputs) (\<lambda>cctx.
           CCTX_flushChunk xxh alloc ctx graphs cp dstCapacity cctx inputs frame)
       | start_segmenter masks segfn \<Rightarrow>
           res_bind (startChunk (formatVersion ctx) inputs) (\<lambda>cctx.
           CCTX_runSegmenter xxh alloc ctx graphs cp dstCapacity masks segfn inputs cctx frame)) (\<lambda>frame.
     if CHUNK_VERSION_MIN \<le> formatVersion ctx then
       if room dstCapacity frame < 1 then Inl ZL_ErrorCode_dstCapacity_tooSmall else Inr (frame @ [0])
     else Inr frame)"

definition CCTX_compressInputs_withGraphSet_stage2 ::
  "(byte list \<Rightarrow> u64) \<Rightarrow> (nat \<Rightarrow> bool) \<Rightarrow> codec_ctx \<Rightarrow> (graph_id \<Rightarrow> graph_desc option) \<Rightarrow> CParams \<Rightarrow> nat
    \<Rightarrow> starting_graph \<Rightarrow> ZL_Data list \<Rightarrow> byte list ZL_Result" where
  "CCTX_compressInputs_withGraphSet_stage2 xxh alloc ctx graphs cp dstCapacity start inputs =
     res_bind (writeFrameHeader xxh alloc (formatVersion ctx) cp dstCapacity inputs) (\<lambda>frame.
     CCTX_startCompression xxh alloc ctx graphs cp dstCapacity start inputs frame)"

section \<open>Decompression\<close>

definition decodeFrameHeader :: "(byte list \<Rightarrow> u64) \<Rightarrow> (nat \<Rightarrow> bool) \<Rightarrow> nat \<Rightarrow> byte list \<Rightarrow> (DFH_Struct \<times> nat) ZL_Result" where
  "decodeFrameHeader xxh alloc nbOuts frame =
     res_bind (DFH_FrameInfo_decodeFrameHeader xxh alloc frame) (\<lambda>(fi, hSize).
     if length (fi_types fi) \<noteq> nbOuts then Inl ZL_ErrorCode_userBuffers_invalidNum
     else Inr (\<lparr>dfh_formatVersion = fi_formatVersion fi, frameinfo = Some fi, nodes = [], storedStreamSizes = [],
       dfh_regenDistances = [], totalTHSize = 0\<rparr>, hSize))"

text \<open>
  The dictionaries of the frame: \<open>loader\<close> is the attached loader, if any, which gives for a bundle which dictionaries are
  materialized. It is code of the user.
\<close>

definition fetchBundle :: "(byte list \<Rightarrow> bool list ZL_Result) option \<Rightarrow> ZL_FrameInfo \<Rightarrow> bool list option ZL_Result" where
  "fetchBundle loader fi =
     (case ZL_FrameInfo_getBundleID fi of None \<Rightarrow> Inr None
      | Some b \<Rightarrow> case loader of None \<Rightarrow> Inl ZL_ErrorCode_dictNoRecord
        | Some l \<Rightarrow> res_bind (l b) (\<lambda>dicts. Inr (Some dicts)))"

text \<open>The buffer of an output before the first chunk.\<close>

definition prepareOutput :: "(nat \<Rightarrow> bool) \<Rightarrow> ZL_FrameInfo \<Rightarrow> nat \<Rightarrow> Stream \<Rightarrow> Stream ZL_Result" where
  "prepareOutput alloc fi n output =
     res_bind (ZL_FrameInfo_getDecompressedSize fi (int n)) (\<lambda>size. let dSize = unat (the size) in
     if hasBuffer output then if STREAM_byteCapacity output < dSize then Inl ZL_ErrorCode_dstCapacity_tooSmall else Inr output
     else
     res_bind (ZL_FrameInfo_getOutputType fi (int n)) (\<lambda>type.
     case the type of
       ZL_Type_serial \<Rightarrow> STREAM_reserve alloc output ZL_Type_serial 1 dSize
     | ZL_Type_struct \<Rightarrow> STREAM_reserveRawBuffer alloc output dSize
     | ZL_Type_numeric \<Rightarrow> STREAM_reserveRawBuffer alloc output dSize
     | ZL_Type_string \<Rightarrow>
         if fi_formatVersion fi < CHUNK_VERSION_MIN then Inr output
         else res_bind (ZL_FrameInfo_getNumElts fi (int n)) (\<lambda>num. STREAM_reserveStrings alloc output (unat (the num)) dSize)))"

text \<open>
  The main loop; every chunk takes at least one byte, so \<open>fuel\<close> greater than the size of the frame is enough, and
  \<^const>\<open>None\<close> is not reached.
\<close>

fun decompressChunks ::
  "(byte list \<Rightarrow> u64) \<Rightarrow> (nat \<Rightarrow> bool) \<Rightarrow> codec_ctx \<Rightarrow> DParams \<Rightarrow> nat \<Rightarrow> ZL_DCtx \<Rightarrow> Stream list \<Rightarrow> byte list \<Rightarrow> nat
    \<Rightarrow> (Stream list \<times> nat) ZL_Result option" where
  "decompressChunks xxh alloc ctx dp 0 dctx outputs frame pos = None"
| "decompressChunks xxh alloc ctx dp (Suc fuel) dctx outputs frame pos =
     (let chunked = (CHUNK_VERSION_MIN \<le> dfh_formatVersion (dfh dctx)) in
      if chunked \<and> length frame < pos + 1 then Some (Inl ZL_ErrorCode_srcSize_tooSmall)
      else if chunked \<and> frame ! pos = 0 then Some (Inr (outputs, pos + 1))
      else case ZL_DCtx_decompressChunk xxh alloc ctx dp dctx outputs frame pos of
        Inl e \<Rightarrow> Some (Inl e)
      | Inr (dctx, outputs, chunkSize) \<Rightarrow>
        if chunked then decompressChunks xxh alloc ctx dp fuel dctx outputs frame (pos + chunkSize)
        else Some (Inr (outputs, pos + chunkSize)))"

definition checkSizes :: "ZL_FrameInfo \<Rightarrow> Stream list \<Rightarrow> unit ZL_Result" where
  "checkSizes fi outputs =
     (if list_ex (\<lambda>n. word_of_nat (if writeCommitted (outputs ! n) then length (buffer (outputs ! n)) else 0) \<noteq> decompressedSizes fi ! n)
          [0..<length outputs]
      then Inl ZL_ErrorCode_corruption else Inr ())"

definition ZL_DCtx_decompressMultiTBuffer ::
  "(byte list \<Rightarrow> u64) \<Rightarrow> (nat \<Rightarrow> bool) \<Rightarrow> codec_ctx \<Rightarrow> DParams \<Rightarrow> DTransforms_manager \<Rightarrow> (byte list \<Rightarrow> bool list ZL_Result) option
    \<Rightarrow> Stream list \<Rightarrow> byte list \<Rightarrow> Stream list ZL_Result option" where
  "ZL_DCtx_decompressMultiTBuffer xxh alloc ctx dp tm loader outputs frame =
     (case decodeFrameHeader xxh alloc (length outputs) frame of Inl e \<Rightarrow> Some (Inl e)
      | Inr (h, hSize) \<Rightarrow>
      let fi = the (frameinfo h) in
      case fetchBundle loader fi of Inl e \<Rightarrow> Some (Inl e)
      | Inr dicts \<Rightarrow>
      case each_output (prepareOutput alloc fi) 0 outputs of Inl e \<Rightarrow> Some (Inl e)
      | Inr outputs \<Rightarrow>
      let dctx = \<lparr>dtm = tm, dfh = h, dataInfo = [], nodeInputs = [], nbOutputs = length outputs, thstream = [], streamEndPos = 0,
        dctx_bundle = dicts\<rparr> in
      case decompressChunks xxh alloc ctx dp (length frame + 2) dctx outputs frame hSize of None \<Rightarrow> None
      | Some (Inl e) \<Rightarrow> Some (Inl e)
      | Some (Inr (outputs, consumedSize)) \<Rightarrow>
      if consumedSize \<noteq> length frame then Some (Inl ZL_ErrorCode_srcSize_tooLarge)
      else Some (res_bind (checkSizes fi outputs) (\<lambda>_. Inr outputs)))"

text \<open>What the caller reads from an output.\<close>

definition output_data :: "Stream \<Rightarrow> ZL_Data" where
  "output_data s = \<lparr>data_type = the (s_type s), eltWidth = (if s_type s = Some ZL_Type_string then 1 else s_eltWidth s),
     data_bytes = buffer s, stringLens = s_stringLens s\<rparr>"

section \<open>The frame header and the outputs\<close>

text \<open>Inputs a frame can describe: the sizes are below the reserved value, and the lengths of strings fit the address space.\<close>

definition inputs_ok :: "ZL_Data list \<Rightarrow> bool" where
  "inputs_ok inputs \<longleftrightarrow> inputs \<noteq> [] \<and> list_all (\<lambda>d. wf_data d \<and> length (data_bytes d) < 2 ^ 64 - 1
     \<and> (data_type d = ZL_Type_string \<longrightarrow> numElts d * 4 < 2 ^ 64)) inputs"

lemma inputs_okD:
  assumes "inputs_ok inputs"
  shows "inputs \<noteq> []" "list_all wf_data inputs" "\<And>n. n < length inputs \<Longrightarrow> length (data_bytes (inputs ! n)) < 2 ^ 64 - 1"
    "\<And>n. n < length inputs \<Longrightarrow> data_type (inputs ! n) = ZL_Type_string \<Longrightarrow> numElts (inputs ! n) * 4 < 2 ^ 64"
    "\<And>n. n < length inputs \<Longrightarrow> wf_data (inputs ! n)"
  using assms by (auto simp: inputs_ok_def list_all_length)

lemma word_not_top: "n < 2 ^ 64 - 1 \<Longrightarrow> (word_of_nat n :: size_t) + 1 \<noteq> 0"
proof -
  assume n: "n < 2 ^ 64 - 1"
  then have "unat (word_of_nat (n + 1) :: size_t) = n + 1" by (simp add: unat_of_nat del: of_nat_add of_nat_Suc)
  then show ?thesis by (metis Suc_eq_plus1 add.commute nat.distinct(1) of_nat_Suc unat_0)
qed

lemma writeFrameHeader_written:
  assumes "writeFrameHeader xxh alloc v cp cap inputs = Inr fh"
  obtains cap' where "writeFrameHeader_internal xxh v (frame_description v cp inputs) cap' = Inr fh"
proof -
  have "EFH_writeFrameHeader xxh alloc v (frame_description v cp inputs) cap = Inr fh"
    using assms by (simp add: writeFrameHeader_def split: if_splits)
  from EFH_writeFrameHeader_internal [OF this] show ?thesis using that by blast
qed

lemma frame_header_announces:
  assumes v: "ZL_isFormatVersionSupported v" and inp: "inputs_ok inputs" and b: "\<And>b. dictBundleID cp = Some b \<Longrightarrow> length b = 32"
    and w: "writeFrameHeader xxh alloc v cp cap inputs = Inr fh"
  defines "fi \<equiv> decoded_info v (frame_description v cp inputs) (length fh)"
  shows "\<exists>h. decodeFrameHeader xxh (\<lambda>_. True) (length inputs) (fh @ rest) = Inr (h, length fh) \<and> frameinfo h = Some fi
      \<and> announces v cp (map data_type inputs) h"
proof -
  let ?fip = "frame_description v cp inputs"
  obtain cap' where w': "writeFrameHeader_internal xxh v ?fip cap' = Inr fh"
    using w by (rule writeFrameHeader_written)
  have "length (bundleID ?fip) = 32" using b by (simp add: frame_description_def split: option.split)
  moreover have "inputDescs ?fip \<noteq> []" "hasComment (fprop ?fip) \<Longrightarrow> fh_comment ?fip \<noteq> []"
    using inputs_okD(1) [OF inp] by (simp_all add: frame_description_def)
  moreover have "\<forall>d \<in> set (inputDescs ?fip). byteSize d + 1 \<noteq> 0"
    using inp word_not_top by (auto simp: frame_description_def inputs_ok_def list_all_iff)
  ultimately have d: "DFH_FrameInfo_decodeFrameHeader xxh (\<lambda>_. True) (fh @ rest) = Inr (fi, length fh)"
    using frame_header_decodes [OF v _ _ _ _ w'] unfolding fi_def by blast
  have t: "fi_types fi = map data_type inputs" "fi_formatVersion fi = v"
    by (simp_all add: fi_def decoded_info_def frame_description_def)
  show ?thesis using d t
    by (auto simp: decodeFrameHeader_def announces_def fi_def decoded_info_def carried_def frame_description_def chunk_props_def)
qed

lemma bundle_fetched:
  assumes "fi = decoded_info v (frame_description v cp inputs) n" "writeFrameHeader xxh alloc v cp cap inputs = Inr fh"
  shows "ZL_FrameInfo_getBundleID fi = (if ZL_MATERIALIZED_DICT_VERSION_MIN \<le> v then dictBundleID cp else None)"
proof (cases "hasBundle v (fprop (frame_description v cp inputs))")
  case True
  obtain cap' where w': "writeFrameHeader_internal xxh v (frame_description v cp inputs) cap' = Inr fh"
    using assms(2) by (rule writeFrameHeader_written)
  then have "ZL_UniqueID_significantBytes (bundleID (frame_description v cp inputs)) \<noteq> 0"
    using True by (auto simp: writeFrameHeader_internal_def encodeBundleID_def Let_def split: if_splits)
  then have "ZL_UniqueID_isValid (bundleID (frame_description v cp inputs))"
    using significantBytes_pad(3) [OF refl] by blast
  then show ?thesis using True assms(1)
    by (auto simp: ZL_FrameInfo_getBundleID_def decoded_info_def hasBundle_def frame_description_def split: option.splits)
next
  case False
  then show ?thesis using assms(1)
    by (auto simp: ZL_FrameInfo_getBundleID_def decoded_info_def hasBundle_def frame_description_def ZL_UniqueID_isValid_def list_ex_iff
      split: option.splits)
qed

lemma prepared_room:
  assumes inp: "inputs_ok inputs" and n: "n < length inputs" and fi: "fi = decoded_info v (frame_description v cp inputs) k"
  shows "\<exists>s. prepareOutput (\<lambda>_. True) fi n STREAM_create = Inr s \<and> (CHUNK_VERSION_MIN \<le> v \<longrightarrow> hasBuffer s)
    \<and> has_room (length (data_bytes (inputs ! n))) (numElts (inputs ! n)) (prefix_data (inputs ! n) 0) s"
proof -
  let ?d = "inputs ! n"
  note d = inputs_okD(3-5) [OF inp n]
  have sz: "ZL_FrameInfo_getDecompressedSize fi (int n) = Inr (Some (word_of_nat (length (data_bytes ?d))))"
      "ZL_FrameInfo_getOutputType fi (int n) = Inr (Some (data_type ?d))"
      "unat (word_of_nat (length (data_bytes ?d)) :: u64) = length (data_bytes ?d)"
    using n d(1) by (simp_all add: fi ZL_FrameInfo_getDecompressedSize_def ZL_FrameInfo_getOutputType_def get_output_def decoded_info_def
        frame_description_def unat_of_nat)
  have e: "data_bytes (prefix_data ?d 0) = []" "stringLens (prefix_data ?d 0) = []" "numElts (prefix_data ?d 0) = 0"
    using wf_prefix(2,4,5) [OF d(3)] by simp_all
  have w: "eltWidth ?d = 1" if "data_type ?d = ZL_Type_serial"
    using d(3) that by (simp add: wf_data_def STREAM_validateTypeWidth_def split: if_splits)
  have st: "ZL_FrameInfo_getNumElts fi (int n) = Inr (Some (word_of_nat (numElts ?d)))" "unat (word_of_nat (numElts ?d) :: u64) = numElts ?d"
    if "data_type ?d = ZL_Type_string" "21 \<le> v"
    using that n d(2) by (simp_all add: fi ZL_FrameInfo_getNumElts_def get_output_def decoded_info_def frame_description_def
        decoded_numElts_def unat_of_nat)
  have v: "fi_formatVersion fi = v" by (simp add: fi decoded_info_def)
  show ?thesis
  proof (cases "data_type ?d")
    case ZL_Type_serial
    then show ?thesis using sz e w d(1)
      by (simp add: prepareOutput_def STREAM_reserve_def STREAM_reserveRawBuffer_def STREAM_typeAttachedBuffer_def STREAM_create_def
          STREAM_validateTypeWidth_def has_room_def filled_def Let_def)
  next
    case ZL_Type_string
    then show ?thesis using sz e st v d(2)
      by (auto simp: prepareOutput_def STREAM_reserveStrings_def STREAM_reserveRawBuffer_def STREAM_reserveStringLens_def STREAM_create_def
          has_room_def filled_def Let_def)
  qed (use sz e in \<open>simp add: prepareOutput_def STREAM_reserveRawBuffer_def STREAM_create_def has_room_def filled_def Let_def\<close>)+
qed

section \<open>Reading the chunks\<close>

text \<open>A chunk of a chunked frame does not start with the end marker.\<close>

lemma flushed_marker:
  assumes "CCTX_flushChunk xxh alloc ctx graphs cp capacity c ins frame = Inr out" "CHUNK_VERSION_MIN \<le> cc_version c"
    "session ctx v ins c {}" "list_all wf_data ins" "ins \<noteq> []" "graphs_ok graphs" "nbInputs_ok graphs ZL_GRAPH_STORE (length ins)"
    "graph_nodes P graphs" "nodes_in P v (length ins) c"
  shows "\<exists>bs. out = frame @ bs \<and> bs \<noteq> [] \<and> bs ! 0 \<noteq> 0"
proof -
  have v: "cc_version c = v" using assms(9) by (simp add: nodes_in_def)
  obtain header buffs where h: "chunkContent alloc ctx graphs cp (capacity - length frame) c ins = Inr (header, buffs)"
      "\<exists>rest. out = frame @ header @ rest"
    using flushChunk_parts [OF assms(1)] by metis
  obtain gip where g: "EFH_writeChunkHeader alloc v (chunk_props v cp) gip (capacity - length frame) = Inr header"
    using chunkContent_graph [OF assms(3-5) v assms(6-9) h(1)] by blast
  obtain cap' where w: "writeChunkHeaderV8_internal v (chunk_props v cp) gip cap' = Inr header"
    using EFH_writeChunkHeader_internal [OF g] by blast
  have n: "length (trInfo gip) < 20000" using written_guards(1) [OF w] limits(1) [of v] by simp
  then have "unat (word_of_nat (length (trInfo gip) + 1) :: u64) \<noteq> 0" by (simp add: unat_of_nat del: of_nat_add of_nat_Suc)
  then have nz: "(word_of_nat (length (trInfo gip) + 1) :: u64) \<noteq> 0" by (metis unat_0)
  obtain tail where t: "header = ZL_varintEncode (word_of_nat (length (trInfo gip) + 1)) @ tail"
    using written_parts [OF w] assms(2) v by (auto simp: counts_bytes_def)
  have "ZL_varintEncode (word_of_nat (length (trInfo gip) + 1)) \<noteq> []" by (subst ZL_varintEncode.simps) simp
  then show ?thesis using varint_first_byte [OF nz] t h(2) by (auto simp: nth_append)
qed

text \<open>An output that has all of \<open>d\<close>.\<close>

definition finished :: "ZL_Data \<Rightarrow> Stream \<Rightarrow> bool" where
  "finished d s \<longleftrightarrow> writeCommitted s \<and> output_data s = d"

lemma extended_finished:
  assumes "extended v cap ns acc d s s'" "data_append acc d = e" "wf_data e" "eltWidth d = eltWidth e"
  shows "finished e s'"
proof -
  have t: "data_type d = data_type e" using assms(1,2) by (auto simp: extended_def filled_def split: if_splits)
  have "eltWidth e = 1" if "data_type e = ZL_Type_string"
    using assms(3) that by (simp add: wf_data_def STREAM_validateTypeWidth_def split: if_splits)
  then show ?thesis using assms t by (cases e) (auto simp: finished_def output_data_def extended_def filled_def)
qed

lemma extended_room:
  assumes "extended v cap ns acc d s s'" "hasBuffer s"
  shows "has_room cap ns (data_append acc d) s'" "hasBuffer s'"
  using assms by (auto simp: extended_def has_room_def filled_def)

lemma written_prefix:
  "written xxh alloc ctx graphs cp capacity P inputs ks frame xs ks' out \<Longrightarrow> \<exists>bs. out = frame @ bs"
proof (induction xs arbitrary: ks frame)
  case (Cons x xs)
  obtain c ins ns where x: "x = (c, ins, ns)" by (cases x)
  obtain frame' where f: "CCTX_flushChunk xxh alloc ctx graphs cp capacity c ins frame = Inr frame'"
      "written xxh alloc ctx graphs cp capacity P inputs (map2 (+) ks ns) frame' xs ks' out"
    using Cons.prems x by auto
  then show ?case using Cons.IH [OF f(2)] flushChunk_parts [OF f(1)] by (metis append_assoc)
qed simp

lemma written_length:
  assumes "CHUNK_VERSION_MIN \<le> formatVersion ctx" "graphs_ok graphs" "nbInputs_ok graphs ZL_GRAPH_STORE (length inputs)" "graph_nodes P graphs"
    and inp: "list_all wf_data inputs" "inputs \<noteq> []"
  shows "written xxh alloc ctx graphs cp capacity P inputs ks frame xs ks' out \<Longrightarrow> length frame + length xs \<le> length out"
proof (induction xs arbitrary: ks frame)
  case (Cons x xs)
  obtain c ins ns where x: "x = (c, ins, ns)" by (cases x)
  obtain frame' where f: "pieces inputs ks ns ins" "session ctx (formatVersion ctx) ins c {}" "nodes_in P (formatVersion ctx) (length inputs) c"
      "CCTX_flushChunk xxh alloc ctx graphs cp capacity c ins frame = Inr frame'"
      "written xxh alloc ctx graphs cp capacity P inputs (map2 (+) ks ns) frame' xs ks' out"
    using Cons.prems x by auto
  note p = piecesD(1,3) [OF f(1) inp(1)]
  have "\<exists>bs. frame' = frame @ bs \<and> bs \<noteq> [] \<and> bs ! 0 \<noteq> 0"
    by (rule flushed_marker [OF f(4) _ f(2) p(1) _ assms(2) _ assms(4)]) (use assms(1,3) inp(2) p(2) f(3) in \<open>auto simp: nodes_in_def\<close>)
  then have "length frame < length frame'" by auto
  then show ?case using Cons.IH [OF f(5)] by simp
qed simp

lemma written_consumed:
  assumes "written xxh alloc ctx graphs cp capacity P inputs ks frame xs ks' out"
    "length ks = length inputs" "\<forall>n < length inputs. ks ! n \<le> numElts (inputs ! n)"
    "\<forall>n < length inputs. numElts (inputs ! n) \<le> ks' ! n" "list_all wf_data inputs"
  shows "ks' = map numElts inputs"
  using assms(1-3)
proof (induction xs arbitrary: ks frame)
  case Nil
  then show ?case using assms(4) by (intro nth_equalityI) (simp_all add: le_antisym)
next
  case (Cons x xs)
  obtain c ins ns where x: "x = (c, ins, ns)" by (cases x)
  obtain frame' where f: "pieces inputs ks ns ins" "written xxh alloc ctx graphs cp capacity P inputs (map2 (+) ks ns) frame' xs ks' out"
    using Cons.prems(1) x by auto
  have "length ns = length inputs" "length ks = length inputs" using f(1) by (simp_all add: pieces_def)
  then show ?case using Cons.IH [OF f(2)] piecesD(4) [OF f(1) assms(5)] by simp
qed

lemma pieces_fit:
  assumes "pieces inputs ks ns ins" "inputs_ok inputs" "i < length inputs"
  shows "fits (length (data_bytes (inputs ! i))) (numElts (inputs ! i)) (prefix_data (inputs ! i) (ks ! i)) (ins ! i)"
proof -
  note d = inputs_okD(3-5) [OF assms(2,3)] and p = piecesD(4) [OF assms(1) inputs_okD(2) [OF assms(2)] assms(3)]
  have "wf_data (ins ! i)" using piecesD(1,3) [OF assms(1) inputs_okD(2) [OF assms(2)]] assms(3) by (simp add: list_all_length)
  moreover have "data_bytes (prefix_data (inputs ! i) (ks ! i)) @ data_bytes (ins ! i)
      = data_bytes (prefix_data (inputs ! i) (map2 (+) ks ns ! i))"
    using p by (metis data_append_simps(3))
  then have "length (data_bytes (prefix_data (inputs ! i) (ks ! i))) + length (data_bytes (ins ! i)) \<le> length (data_bytes (inputs ! i))"
    unfolding length_append [symmetric] by (simp add: prefix_data_def)
  ultimately show ?thesis using p d wf_prefix(1,2) [OF d(3), of "ks ! i"] by (simp add: fits_def)
qed

text \<open>The loop over the chunks of a frame that can have many of them.\<close>

lemma chunks_decode:
  assumes v: "v = formatVersion ctx" "CHUNK_VERSION_MIN \<le> v" and ok: "graphs_ok graphs" "nbInputs_ok graphs ZL_GRAPH_STORE (length inputs)"
      "graph_nodes P graphs" and P: "P = node_decodes ctx dctx tm v (chunk_props v cp) dicts"
    and inp: "inputs_ok inputs" and small: "length out < 0xffffffff"
  shows "written xxh alloc ctx graphs cp capacity P inputs ks frame xs ks' out \<Longrightarrow> dtm d = tm \<Longrightarrow> dctx_bundle d = dicts
    \<Longrightarrow> announces v cp (map data_type inputs) (dfh d) \<Longrightarrow> nbOutputs d = length inputs \<Longrightarrow> length outs = length inputs
    \<Longrightarrow> (\<And>n. n < length inputs \<Longrightarrow> hasBuffer (outs ! n)
      \<and> has_room (length (data_bytes (inputs ! n))) (numElts (inputs ! n)) (prefix_data (inputs ! n) (ks ! n)) (outs ! n))
    \<Longrightarrow> xs \<noteq> [] \<or> (\<forall>n < length inputs. finished (prefix_data (inputs ! n) (ks ! n)) (outs ! n)) \<Longrightarrow> length xs < fuel
    \<Longrightarrow> \<exists>outs'. decompressChunks xxh (\<lambda>_. True) dctx dp fuel d outs (out @ [0]) (length frame) = Some (Inr (outs', length out + 1))
      \<and> length outs' = length inputs \<and> (\<forall>n < length inputs. finished (prefix_data (inputs ! n) (ks' ! n)) (outs' ! n))"
proof (induction xs arbitrary: ks frame d outs fuel)
  case Nil
  obtain f where f: "fuel = Suc f" using Nil.prems(9) by (cases fuel) simp_all
  have "dfh_formatVersion (dfh d) = v" using Nil.prems(4) by (simp add: announces_def)
  then show ?case using Nil.prems(1,6,8) v(2) by (simp add: f)
next
  case (Cons x xs)
  obtain c ins ns where x: "x = (c, ins, ns)" by (cases x)
  obtain f where f: "fuel = Suc f" "length xs < f" using Cons.prems(9) by (cases fuel) simp_all
  obtain frame' where w: "pieces inputs ks ns ins" "session ctx v ins c {}" "nodes_in P v (length inputs) c"
      "CCTX_flushChunk xxh alloc ctx graphs cp capacity c ins frame = Inr frame'"
      "written xxh alloc ctx graphs cp capacity P inputs (map2 (+) ks ns) frame' xs ks' out"
    using Cons.prems(1) x v(1) by auto
  note pd = piecesD [OF w(1) inputs_okD(2) [OF inp]]
  have ne: "ins \<noteq> []" using pd(3) inputs_okD(1) [OF inp] by auto
  have w3: "nodes_in P v (length ins) c" and okS: "nbInputs_ok graphs ZL_GRAPH_STORE (length ins)" using w(3) ok(2) pd(3) by simp_all
  obtain bs where bs: "out = frame' @ bs" using written_prefix [OF w(5)] by blast
  have sm: "length frame' < 0xffffffff" using small bs by simp
  have P': "P = node_decodes ctx dctx (dtm d) v (chunk_props v cp) (dctx_bundle d)" using P Cons.prems(2,3) by simp
  have h: "announces v cp (map data_type ins) (dfh d)" "nbOutputs d = length ins" "length outs = length ins"
    using Cons.prems(4-6) pd(2,3) by simp_all
  let ?cap = "\<lambda>n. length (data_bytes (inputs ! n))" and ?ns = "\<lambda>n. numElts (inputs ! n)" and ?acc = "\<lambda>n. prefix_data (inputs ! n) (ks ! n)"
  have room: "\<forall>n < length ins. has_room (?cap n) (?ns n) (?acc n) (outs ! n) \<and> fits (?cap n) (?ns n) (?acc n) (ins ! n)"
    using Cons.prems(7) pieces_fit [OF w(1) inp] pd(3) by simp
  obtain d' outs1 where d': "ZL_DCtx_decompressChunk xxh (\<lambda>_. True) dctx dp d outs (frame' @ (bs @ [0])) (length frame)
        = Inr (d', outs1, length frame' - length frame)"
      "announces v cp (map data_type ins) (dfh d')" "dtm d' = dtm d" "nbOutputs d' = nbOutputs d" "dctx_bundle d' = dctx_bundle d"
      "length outs1 = length ins" "\<forall>n < length ins. extended v (?cap n) (?ns n) (?acc n) (ins ! n) (outs ! n) (outs1 ! n)"
    using chunk_roundtrip [OF w(2) pd(1) ne ok(1) okS ok(3) w3 P' w(4) sm h room, where dp = dp and rest = "bs @ [0]"]
    by (elim exE conjE) (rule that; assumption)
  obtain ms where ms: "frame' = frame @ ms" "ms \<noteq> []" "ms ! 0 \<noteq> 0"
    using flushed_marker [OF w(4) _ w(2) pd(1) ne ok(1) okS ok(3) w3] v(2) w3 by (auto simp: nodes_in_def)
  have step: "decompressChunks xxh (\<lambda>_. True) dctx dp fuel d outs (out @ [0]) (length frame)
      = decompressChunks xxh (\<lambda>_. True) dctx dp f d' outs1 (out @ [0]) (length frame')"
    using d'(1) ms v(2) Cons.prems(4) by (simp add: f(1) bs announces_def nth_append)
  have e: "data_append (?acc n) (ins ! n) = prefix_data (inputs ! n) (map2 (+) ks ns ! n)" "eltWidth (ins ! n) = eltWidth (inputs ! n)"
    if "n < length inputs" for n using pd(4) [OF that] by simp_all
  have r1: "hasBuffer (outs1 ! n) \<and> has_room (?cap n) (?ns n) (prefix_data (inputs ! n) (map2 (+) ks ns ! n)) (outs1 ! n)"
    if n: "n < length inputs" for n
    using extended_room [of v "?cap n" "?ns n" "?acc n" "ins ! n" "outs ! n" "outs1 ! n"] d'(7) Cons.prems(7) [OF n] e(1) [OF n] n pd(3) by auto
  have fin: "finished (prefix_data (inputs ! n) (map2 (+) ks ns ! n)) (outs1 ! n)" if n: "n < length inputs" for n
    using extended_finished [of v "?cap n" "?ns n" "?acc n" "ins ! n" "outs ! n" "outs1 ! n"] d'(7) e [OF n] n pd(3)
      wf_prefix(1) [OF inputs_okD(5) [OF inp n]] by simp
  show ?case unfolding step
    by (rule Cons.IH [OF w(5)]) (use d'(2-6) Cons.prems(2-5) pd(2,3) r1 fin f(2) in auto)
qed

text \<open>The only chunk of an older frame.\<close>

lemma one_chunk_decodes:
  assumes v: "v = formatVersion ctx" "v < CHUNK_VERSION_MIN" and ok: "graphs_ok graphs" "nbInputs_ok graphs ZL_GRAPH_STORE (length inputs)"
      "graph_nodes P graphs" and P: "P = node_decodes ctx dctx (dtm d) v (chunk_props v cp) (dctx_bundle d)"
    and inp: "inputs_ok inputs" and small: "length out < 0xffffffff"
    and w: "written xxh alloc ctx graphs cp capacity P inputs ks frame [x] ks' out"
    and h: "announces v cp (map data_type inputs) (dfh d)" "nbOutputs d = length inputs" "length outs = length inputs"
    and room: "\<And>n. n < length inputs \<Longrightarrow>
      has_room (length (data_bytes (inputs ! n))) (numElts (inputs ! n)) (prefix_data (inputs ! n) (ks ! n)) (outs ! n)"
  shows "\<exists>outs'. decompressChunks xxh (\<lambda>_. True) dctx dp (Suc fuel) d outs out (length frame) = Some (Inr (outs', length out))
      \<and> length outs' = length inputs \<and> (\<forall>n < length inputs. finished (prefix_data (inputs ! n) (ks' ! n)) (outs' ! n))"
proof -
  obtain c ins ns where x: "x = (c, ins, ns)" by (cases x)
  have w': "pieces inputs ks ns ins" "session ctx v ins c {}" "nodes_in P v (length inputs) c"
      "CCTX_flushChunk xxh alloc ctx graphs cp capacity c ins frame = Inr out" "ks' = map2 (+) ks ns"
    using w x v(1) by auto
  note pd = piecesD [OF w'(1) inputs_okD(2) [OF inp]]
  have ne: "ins \<noteq> []" and le: "length frame \<le> length out" using pd(3) inputs_okD(1) [OF inp] written_prefix [OF w] by auto
  let ?cap = "\<lambda>n. length (data_bytes (inputs ! n))" and ?ns = "\<lambda>n. numElts (inputs ! n)" and ?acc = "\<lambda>n. prefix_data (inputs ! n) (ks ! n)"
  have r: "\<forall>n < length ins. has_room (?cap n) (?ns n) (?acc n) (outs ! n) \<and> fits (?cap n) (?ns n) (?acc n) (ins ! n)"
    using room pieces_fit [OF w'(1) inp] pd(3) by simp
  have h': "announces v cp (map data_type ins) (dfh d)" "nbOutputs d = length ins" "length outs = length ins"
      "nodes_in P v (length ins) c" "nbInputs_ok graphs ZL_GRAPH_STORE (length ins)"
    using h pd(2,3) w'(3) ok(2) by simp_all
  obtain d' outs1 where d': "ZL_DCtx_decompressChunk xxh (\<lambda>_. True) dctx dp d outs (out @ []) (length frame) = Inr (d', outs1, length out - length frame)"
      "length outs1 = length ins" "\<forall>n < length ins. extended v (?cap n) (?ns n) (?acc n) (ins ! n) (outs ! n) (outs1 ! n)"
    using chunk_roundtrip [OF w'(2) pd(1) ne ok(1) h'(5) ok(3) h'(4) P w'(4) small h'(1-3) r, where dp = dp and rest = "[]"]
    by (elim exE conjE) (rule that; assumption)
  have "finished (prefix_data (inputs ! n) (ks' ! n)) (outs1 ! n)" if n: "n < length inputs" for n
    using extended_finished [of v "?cap n" "?ns n" "?acc n" "ins ! n" "outs ! n" "outs1 ! n"] d'(3) pd(3,4) n w'(5)
      wf_prefix(1) [OF inputs_okD(5) [OF inp n]] by simp
  then show ?thesis using d'(1,2) pd(3) le v(2) h(1) by (simp add: announces_def)
qed

section \<open>The round trip of a frame\<close>

definition start_ok :: "(graph_id \<Rightarrow> graph_desc option) \<Rightarrow> nat \<Rightarrow> ZL_Data list \<Rightarrow> starting_graph \<Rightarrow> bool" where
  "start_ok graphs v inputs start = (case start of start_graph gid \<Rightarrow> nbInputs_ok graphs gid (length inputs)
     | start_segmenter masks f \<Rightarrow> seg_graphs_ok graphs (length inputs) (f inputs) \<and> (CHUNK_VERSION_MIN \<le> v \<or> one_chunk (f inputs)))"

text \<open>What the compressor wrote between the frame header and the end marker.\<close>

lemma startCompression_written:
  assumes ok: "graphs_ok graphs" "graph_nodes P graphs" and wf: "list_all wf_data inputs" "inputs \<noteq> []"
    and st: "start_ok graphs (formatVersion ctx) inputs start"
    and r: "CCTX_startCompression xxh alloc ctx graphs cp capacity start inputs frame = Inr out"
  shows "\<exists>cp' xs body. written xxh alloc ctx graphs cp' capacity P inputs (replicate (length inputs) 0) frame xs (map numElts inputs) body
    \<and> xs \<noteq> [] \<and> (formatVersion ctx < CHUNK_VERSION_MIN \<longrightarrow> length xs = 1)
    \<and> (\<exists>gcp. cp' = cp\<lparr>gcparams := gcp\<rparr>)
    \<and> out = (if CHUNK_VERSION_MIN \<le> formatVersion ctx then body @ [0] else body)"
proof -
  let ?z = "replicate (length inputs) (0 :: nat)" and ?n = "map numElts inputs"
  obtain body where b: "out = (if CHUNK_VERSION_MIN \<le> formatVersion ctx then body @ [0] else body)"
      "(case start of start_graph gid \<Rightarrow> res_bind (runChunk ctx graphs (gcparams cp) gid inputs) (\<lambda>cctx.
           CCTX_flushChunk xxh alloc ctx graphs cp capacity cctx inputs frame)
       | start_segmenter masks segfn \<Rightarrow> res_bind (startChunk (formatVersion ctx) inputs) (\<lambda>cctx.
           CCTX_runSegmenter xxh alloc ctx graphs cp capacity masks segfn inputs cctx frame)) = Inr body"
    using r by (auto simp: CCTX_startCompression_def split: if_splits)
  show ?thesis
  proof (cases start)
    case (start_graph gid)
    obtain c where c: "runChunk ctx graphs (gcparams cp) gid inputs = Inr c" "CCTX_flushChunk xxh alloc ctx graphs cp capacity c inputs frame = Inr body"
      using b(2) start_graph by auto
    obtain c1 where c1: "mapInputs \<lparr>rtgraph = RTGM_init, stagingHeaderStream = [], sentHeaderStream = [],
        cc_version = formatVersion ctx, cc_nbInputs = length inputs\<rparr> inputs = Inr c1"
        "CCTX_runSuccessor ctx graphs (gcparams cp) 1023 gid [0..<length inputs] c1 = Inr c"
      using c(1) by (auto simp: runChunk_def startChunk_def split: if_splits)
    have nb: "nbInputs_ok graphs gid (length inputs)" using st start_graph by (simp add: start_ok_def)
    note cr = chunk_run [OF ok(1) nb ok(2) wf _ c1]
    have cl: "cleanChunk (formatVersion ctx) (length inputs) \<lparr>rtgraph = RTGM_init, stagingHeaderStream = [], sentHeaderStream = [],
        cc_version = formatVersion ctx, cc_nbInputs = length inputs\<rparr>"
      by (simp add: cleanChunk_def RTGM_init_def)
    have "pieces inputs ?z ?n inputs" by (simp add: pieces_def STREAM_refStreamSliceWithoutRefCount_def)
    moreover have "map2 (+) ?z ?n = ?n" by (intro nth_equalityI) simp_all
    ultimately have "written xxh alloc ctx graphs cp capacity P inputs ?z frame [(c, inputs, ?n)] ?n body"
      using cr [OF cl] c(2) by simp
    then show ?thesis using b(1) by (intro exI [of _ cp] exI [of _ "[(c, inputs, ?n)]"] exI [of _ body]) (simp add: exI [of _ "gcparams cp"])
  next
    case (start_segmenter masks f)
    let ?cp = "cp\<lparr>gcparams := (gcparams cp)\<lparr>segmented := True\<rparr>\<rparr>"
    obtain c0 where c0: "startChunk (formatVersion ctx) inputs = Inr c0"
        "CCTX_runSegmenter xxh alloc ctx graphs cp capacity masks f inputs c0 frame = Inr body"
      using b(2) start_segmenter by auto
    obtain seg c where s: "segfn_calls xxh alloc ctx graphs ?cp capacity (f inputs) (SEGM_init inputs) (c0\<lparr>rtgraph := RTGM_reset (rtgraph c0)\<rparr>) frame
          = Inr (seg, c, body)" "numChunks seg \<noteq> 0" "\<forall>n < length (seg_inputs seg). numElts (seg_inputs seg ! n) \<le> seg_consumed seg ! n"
      using c0(2) by (auto simp: CCTX_runSegmenter_def SEGM_runSegmenter_def Let_def list_ex_iff not_less split: if_splits)
    have m: "mapInputs \<lparr>rtgraph = RTGM_init, stagingHeaderStream = [], sentHeaderStream = [],
        cc_version = formatVersion ctx, cc_nbInputs = length inputs\<rparr> inputs = Inr c0"
      using c0(1) wf(2) by (simp add: startChunk_def)
    have bc: "between_chunks (formatVersion ctx) (length inputs) (c0\<lparr>rtgraph := RTGM_reset (rtgraph c0)\<rparr>)"
      using mapInputs_nodes(2,3) [OF m] mapInputs_effect [OF m] by (simp add: between_chunks_def same_rest_def)
    have sg: "seg_graphs_ok graphs (length inputs) (f inputs)" "CHUNK_VERSION_MIN \<le> formatVersion ctx \<or> one_chunk (f inputs)"
      using st start_segmenter by (simp_all add: start_ok_def)
    obtain xs where xs: "written xxh alloc ctx graphs ?cp capacity P inputs ?z frame xs (seg_consumed seg) body"
        "numChunks seg = length xs" "seg_inputs seg = inputs" "one_chunk (f inputs) \<longrightarrow> length xs \<le> 1"
      using segfn_written [OF ok wf s(1) sg(1) _ _ bc] by (auto simp: SEGM_init_def)
    have "seg_consumed seg = ?n" by (rule written_consumed [OF xs(1)]) (use s(3) xs(3) wf(1) in auto)
    moreover have "length xs = 1" if "formatVersion ctx < CHUNK_VERSION_MIN" using that sg(2) xs(2,4) s(2) by (cases xs) auto
    ultimately show ?thesis using b(1) xs(1,2) s(2) by (intro exI [of _ ?cp] exI [of _ xs] exI [of _ body]) auto
  qed
qed

lemma same_params [simp]:
  "chunk_props v (cp\<lparr>gcparams := gcp\<rparr>) = chunk_props v cp" "announces v (cp\<lparr>gcparams := gcp\<rparr>) types h = announces v cp types h"
  by (simp_all add: chunk_props_def announces_def)

text \<open>The dictionaries the decompressor has for the frame, and that identifiers of bundles have 32 bytes.\<close>

definition loads :: "nat \<Rightarrow> CParams \<Rightarrow> (byte list \<Rightarrow> bool list ZL_Result) option \<Rightarrow> bool list option \<Rightarrow> bool" where
  "loads v cp loader dicts \<longleftrightarrow> (\<forall>b. dictBundleID cp = Some b \<longrightarrow> length b = 32)
     \<and> (case if ZL_MATERIALIZED_DICT_VERSION_MIN \<le> v then dictBundleID cp else None of None \<Rightarrow> dicts = None
        | Some b \<Rightarrow> (\<exists>l ds. loader = Some l \<and> l b = Inr ds \<and> dicts = Some ds))"

lemma checkSizes_finished:
  assumes "length outs = length inputs" "\<And>n. n < length inputs \<Longrightarrow> finished (inputs ! n) (outs ! n)"
    "fi = decoded_info v (frame_description v cp inputs) k"
  shows "checkSizes fi outs = Inr ()" "map output_data outs = inputs"
proof -
  have "buffer (outs ! n) = data_bytes (inputs ! n)" if "n < length inputs" for n
  proof -
    have "output_data (outs ! n) = inputs ! n" using assms(2) [OF that] by (simp add: finished_def)
    then have "data_bytes (output_data (outs ! n)) = data_bytes (inputs ! n)" by simp
    then show ?thesis by (simp add: output_data_def)
  qed
  then show "checkSizes fi outs = Inr ()"
    using assms by (auto simp: checkSizes_def list_ex_iff finished_def decoded_info_def frame_description_def)
  show "map output_data outs = inputs" using assms(1,2) by (intro nth_equalityI) (simp_all add: finished_def)
qed

lemma frame_decodes:
  fixes ectx dctx
  defines "v \<equiv> formatVersion ectx"
  assumes inp: "inputs_ok inputs" and v: "ZL_isFormatVersionSupported v" and ok: "graphs_ok graphs" "nbInputs_ok graphs ZL_GRAPH_STORE (length inputs)"
    and nodes: "graph_nodes (node_decodes ectx dctx tm v (chunk_props v cp) dicts) graphs"
    and st: "start_ok graphs v inputs start" and ld: "loads v cp loader dicts"
    and r: "CCTX_compressInputs_withGraphSet_stage2 xxh alloc ectx graphs cp capacity start inputs = Inr frame" and small: "length frame < 0xffffffff"
  shows "\<exists>outs. ZL_DCtx_decompressMultiTBuffer xxh (\<lambda>_. True) dctx dp tm loader (replicate (length inputs) STREAM_create) frame = Some (Inr outs)
    \<and> map output_data outs = inputs"
proof -
  let ?P = "node_decodes ectx dctx tm v (chunk_props v cp) dicts" and ?N = "length inputs" and ?z = "replicate (length inputs) (0 :: nat)"
  obtain fh where fh: "writeFrameHeader xxh alloc v cp capacity inputs = Inr fh"
      "CCTX_startCompression xxh alloc ectx graphs cp capacity start inputs fh = Inr frame"
    using r by (auto simp: CCTX_compressInputs_withGraphSet_stage2_def v_def)
  note i = inputs_okD [OF inp]
  obtain cp' xs body where w: "written xxh alloc ectx graphs cp' capacity ?P inputs ?z fh xs (map numElts inputs) body"
      "xs \<noteq> []" "v < CHUNK_VERSION_MIN \<longrightarrow> length xs = 1" "\<exists>gcp. cp' = cp\<lparr>gcparams := gcp\<rparr>"
      "frame = (if CHUNK_VERSION_MIN \<le> v then body @ [0] else body)"
    using startCompression_written [OF ok(1) nodes i(2,1) st [unfolded v_def] fh(2)] unfolding v_def by blast
  have cp': "chunk_props v cp' = chunk_props v cp" "announces v cp' = announces v cp" using w(4) by (auto intro!: ext)
  obtain bs where bs: "body = fh @ bs" using written_prefix [OF w(1)] by blast
  then obtain rest where rest: "frame = fh @ rest" using w(5) by (cases "CHUNK_VERSION_MIN \<le> v") auto
  define fi where "fi = decoded_info v (frame_description v cp inputs) (length fh)"
  have b32: "length b = 32" if "dictBundleID cp = Some b" for b using ld that by (simp add: loads_def)
  obtain h where h: "decodeFrameHeader xxh (\<lambda>_. True) ?N (fh @ rest) = Inr (h, length fh)" "frameinfo h = Some fi"
      "announces v cp (map data_type inputs) h"
    using frame_header_announces [OF v inp b32 fh(1), of rest] unfolding fi_def by blast
  have fb: "fetchBundle loader fi = Inr dicts"
    using ld bundle_fetched [OF fi_def fh(1)] by (auto simp: fetchBundle_def loads_def split: option.splits if_splits)
  let ?room = "\<lambda>n s. (CHUNK_VERSION_MIN \<le> v \<longrightarrow> hasBuffer s)
    \<and> has_room (length (data_bytes (inputs ! n))) (numElts (inputs ! n)) (prefix_data (inputs ! n) (?z ! n)) s"
  have "\<exists>s'. prepareOutput (\<lambda>_. True) fi (0 + n) (replicate ?N STREAM_create ! n) = Inr s' \<and> ?room n s'" if "n < length (replicate ?N STREAM_create)" for n
    using prepared_room [OF inp _ fi_def, of n] that by simp
  from each_output_all [where Q = ?room, OF this] obtain outs where o: "each_output (prepareOutput (\<lambda>_. True) fi) 0 (replicate ?N STREAM_create) = Inr outs"
      "length outs = ?N" "\<forall>n < ?N. ?room n (outs ! n)" by auto
  let ?d = "\<lparr>dtm = tm, dfh = h, dataInfo = [], nodeInputs = [], nbOutputs = ?N, thstream = [], streamEndPos = 0, dctx_bundle = dicts\<rparr>"
  have P: "?P = node_decodes ectx dctx tm v (chunk_props v cp') dicts" by (simp add: cp')
  have sm: "length body < 0xffffffff" using small w(5) by (auto split: if_splits)
  have "\<exists>outs'. decompressChunks xxh (\<lambda>_. True) dctx dp (length frame + 2) ?d outs frame (length fh) = Some (Inr (outs', length frame))
      \<and> length outs' = ?N \<and> (\<forall>n < ?N. finished (prefix_data (inputs ! n) (map numElts inputs ! n)) (outs' ! n))"
  proof (cases "CHUNK_VERSION_MIN \<le> v")
    case True
    then have f: "frame = body @ [0]" using w(5) by simp
    have len: "length fh + length xs \<le> length body" by (rule written_length [OF True [unfolded v_def] ok nodes i(2,1) w(1)])
    have ex: "\<exists>outs'. decompressChunks xxh (\<lambda>_. True) dctx dp (length frame + 2) ?d outs (body @ [0]) (length fh) = Some (Inr (outs', length body + 1))
      \<and> length outs' = ?N \<and> (\<forall>n < ?N. finished (prefix_data (inputs ! n) (map numElts inputs ! n)) (outs' ! n))"
      by (rule chunks_decode [OF v_def [THEN meta_eq_to_obj_eq] True ok nodes P inp sm w(1)]) (use h(3) o(2,3) True w(2) len cp' f in auto)
    then show ?thesis by (simp add: f)
  next
    case False
    then obtain x where x: "xs = [x]" using w(3) by (cases xs) auto
    have f: "frame = body" using w(5) False by simp
    have P': "?P = node_decodes ectx dctx (dtm ?d) v (chunk_props v cp') (dctx_bundle ?d)" by (simp add: cp')
    have "\<exists>outs'. decompressChunks xxh (\<lambda>_. True) dctx dp (Suc (length frame + 1)) ?d outs body (length fh) = Some (Inr (outs', length body))
      \<and> length outs' = ?N \<and> (\<forall>n < ?N. finished (prefix_data (inputs ! n) (map numElts inputs ! n)) (outs' ! n))"
      by (rule one_chunk_decodes [OF v_def [THEN meta_eq_to_obj_eq] _ ok nodes P' inp sm w(1) [unfolded x]]) (use h(3) o(2,3) False cp' in auto)
    then show ?thesis by (simp add: f)
  qed
  then obtain outs' where o': "decompressChunks xxh (\<lambda>_. True) dctx dp (length frame + 2) ?d outs frame (length fh) = Some (Inr (outs', length frame))"
      "length outs' = ?N" "\<forall>n < ?N. finished (prefix_data (inputs ! n) (map numElts inputs ! n)) (outs' ! n)" by blast
  have fin: "finished (inputs ! n) (outs' ! n)" if "n < ?N" for n using o'(3) that wf_prefix(3) [OF i(5) [OF that]] by auto
  note cs = checkSizes_finished [OF o'(2) fin fi_def]
  have "ZL_DCtx_decompressMultiTBuffer xxh (\<lambda>_. True) dctx dp tm loader (replicate ?N STREAM_create) frame = Some (Inr outs')"
    using h(1,2) fb o(1,2) o'(1) cs(1) rest by (simp add: ZL_DCtx_decompressMultiTBuffer_def)
  then show ?thesis using cs(2) by blast
qed

end
