(* ===== verification/Engine_Progress.thy ===== *)
theory Engine_Progress
  imports Engine_Frame
begin

text \<open>
  Decompression ends on every input: each step of the chunk header decoder moves forward in the source, so every chunk takes
  at least one byte, whatever the registered decoders do.
\<close>

section \<open>Steps of the header decoder\<close>

lemma varint_shrinks: "ZL_varintDecode src = Inr (x, rest) \<Longrightarrow> length rest < length src"
proof -
  have "varintDecode_unrolled i val src = Inr (x, rest) \<Longrightarrow> length rest < length src" for i val
    by (induction i val src rule: varintDecode_unrolled.induct) (auto simp: Let_def split: if_splits)
  moreover have "varintDecode_loop i val src = Inr (x, rest) \<Longrightarrow> length rest < length src" for i val
    by (induction i val src rule: varintDecode_loop.induct) (auto split: if_splits)
  ultimately show "ZL_varintDecode src = Inr (x, rest) \<Longrightarrow> length rest < length src"
    by (auto simp: ZL_varintDecode_def split: if_splits)
qed

lemma bitpack_shrinks:
  "checkedBitpackDecode8 n b src = Inr (x, rest) \<Longrightarrow> length rest \<le> length src"
  "checkedBitpackDecode32 n b src = Inr (y, rest) \<Longrightarrow> length rest \<le> length src"
  by (auto simp: checkedBitpackDecode8_def checkedBitpackDecode32_def Let_def split: if_splits)

lemma loops_shrink:
  "pop_trids n src = Inr (x, rest) \<Longrightarrow> length rest \<le> length src"
  "trhSizes_loop fs src = Inr (x, rest) \<Longrightarrow> length rest \<le> length src"
  "nbVOs_loop fs src = Inr (x, rest) \<Longrightarrow> length rest \<le> length src"
  "nbRegens_loop v fs src = Inr (x, rest) \<Longrightarrow> length rest \<le> length src"
  "strSizes_loop n src = Inr (y, rest) \<Longrightarrow> length rest \<le> length src"
proof -
  show "pop_trids n src = Inr (x, rest) \<Longrightarrow> length rest \<le> length src"
    by (induction n arbitrary: src x) (fastforce dest: varint_shrinks split: if_splits)+
  show "trhSizes_loop fs src = Inr (x, rest) \<Longrightarrow> length rest \<le> length src"
    by (induction fs arbitrary: src x) (fastforce dest: varint_shrinks split: if_splits)+
  show "nbVOs_loop fs src = Inr (x, rest) \<Longrightarrow> length rest \<le> length src"
    by (induction fs arbitrary: src x) (fastforce dest: varint_shrinks split: if_splits)+
  show "nbRegens_loop v fs src = Inr (x, rest) \<Longrightarrow> length rest \<le> length src"
    by (induction fs arbitrary: src x) (fastforce dest: varint_shrinks simp: Let_def split: if_splits)+
  show "strSizes_loop n src = Inr (y, rest) \<Longrightarrow> length rest \<le> length src"
    by (induction n arbitrary: src y) (fastforce dest: varint_shrinks split: if_splits)+
qed

lemma steps_shrink:
  "decompressTrt n src = Inr (a, rest) \<Longrightarrow> length rest \<le> length src"
  "decompressTrID v ts src = Inr (b, rest) \<Longrightarrow> length rest \<le> length src"
  "decompressTrHSize n src = Inr (b, rest) \<Longrightarrow> length rest \<le> length src"
  "decompressNbVOs n src = Inr (b, rest) \<Longrightarrow> length rest \<le> length src"
  "decompressNbRegens v n src = Inr (b, rest) \<Longrightarrow> length rest \<le> length src"
  "decompressDictIdxs n src = Inr (b, rest) \<Longrightarrow> length rest \<le> length src"
  "decompress_regenStreamID_distances n k src = Inr (b, rest) \<Longrightarrow> length rest \<le> length src"
  "decompressStrSizes n src = Inr (c, rest) \<Longrightarrow> length rest \<le> length src"
  "decodeFlags v h src = Inr (h', rest) \<Longrightarrow> length rest \<le> length src"
proof -
  show "decompressTrt n src = Inr (a, rest) \<Longrightarrow> length rest \<le> length src" by (auto simp: decompressTrt_def dest: bitpack_shrinks)
  show "decompressTrID v ts src = Inr (b, rest) \<Longrightarrow> length rest \<le> length src"
    by (auto simp: decompressTrID_def Let_def dest!: bitpack_shrinks loops_shrink split: if_splits)
  show "decompressTrHSize n src = Inr (b, rest) \<Longrightarrow> length rest \<le> length src"
    by (auto simp: decompressTrHSize_def dest!: bitpack_shrinks loops_shrink)
  show "decompressNbVOs n src = Inr (b, rest) \<Longrightarrow> length rest \<le> length src"
    by (auto simp: decompressNbVOs_def dest!: bitpack_shrinks loops_shrink)
  show "decompressNbRegens v n src = Inr (b, rest) \<Longrightarrow> length rest \<le> length src"
    by (auto simp: decompressNbRegens_def dest!: bitpack_shrinks loops_shrink)
  show "decompressDictIdxs n src = Inr (b, rest) \<Longrightarrow> length rest \<le> length src"
    by (auto simp: decompressDictIdxs_def Let_def dest!: bitpack_shrinks split: if_splits)
  show "decompress_regenStreamID_distances n k src = Inr (b, rest) \<Longrightarrow> length rest \<le> length src"
    by (auto simp: decompress_regenStreamID_distances_def dest: bitpack_shrinks)
  show "decompressStrSizes n src = Inr (c, rest) \<Longrightarrow> length rest \<le> length src"
    by (auto simp: decompressStrSizes_def dest: loops_shrink split: if_splits)
  show "decodeFlags v h src = Inr (h', rest) \<Longrightarrow> length rest \<le> length src"
    by (auto simp: decodeFlags_def split: if_splits)
qed

lemma counts_shrink: "decodeCounts v src = Inr (x, rest) \<Longrightarrow> 2 \<le> length src \<Longrightarrow> length rest < length src"
  by (auto simp: decodeCounts_def Let_def dest!: varint_shrinks split: if_splits)

lemma optional_step_shrinks:
  "(if c then decompressNbRegens v n src else Inr (r, src)) = Inr (b, rest) \<Longrightarrow> length rest \<le> length src"
  "(if c then decompressDictIdxs n src else Inr (r, src)) = Inr (b, rest) \<Longrightarrow> length rest \<le> length src"
  by (auto dest: steps_shrink split: if_splits)

lemma header_takes_bytes:
  assumes "decodeChunkHeader_internal alloc h src = Inr (h', hsize)"
  shows "1 \<le> hsize" "hsize \<le> length src"
proof -
  have "\<exists>rest :: byte list. hsize = length src - length rest \<and> length rest < length src"
    using assms unfolding decodeChunkHeader_internal_def Let_def
    apply (simp only: if_Inl_Inr res_bind_eq_Inr split_paired_Ex prod.case sum.inject prod.inject not_less)
    apply (elim exE conjE)
    apply (drule counts_shrink, assumption)
    apply (drule steps_shrink optional_step_shrinks)+
    apply (rule exI, rule conjI, rule sym, assumption, linarith)
    done
  then show "1 \<le> hsize" "hsize \<le> length src" by auto
qed

section \<open>The main loop\<close>

lemma hashes_advance:
  "readContentHash d frame pos = Inr (hash, pos') \<Longrightarrow> pos \<le> pos'"
  "verifyCompressedHash xxh dp d frame start pos = Inr pos' \<Longrightarrow> pos \<le> pos'"
  by (auto simp: readContentHash_def verifyCompressedHash_def split: if_splits)

lemma chunk_takes_bytes:
  assumes "ZL_DCtx_decompressChunk xxh alloc ctx dp d outs frame pos = Inr (d', outs', n)"
  shows "1 \<le> n"
proof -
  obtain d1 hash where "setupChunkDecode xxh alloc dp d frame pos = Inr (d1, hash, n)"
    using assms by (auto simp: ZL_DCtx_decompressChunk_def)
  then obtain h hsize m c e where s: "decodeChunkHeader_internal alloc (dfh (cleanChunkBuffers d)) (drop pos frame) = Inr (h, hsize)"
      "readContentHash d1 frame (pos + hsize + m) = Inr (hash, c)" "verifyCompressedHash xxh dp d1 frame pos c = Inr e" "n = e - pos"
    by (auto simp: setupChunkDecode_def Let_def)
  have "pos + hsize + m \<le> e" using hashes_advance(1) [OF s(2)] hashes_advance(2) [OF s(3)] by simp
  then show ?thesis using header_takes_bytes(1) [OF s(1)] s(4) by simp
qed

lemma loop_returns:
  "length frame - pos < fuel \<Longrightarrow> decompressChunks xxh alloc ctx dp fuel d outs frame pos \<noteq> None"
proof (induction fuel arbitrary: d outs pos)
  case (Suc fuel)
  let ?chunked = "CHUNK_VERSION_MIN \<le> dfh_formatVersion (dfh d)"
  show ?case
  proof (cases "ZL_DCtx_decompressChunk xxh alloc ctx dp d outs frame pos")
    case (Inr r)
    obtain d' outs' n where r: "r = (d', outs', n)" by (cases r)
    have "1 \<le> n" using chunk_takes_bytes Inr r by blast
    then have "decompressChunks xxh alloc ctx dp fuel d' outs' frame (pos + n) \<noteq> None" if "\<not> length frame < pos + 1"
      using Suc that by simp
    then show ?thesis using Inr r by (auto simp: Let_def)
  qed (simp add: Let_def)
qed simp

end
