(* ===== verification/Engine_Theorems.thy ===== *)
theory Engine_Theorems
  imports Engine_Progress Chunk_Bounds
begin

text \<open>
  What compression and decompression promise together, with an example that runs through all of it: one numeric
  input, stored, for which the engine inserts a conversion to bytes.
\<close>

section \<open>The standard nodes\<close>

lemma standard_nodes_decode:
  assumes tm: "SDecoders_array tm = SDecoders m others" and v: "v \<le> ZL_MAX_FORMAT_VERSION"
    and ctx: "formatVersion dctx = formatVersion ectx" "\<And>n. ctx_alloc dctx n"
  shows "node_decodes ectx dctx tm v fp dicts (ER_standardNodes n)"
proof -
  have "maybeDictIndex (ER_standardNodes n) = ZL_DICT_INDEX_NONE" "unat (trid (cn_trInfo (ER_standardNodes n))) < 2 ^ 6"
    by (cases n; simp add: REGISTER_TRANSFORM_def)+
  moreover have "(2 :: nat) ^ 6 \<le> 2 ^ ZL_StandardTransformID_numBits v" by (simp add: numBits)
  ultimately show ?thesis
    using standard_nodes_decodable [OF tm _ v ctx] by (auto simp: node_decodes_def dict_ok_def intro: less_le_trans)
qed

definition custom_nodes :: "(CNode \<Rightarrow> bool) \<Rightarrow> (nat \<Rightarrow> graph_desc option) \<Rightarrow> bool" where
  "custom_nodes P cgraph \<longleftrightarrow> (\<forall>gid masks var f ins. cgraph gid = Some (gt_miGraph masks var f) \<longrightarrow> all_nodes P (f ins))"

section \<open>An example\<close>

definition example_input :: ZL_Data where "example_input = numeric 2 [1, 2, 3, 4]"

definition example_cparams :: CParams where
  "example_cparams = \<lparr>gcparams = \<lparr>minStreamSize = 0, segmented = False\<rparr>, contentChecksum = True, compressedChecksum = True,
     storeOnExpansion = False, dictBundleID = None, headerComment = []\<rparr>"

definition example_cctx :: ZL_CCtx where
  "example_cctx = \<lparr>rtgraph =
     \<lparr>rt_nodes = [\<lparr>cnode = ER_standardNodes ZL_StandardNodeID_convert_num_to_serial_le, inRtsids = [0], startOutRtsids = 1, nbOutStreams = 1,
        nodeHeaderSegment = \<lparr>startPos = 0, len = 1\<rparr>\<rparr>],
      streams = [\<lparr>stream = Some example_input, outcomeID = 0, toStore = False, protectRank = 1\<rparr>,
        \<lparr>stream = Some (serial [1, 2, 3, 4]), outcomeID = 0, toStore = True, protectRank = 0\<rparr>],
      nextStreamUniqueID = 2\<rparr>,
     stagingHeaderStream = [1], sentHeaderStream = [], cc_version = 27, cc_nbInputs = 1\<rparr>"

lemma example_wf: "wf_data example_input"
  by (simp add: wf_data_def example_input_def STREAM_validateTypeWidth_def)

lemma runSuccessor_step:
  "0 < n \<Longrightarrow> CCTX_runSuccessor ctx graphs params n graphid ids cctx =
     (let depth = word_of_nat (ZL_MAX_GRAPH_DEPTH - n);
          isSegmentable = (ids ! 0 = 0 \<and> length ids = cc_nbInputs cctx \<and> \<not> segmented params \<and> RTGM_getNbNodes (rtgraph cctx) = 0);
          cctx = cctx\<lparr>rtgraph := foldl (\<lambda>g i. RTGM_guardRTStream g i depth) (rtgraph cctx) ids\<rparr> in
      res_bind (CCTX_runSuccessor_internal ctx graphs params (CCTX_runSuccessor ctx graphs params (n - 1)) graphid ids cctx) (\<lambda>cctx.
      Inr (if isSegmentable then cctx
           else cctx\<lparr>rtgraph := foldl (\<lambda>g i. RTGM_clearRTStream g i depth) (rtgraph cctx) ids\<rparr>)))"
  by (cases n) (simp_all add: Let_def)

lemmas run_defs = runChunk_def startChunk_def RTGM_refInput_def RTGM_init_def runSuccessor_step CCTX_runSuccessor_internal_def
  CCTX_runSupervisedGraphID_def CCTX_convertInputs_internal_def CCTX_runGraphDesc_def RTGM_guardRTStream_def RTGM_getRStream_def
  RTGM_getNbNodes_def SCTX_initInput_def MultiInputGraph_store_def ZL_Edge_setParameterizedDestination_def GCTX_checkSuccessors_def
  GCTX_getSuccessors_def GR_selectorWrapper_def SI_selector_store_def CCTX_storeStream_def RTGM_storeStream_def RTGM_clearRTStream_def
  ZL_runtimeStreamLimit_def ICONV_implicitConversionNodeID_def CCTX_runCNode_wParams_def CNODE_isNbInputsCompatible_def
  CNODE_getNbInputPorts_def CNODE_getInputType_def ZL_runtimeNodeInputLimit_def ZL_runtimeInputLimit_def ZL_runtimeNodeLimit_def
  RTGM_createNode_def CNODE_getNbOut1s_def ENC_runTransform_def ENC_runTransform_internal_def CCTX_getNewStream_def RTGM_addStream_def
  RTGM_reserveOutputStreamSlot_def RTGM_registerOutputStream_def RTGM_getCNode_def CNODE_isVO_def CNODE_getOutStreamType_def
  CCTX_sendTrHeader_def appendToVector_def RTGM_setNodeHeaderSegment_def CCTX_checkOutputCommitted_def RTGM_getNbOutStreams_def
  RTGM_getOutStreamID_def REGISTER_TRANSFORM_def ZL_transformOutStreamsLimit_def EI_convert_num_to_serial_le_def STREAM_validateTypeWidth_def

abbreviation stores :: "graph_id \<Rightarrow> graph_desc option" where
  "stores \<equiv> GR_standardGraphs (\<lambda>_. None)"

lemma example_run: "runChunk (big_ctx 27) stores (gcparams example_cparams) ZL_GRAPH_STORE [example_input] = Inr example_cctx"
proof -
  have "ZL_nextPow2 2 = 1" by code_simp
  moreover have "(0 :: u32) < - 1" by code_simp
  ultimately show ?thesis
    by (simp add: run_defs example_cctx_def example_input_def example_cparams_def Let_def del: res_bind_eq_Inr)
qed

definition example_info :: GraphInfo where
  "example_info = \<lparr>nbSessionInputs = 1, trInfo = [\<lparr>trt = trt_standard, trid = 10\<rparr>], trHSizes = [1], gi_nbVOs = [0], nbTrInputs = [1],
     dictIdxs = [- 1], distances = [1], storedBuffs = [1, 4]\<rparr>"

lemma example_final: "CCTX_getFinalGraph example_cctx = Inr (example_info, [[1], [1, 2, 3, 4]])"
  by (simp add: CCTX_getFinalGraph_def example_cctx_def example_info_def RTGM_getNbNodes_def RTGM_getNbStreams_def ZL_runtimeNodeLimit_def
      ZL_runtimeStreamLimit_def ZL_runtimeInputLimit_def RTGM_nodeHeaderSegment_def RTGM_getNbOutStreams_def RTGM_getCNode_def CNODE_getNbOut1s_def
      REGISTER_TRANSFORM_def ZL_RBuffer_slice_def appendToVector_def CCTX_listBuffersToStore_def RTGM_listBuffersToStore_def
      RTGM_getNbInStreams_def RTGM_getInputDistance_def RTGM_getInStreamID_def Let_def)

lemma room_left:
  assumes "length frame + n \<le> capacity" "capacity < 2 ^ 64"
  shows "\<not> room capacity frame < word_of_nat n"
proof -
  have "unat (room capacity frame) = capacity - length frame"
    using assms by (subst unat_sub) (simp_all add: word_le_nat_alt unat_of_nat)
  then show ?thesis using assms by (simp add: word_less_nat_alt unat_of_nat)
qed


lemma example_frame_header:
  "\<exists>fh. writeFrameHeader (\<lambda>_. 7) (\<lambda>_. True) 27 example_cparams 1000 [example_input] = Inr fh \<and> length fh \<le> 45"
proof -
  let ?fip = "frame_description 27 example_cparams [example_input]"
  have d: "length (inputDescs ?fip) = 1" "fh_comment ?fip = []" "\<not> hasComment (fprop ?fip)" "\<not> hasBundle 27 (fprop ?fip)"
      "length (bundleID ?fip) = 32"
    by (simp_all add: frame_description_def example_cparams_def hasBundle_def)
  have b: "frameHeaderBound 27 ?fip = Inr 45" using d by (simp add: frameHeaderBound_eq)
  have "inputDescs ?fip \<noteq> []" using d(1) by auto
  then have "\<exists>fh. writeFrameHeader_internal (\<lambda>_. 7) 27 ?fip 1000 = Inr fh \<and> length fh \<le> 45"
    using frame_header_written [OF _ _ _ _ _ _ _ _ _ b, of 1000] d by simp
  then show ?thesis using d(1)
    by (auto simp: writeFrameHeader_def EFH_writeFrameHeader_def computeFHBound_eq ZL_runtimeInputLimit_def)
qed

lemma example_info_ok: "graph_ok 27 example_info"
  by (simp add: graph_ok_def example_info_def numBits ZL_runtimeNodeInputLimit_def ZL_runtimeInputLimit_def ZL_runtimeStreamLimit_def)

lemma example_chunk_header:
  assumes "100 \<le> cap"
  shows "\<exists>ch. EFH_writeChunkHeader (\<lambda>_. True) 27 fp example_info cap = Inr ch \<and> writeChunkHeaderV8_internal 27 fp example_info cap = Inr ch
    \<and> length ch \<le> 100"
proof -
  have "ZL_varintSize 1 = 1" by code_simp
  then have b: "computeFHBound (nbSessionInputs example_info) (length (trInfo example_info)) (length (storedBuffs example_info))
      (length (distances example_info)) = Inr 74"
    by (simp add: example_info_def computeFHBound_positive)
  obtain ch where ch: "EFH_writeChunkHeader (\<lambda>_. True) 27 fp example_info cap = Inr ch" "writeChunkHeaderV8_internal 27 fp example_info cap = Inr ch"
    using chunk_header_written [OF _ _ _ _ _ b, of 27 cap] assms by (auto simp: example_info_def)
  have "length ch \<le> 74" by (rule chunk_header_length [OF example_info_ok ch(2) _ b]) (simp add: example_info_def)
  then show ?thesis using ch by auto
qed

lemma example_compresses:
  "\<exists>frame. CCTX_compressInputs_withGraphSet_stage2 (\<lambda>_. 7) (\<lambda>_. True) (big_ctx 27) stores example_cparams 1000
     (start_graph ZL_GRAPH_STORE) [example_input] = Inr frame \<and> length frame < 0xffffffff"
proof -
  obtain fh where fh: "writeFrameHeader (\<lambda>_. 7) (\<lambda>_. True) 27 example_cparams 1000 [example_input] = Inr fh" "length fh \<le> 45"
    using example_frame_header by blast
  obtain ch where ch: "CCTX_writeChunkHeader (\<lambda>_. True) 27 example_cparams example_info (1000 - length fh) = Inr ch" "length ch \<le> 100"
    using example_chunk_header [of "1000 - length fh"] fh(2) unfolding CCTX_writeChunkHeader_def by fastforce
  have v: "cc_version example_cctx = 27" "formatVersion (big_ctx 27) = 27" "contentChecksum example_cparams" "compressedChecksum example_cparams"
      "\<not> storeOnExpansion example_cparams"
    by (simp_all add: example_cctx_def example_cparams_def)
  have cc: "chunkContent (\<lambda>_. True) (big_ctx 27) stores example_cparams (1000 - length fh) example_cctx [example_input]
      = Inr (ch, [[1], [1, 2, 3, 4]])"
    using ch(1) by (simp add: chunkContent_def v example_final Let_def)
  have "\<not> room 1000 (fh @ ch) < word_of_nat 1" "\<not> room 1000 (fh @ ch @ [1]) < word_of_nat 4"
      "\<not> room 1000 (fh @ ch @ [1, 1, 2, 3, 4]) < word_of_nat 4"
      "\<And>h :: u32. \<not> room 1000 (fh @ ch @ [1, 1, 2, 3, 4] @ write_le 4 h) < word_of_nat 4"
      "\<And>h h' :: u32. \<not> room 1000 (fh @ ch @ [1, 1, 2, 3, 4] @ write_le 4 h @ write_le 4 h') < word_of_nat 1"
    using fh(2) ch(2) by (intro room_left; simp)+
  moreover have "unat (word_of_nat (length fh + length ch) :: size_t) < 987" using fh(2) ch(2) by (simp add: unat_of_nat del: of_nat_add)
  then have "word_of_nat (length fh) + word_of_nat (length ch) \<noteq> (987 :: size_t)" by auto
  ultimately show ?thesis
    using fh ch cc by (simp add: CCTX_compressInputs_withGraphSet_stage2_def CCTX_startCompression_def v example_run CCTX_flushChunk_def
        appendContentChecksum_def appendCompressedChecksum_def STREAM_hashLastCommit_xxh3low32_def STREAM_ref_def Let_def)
qed


definition example_machine :: machine where
  "example_machine = \<lparr>has_simd = False, has_avx2 = False, input_aligned = True, fresh_byte = (\<lambda>_ _. 0)\<rparr>"

definition example_others :: "u32 \<Rightarrow> StandardDTransform" where
  "example_others = (\<lambda>_. REGISTER_TTRANSFORM_G 3 ZL_Type_numeric [ZL_Type_numeric] [] (\<lambda>ctx h ins. Some (DI_zigzag_num ctx h ins)))"

definition example_tm :: DTransforms_manager where
  "example_tm = \<lparr>SDecoders_array = SDecoders example_machine example_others, dtmap = Map.empty\<rparr>"

definition example_dctx :: ZL_DCtx where
  "example_dctx = \<lparr>dtm = example_tm, dfh = decoded_chunk 27 example_props example_info example_dfh, dataInfo = [], nodeInputs = [], nbOutputs = 1,
     thstream = [], streamEndPos = 0, dctx_bundle = None\<rparr>"

lemma example_fill:
  "fillStoredStreams example_dctx [1, 1, 2, 3, 4] 0 = Inr (example_dctx
     \<lparr>dataInfo := [\<lparr>di_data = Some (serial [1, 2, 3, 4]), producerNodeIdx = None\<rparr>, \<lparr>di_data = None, producerNodeIdx = Some 0\<rparr>],
      nodeInputs := [(0, 1)], thstream := [1], streamEndPos := 5\<rparr>, 5)"
  by (simp add: fillStoredStreams_def example_dctx_def decoded_chunk_def example_info_def example_dfh_def chunk_node_def ZL_runtimeStreamLimit_def
      DTM_getTransform_def DTM_getStandardTransform_def example_tm_def SDecoders_def REGISTER_TTRANSFORM_G_def DCTX_validateNodeStatic_def
      ZL_transformOutStreamsLimit_def DT_isNbRegensCompatible_def Let_def)

section \<open>Properties\<close>



text \<open>
  C2: Decompression always returns. Whatever bytes it is given, truncated, corrupted or hostile, whatever the
  outputs, the registered decoders, the dictionary loader and the allocator do, the loop over the chunks ends after at most as many
  rounds as the frame has bytes: the result is the outputs or an error, never a loop without end.
\<close>

theorem decompress_returns:
  "ZL_DCtx_decompressMultiTBuffer xxh alloc ctx dp tm loader outputs frame \<noteq> None"
proof -
  have "\<exists>r. decompressChunks xxh alloc ctx dp (length frame + 2) d outs frame pos = Some r" for d outs pos
    by (rule iffD1 [OF not_None_eq loop_returns]) simp
  then show ?thesis
    by (simp add: ZL_DCtx_decompressMultiTBuffer_def Let_def del: decompressChunks.simps split: sum.split option.split) (metis option.distinct(1))
qed










text \<open>
  C4: For every sequence of bytes whose header the chunk decoder accepts and whose streams it can place,
  and whatever the registered decoders do: each time a decoder is about to run, all its input streams are there, so
  no codec is handed a null stream, and the streams it has to regenerate are inside the array of the
  chunk, are pairwise different and are not there yet. A graph with cycles or with conflicting
  producers never gets this far.
\<close>

theorem decoder_inputs_ready:
  assumes "decodeChunkHeader_internal alloc h0 chunk = Inr (h, hsize)"
    "fillStoredStreams (d\<lparr>dfh := h\<rparr>) src start = Inr (d0, n)"
    "t < length (nodes h)" "runStages ctx d0 [0..<t] = Inr dt"
  defines "ids \<equiv> DCTX_getRegeneratedStreamIDs (nodes h ! t) (nodeInputs dt ! t)"
  shows "None \<notin> set (DCTX_getNodeInputs dt (nodeInputs dt ! t))
    \<and> distinct ids \<and> (\<forall>i \<in> set ids. i < length (dataInfo dt) \<and> di_data (dataInfo dt ! i) = None)"
proof -
  have "\<forall>nd \<in> set (nodes (dfh (d\<lparr>dfh := h\<rparr>))). length (regenDistances nd) = unat (nbRegens nd)"
    using decoded_regens [OF assms(1)] by simp
  note f = fillStoredStreams_ready [OF assms(2) this]
  have r: "ready dt t" "dfh dt = h" using ready_stages [OF assms(4) f(1)] f(2) assms(3) by simp_all
  have t: "t < length (nodes (dfh dt))" using assms(3) r(2) by simp
  have "di_data (dataInfo dt ! (unat (fst (nodeInputs dt ! t)) + n)) \<noteq> None" if "n < unat (snd (nodeInputs dt ! t))" for n
    using ready_inputs [OF r(1) t] that by simp
  then have "None \<notin> set (DCTX_getNodeInputs dt (nodeInputs dt ! t))"
    unfolding DCTX_getNodeInputs_def by fastforce
  then show ?thesis
    using ready_regens [OF r(1) t] readyD(3) [OF r(1) t] unfolding ids_def r(2) by blast
qed

theorem decoder_inputs_ready_witness:
  "\<exists>d0. fillStoredStreams example_dctx [1, 1, 2, 3, 4] 0 = Inr (d0, 5) \<and> None \<notin> set (DCTX_getNodeInputs d0 (0, 1))"
proof -
  obtain ch where ch: "writeChunkHeaderV8_internal 27 example_props example_info 500 = Inr ch"
    using example_chunk_header [of 500] by auto
  have "dfh_formatVersion example_dfh = 27" "hasBundleDecl example_dfh = hasBundleID example_props"
    by (simp_all add: example_dfh_def hasBundleDecl_def)
  from chunk_header_decodes [OF example_info_ok this(1) _ ch, of "[]"] this(2)
  have d: "decodeChunkHeader_internal (\<lambda>_. True) example_dfh ch = Inr (dfh example_dctx, length ch)"
    by (simp add: example_dctx_def)
  have f: "fillStoredStreams (example_dctx\<lparr>dfh := dfh example_dctx\<rparr>) [1, 1, 2, 3, 4] 0 = Inr (example_dctx
     \<lparr>dataInfo := [\<lparr>di_data = Some (serial [1, 2, 3, 4]), producerNodeIdx = None\<rparr>, \<lparr>di_data = None, producerNodeIdx = Some 0\<rparr>],
      nodeInputs := [(0, 1)], thstream := [1], streamEndPos := 5\<rparr>, 5)" (is "_ = Inr (?d0, _)")
    using example_fill by simp
  have "None \<notin> set (DCTX_getNodeInputs ?d0 (nodeInputs ?d0 ! 0))"
    using decoder_inputs_ready [OF d f, of 0 "big_ctx 27" ?d0] by (simp add: example_dctx_def decoded_chunk_def example_info_def)
  then show ?thesis using example_fill by auto
qed

section \<open>The serial segmenter\<close>

text \<open>The calls of a segmenter function, when they succeed.\<close>

primrec planned_chunks :: "segmenter_fn \<Rightarrow> nat list list" where
  "planned_chunks (process_chunk ns gid k) = ns # planned_chunks (k 0)"
| "planned_chunks (segmenter_return r) = []"

lemma planned_segments:
  "0 < c \<Longrightarrow> planned_chunks (segment_calls c gid n) = map (\<lambda>k. [k]) (replicate ((n - 1) div c) c @ [n - (n - 1) div c * c])"
proof (induction c gid n rule: segment_calls.induct)
  case (1 c gid n)
  show ?case
  proof (cases "c < n")
    case True
    have "(n - 1) div c = Suc ((n - c - 1) div c)" using True 1(2) by (simp add: le_div_geq)
    then show ?thesis using 1 True by (subst segment_calls.simps) simp
  next
    case False
    then have "(n - 1) div c = 0" using 1(2) by simp
    then show ?thesis using False by (subst segment_calls.simps) simp
  qed
qed

text \<open>
  C8: The serial segmenter cuts its input as documented: from format version 21 on, chunks of exactly the requested
  size and one last chunk with the rest, which is never larger than the others, and is empty only when the whole input is.
  Every byte is in exactly one chunk, also when the size of the input is a multiple of the size of the chunks.
\<close>

theorem serial_segmenter_cuts:
  assumes "CHUNK_VERSION_MIN \<le> v" "0 < sint p" "data_type d = ZL_Type_serial"
  defines "n \<equiv> length (data_bytes d)" and "c \<equiv> nat (sint p)"
  shows "planned_chunks (SEGM_serial v (Some p) (headGraph # gs) [d])
      = map (\<lambda>k. [k]) (replicate ((n - 1) div c) c @ [n - (n - 1) div c * c])
    \<and> n - (n - 1) div c * c \<le> c \<and> (0 < n \<longrightarrow> 0 < n - (n - 1) div c * c)"
proof -
  have c: "0 < c" using assms(2) by (simp add: c_def)
  have "(n - 1) = (n - 1) div c * c + (n - 1) mod c" by simp
  moreover have "(n - 1) mod c < c" using c by simp
  ultimately have "n - (n - 1) div c * c \<le> c \<and> (0 < n \<longrightarrow> 0 < n - (n - 1) div c * c)" by linarith
  then show ?thesis using planned_segments [OF c] assms(1,2) c by (simp add: SEGM_serial_def n_def c_def Let_def)
qed

theorem serial_segmenter_cuts_witness:
  "planned_chunks (SEGM_serial 27 (Some 4) [ZL_GRAPH_STORE] [serial (replicate 10 0)]) = [[4], [4], [2]]"
proof -
  have "sint (4 :: 32 word) = 4" by code_simp
  with serial_segmenter_cuts [of 27 4 "serial (replicate 10 0)" ZL_GRAPH_STORE "[]"] show ?thesis
    by (simp add: numeral_2_eq_2)
qed

end
