(* ===== verification/Spec2Isabelle.thy ===== *)
theory Spec2Isabelle
  imports Varint SDDL2_Chunks_Plan Codec_Delta Codec_Zigzag Codec_Constant Codec_RangePack Codec_Sentinel
    Codec_SparseNum Codec_Dispatch Frame_Query Chunk_Bounds Engine_Theorems
begin

text \<open>
  OpenZL, a format-aware compression library. A compressor is a graph of codecs: an input is cut
  and transformed by codecs until every leaf is a stream that is stored; the frame records the
  graph, the private headers of the codecs and the stored streams, and one universal decoder runs
  the graph backwards. This library models the whole way from inputs to frame and back: the
  representation of numbers and memory, the frame and chunk headers, a family of codecs in both directions, the
  engines that run graphs of codecs forwards and backwards, and the SDDL2 virtual machine that describes how a file is
  cut into typed segments. Its main theorem, \<open>compress_decompress\<close>, says that what the compressor writes the
  decompressor restores.
  Paths are relative to \<^verbatim>\<open>src/src/openzl\<close>.

  \<^bold>\<open>Foundations.\<close>
  \<^item> \<open>Prelude\<close>: machine types, error codes, results (\<open>Inl\<close> an error), lemmas on words and lists.
  \<^item> \<open>Mem\<close> (\<^verbatim>\<open>shared/mem.h\<close>, \<^verbatim>\<open>shared/bits.h\<close>, \<^verbatim>\<open>shared/overflow.h\<close>): reads, writes and byte swaps, arrays
    of words as bytes, overflow tests. The platform is little endian with 64-bit pointers.
  \<^item> \<open>Varint\<close> (\<^verbatim>\<open>shared/varint.h\<close>): encoder, lax and strict decoders; round trip, and the strict
    decoders accept exactly the canonical encodings.
  \<^item> \<open>NumOps\<close> (\<^verbatim>\<open>shared/numeric_operations.c\<close>, \<^verbatim>\<open>shared/estimate.c\<close>): sums, maxima, limits, least
    widths, conversions between widths.

  \<^bold>\<open>Frame header\<close> (\<^verbatim>\<open>compress/encode_frameheader.c\<close>, \<^verbatim>\<open>decompress/decode_frameheader.c\<close>).
  \<^item> \<open>Wire_Format\<close>: magic numbers, versions 8 to 27, limits, unique identifiers.
  \<^item> \<open>Frame_Header\<close>: writer, decoder and queries. A header is a list of bytes; a decoding step takes
    the source and the bytes consumed so far, as \<^verbatim>\<open>consumed\<close> in the code. The hash \<^verbatim>\<open>XXH3_64bits\<close> and
    the success of an allocation are parameters; nothing is assumed of them.
  \<^item> \<open>Frame_Roundtrip\<close>: the decoder reads back what the writer wrote, for every version (the three
    layouts of the packed types are one lemma on bit pairs, \<open>packs\<close>); the bound is enough.
  \<^item> \<open>Frame_Query\<close>: the queries that parse the header on their own.

  \<^bold>\<open>Chunk header.\<close>
  \<^item> \<open>Bitpack\<close> (\<^verbatim>\<open>codecs/bitpack/common_bitpack_kernel.c\<close>): the generic packer and unpacker.
    Every variant writes and reads one bit stream, \<open>stream_bits\<close>.
  \<^item> \<open>Chunk_Header\<close>: writer and decoder of the graph description of a chunk. \<open>Chunk_Roundtrip\<close>: the decoder
    reads back the graph; \<open>Chunk_Bounds\<close>: when the computed bound is enough, and when it is not.

  \<^bold>\<open>Codecs\<close> (\<^verbatim>\<open>codecs/\<close>). \<open>Codec_Stream\<close> has the typed streams a codec reads and makes and the locale
  \<open>codec\<close>: an encoder that gives streams and a private header, and a decoder that must give the input
  back. Each codec theory models kernels and bindings and interprets the locale.
  \<^item> \<open>Codec_Delta\<close>: scalar and SSSE3 kernels agree; both header layouts round trip.
  \<^item> \<open>Codec_Zigzag\<close>, \<open>Codec_RangePack\<close>, \<open>Codec_Sentinel\<close>, \<open>Codec_SparseNum\<close>.
  \<^item> \<open>Codec_Constant\<close>: the kernels write into an explicit destination, so that the overlapping
    32-byte stores are seen to stay inside it.
  \<^item> \<open>Codec_Dispatch\<close>: a copy out of the bounds of a buffer is \<^const>\<open>None\<close>; round trip, and safety of
    the decoder on streams nobody encoded, with the wrap-around that breaks it.
  \<^item> \<open>Codec_DivideBy\<close>: the inverse of an odd number modulo a power of two, the greatest common divisor, exact quotients
    at every width (locale \<open>divider\<close>); round trip, and the encoder returns.
  \<^item> \<open>Codec_Conversion\<close>: the conversions between serial, struct, numeric and string streams.
  \<^item> \<open>Registry\<close> (\<^verbatim>\<open>codecs/encoder_registry.c\<close>, \<^verbatim>\<open>codecs/decoder_registry.c\<close>): the tables of both sides for these
    codecs; a codec of the locale, registered on both sides, gives a node that its decoder inverts. The entries of codecs not
    modelled are a parameter.

  \<^bold>\<open>Compression\<close> (\<^verbatim>\<open>compress/\<close>). The state is the runtime graph, two buffers of codec headers and the frame so far.
  \<^item> \<open>RT_Graph\<close> (\<^verbatim>\<open>rtgraphs.c\<close>, \<^verbatim>\<open>cnode.c\<close>): nodes and streams of a chunk. \<open>Engine_Encode\<close> (\<^verbatim>\<open>cctx.c\<close>,
    \<^verbatim>\<open>enc_interface.c\<close>): running a node, storing a stream, the description of the finished graph; the relation \<open>session\<close>
    has every order of these steps.
  \<^item> \<open>Engine_Invariant\<close>, \<open>Engine_Session\<close>: the invariant \<open>sound\<close> of the runtime graph, by induction on sessions.
  \<^item> \<open>Engine_Graph\<close> (\<^verbatim>\<open>cctx.c\<close>, \<^verbatim>\<open>dyngraph_interface.c\<close>, \<^verbatim>\<open>graph_registry.c\<close>, \<^verbatim>\<open>implicit_conversion.c\<close>): graph
    functions as trees of the calls they make, successors, inserted conversions, the depth limit.
    \<open>Engine_Run\<close>: a run is a session in which no stream is left over; \<open>Engine_Nodes\<close>: which nodes a run uses.
  \<^item> \<open>Output_Stream\<close> (\<^verbatim>\<open>common/stream.c\<close>): buffers that are reserved, appended to and committed; hashes.
  \<^item> \<open>Engine_Chunk\<close>: writing and reading one chunk. \<open>Segmenter\<close> (\<^verbatim>\<open>segmenter.c\<close>, \<^verbatim>\<open>segmenters/\<close>): cutting inputs into
    chunks. \<open>Engine_Frame\<close> (\<^verbatim>\<open>compress2.c\<close>, \<^verbatim>\<open>cctx.c\<close>, \<^verbatim>\<open>decompress2.c\<close>): whole frames, both ways.

  \<^bold>\<open>Decompression\<close> (\<^verbatim>\<open>decompress/decompress2.c\<close>, \<^verbatim>\<open>dtransforms.c\<close>, \<^verbatim>\<open>dictx.c\<close>).
  \<^item> \<open>Engine_Decode\<close>: placing the streams of a chunk and running its decoders. \<open>Engine_Safety\<close>: what holds for every
    input, written by a compressor or not.
  \<^item> \<open>Engine_Description\<close>, \<open>Engine_Roundtrip\<close>: the description of a sound runtime graph makes the decoder undo its nodes
    one by one.
  \<^item> \<open>Engine_Progress\<close>: every chunk takes bytes, so the loop over them ends.
  \<^item> \<open>Engine_Theorems\<close>: what all this promises, with an example that runs through it.

  \<^bold>\<open>SDDL2\<close> (\<^verbatim>\<open>compress/graphs/sddl2\<close>).
  \<^item> \<open>SDDL2_VM\<close>: the stack, types, registers, tags, segments and the trace, as one record; an
    operation is a state transformer with the results \<open>Ok\<close>, \<open>Fail\<close> and undefined behaviour. Every
    opcode of the source is a definition.
  \<^item> \<open>SDDL2_VM_Exact\<close>: arithmetic, loads, variables and type constructors compute what they mean, on
    every branch, errors and wrap-around included.
  \<^item> \<open>SDDL2_VM_Invariant\<close>: the segments made so far lie end to end from the start of the input up to
    the cursor, and each operation keeps this.
  \<^item> \<open>SDDL2_Interpreter\<close>: decoding of instructions, the dispatch, the step relation and the loop,
    with termination (the program counter only grows) and the only sources of undefined behaviour.
  \<^item> \<open>SDDL2_Chunks\<close>, \<open>SDDL2_Chunks_Plan\<close>: the planner that groups segments into chunks, and the
    replay of a chunk.
  \<^item> This theory: the segmenter as a whole cuts the input without gap or overlap.

  \<^bold>\<open>Bounds and fuel.\<close> Loops are structural recursion or have a termination proof. Two functions count down: \<open>CCTX_runSuccessor\<close>
  counts the depth that is left, which is a limit of the code, and \<open>decompressChunks\<close> takes one more than the size of the frame, which
  \<open>decompress_returns\<close> shows to be enough for every input.
  Sizes are \<^typ>\<open>64 word\<close> where the code can wrap and \<^typ>\<open>nat\<close> where a check before excludes it.

  \<^bold>\<open>What is assumed.\<close> Functions of the user are arguments: graph functions and segmenters make any calls but pass no edge
  twice to one node and return the error of a call that failed; custom codecs are inverted by their decoders; a loader
  finds the bundle it is asked for. The hash is any function. Allocation may fail on the way in; the round trips
  say what happens when the decoder gets its memory.

  \<^bold>\<open>Not modelled\<close>: permissive compression, which replaces a graph that failed, trial compression and the codec output cache;
  decoder fusion and the shortcut that lets a decoder write into the output; segmenters below a selector; the
  registration of nodes and graphs (\<^verbatim>\<open>compress/cgraph.c\<close>, \<^verbatim>\<open>nodemgr.c\<close>, \<^verbatim>\<open>graphmgr.c\<close>); the entropy coders, LZ,
  ROLZ, tokenize, transpose, split and the other codecs; dictionaries themselves; the serialization of compressors; the first SDDL; logging, operation contexts,
  arenas and object lifetimes; the vendored XXH3 and zstd; command line, bindings and tests.
\<close>

definition segment_bytes :: "byte list \<Rightarrow> SDDL2_Segment \<Rightarrow> byte list" where
  "segment_bytes input g = take (unat (size_bytes g)) (drop (unat (start_pos g)) input)"

lemma tiles_cut:
  assumes "tiles p gs q" "unat p + sum_list (map (\<lambda>g. unat (size_bytes g)) gs) = length input"
    "length input < 2 ^ 64"
  shows "concat (map (segment_bytes input) gs) = drop (unat p) input"
  using assms
proof (induction gs arbitrary: p)
  case (Cons g gs)
  have b: "unat (p + size_bytes g) = unat p + unat (size_bytes g)"
    using Cons.prems by (simp add: unat_add_lem [THEN iffD1])
  have "concat (map (segment_bytes input) gs) = drop (unat (size_bytes g)) (drop (unat p) input)"
    using Cons.IH [of "p + size_bytes g"] Cons.prems b by (simp add: add.commute)
  then show ?case
    using Cons.prems(1) by (simp add: segment_bytes_def [of input g] del: drop_drop)
qed simp

lemma segment_list_init:
  "SDDL2_Segment_list_init al = (segs, al') \<Longrightarrow>
     seg_items segs = [] \<and> seg_capacity segs \<le> SDDL2_SEGMENT_MAX_CAPACITY"
  by (auto simp: SDDL2_Segment_list_init_def split: option.splits prod.splits)

lemma vm_segments_tile:
  assumes "sddl2_execute_vm_segments bytecode input al = Ok gs"
  shows "\<exists>q. tiles 0 gs q"
proof -
  obtain segs al' where i: "SDDL2_Segment_list_init al = (segs, al')" by force
  obtain r segs' al'' where x: "SDDL2_execute_bytecode bytecode input segs al' = (r, segs', al'')"
    using prod_cases3 by blast
  have "gs = seg_items segs'"
    using assms by (cases r) (simp_all add: sddl2_execute_vm_segments_def i x)
  moreover have "\<exists>s. vm_wf input s \<and> segs' = segments s"
    using execute_wf [OF _ _ x] segment_list_init [OF i] by blast
  ultimately show ?thesis by (auto simp: vm_wf_defs)
qed

text \<open>
  C9: the SDDL2 segmenter cuts its whole input. When it succeeds, the segments the bytecode
  emitted, if there are any, are consecutive slices of the input that put together are the
  input, although the machine's own bound check can wrap; the chunks handed on have the
  input's size in total, each is made of its slices and respects the chunk size limit, and
  the slices are the segments in order. With no segment the whole input is one stored chunk.
\<close>

theorem segmenter_cuts_input:
  assumes "SDDL2_segment process scratch al bytecode input chunkSize fmtVersion = Some (Inr chunks)"
    "length input < 2 ^ 64"
  shows "\<exists>segs limit. sddl2_execute_vm_segments bytecode input al = Ok segs
    \<and> sddl2_resolve_chunk_size_limit chunkSize fmtVersion = Inr limit
    \<and> (if segs = [] then chunks = [Store_chunk (word_of_nat (length input))]
       else concat (map (segment_bytes input) segs) = input
         \<and> sum_list (map (\<lambda>c. unat (chunk_bytes c)) chunks) = length input
         \<and> list_all (chunk_wf limit) chunks
         \<and> (\<exists>parts. list_all2 (sliced limit) (segment_ids 0 segs) parts
              \<and> concat parts = concat (map chunk_ids chunks)))"
proof -
  obtain limit segs where l: "sddl2_resolve_chunk_size_limit chunkSize fmtVersion = Inr limit"
    and v: "sddl2_execute_vm_segments bytecode input al = Ok segs"
    and p: "sddl2_plan_segment_chunks process scratch segs (word_of_nat (length input)) limit = Inr chunks"
    using assms(1) by (auto simp: SDDL2_segment_def split: sum.splits vmres.splits)
  have n: "unat (word_of_nat (length input) :: size_t) = length input"
    using assms(2) by (simp add: unsigned_of_nat take_bit_nat_eq_self)
  show ?thesis
  proof (cases "segs = []")
    case True
    with p have "chunks = [Store_chunk (word_of_nat (length input))]"
      by (auto simp: sddl2_plan_segment_chunks_def)
    with l v True show ?thesis by auto
  next
    case False
    note P = plan_covers [OF p False, unfolded n]
    obtain q where "tiles 0 segs q" using vm_segments_tile [OF v] by blast
    then have "concat (map (segment_bytes input) segs) = drop (unat (0 :: size_t)) input"
      using P assms(2) by (intro tiles_cut) simp_all
    with l v False P show ?thesis by auto
  qed
qed

lemma run_program_segments:
  "run_program bytecode input = (Ok u, segs) \<Longrightarrow>
     sddl2_execute_vm_segments bytecode input heap_allocator = Ok segs"
  by (auto simp: run_program_def sddl2_execute_vm_segments_def split: prod.splits)

theorem segmenter_cuts_input_witness:
  "\<exists>chunks. SDDL2_segment (\<lambda>_ _. Inr ()) (\<lambda>_. True) heap_allocator header_program [2, 0xaa, 0xbb]
       (Some 2) 21 = Some (Inr chunks)
     \<and> sum_list (map (\<lambda>c. unat (chunk_bytes c)) chunks) = 3"
proof -
  note v = run_program_segments [OF run_header_program]
  let ?seg = "SDDL2_segment (\<lambda>_ _. Inr ()) (\<lambda>_. True) heap_allocator header_program [2, 0xaa, 0xbb]
    (Some 2) 21"
  have "\<exists>chunks. ?seg = Some (Inr chunks)"
    by (simp add: SDDL2_segment_def sddl2_resolve_chunk_size_limit_def v plan_defs
        bytes_type_def split_loop.simps)
  then obtain chunks where c: "?seg = Some (Inr chunks)" ..
  with segmenter_cuts_input [OF c] v show ?thesis by auto
qed
end
